(* ===== verification/Prelude.thy ===== *)
theory Prelude
  imports Main "HOL-Library.Word"
begin

text \<open>
  Shared ground of the development: the machine types of the Rust sources, little-endian
  encoding (\<^verbatim>\<open>to_le_bytes\<close> / \<^verbatim>\<open>from_le_bytes\<close>), byte buffers with the slice operations
  the code uses (\<^verbatim>\<open>copy_from_slice\<close>, \<^verbatim>\<open>resize\<close>), bit tests, results with an error value,
  and the generic lemmas about them.  The collections \<open>le_simps\<close> (encoding) and
  \<open>buf_simps\<close> (buffers) are what the component proofs pass to the simplifier.
\<close>

unbundle bit_operations_syntax

section \<open>Machine types\<close>

type_synonym u8 = "8 word"
type_synonym u16 = "16 word"
type_synonym u32 = "32 word"
type_synonym u64 = "64 word"
type_synonym bytes = "u8 list"

text \<open>A fallible Rust operation: \<open>Inl\<close> carries the error, \<open>Inr\<close> the value.\<close>

type_synonym 'a result = "string + 'a"

named_theorems le_simps and buf_simps

section \<open>Little-endian encoding\<close>

definition le16 :: "u16 \<Rightarrow> bytes" where
  "le16 w = [ucast w, ucast (drop_bit 8 w)]"

definition of_le16 :: "u8 \<Rightarrow> u8 \<Rightarrow> u16" where
  "of_le16 a b = ucast a OR push_bit 8 (ucast b)"

definition le32 :: "u32 \<Rightarrow> bytes" where
  "le32 w = [ucast w, ucast (drop_bit 8 w), ucast (drop_bit 16 w), ucast (drop_bit 24 w)]"

definition of_le32 :: "u8 \<Rightarrow> u8 \<Rightarrow> u8 \<Rightarrow> u8 \<Rightarrow> u32" where
  "of_le32 a b c d =
     ucast a OR push_bit 8 (ucast b) OR push_bit 16 (ucast c) OR push_bit 24 (ucast d)"

definition le64 :: "u64 \<Rightarrow> bytes" where
  "le64 w = le32 (ucast w) @ le32 (ucast (drop_bit 32 w))"

definition of_le64 :: "u32 \<Rightarrow> u32 \<Rightarrow> u64" where
  "of_le64 lo hi = ucast lo OR push_bit 32 (ucast hi)"

lemma length_le [simp, le_simps]:
  "length (le16 w) = 2" "length (le32 x) = 4" "length (le64 y) = 8"
  by (simp_all add: le16_def le32_def le64_def)

lemma of_le16_le16 [simp, le_simps]: "of_le16 (ucast w) (ucast (drop_bit 8 w)) = w"
  by (rule bit_word_eqI) (auto simp: of_le16_def bit_simps)

lemma of_le32_le32 [simp, le_simps]:
  "of_le32 (ucast w) (ucast (drop_bit 8 w)) (ucast (drop_bit 16 w)) (ucast (drop_bit 24 w)) = w"
proof (rule bit_word_eqI)
  fix n assume "n < LENGTH(32)"
  then consider "n < 8" | "8 \<le> n" "n < 16" | "16 \<le> n" "n < 24" | "24 \<le> n" "n < 32"
    by fastforce
  then show "bit (of_le32 (ucast w) (ucast (drop_bit 8 w)) (ucast (drop_bit 16 w)) (ucast (drop_bit 24 w))) n
      = bit w n"
    by cases (auto simp: of_le32_def bit_simps)
qed

lemma of_le64_le64 [simp, le_simps]: "of_le64 (ucast w) (ucast (drop_bit 32 w)) = w"
  by (rule bit_word_eqI) (auto simp: of_le64_def bit_simps)

lemma bit_u8_high: "bit (a :: u8) n \<Longrightarrow> n < 8"
  using bit_imp_le_length [of a n] by simp

lemma of_le16_bytes [simp]:
  "ucast (of_le16 a b) = a" "ucast (drop_bit 8 (of_le16 a b)) = b"
  by (rule bit_word_eqI, auto simp: of_le16_def bit_simps dest: bit_u8_high)+

lemma of_le32_bytes [simp]:
  "ucast (of_le32 a b c d) = a" "ucast (drop_bit 8 (of_le32 a b c d)) = b"
  "ucast (drop_bit 16 (of_le32 a b c d)) = c" "ucast (drop_bit 24 (of_le32 a b c d)) = d"
  by (rule bit_word_eqI, auto simp: of_le32_def bit_simps dest: bit_u8_high)+

lemma of_le32_of_le16: "of_le32 a b c d = ucast (of_le16 a b) OR push_bit 16 (ucast (of_le16 c d))"
proof (rule bit_word_eqI)
  fix n assume "n < LENGTH(32)"
  then consider "n < 8" | "8 \<le> n" "n < 16" | "16 \<le> n" "n < 24" | "24 \<le> n" "n < 32"
    by fastforce
  then show "bit (of_le32 a b c d) n = bit (ucast (of_le16 a b) OR push_bit 16 (ucast (of_le16 c d)) :: u32) n"
  proof cases
    case 3
    then have "\<not> bit a n" "\<not> bit b (n - 8)" "n - 16 < 8" using bit_u8_high [of a n] bit_u8_high [of b "n - 8"] by auto
    with 3 show ?thesis by (simp add: of_le32_def of_le16_def bit_simps)
  next
    case 4
    then have "\<not> bit a n" "\<not> bit b (n - 8)" "\<not> bit c (n - 16)"
      using bit_u8_high [of a n] bit_u8_high [of b "n - 8"] bit_u8_high [of c "n - 16"] by auto
    with 4 show ?thesis by (auto simp: of_le32_def of_le16_def bit_simps)
  qed (auto simp: of_le32_def of_le16_def bit_simps dest: bit_u8_high)
qed

lemma le16_of_le16 [simp]: "le16 (of_le16 a b) = [a, b]"
  by (simp add: le16_def)

lemma le32_of_le32 [simp]: "le32 (of_le32 a b c d) = [a, b, c, d]"
  by (simp add: le32_def)

section \<open>Byte buffers\<close>

text \<open>
  Little-endian reads out of a buffer, and \<open>put xs i bs\<close>: the buffer \<open>xs\<close> after
  \<^verbatim>\<open>xs[i..i + bs.len()].copy_from_slice(bs)\<close>.  Rust panics when the range leaves the
  buffer; every use in the model is under an invariant that keeps it inside.
\<close>

definition get16 :: "bytes \<Rightarrow> nat \<Rightarrow> u16" where
  "get16 xs i = of_le16 (xs ! i) (xs ! (i + 1))"

definition get32 :: "bytes \<Rightarrow> nat \<Rightarrow> u32" where
  "get32 xs i = of_le32 (xs ! i) (xs ! (i + 1)) (xs ! (i + 2)) (xs ! (i + 3))"

definition get64 :: "bytes \<Rightarrow> nat \<Rightarrow> u64" where
  "get64 xs i = of_le64 (get32 xs i) (get32 xs (i + 4))"

definition put :: "'a list \<Rightarrow> nat \<Rightarrow> 'a list \<Rightarrow> 'a list" where
  "put xs i bs = take i xs @ bs @ drop (i + length bs) xs"

text \<open>\<^verbatim>\<open>Vec::resize(n, v)\<close>.\<close>

definition resize :: "'a list \<Rightarrow> nat \<Rightarrow> 'a \<Rightarrow> 'a list" where
  "resize xs n v = take n xs @ replicate (n - length xs) v"

lemma length_put [simp, buf_simps]: "i + length bs \<le> length xs \<Longrightarrow> length (put xs i bs) = length xs"
  by (simp add: put_def)

lemma put_nth [buf_simps]:
  assumes "i + length bs \<le> length xs"
  shows "put xs i bs ! j = (if i \<le> j \<and> j < i + length bs then bs ! (j - i) else xs ! j)"
proof -
  consider "j < i" | "i \<le> j" "j < i + length bs" | "i + length bs \<le> j" by linarith
  then show ?thesis
  proof cases
    case 1
    with assms show ?thesis by (simp add: put_def nth_append)
  next
    case 2
    with assms show ?thesis by (simp add: put_def nth_append) linarith
  next
    case 3
    then have "\<not> j - i < length bs" by linarith
    with 3 assms show ?thesis by (simp add: put_def nth_append)
  qed
qed

lemma length_resize [simp, buf_simps]: "length (resize xs n v) = n"
  by (simp add: resize_def)

lemma resize_nth [buf_simps]:
  "j < n \<Longrightarrow> resize xs n v ! j = (if j < length xs then xs ! j else v)"
  by (simp add: resize_def nth_append)

lemma le16_nth [le_simps]:
  "le16 w ! 0 = ucast w" "le16 w ! 1 = ucast (drop_bit 8 w)" "le16 w ! Suc 0 = ucast (drop_bit 8 w)"
  by (simp_all add: le16_def)

lemma le32_nth [le_simps]:
  "le32 w ! 0 = ucast w" "le32 w ! 1 = ucast (drop_bit 8 w)" "le32 w ! Suc 0 = ucast (drop_bit 8 w)"
  "le32 w ! 2 = ucast (drop_bit 16 w)" "le32 w ! 3 = ucast (drop_bit 24 w)"
  by (simp_all add: le32_def eval_nat_numeral)

lemma get16_put_same [buf_simps]:
  "i + 2 \<le> length xs \<Longrightarrow> get16 (put xs i (le16 w)) i = w"
  by (simp add: get16_def put_nth le_simps)

lemma get32_put_same [buf_simps]:
  "i + 4 \<le> length xs \<Longrightarrow> get32 (put xs i (le32 w)) i = w"
  by (simp add: get32_def put_nth le_simps)

lemma put_get32 [buf_simps]:
  assumes "i + 4 \<le> length xs"
  shows "put xs i (le32 (get32 xs i)) = xs"
proof (rule nth_equalityI)
  fix j assume "j < length (put xs i (le32 (get32 xs i)))"
  consider "j = i" | "j = i + 1" | "j = i + 2" | "j = i + 3" | "j < i \<or> i + 4 \<le> j" by linarith
  then show "put xs i (le32 (get32 xs i)) ! j = xs ! j"
    using assms by cases (auto simp: put_nth le32_nth get32_def)
qed (use assms in simp)

lemma get32_put_other [buf_simps]:
  assumes "i + length bs \<le> length xs" and "j + 4 \<le> i \<or> i + length bs \<le> j"
  shows "get32 (put xs i bs) j = get32 xs j"
  using assms by (auto simp: get32_def put_nth)

lemma get16_put_other [buf_simps]:
  assumes "i + length bs \<le> length xs" and "j + 2 \<le> i \<or> i + length bs \<le> j"
  shows "get16 (put xs i bs) j = get16 xs j"
  using assms by (auto simp: get16_def put_nth)

lemma get64_put_other [buf_simps]:
  assumes "i + length bs \<le> length xs" and "j + 8 \<le> i \<or> i + length bs \<le> j"
  shows "get64 (put xs i bs) j = get64 xs j"
  using assms by (auto simp: get64_def get32_put_other)

lemma get64_put_same [buf_simps]:
  assumes "i + 8 \<le> length xs"
  shows "get64 (put xs i (le64 w)) i = w"
proof -
  have split: "put xs i (le64 w) = put (put xs i (le32 (ucast w))) (i + 4) (le32 (ucast (drop_bit 32 w)))"
    using assms by (simp add: put_def le64_def min_def add.commute)
  show ?thesis
    unfolding split using assms by (simp add: get64_def buf_simps)
qed

lemma put_same_length_append: "length bs = length xs \<Longrightarrow> put xs 0 bs = bs"
  by (simp add: put_def)

lemma put_append_drop [buf_simps]:
  "length pre = i \<Longrightarrow> length bs = length old \<Longrightarrow> put (pre @ old @ post) i bs = pre @ bs @ post"
  by (auto simp: put_def)

lemma get16_at [buf_simps]: "length pre = i \<Longrightarrow> get16 (pre @ le16 w @ post) i = w"
  using get16_put_same [of i "pre @ le16 w @ post" w] by (simp add: put_append_drop [where old = "le16 w"])

lemma get32_at [buf_simps]: "length pre = i \<Longrightarrow> get32 (pre @ le32 w @ post) i = w"
  using get32_put_same [of i "pre @ le32 w @ post" w] by (simp add: put_append_drop [where old = "le32 w"])

lemma take_drop_at: "length pre = i \<Longrightarrow> length xs = n \<Longrightarrow> take n (drop i (pre @ xs @ post)) = xs"
  by auto

lemma length_concat_le16: "length (concat (map le16 ws)) = 2 * length ws"
  by (induction ws) simp_all

section \<open>Bit tests\<close>

text \<open>\<^verbatim>\<open>x & (1 << n) != 0\<close> as a bit test.\<close>

lemma and_mask_bit: "(x AND push_bit n 1 \<noteq> 0) = bit x n" for x :: "'a::len word"
  by (simp add: push_bit_of_1 and_exp_eq_0_iff_not_bit)

lemma and_1_bit: "(x AND 1 \<noteq> 0) = bit x 0" for x :: "'a::len word"
  using and_mask_bit [of x 0] by simp

definition b2w :: "bool \<Rightarrow> 'a::len word" where
  "b2w b = (if b then 1 else 0)"

lemma bit_b2w [simp]: "bit (b2w b :: 'a::len word) n = (b \<and> n = 0)"
  by (simp add: b2w_def bit_1_iff)

lemma b2w_eq_0 [simp]: "b2w b = (0 :: 'a::len word) \<longleftrightarrow> \<not> b"
  by (simp add: b2w_def)

text \<open>\<^verbatim>\<open>u8::trailing_zeros\<close> and \<^verbatim>\<open>x & x.wrapping_neg()\<close>: number and mask of the lowest set bit.\<close>

definition trailing_zeros8 :: "u8 \<Rightarrow> nat" where
  "trailing_zeros8 x = length (takeWhile (\<lambda>i. \<not> bit x i) [0..<8])"

lemma takeWhile_upt_least:
  assumes "k < n" and "P k" and "\<And>i. i < k \<Longrightarrow> \<not> P i"
  shows "takeWhile (\<lambda>i. \<not> P i) [0..<n] = [0..<k]"
proof -
  have "[0..<n] = [0..<k] @ [k..<n]"
    using assms(1) by (metis less_imp_le upt_add_eq_append le_add_diff_inverse zero_le)
  moreover have "[k..<n] = k # [Suc k..<n]"
    using assms(1) by (rule upt_conv_Cons)
  ultimately show ?thesis
    using assms(2,3) by (simp add: takeWhile_append)
qed

lemma trailing_zeros8_least:
  assumes "k < 8" and "bit x k" and "\<And>i. i < k \<Longrightarrow> \<not> bit x i"
  shows "trailing_zeros8 x = k"
  using takeWhile_upt_least [of k 8 "bit x"] assms by (simp add: trailing_zeros8_def)

lemma word8_least_bit:
  fixes x :: u8
  assumes "x \<noteq> 0"
  obtains k where "k < 8" "bit x k" "\<And>i. i < k \<Longrightarrow> \<not> bit x i"
proof -
  from assms obtain n where n: "bit x n" by (auto simp: bit_eq_iff)
  let ?k = "LEAST n. bit x n"
  have k: "bit x ?k" using n by (rule LeastI)
  moreover have "?k < 8" using bit_imp_le_length [OF k] by simp
  moreover have "\<not> bit x i" if "i < ?k" for i using that by (rule not_less_Least)
  ultimately show ?thesis by (blast intro: that)
qed

lemma odd_and_minus: "odd y \<Longrightarrow> y AND - y = 1" for y :: "'a::len word"
proof -
  assume odd: "odd y"
  have "NOT y AND 1 = 0" using odd by (simp add: and_one_eq mod_2_eq_odd even_not_iff)
  then have "y - 1 = y AND NOT 1" by (rule disjunctive_diff_eq_and_not)
  then have "y AND - y = y AND NOT (y AND NOT 1)" by (simp only: minus_eq_not_minus_1 [of y])
  also have "\<dots> = 1" using odd by (intro bit_word_eqI) (auto simp: bit_simps bit_0)
  finally show ?thesis .
qed

lemma lowest_bit_mask:
  fixes x :: "'a::len word"
  assumes "bit x k" "\<And>i. i < k \<Longrightarrow> \<not> bit x i"
  shows "x AND - x = push_bit k 1"
proof -
  define y where "y = drop_bit k x"
  have "bit x n = bit (push_bit k y) n" if "n < LENGTH('a)" for n
    using that assms(2) [of n] by (cases "k \<le> n") (auto simp: y_def bit_simps)
  then have x: "x = push_bit k y" by (rule bit_word_eqI)
  have "bit y 0" using assms(1) by (simp only: y_def bit_drop_bit_eq comp_apply add_0_right)
  then have "odd y" using bit_0 [of y] by blast
  have "x AND - x = push_bit k (y AND - y)"
    unfolding push_bit_and push_bit_minus by (subst (1 2) x) (rule refl)
  then show ?thesis using odd_and_minus [OF \<open>odd y\<close>] by simp
qed

section \<open>Unsigned bounds\<close>

lemma unat_bounds:
  "unat (a :: u8) < 256" "unat (b :: u16) < 65536" "unat (c :: u32) < 4294967296"
  using unsigned_less [of a] unsigned_less [of b] unsigned_less [of c] by simp_all

lemma unat_of_nat_u32: "n < 2 ^ 32 \<Longrightarrow> unat (of_nat n :: u32) = n"
  by (simp add: unat_of_nat)

lemma unat_minus_of_nat_u32: "n \<le> unat c \<Longrightarrow> unat (c - of_nat n :: u32) = unat c - n"
  using unat_bounds(3) [of c] by (subst unat_sub) (simp_all add: word_le_nat_alt unat_of_nat)

lemma unat_ucast_wider:
  "unat (ucast (a :: u8) :: u16) = unat a" "unat (ucast (a :: u8) :: u32) = unat a"
  "unat (ucast (b :: u16) :: u32) = unat b" "unat (ucast (c :: u32) :: u64) = unat c"
  using unat_bounds(1) [of a] unat_bounds(2) [of b] unat_bounds(3) [of c]
  by (simp_all add: unsigned_ucast_eq take_bit_nat_eq_self)

lemma ucast_eq_0_wider:
  "(ucast (b :: u16) :: u32) = 0 \<longleftrightarrow> b = 0" "(ucast (c :: u32) :: u64) = 0 \<longleftrightarrow> c = 0"
  by (simp_all add: word_unat_eq_iff unat_ucast_wider)

lemma not_bit_above: "unat x < 2 ^ k \<Longrightarrow> k \<le> n \<Longrightarrow> \<not> bit x n" for x :: "'a::len word"
proof
  assume "unat x < 2 ^ k" "k \<le> n" "bit x n"
  then have "bit (unat x) n" by (simp add: bit_unsigned_iff bit_imp_le_length)
  moreover have "unat x < 2 ^ n" using \<open>unat x < 2 ^ k\<close> \<open>k \<le> n\<close> by (meson less_le_trans one_le_numeral power_increasing)
  ultimately show False by (simp add: bit_iff_odd)
qed

section \<open>Cell stores\<close>

text \<open>
  The contract that guest RAM, the CMOS storage and the plain NIC registers share: some
  addresses are plain cells, a write to a plain cell is read back there, is seen nowhere
  else, and keeps the set of plain cells.  \<open>write_cells\<close> is a sequence of such writes; the
  client lemma says it behaves as the map update it spells.
\<close>

fun write_cells :: "('s \<Rightarrow> 'a \<Rightarrow> 'v \<Rightarrow> 's) \<Rightarrow> 's \<Rightarrow> ('a \<times> 'v) list \<Rightarrow> 's" where
  "write_cells wr s [] = s"
| "write_cells wr s ((a, v) # avs) = write_cells wr (wr s a v) avs"

locale cell_store =
  fixes rd :: "'s \<Rightarrow> 'a \<Rightarrow> 'v" and wr :: "'s \<Rightarrow> 'a \<Rightarrow> 'v \<Rightarrow> 's" and plain :: "'s \<Rightarrow> 'a \<Rightarrow> bool"
  assumes rd_wr: "plain s a \<Longrightarrow> rd (wr s a v) b = (if b = a then v else rd s b)"
    and plain_wr: "plain s a \<Longrightarrow> plain (wr s a v) b = plain s b"
begin

lemma write_cells_plain:
  "(\<And>a. a \<in> fst ` set avs \<Longrightarrow> plain s a) \<Longrightarrow> plain (write_cells wr s avs) b = plain s b"
proof (induction avs arbitrary: s)
  case (Cons av avs)
  obtain a v where av: "av = (a, v)" by (cases av)
  have "plain s a" using Cons.prems av by simp
  then show ?case
    using Cons.IH [of "wr s a v"] Cons.prems by (simp add: av plain_wr)
qed simp

lemma write_cells_rd:
  assumes "distinct (map fst avs)" and "\<And>a. a \<in> fst ` set avs \<Longrightarrow> plain s a"
  shows "rd (write_cells wr s avs) b = (case map_of avs b of Some v \<Rightarrow> v | None \<Rightarrow> rd s b)"
  using assms
proof (induction avs arbitrary: s)
  case Nil
  then show ?case by simp
next
  case (Cons av avs)
  obtain a v where av: "av = (a, v)" by (cases av)
  have plain_a: "plain s a" using Cons.prems(2) av by simp
  have "rd (write_cells wr (wr s a v) avs) b
      = (case map_of avs b of Some v \<Rightarrow> v | None \<Rightarrow> rd (wr s a v) b)"
    using Cons.prems av by (intro Cons.IH) (auto simp: plain_wr plain_a)
  moreover have "map_of avs a = None"
    using Cons.prems(1) av by (simp add: map_of_eq_None_iff)
  ultimately show ?case
    by (auto simp: av rd_wr plain_a split: option.splits)
qed

end

section \<open>Iteration\<close>

lemma funpow_invariant: "(\<And>s. P s \<Longrightarrow> P (f s)) \<Longrightarrow> P s \<Longrightarrow> P ((f ^^ n) s)"
  by (induction n) auto

end
