(* ===== verification/Memory.thy ===== *)
theory Memory
  imports Prelude
begin

text \<open>
  Guest physical memory (\<^verbatim>\<open>crates/mem/src/lib.rs\<close>): flat RAM, the 4 KiB LAPIC window and the
  1 KiB HPET window with the timers behind them, and the pending local interrupt.  The
  fixed-size arrays of the struct are lists whose lengths the invariant \<open>mem_wf\<close> fixes;
  \<^verbatim>\<open>usize\<close> addresses are \<open>nat\<close>.  The watchpoint of \<^verbatim>\<open>WWWVM_WATCH_PHYS\<close> is an argument of the
  constructor; the line it prints is not modelled, the branch it selects is.
\<close>

section \<open>State\<close>

definition LAPIC_BASE :: u32 where "LAPIC_BASE = 0xFEE00000"
definition LAPIC_SIZE :: u32 where "LAPIC_SIZE = 0x1000"
definition HPET_BASE :: u32 where "HPET_BASE = 0xFED00000"
definition HPET_SIZE :: u32 where "HPET_SIZE = 0x0400"

record memory =
  mem_bytes :: bytes
  mem_lapic :: bytes
  mem_hpet :: bytes
  pending_lapic_irq :: "u8 option"
  hpet_period :: "u32 list"
  watch_phys :: "(u32 \<times> u32) option"

definition lapic_init :: bytes where
  "lapic_init = (replicate 4096 0)[0x30 := 0x14, 0x32 := 0x06, 0xF1 := 0x01]"

definition hpet_init :: bytes where
  "hpet_init = (replicate 1024 0)[0x00 := 0x01, 0x01 := 0xA2, 0x02 := 0x86, 0x03 := 0x80,
     0x04 := 0x00, 0x05 := 0xE1, 0x06 := 0xF5, 0x07 := 0x05]"

definition mem_new :: "(u32 \<times> u32) option \<Rightarrow> nat \<Rightarrow> memory" where
  "mem_new watch sz =
     \<lparr>mem_bytes = replicate sz 0, mem_lapic = lapic_init, mem_hpet = hpet_init,
      pending_lapic_irq = None, hpet_period = [0, 0, 0], watch_phys = watch\<rparr>"

definition mem_size :: "memory \<Rightarrow> nat" where
  "mem_size m = length (mem_bytes m)"

definition mem_resize :: "memory \<Rightarrow> nat \<Rightarrow> memory" where
  "mem_resize m new_size =
     (if length (mem_bytes m) < new_size
      then m\<lparr>mem_bytes := resize (mem_bytes m) new_size 0\<rparr> else m)"

section \<open>Byte reads\<close>

definition is_lapic :: "u32 \<Rightarrow> bool" where
  "is_lapic addr \<longleftrightarrow> addr - LAPIC_BASE < LAPIC_SIZE"

definition is_hpet :: "u32 \<Rightarrow> bool" where
  "is_hpet addr \<longleftrightarrow> addr - HPET_BASE < HPET_SIZE"

definition read_u8 :: "memory \<Rightarrow> u32 \<Rightarrow> u8" where
  "read_u8 m addr =
     (let a = unat addr in
      if a < length (mem_bytes m) then mem_bytes m ! a
      else if is_lapic addr then mem_lapic m ! unat (addr - LAPIC_BASE)
      else if is_hpet addr then mem_hpet m ! unat (addr - HPET_BASE)
      else 0)"

definition read_code_u8 :: "memory \<Rightarrow> u32 \<Rightarrow> u8" where
  "read_code_u8 m addr =
     (let a = unat addr in if a < length (mem_bytes m) then mem_bytes m ! a else 0)"

definition read_ram_u16 :: "memory \<Rightarrow> u32 \<Rightarrow> u16 option" where
  "read_ram_u16 m phys =
     (let a = unat phys in
      if a + 2 \<le> length (mem_bytes m)
      then Some (of_le16 (mem_bytes m ! a) (mem_bytes m ! (a + 1))) else None)"

definition read_ram_u32 :: "memory \<Rightarrow> u32 \<Rightarrow> u32 option" where
  "read_ram_u32 m phys =
     (let a = unat phys in
      if a + 4 \<le> length (mem_bytes m)
      then (let b = take 4 (drop a (mem_bytes m))
            in Some (of_le32 (b ! 0) (b ! 1) (b ! 2) (b ! 3)))
      else None)"

section \<open>Byte writes\<close>

text \<open>
  A write inside the LAPIC window: the byte is stored; Initial Count (0x380..0x383) is
  mirrored into Current Count (0x390..); a write of the last byte of ICR low (0x303)
  decodes the command and queues a self-targeted fixed-delivery vector.
\<close>

definition lapic_svr_enabled :: "memory \<Rightarrow> bool" where
  "lapic_svr_enabled m \<longleftrightarrow> mem_lapic m ! 0xF1 AND 0x01 \<noteq> 0"

definition lapic_queue :: "memory \<Rightarrow> u8 \<Rightarrow> memory" where
  "lapic_queue m vector =
     (case pending_lapic_irq m of
        None \<Rightarrow> m\<lparr>pending_lapic_irq := Some vector\<rparr>
      | Some _ \<Rightarrow> m)"

definition lapic_icr_command :: "memory \<Rightarrow> memory" where
  "lapic_icr_command m =
     (let icr_lo = get32 (mem_lapic m) 0x300;
          delivery_mode = drop_bit 8 icr_lo AND 7;
          shorthand = drop_bit 18 icr_lo AND 3;
          self_targeted = (shorthand = 1 \<or> shorthand = 2);
          svr_enabled = lapic_svr_enabled m
      in if delivery_mode = 0 \<and> self_targeted \<and> svr_enabled
         then lapic_queue m (ucast (icr_lo AND 0xFF)) else m)"

definition lapic_write :: "memory \<Rightarrow> nat \<Rightarrow> u8 \<Rightarrow> memory" where
  "lapic_write m off value =
     (let m1 = m\<lparr>mem_lapic := (mem_lapic m)[off := value]\<rparr>;
          m2 = (if 0x380 \<le> off \<and> off < 0x384
                then m1\<lparr>mem_lapic := (mem_lapic m1)[0x390 + (off - 0x380) := value]\<rparr> else m1)
      in if off = 0x303 then lapic_icr_command m2 else m2)"

text \<open>A write inside the HPET window latches the period of the timer whose comparator it hits.\<close>

fun hpet_latch_period :: "nat list \<Rightarrow> nat \<Rightarrow> bytes \<Rightarrow> u32 list \<Rightarrow> u32 list" where
  "hpet_latch_period [] off h ps = ps"
| "hpet_latch_period (tn # tns) off h ps =
     (let cmp_lo_start = 0x108 + tn * 0x20 in
      if cmp_lo_start \<le> off \<and> off < cmp_lo_start + 4 then ps[tn := get32 h cmp_lo_start]
      else hpet_latch_period tns off h ps)"

definition hpet_write :: "memory \<Rightarrow> nat \<Rightarrow> u8 \<Rightarrow> memory" where
  "hpet_write m off value =
     (let h = (mem_hpet m)[off := value]
      in m\<lparr>mem_hpet := h, hpet_period := hpet_latch_period [0, 1, 2] off h (hpet_period m)\<rparr>)"

definition write_u8 :: "memory \<Rightarrow> u32 \<Rightarrow> u8 \<Rightarrow> memory" where
  "write_u8 m addr value =
     (let a = unat addr in
      if length (mem_bytes m) \<le> a then
        (if is_lapic addr then lapic_write m (unat (addr - LAPIC_BASE)) value
         else if is_hpet addr then hpet_write m (unat (addr - HPET_BASE)) value
         else m)
      else m\<lparr>mem_bytes := (mem_bytes m)[a := value]\<rparr>)"

text \<open>
  The bulk store.  With a watchpoint armed it goes through \<open>write_u8\<close> byte by byte
  (\<open>phys + i as u32\<close> cannot overflow, the range lies in RAM), otherwise it copies.
\<close>

fun write_u8_seq :: "memory \<Rightarrow> u32 \<Rightarrow> bytes \<Rightarrow> memory" where
  "write_u8_seq m addr [] = m"
| "write_u8_seq m addr (b # bs) = write_u8_seq (write_u8 m addr b) (addr + 1) bs"

definition write_ram_bulk :: "memory \<Rightarrow> u32 \<Rightarrow> bytes \<Rightarrow> memory \<times> bool" where
  "write_ram_bulk m phys bs =
     (let start = unat phys in
      if start + length bs \<le> length (mem_bytes m)
      then (if watch_phys m \<noteq> None then (write_u8_seq m phys bs, True)
            else (m\<lparr>mem_bytes := put (mem_bytes m) start bs\<rparr>, True))
      else (m, False))"

section \<open>Word accesses\<close>

definition read_u16 :: "memory \<Rightarrow> u32 \<Rightarrow> u16" where
  "read_u16 m addr =
     (let lo = ucast (read_u8 m addr); hi = ucast (read_u8 m (addr + 1)) in lo OR push_bit 8 hi)"

definition write_u16 :: "memory \<Rightarrow> u32 \<Rightarrow> u16 \<Rightarrow> memory" where
  "write_u16 m addr value =
     (let m1 = write_u8 m addr (ucast value)
      in write_u8 m1 (addr + 1) (ucast (drop_bit 8 value)))"

definition read_u32 :: "memory \<Rightarrow> u32 \<Rightarrow> u32" where
  "read_u32 m addr =
     (let lo = ucast (read_u16 m addr); hi = ucast (read_u16 m (addr + 2)) in lo OR push_bit 16 hi)"

definition write_u32 :: "memory \<Rightarrow> u32 \<Rightarrow> u32 \<Rightarrow> memory" where
  "write_u32 m addr value =
     (let m1 = write_u16 m addr (ucast value)
      in write_u16 m1 (addr + 2) (ucast (drop_bit 16 value)))"

definition write_slice :: "memory \<Rightarrow> u32 \<Rightarrow> bytes \<Rightarrow> memory" where
  "write_slice m addr data =
     (let start = unat addr in
      if length (mem_bytes m) \<le> start then m
      else let e = min (start + length data) (length (mem_bytes m)); n = e - start
           in m\<lparr>mem_bytes := put (mem_bytes m) start (take n data)\<rparr>)"

section \<open>LAPIC timer\<close>

definition lapic_timer_zero_crossing :: "memory \<Rightarrow> memory" where
  "lapic_timer_zero_crossing m =
     (let lvt = get32 (mem_lapic m) 0x320;
          masked = (lvt AND push_bit 16 1 \<noteq> 0);
          periodic = (drop_bit 17 lvt AND 3 = 1);
          svr_enabled = lapic_svr_enabled m;
          m1 = (if svr_enabled \<and> \<not> masked then lapic_queue m (ucast lvt) else m)
      in if periodic
         then m1\<lparr>mem_lapic := put (mem_lapic m1) 0x390 (le32 (get32 (mem_lapic m1) 0x380))\<rparr>
         else m1)"

definition tick_lapic_timer :: "memory \<Rightarrow> memory" where
  "tick_lapic_timer m =
     (let cur = get32 (mem_lapic m) 0x390 in
      if cur = 0 then m
      else let next_count = cur - 1;
               m1 = m\<lparr>mem_lapic := put (mem_lapic m) 0x390 (le32 next_count)\<rparr>
           in if next_count \<noteq> 0 then m1 else lapic_timer_zero_crossing m1)"

definition take_pending_lapic_irq :: "memory \<Rightarrow> u8 option \<times> memory" where
  "take_pending_lapic_irq m = (pending_lapic_irq m, m\<lparr>pending_lapic_irq := None\<rparr>)"

section \<open>HPET\<close>

definition tick_hpet_timer :: "u64 \<Rightarrow> memory \<Rightarrow> nat \<Rightarrow> memory" where
  "tick_hpet_timer next_count m tn =
     (let base = 0x100 + tn * 0x20;
          cfg_lo = get32 (mem_hpet m) base
      in if cfg_lo AND (push_bit 2 1 OR push_bit 14 1) \<noteq> push_bit 2 1 OR push_bit 14 1 then m
         else
           let cmp_off = base + 0x08; cmp = get64 (mem_hpet m) cmp_off
           in if next_count \<noteq> cmp then m
              else
                let fsb_val = get32 (mem_hpet m) (base + 0x10);
                    m1 = (if lapic_svr_enabled m then lapic_queue m (ucast fsb_val) else m);
                    periodic = (cfg_lo AND push_bit 3 1 \<noteq> 0)
                in if periodic \<and> hpet_period m1 ! tn \<noteq> 0
                   then m1\<lparr>mem_hpet := put (mem_hpet m1) cmp_off
                             (le64 (cmp + ucast (hpet_period m1 ! tn)))\<rparr>
                   else m1)"

definition tick_hpet_counter_enabled :: "memory \<Rightarrow> memory" where
  "tick_hpet_counter_enabled m =
     (let cur = get64 (mem_hpet m) 0xF0; next_count = cur + 1;
          m1 = m\<lparr>mem_hpet := put (mem_hpet m) 0xF0 (le64 next_count)\<rparr>
      in foldl (tick_hpet_timer next_count) m1 [0, 1, 2])"

definition tick_hpet_counter :: "memory \<Rightarrow> memory" where
  "tick_hpet_counter m =
     (if mem_hpet m ! 0x10 AND 1 = 0 then m else tick_hpet_counter_enabled m)"

section \<open>Snapshot access\<close>

text \<open>\<open>Inl n\<close> is the \<^verbatim>\<open>Err(n)\<close> of the source: the length that was expected.\<close>

definition restore_full :: "memory \<Rightarrow> bytes \<Rightarrow> memory \<times> (nat + unit)" where
  "restore_full m data =
     (if length data \<noteq> length (mem_bytes m) then (m, Inl (length (mem_bytes m)))
      else (m\<lparr>mem_bytes := put (mem_bytes m) 0 data\<rparr>, Inr ()))"

definition restore_lapic :: "memory \<Rightarrow> bytes \<Rightarrow> memory \<times> (nat + unit)" where
  "restore_lapic m data =
     (if length data \<noteq> length (mem_lapic m) then (m, Inl (length (mem_lapic m)))
      else (m\<lparr>mem_lapic := put (mem_lapic m) 0 data\<rparr>, Inr ()))"

definition hpet_period_bytes :: "memory \<Rightarrow> bytes" where
  "hpet_period_bytes m = concat (map le32 (hpet_period m))"

definition restore_hpet_period :: "memory \<Rightarrow> bytes \<Rightarrow> memory \<times> (nat + unit)" where
  "restore_hpet_period m data =
     (if length data \<noteq> 12 then (m, Inl 12)
      else (m\<lparr>hpet_period := foldl (\<lambda>ps i. ps[i := get32 data (i * 4)]) (hpet_period m) [0, 1, 2]\<rparr>,
            Inr ()))"

definition restore_hpet :: "memory \<Rightarrow> bytes \<Rightarrow> memory \<times> (nat + unit)" where
  "restore_hpet m data =
     (if length data \<noteq> length (mem_hpet m) then (m, Inl (length (mem_hpet m)))
      else (m\<lparr>mem_hpet := put (mem_hpet m) 0 data\<rparr>, Inr ()))"

section \<open>Well-formedness and frames\<close>

text \<open>The fixed sizes of the Rust arrays; every index the code uses lies inside them.\<close>

definition mem_wf :: "memory \<Rightarrow> bool" where
  "mem_wf m \<longleftrightarrow> length (mem_lapic m) = 4096 \<and> length (mem_hpet m) = 1024 \<and> length (hpet_period m) = 3"

lemma mem_wfD [dest]:
  assumes "mem_wf m"
  shows "length (mem_lapic m) = 4096" "length (mem_hpet m) = 1024" "length (hpet_period m) = 3"
  using assms by (simp_all add: mem_wf_def)

lemma mem_new_wf [simp]: "mem_wf (mem_new w n)"
  by (simp add: mem_wf_def mem_new_def lapic_init_def hpet_init_def)

lemma lapic_queue_frame [simp]:
  "mem_bytes (lapic_queue m v) = mem_bytes m" "mem_lapic (lapic_queue m v) = mem_lapic m"
  "mem_hpet (lapic_queue m v) = mem_hpet m" "hpet_period (lapic_queue m v) = hpet_period m"
  "watch_phys (lapic_queue m v) = watch_phys m"
  by (simp_all add: lapic_queue_def split: option.splits)

lemma lapic_queue_pending:
  "pending_lapic_irq (lapic_queue m v) =
     (case pending_lapic_irq m of None \<Rightarrow> Some v | Some u \<Rightarrow> Some u)"
  by (simp add: lapic_queue_def split: option.splits)

lemma lapic_icr_command_frame [simp]:
  "mem_bytes (lapic_icr_command m) = mem_bytes m" "mem_lapic (lapic_icr_command m) = mem_lapic m"
  "mem_hpet (lapic_icr_command m) = mem_hpet m" "hpet_period (lapic_icr_command m) = hpet_period m"
  "watch_phys (lapic_icr_command m) = watch_phys m"
  by (simp_all add: lapic_icr_command_def Let_def)

lemma lapic_write_frame [simp]:
  "mem_bytes (lapic_write m off v) = mem_bytes m" "mem_hpet (lapic_write m off v) = mem_hpet m"
  "hpet_period (lapic_write m off v) = hpet_period m" "watch_phys (lapic_write m off v) = watch_phys m"
  "length (mem_lapic (lapic_write m off v)) = length (mem_lapic m)"
  by (simp_all add: lapic_write_def Let_def)

lemma length_hpet_latch_period [simp]: "length (hpet_latch_period tns off h ps) = length ps"
  by (induction tns off h ps rule: hpet_latch_period.induct) (auto simp: Let_def)

lemma hpet_write_frame [simp]:
  "mem_bytes (hpet_write m off v) = mem_bytes m" "mem_lapic (hpet_write m off v) = mem_lapic m"
  "pending_lapic_irq (hpet_write m off v) = pending_lapic_irq m"
  "watch_phys (hpet_write m off v) = watch_phys m"
  "length (mem_hpet (hpet_write m off v)) = length (mem_hpet m)"
  "length (hpet_period (hpet_write m off v)) = length (hpet_period m)"
  by (simp_all add: hpet_write_def Let_def)

lemma write_u8_frame [simp]:
  "length (mem_bytes (write_u8 m a v)) = length (mem_bytes m)"
  "length (mem_lapic (write_u8 m a v)) = length (mem_lapic m)"
  "length (mem_hpet (write_u8 m a v)) = length (mem_hpet m)"
  "length (hpet_period (write_u8 m a v)) = length (hpet_period m)"
  "watch_phys (write_u8 m a v) = watch_phys m"
  by (simp_all add: write_u8_def Let_def)

lemma mem_wf_cong:
  assumes "length (mem_lapic m') = length (mem_lapic m)" "length (mem_hpet m') = length (mem_hpet m)"
    "length (hpet_period m') = length (hpet_period m)"
  shows "mem_wf m' = mem_wf m"
  using assms by (simp add: mem_wf_def)

lemma mem_wf_updates [simp]:
  "mem_wf (m\<lparr>mem_bytes := x\<rparr>) = mem_wf m" "mem_wf (m\<lparr>pending_lapic_irq := y\<rparr>) = mem_wf m"
  by (rule mem_wf_cong; simp)+

lemma mem_wf_arrays:
  "mem_wf m \<Longrightarrow> mem_wf (m\<lparr>mem_lapic := x\<rparr>) = (length x = 4096)"
  "mem_wf m \<Longrightarrow> mem_wf (m\<lparr>mem_hpet := y\<rparr>) = (length y = 1024)"
  "mem_wf m \<Longrightarrow> mem_wf (m\<lparr>hpet_period := z\<rparr>) = (length z = 3)"
  by (simp_all add: mem_wf_def)

lemma write_u8_wf [simp]: "mem_wf (write_u8 m a v) = mem_wf m"
  by (rule mem_wf_cong) simp_all

lemma write_u16_wf [simp]: "mem_wf (write_u16 m a v) = mem_wf m"
  by (simp add: write_u16_def Let_def)

lemma write_u32_wf [simp]: "mem_wf (write_u32 m a v) = mem_wf m"
  by (simp add: write_u32_def Let_def)

lemma write_u16_size [simp]: "length (mem_bytes (write_u16 m a v)) = length (mem_bytes m)"
  by (simp add: write_u16_def Let_def)

lemma write_u32_size [simp]: "length (mem_bytes (write_u32 m a v)) = length (mem_bytes m)"
  by (simp add: write_u32_def Let_def)

lemma write_u8_seq_frame [simp]:
  "mem_wf (write_u8_seq m a bs) = mem_wf m"
  "length (mem_bytes (write_u8_seq m a bs)) = length (mem_bytes m)"
  by (induction m a bs rule: write_u8_seq.induct) simp_all

lemma write_ram_bulk_frame [simp]:
  "mem_wf (fst (write_ram_bulk m a bs)) = mem_wf m"
  "length (mem_bytes (fst (write_ram_bulk m a bs))) = length (mem_bytes m)"
  by (auto simp: write_ram_bulk_def Let_def)

lemma write_slice_frame [simp]:
  "mem_wf (write_slice m a bs) = mem_wf m"
  "length (mem_bytes (write_slice m a bs)) = length (mem_bytes m)"
  by (auto simp: write_slice_def Let_def)

lemma lapic_timer_zero_crossing_frame [simp]:
  "mem_bytes (lapic_timer_zero_crossing m) = mem_bytes m"
  "mem_hpet (lapic_timer_zero_crossing m) = mem_hpet m"
  "hpet_period (lapic_timer_zero_crossing m) = hpet_period m"
  by (simp_all add: lapic_timer_zero_crossing_def Let_def)

lemma lapic_timer_zero_crossing_wf: "mem_wf m \<Longrightarrow> mem_wf (lapic_timer_zero_crossing m)"
  by (simp add: lapic_timer_zero_crossing_def Let_def mem_wf_def)

lemma tick_lapic_timer_frame [simp]:
  "mem_bytes (tick_lapic_timer m) = mem_bytes m"
  "mem_hpet (tick_lapic_timer m) = mem_hpet m"
  "hpet_period (tick_lapic_timer m) = hpet_period m"
  by (simp_all add: tick_lapic_timer_def Let_def)

lemma tick_lapic_timer_wf: "mem_wf m \<Longrightarrow> mem_wf (tick_lapic_timer m)"
  by (auto simp: tick_lapic_timer_def Let_def mem_wf_arrays mem_wfD intro!: lapic_timer_zero_crossing_wf)

lemma tick_hpet_timer_frame [simp]:
  "mem_bytes (tick_hpet_timer c m tn) = mem_bytes m"
  "mem_lapic (tick_hpet_timer c m tn) = mem_lapic m"
  "hpet_period (tick_hpet_timer c m tn) = hpet_period m"
  by (simp_all add: tick_hpet_timer_def Let_def)

lemma tick_hpet_timer_wf: "mem_wf m \<Longrightarrow> tn < 3 \<Longrightarrow> mem_wf (tick_hpet_timer c m tn)"
  by (simp add: tick_hpet_timer_def Let_def mem_wf_def)

lemma tick_hpet_counter_wf: "mem_wf m \<Longrightarrow> mem_wf (tick_hpet_counter m)"
  by (auto simp: tick_hpet_counter_def tick_hpet_counter_enabled_def Let_def mem_wf_arrays mem_wfD
      intro!: tick_hpet_timer_wf)

section \<open>Reachable memories\<close>

text \<open>Every state-changing operation of \<^verbatim>\<open>impl Memory\<close>, as one step of a memory's life.\<close>

datatype mem_op =
    Resize nat
  | WriteU8 u32 u8
  | WriteU16 u32 u16
  | WriteU32 u32 u32
  | WriteRamBulk u32 bytes
  | WriteSlice u32 bytes
  | TickLapicTimer
  | TickHpetCounter
  | TakePendingLapicIrq
  | RestoreFull bytes
  | RestoreLapic bytes
  | RestoreHpet bytes
  | RestoreHpetPeriod bytes

fun mem_step :: "memory \<Rightarrow> mem_op \<Rightarrow> memory" where
  "mem_step m (Resize n) = mem_resize m n"
| "mem_step m (WriteU8 a v) = write_u8 m a v"
| "mem_step m (WriteU16 a v) = write_u16 m a v"
| "mem_step m (WriteU32 a v) = write_u32 m a v"
| "mem_step m (WriteRamBulk a bs) = fst (write_ram_bulk m a bs)"
| "mem_step m (WriteSlice a bs) = write_slice m a bs"
| "mem_step m TickLapicTimer = tick_lapic_timer m"
| "mem_step m TickHpetCounter = tick_hpet_counter m"
| "mem_step m TakePendingLapicIrq = snd (take_pending_lapic_irq m)"
| "mem_step m (RestoreFull d) = fst (restore_full m d)"
| "mem_step m (RestoreLapic d) = fst (restore_lapic m d)"
| "mem_step m (RestoreHpet d) = fst (restore_hpet m d)"
| "mem_step m (RestoreHpetPeriod d) = fst (restore_hpet_period m d)"

lemma restore_wf:
  assumes "mem_wf m"
  shows "mem_wf (fst (restore_full m d))" "mem_wf (fst (restore_lapic m d))"
    "mem_wf (fst (restore_hpet m d))" "mem_wf (fst (restore_hpet_period m d))"
  using assms
  by (simp_all add: restore_full_def restore_lapic_def restore_hpet_def restore_hpet_period_def mem_wf_def)

lemma mem_step_wf: "mem_wf m \<Longrightarrow> mem_wf (mem_step m opn)"
  by (cases opn)
     (simp_all add: mem_resize_def restore_wf tick_lapic_timer_wf tick_hpet_counter_wf take_pending_lapic_irq_def)

lemma tick_hpet_counter_bytes [simp]: "mem_bytes (tick_hpet_counter m) = mem_bytes m"
  by (simp add: tick_hpet_counter_def tick_hpet_counter_enabled_def Let_def)

lemma mem_step_size: "mem_size m \<le> mem_size (mem_step m opn)"
  by (cases opn)
     (auto simp: mem_size_def mem_resize_def take_pending_lapic_irq_def restore_full_def restore_lapic_def
       restore_hpet_def restore_hpet_period_def)

lemma mem_run_wf: "mem_wf m \<Longrightarrow> mem_wf (foldl mem_step m ops) \<and> mem_size m \<le> mem_size (foldl mem_step m ops)"
proof (induction ops arbitrary: m)
  case (Cons opn ops)
  then show ?case using mem_step_wf [of m opn] mem_step_size [of m opn] by (auto dest: le_trans)
qed simp

section \<open>RAM as a store\<close>

definition in_ram :: "memory \<Rightarrow> u32 \<Rightarrow> bool" where
  "in_ram m a \<longleftrightarrow> unat a < length (mem_bytes m)"

text \<open>
  RAM cells satisfy the contract of \<open>cell_store\<close>: a byte store is read back, and no other
  address (RAM, LAPIC, HPET or open bus) sees it.
\<close>

interpretation ram: cell_store read_u8 write_u8 in_ram
proof
  fix m a v b
  assume "in_ram m a"
  then show "read_u8 (write_u8 m a v) b = (if b = a then v else read_u8 m b)"
    by (cases "unat b = unat a") (simp_all add: in_ram_def read_u8_def write_u8_def Let_def word_unat_eq_iff)
qed (simp add: in_ram_def)

lemma write_u16_cells:
  "write_u16 m a v = write_cells write_u8 m [(a, ucast v), (a + 1, ucast (drop_bit 8 v))]"
  by (simp add: write_u16_def Let_def)

lemma ucast_drop_ucast16:
  "(ucast (drop_bit 8 (ucast v :: u16)) :: u8) = ucast (drop_bit 8 v)"
  "(ucast (ucast v :: u16) :: u8) = ucast v"
  "(ucast (drop_bit 8 (ucast (drop_bit 16 v) :: u16)) :: u8) = ucast (drop_bit 24 v)"
  "(ucast (ucast (drop_bit 16 v) :: u16) :: u8) = ucast (drop_bit 16 v)"
  for v :: u32
  by (rule bit_word_eqI; auto simp: bit_simps)+

lemma write_u32_cells:
  "write_u32 m a v = write_cells write_u8 m
     [(a, ucast v), (a + 1, ucast (drop_bit 8 v)), (a + 2, ucast (drop_bit 16 v)), (a + 3, ucast (drop_bit 24 v))]"
  by (simp add: write_u32_def write_u16_def Let_def ucast_drop_ucast16 add.assoc)

lemma read_u16_le: "read_u16 m a = of_le16 (read_u8 m a) (read_u8 m (a + 1))"
  by (simp add: read_u16_def of_le16_def Let_def)

lemma read_u32_le:
  "read_u32 m a = of_le32 (read_u8 m a) (read_u8 m (a + 1)) (read_u8 m (a + 2)) (read_u8 m (a + 3))"
  by (simp add: read_u32_def read_u16_le of_le32_of_le16 Let_def add.assoc)

lemma in_ram_offset:
  assumes "unat a + n \<le> length (mem_bytes m)" and "k < n"
  shows "in_ram m (a + of_nat k)"
proof -
  have "unat (a + of_nat k :: u32) \<le> unat a + k"
    by (simp add: unat_word_ariths unat_of_nat)
  then show ?thesis unfolding in_ram_def using assms by linarith
qed

lemma unat_offset: "unat a + k < 2 ^ 32 \<Longrightarrow> unat (a + of_nat k :: u32) = unat a + k"
  by (simp add: unat_word_ariths unat_of_nat)

lemma in_ram_word:
  assumes "unat a + 4 \<le> length (mem_bytes m)"
  shows "in_ram m a" "in_ram m (a + 1)" "in_ram m (a + 2)" "in_ram m (a + 3)"
  using in_ram_offset [OF assms, of 0] in_ram_offset [OF assms, of 1]
    in_ram_offset [OF assms, of 2] in_ram_offset [OF assms, of 3] by simp_all

lemma read_u8_write_u32:
  assumes "unat a + 4 \<le> length (mem_bytes m)"
  shows "read_u8 (write_u32 m a v) b =
     (if b = a then ucast v else if b = a + 1 then ucast (drop_bit 8 v)
      else if b = a + 2 then ucast (drop_bit 16 v) else if b = a + 3 then ucast (drop_bit 24 v)
      else read_u8 m b)"
  unfolding write_u32_cells
  by (subst ram.write_cells_rd) (auto simp: in_ram_word [OF assms])

text \<open>
  The aligned fast paths of the CPU and the byte-wise, MMIO-aware reads agree wherever the
  fast path answers.
\<close>

lemma read_u8_ram: "unat a < length (mem_bytes m) \<Longrightarrow> read_u8 m a = mem_bytes m ! unat a"
  by (simp add: read_u8_def)

lemma read_ram_u16_eq:
  assumes "mem_size m \<le> 2 ^ 32" and "read_ram_u16 m a = Some v"
  shows "read_u16 m a = v"
proof -
  from assms have r: "unat a + 2 \<le> length (mem_bytes m)"
    and v: "v = of_le16 (mem_bytes m ! unat a) (mem_bytes m ! (unat a + 1))"
    by (auto simp: read_ram_u16_def Let_def split: if_splits)
  have "unat (a + 1) = unat a + 1"
    using unat_offset [of a 1] r assms(1) by (simp add: mem_size_def)
  then show ?thesis using r by (simp add: v read_u16_le read_u8_ram)
qed

lemma read_ram_u32_eq:
  assumes "mem_size m \<le> 2 ^ 32" and "read_ram_u32 m a = Some v"
  shows "read_u32 m a = v"
proof -
  from assms have r: "unat a + 4 \<le> length (mem_bytes m)"
    and v: "v = get32 (mem_bytes m) (unat a)"
    by (auto simp: read_ram_u32_def get32_def Let_def split: if_splits)
  have "unat (a + 1) = unat a + 1" "unat (a + 2) = unat a + 2" "unat (a + 3) = unat a + 3"
    using unat_offset [of a 1] unat_offset [of a 2] unat_offset [of a 3] r assms(1)
    by (simp_all add: mem_size_def)
  then show ?thesis using r by (simp add: v read_u32_le get32_def read_u8_ram)
qed

text \<open>The bulk copy is the byte-wise store loop, whatever the watchpoint says.\<close>

lemma put_Cons: "i < length xs \<Longrightarrow> put xs i (b # bs) = put (xs[i := b]) (Suc i) bs"
  by (simp add: put_def upd_conv_take_nth_drop min_def add.commute)

lemma write_u8_seq_put:
  assumes "unat a + length bs \<le> length (mem_bytes m)" and "mem_size m \<le> 2 ^ 32"
  shows "write_u8_seq m a bs = m\<lparr>mem_bytes := put (mem_bytes m) (unat a) bs\<rparr>"
  using assms
proof (induction m a bs rule: write_u8_seq.induct)
  case (1 m a)
  then show ?case by (simp add: put_def)
next
  case (2 m a b bs)
  have w: "write_u8 m a b = m\<lparr>mem_bytes := (mem_bytes m)[unat a := b]\<rparr>"
    using "2.prems" by (simp add: write_u8_def Let_def)
  show ?case
  proof (cases bs)
    case Nil
    then show ?thesis using "2.prems" by (simp add: w put_def upd_conv_take_nth_drop)
  next
    case (Cons c cs)
    then have "unat (a + 1) = Suc (unat a)"
      using unat_offset [of a 1] "2.prems" by (simp add: mem_size_def)
    then show ?thesis using "2.IH" "2.prems" by (simp add: w put_Cons mem_size_def)
  qed
qed

lemma write_ram_bulk_eq:
  assumes "mem_size m \<le> 2 ^ 32"
  shows "write_ram_bulk m a bs =
    (if unat a + length bs \<le> mem_size m then (write_u8_seq m a bs, True) else (m, False))"
  using assms write_u8_seq_put [of a bs m] by (simp add: write_ram_bulk_def Let_def mem_size_def)

section \<open>The pending local interrupt\<close>

text \<open>
  A queued vector survives every operation but the CPU's own \<open>take_pending_lapic_irq\<close>: later
  timer edges and self-IPIs are dropped, never overwrite it.
\<close>

lemma pending_kept_small:
  assumes "pending_lapic_irq m = Some v"
  shows "pending_lapic_irq (lapic_queue m u) = Some v"
    "pending_lapic_irq (lapic_icr_command m) = Some v"
    "pending_lapic_irq (lapic_timer_zero_crossing m) = Some v"
    "pending_lapic_irq (tick_hpet_timer c m tn) = Some v"
  using assms
  by (simp_all add: lapic_queue_def lapic_icr_command_def lapic_timer_zero_crossing_def tick_hpet_timer_def Let_def)

lemma pending_kept_write_u8: "pending_lapic_irq m = Some v \<Longrightarrow> pending_lapic_irq (write_u8 m a x) = Some v"
  by (simp add: write_u8_def lapic_write_def Let_def pending_kept_small)

lemma pending_kept_write_cells:
  "pending_lapic_irq m = Some v \<Longrightarrow> pending_lapic_irq (write_cells write_u8 m avs) = Some v"
  by (induction write_u8 m avs rule: write_cells.induct) (simp_all add: pending_kept_write_u8)

lemma pending_kept_write_u8_seq:
  "pending_lapic_irq m = Some v \<Longrightarrow> pending_lapic_irq (write_u8_seq m a bs) = Some v"
  by (induction m a bs rule: write_u8_seq.induct) (simp_all add: pending_kept_write_u8)

lemma pending_kept_step:
  assumes "pending_lapic_irq m = Some v" and "opn \<noteq> TakePendingLapicIrq"
  shows "pending_lapic_irq (mem_step m opn) = Some v"
  using assms
  by (cases opn)
     (simp_all add: mem_resize_def pending_kept_write_u8 write_u16_cells write_u32_cells pending_kept_write_cells
       write_ram_bulk_def pending_kept_write_u8_seq write_slice_def tick_lapic_timer_def tick_hpet_counter_def
       tick_hpet_counter_enabled_def pending_kept_small restore_full_def restore_lapic_def restore_hpet_def
       restore_hpet_period_def Let_def del: write_cells.simps)

section \<open>The LAPIC countdown\<close>

definition lapic_count :: "memory \<Rightarrow> u32" where
  "lapic_count m = get32 (mem_lapic m) 0x390"

definition set_lapic_count :: "memory \<Rightarrow> u32 \<Rightarrow> memory" where
  "set_lapic_count m c = m\<lparr>mem_lapic := put (mem_lapic m) 0x390 (le32 c)\<rparr>"

lemma put_put: "i + length bs \<le> length xs \<Longrightarrow> length cs = length bs \<Longrightarrow> put (put xs i bs) i cs = put xs i cs"
  by (simp add: put_def)

lemma lapic_count_set [simp]: "mem_wf m \<Longrightarrow> lapic_count (set_lapic_count m c) = c"
  by (simp add: lapic_count_def set_lapic_count_def buf_simps mem_wfD)

lemma set_lapic_count_twice [simp]:
  "mem_wf m \<Longrightarrow> set_lapic_count (set_lapic_count m c) d = set_lapic_count m d"
  by (simp add: set_lapic_count_def put_put mem_wfD)

lemma set_lapic_count_self [simp]: "mem_wf m \<Longrightarrow> set_lapic_count m (lapic_count m) = m"
  by (simp add: set_lapic_count_def lapic_count_def buf_simps mem_wfD)

lemma set_lapic_count_wf [simp]: "mem_wf m \<Longrightarrow> mem_wf (set_lapic_count m c)"
  by (simp add: set_lapic_count_def mem_wf_arrays mem_wfD)

lemma tick_lapic_timer_eq:
  "tick_lapic_timer m =
     (if lapic_count m = 0 then m
      else if lapic_count m = 1 then lapic_timer_zero_crossing (set_lapic_count m 0)
      else set_lapic_count m (lapic_count m - 1))"
  by (auto simp: tick_lapic_timer_def lapic_count_def set_lapic_count_def Let_def)

lemma lapic_running:
  assumes "mem_wf m" and "n < unat (lapic_count m)"
  shows "(tick_lapic_timer ^^ Suc n) m =
    (if Suc n = unat (lapic_count m) then lapic_timer_zero_crossing (set_lapic_count m 0)
     else set_lapic_count m (lapic_count m - of_nat (Suc n)))"
  using assms(2)
proof (induction n)
  case 0
  then have "lapic_count m \<noteq> 0" by (auto simp: unat_gt_0)
  moreover have "unat (lapic_count m) = Suc 0 \<longleftrightarrow> lapic_count m = 1"
    by (metis One_nat_def unat_1 word_unat_eq_iff)
  ultimately show ?case by (auto simp: tick_lapic_timer_eq assms(1))
next
  case (Suc n)
  let ?c = "lapic_count m"
  have step: "(tick_lapic_timer ^^ Suc n) m = set_lapic_count m (?c - of_nat (Suc n))"
    using Suc by simp
  have u: "unat (?c - of_nat (Suc n)) = unat ?c - Suc n"
    using Suc.prems by (intro unat_minus_of_nat_u32) simp
  have nz: "?c - of_nat (Suc n) \<noteq> 0"
    unfolding word_unat_eq_iff u using Suc.prems by simp
  have one: "?c - of_nat (Suc n) = 1 \<longleftrightarrow> Suc (Suc n) = unat ?c"
    unfolding word_unat_eq_iff u using Suc.prems by auto
  have "tick_lapic_timer (set_lapic_count m w) =
      (if w = 1 then lapic_timer_zero_crossing (set_lapic_count m 0) else set_lapic_count m (w - 1))"
    if "w \<noteq> 0" for w
    using that assms(1) by (simp add: tick_lapic_timer_eq [of "set_lapic_count m w"])
  note tick = this [OF nz]
  have dec: "?c - of_nat (Suc n) - 1 = ?c - of_nat (Suc (Suc n))"
    by (simp add: algebra_simps)
  show ?case
    unfolding funpow.simps(2) [of "Suc n"] comp_apply step tick one dec ..
qed

section \<open>The HPET counter and comparators\<close>

definition hpet_counter :: "memory \<Rightarrow> u64" where
  "hpet_counter m = get64 (mem_hpet m) 0xF0"

definition hpet_enabled :: "memory \<Rightarrow> bool" where
  "hpet_enabled m \<longleftrightarrow> mem_hpet m ! 0x10 AND 1 \<noteq> 0"

definition hpet_cfg :: "memory \<Rightarrow> nat \<Rightarrow> u32" where
  "hpet_cfg m tn = get32 (mem_hpet m) (0x100 + tn * 0x20)"

definition hpet_cmp :: "memory \<Rightarrow> nat \<Rightarrow> u64" where
  "hpet_cmp m tn = get64 (mem_hpet m) (0x100 + tn * 0x20 + 8)"

definition hpet_vector :: "memory \<Rightarrow> nat \<Rightarrow> u8" where
  "hpet_vector m tn = ucast (get32 (mem_hpet m) (0x100 + tn * 0x20 + 0x10))"

definition hpet_fires :: "u64 \<Rightarrow> memory \<Rightarrow> nat \<Rightarrow> bool" where
  "hpet_fires c m tn \<longleftrightarrow>
     hpet_cfg m tn AND (push_bit 2 1 OR push_bit 14 1) = push_bit 2 1 OR push_bit 14 1 \<and> c = hpet_cmp m tn"

definition hpet_advances :: "memory \<Rightarrow> nat \<Rightarrow> bool" where
  "hpet_advances m tn \<longleftrightarrow> hpet_cfg m tn AND push_bit 3 1 \<noteq> 0 \<and> hpet_period m ! tn \<noteq> 0"

lemmas hpet_views = hpet_counter_def hpet_enabled_def hpet_cfg_def hpet_cmp_def hpet_vector_def

lemma tick_hpet_timer_eq:
  "tick_hpet_timer c m tn =
     (if hpet_fires c m tn then
        let m1 = (if lapic_svr_enabled m then lapic_queue m (hpet_vector m tn) else m)
        in if hpet_advances m tn
           then m1\<lparr>mem_hpet := put (mem_hpet m) (0x100 + tn * 0x20 + 8)
                     (le64 (hpet_cmp m tn + ucast (hpet_period m ! tn)))\<rparr>
           else m1
      else m)"
  by (auto simp: tick_hpet_timer_def hpet_fires_def hpet_advances_def hpet_views Let_def)

lemma svr_frame [simp]: "lapic_svr_enabled (tick_hpet_timer c m tn) = lapic_svr_enabled m"
  by (simp add: lapic_svr_enabled_def)

lemma tick_hpet_timer_hpet:
  "mem_hpet (tick_hpet_timer c m tn) =
     (if hpet_fires c m tn \<and> hpet_advances m tn
      then put (mem_hpet m) (0x100 + tn * 0x20 + 8) (le64 (hpet_cmp m tn + ucast (hpet_period m ! tn)))
      else mem_hpet m)"
  by (auto simp: tick_hpet_timer_eq Let_def)

lemma tick_hpet_timer_pending:
  "pending_lapic_irq (tick_hpet_timer c m tn) =
     (if hpet_fires c m tn \<and> lapic_svr_enabled m \<and> pending_lapic_irq m = None
      then Some (hpet_vector m tn) else pending_lapic_irq m)"
  by (auto simp: tick_hpet_timer_eq Let_def lapic_queue_pending split: option.splits)

lemma put_nth_other:
  "i + length bs \<le> length xs \<Longrightarrow> j < i \<or> i + length bs \<le> j \<Longrightarrow> put xs i bs ! j = xs ! j"
  by (auto simp: put_nth)

lemma tick_hpet_timer_other:
  assumes "mem_wf m" "tn < 3" "tk < 3" "tk \<noteq> tn"
  shows "hpet_cfg (tick_hpet_timer c m tn) tk = hpet_cfg m tk"
    "hpet_cmp (tick_hpet_timer c m tn) tk = hpet_cmp m tk"
    "hpet_vector (tick_hpet_timer c m tn) tk = hpet_vector m tk"
proof -
  have "tn * 0x20 + 0x20 \<le> tk * 0x20 \<or> tk * 0x20 + 0x20 \<le> tn * 0x20" using assms by linarith
  then show "hpet_cfg (tick_hpet_timer c m tn) tk = hpet_cfg m tk"
    "hpet_cmp (tick_hpet_timer c m tn) tk = hpet_cmp m tk"
    "hpet_vector (tick_hpet_timer c m tn) tk = hpet_vector m tk"
    using assms
    by (auto simp: hpet_views tick_hpet_timer_hpet get32_put_other get64_put_other mem_wfD)
qed

lemma tick_hpet_timer_fires_other:
  assumes "mem_wf m" "tn < 3" "tk < 3" "tk \<noteq> tn"
  shows "hpet_fires c (tick_hpet_timer c m tn) tk = hpet_fires c m tk"
  using assms by (simp add: hpet_fires_def tick_hpet_timer_other)

lemma tick_hpet_timer_counter:
  assumes "mem_wf m" "tn < 3"
  shows "hpet_counter (tick_hpet_timer c m tn) = hpet_counter m"
    "hpet_enabled (tick_hpet_timer c m tn) = hpet_enabled m"
  using assms by (auto simp: hpet_views tick_hpet_timer_hpet get64_put_other put_nth_other mem_wfD)

definition hpet_bump :: "memory \<Rightarrow> memory" where
  "hpet_bump m = m\<lparr>mem_hpet := put (mem_hpet m) 0xF0 (le64 (hpet_counter m + 1))\<rparr>"

lemma tick_hpet_counter_eq:
  "tick_hpet_counter m =
     (if hpet_enabled m
      then tick_hpet_timer (hpet_counter m + 1) (tick_hpet_timer (hpet_counter m + 1)
             (tick_hpet_timer (hpet_counter m + 1) (hpet_bump m) 0) 1) 2
      else m)"
  by (simp add: tick_hpet_counter_def tick_hpet_counter_enabled_def hpet_bump_def hpet_counter_def
      hpet_enabled_def Let_def)

lemma hpet_bump_facts:
  assumes "mem_wf m"
  shows "mem_wf (hpet_bump m)" "hpet_counter (hpet_bump m) = hpet_counter m + 1"
    "hpet_enabled (hpet_bump m) = hpet_enabled m"
    "tn < 3 \<Longrightarrow> hpet_cfg (hpet_bump m) tn = hpet_cfg m tn"
    "tn < 3 \<Longrightarrow> hpet_cmp (hpet_bump m) tn = hpet_cmp m tn"
    "tn < 3 \<Longrightarrow> hpet_vector (hpet_bump m) tn = hpet_vector m tn"
    "pending_lapic_irq (hpet_bump m) = pending_lapic_irq m"
    "lapic_svr_enabled (hpet_bump m) = lapic_svr_enabled m"
  using assms
  by (simp_all add: hpet_bump_def mem_wf_arrays hpet_views get64_put_same get64_put_other get32_put_other
      put_nth_other mem_wfD lapic_svr_enabled_def)

lemma tick_hpet_counter_counter:
  assumes "mem_wf m"
  shows "hpet_counter (tick_hpet_counter m) = (if hpet_enabled m then hpet_counter m + 1 else hpet_counter m)"
    "hpet_enabled (tick_hpet_counter m) = hpet_enabled m"
  using assms
  by (simp_all add: tick_hpet_counter_eq tick_hpet_timer_counter tick_hpet_timer_wf hpet_bump_facts)

lemma hpet_counter_run:
  assumes "mem_wf m" and "hpet_enabled m"
  shows "mem_wf ((tick_hpet_counter ^^ n) m) \<and> hpet_enabled ((tick_hpet_counter ^^ n) m) \<and>
    hpet_counter ((tick_hpet_counter ^^ n) m) = hpet_counter m + of_nat n"
  by (induction n) (simp_all add: assms tick_hpet_counter_counter tick_hpet_counter_wf algebra_simps)

lemma hpet_tick_pending:
  assumes "mem_wf m" and "hpet_enabled m" and "lapic_svr_enabled m" and "pending_lapic_irq m = None"
  shows "pending_lapic_irq (tick_hpet_counter m) =
    map_option (hpet_vector m) (find (hpet_fires (hpet_counter m + 1) m) [0, 1, 2])"
proof -
  let ?c = "hpet_counter m + 1"
  have f: "hpet_fires ?c (hpet_bump m) tn = hpet_fires ?c m tn" if "tn < 3" for tn
    using that assms(1) by (simp add: hpet_fires_def hpet_bump_facts)
  note wf = hpet_bump_facts(1) [OF assms(1)] tick_hpet_timer_wf
  show ?thesis
    using assms f
    by (simp add: tick_hpet_counter_eq tick_hpet_timer_pending tick_hpet_timer_other
        tick_hpet_timer_fires_other wf hpet_bump_facts numeral_2_eq_2)
qed

section \<open>The LAPIC window\<close>

lemma is_lapic_offset: "off < 4096 \<Longrightarrow> is_lapic (LAPIC_BASE + of_nat off)"
  by (simp add: is_lapic_def LAPIC_SIZE_def word_less_nat_alt unat_of_nat)

lemma unat_lapic_offset: "off < 4096 \<Longrightarrow> unat (LAPIC_BASE + of_nat off) = 0xFEE00000 + off"
  by (subst unat_offset) (simp_all add: LAPIC_BASE_def)

lemma write_u8_lapic:
  assumes "mem_size m \<le> 0xFEE00000" and "off < 4096"
  shows "write_u8 m (LAPIC_BASE + of_nat off) v = lapic_write m off v"
  using assms
  by (simp add: write_u8_def mem_size_def Let_def is_lapic_offset unat_lapic_offset unat_of_nat)

lemma lapic_write_size [simp]: "mem_size (lapic_write m off v) = mem_size m"
  by (simp add: mem_size_def)

lemma write_u32_lapic:
  assumes "mem_size m \<le> 0xFEE00000" and "off + 3 < 4096"
  shows "write_u32 m (LAPIC_BASE + of_nat off) v =
     lapic_write (lapic_write (lapic_write (lapic_write m off (ucast v))
       (off + 1) (ucast (drop_bit 8 v))) (off + 2) (ucast (drop_bit 16 v))) (off + 3) (ucast (drop_bit 24 v))"
proof -
  have a: "LAPIC_BASE + of_nat off + 1 = LAPIC_BASE + of_nat (off + 1)"
    "LAPIC_BASE + of_nat off + 2 = LAPIC_BASE + of_nat (off + 2)"
    "LAPIC_BASE + of_nat off + 3 = LAPIC_BASE + of_nat (off + 3)"
    by (simp_all add: algebra_simps)
  have l: "off < 4096" "off + 1 < 4096" "off + 2 < 4096" "off + 3 < 4096" using assms(2) by simp_all
  have sz: "mem_size (lapic_write n k w) \<le> 0xFEE00000" if "mem_size n \<le> 0xFEE00000" for n k w using that by simp
  note s1 = sz [OF assms(1)] and s2 = sz [OF sz [OF assms(1)]] and s3 = sz [OF sz [OF sz [OF assms(1)]]]
  show ?thesis
    unfolding write_u32_cells write_cells.simps a
      write_u8_lapic [OF assms(1) l(1)] write_u8_lapic [OF s1 l(2)] write_u8_lapic [OF s2 l(3)]
      write_u8_lapic [OF s3 l(4)] ..
qed

lemma put_le32_updates:
  assumes "i + 4 \<le> length xs"
  shows "xs[i := ucast v, i + 1 := ucast (drop_bit 8 v), i + 2 := ucast (drop_bit 16 v), i + 3 := ucast (drop_bit 24 v)]
    = put xs i (le32 v)"
  using assms by (intro nth_equalityI) (auto simp: put_nth le32_def nth_list_update nth_Cons split: nat.splits)

definition icr_self_vector :: "u32 \<Rightarrow> u8 option" where
  "icr_self_vector icr =
     (if drop_bit 8 icr AND 7 = 0 \<and> (drop_bit 18 icr AND 3 = 1 \<or> drop_bit 18 icr AND 3 = 2)
      then Some (ucast icr) else None)"

lemma ucast_and_FF: "(ucast (x AND 0xFF) :: u8) = ucast x" for x :: u32
proof (rule bit_word_eqI)
  fix n assume "n < LENGTH(8)"
  then have "bit (0xFF :: u32) n" by (simp add: bit_numeral_rec less_Suc_eq_0_disj eval_nat_numeral) auto
  then show "bit (ucast (x AND 0xFF) :: u8) n = bit (ucast x :: u8) n" by (auto simp: bit_simps)
qed

lemma write_icr:
  assumes "mem_wf m" and "mem_size m \<le> 0xFEE00000"
  shows "pending_lapic_irq (write_u32 m (LAPIC_BASE + 0x300) icr) =
    (case pending_lapic_irq m of Some v \<Rightarrow> Some v
     | None \<Rightarrow> if lapic_svr_enabled m then icr_self_vector icr else None)"
proof -
  let ?m = "m\<lparr>mem_lapic := put (mem_lapic m) 0x300 (le32 icr)\<rparr>"
  have "write_u32 m (LAPIC_BASE + 0x300) icr = lapic_icr_command ?m"
    using write_u32_lapic [OF assms(2), where off = "0x300" and v = icr]
      put_le32_updates [where i = "0x300" and xs = "mem_lapic m" and v = icr] assms(1)
    by (simp add: lapic_write_def Let_def mem_wfD)
  moreover have "get32 (mem_lapic ?m) 0x300 = icr" "lapic_svr_enabled ?m = lapic_svr_enabled m"
    using assms(1) by (simp_all add: get32_put_same lapic_svr_enabled_def put_nth_other mem_wfD)
  ultimately show ?thesis
    by (auto simp: lapic_icr_command_def icr_self_vector_def lapic_queue_pending Let_def ucast_and_FF
        split: option.splits)
qed

section \<open>Properties\<close>

text \<open>
  From construction on, whatever sequence of operations a guest or the host performs, the
  LAPIC window stays 4096 bytes, the HPET window 1024 bytes and the period array three
  entries (so no index of the code can leave them), and RAM never shrinks.
\<close>

theorem mem_reachable_wf:
  "mem_wf (foldl mem_step (mem_new w n) ops) \<and> n \<le> mem_size (foldl mem_step (mem_new w n) ops)"
  using mem_run_wf [OF mem_new_wf, of w n ops] by (simp add: mem_size_def mem_new_def)

text \<open>
  A 32-bit store that lies in RAM is read back exactly, and changes no byte at any other
  address, RAM or MMIO.
\<close>

theorem ram_u32_roundtrip:
  assumes "unat a + 4 \<le> mem_size m"
  shows "read_u32 (write_u32 m a v) a = v \<and>
    (\<forall>b. b \<notin> {a, a + 1, a + 2, a + 3} \<longrightarrow> read_u8 (write_u32 m a v) b = read_u8 m b)"
  using assms by (simp add: read_u32_le read_u8_write_u32 mem_size_def)

theorem ram_u32_roundtrip_witness:
  "read_u32 (write_u32 (mem_new None 16) 4 0xDEADBEEF) 4 = 0xDEADBEEF"
  using ram_u32_roundtrip [of 4 "mem_new None 16" "0xDEADBEEF"] by (simp add: mem_size_def mem_new_def)

text \<open>
  The fast paths agree with the byte-wise reference: where \<^verbatim>\<open>read_ram_u16\<close> or
  \<^verbatim>\<open>read_ram_u32\<close> answers, the MMIO-aware reads give the same value, and \<^verbatim>\<open>write_ram_bulk\<close> is
  the loop of \<^verbatim>\<open>write_u8\<close> when the range lies in RAM and leaves memory alone (returning false)
  otherwise, with or without a watchpoint.
\<close>

theorem ram_fast_paths:
  assumes "mem_size m \<le> 2 ^ 32"
  shows "(\<forall>v. read_ram_u16 m a = Some v \<longrightarrow> read_u16 m a = v) \<and>
    (\<forall>v. read_ram_u32 m a = Some v \<longrightarrow> read_u32 m a = v) \<and>
    write_ram_bulk m a bs =
      (if unat a + length bs \<le> mem_size m then (write_u8_seq m a bs, True) else (m, False))"
  using read_ram_u16_eq [OF assms] read_ram_u32_eq [OF assms] write_ram_bulk_eq [OF assms] by blast

theorem ram_fast_paths_witness:
  "fst (write_ram_bulk (mem_new (Some (0, 8)) 16) 4 [1, 2]) = write_u8_seq (mem_new (Some (0, 8)) 16) 4 [1, 2] \<and>
   read_ram_u16 (mem_new (Some (0, 8)) 16) 4 = Some 0 \<and> read_u16 (mem_new (Some (0, 8)) 16) 4 = 0"
proof -
  have s: "mem_size (mem_new (Some (0, 8)) 16) \<le> 2 ^ 32" by (simp add: mem_size_def mem_new_def)
  have r: "read_ram_u16 (mem_new (Some (0, 8)) 16) 4 = Some 0"
    by (simp add: read_ram_u16_def mem_new_def of_le16_def)
  show ?thesis
    using ram_fast_paths [OF s, of 4 "[1, 2]"] r by (simp add: mem_size_def mem_new_def)
qed

text \<open>
  C37: The LAPIC timer counts exactly: starting from Current Count \<open>c\<close>, the first \<open>c - 1\<close> ticks
  only decrement it and queue nothing; tick \<open>c\<close> queues the LVT vector (if the LVT is
  unmasked, the LAPIC software-enabled and no vector is pending) and leaves Initial Count in
  the counter in periodic mode, zero otherwise.
\<close>

theorem lapic_timer_exact:
  assumes "mem_wf m" and "0 < n" and "n \<le> unat (lapic_count m)"
  defines "lvt \<equiv> get32 (mem_lapic m) 0x320" and "m' \<equiv> (tick_lapic_timer ^^ n) m"
  shows "(n < unat (lapic_count m) \<longrightarrow>
       lapic_count m' = lapic_count m - of_nat n \<and> pending_lapic_irq m' = pending_lapic_irq m) \<and>
    (n = unat (lapic_count m) \<longrightarrow>
       pending_lapic_irq m' =
         (if pending_lapic_irq m = None \<and> lapic_svr_enabled m \<and> \<not> bit lvt 16 then Some (ucast lvt)
          else pending_lapic_irq m) \<and>
       lapic_count m' = (if drop_bit 17 lvt AND 3 = 1 then get32 (mem_lapic m) 0x380 else 0))"
proof -
  obtain k where k: "n = Suc k" using assms(2) by (cases n) auto
  have run: "m' = (if n = unat (lapic_count m) then lapic_timer_zero_crossing (set_lapic_count m 0)
      else set_lapic_count m (lapic_count m - of_nat n))"
    using lapic_running [OF assms(1), of k] assms(3) unfolding m'_def k by simp
  have regs: "get32 (mem_lapic (set_lapic_count m 0)) 0x320 = lvt"
    "get32 (mem_lapic (set_lapic_count m 0)) 0x380 = get32 (mem_lapic m) 0x380"
    "lapic_svr_enabled (set_lapic_count m 0) = lapic_svr_enabled m"
    "pending_lapic_irq (set_lapic_count m c) = pending_lapic_irq m" for c
    using assms(1) by (simp_all add: set_lapic_count_def lvt_def get32_put_other lapic_svr_enabled_def
        put_nth_other mem_wfD)
  have zc: "pending_lapic_irq (lapic_timer_zero_crossing (set_lapic_count m 0)) =
      (if pending_lapic_irq m = None \<and> lapic_svr_enabled m \<and> \<not> bit lvt 16 then Some (ucast lvt)
       else pending_lapic_irq m)"
    using and_mask_bit [of lvt 16]
    by (auto simp: lapic_timer_zero_crossing_def Let_def regs lapic_queue_pending split: option.splits)
  have "lapic_count (lapic_timer_zero_crossing (set_lapic_count m 0)) =
      (if drop_bit 17 lvt AND 3 = 1 then get32 (mem_lapic m) 0x380 else 0)"
    using assms(1) lapic_count_set [OF assms(1), of 0]
    by (auto simp: lapic_timer_zero_crossing_def Let_def regs lapic_count_def get32_put_same mem_wfD)
  with zc run show ?thesis using assms(1) by (simp add: regs)
qed

definition lapic_demo :: memory where
  "lapic_demo = (mem_new None 0)\<lparr>mem_lapic :=
     put (put (put lapic_init 0x320 (le32 0x00020040)) 0x380 (le32 5)) 0x390 (le32 2)\<rparr>"

lemma length_lapic_init [simp]: "length lapic_init = 4096"
  by (simp add: lapic_init_def)

lemma lapic_demo_facts:
  "mem_wf lapic_demo" "lapic_count lapic_demo = 2" "get32 (mem_lapic lapic_demo) 0x320 = 0x00020040"
  "get32 (mem_lapic lapic_demo) 0x380 = 5" "lapic_svr_enabled lapic_demo" "pending_lapic_irq lapic_demo = None"
proof -
  show "mem_wf lapic_demo" by (simp add: lapic_demo_def mem_wf_arrays)
  show "lapic_count lapic_demo = 2" "get32 (mem_lapic lapic_demo) 0x320 = 0x00020040"
    "get32 (mem_lapic lapic_demo) 0x380 = 5"
    by (simp_all add: lapic_demo_def lapic_count_def get32_put_same get32_put_other)
  show "lapic_svr_enabled lapic_demo" "pending_lapic_irq lapic_demo = None"
    by (simp_all add: lapic_demo_def lapic_svr_enabled_def put_nth_other lapic_init_def mem_new_def)
qed

theorem lapic_timer_exact_witness:
  "pending_lapic_irq ((tick_lapic_timer ^^ 2) lapic_demo) = Some 0x40 \<and>
   lapic_count ((tick_lapic_timer ^^ 2) lapic_demo) = 5"
proof -
  have b: "\<not> bit (0x00020040 :: u32) 16" by simp
  show ?thesis
    using lapic_timer_exact [OF lapic_demo_facts(1), of 2] b by (simp add: lapic_demo_facts)
qed

text \<open>
  C38: A queued local-interrupt vector is never overwritten: after any sequence of writes, timer
  ticks, resizes and restores the same vector is still pending; only the CPU's
  \<^verbatim>\<open>take_pending_lapic_irq\<close> removes it.
\<close>

theorem pending_irq_never_overwritten:
  assumes "pending_lapic_irq m = Some v" and "TakePendingLapicIrq \<notin> set ops"
  shows "pending_lapic_irq (foldl mem_step m ops) = Some v"
  using assms
proof (induction ops arbitrary: m)
  case (Cons opn ops)
  then show ?case using pending_kept_step [of m v opn] by auto
qed simp

theorem pending_irq_never_overwritten_witness:
  "pending_lapic_irq (foldl mem_step (lapic_demo\<lparr>pending_lapic_irq := Some 0x31\<rparr>)
     [TickLapicTimer, TickLapicTimer, WriteU32 (LAPIC_BASE + 0x300) 0x40055]) = Some 0x31"
  by (rule pending_irq_never_overwritten) simp_all

text \<open>
  The HPET: while enabled, \<open>n\<close> ticks advance the 64-bit main counter by exactly \<open>n\<close> (modulo
  \<open>2 ^ 64\<close>) and keep it enabled, while disabled it is frozen; and a tick with no vector pending
  and the LAPIC software-enabled queues the FSB vector of the lowest-numbered timer that is
  enabled for FSB delivery and whose comparator equals the new count, and none otherwise.
\<close>

theorem hpet_counts_and_fires:
  assumes "mem_wf m"
  shows "(hpet_enabled m \<longrightarrow> hpet_counter ((tick_hpet_counter ^^ n) m) = hpet_counter m + of_nat n \<and>
      hpet_enabled ((tick_hpet_counter ^^ n) m)) \<and>
    (\<not> hpet_enabled m \<longrightarrow> tick_hpet_counter m = m) \<and>
    (hpet_enabled m \<and> lapic_svr_enabled m \<and> pending_lapic_irq m = None \<longrightarrow>
      pending_lapic_irq (tick_hpet_counter m) =
        map_option (hpet_vector m) (find (hpet_fires (hpet_counter m + 1) m) [0, 1, 2]))"
  using hpet_counter_run [OF assms] hpet_tick_pending [OF assms] by (simp add: tick_hpet_counter_eq)

definition hpet_demo :: memory where
  "hpet_demo = (mem_new None 0)\<lparr>mem_hpet := put (put (put (hpet_init[0x10 := 1])
     0x120 (le32 0x4004)) 0x128 (le64 1)) 0x130 (le32 0x42)\<rparr>"

lemma length_hpet_init [simp]: "length hpet_init = 1024"
  by (simp add: hpet_init_def)

theorem hpet_counts_and_fires_witness:
  "mem_wf hpet_demo \<and> hpet_enabled hpet_demo \<and> hpet_counter ((tick_hpet_counter ^^ 3) hpet_demo) = 3"
proof -
  have wf: "mem_wf hpet_demo" by (simp add: hpet_demo_def mem_wf_arrays)
  have en: "hpet_enabled hpet_demo"
    by (simp add: hpet_demo_def hpet_enabled_def put_nth_other)
  have "hpet_counter hpet_demo = 0"
    by (simp add: hpet_demo_def hpet_counter_def get64_put_other)
       (simp add: get64_def get32_def hpet_init_def of_le32_def of_le64_def)
  then show ?thesis using hpet_counts_and_fires [OF wf, of 3] wf en by simp
qed

text \<open>
  A 32-bit guest store to ICR low (one store, four byte writes) queues exactly the
  self-targeted, fixed-delivery vectors: shorthand 01 or 10 and delivery mode 000, with the
  LAPIC software-enabled and nothing pending; any other command queues nothing.
\<close>

theorem lapic_self_ipi:
  assumes "mem_wf m" and "mem_size m \<le> 0xFEE00000"
  shows "pending_lapic_irq (write_u32 m (LAPIC_BASE + 0x300) icr) =
    (case pending_lapic_irq m of Some v \<Rightarrow> Some v
     | None \<Rightarrow> if lapic_svr_enabled m then icr_self_vector icr else None)"
  using assms by (rule write_icr)

theorem lapic_self_ipi_witness:
  "pending_lapic_irq (write_u32 (mem_new None 64) (LAPIC_BASE + 0x300) 0x40033) = Some 0x33"
proof -
  have "lapic_svr_enabled (mem_new None 64)"
    by (simp add: lapic_svr_enabled_def mem_new_def lapic_init_def)
  moreover have "icr_self_vector 0x40033 = Some 0x33" by (simp add: icr_self_vector_def)
  ultimately show ?thesis
    using lapic_self_ipi [OF mem_new_wf, of None 64 "0x40033"] by (simp add: mem_size_def mem_new_def)
qed

end
