(* ===== verification/IoDevice.thy ===== *)
theory IoDevice
  imports Prelude
begin

text \<open>
  The two contracts every port-mapped device meets (\<^verbatim>\<open>trait IoDevice\<close> of
  \<^verbatim>\<open>crates/devices/src/lib.rs\<close> and the \<^verbatim>\<open>snapshot_into\<close> / \<^verbatim>\<open>restore\<close> pair each device has).
  The device theories interpret both locales on their own operations; the bus relies on
  them.  A port access is \<open>In p\<close> or \<open>Out p v\<close>; \<open>run_accesses\<close> is a guest's sequence of them.
\<close>

datatype access = In u16 | Out u16 u8

fun run_accesses :: "('d \<Rightarrow> u16 \<Rightarrow> u8 \<times> 'd) \<Rightarrow> ('d \<Rightarrow> u16 \<Rightarrow> u8 \<Rightarrow> 'd) \<Rightarrow> 'd \<Rightarrow> access list \<Rightarrow> bytes \<times> 'd" where
  "run_accesses rd wr d [] = ([], d)"
| "run_accesses rd wr d (In p # as) =
     (let (v, d1) = rd d p; (vs, d2) = run_accesses rd wr d1 as in (v # vs, d2))"
| "run_accesses rd wr d (Out p v # as) = run_accesses rd wr (wr d p v) as"

lemma run_accesses_append:
  "run_accesses rd wr d (xs @ ys) =
     (let (v, d1) = run_accesses rd wr d xs; (w, d2) = run_accesses rd wr d1 ys in (v @ w, d2))"
proof (induction xs arbitrary: d)
  case (Cons x xs)
  then show ?case by (cases x) (simp_all add: Let_def case_prod_unfold)
qed simp

text \<open>
  The port contract: the claimed range is a proper interval and fixed for the device's life,
  and neither a read nor a write breaks the device's invariant.
\<close>

locale io_device =
  fixes port_range :: "'d \<Rightarrow> u16 \<times> u16"
    and rd :: "'d \<Rightarrow> u16 \<Rightarrow> u8 \<times> 'd" and wr :: "'d \<Rightarrow> u16 \<Rightarrow> u8 \<Rightarrow> 'd"
    and invar :: "'d \<Rightarrow> bool"
  assumes range_rd: "port_range (snd (rd d p)) = port_range d"
    and range_wr: "port_range (wr d p v) = port_range d"
    and invar_rd: "invar d \<Longrightarrow> invar (snd (rd d p))"
    and invar_wr: "invar d \<Longrightarrow> invar (wr d p v)"
begin

lemma run_range: "port_range (snd (run_accesses rd wr d as)) = port_range d"
proof (induction as arbitrary: d)
  case (Cons a as)
  then show ?case
    by (cases a) (simp_all add: range_wr case_prod_unfold Let_def range_rd)
qed simp

lemma run_invar: "invar d \<Longrightarrow> invar (snd (run_accesses rd wr d as))"
proof (induction as arbitrary: d)
  case (Cons a as)
  then show ?case
    by (cases a) (simp_all add: invar_wr case_prod_unfold Let_def invar_rd)
qed simp

end

text \<open>
  The snapshot contract.  \<open>keep d0 d\<close> is the device that results when \<open>d\<close> is saved and loaded
  into \<open>d0\<close>: the persisted fields come from \<open>d\<close>, the rest stay as in \<open>d0\<close>.  Restoring reads
  exactly the bytes the snapshot wrote, whatever follows them.  \<open>target\<close> is what the Rust type of
  the restored device guarantees (the length of a fixed-size array).
\<close>

locale snapshot_device =
  fixes snap :: "'d \<Rightarrow> bytes" and restore :: "'d \<Rightarrow> bytes \<Rightarrow> 'd \<times> nat result"
    and keep :: "'d \<Rightarrow> 'd \<Rightarrow> 'd" and invar :: "'d \<Rightarrow> bool" and target :: "'d \<Rightarrow> bool"
  assumes restore_snap:
    "invar d \<Longrightarrow> target d0 \<Longrightarrow> restore d0 (snap d @ rest) = (keep d0 d, Inr (length (snap d)))"
begin

lemma restore_snap_exact:
  "invar d \<Longrightarrow> target d0 \<Longrightarrow> restore d0 (snap d) = (keep d0 d, Inr (length (snap d)))"
  using restore_snap [of d d0 "[]"] by simp

text \<open>Two devices with the same image are restored to the same state.\<close>

lemma snap_determines:
  "invar d \<Longrightarrow> invar e \<Longrightarrow> target d0 \<Longrightarrow> snap d = snap e \<Longrightarrow> keep d0 d = keep d0 e"
  using restore_snap_exact [of d d0] restore_snap_exact [of e d0] by simp

end

end
