(* ===== verification/Uart.thy ===== *)
theory Uart
  imports IoDevice
begin

text \<open>
  The 16550 UART (\<^verbatim>\<open>crates/devices/src/uart.rs\<close>): the byte channel between guest and host.
  \<^verbatim>\<open>VecDeque\<close> and \<^verbatim>\<open>Vec\<close> are lists with the front first.
\<close>

record uart =
  uart_base :: u16
  tx_buffer :: bytes
  rx_buffer :: bytes
  uart_ier :: u8

definition COM1_BASE :: u16 where "COM1_BASE = 0x3F8"

definition uart_new :: "u16 \<Rightarrow> uart" where
  "uart_new base = \<lparr>uart_base = base, tx_buffer = [], rx_buffer = [], uart_ier = 0\<rparr>"

definition uart_com1 :: uart where
  "uart_com1 = uart_new COM1_BASE"

definition uart_drain_tx :: "uart \<Rightarrow> bytes \<times> uart" where
  "uart_drain_tx u = (tx_buffer u, u\<lparr>tx_buffer := []\<rparr>)"

definition uart_push_rx :: "uart \<Rightarrow> bytes \<Rightarrow> uart" where
  "uart_push_rx u bs = u\<lparr>rx_buffer := rx_buffer u @ bs\<rparr>"

definition uart_rx_pending :: "uart \<Rightarrow> nat" where
  "uart_rx_pending u = length (rx_buffer u)"

definition uart_irq_pending :: "uart \<Rightarrow> bool" where
  "uart_irq_pending u =
     (let rx = (uart_ier u AND 0x01 \<noteq> 0 \<and> rx_buffer u \<noteq> []);
          tx = (uart_ier u AND 0x02 \<noteq> 0)
      in rx \<or> tx)"

definition uart_snapshot :: "uart \<Rightarrow> bytes" where
  "uart_snapshot u =
     [uart_ier u] @ le32 (of_nat (length (tx_buffer u))) @ tx_buffer u
     @ le32 (of_nat (length (rx_buffer u))) @ rx_buffer u"

definition uart_restore :: "uart \<Rightarrow> bytes \<Rightarrow> uart \<times> nat result" where
  "uart_restore u bs =
     (if length bs < 1 + 4 then (u, Inl ''uart: truncated'')
      else
        let u1 = u\<lparr>uart_ier := bs ! 0\<rparr>; tx_len = unat (get32 bs 1); p = 5
        in if length bs < p + tx_len + 4 then (u1, Inl ''uart: truncated tx'')
           else
             let u2 = u1\<lparr>tx_buffer := take tx_len (drop p bs)\<rparr>; p2 = p + tx_len;
                 rx_len = unat (get32 bs p2); p3 = p2 + 4
             in if length bs < p3 + rx_len then (u2, Inl ''uart: truncated rx'')
                else (u2\<lparr>rx_buffer := take rx_len (drop p3 bs)\<rparr>, Inr (p3 + rx_len)))"

definition uart_port_range :: "uart \<Rightarrow> u16 \<times> u16" where
  "uart_port_range u = (uart_base u, uart_base u + 7)"

definition uart_read :: "uart \<Rightarrow> u16 \<Rightarrow> u8 \<times> uart" where
  "uart_read u port =
     (let r = port - uart_base u in
      if r = 0 then (case rx_buffer u of [] \<Rightarrow> (0, u) | b # bs \<Rightarrow> (b, u\<lparr>rx_buffer := bs\<rparr>))
      else if r = 1 then (uart_ier u, u)
      else if r = 2 then
        (if uart_ier u AND 0x01 \<noteq> 0 \<and> rx_buffer u \<noteq> [] then 0x04
         else if uart_ier u AND 0x02 \<noteq> 0 then 0x02 else 0x01, u)
      else if r = 5 then ((if rx_buffer u = [] then 0 else 1) OR push_bit 5 1, u)
      else (0, u))"

definition uart_write :: "uart \<Rightarrow> u16 \<Rightarrow> u8 \<Rightarrow> uart" where
  "uart_write u port value =
     (let r = port - uart_base u in
      if r = 0 then u\<lparr>tx_buffer := tx_buffer u @ [value]\<rparr>
      else if r = 1 then u\<lparr>uart_ier := value\<rparr>
      else u)"

section \<open>Contracts\<close>

text \<open>Queue lengths fit the 32-bit counts of the snapshot format.\<close>

definition uart_wf :: "uart \<Rightarrow> bool" where
  "uart_wf u \<longleftrightarrow> length (tx_buffer u) < 2 ^ 32 \<and> length (rx_buffer u) < 2 ^ 32"

definition uart_keep :: "uart \<Rightarrow> uart \<Rightarrow> uart" where
  "uart_keep u0 u = u\<lparr>uart_base := uart_base u0\<rparr>"

interpretation uart_dev: io_device uart_port_range uart_read uart_write "\<lambda>_. True"
  by unfold_locales
     (simp_all add: uart_port_range_def uart_read_def uart_write_def Let_def split: list.splits)

lemma uart_restore_ok:
  assumes "9 + ntx + nrx \<le> length bs" "unat (get32 bs 1) = ntx" "unat (get32 bs (5 + ntx)) = nrx"
  shows "uart_restore u bs =
    (u\<lparr>uart_ier := bs ! 0, tx_buffer := take ntx (drop 5 bs), rx_buffer := take nrx (drop (9 + ntx) bs)\<rparr>,
     Inr (9 + ntx + nrx))"
  using assms by (simp add: uart_restore_def Let_def)

interpretation uart_snap: snapshot_device uart_snapshot uart_restore uart_keep uart_wf "\<lambda>_. True"
proof
  fix u u0 rest
  assume wf: "uart_wf u"
  let ?tx = "tx_buffer u" and ?rx = "rx_buffer u"
  define bs where "bs = uart_snapshot u @ rest"
  have tx: "unat (get32 bs 1) = length ?tx"
    using get32_at [of "[uart_ier u]" 1 "of_nat (length ?tx)"] wf
    by (simp add: bs_def uart_snapshot_def uart_wf_def unat_of_nat)
  have rx: "unat (get32 bs (5 + length ?tx)) = length ?rx"
    using get32_at [of "[uart_ier u] @ le32 (of_nat (length ?tx)) @ ?tx" "5 + length ?tx" "of_nat (length ?rx)"] wf
    by (simp add: bs_def uart_snapshot_def uart_wf_def unat_of_nat)
  have len: "length bs = 9 + length ?tx + length ?rx + length rest"
    by (simp add: bs_def uart_snapshot_def)
  have parts: "take (length ?tx) (drop 5 bs) = ?tx" "take (length ?rx) (drop (9 + length ?tx) bs) = ?rx"
    "bs ! 0 = uart_ier u"
    using take_drop_at [of "[uart_ier u] @ le32 (of_nat (length ?tx)) @ ?tx @ le32 (of_nat (length ?rx))"
        "9 + length ?tx" ?rx "length ?rx" rest]
    by (simp_all add: bs_def uart_snapshot_def)
  have "uart_restore u0 bs = (uart_keep u0 u, Inr (length (uart_snapshot u)))"
    by (subst uart_restore_ok [OF _ tx rx]) (simp_all add: parts len uart_keep_def uart_snapshot_def)
  then show "uart_restore u0 (uart_snapshot u @ rest) = (uart_keep u0 u, Inr (length (uart_snapshot u)))"
    by (simp only: bs_def)
qed

section \<open>The byte channel\<close>

text \<open>
  What the host and the guest do with the UART over its life, and the bytes that come out:
  those the guest received through RBR and those the host drained.
\<close>

datatype uart_op = HostPush bytes | HostDrain | Guest access

fun uart_run :: "uart \<Rightarrow> uart_op list \<Rightarrow> bytes \<times> bytes \<times> uart" where
  "uart_run u [] = ([], [], u)"
| "uart_run u (HostPush bs # ops) = uart_run (uart_push_rx u bs) ops"
| "uart_run u (HostDrain # ops) =
     (let (out, u1) = uart_drain_tx u; (got, drained, u2) = uart_run u1 ops in (got, out @ drained, u2))"
| "uart_run u (Guest (In p) # ops) =
     (let (v, u1) = uart_read u p; (got, drained, u2) = uart_run u1 ops
      in (if p = uart_base u \<and> rx_buffer u \<noteq> [] then v # got else got, drained, u2))"
| "uart_run u (Guest (Out p v) # ops) = uart_run (uart_write u p v) ops"

fun uart_pushed :: "uart_op list \<Rightarrow> bytes" where
  "uart_pushed [] = []"
| "uart_pushed (HostPush bs # ops) = bs @ uart_pushed ops"
| "uart_pushed (_ # ops) = uart_pushed ops"

fun uart_sent :: "u16 \<Rightarrow> uart_op list \<Rightarrow> bytes" where
  "uart_sent base [] = []"
| "uart_sent base (Guest (Out p v) # ops) = (if p = base then v # uart_sent base ops else uart_sent base ops)"
| "uart_sent base (_ # ops) = uart_sent base ops"

lemma uart_read_rx:
  "rx_buffer (snd (uart_read u p)) = (if p = uart_base u then tl (rx_buffer u) else rx_buffer u)"
  "p = uart_base u \<Longrightarrow> rx_buffer u \<noteq> [] \<Longrightarrow> fst (uart_read u p) = hd (rx_buffer u)"
  "tx_buffer (snd (uart_read u p)) = tx_buffer u" "uart_base (snd (uart_read u p)) = uart_base u"
  by (auto simp: uart_read_def Let_def split: list.splits)

lemma uart_write_tx:
  "tx_buffer (uart_write u p v) = (if p = uart_base u then tx_buffer u @ [v] else tx_buffer u)"
  "rx_buffer (uart_write u p v) = rx_buffer u" "uart_base (uart_write u p v) = uart_base u"
  by (auto simp: uart_write_def Let_def)

text \<open>
  The UART is two reliable FIFOs: over any interleaving of host pushes and drains with guest
  port accesses, no byte is lost, duplicated or reordered in either direction.  What was
  queued plus what the host pushed is what the guest received followed by what still waits,
  and what was buffered plus what the guest wrote to THR is what the host drained followed by
  what is still buffered.
\<close>

theorem uart_lossless:
  assumes "uart_run u ops = (got, drained, u')"
  shows "rx_buffer u @ uart_pushed ops = got @ rx_buffer u' \<and>
    tx_buffer u @ uart_sent (uart_base u) ops = drained @ tx_buffer u'"
  using assms
proof (induction u ops arbitrary: got drained u' rule: uart_run.induct)
  case (2 u bs ops)
  then show ?case by (simp add: uart_push_rx_def)
next
  case (3 u ops)
  obtain g d u2 where run: "uart_run (u\<lparr>tx_buffer := []\<rparr>) ops = (g, d, u2)" by (metis prod_cases3)
  have "rx_buffer u @ uart_pushed ops = g @ rx_buffer u2 \<and> uart_sent (uart_base u) ops = d @ tx_buffer u2"
    using "3.IH" [OF uart_drain_tx_def [symmetric] refl run] by simp
  with "3.prems" run show ?case by (auto simp: uart_drain_tx_def Let_def)
next
  case (4 u p ops)
  obtain v u1 where r: "uart_read u p = (v, u1)" by fastforce
  obtain g d u2 where run: "uart_run u1 ops = (g, d, u2)" by (metis prod_cases3)
  have u1: "rx_buffer u1 = (if p = uart_base u then tl (rx_buffer u) else rx_buffer u)"
    "tx_buffer u1 = tx_buffer u" "uart_base u1 = uart_base u"
    "p = uart_base u \<Longrightarrow> rx_buffer u \<noteq> [] \<Longrightarrow> v = hd (rx_buffer u)"
    using uart_read_rx [where u = u and p = p] r by simp_all
  have "rx_buffer u1 @ uart_pushed ops = g @ rx_buffer u2 \<and>
      tx_buffer u1 @ uart_sent (uart_base u1) ops = d @ tx_buffer u2"
    using "4.IH" [OF r [symmetric] refl run] .
  with u1 "4.prems" r run show ?case
    by (cases "rx_buffer u") (auto simp: Let_def split: if_splits)
next
  case (5 u p v ops)
  then show ?case by (auto simp: uart_write_tx)
qed simp

theorem uart_lossless_witness:
  "uart_run uart_com1 [HostPush [1, 2], Guest (In 0x3F8), Guest (Out 0x3F8 7), HostDrain] =
     ([1], [7], uart_com1\<lparr>rx_buffer := [2]\<rparr>) \<and>
   rx_buffer uart_com1 @ uart_pushed [HostPush [1, 2], Guest (In 0x3F8), Guest (Out 0x3F8 7), HostDrain]
     = [1] @ [2]"
proof -
  have r: "uart_run uart_com1 [HostPush [1, 2], Guest (In 0x3F8), Guest (Out 0x3F8 7), HostDrain] =
     ([1], [7], uart_com1\<lparr>rx_buffer := [2]\<rparr>)"
    by (simp add: uart_com1_def uart_new_def COM1_BASE_def uart_push_rx_def uart_read_def uart_write_def
        uart_drain_tx_def Let_def)
  show ?thesis using r uart_lossless [OF r] by simp
qed

end
