(* ===== verification/Pic.thy ===== *)
theory Pic
  imports IoDevice
begin

text \<open>
  The 8259A interrupt controller (\<^verbatim>\<open>crates/devices/src/pic.rs\<close>): request, mask and in-service
  registers, the ICW initialisation sequence, EOI, and the vector the CPU sees.
\<close>

datatype read_select = Irr | Isr

datatype init_state = Idle | ExpectIcw2 | ExpectIcw3 | ExpectIcw4

record pic =
  pic_base_port :: u16
  vector_base :: u8
  imr :: u8
  irr :: u8
  isr :: u8
  pic_init_state :: init_state
  pic_read_select :: read_select

definition MASTER_BASE :: u16 where "MASTER_BASE = 0x20"

definition pic_new :: "u16 \<Rightarrow> pic" where
  "pic_new base =
     \<lparr>pic_base_port = base, vector_base = 0x08, imr = 0xFF, irr = 0, isr = 0,
      pic_init_state = Idle, pic_read_select = Irr\<rparr>"

definition pic_master :: pic where
  "pic_master = pic_new MASTER_BASE"

definition raise_irq :: "pic \<Rightarrow> u8 \<Rightarrow> pic" where
  "raise_irq p n = (if n < 8 then p\<lparr>irr := irr p OR push_bit (unat n) 1\<rparr> else p)"

definition pic_candidates :: "pic \<Rightarrow> u8" where
  "pic_candidates p = irr p AND NOT (imr p) AND NOT (isr p)"

definition pending_vector :: "pic \<Rightarrow> u8 option" where
  "pending_vector p =
     (let candidates = pic_candidates p in
      if candidates = 0 then None
      else let irq = of_nat (trailing_zeros8 candidates) in Some (vector_base p + irq))"

definition pic_ack :: "pic \<Rightarrow> pic" where
  "pic_ack p =
     (let candidates = pic_candidates p in
      if candidates = 0 then p
      else let irq_bit = candidates AND - candidates
           in p\<lparr>irr := irr p AND NOT irq_bit, isr := isr p OR irq_bit\<rparr>)"

definition pic_snapshot :: "pic \<Rightarrow> bytes" where
  "pic_snapshot p =
     [vector_base p, imr p, irr p, isr p,
      (case pic_init_state p of Idle \<Rightarrow> 0 | ExpectIcw2 \<Rightarrow> 1 | ExpectIcw3 \<Rightarrow> 2 | ExpectIcw4 \<Rightarrow> 3)]"

definition pic_restore :: "pic \<Rightarrow> bytes \<Rightarrow> pic \<times> nat result" where
  "pic_restore p bs =
     (if length bs < 5 then (p, Inl ''pic: truncated'')
      else
        let p1 = p\<lparr>vector_base := bs ! 0, imr := bs ! 1, irr := bs ! 2, isr := bs ! 3\<rparr>; tag = bs ! 4
        in if tag = 0 then (p1\<lparr>pic_init_state := Idle\<rparr>, Inr 5)
           else if tag = 1 then (p1\<lparr>pic_init_state := ExpectIcw2\<rparr>, Inr 5)
           else if tag = 2 then (p1\<lparr>pic_init_state := ExpectIcw3\<rparr>, Inr 5)
           else if tag = 3 then (p1\<lparr>pic_init_state := ExpectIcw4\<rparr>, Inr 5)
           else (p1, Inl ''pic: bad init_state tag''))"

definition non_specific_eoi :: "pic \<Rightarrow> pic" where
  "non_specific_eoi p =
     (if isr p = 0 then p
      else let b = isr p AND - isr p in p\<lparr>isr := isr p AND NOT b\<rparr>)"

definition specific_eoi :: "pic \<Rightarrow> u8 \<Rightarrow> pic" where
  "specific_eoi p irq = (if irq < 8 then p\<lparr>isr := isr p AND NOT (push_bit (unat irq) 1)\<rparr> else p)"

definition pic_port_range :: "pic \<Rightarrow> u16 \<times> u16" where
  "pic_port_range p = (pic_base_port p, pic_base_port p + 1)"

definition pic_read :: "pic \<Rightarrow> u16 \<Rightarrow> u8 \<times> pic" where
  "pic_read p port =
     (let r = port - pic_base_port p in
      if r = 0 then ((case pic_read_select p of Irr \<Rightarrow> irr p | Isr \<Rightarrow> isr p), p)
      else if r = 1 then (imr p, p)
      else (0, p))"

definition pic_write_command :: "pic \<Rightarrow> u8 \<Rightarrow> pic" where
  "pic_write_command p value =
     (if value AND 0x10 \<noteq> 0 then p\<lparr>pic_init_state := ExpectIcw2, imr := 0, isr := 0, irr := 0\<rparr>
      else if value AND 0x18 = 0x08 then
        (if value AND 3 = 2 then p\<lparr>pic_read_select := Irr\<rparr>
         else if value AND 3 = 3 then p\<lparr>pic_read_select := Isr\<rparr>
         else p)
      else if value AND 0x18 = 0x00 then
        (if value AND 0xE0 = 0x20 then non_specific_eoi p
         else if value AND 0xE0 = 0x60 then specific_eoi p (value AND 0x07)
         else if value AND 0xE0 = 0xA0 then non_specific_eoi p
         else if value AND 0xE0 = 0xE0 then specific_eoi p (value AND 0x07)
         else p)
      else p)"

definition pic_write_data :: "pic \<Rightarrow> u8 \<Rightarrow> pic" where
  "pic_write_data p value =
     (case pic_init_state p of
        Idle \<Rightarrow> p\<lparr>imr := value\<rparr>
      | ExpectIcw2 \<Rightarrow> p\<lparr>vector_base := value AND 0xF8, pic_init_state := ExpectIcw3\<rparr>
      | ExpectIcw3 \<Rightarrow> p\<lparr>pic_init_state := ExpectIcw4\<rparr>
      | ExpectIcw4 \<Rightarrow> p\<lparr>pic_init_state := Idle\<rparr>)"

definition pic_write :: "pic \<Rightarrow> u16 \<Rightarrow> u8 \<Rightarrow> pic" where
  "pic_write p port value =
     (let r = port - pic_base_port p in
      if r = 0 then pic_write_command p value
      else if r = 1 then pic_write_data p value
      else p)"

section \<open>Contracts\<close>

lemma pic_eoi_frame [simp]:
  "pic_base_port (non_specific_eoi p) = pic_base_port p" "pic_base_port (specific_eoi p i) = pic_base_port p"
  by (simp_all add: non_specific_eoi_def specific_eoi_def Let_def)

interpretation pic_dev: io_device pic_port_range pic_read pic_write "\<lambda>_. True"
  by unfold_locales
     (simp_all add: pic_port_range_def pic_read_def pic_write_def pic_write_command_def pic_write_data_def Let_def
       split: init_state.splits)

definition pic_keep :: "pic \<Rightarrow> pic \<Rightarrow> pic" where
  "pic_keep p0 p = p\<lparr>pic_base_port := pic_base_port p0, pic_read_select := pic_read_select p0\<rparr>"

interpretation pic_snap: snapshot_device pic_snapshot pic_restore pic_keep "\<lambda>_. True" "\<lambda>_. True"
  by unfold_locales
     (auto simp: pic_snapshot_def pic_restore_def pic_keep_def Let_def split: init_state.splits)

section \<open>Priority\<close>

text \<open>
  An IRQ line is deliverable when it is requested, unmasked and not in service; the 8259 in its
  default mode serves the lowest-numbered deliverable line.
\<close>

definition deliverable :: "pic \<Rightarrow> nat \<Rightarrow> bool" where
  "deliverable p i \<longleftrightarrow> i < 8 \<and> bit (irr p) i \<and> \<not> bit (imr p) i \<and> \<not> bit (isr p) i"

definition pic_winner :: "pic \<Rightarrow> nat option" where
  "pic_winner p = find (deliverable p) [0..<8]"

lemma bit_candidates: "bit (pic_candidates p) i = deliverable p i"
  by (auto simp: pic_candidates_def deliverable_def bit_simps)

lemma find_upt_Some:
  "find P [0..<n] = Some k \<longleftrightarrow> k < n \<and> P k \<and> (\<forall>i<k. \<not> P i)"
proof
  assume "find P [0..<n] = Some k"
  then show "k < n \<and> P k \<and> (\<forall>i<k. \<not> P i)" by (auto simp: find_Some_iff)
next
  assume "k < n \<and> P k \<and> (\<forall>i<k. \<not> P i)"
  then show "find P [0..<n] = Some k" unfolding find_Some_iff by (intro exI [of _ k]) auto
qed

lemma pic_winner_Some:
  "pic_winner p = Some k \<longleftrightarrow> deliverable p k \<and> (\<forall>i<k. \<not> deliverable p i)"
  unfolding pic_winner_def find_upt_Some by (auto simp: deliverable_def)

lemma pic_winner_None: "pic_winner p = None \<longleftrightarrow> pic_candidates p = 0"
proof -
  have "pic_candidates p = 0 \<longleftrightarrow> (\<forall>i<8. \<not> deliverable p i)"
    by (auto simp: bit_candidates bit_eq_iff deliverable_def)
  then show ?thesis by (simp add: pic_winner_def find_None_iff Ball_def)
qed

lemma pic_candidates_winner:
  assumes "pic_winner p = Some k"
  shows "pic_candidates p \<noteq> 0" "trailing_zeros8 (pic_candidates p) = k"
    "pic_candidates p AND - pic_candidates p = push_bit k 1" "k < 8"
proof -
  have k: "bit (pic_candidates p) k" "\<And>i. i < k \<Longrightarrow> \<not> bit (pic_candidates p) i" and k8: "k < 8"
    using assms by (auto simp: pic_winner_Some bit_candidates deliverable_def)
  show "trailing_zeros8 (pic_candidates p) = k" using k8 k by (rule trailing_zeros8_least)
  show "pic_candidates p AND - pic_candidates p = push_bit k 1" using k by (rule lowest_bit_mask)
  show "pic_candidates p \<noteq> 0" using assms pic_winner_None [of p] by auto
  show "k < 8" by fact
qed

lemma pending_vector_winner:
  "pending_vector p = map_option (\<lambda>k. vector_base p + of_nat k) (pic_winner p)"
proof (cases "pic_winner p")
  case None
  then show ?thesis by (simp add: pending_vector_def pic_winner_None)
next
  case (Some k)
  then show ?thesis by (simp add: pending_vector_def pic_candidates_winner Let_def)
qed

lemma pic_ack_winner:
  "pic_ack p = (case pic_winner p of None \<Rightarrow> p
     | Some k \<Rightarrow> p\<lparr>irr := irr p AND NOT (push_bit k 1), isr := isr p OR push_bit k 1\<rparr>)"
proof (cases "pic_winner p")
  case None
  then show ?thesis using pic_winner_None [of p] by (simp add: pic_ack_def)
next
  case (Some k)
  then show ?thesis using pic_candidates_winner [OF Some] by (simp add: pic_ack_def Let_def)
qed

lemma specific_eoi_bit:
  "k < 8 \<Longrightarrow> bit (isr (specific_eoi p (of_nat k))) i = (bit (isr p) i \<and> i \<noteq> k)"
  by (auto simp: specific_eoi_def bit_simps unat_of_nat word_less_nat_alt dest: bit_u8_high)

lemma non_specific_eoi_bit:
  assumes "bit (isr p) k" and "\<And>i. i < k \<Longrightarrow> \<not> bit (isr p) i"
  shows "bit (isr (non_specific_eoi p)) i = (bit (isr p) i \<and> i \<noteq> k)"
proof -
  have nz: "isr p \<noteq> 0" using assms(1) by auto
  show ?thesis
    using lowest_bit_mask [of "isr p" k, OF assms] nz
    by (auto simp: non_specific_eoi_def Let_def bit_simps dest: bit_u8_high)
qed

lemma specific_eoi_command:
  assumes "k < 8"
  shows "pic_write p (pic_base_port p) (0x60 OR of_nat k) = specific_eoi p (of_nat k)"
proof -
  consider "k = 0" | "k = 1" | "k = 2" | "k = 3" | "k = 4" | "k = 5" | "k = 6" | "k = 7"
    using assms by linarith
  then show ?thesis by cases (simp_all add: pic_write_def pic_write_command_def)
qed

text \<open>
  One interrupt's service cycle.  The vector the CPU sees is the base plus the
  lowest-numbered line that is requested, unmasked and not in service; acknowledging moves
  exactly that line from IRR to ISR; it is then no longer the pending one; and both its
  specific EOI and, when no lower line is in service, the non-specific EOI return ISR to what
  it was.
\<close>

theorem pic_service_cycle:
  assumes "pic_winner p = Some k"
  shows "pending_vector p = Some (vector_base p + of_nat k) \<and>
    (\<forall>i. bit (irr (pic_ack p)) i = (bit (irr p) i \<and> i \<noteq> k)) \<and>
    (\<forall>i. bit (isr (pic_ack p)) i = (bit (isr p) i \<or> i = k)) \<and>
    pic_winner (pic_ack p) \<noteq> Some k \<and>
    isr (pic_write (pic_ack p) (pic_base_port p) (0x60 OR of_nat k)) = isr p \<and>
    ((\<forall>i<k. \<not> bit (isr p) i) \<longrightarrow> isr (pic_write (pic_ack p) (pic_base_port p) 0x20) = isr p)"
proof -
  have k: "deliverable p k" and k8: "k < 8"
    using assms by (auto simp: pic_winner_Some deliverable_def)
  have nk: "\<not> bit (isr p) k" using k by (simp add: deliverable_def)
  have port: "pic_base_port (pic_ack p) = pic_base_port p" by (simp add: pic_ack_winner split: option.splits)
  have irr: "bit (irr (pic_ack p)) i = (bit (irr p) i \<and> i \<noteq> k)" for i
    using assms k8 by (auto simp: pic_ack_winner bit_simps dest: bit_u8_high)
  have isr: "bit (isr (pic_ack p)) i = (bit (isr p) i \<or> i = k)" for i
    using assms k8 by (auto simp: pic_ack_winner bit_simps)
  have win: "pic_winner (pic_ack p) \<noteq> Some k"
    by (auto simp: pic_winner_Some deliverable_def irr)
  have eoi: "isr (pic_write (pic_ack p) (pic_base_port p) (0x60 OR of_nat k)) = isr p"
    using specific_eoi_command [OF k8, of "pic_ack p"] nk
    by (auto intro!: bit_word_eqI simp: port specific_eoi_bit [OF k8] isr)
  have "isr (pic_write (pic_ack p) (pic_base_port p) 0x20) = isr p" if low: "\<forall>i<k. \<not> bit (isr p) i"
  proof -
    have "pic_write (pic_ack p) (pic_base_port p) 0x20 = non_specific_eoi (pic_ack p)"
      by (simp add: pic_write_def pic_write_command_def flip: port)
    then show ?thesis
      using non_specific_eoi_bit [of "pic_ack p" k] low nk
      by (auto intro!: bit_word_eqI simp: isr)
  qed
  then show ?thesis
    using assms irr isr win eoi by (simp add: pending_vector_winner)
qed

theorem pic_service_cycle_witness:
  "pending_vector (pic_master\<lparr>imr := 0, irr := 0x12\<rparr>) = Some 9 \<and>
   isr (pic_write (pic_ack (pic_master\<lparr>imr := 0, irr := 0x12\<rparr>)) 0x20 0x61) = 0"
proof -
  let ?p = "pic_master\<lparr>imr := 0, irr := 0x12\<rparr>"
  have "bit (0x12 :: u8) 1" "\<not> bit (0x12 :: u8) 0" by simp_all
  then have "pic_winner ?p = Some 1"
    by (auto simp: pic_winner_Some deliverable_def pic_master_def pic_new_def)
  from pic_service_cycle [OF this] show ?thesis
    by (simp add: pic_master_def pic_new_def MASTER_BASE_def)
qed

text \<open>
  The initialisation sequence works from any state, even in the middle of an earlier one:
  ICW1 on the command port followed by ICW2, ICW3, ICW4 and a mask on the data port leaves the
  PIC idle with the vector base of ICW2 (low three bits dropped), the mask installed and no
  request or service bit set; the read-register selection is kept.
\<close>

theorem pic_init_sequence:
  assumes "icw1 AND 0x10 \<noteq> 0"
  shows "snd (run_accesses pic_read pic_write p
      [Out (pic_base_port p) icw1, Out (pic_base_port p + 1) icw2, Out (pic_base_port p + 1) icw3,
       Out (pic_base_port p + 1) icw4, Out (pic_base_port p + 1) ocw1])
    = p\<lparr>vector_base := icw2 AND 0xF8, imr := ocw1, irr := 0, isr := 0, pic_init_state := Idle\<rparr>"
  using assms by (simp add: pic_write_def pic_write_command_def pic_write_data_def)

theorem pic_init_sequence_witness:
  "vector_base (snd (run_accesses pic_read pic_write pic_master
     [Out 0x20 0x11, Out 0x21 0x20, Out 0x21 0x04, Out 0x21 0x01, Out 0x21 0xFB])) = 0x20"
  using pic_init_sequence [of "0x11" pic_master "0x20" "0x04" "0x01" "0xFB"]
  by (simp add: pic_master_def pic_new_def MASTER_BASE_def)

end
