(* ===== verification/Pit.thy ===== *)
theory Pit
  imports IoDevice
begin

text \<open>
  The 8254 interval timer (\<^verbatim>\<open>crates/devices/src/pit.rs\<close>): channel 0 (the IRQ 0 source), the
  calibration channel 2 with its gate at port 0x61, the counter latch, and the snapshot
  format with its three layouts.  The tick loop is \<open>pit_ch0_loop\<close>; it terminates because the
  remaining tick count decreases, and it is proved equal to single ticking.
\<close>

record pit =
  pit_base_port :: u16
  ch0_reload :: u16
  ch0_counter :: u32
  ch0_mode :: u8
  ch0_running :: bool
  ch0_pending_edge :: bool
  pit_write_state :: u8
  pending_lsb :: u8
  ch0_latch :: "u16 option"
  read_state :: u8
  ch2_reload :: u16
  ch2_counter :: u32
  ch2_running :: bool
  ch2_out :: bool
  ch2_write_state :: u8
  ch2_pending_lsb :: u8
  gate2 :: bool
  speaker2 :: bool

definition PIT_BASE :: u16 where "PIT_BASE = 0x40"

definition pit_new :: "u16 \<Rightarrow> pit" where
  "pit_new base =
     \<lparr>pit_base_port = base, ch0_reload = 0, ch0_counter = 0, ch0_mode = 0, ch0_running = False,
      ch0_pending_edge = False, pit_write_state = 0, pending_lsb = 0, ch0_latch = None, read_state = 0,
      ch2_reload = 0, ch2_counter = 0, ch2_running = False, ch2_out = False, ch2_write_state = 0,
      ch2_pending_lsb = 0, gate2 = False, speaker2 = False\<rparr>"

definition pit_standard :: pit where
  "pit_standard = pit_new PIT_BASE"

text \<open>A reload value of zero counts as 0x10000, the 8254 convention.\<close>

definition reload_value :: "u16 \<Rightarrow> u32" where
  "reload_value r = (if r = 0 then 0x10000 else ucast r)"

lemma reload_value_nonzero [simp]: "reload_value r \<noteq> 0"
  by (simp add: reload_value_def ucast_eq_0_wider)

text \<open>
  The loop of \<^verbatim>\<open>tick\<close> over channel 0, on its locals: remaining ticks, counter and pending edge.
  The result is whether the channel still runs, its counter and its edge.
\<close>

function pit_ch0_loop :: "u8 \<Rightarrow> u16 \<Rightarrow> u32 \<Rightarrow> u32 \<Rightarrow> bool \<Rightarrow> bool \<times> u32 \<times> bool" where
  "pit_ch0_loop mode reload remaining counter edge =
     (if counter = 0 \<and> mode = 0 then (False, counter, edge)
      else
        let counter1 = (if counter = 0 then reload_value reload else counter);
            tk = min remaining counter1;
            counter2 = counter1 - tk;
            remaining1 = remaining - tk;
            edge1 = (edge \<or> counter2 = 0)
        in if remaining1 = 0 then (True, counter2, edge1)
           else pit_ch0_loop mode reload remaining1 counter2 edge1)"
  by pat_completeness auto
termination
proof (relation "measure (\<lambda>(mode, reload, remaining, counter, edge). unat remaining)", goal_cases)
  case (2 mode reload remaining counter edge counter1 tk counter2 remaining1 edge1)
  from 2 have c1: "counter1 \<noteq> 0" by auto
  have r: "remaining \<noteq> 0" using 2 by (auto simp: min_def split: if_splits)
  have le: "tk \<le> remaining" and tk: "tk \<noteq> 0" using 2 c1 r by (auto simp: min_def)
  have "unat (remaining - tk) < unat remaining"
    using le tk unat_sub [OF le] unat_gt_0 [of tk] by (simp add: word_le_nat_alt)
  then show ?case using 2 by simp
qed simp

declare pit_ch0_loop.simps [simp del]

definition pit_tick :: "pit \<Rightarrow> u32 \<Rightarrow> pit" where
  "pit_tick p n =
     (if n = 0 then p
      else
        let p1 = (if ch0_running p
                  then let (run, counter, edge) =
                             pit_ch0_loop (ch0_mode p) (ch0_reload p) n (ch0_counter p) (ch0_pending_edge p)
                       in p\<lparr>ch0_running := run, ch0_counter := counter, ch0_pending_edge := edge\<rparr>
                  else p)
        in if ch2_running p1 \<and> gate2 p1
           then let tk = min n (ch2_counter p1); c = ch2_counter p1 - tk
                in if c = 0 then p1\<lparr>ch2_counter := c, ch2_out := True, ch2_running := False\<rparr>
                   else p1\<lparr>ch2_counter := c\<rparr>
           else p1)"

definition read_port_61 :: "pit \<Rightarrow> u8" where
  "read_port_61 p =
     (let v0 = (0 :: u8);
          v1 = (if gate2 p then v0 OR 0x01 else v0);
          v2 = (if speaker2 p then v1 OR 0x02 else v1)
      in if ch2_out p then v2 OR 0x20 else v2)"

definition write_port_61 :: "pit \<Rightarrow> u8 \<Rightarrow> pit" where
  "write_port_61 p value = p\<lparr>gate2 := (value AND 0x01 \<noteq> 0), speaker2 := (value AND 0x02 \<noteq> 0)\<rparr>"

definition take_ch0_pending :: "pit \<Rightarrow> bool \<times> pit" where
  "take_ch0_pending p = (ch0_pending_edge p, p\<lparr>ch0_pending_edge := False\<rparr>)"

definition pit_snapshot :: "pit \<Rightarrow> bytes" where
  "pit_snapshot p =
     le16 (ch0_reload p) @ le32 (ch0_counter p) @ [ch0_mode p,
      b2w (ch0_running p) OR push_bit 1 (b2w (ch0_pending_edge p))
        OR push_bit 2 (b2w (ch0_latch p \<noteq> None)) OR push_bit 3 (read_state p AND 1),
      pit_write_state p, pending_lsb p]
     @ le16 (case ch0_latch p of None \<Rightarrow> 0 | Some v \<Rightarrow> v)
     @ le16 (ch2_reload p) @ le32 (ch2_counter p)
     @ [b2w (ch2_running p) OR push_bit 1 (b2w (ch2_out p))
          OR push_bit 2 (b2w (gate2 p)) OR push_bit 3 (b2w (speaker2 p)),
        ch2_write_state p, ch2_pending_lsb p]
     @ le32 0"

definition pit_restore :: "pit \<Rightarrow> bytes \<Rightarrow> pit \<times> nat result" where
  "pit_restore p bs =
     (if length bs < 10 then (p, Inl ''pit: truncated'')
      else
        let flags = bs ! 7;
            p1 = p\<lparr>ch0_reload := get16 bs 0, ch0_counter := get32 bs 2, ch0_mode := bs ! 6,
                   ch0_running := (flags AND 1 \<noteq> 0), ch0_pending_edge := (flags AND 2 \<noteq> 0),
                   pit_write_state := bs ! 8, pending_lsb := bs ! 9\<rparr>;
            (p2, consumed_v2) =
              (if 12 \<le> length bs
               then (p1\<lparr>read_state := drop_bit 3 flags AND 1,
                        ch0_latch := (if flags AND push_bit 2 1 \<noteq> 0 then Some (get16 bs 10) else None)\<rparr>, 12)
               else (p1\<lparr>ch0_latch := None, read_state := 0\<rparr>, 10))
        in if consumed_v2 + 13 \<le> length bs
           then let q = consumed_v2; ch2_flags = bs ! (q + 6)
                in (p2\<lparr>ch2_reload := get16 bs q, ch2_counter := get32 bs (q + 2),
                       ch2_running := (ch2_flags AND 1 \<noteq> 0), ch2_out := (ch2_flags AND 2 \<noteq> 0),
                       gate2 := (ch2_flags AND 4 \<noteq> 0), speaker2 := (ch2_flags AND 8 \<noteq> 0),
                       ch2_write_state := bs ! (q + 7), ch2_pending_lsb := bs ! (q + 8)\<rparr>,
                    Inr (consumed_v2 + 13))
           else (p2\<lparr>ch2_reload := 0, ch2_counter := 0, ch2_running := False, ch2_out := False,
                    gate2 := False, speaker2 := False, ch2_write_state := 0, ch2_pending_lsb := 0\<rparr>,
                 Inr consumed_v2))"

definition pit_port_range :: "pit \<Rightarrow> u16 \<times> u16" where
  "pit_port_range p = (pit_base_port p, pit_base_port p + 3)"

definition pit_read :: "pit \<Rightarrow> u16 \<Rightarrow> u8 \<times> pit" where
  "pit_read p port =
     (if port - pit_base_port p \<noteq> 0 then (0, p)
      else case ch0_latch p of
        Some latched \<Rightarrow>
          (if read_state p = 0 then (ucast (latched AND 0xFF), p\<lparr>read_state := 1\<rparr>)
           else (ucast (drop_bit 8 latched), p\<lparr>ch0_latch := None, read_state := 0\<rparr>))
      | None \<Rightarrow>
          (let cur = (ucast (ch0_counter p) :: u16) in
           if read_state p = 0 then (ucast (cur AND 0xFF), p\<lparr>read_state := 1\<rparr>)
           else (ucast (drop_bit 8 cur), p\<lparr>read_state := 0\<rparr>)))"

definition pit_write_control :: "pit \<Rightarrow> u8 \<Rightarrow> pit" where
  "pit_write_control p value =
     (let sc = drop_bit 6 value; rw = drop_bit 4 value AND 3; mode = drop_bit 1 value AND 7 in
      if sc = 0 \<and> rw = 0 then
        (if ch0_latch p = None then p\<lparr>ch0_latch := Some (ucast (ch0_counter p)), read_state := 0\<rparr> else p)
      else if sc = 0 \<and> rw = 3 then
        p\<lparr>ch0_mode := mode, pit_write_state := 0, read_state := 0, ch0_latch := None,
          ch0_pending_edge := False, ch0_running := False\<rparr>
      else if sc = 2 \<and> rw = 3 then
        p\<lparr>ch2_write_state := 0, ch2_out := False, ch2_running := False\<rparr>
      else p)"

definition pit_write :: "pit \<Rightarrow> u16 \<Rightarrow> u8 \<Rightarrow> pit" where
  "pit_write p port value =
     (let r = port - pit_base_port p in
      if r = 3 then pit_write_control p value
      else if r = 0 then
        (if pit_write_state p = 0 then p\<lparr>pending_lsb := value, pit_write_state := 1\<rparr>
         else let reload = ucast (pending_lsb p) OR push_bit 8 (ucast value)
              in p\<lparr>ch0_reload := reload, ch0_counter := (if reload = 0 then 0x10000 else ucast reload),
                   ch0_running := True, pit_write_state := 0\<rparr>)
      else if r = 2 then
        (if ch2_write_state p = 0 then p\<lparr>ch2_pending_lsb := value, ch2_write_state := 1\<rparr>
         else let reload = ucast (ch2_pending_lsb p) OR push_bit 8 (ucast value)
              in p\<lparr>ch2_reload := reload, ch2_counter := (if reload = 0 then 0x10000 else ucast reload),
                   ch2_running := True, ch2_out := False, ch2_write_state := 0\<rparr>)
      else p)"

section \<open>Contracts\<close>

lemma pit_write_control_frame [simp]: "pit_base_port (pit_write_control p v) = pit_base_port p"
  by (simp add: pit_write_control_def Let_def)

text \<open>The read phase is one bit: every operation keeps \<open>read_state\<close> at 0 or 1.\<close>

definition pit_wf :: "pit \<Rightarrow> bool" where
  "pit_wf p \<longleftrightarrow> read_state p = 0 \<or> read_state p = 1"

interpretation pit_dev: io_device pit_port_range pit_read pit_write pit_wf
  by unfold_locales
     (simp_all add: pit_port_range_def pit_read_def pit_write_def pit_write_control_def pit_wf_def Let_def
       split: option.splits)

definition pit_keep :: "pit \<Rightarrow> pit \<Rightarrow> pit" where
  "pit_keep p0 p = p\<lparr>pit_base_port := pit_base_port p0\<rparr>"

lemma flag_bits:
  fixes a b c d :: bool
  defines "w \<equiv> b2w a OR push_bit 1 (b2w b) OR push_bit 2 (b2w c) OR push_bit 3 (b2w d) :: u8"
  shows "(w AND 1 \<noteq> 0) = a" "(w AND 2 \<noteq> 0) = b" "(w AND 4 \<noteq> 0) = c" "(w AND 8 \<noteq> 0) = d"
    "drop_bit 3 w AND 1 = b2w d"
  by (cases a; cases b; cases c; cases d; simp add: w_def b2w_def)+

lemma pit_restore_full:
  assumes "25 \<le> length bs"
  shows "pit_restore p bs =
    (p\<lparr>ch0_reload := get16 bs 0, ch0_counter := get32 bs 2, ch0_mode := bs ! 6,
       ch0_running := (bs ! 7 AND 1 \<noteq> 0), ch0_pending_edge := (bs ! 7 AND 2 \<noteq> 0),
       pit_write_state := bs ! 8, pending_lsb := bs ! 9,
       read_state := drop_bit 3 (bs ! 7) AND 1,
       ch0_latch := (if bs ! 7 AND 4 \<noteq> 0 then Some (get16 bs 10) else None),
       ch2_reload := get16 bs 12, ch2_counter := get32 bs 14,
       ch2_running := (bs ! 18 AND 1 \<noteq> 0), ch2_out := (bs ! 18 AND 2 \<noteq> 0),
       gate2 := (bs ! 18 AND 4 \<noteq> 0), speaker2 := (bs ! 18 AND 8 \<noteq> 0),
       ch2_write_state := bs ! 19, ch2_pending_lsb := bs ! 20\<rparr>, Inr 25)"
  using assms by (simp add: pit_restore_def Let_def)

lemma pit_snapshot_length: "length (pit_snapshot p) = 25"
  by (simp add: pit_snapshot_def)

lemma read_state_flag: "pit_wf p \<Longrightarrow> read_state p AND 1 = b2w (read_state p = 1) \<and> b2w (read_state p = 1) = read_state p"
  by (auto simp: pit_wf_def b2w_def)

interpretation pit_snap: snapshot_device pit_snapshot pit_restore pit_keep pit_wf "\<lambda>_. True"
proof
  fix p p0 rest
  assume wf: "pit_wf p"
  have rs: "read_state p AND 1 = b2w (read_state p = 1)" "b2w (read_state p = 1) = read_state p"
    using read_state_flag [OF wf] by simp_all
  define f where "f = b2w (ch0_running p) OR push_bit 1 (b2w (ch0_pending_edge p))
        OR push_bit 2 (b2w (ch0_latch p \<noteq> None)) OR push_bit 3 (b2w (read_state p = 1) :: u8)"
  define g where "g = b2w (ch2_running p) OR push_bit 1 (b2w (ch2_out p))
          OR push_bit 2 (b2w (gate2 p)) OR push_bit 3 (b2w (speaker2 p) :: u8)"
  define bs where "bs = pit_snapshot p @ rest"
  have bs: "bs = le16 (ch0_reload p) @ le32 (ch0_counter p) @ [ch0_mode p, f, pit_write_state p, pending_lsb p]
     @ le16 (case ch0_latch p of None \<Rightarrow> 0 | Some v \<Rightarrow> v) @ le16 (ch2_reload p) @ le32 (ch2_counter p)
     @ [g, ch2_write_state p, ch2_pending_lsb p] @ le32 0 @ rest"
    by (simp add: bs_def pit_snapshot_def f_def g_def rs)
  have bytes: "bs ! 6 = ch0_mode p" "bs ! 7 = f" "bs ! 8 = pit_write_state p" "bs ! 9 = pending_lsb p"
    "bs ! 18 = g" "bs ! 19 = ch2_write_state p" "bs ! 20 = ch2_pending_lsb p"
    by (simp_all add: bs le16_def le32_def)
  have words: "get16 bs 0 = ch0_reload p" "get32 bs 2 = ch0_counter p"
    "get16 bs 10 = (case ch0_latch p of None \<Rightarrow> 0 | Some v \<Rightarrow> v)"
    "get16 bs 12 = ch2_reload p" "get32 bs 14 = ch2_counter p"
    by (simp_all add: bs get16_def get32_def le16_def le32_def)
  have len: "25 \<le> length bs" by (simp add: bs_def pit_snapshot_length)
  have latch: "(if ch0_latch p \<noteq> None then Some (case ch0_latch p of None \<Rightarrow> 0 | Some v \<Rightarrow> v) else None) = ch0_latch p"
    by (cases "ch0_latch p") simp_all
  note fbits = flag_bits [of "ch0_running p" "ch0_pending_edge p" "ch0_latch p \<noteq> None" "read_state p = 1", folded f_def]
    and gbits = flag_bits [of "ch2_running p" "ch2_out p" "gate2 p" "speaker2 p", folded g_def]
  have "pit_restore p0 bs = (pit_keep p0 p, Inr 25)"
    unfolding pit_restore_full [OF len] bytes words fbits gbits latch rs(2) pit_keep_def by simp
  then show "pit_restore p0 (pit_snapshot p @ rest) = (pit_keep p0 p, Inr (length (pit_snapshot p)))"
    by (simp add: bs_def pit_snapshot_length)
qed

section \<open>Ticking\<close>

text \<open>One tick of channel 0 on (running, counter, edge): the reference for the batched loop.\<close>

definition ch0_step :: "u8 \<Rightarrow> u16 \<Rightarrow> bool \<times> u32 \<times> bool \<Rightarrow> bool \<times> u32 \<times> bool" where
  "ch0_step mode reload s =
     (case s of (run, c, e) \<Rightarrow>
        if \<not> run then s
        else if c = 0 \<and> mode = 0 then (False, c, e)
        else let c1 = (if c = 0 then reload_value reload else c) in (True, c1 - 1, e \<or> c1 = 1))"

lemma ch0_step_run: "c \<noteq> 0 \<Longrightarrow> ch0_step m r (True, c, e) = (True, c - 1, e \<or> c = 1)"
  by (simp add: ch0_step_def)

lemma ch0_step_stopped: "(ch0_step m r ^^ n) (False, c, e) = (False, c, e)"
  by (induction n) (simp_all add: ch0_step_def)

lemma ch0_steps_within:
  assumes "k \<le> unat c" and "0 < k"
  shows "(ch0_step m r ^^ k) (True, c, e) = (True, c - of_nat k, e \<or> k = unat c)"
  using assms
proof (induction k)
  case (Suc k)
  have c0: "c \<noteq> 0" using Suc.prems by auto
  have one: "w = 1 \<longleftrightarrow> unat w = 1" for w :: u32 by (simp add: word_unat_eq_iff)
  show ?case
  proof (cases "k = 0")
    case True
    have "unat c = Suc 0 \<longleftrightarrow> c = 1" using one [of c] by simp
    then show ?thesis using c0 True by (auto simp: ch0_step_run)
  next
    case False
    have u: "unat (c - of_nat k) = unat c - k" using Suc.prems by (intro unat_minus_of_nat_u32) simp
    have nz: "c - of_nat k \<noteq> 0" unfolding word_unat_eq_iff u using Suc.prems by simp
    have "c - of_nat k = 1 \<longleftrightarrow> Suc k = unat c" unfolding one u using Suc.prems by auto
    moreover have "k \<noteq> unat c" using Suc.prems by simp
    moreover have "(ch0_step m r ^^ Suc k) (True, c, e) = ch0_step m r (True, c - of_nat k, e \<or> k = unat c)"
      using Suc False by simp
    moreover have "c - of_nat k - 1 = c - of_nat (Suc k)" by (simp add: algebra_simps)
    ultimately show ?thesis by (simp only: ch0_step_run [OF nz] simp_thms)
  qed
qed simp

lemma ch0_step_reload:
  assumes "m \<noteq> 0" and "0 < k"
  shows "(ch0_step m r ^^ k) (True, 0, e) = (ch0_step m r ^^ k) (True, reload_value r, e)"
proof -
  obtain j where "k = Suc j" using assms(2) by (cases k) auto
  then show ?thesis using assms(1) by (simp add: funpow_Suc_right ch0_step_def Let_def del: funpow.simps)
qed

lemma pit_ch0_loop_steps:
  "remaining \<noteq> 0 \<Longrightarrow>
   pit_ch0_loop m r remaining c e = (ch0_step m r ^^ unat remaining) (True, c, e)"
proof (induction m r remaining c e rule: pit_ch0_loop.induct)
  case (1 m r remaining c e)
  obtain j where j: "unat remaining = Suc j" using 1(2) unat_gt_0 [of remaining] by (cases "unat remaining") auto
  show ?case
  proof (cases "c = 0 \<and> m = 0")
    case True
    then have "(ch0_step m r ^^ Suc j) (True, c, e) = (False, c, e)"
      by (simp add: funpow_Suc_right ch0_step_def ch0_step_stopped del: funpow.simps)
    then show ?thesis using True j by (simp add: pit_ch0_loop.simps)
  next
    case False
    define c1 where "c1 = (if c = 0 then reload_value r else c)"
    define tk where "tk = min remaining c1"
    have c1: "c1 \<noteq> 0" by (simp add: c1_def)
    have tk0: "0 < unat tk" using c1 1(2) by (simp add: tk_def min_def unat_gt_0)
    have tkle: "tk \<le> remaining" "tk \<le> c1" by (simp_all add: tk_def)
    have split: "unat remaining = unat (remaining - tk) + unat tk"
      using tkle(1) unat_sub [OF tkle(1)] by (simp add: word_le_nat_alt)
    have seg: "(ch0_step m r ^^ unat tk) (True, c, e) = (True, c1 - tk, e \<or> c1 - tk = 0)"
    proof -
      have "(ch0_step m r ^^ unat tk) (True, c, e) = (ch0_step m r ^^ unat tk) (True, c1, e)"
        using False ch0_step_reload [OF _ tk0, of m r e] by (cases "c = 0") (simp_all add: c1_def)
      also have "\<dots> = (True, c1 - tk, e \<or> unat tk = unat c1)"
        using ch0_steps_within [of "unat tk" c1 m r e] tkle(2) tk0 by (simp add: word_le_nat_alt)
      also have "unat tk = unat c1 \<longleftrightarrow> c1 - tk = 0"
        by (metis eq_iff_diff_eq_0 word_unat_eq_iff)
      finally show ?thesis .
    qed
    have loop: "pit_ch0_loop m r remaining c e =
        (if remaining - tk = 0 then (True, c1 - tk, e \<or> c1 - tk = 0)
         else pit_ch0_loop m r (remaining - tk) (c1 - tk) (e \<or> c1 - tk = 0))"
      using False by (subst pit_ch0_loop.simps) (auto simp: c1_def tk_def Let_def)
    have "(ch0_step m r ^^ unat remaining) (True, c, e)
        = (ch0_step m r ^^ unat (remaining - tk)) (True, c1 - tk, e \<or> c1 - tk = 0)"
      unfolding split funpow_add comp_apply seg ..
    then show ?thesis
      using loop 1(1) [OF False c1_def tk_def refl refl refl] by auto
  qed
qed

definition ch2_after :: "pit \<Rightarrow> u32 \<Rightarrow> pit" where
  "ch2_after p n =
     (if ch2_running p \<and> gate2 p
      then if ch2_counter p \<le> n then p\<lparr>ch2_counter := 0, ch2_out := True, ch2_running := False\<rparr>
           else p\<lparr>ch2_counter := ch2_counter p - n\<rparr>
      else p)"

definition ch0_after :: "pit \<Rightarrow> nat \<Rightarrow> pit" where
  "ch0_after p n =
     (case (ch0_step (ch0_mode p) (ch0_reload p) ^^ n) (ch0_running p, ch0_counter p, ch0_pending_edge p) of
        (run, c, e) \<Rightarrow> p\<lparr>ch0_running := run, ch0_counter := c, ch0_pending_edge := e\<rparr>)"

lemma ch2_after_min:
  "(if ch2_running p \<and> gate2 p
    then let tk = min n (ch2_counter p); c = ch2_counter p - tk
         in if c = 0 then p\<lparr>ch2_counter := c, ch2_out := True, ch2_running := False\<rparr>
            else p\<lparr>ch2_counter := c\<rparr>
    else p) = ch2_after p n"
proof (cases "ch2_counter p \<le> n")
  case True
  then show ?thesis by (simp add: ch2_after_def min_absorb2)
next
  case False
  then have "min n (ch2_counter p) = n" "ch2_counter p - n \<noteq> 0" by (auto simp: min_def)
  then show ?thesis using False by (simp add: ch2_after_def)
qed

lemma ch0_after_loop:
  assumes "n \<noteq> 0"
  shows "(if ch0_running p
         then let (run, counter, edge) =
                pit_ch0_loop (ch0_mode p) (ch0_reload p) n (ch0_counter p) (ch0_pending_edge p)
              in p\<lparr>ch0_running := run, ch0_counter := counter, ch0_pending_edge := edge\<rparr>
         else p) = ch0_after p (unat n)"
  by (cases "ch0_running p")
     (simp_all add: pit_ch0_loop_steps [OF assms] ch0_after_def ch0_step_stopped)

lemma pit_tick_eq: "pit_tick p n = (if n = 0 then p else ch2_after (ch0_after p (unat n)) n)"
proof (cases "n = 0")
  case False
  show ?thesis
    unfolding pit_tick_def ch0_after_loop [OF False] Let_def [of "ch0_after p (unat n)"] ch2_after_min
    using False by simp
qed (simp add: pit_tick_def)

lemma ch0_after_add: "ch0_after (ch0_after p a) b = ch0_after p (a + b)"
proof -
  obtain run c e where s: "(ch0_step (ch0_mode p) (ch0_reload p) ^^ a) (ch0_running p, ch0_counter p, ch0_pending_edge p) = (run, c, e)"
    by (metis prod_cases3)
  have "(ch0_step (ch0_mode p) (ch0_reload p) ^^ (a + b)) (ch0_running p, ch0_counter p, ch0_pending_edge p)
      = (ch0_step (ch0_mode p) (ch0_reload p) ^^ b) (run, c, e)"
    by (simp add: add.commute [of a b] funpow_add s)
  then show ?thesis by (simp add: ch0_after_def s split: prod.splits)
qed

lemma ch0_ch2_commute: "ch0_after (ch2_after p n) k = ch2_after (ch0_after p k) n"
proof -
  obtain run c e where s: "(ch0_step (ch0_mode p) (ch0_reload p) ^^ k) (ch0_running p, ch0_counter p, ch0_pending_edge p) = (run, c, e)"
    by (metis prod_cases3)
  show ?thesis by (simp add: ch0_after_def ch2_after_def s)
qed

lemma ch2_after_add:
  assumes "unat a + unat b < 2 ^ 32"
  shows "ch2_after (ch2_after p a) b = ch2_after p (a + b)"
proof -
  have u: "unat (a + b) = unat a + unat b" using assms by (simp add: unat_word_ariths)
  have d: "unat (ch2_counter p - a) = unat (ch2_counter p) - unat a" if "\<not> ch2_counter p \<le> a"
    using that by (intro unat_sub) simp
  have le: "a \<le> a + b" by (simp add: word_le_nat_alt u)
  show ?thesis
  proof (cases "ch2_counter p \<le> a")
    case True
    then have "ch2_counter p \<le> a + b" using le by (rule order_trans)
    with True show ?thesis by (simp add: ch2_after_def)
  next
    case False
    have "unat (ch2_counter p) - unat a \<le> unat b \<longleftrightarrow> unat (ch2_counter p) \<le> unat a + unat b" by linarith
    then have le: "ch2_counter p - a \<le> b \<longleftrightarrow> ch2_counter p \<le> a + b"
      by (simp only: word_le_nat_alt u d [OF False])
    define q where "q = p\<lparr>ch2_counter := ch2_counter p - a\<rparr>"
    have q: "ch2_counter q = ch2_counter p - a" "ch2_running q = ch2_running p" "gate2 q = gate2 p"
      by (simp_all add: q_def)
    have upd: "q\<lparr>ch2_counter := x\<rparr> = p\<lparr>ch2_counter := x\<rparr>" for x by (simp add: q_def)
    have "ch2_after p a = (if ch2_running p \<and> gate2 p then q else p)"
      by (simp only: ch2_after_def False if_False q_def)
    then show ?thesis
      by (cases "ch2_running p \<and> gate2 p")
         (simp_all only: if_True if_False simp_thms ch2_after_def [of q] ch2_after_def [of p] q le upd diff_diff_eq)
  qed
qed

text \<open>
  Batching is sound: advancing the timer by \<open>a\<close> and then by \<open>b\<close> ticks is advancing it by
  \<open>a + b\<close>, in every mode and for both channels, so the loop of \<^verbatim>\<open>tick(n)\<close> (which always
  terminates) computes what \<open>n\<close> single ticks do.
\<close>

theorem pit_tick_additive:
  assumes "unat a + unat b < 2 ^ 32"
  shows "pit_tick (pit_tick p a) b = pit_tick p (a + b)"
proof -
  have u: "unat (a + b) = unat a + unat b" using assms by (simp add: unat_word_ariths)
  show ?thesis
  proof (cases "a = 0 \<or> b = 0")
    case False
    then have "a + b \<noteq> 0" using u unat_gt_0 [of a] by (metis add_gr_0 unat_gt_0)
    then show ?thesis
      using False ch2_after_add [OF assms] by (simp add: pit_tick_eq u ch0_ch2_commute ch0_after_add)
  next
    case True
    have "pit_tick q 0 = q" for q by (simp add: pit_tick_def)
    with True show ?thesis by auto
  qed
qed

theorem pit_tick_additive_witness:
  "pit_tick (pit_tick (pit_standard\<lparr>ch0_running := True, ch0_mode := 2, ch0_reload := 3, ch0_counter := 3\<rparr>) 2) 5
   = pit_tick (pit_standard\<lparr>ch0_running := True, ch0_mode := 2, ch0_reload := 3, ch0_counter := 3\<rparr>) 7"
  using pit_tick_additive [of 2 5] by simp

section \<open>Rates\<close>

text \<open>What the bus does on each divided step: one tick, then consume the edge.\<close>

definition pit_cycle :: "pit \<Rightarrow> bool \<times> pit" where
  "pit_cycle p = take_ch0_pending (pit_tick p 1)"

definition pit_cycles :: "nat \<Rightarrow> pit \<Rightarrow> pit" where
  "pit_cycles n p = ((\<lambda>q. snd (pit_cycle q)) ^^ n) p"

text \<open>The channel-0 fields a cycle can see, for a running periodic channel.\<close>

definition periodic_at :: "pit \<Rightarrow> u32 \<Rightarrow> u32 \<Rightarrow> bool" where
  "periodic_at p r c \<longleftrightarrow> ch0_running p \<and> ch0_mode p \<noteq> 0 \<and> reload_value (ch0_reload p) = r \<and>
     ch0_counter p = c \<and> \<not> ch0_pending_edge p"

lemma ch2_after_frame [simp]:
  "ch0_running (ch2_after p n) = ch0_running p" "ch0_mode (ch2_after p n) = ch0_mode p"
  "ch0_reload (ch2_after p n) = ch0_reload p" "ch0_counter (ch2_after p n) = ch0_counter p"
  "ch0_pending_edge (ch2_after p n) = ch0_pending_edge p"
  by (simp_all add: ch2_after_def)

lemma pit_cycle_periodic:
  assumes "periodic_at p r c"
  defines "c1 \<equiv> if c = 0 then r else c"
  shows "fst (pit_cycle p) = (c1 = 1)" "periodic_at (snd (pit_cycle p)) r (c1 - 1)"
  using assms
  by (simp_all add: pit_cycle_def take_ch0_pending_def pit_tick_eq ch0_after_def ch0_step_def periodic_at_def Let_def)

text \<open>Counter after \<open>n\<close> cycles of period \<open>r\<close>, started at \<open>r\<close>.\<close>

definition phase :: "nat \<Rightarrow> nat \<Rightarrow> nat" where
  "phase r n = (if n = 0 then r else if r dvd n then 0 else r - n mod r)"

lemma phase_Suc:
  assumes "0 < r"
  shows "phase r (Suc n) = (if phase r n = 0 then r else phase r n) - 1"
    "(if phase r n = 0 then r else phase r n) = 1 \<longleftrightarrow> r dvd Suc n"
proof -
  have m: "n mod r < r" using assms by simp
  have "r dvd Suc n \<longleftrightarrow> Suc (n mod r) = r"
    using assms by (metis dvd_imp_mod_0 mod_0_imp_dvd mod_Suc nat.distinct(1))
  moreover have "Suc n mod r = (if Suc (n mod r) = r then 0 else Suc (n mod r))" by (simp add: mod_Suc)
  moreover have e: "(if phase r n = 0 then r else phase r n) = r - n mod r"
    using m by (auto simp: phase_def dvd_eq_mod_eq_0)
  ultimately show "phase r (Suc n) = (if phase r n = 0 then r else phase r n) - 1"
    "(if phase r n = 0 then r else phase r n) = 1 \<longleftrightarrow> r dvd Suc n"
    unfolding e using m by (auto simp: phase_def)
qed

lemma pit_cycles_phase:
  assumes "periodic_at p r r" and "r \<noteq> 0"
  shows "periodic_at (pit_cycles n p) r (of_nat (phase (unat r) n))"
proof (induction n)
  case 0
  then show ?case using assms by (simp add: pit_cycles_def phase_def)
next
  case (Suc n)
  let ?c = "of_nat (phase (unat r) n) :: u32"
  have r: "0 < unat r" using assms(2) by (simp add: unat_gt_0)
  have bound: "phase (unat r) n \<le> unat r" by (simp add: phase_def)
  have u: "unat ?c = phase (unat r) n" using bound unat_bounds(3) [of r] by (intro unat_of_nat_u32) simp
  have c0: "?c = 0 \<longleftrightarrow> phase (unat r) n = 0" by (simp add: word_unat_eq_iff u)
  have "(if ?c = 0 then r else ?c) - 1 = of_nat (phase (unat r) (Suc n))"
    using phase_Suc(1) [OF r, of n] r c0 by (auto simp: of_nat_diff)
  moreover have "pit_cycles (Suc n) p = snd (pit_cycle (pit_cycles n p))" by (simp add: pit_cycles_def)
  ultimately show ?case using pit_cycle_periodic(2) [OF Suc] by simp
qed

lemma pit_cycle_edge:
  assumes "periodic_at p r r" and "r \<noteq> 0"
  shows "fst (pit_cycle (pit_cycles n p)) \<longleftrightarrow> unat r dvd Suc n"
proof -
  have r: "0 < unat r" using assms(2) by (simp add: unat_gt_0)
  let ?c = "of_nat (phase (unat r) n) :: u32"
  have "phase (unat r) n \<le> unat r" by (simp add: phase_def)
  then have u: "unat ?c = phase (unat r) n" using unat_bounds(3) [of r] by (intro unat_of_nat_u32) simp
  have "(if ?c = 0 then r else ?c) = 1 \<longleftrightarrow> (if phase (unat r) n = 0 then unat r else phase (unat r) n) = 1"
    by (simp add: word_unat_eq_iff u)
  also have "\<dots> \<longleftrightarrow> unat r dvd Suc n" by (rule phase_Suc(2) [OF r])
  finally show ?thesis
    using pit_cycle_periodic(1) [OF pit_cycles_phase [OF assms, of n]] by simp
qed

text \<open>
  The IRQ rate.  A guest that writes a channel-0 control word (access LSB/MSB, any mode but
  0) and then the two bytes of a reload value gets an edge on exactly every \<open>r\<close>-th tick, where
  \<open>r\<close> is the reload value with 0 standing for 65536: the \<open>(n+1)\<close>-th tick raises an edge iff
  \<open>r\<close> divides \<open>n + 1\<close>.
\<close>

theorem pit_periodic_rate:
  fixes p :: pit and cw lsb msb :: u8
  assumes "drop_bit 6 cw = 0" and "drop_bit 4 cw AND 3 = 3" and "drop_bit 1 cw AND 7 \<noteq> 0"
  defines "q \<equiv> snd (run_accesses pit_read pit_write p
      [Out (pit_base_port p + 3) cw, Out (pit_base_port p) lsb, Out (pit_base_port p) msb])"
  shows "fst (pit_cycle (pit_cycles n q)) = (unat (reload_value (of_le16 lsb msb)) dvd Suc n)"
proof -
  let ?r = "reload_value (of_le16 lsb msb)"
  have q: "periodic_at q ?r ?r"
    using assms(1-3)
    by (simp add: q_def pit_write_def pit_write_control_def periodic_at_def reload_value_def of_le16_def Let_def)
  show ?thesis by (rule pit_cycle_edge [OF q reload_value_nonzero])
qed

theorem pit_periodic_rate_witness:
  "fst (pit_cycle (pit_cycles 5 (snd (run_accesses pit_read pit_write pit_standard
     [Out 0x43 0x34, Out 0x40 3, Out 0x40 0])))) \<and>
   \<not> fst (pit_cycle (pit_cycles 6 (snd (run_accesses pit_read pit_write pit_standard
     [Out 0x43 0x34, Out 0x40 3, Out 0x40 0]))))"
proof -
  have h: "drop_bit 6 (0x34 :: u8) = 0" "drop_bit 4 (0x34 :: u8) AND 3 = 3" "drop_bit 1 (0x34 :: u8) AND 7 \<noteq> 0"
    by simp_all
  have b: "pit_base_port pit_standard = 0x40" by (simp add: pit_standard_def pit_new_def PIT_BASE_def)
  have r: "unat (reload_value (of_le16 3 0)) = 3" by (simp add: reload_value_def of_le16_def)
  show ?thesis
    using pit_periodic_rate [OF h, where p = pit_standard and lsb = 3 and msb = 0 and n = 5]
      pit_periodic_rate [OF h, where p = pit_standard and lsb = 3 and msb = 0 and n = 6]
    by (simp add: b r)
qed

text \<open>Ticks leave the latch and the read phase alone.\<close>

lemma pit_tick_frame:
  "ch0_latch (pit_tick p n) = ch0_latch p" "read_state (pit_tick p n) = read_state p"
  "pit_base_port (pit_tick p n) = pit_base_port p"
proof -
  have a: "ch0_latch (ch0_after p k) = ch0_latch p" "read_state (ch0_after p k) = read_state p"
    "pit_base_port (ch0_after p k) = pit_base_port p" for k
    unfolding ch0_after_def by (simp_all split: prod.split)
  have b: "ch0_latch (ch2_after q n) = ch0_latch q" "read_state (ch2_after q n) = read_state q"
    "pit_base_port (ch2_after q n) = pit_base_port q" for q
    by (simp_all add: ch2_after_def)
  show "ch0_latch (pit_tick p n) = ch0_latch p" "read_state (pit_tick p n) = read_state p"
    "pit_base_port (pit_tick p n) = pit_base_port p"
    by (simp_all add: pit_tick_eq a b)
qed

lemma ucast_low_byte: "(ucast (x AND 0xFF) :: u8) = ucast x" for x :: u16
proof (rule bit_word_eqI)
  fix n assume "n < LENGTH(8)"
  then have "bit (0xFF :: u16) n" by (simp add: bit_numeral_rec less_Suc_eq_0_disj eval_nat_numeral) auto
  then show "bit (ucast (x AND 0xFF) :: u8) n = bit (ucast x :: u8) n" by (auto simp: bit_simps)
qed

text \<open>
  The counter latch freezes the count: after a Counter Latch Command with no latch pending,
  two reads of the data port return the low and then the high byte of the count at the
  moment of the command, however many ticks pass before the command's first read and between
  the two reads, and the latch is then free again.
\<close>

theorem pit_latch_reads:
  fixes p :: pit and cw :: u8 and i j :: u32
  assumes "ch0_latch p = None" and "drop_bit 6 cw = 0" and "drop_bit 4 cw AND 3 = 0"
  defines "p1 \<equiv> pit_tick (pit_write p (pit_base_port p + 3) cw) i"
  defines "r1 \<equiv> pit_read p1 (pit_base_port p)"
  defines "p2 \<equiv> pit_tick (snd r1) j"
  defines "r2 \<equiv> pit_read p2 (pit_base_port p)"
  shows "of_le16 (fst r1) (fst r2) = ucast (ch0_counter p) \<and> ch0_latch (snd r2) = None \<and> read_state (snd r2) = 0"
proof -
  let ?w = "ucast (ch0_counter p) :: u16"
  have w: "pit_write p (pit_base_port p + 3) cw = p\<lparr>ch0_latch := Some ?w, read_state := 0\<rparr>"
    using assms(1-3) by (simp add: pit_write_def pit_write_control_def)
  have p1: "ch0_latch p1 = Some ?w" "read_state p1 = 0" "pit_base_port p1 = pit_base_port p"
    by (simp_all add: p1_def pit_tick_frame w)
  have r1: "r1 = (ucast ?w, p1\<lparr>read_state := 1\<rparr>)"
    by (simp add: r1_def pit_read_def p1 ucast_low_byte)
  have p2: "ch0_latch p2 = Some ?w" "read_state p2 = 1" "pit_base_port p2 = pit_base_port p"
    by (simp_all add: p2_def pit_tick_frame r1 p1)
  have r2: "r2 = (ucast (drop_bit 8 ?w), p2\<lparr>ch0_latch := None, read_state := 0\<rparr>)"
    by (simp add: r2_def pit_read_def p2)
  show ?thesis by (simp add: r1 r2)
qed

definition pit_demo :: pit where
  "pit_demo = pit_standard\<lparr>ch0_counter := 0x1234, ch0_reload := 0x1234, ch0_running := True, ch0_mode := 2\<rparr>"

theorem pit_latch_reads_witness:
  "of_le16 (fst (pit_read (pit_tick (pit_write pit_demo 0x43 0) 7) 0x40))
     (fst (pit_read (pit_tick (snd (pit_read (pit_tick (pit_write pit_demo 0x43 0) 7) 0x40)) 9) 0x40)) = 0x1234"
proof -
  have "ch0_latch pit_demo = None" "drop_bit 6 (0 :: u8) = 0" "drop_bit 4 (0 :: u8) AND 3 = 0"
    by (simp_all add: pit_demo_def pit_standard_def pit_new_def)
  from pit_latch_reads [OF this, where i = 7 and j = 9] show ?thesis
    by (simp add: pit_demo_def pit_standard_def pit_new_def PIT_BASE_def)
qed

end
