(* ===== verification/Keyboard.thy ===== *)
theory Keyboard
  imports IoDevice
begin

text \<open>
  The 8042 PS/2 controller with keyboard and mouse (\<^verbatim>\<open>crates/devices/src/keyboard.rs\<close>).  The
  output buffer holds bytes tagged with their source (\<open>True\<close>: mouse); an \<^verbatim>\<open>i16\<close> is a 16-bit word
  read through \<open>sint\<close>.
\<close>

datatype ctrl_pending = PendNone | WriteCcb | WriteAux | WriteKbdOut | WriteAuxOut

record keyboard =
  kbd_data_port :: u16
  kbd_status_port :: u16
  kbd_queue :: bytes
  kbd_out :: "(u8 \<times> bool) list"
  ccb :: u8
  kbd_enabled :: bool
  aux_enabled :: bool
  ctrl_pend :: ctrl_pending
  kbd_arg :: "u8 option"
  mouse_arg :: "u8 option"
  mouse_reporting :: bool

definition CCB_KBD_INT :: u8 where "CCB_KBD_INT = push_bit 0 1"
definition CCB_AUX_INT :: u8 where "CCB_AUX_INT = push_bit 1 1"
definition CCB_SYS_FLAG :: u8 where "CCB_SYS_FLAG = push_bit 2 1"
definition CCB_KBD_CLK_DIS :: u8 where "CCB_KBD_CLK_DIS = push_bit 4 1"
definition CCB_AUX_CLK_DIS :: u8 where "CCB_AUX_CLK_DIS = push_bit 5 1"
definition CCB_TRANSLATE :: u8 where "CCB_TRANSLATE = push_bit 6 1"
definition KBD_ACK :: u8 where "KBD_ACK = 0xFA"

lemmas ccb_bits = CCB_KBD_INT_def CCB_AUX_INT_def CCB_SYS_FLAG_def CCB_KBD_CLK_DIS_def CCB_AUX_CLK_DIS_def
  CCB_TRANSLATE_def

definition kbd_new :: keyboard where
  "kbd_new =
     \<lparr>kbd_data_port = 0x60, kbd_status_port = 0x64, kbd_queue = [], kbd_out = [],
      ccb = CCB_KBD_INT OR CCB_SYS_FLAG OR CCB_AUX_CLK_DIS OR CCB_TRANSLATE, kbd_enabled = True,
      aux_enabled = False, ctrl_pend = PendNone, kbd_arg = None, mouse_arg = None, mouse_reporting = False\<rparr>"

definition push_scancode :: "keyboard \<Rightarrow> u8 \<Rightarrow> keyboard" where
  "push_scancode k code = k\<lparr>kbd_queue := kbd_queue k @ [code]\<rparr>"

definition clamp_i16 :: "u16 \<Rightarrow> int \<Rightarrow> int \<Rightarrow> u16" where
  "clamp_i16 x lo hi = (if sint x < lo then of_int lo else if hi < sint x then of_int hi else x)"

definition push_mouse_packet :: "keyboard \<Rightarrow> u16 \<Rightarrow> u16 \<Rightarrow> bool \<Rightarrow> bool \<Rightarrow> bool \<Rightarrow> keyboard" where
  "push_mouse_packet k dx dy left right middle =
     (if \<not> mouse_reporting k then k
      else
        let cx = clamp_i16 dx (-256) 255; cy = clamp_i16 dy (-256) 255;
            b0 = 0x08 OR (if left then 0x01 else 0) OR (if right then 0x02 else 0)
                 OR (if middle then 0x04 else 0) OR (if sint cx < 0 then 0x10 else 0)
                 OR (if sint cy < 0 then 0x20 else 0) :: u8
        in k\<lparr>kbd_out := kbd_out k @ [(b0, True), (ucast (cx AND 0xFF), True), (ucast (cy AND 0xFF), True)]\<rparr>)"

definition pop_scancode :: "keyboard \<Rightarrow> u8 option \<times> keyboard" where
  "pop_scancode k = (case kbd_queue k of [] \<Rightarrow> (None, k) | b # bs \<Rightarrow> (Some b, k\<lparr>kbd_queue := bs\<rparr>))"

definition peek_scancode :: "keyboard \<Rightarrow> u8 option" where
  "peek_scancode k = (case kbd_queue k of [] \<Rightarrow> None | b # _ \<Rightarrow> Some b)"

definition kbd_rx_pending :: "keyboard \<Rightarrow> nat" where
  "kbd_rx_pending k = length (kbd_queue k)"

definition head_is_kbd :: "keyboard \<Rightarrow> bool" where
  "head_is_kbd k = (case kbd_out k of (_, is_aux) # _ \<Rightarrow> \<not> is_aux | [] \<Rightarrow> kbd_queue k \<noteq> [])"

definition head_is_aux :: "keyboard \<Rightarrow> bool" where
  "head_is_aux k = (case kbd_out k of (_, True) # _ \<Rightarrow> True | _ \<Rightarrow> False)"

definition kbd_irq_pending :: "keyboard \<Rightarrow> bool" where
  "kbd_irq_pending k \<longleftrightarrow> head_is_kbd k \<and> kbd_enabled k \<and> ccb k AND CCB_KBD_INT \<noteq> 0"

definition aux_irq_pending :: "keyboard \<Rightarrow> bool" where
  "aux_irq_pending k \<longleftrightarrow> head_is_aux k \<and> aux_enabled k \<and> ccb k AND CCB_AUX_INT \<noteq> 0"

definition kbd_snapshot :: "keyboard \<Rightarrow> bytes" where
  "kbd_snapshot k = le32 (of_nat (length (kbd_queue k))) @ kbd_queue k"

definition kbd_restore :: "keyboard \<Rightarrow> bytes \<Rightarrow> keyboard \<times> nat result" where
  "kbd_restore k bs =
     (if length bs < 4 then (k, Inl ''kbd: truncated'')
      else
        let n = unat (get32 bs 0)
        in if length bs < 4 + n then (k, Inl ''kbd: truncated queue'')
           else (k\<lparr>kbd_queue := take n (drop 4 bs)\<rparr>, Inr (4 + n)))"

definition reply_kbd :: "keyboard \<Rightarrow> u8 \<Rightarrow> keyboard" where
  "reply_kbd k b = k\<lparr>kbd_out := kbd_out k @ [(b, False)]\<rparr>"

definition reply_aux :: "keyboard \<Rightarrow> u8 \<Rightarrow> keyboard" where
  "reply_aux k b = k\<lparr>kbd_out := kbd_out k @ [(b, True)]\<rparr>"

definition controller_command :: "keyboard \<Rightarrow> u8 \<Rightarrow> keyboard" where
  "controller_command k cmd =
     (if cmd = 0x20 then reply_kbd k (ccb k)
      else if cmd = 0x60 then k\<lparr>ctrl_pend := WriteCcb\<rparr>
      else if cmd = 0xAA then reply_kbd k 0x55
      else if cmd = 0xAB then reply_kbd k 0x00
      else if cmd = 0xA9 then reply_kbd k 0x00
      else if cmd = 0xA8 then k\<lparr>aux_enabled := True, ccb := ccb k AND NOT CCB_AUX_CLK_DIS\<rparr>
      else if cmd = 0xA7 then k\<lparr>aux_enabled := False, ccb := ccb k OR CCB_AUX_CLK_DIS\<rparr>
      else if cmd = 0xAE then k\<lparr>kbd_enabled := True, ccb := ccb k AND NOT CCB_KBD_CLK_DIS\<rparr>
      else if cmd = 0xAD then k\<lparr>kbd_enabled := False, ccb := ccb k OR CCB_KBD_CLK_DIS\<rparr>
      else if cmd = 0xD4 then k\<lparr>ctrl_pend := WriteAux\<rparr>
      else if cmd = 0xD2 then k\<lparr>ctrl_pend := WriteKbdOut\<rparr>
      else if cmd = 0xD3 then k\<lparr>ctrl_pend := WriteAuxOut\<rparr>
      else if cmd = 0xC0 then reply_kbd k 0x80
      else if cmd = 0xD0 then reply_kbd k 0x01
      else k)"

definition keyboard_command :: "keyboard \<Rightarrow> u8 \<Rightarrow> keyboard" where
  "keyboard_command k cmd =
     (case kbd_arg k of
        Some prev \<Rightarrow>
          let k1 = reply_kbd (k\<lparr>kbd_arg := None\<rparr>) KBD_ACK
          in if prev = 0xF0 \<and> cmd = 0x00 then reply_kbd k1 0x02 else k1
      | None \<Rightarrow>
          if cmd = 0xFF then reply_kbd (reply_kbd k KBD_ACK) 0xAA
          else if cmd = 0xF2 then reply_kbd (reply_kbd (reply_kbd k KBD_ACK) 0xAB) 0x83
          else if cmd = 0xED \<or> cmd = 0xF3 \<or> cmd = 0xF0 then reply_kbd (k\<lparr>kbd_arg := Some cmd\<rparr>) KBD_ACK
          else if cmd = 0xEE then reply_kbd k 0xEE
          else reply_kbd k KBD_ACK)"

definition mouse_command :: "keyboard \<Rightarrow> u8 \<Rightarrow> keyboard" where
  "mouse_command k cmd =
     (case mouse_arg k of
        Some _ \<Rightarrow> reply_aux (k\<lparr>mouse_arg := None\<rparr>) KBD_ACK
      | None \<Rightarrow>
          if cmd = 0xFF then
            reply_aux (reply_aux (reply_aux (k\<lparr>mouse_reporting := False\<rparr>) KBD_ACK) 0xAA) 0x00
          else if cmd = 0xF2 then reply_aux (reply_aux k KBD_ACK) 0x00
          else if cmd = 0xF3 \<or> cmd = 0xE8 then reply_aux (k\<lparr>mouse_arg := Some cmd\<rparr>) KBD_ACK
          else if cmd = 0xE9 then
            reply_aux (reply_aux (reply_aux (reply_aux k KBD_ACK) 0x00) 0x02) 0x64
          else if cmd = 0xEB then
            reply_aux (reply_aux (reply_aux (reply_aux k KBD_ACK) 0x08) 0x00) 0x00
          else if cmd = 0xF4 then reply_aux (k\<lparr>mouse_reporting := True\<rparr>) KBD_ACK
          else if cmd = 0xF5 then reply_aux (k\<lparr>mouse_reporting := False\<rparr>) KBD_ACK
          else reply_aux k KBD_ACK)"

definition kbd_port_range :: "keyboard \<Rightarrow> u16 \<times> u16" where
  "kbd_port_range k = (kbd_data_port k, kbd_status_port k)"

definition kbd_status :: "keyboard \<Rightarrow> u8" where
  "kbd_status k = (if kbd_out k \<noteq> [] \<or> kbd_queue k \<noteq> [] then 0x01 else 0)
     OR (if ccb k AND CCB_SYS_FLAG \<noteq> 0 then 0x04 else 0) OR (if head_is_aux k then 0x20 else 0)"

definition kbd_read :: "keyboard \<Rightarrow> u16 \<Rightarrow> u8 \<times> keyboard" where
  "kbd_read k port =
     (if port = kbd_data_port k then
        (case kbd_out k of
           (b, _) # rest \<Rightarrow> (b, k\<lparr>kbd_out := rest\<rparr>)
         | [] \<Rightarrow> (case kbd_queue k of [] \<Rightarrow> (0, k) | b # bs \<Rightarrow> (b, k\<lparr>kbd_queue := bs\<rparr>)))
      else if port = kbd_status_port k then (kbd_status k, k)
      else (0, k))"

definition kbd_write :: "keyboard \<Rightarrow> u16 \<Rightarrow> u8 \<Rightarrow> keyboard" where
  "kbd_write k port value =
     (if port = kbd_status_port k then controller_command k value
      else if port = kbd_data_port k then
        (case ctrl_pend k of
           WriteCcb \<Rightarrow> k\<lparr>ccb := value, kbd_enabled := (value AND CCB_KBD_CLK_DIS = 0),
                         aux_enabled := (value AND CCB_AUX_CLK_DIS = 0), ctrl_pend := PendNone\<rparr>
         | WriteAux \<Rightarrow> mouse_command (k\<lparr>ctrl_pend := PendNone\<rparr>) value
         | WriteKbdOut \<Rightarrow> reply_kbd (k\<lparr>ctrl_pend := PendNone\<rparr>) value
         | WriteAuxOut \<Rightarrow> reply_aux (k\<lparr>ctrl_pend := PendNone\<rparr>) value
         | PendNone \<Rightarrow> keyboard_command k value)
      else k)"

section \<open>Contracts\<close>

text \<open>
  The port-enabled flags always mirror the clock-disable bits of the configuration byte, and the
  two ports differ.
\<close>

definition kbd_wf :: "keyboard \<Rightarrow> bool" where
  "kbd_wf k \<longleftrightarrow> kbd_enabled k = (\<not> bit (ccb k) 4) \<and> aux_enabled k = (\<not> bit (ccb k) 5) \<and>
     kbd_data_port k \<noteq> kbd_status_port k"

lemma and_ccb:
  "(v AND CCB_KBD_INT = 0) = (\<not> bit v 0)" "(v AND CCB_AUX_INT = 0) = (\<not> bit v 1)"
  "(v AND CCB_SYS_FLAG = 0) = (\<not> bit v 2)" "(v AND CCB_KBD_CLK_DIS = 0) = (\<not> bit v 4)"
  "(v AND CCB_AUX_CLK_DIS = 0) = (\<not> bit v 5)"
  unfolding ccb_bits using and_mask_bit [of v 0] and_mask_bit [of v 1] and_mask_bit [of v 2]
    and_mask_bit [of v 4] and_mask_bit [of v 5] by blast+

lemma kbd_new_wf: "kbd_wf kbd_new"
  by (simp add: kbd_wf_def kbd_new_def ccb_bits bit_simps)

lemma reply_simps [simp]:
  "kbd_wf (reply_kbd k b) = kbd_wf k" "kbd_wf (reply_aux k b) = kbd_wf k"
  "kbd_data_port (reply_kbd k b) = kbd_data_port k" "kbd_data_port (reply_aux k b) = kbd_data_port k"
  "kbd_status_port (reply_kbd k b) = kbd_status_port k" "kbd_status_port (reply_aux k b) = kbd_status_port k"
  by (simp_all add: kbd_wf_def reply_kbd_def reply_aux_def)

lemma kbd_wf_fields [simp]:
  "kbd_wf (k\<lparr>ctrl_pend := p\<rparr>) = kbd_wf k" "kbd_wf (k\<lparr>kbd_arg := a\<rparr>) = kbd_wf k"
  "kbd_wf (k\<lparr>mouse_arg := a\<rparr>) = kbd_wf k" "kbd_wf (k\<lparr>mouse_reporting := r\<rparr>) = kbd_wf k"
  "kbd_wf (k\<lparr>kbd_out := os\<rparr>) = kbd_wf k" "kbd_wf (k\<lparr>kbd_queue := bs\<rparr>) = kbd_wf k"
  by (simp_all add: kbd_wf_def)

lemma kbd_wf_switch:
  assumes "kbd_wf k"
  shows "kbd_wf (k\<lparr>aux_enabled := True, ccb := ccb k AND NOT CCB_AUX_CLK_DIS\<rparr>)"
    "kbd_wf (k\<lparr>aux_enabled := False, ccb := ccb k OR CCB_AUX_CLK_DIS\<rparr>)"
    "kbd_wf (k\<lparr>kbd_enabled := True, ccb := ccb k AND NOT CCB_KBD_CLK_DIS\<rparr>)"
    "kbd_wf (k\<lparr>kbd_enabled := False, ccb := ccb k OR CCB_KBD_CLK_DIS\<rparr>)"
  using assms by (simp_all add: kbd_wf_def ccb_bits bit_simps)

lemma controller_command_wf: "kbd_wf k \<Longrightarrow> kbd_wf (controller_command k cmd)"
  unfolding controller_command_def by (simp add: kbd_wf_switch)

lemma keyboard_command_wf: "kbd_wf k \<Longrightarrow> kbd_wf (keyboard_command k cmd)"
  by (simp add: keyboard_command_def Let_def split: option.split)

lemma mouse_command_wf: "kbd_wf k \<Longrightarrow> kbd_wf (mouse_command k cmd)"
  by (simp add: mouse_command_def split: option.split)

lemma command_ports [simp]:
  "kbd_port_range (controller_command k cmd) = kbd_port_range k"
  "kbd_port_range (keyboard_command k cmd) = kbd_port_range k"
  "kbd_port_range (mouse_command k cmd) = kbd_port_range k"
  by (simp_all add: kbd_port_range_def controller_command_def keyboard_command_def mouse_command_def Let_def
      split: option.split)

interpretation kbd_dev: io_device kbd_port_range kbd_read kbd_write kbd_wf
proof
  fix k p v
  show "kbd_port_range (snd (kbd_read k p)) = kbd_port_range k"
    by (simp add: kbd_port_range_def kbd_read_def split: list.split prod.split)
  show "kbd_port_range (kbd_write k p v) = kbd_port_range k"
    unfolding kbd_write_def by (simp split: ctrl_pending.split) (simp add: kbd_port_range_def)
  assume wf: "kbd_wf k"
  then show "kbd_wf (snd (kbd_read k p))"
    by (simp add: kbd_read_def split: list.split prod.split)
  show "kbd_wf (kbd_write k p v)"
    using wf unfolding kbd_write_def
    by (simp add: controller_command_wf keyboard_command_wf mouse_command_wf split: ctrl_pending.split)
       (simp add: kbd_wf_def and_ccb)
qed

definition kbd_small :: "keyboard \<Rightarrow> bool" where
  "kbd_small k \<longleftrightarrow> length (kbd_queue k) < 2 ^ 32"

definition kbd_keep :: "keyboard \<Rightarrow> keyboard \<Rightarrow> keyboard" where
  "kbd_keep k0 k = k0\<lparr>kbd_queue := kbd_queue k\<rparr>"

interpretation kbd_snap: snapshot_device kbd_snapshot kbd_restore kbd_keep kbd_small "\<lambda>_. True"
proof
  fix k k0 rest
  assume "kbd_small k"
  moreover have "get32 (kbd_snapshot k @ rest) 0 = of_nat (length (kbd_queue k))"
    using get32_at [of "[]" 0] by (simp add: kbd_snapshot_def)
  ultimately show "kbd_restore k0 (kbd_snapshot k @ rest) = (kbd_keep k0 k, Inr (length (kbd_snapshot k)))"
    by (simp add: kbd_restore_def kbd_small_def unat_of_nat_u32 Let_def) (simp add: kbd_snapshot_def kbd_keep_def)
qed

section \<open>Delivery\<close>

text \<open>The bytes waiting at port 0x60, each with its source, in delivery order.\<close>

definition kbd_waiting :: "keyboard \<Rightarrow> (u8 \<times> bool) list" where
  "kbd_waiting k = kbd_out k @ map (\<lambda>b. (b, False)) (kbd_queue k)"

lemma head_waiting:
  "head_is_aux k \<longleftrightarrow> (\<exists>b w. kbd_waiting k = (b, True) # w)"
  "head_is_kbd k \<longleftrightarrow> (\<exists>b w. kbd_waiting k = (b, False) # w)"
  by (auto simp: head_is_aux_def head_is_kbd_def kbd_waiting_def neq_Nil_conv split: list.splits prod.splits bool.splits)

lemma kbd_status_waiting:
  "bit (kbd_status k) 0 = (kbd_waiting k \<noteq> [])" "bit (kbd_status k) 5 = head_is_aux k"
  by (auto simp: kbd_status_def kbd_waiting_def bit_simps)

text \<open>
  The driver's poll loop, with at most \<open>n\<close> rounds: while the status shows a byte, read it, taking
  its source from the AUX bit of the status.
\<close>

fun kbd_poll :: "nat \<Rightarrow> keyboard \<Rightarrow> (u8 \<times> bool) list \<times> keyboard" where
  "kbd_poll 0 k = ([], k)"
| "kbd_poll (Suc n) k =
     (let st = fst (kbd_read k (kbd_status_port k)) in
      if \<not> bit st 0 then ([], k)
      else let (b, k1) = kbd_read k (kbd_data_port k); (rest, k2) = kbd_poll n k1 in ((b, bit st 5) # rest, k2))"

lemma kbd_read_status: "kbd_wf k \<Longrightarrow> kbd_read k (kbd_status_port k) = (kbd_status k, k)"
  by (auto simp: kbd_read_def kbd_wf_def)

lemma kbd_read_data:
  assumes "kbd_waiting k = (b, aux) # w"
  shows "\<exists>k1. kbd_read k (kbd_data_port k) = (b, k1) \<and> kbd_waiting k1 = w \<and> (kbd_wf k \<longrightarrow> kbd_wf k1) \<and>
    k1\<lparr>kbd_out := [], kbd_queue := []\<rparr> = k\<lparr>kbd_out := [], kbd_queue := []\<rparr>"
  using assms by (cases "kbd_out k"; cases "kbd_queue k") (auto simp: kbd_read_def kbd_waiting_def)

text \<open>
  The poll loop drains the controller completely, in order and with the right source.  Given
  enough rounds, polling the status and data ports delivers every waiting byte: the controller's
  replies and mouse packets first, then the queued scan codes, each tagged as mouse data exactly
  when it is; afterwards both buffers are empty, OBF is clear and nothing else has changed.
\<close>

theorem kbd_poll_drains:
  assumes "kbd_wf k" "length (kbd_out k) + length (kbd_queue k) \<le> n"
  shows "kbd_poll n k = (kbd_out k @ map (\<lambda>b. (b, False)) (kbd_queue k), k\<lparr>kbd_out := [], kbd_queue := []\<rparr>)"
proof -
  have "kbd_poll n k = (kbd_waiting k, k\<lparr>kbd_out := [], kbd_queue := []\<rparr>)"
    if "kbd_wf k" "length (kbd_waiting k) \<le> n" for n k
    using that
  proof (induction n arbitrary: k)
    case 0
    then have "kbd_out k = []" "kbd_queue k = []" by (simp_all add: kbd_waiting_def)
    then show ?case by (simp add: kbd_waiting_def)
  next
    case (Suc n)
    show ?case
    proof (cases "kbd_waiting k")
      case Nil
      then show ?thesis
        using Suc.prems(1) by (simp add: kbd_read_status kbd_status_waiting del: bit_0) (simp add: kbd_waiting_def)
    next
      case (Cons x w)
      obtain b aux where x: "x = (b, aux)" by (cases x)
      obtain k1 where k1: "kbd_read k (kbd_data_port k) = (b, k1)" "kbd_waiting k1 = w" "kbd_wf k1"
        "k1\<lparr>kbd_out := [], kbd_queue := []\<rparr> = k\<lparr>kbd_out := [], kbd_queue := []\<rparr>"
        using kbd_read_data [of k b aux w] Cons x Suc.prems(1) by auto
      have "kbd_poll n k1 = (w, k\<lparr>kbd_out := [], kbd_queue := []\<rparr>)"
        using Suc.IH [OF k1(3)] k1 Suc.prems(2) Cons by simp
      moreover have "bit (kbd_status k) 5 = aux" using Cons x by (simp add: kbd_status_waiting head_waiting)
      ultimately show ?thesis
        using Cons x Suc.prems(1) k1(1) by (simp add: kbd_read_status kbd_status_waiting(1) del: bit_0)
    qed
  qed
  from this [OF assms(1), of n] assms(2) show ?thesis by (simp add: kbd_waiting_def)
qed

theorem kbd_poll_drains_witness:
  "kbd_wf (push_scancode (reply_aux kbd_new 0xFA) 0x1E) \<and>
   fst (kbd_poll 2 (push_scancode (reply_aux kbd_new 0xFA) 0x1E)) = [(0xFA, True), (0x1E, False)]"
proof -
  have wf: "kbd_wf (push_scancode (reply_aux kbd_new 0xFA) 0x1E)"
    using kbd_new_wf by (simp add: push_scancode_def)
  show ?thesis
    using kbd_poll_drains [OF wf, of 2] wf by (simp add: push_scancode_def reply_aux_def kbd_new_def)
qed

section \<open>Interrupt lines and the configuration byte\<close>

text \<open>The states the controller can reach from power-on, by host and guest actions.\<close>

inductive kbd_reachable :: "keyboard \<Rightarrow> bool" where
  kr_init: "kbd_reachable kbd_new"
| kr_push: "kbd_reachable k \<Longrightarrow> kbd_reachable (push_scancode k code)"
| kr_mouse: "kbd_reachable k \<Longrightarrow> kbd_reachable (push_mouse_packet k dx dy l r m)"
| kr_pop: "kbd_reachable k \<Longrightarrow> kbd_reachable (snd (pop_scancode k))"
| kr_in: "kbd_reachable k \<Longrightarrow> kbd_reachable (snd (kbd_read k p))"
| kr_out: "kbd_reachable k \<Longrightarrow> kbd_reachable (kbd_write k p v)"
| kr_restore: "kbd_reachable k \<Longrightarrow> kbd_reachable (fst (kbd_restore k bs))"

lemma kbd_reachable_wf: "kbd_reachable k \<Longrightarrow> kbd_wf k"
proof (induction rule: kbd_reachable.induct)
  case (kr_pop k)
  then show ?case by (simp add: pop_scancode_def split: list.split)
qed (simp_all add: kbd_new_wf push_scancode_def push_mouse_packet_def Let_def kbd_restore_def
    kbd_dev.invar_rd kbd_dev.invar_wr)

text \<open>
  The interrupt lines follow the configuration byte.  In every reachable state IRQ 1 is asserted
  exactly when the next byte to deliver comes from the keyboard side, the keyboard interrupt bit
  is set and the keyboard clock-disable bit is clear, IRQ 12 exactly when the next byte is mouse
  data, the aux interrupt bit is set and the aux clock-disable bit is clear; and never both.
\<close>

theorem kbd_irq_lines:
  assumes "kbd_reachable k"
  shows "(kbd_irq_pending k \<longleftrightarrow>
      (\<exists>b w. kbd_out k @ map (\<lambda>b. (b, False)) (kbd_queue k) = (b, False) # w) \<and> bit (ccb k) 0 \<and> \<not> bit (ccb k) 4) \<and>
    (aux_irq_pending k \<longleftrightarrow>
      (\<exists>b w. kbd_out k @ map (\<lambda>b. (b, False)) (kbd_queue k) = (b, True) # w) \<and> bit (ccb k) 1 \<and> \<not> bit (ccb k) 5) \<and>
    \<not> (kbd_irq_pending k \<and> aux_irq_pending k)"
proof -
  have wf: "kbd_wf k" using assms by (rule kbd_reachable_wf)
  have en: "kbd_enabled k = (\<not> bit (ccb k) 4)" "aux_enabled k = (\<not> bit (ccb k) 5)" using wf by (simp_all add: kbd_wf_def)
  show ?thesis
    unfolding kbd_irq_pending_def aux_irq_pending_def head_waiting and_ccb en kbd_waiting_def
    by (auto simp del: bit_0)
qed

theorem kbd_irq_lines_witness:
  "kbd_reachable (push_scancode kbd_new 0x1E) \<and> kbd_irq_pending (push_scancode kbd_new 0x1E) \<and>
   \<not> aux_irq_pending (push_scancode kbd_new 0x1E)"
proof -
  have r: "kbd_reachable (push_scancode kbd_new 0x1E)" by (intro kbd_reachable.intros)
  show ?thesis
    using kbd_irq_lines [OF r] r by (simp add: push_scancode_def kbd_new_def ccb_bits bit_simps del: bit_0)
qed

text \<open>
  The configuration byte is stored, acted on and read back.  From any well-formed controller,
  the port sequence for command 0x60 with parameter \<open>v\<close> followed by command 0x20 installs \<open>v\<close>,
  enables each port exactly when its clock-disable bit in \<open>v\<close> is clear, leaves no command pending,
  queues \<open>v\<close> as the reply behind whatever was already waiting and touches nothing else.
\<close>

theorem kbd_config_byte:
  assumes "kbd_wf k"
  defines "d \<equiv> kbd_data_port k" and "s \<equiv> kbd_status_port k"
  shows "snd (run_accesses kbd_read kbd_write k [Out s 0x60, Out d v, Out s 0x20]) =
    k\<lparr>ccb := v, kbd_enabled := (\<not> bit v 4), aux_enabled := (\<not> bit v 5), ctrl_pend := PendNone,
      kbd_out := kbd_out k @ [(v, False)]\<rparr>"
  using assms(1)
  by (simp add: d_def s_def kbd_write_def controller_command_def kbd_wf_def reply_kbd_def and_ccb)

theorem kbd_config_byte_witness:
  "kbd_wf kbd_new \<and> ccb (snd (run_accesses kbd_read kbd_write kbd_new [Out 0x64 0x60, Out 0x60 0x47, Out 0x64 0x20])) = 0x47"
proof -
  have p: "kbd_data_port kbd_new = 0x60" "kbd_status_port kbd_new = 0x64" by (simp_all add: kbd_new_def)
  show ?thesis using kbd_config_byte [OF kbd_new_wf, of "0x47"] kbd_new_wf unfolding p by simp
qed

section \<open>Mouse packets\<close>

text \<open>The driver's reading of a 9-bit delta: sign from the header byte, low eight bits from the packet.\<close>

definition mouse_delta :: "bool \<Rightarrow> u8 \<Rightarrow> int" where
  "mouse_delta neg b = uint b - (if neg then 256 else 0)"

lemma sint_clamp: "sint (clamp_i16 x (-256) 255) = max (-256) (min 255 (sint x))"
  by (simp add: clamp_i16_def)

lemma mouse_delta_clamped:
  fixes c :: u16
  assumes "-256 \<le> sint c" "sint c \<le> 255"
  shows "mouse_delta (sint c < 0) (ucast (c AND 0xFF)) = sint c"
proof -
  have m: "(0xFF :: u16) = mask 8" by (simp add: mask_eq_exp_minus_1)
  have "(ucast (c AND 0xFF) :: u8) = ucast c" unfolding m by (intro bit_word_eqI) (simp add: bit_simps)
  then have "uint (ucast (c AND 0xFF) :: u8) = take_bit 8 (uint c)" by (simp add: unsigned_ucast_eq)
  also have "\<dots> = take_bit 8 (sint c)" by (simp add: sint_uint take_bit_signed_take_bit)
  finally have "uint (ucast (c AND 0xFF) :: u8) = sint c mod 256" by (simp add: take_bit_eq_mod)
  moreover have "sint c mod 256 = (if sint c < 0 then sint c + 256 else sint c)"
    using assms by (simp add: mod_pos_pos_trivial) (metis add.commute mod_add_self2 mod_pos_pos_trivial add_0 diff_ge_0_iff_ge diff_minus_eq_add add_less_same_cancel1)
  ultimately show ?thesis by (simp add: mouse_delta_def)
qed

text \<open>
  A motion injected by the host reaches the driver intact.  While reporting is enabled a packet
  of three mouse-tagged bytes is appended whose header has bit 3 set and the button states in
  bits 0 to 2, and whose deltas, decoded as the driver does from the sign bits 4 and 5, are the
  host's movements clamped to the 9-bit range; with reporting off nothing is queued.
\<close>

theorem mouse_packet_decodes:
  "if mouse_reporting k
   then \<exists>b0 b1 b2. push_mouse_packet k dx dy left right middle =
          k\<lparr>kbd_out := kbd_out k @ [(b0, True), (b1, True), (b2, True)]\<rparr> \<and> bit b0 3 \<and>
          bit b0 0 = left \<and> bit b0 1 = right \<and> bit b0 2 = middle \<and>
          mouse_delta (bit b0 4) b1 = max (-256) (min 255 (sint dx)) \<and>
          mouse_delta (bit b0 5) b2 = max (-256) (min 255 (sint dy))
   else push_mouse_packet k dx dy left right middle = k"
proof (cases "mouse_reporting k")
  case True
  define cx cy where "cx = clamp_i16 dx (-256) 255" and "cy = clamp_i16 dy (-256) 255"
  define b0 :: u8 where "b0 = 0x08 OR (if left then 0x01 else 0) OR (if right then 0x02 else 0)
      OR (if middle then 0x04 else 0) OR (if sint cx < 0 then 0x10 else 0) OR (if sint cy < 0 then 0x20 else 0)"
  have b0: "bit b0 3" "bit b0 0 = left" "bit b0 1 = right" "bit b0 2 = middle" "bit b0 4 = (sint cx < 0)"
    "bit b0 5 = (sint cy < 0)"
    by (auto simp: b0_def bit_simps)
  have d: "mouse_delta (sint cx < 0) (ucast (cx AND 0xFF)) = max (-256) (min 255 (sint dx))"
    "mouse_delta (sint cy < 0) (ucast (cy AND 0xFF)) = max (-256) (min 255 (sint dy))"
    using mouse_delta_clamped [of cx] mouse_delta_clamped [of cy] by (simp_all add: cx_def cy_def sint_clamp)
  have "push_mouse_packet k dx dy left right middle =
      k\<lparr>kbd_out := kbd_out k @ [(b0, True), (ucast (cx AND 0xFF), True), (ucast (cy AND 0xFF), True)]\<rparr>"
    using True by (simp add: push_mouse_packet_def Let_def cx_def cy_def b0_def)
  then show ?thesis using True b0 d by metis
qed (simp add: push_mouse_packet_def)

end
