(* ===== verification/Cmos.thy ===== *)
theory Cmos
  imports IoDevice
begin

text \<open>
  The CMOS / RTC (\<^verbatim>\<open>crates/devices/src/cmos.rs\<close>): 128 bytes behind an index port and a data
  port, with the date and time registers in BCD.
\<close>

definition bcd :: "u8 \<Rightarrow> u8" where
  "bcd v = push_bit 4 (v div 10) OR (v mod 10)"

record cmos =
  index_port :: u16
  data_port :: u16
  cmos_storage :: bytes
  cmos_index :: u8

definition SECONDS :: nat where "SECONDS = 0x00"
definition MINUTES :: nat where "MINUTES = 0x02"
definition HOURS :: nat where "HOURS = 0x04"
definition DAY_OF_WEEK :: nat where "DAY_OF_WEEK = 0x06"
definition DAY_OF_MONTH :: nat where "DAY_OF_MONTH = 0x07"
definition MONTH :: nat where "MONTH = 0x08"
definition YEAR :: nat where "YEAR = 0x09"
definition STATUS_A :: nat where "STATUS_A = 0x0A"
definition STATUS_B :: nat where "STATUS_B = 0x0B"
definition STATUS_C :: nat where "STATUS_C = 0x0C"
definition STATUS_D :: nat where "STATUS_D = 0x0D"

lemmas cmos_reg_defs = SECONDS_def MINUTES_def HOURS_def DAY_OF_WEEK_def DAY_OF_MONTH_def MONTH_def
  YEAR_def STATUS_A_def STATUS_B_def STATUS_C_def STATUS_D_def

definition cmos_new :: cmos where
  "cmos_new =
     \<lparr>index_port = 0x70, data_port = 0x71,
      cmos_storage = (replicate 128 0)[SECONDS := bcd 0, MINUTES := bcd 0, HOURS := bcd 0,
        DAY_OF_WEEK := bcd 5, DAY_OF_MONTH := bcd 1, MONTH := bcd 1, YEAR := bcd 26,
        STATUS_A := 0x26, STATUS_B := 0x02, STATUS_C := 0, STATUS_D := 0x80],
      cmos_index = 0\<rparr>"

definition cmos_set_time :: "cmos \<Rightarrow> u8 \<Rightarrow> u8 \<Rightarrow> u8 \<Rightarrow> u8 \<Rightarrow> u8 \<Rightarrow> u8 \<Rightarrow> cmos" where
  "cmos_set_time c year month day hour minute second =
     c\<lparr>cmos_storage := (cmos_storage c)[SECONDS := bcd second, MINUTES := bcd minute, HOURS := bcd hour,
         DAY_OF_MONTH := bcd day, MONTH := bcd month, YEAR := bcd year]\<rparr>"

definition storage_byte :: "cmos \<Rightarrow> u8 \<Rightarrow> u8" where
  "storage_byte c idx = cmos_storage c ! unat (idx AND 0x7F)"

definition set_storage_byte :: "cmos \<Rightarrow> u8 \<Rightarrow> u8 \<Rightarrow> cmos" where
  "set_storage_byte c idx value = c\<lparr>cmos_storage := (cmos_storage c)[unat (idx AND 0x7F) := value]\<rparr>"

definition cmos_snapshot :: "cmos \<Rightarrow> bytes" where
  "cmos_snapshot c = [cmos_index c] @ cmos_storage c"

definition cmos_restore :: "cmos \<Rightarrow> bytes \<Rightarrow> cmos \<times> nat result" where
  "cmos_restore c bs =
     (if length bs < 1 + 128 then (c, Inl ''cmos: truncated'')
      else (c\<lparr>cmos_index := bs ! 0 AND 0x7F,
              cmos_storage := put (cmos_storage c) 0 (take 128 (drop 1 bs))\<rparr>, Inr (1 + 128)))"

definition cmos_port_range :: "cmos \<Rightarrow> u16 \<times> u16" where
  "cmos_port_range c = (index_port c, data_port c)"

definition cmos_read :: "cmos \<Rightarrow> u16 \<Rightarrow> u8 \<times> cmos" where
  "cmos_read c port =
     (if port = data_port c then (cmos_storage c ! unat (cmos_index c), c) else (0, c))"

definition cmos_write :: "cmos \<Rightarrow> u16 \<Rightarrow> u8 \<Rightarrow> cmos" where
  "cmos_write c port value =
     (if port = index_port c then c\<lparr>cmos_index := value AND 0x7F\<rparr>
      else if port = data_port c then c\<lparr>cmos_storage := (cmos_storage c)[unat (cmos_index c) := value]\<rparr>
      else c)"

section \<open>Contracts\<close>

text \<open>
  The index is always below 128, so the direct indexing of the Rust array never panics; the
  two ports differ.
\<close>

definition cmos_wf :: "cmos \<Rightarrow> bool" where
  "cmos_wf c \<longleftrightarrow> length (cmos_storage c) = 128 \<and> cmos_index c < 128 \<and> index_port c \<noteq> data_port c"

lemma and_7F_less: "x AND 0x7F < (128 :: u8)"
proof -
  have "x AND 0x7F \<le> 0x7F" by (rule word_and_le1)
  then show ?thesis by (rule le_less_trans) simp
qed

lemma and_7F_small: "x < 128 \<Longrightarrow> x AND 0x7F = x" for x :: u8
proof -
  assume "x < 128"
  moreover have "x AND 0x7F = take_bit 7 x" by (simp add: take_bit_eq_mask mask_eq_exp_minus_1)
  ultimately show ?thesis
    by (simp add: word_unat_eq_iff unsigned_take_bit_eq word_less_nat_alt take_bit_nat_eq_self)
qed

lemma cmos_new_wf: "cmos_wf cmos_new"
  by (simp add: cmos_wf_def cmos_new_def)

interpretation cmos_dev: io_device cmos_port_range cmos_read cmos_write cmos_wf
  by unfold_locales
     (simp_all add: cmos_port_range_def cmos_read_def cmos_write_def cmos_wf_def and_7F_less)

definition cmos_keep :: "cmos \<Rightarrow> cmos \<Rightarrow> cmos" where
  "cmos_keep c0 c = c\<lparr>index_port := index_port c0, data_port := data_port c0\<rparr>"

interpretation cmos_snap: snapshot_device cmos_snapshot cmos_restore cmos_keep cmos_wf cmos_wf
  by unfold_locales
     (simp add: cmos_restore_def cmos_snapshot_def cmos_wf_def cmos_keep_def and_7F_small put_same_length_append)

section \<open>The store behind the ports\<close>

text \<open>What a guest sees: select an index, then read or write the data port.\<close>

definition cmos_get :: "cmos \<Rightarrow> 7 word \<Rightarrow> u8" where
  "cmos_get c i = fst (cmos_read (cmos_write c (index_port c) (ucast i)) (data_port c))"

definition cmos_put :: "cmos \<Rightarrow> 7 word \<Rightarrow> u8 \<Rightarrow> cmos" where
  "cmos_put c i v = cmos_write (cmos_write c (index_port c) (ucast i)) (data_port c) v"

lemma unat_7: "unat (i :: 7 word) < 128"
  using unsigned_less [of i] by simp

lemma unat_ucast_7: "unat (ucast (i :: 7 word) :: u8) = unat i"
  using unat_7 [of i] by (simp add: unsigned_ucast_eq take_bit_nat_eq_self)

lemma ucast_7_mask: "(ucast (i :: 7 word) :: u8) AND 0x7F = ucast i"
  using unat_7 [of i] by (intro and_7F_small) (simp add: word_less_nat_alt unat_ucast_7)

interpretation cmos_cells: cell_store cmos_get cmos_put "\<lambda>c _. cmos_wf c"
proof
  fix c :: cmos and a b :: "7 word" and v :: u8
  assume wf: "cmos_wf c"
  then have "unat a < length (cmos_storage c)" using unat_7 [of a] by (simp add: cmos_wf_def)
  then show "cmos_get (cmos_put c a v) b = (if b = a then v else cmos_get c b)"
    using wf by (auto simp: cmos_get_def cmos_put_def cmos_read_def cmos_write_def cmos_wf_def ucast_7_mask
        unat_ucast_7 word_unat_eq_iff)
next
  fix c :: cmos and a b :: "7 word" and v :: u8
  assume wf: "cmos_wf c"
  then show "cmos_wf (cmos_put c a v) = cmos_wf c"
    using and_7F_less [of "ucast a"] by (auto simp: cmos_put_def cmos_write_def cmos_wf_def)
qed

text \<open>The guest's decoding of a BCD byte (\<^verbatim>\<open>bcd2bin\<close> of the kernel the comments cite).\<close>

definition bcd2bin :: "u8 \<Rightarrow> nat" where
  "bcd2bin b = unat (b AND 0x0F) + unat (drop_bit 4 b) * 10"

lemma bcd2bin_bcd_all: "list_all (\<lambda>n. bcd2bin (bcd (of_nat n)) = n) [0..<100]"
  by code_simp

lemma bcd2bin_bcd: "unat v < 100 \<Longrightarrow> bcd2bin (bcd v) = unat v"
  using bcd2bin_bcd_all by (auto simp: list_all_iff dest: bspec [where x = "unat v"])

lemma cmos_get_nth: "cmos_wf c \<Longrightarrow> cmos_get c i = cmos_storage c ! unat i"
  by (auto simp: cmos_get_def cmos_read_def cmos_write_def cmos_wf_def ucast_7_mask unat_ucast_7)

lemma cmos_set_time_wf: "cmos_wf c \<Longrightarrow> cmos_wf (cmos_set_time c y mo d h mi s)"
  by (simp add: cmos_set_time_def cmos_wf_def)

text \<open>
  The clock the host sets is the clock the guest reads: after \<open>set_time\<close> with two-digit
  values, selecting each time register through the index port and reading the data port gives a
  BCD byte that decodes to the value the host passed, and no other register of the 128 changes
  (the day of week and the status registers among them).
\<close>

theorem cmos_time:
  assumes "cmos_wf c" and "\<forall>v \<in> {year, month, day, hour, minute, second}. unat v < 100"
  defines "c' \<equiv> cmos_set_time c year month day hour minute second"
  shows "bcd2bin (cmos_get c' (of_nat SECONDS)) = unat second \<and>
    bcd2bin (cmos_get c' (of_nat MINUTES)) = unat minute \<and>
    bcd2bin (cmos_get c' (of_nat HOURS)) = unat hour \<and>
    bcd2bin (cmos_get c' (of_nat DAY_OF_MONTH)) = unat day \<and>
    bcd2bin (cmos_get c' (of_nat MONTH)) = unat month \<and>
    bcd2bin (cmos_get c' (of_nat YEAR)) = unat year \<and>
    (\<forall>i. unat i \<notin> {SECONDS, MINUTES, HOURS, DAY_OF_MONTH, MONTH, YEAR} \<longrightarrow> cmos_get c' i = cmos_get c i)"
proof -
  have len: "length (cmos_storage c) = 128" using assms(1) by (simp add: cmos_wf_def)
  have get: "cmos_get c' i = cmos_storage c' ! unat i" for i
    unfolding c'_def using assms(1) by (intro cmos_get_nth cmos_set_time_wf)
  have "cmos_get c' i = cmos_get c i" if "unat i \<notin> {SECONDS, MINUTES, HOURS, DAY_OF_MONTH, MONTH, YEAR}" for i
    using that unfolding get cmos_get_nth [OF assms(1)] unfolding c'_def by (simp add: cmos_set_time_def)
  then show ?thesis
    using assms(2) len unfolding get unfolding c'_def by (simp add: cmos_set_time_def cmos_reg_defs bcd2bin_bcd)
qed

theorem cmos_time_witness:
  "cmos_wf cmos_new \<and> unat (59 :: u8) < 100 \<and>
   bcd2bin (cmos_get (cmos_set_time cmos_new 26 5 27 12 34 59) (of_nat YEAR)) = 26 \<and>
   bcd2bin (cmos_get (cmos_set_time cmos_new 26 5 27 12 34 59) (of_nat SECONDS)) = 59"
  using cmos_time [OF cmos_new_wf, of 26 5 27 12 34 59] by (simp add: cmos_new_wf)

end
