(* ===== verification/Ata.thy ===== *)
theory Ata
  imports IoDevice
begin

text \<open>
  The disk image (\<^verbatim>\<open>crates/devices/src/disk.rs\<close>) and the PIO-mode IDE controller in front of
  it (\<^verbatim>\<open>crates/devices/src/ata.rs\<close>).  A \<^verbatim>\<open>usize\<close> is a \<open>nat\<close>: the largest value computed is
  \<open>2 ^ 28 * 512 + 131072\<close>, far inside 64 bits.
\<close>

section \<open>The disk image\<close>

definition SECTOR_SIZE :: nat where "SECTOR_SIZE = 512"

record disk =
  disk_bytes :: bytes

definition disk_new :: disk where
  "disk_new = \<lparr>disk_bytes = []\<rparr>"

definition disk_load :: "disk \<Rightarrow> bytes \<Rightarrow> disk" where
  "disk_load d bs = d\<lparr>disk_bytes := bs\<rparr>"

definition disk_size :: "disk \<Rightarrow> nat" where
  "disk_size d = length (disk_bytes d)"

text \<open>The loop fills the first \<open>to_write\<close> slots of \<open>dest\<close>; the filled \<open>dest\<close> is returned too.\<close>

definition read_sectors :: "disk \<Rightarrow> u32 \<Rightarrow> u8 \<Rightarrow> bytes \<Rightarrow> bytes \<times> nat" where
  "read_sectors d lba count dest =
     (let want = unat count * SECTOR_SIZE; to_write = min want (length dest);
          start = unat lba * SECTOR_SIZE
      in (map (\<lambda>i. let off = start + i in if off < length (disk_bytes d) then disk_bytes d ! off else 0)
              [0..<to_write] @ drop to_write dest, to_write))"

definition write_sectors :: "disk \<Rightarrow> u32 \<Rightarrow> bytes \<Rightarrow> disk" where
  "write_sectors d lba data =
     (let start = unat lba * SECTOR_SIZE; end1 = start + length data;
          bs = (if length (disk_bytes d) < end1 then resize (disk_bytes d) end1 0 else disk_bytes d)
      in d\<lparr>disk_bytes := put bs start data\<rparr>)"

section \<open>The controller\<close>

definition PRIMARY_PORT_BASE :: u16 where "PRIMARY_PORT_BASE = 0x1F0"
definition SECONDARY_PORT_BASE :: u16 where "SECONDARY_PORT_BASE = 0x170"
definition STATUS_DRQ :: u8 where "STATUS_DRQ = 0x08"
definition STATUS_DRDY :: u8 where "STATUS_DRDY = 0x40"
definition STATUS_BSY :: u8 where "STATUS_BSY = 0x80"
definition CMD_READ_SECTORS :: u8 where "CMD_READ_SECTORS = 0x20"
definition CMD_WRITE_SECTORS :: u8 where "CMD_WRITE_SECTORS = 0x30"
definition CMD_IDENTIFY :: u8 where "CMD_IDENTIFY = 0xEC"

lemmas ata_consts = STATUS_DRQ_def STATUS_DRDY_def STATUS_BSY_def CMD_READ_SECTORS_def CMD_WRITE_SECTORS_def
  CMD_IDENTIFY_def

record ata =
  ata_disk :: disk
  sector_count :: u8
  lba_low :: u8
  lba_mid :: u8
  lba_high :: u8
  drive_head :: u8
  ata_error :: u8
  ata_status :: u8
  ata_buf :: bytes
  ata_pos :: nat
  ata_writing :: bool
  write_lba :: u32
  port_base :: u16

definition CONTROL_OFFSET :: u16 where "CONTROL_OFFSET = 0x206"

definition ata_with_port_base :: "u16 \<Rightarrow> ata" where
  "ata_with_port_base base =
     \<lparr>ata_disk = disk_new, sector_count = 0, lba_low = 0, lba_mid = 0, lba_high = 0, drive_head = 0,
      ata_error = 0, ata_status = STATUS_DRDY, ata_buf = [], ata_pos = 0, ata_writing = False,
      write_lba = 0, port_base = base\<rparr>"

definition ata_new :: ata where
  "ata_new = ata_with_port_base PRIMARY_PORT_BASE"

definition control_port :: "ata \<Rightarrow> u16" where
  "control_port a = port_base a + CONTROL_OFFSET"

definition read_alt_status :: "ata \<Rightarrow> u8" where
  "read_alt_status a = ata_status a"

definition write_device_control :: "ata \<Rightarrow> u8 \<Rightarrow> ata" where
  "write_device_control a value = a"

definition ata_snapshot :: "ata \<Rightarrow> bytes" where
  "ata_snapshot a =
     [sector_count a, lba_low a, lba_mid a, lba_high a, drive_head a, ata_error a, ata_status a,
      b2w (ata_writing a)] @ le32 (write_lba a) @ le32 (of_nat (ata_pos a))
     @ le32 (of_nat (length (ata_buf a))) @ ata_buf a"

definition ata_restore :: "ata \<Rightarrow> bytes \<Rightarrow> ata \<times> nat result" where
  "ata_restore a bs =
     (if length bs < 8 + 4 + 4 + 4 then (a, Inl ''ata: truncated header'')
      else
        let a1 = a\<lparr>sector_count := bs ! 0, lba_low := bs ! 1, lba_mid := bs ! 2, lba_high := bs ! 3,
                   drive_head := bs ! 4, ata_error := bs ! 5, ata_status := bs ! 6,
                   ata_writing := (bs ! 7 \<noteq> 0), write_lba := get32 bs 8,
                   ata_pos := unat (get32 bs 12)\<rparr>;
            buf_len = unat (get32 bs 16); header = 20
        in if length bs < header + buf_len then (a1, Inl ''ata: truncated buf'')
           else (a1\<lparr>ata_buf := take buf_len (drop header bs)\<rparr>, Inr (header + buf_len)))"

definition lba28 :: "ata \<Rightarrow> u32" where
  "lba28 a = ucast (lba_low a) OR push_bit 8 (ucast (lba_mid a)) OR push_bit 16 (ucast (lba_high a))
     OR push_bit 24 (ucast (drive_head a AND 0x0F))"

definition drq :: "ata \<Rightarrow> bool" where
  "drq a \<longleftrightarrow> ata_status a AND STATUS_DRQ \<noteq> 0"

definition build_identify_block :: "disk \<Rightarrow> bytes" where
  "build_identify_block d =
     (let sectors = of_nat (disk_size d div SECTOR_SIZE) :: u32;
          words = (replicate 256 (0 :: u16))[0 := 0x0040, 49 := push_bit 9 1, 60 := ucast sectors,
                    61 := ucast (drop_bit 16 sectors), 80 := push_bit 6 1]
      in concat (map le16 words))"

definition transfer_count :: "ata \<Rightarrow> u16" where
  "transfer_count a = (if sector_count a = 0 then 256 else ucast (sector_count a))"

definition ata_execute :: "ata \<Rightarrow> u8 \<Rightarrow> ata" where
  "ata_execute a cmd =
     (if cmd = CMD_IDENTIFY then
        a\<lparr>ata_buf := build_identify_block (ata_disk a), ata_pos := 0, ata_writing := False, ata_error := 0,
          ata_status := STATUS_DRDY OR STATUS_DRQ\<rparr>
      else if cmd = CMD_READ_SECTORS then
        let count = transfer_count a; lba = lba28 a; buf = replicate (SECTOR_SIZE * unat count) 0
        in a\<lparr>ata_buf := fst (read_sectors (ata_disk a) lba (ucast count) buf), ata_pos := 0,
             ata_writing := False, ata_error := 0, ata_status := STATUS_DRDY OR STATUS_DRQ\<rparr>
      else if cmd = CMD_WRITE_SECTORS then
        let count = transfer_count a
        in a\<lparr>ata_buf := replicate (SECTOR_SIZE * unat count) 0, ata_pos := 0, ata_writing := True,
             write_lba := lba28 a, ata_error := 0, ata_status := STATUS_DRDY OR STATUS_DRQ\<rparr>
      else
        a\<lparr>ata_buf := [], ata_pos := 0, ata_writing := False, ata_error := 0, ata_status := STATUS_DRDY\<rparr>)"

definition pop_buf_byte :: "ata \<Rightarrow> u8 \<times> ata" where
  "pop_buf_byte a =
     (if length (ata_buf a) \<le> ata_pos a then (0xFF, a\<lparr>ata_status := ata_status a AND NOT STATUS_DRQ\<rparr>)
      else
        let b = ata_buf a ! ata_pos a; a1 = a\<lparr>ata_pos := ata_pos a + 1\<rparr>
        in (b, if length (ata_buf a1) \<le> ata_pos a1
               then a1\<lparr>ata_status := ata_status a1 AND NOT STATUS_DRQ\<rparr> else a1))"

definition push_buf_byte :: "ata \<Rightarrow> u8 \<Rightarrow> ata" where
  "push_buf_byte a b =
     (if length (ata_buf a) \<le> ata_pos a then a
      else
        let a1 = a\<lparr>ata_buf := (ata_buf a)[ata_pos a := b], ata_pos := ata_pos a + 1\<rparr>
        in if length (ata_buf a1) \<le> ata_pos a1
           then a1\<lparr>ata_disk := write_sectors (ata_disk a1) (write_lba a1) (ata_buf a1),
                   ata_status := ata_status a1 AND NOT STATUS_DRQ, ata_writing := False\<rparr>
           else a1)"

definition ata_port_range :: "ata \<Rightarrow> u16 \<times> u16" where
  "ata_port_range a = (port_base a, port_base a + 7)"

definition ata_read :: "ata \<Rightarrow> u16 \<Rightarrow> u8 \<times> ata" where
  "ata_read a port =
     (let r = port - port_base a in
      if r = 0 then (if drq a \<and> \<not> ata_writing a then pop_buf_byte a else (0xFF, a))
      else if r = 1 then (if drq a \<and> \<not> ata_writing a then pop_buf_byte a else (ata_error a, a))
      else if r = 2 then (sector_count a, a)
      else if r = 3 then (lba_low a, a)
      else if r = 4 then (lba_mid a, a)
      else if r = 5 then (lba_high a, a)
      else if r = 6 then (drive_head a, a)
      else if r = 7 then (ata_status a, a)
      else (0xFF, a))"

definition ata_write :: "ata \<Rightarrow> u16 \<Rightarrow> u8 \<Rightarrow> ata" where
  "ata_write a port value =
     (let r = port - port_base a in
      if r = 0 \<or> r = 1 then (if ata_writing a \<and> drq a then push_buf_byte a value else a)
      else if r = 2 then a\<lparr>sector_count := value\<rparr>
      else if r = 3 then a\<lparr>lba_low := value\<rparr>
      else if r = 4 then a\<lparr>lba_mid := value\<rparr>
      else if r = 5 then a\<lparr>lba_high := value\<rparr>
      else if r = 6 then a\<lparr>drive_head := value\<rparr>
      else if r = 7 then ata_execute (a\<lparr>ata_status := STATUS_BSY\<rparr>) value
      else a)"

section \<open>Contracts\<close>

text \<open>Cursor and buffer fit the 32-bit fields of the image; every command keeps them within 128 KiB.\<close>

definition ata_wf :: "ata \<Rightarrow> bool" where
  "ata_wf a \<longleftrightarrow> ata_pos a \<le> length (ata_buf a) \<and> length (ata_buf a) \<le> 131072"

lemma length_identify: "length (build_identify_block d) = 512"
  by (simp add: build_identify_block_def Let_def length_concat_le16)

lemma transfer_count_bounds: "0 < unat (transfer_count a)" "unat (transfer_count a) \<le> 256"
  using unat_bounds(1) [of "sector_count a"]
  by (simp_all add: transfer_count_def unat_ucast_wider word_unat_eq_iff)

lemma length_read_sectors: "length (fst (read_sectors d lba n dest)) = length dest"
  by (simp add: read_sectors_def Let_def)

lemma ata_execute_wf: "ata_wf (ata_execute a cmd)"
  using transfer_count_bounds [of a]
  by (simp add: ata_execute_def ata_wf_def Let_def length_identify length_read_sectors SECTOR_SIZE_def)

lemma pop_buf_byte_wf: "ata_wf a \<Longrightarrow> ata_wf (snd (pop_buf_byte a))"
  by (simp add: pop_buf_byte_def ata_wf_def Let_def)

lemma push_buf_byte_wf: "ata_wf a \<Longrightarrow> ata_wf (push_buf_byte a b)"
  by (simp add: push_buf_byte_def ata_wf_def Let_def)

lemma ata_port_base [simp]:
  "port_base (ata_execute a cmd) = port_base a" "port_base (snd (pop_buf_byte a)) = port_base a"
  "port_base (push_buf_byte a b) = port_base a"
  by (simp_all add: ata_execute_def pop_buf_byte_def push_buf_byte_def Let_def)

interpretation ata_dev: io_device ata_port_range ata_read ata_write ata_wf
proof
  fix a p v
  show "ata_port_range (snd (ata_read a p)) = ata_port_range a" "ata_port_range (ata_write a p v) = ata_port_range a"
    by (simp_all add: ata_port_range_def ata_read_def ata_write_def Let_def)
  assume wf: "ata_wf a"
  then show "ata_wf (snd (ata_read a p))"
    by (simp add: ata_read_def Let_def pop_buf_byte_wf)
  show "ata_wf (ata_write a p v)"
    using wf push_buf_byte_wf [OF wf, of v] ata_execute_wf by (simp add: ata_write_def Let_def) (simp add: ata_wf_def)
qed

definition ata_keep :: "ata \<Rightarrow> ata \<Rightarrow> ata" where
  "ata_keep a0 a = a\<lparr>ata_disk := ata_disk a0, port_base := port_base a0\<rparr>"

lemma ata_restore_ok:
  assumes "20 + n \<le> length bs" "unat (get32 bs 16) = n"
  shows "ata_restore a bs =
    (a\<lparr>sector_count := bs ! 0, lba_low := bs ! 1, lba_mid := bs ! 2, lba_high := bs ! 3,
       drive_head := bs ! 4, ata_error := bs ! 5, ata_status := bs ! 6,
       ata_writing := (bs ! 7 \<noteq> 0), write_lba := get32 bs 8, ata_pos := unat (get32 bs 12),
       ata_buf := take n (drop 20 bs)\<rparr>, Inr (20 + n))"
  using assms by (simp add: ata_restore_def Let_def)

interpretation ata_snap: snapshot_device ata_snapshot ata_restore ata_keep ata_wf "\<lambda>_. True"
proof
  fix a a0 rest
  assume wf: "ata_wf a"
  define hd8 where "hd8 = [sector_count a, lba_low a, lba_mid a, lba_high a, drive_head a, ata_error a,
      ata_status a, b2w (ata_writing a)]"
  let ?l = "le32 (write_lba a)" and ?p = "le32 (of_nat (ata_pos a))" and ?n = "le32 (of_nat (length (ata_buf a)))"
  define bs where "bs = ata_snapshot a @ rest"
  have bs: "bs = hd8 @ ?l @ ?p @ ?n @ ata_buf a @ rest" by (simp add: bs_def hd8_def ata_snapshot_def)
  have len8: "length hd8 = 8" by (simp add: hd8_def)
  have small: "length (ata_buf a) < 2 ^ 32" "ata_pos a < 2 ^ 32" using wf by (simp_all add: ata_wf_def)
  have lba: "get32 bs 8 = write_lba a" unfolding bs by (rule get32_at [OF len8])
  have pos: "unat (get32 bs 12) = ata_pos a"
    using get32_at [of "hd8 @ ?l" 12 "of_nat (ata_pos a)"] small(2) by (simp add: bs len8 unat_of_nat_u32)
  have n: "unat (get32 bs 16) = length (ata_buf a)"
    using get32_at [of "hd8 @ ?l @ ?p" 16 "of_nat (length (ata_buf a))"] small(1)
    by (simp add: bs len8 unat_of_nat_u32)
  have buf: "take (length (ata_buf a)) (drop 20 bs) = ata_buf a"
    using take_drop_at [of "hd8 @ ?l @ ?p @ ?n" 20 "ata_buf a" "length (ata_buf a)" rest] by (simp add: bs len8)
  have hd: "bs ! 0 = sector_count a" "bs ! 1 = lba_low a" "bs ! 2 = lba_mid a" "bs ! 3 = lba_high a"
    "bs ! 4 = drive_head a" "bs ! 5 = ata_error a" "bs ! 6 = ata_status a" "bs ! 7 = b2w (ata_writing a)"
    by (simp_all add: bs hd8_def)
  have len: "length bs = 20 + length (ata_buf a) + length rest" by (simp add: bs len8)
  have fits: "20 + length (ata_buf a) \<le> length bs" by (simp add: len)
  have "ata_restore a0 bs = (ata_keep a0 a, Inr (20 + length (ata_buf a)))"
    by (simp add: ata_restore_ok [OF fits n] hd lba pos buf ata_keep_def del: One_nat_def)
  then show "ata_restore a0 (ata_snapshot a @ rest) = (ata_keep a0 a, Inr (length (ata_snapshot a)))"
    by (simp add: bs_def [symmetric]) (simp add: ata_snapshot_def)
qed

section \<open>The disk as a total function\<close>

text \<open>
  A guest sees an unbounded disk: byte \<open>i\<close> is the image's, or zero past its end.
  \<open>write_sectors\<close> is an update of that function and \<open>read_sectors\<close> reads it.
\<close>

definition disk_byte :: "disk \<Rightarrow> nat \<Rightarrow> u8" where
  "disk_byte d i = (if i < length (disk_bytes d) then disk_bytes d ! i else 0)"

lemma read_sectors_byte:
  assumes "unat n * SECTOR_SIZE \<le> length dest" and "j < unat n * SECTOR_SIZE"
  shows "fst (read_sectors d lba n dest) ! j = disk_byte d (unat lba * SECTOR_SIZE + j)"
  using assms by (simp add: read_sectors_def Let_def disk_byte_def nth_append min_absorb1)

lemma read_sectors_full:
  assumes "length dest = SECTOR_SIZE * unat n"
  shows "fst (read_sectors d lba n dest) = map (\<lambda>j. disk_byte d (unat lba * SECTOR_SIZE + j)) [0..<SECTOR_SIZE * unat n]"
  using assms by (simp add: read_sectors_def Let_def disk_byte_def mult.commute)

lemma write_sectors_byte:
  "disk_byte (write_sectors d lba data) i =
     (if unat lba * SECTOR_SIZE \<le> i \<and> i < unat lba * SECTOR_SIZE + length data
      then data ! (i - unat lba * SECTOR_SIZE) else disk_byte d i)"
proof -
  define st where "st = unat lba * SECTOR_SIZE"
  define bs where "bs = (if length (disk_bytes d) < st + length data
      then resize (disk_bytes d) (st + length data) 0 else disk_bytes d)"
  have w: "disk_bytes (write_sectors d lba data) = put bs st data"
    by (simp add: write_sectors_def Let_def st_def bs_def)
  have len: "st + length data \<le> length bs" by (simp add: bs_def)
  have old: "(if i < length bs then bs ! i else 0) = disk_byte d i"
    by (auto simp: bs_def disk_byte_def resize_nth)
  show ?thesis
    using len old by (auto simp: disk_byte_def w put_nth st_def [symmetric])
qed

section \<open>PIO transfers\<close>

text \<open>
  Draining and filling the buffer through the data port, one byte per access at \<^verbatim>\<open>base\<close> or
  \<^verbatim>\<open>base + 1\<close> (the two halves of a 16-bit access).
\<close>

definition data_ports :: "ata \<Rightarrow> u16 list \<Rightarrow> bool" where
  "data_ports a ps \<longleftrightarrow> (\<forall>p \<in> set ps. p = port_base a \<or> p = port_base a + 1)"

definition ata_idle :: "ata \<Rightarrow> ata" where
  "ata_idle a = a\<lparr>ata_pos := length (ata_buf a), ata_status := STATUS_DRDY, ata_writing := False\<rparr>"

lemma ata_read_data:
  assumes "p = port_base a \<or> p = port_base a + 1" "drq a" "\<not> ata_writing a"
  shows "ata_read a p = pop_buf_byte a"
  using assms by (auto simp: ata_read_def)

lemma ata_write_data:
  assumes "p = port_base a \<or> p = port_base a + 1" "drq a" "ata_writing a"
  shows "ata_write a p v = push_buf_byte a v"
  using assms by (auto simp: ata_write_def)

lemma drq_busy: "ata_status a = STATUS_DRDY OR STATUS_DRQ \<Longrightarrow> drq a"
  by (simp add: drq_def ata_consts)

lemma drain_buffer:
  assumes "ata_status a = STATUS_DRDY OR STATUS_DRQ" "\<not> ata_writing a" "data_ports a ps"
    "ata_pos a + length ps = length (ata_buf a)" "ps \<noteq> []"
  shows "run_accesses ata_read ata_write a (map In ps) = (drop (ata_pos a) (ata_buf a), ata_idle a)"
  using assms
proof (induction ps arbitrary: a)
  case (Cons p ps)
  define a1 where "a1 = snd (pop_buf_byte a)"
  have lt: "ata_pos a < length (ata_buf a)" using Cons.prems(4) by simp
  have rd: "ata_read a p = pop_buf_byte a"
    using Cons.prems by (intro ata_read_data) (simp_all add: data_ports_def drq_busy)
  have v: "fst (pop_buf_byte a) = ata_buf a ! ata_pos a" using lt by (simp add: pop_buf_byte_def Let_def)
  have run: "run_accesses ata_read ata_write a (map In (p # ps)) =
      (ata_buf a ! ata_pos a # fst (run_accesses ata_read ata_write a1 (map In ps)),
       snd (run_accesses ata_read ata_write a1 (map In ps)))"
    by (simp add: rd a1_def v [symmetric] case_prod_unfold Let_def)
  show ?case
  proof (cases "ps = []")
    case True
    have "a1 = ata_idle a"
      using True Cons.prems lt by (simp add: a1_def pop_buf_byte_def ata_idle_def ata_consts)
    then show ?thesis using True run lt Cons.prems(4) by (simp add: Cons_nth_drop_Suc [symmetric])
  next
    case False
    then have a1: "a1 = a\<lparr>ata_pos := ata_pos a + 1\<rparr>"
      using Cons.prems(4) by (cases ps) (simp_all add: a1_def pop_buf_byte_def Let_def)
    have "run_accesses ata_read ata_write a1 (map In ps) = (drop (ata_pos a + 1) (ata_buf a), ata_idle a)"
      using Cons.IH [of a1] Cons.prems False by (simp add: a1 data_ports_def ata_idle_def)
    then show ?thesis using run lt by (simp add: Cons_nth_drop_Suc)
  qed
qed simp

definition ata_committed :: "ata \<Rightarrow> bytes \<Rightarrow> ata" where
  "ata_committed a buf = (ata_idle (a\<lparr>ata_buf := buf\<rparr>))\<lparr>ata_disk := write_sectors (ata_disk a) (write_lba a) buf\<rparr>"

lemma fill_buffer:
  assumes "ata_status a = STATUS_DRDY OR STATUS_DRQ" "ata_writing a" "data_ports a ps"
    "ata_pos a + length ps = length (ata_buf a)" "ps \<noteq> []" "length data = length ps"
  shows "run_accesses ata_read ata_write a (map2 Out ps data) =
    ([], ata_committed a (take (ata_pos a) (ata_buf a) @ data))"
  using assms
proof (induction ps arbitrary: a data)
  case (Cons p ps)
  obtain v vs where data: "data = v # vs" using Cons.prems(6) by (cases data) auto
  define a1 where "a1 = push_buf_byte a v"
  have lt: "ata_pos a < length (ata_buf a)" using Cons.prems(4) by simp
  have wr: "ata_write a p v = a1"
    unfolding a1_def using Cons.prems by (intro ata_write_data) (simp_all add: data_ports_def drq_busy)
  have tk: "take (Suc (ata_pos a)) ((ata_buf a)[ata_pos a := v]) = take (ata_pos a) (ata_buf a) @ [v]"
    using lt by (simp add: take_Suc_conv_app_nth)
  show ?case
  proof (cases "ps = []")
    case True
    then have "(ata_buf a)[ata_pos a := v] = take (ata_pos a) (ata_buf a) @ data"
      using tk Cons.prems data by simp
    then show ?thesis
      using True Cons.prems lt data wr by (simp add: a1_def push_buf_byte_def ata_committed_def ata_idle_def ata_consts)
  next
    case False
    then have a1: "a1 = a\<lparr>ata_buf := (ata_buf a)[ata_pos a := v], ata_pos := ata_pos a + 1\<rparr>"
      using Cons.prems(4) by (cases ps) (simp_all add: a1_def push_buf_byte_def Let_def)
    have "run_accesses ata_read ata_write a1 (map2 Out ps vs) =
        ([], ata_committed a1 (take (ata_pos a1) (ata_buf a1) @ vs))"
      using Cons.prems False data by (intro Cons.IH) (simp_all add: a1 data_ports_def)
    then show ?thesis
      using data wr tk by (simp add: a1 ata_committed_def ata_idle_def)
  qed
qed simp

text \<open>What a driver writes before a command: the sector count and the LBA, in LBA mode.\<close>

definition ata_select :: "u16 \<Rightarrow> u8 \<Rightarrow> u32 \<Rightarrow> access list" where
  "ata_select base count lba =
     [Out (base + 2) count, Out (base + 3) (ucast lba), Out (base + 4) (ucast (drop_bit 8 lba)),
      Out (base + 5) (ucast (drop_bit 16 lba)), Out (base + 6) (0x40 OR ucast (drop_bit 24 lba))]"

definition ata_selected :: "ata \<Rightarrow> u8 \<Rightarrow> u32 \<Rightarrow> ata" where
  "ata_selected a count lba =
     a\<lparr>sector_count := count, lba_low := ucast lba, lba_mid := ucast (drop_bit 8 lba),
       lba_high := ucast (drop_bit 16 lba), drive_head := 0x40 OR ucast (drop_bit 24 lba)\<rparr>"

lemma run_select:
  "run_accesses ata_read ata_write a (ata_select (port_base a) count lba) = ([], ata_selected a count lba)"
  by (simp add: ata_select_def ata_selected_def ata_write_def Let_def)

lemma lba28_selected:
  assumes "lba < 2 ^ 28"
  shows "lba28 (ata_selected a count lba) = lba"
proof -
  have hi: "\<not> bit lba n" if "28 \<le> n" for n
    using assms that by (intro not_bit_above [where k = 28]) (simp_all add: word_less_nat_alt)
  have top: "(0x40 OR x) AND 0x0F = take_bit 4 x" for x :: u8
    by (simp add: take_bit_eq_mask mask_eq_exp_minus_1 bit.conj_disj_distrib2)
  show ?thesis
  proof (rule bit_word_eqI)
    fix n assume "n < LENGTH(32)"
    then consider "n < 8" | "8 \<le> n" "n < 16" | "16 \<le> n" "n < 24" | "24 \<le> n" "n < 28" | "28 \<le> n" "n < 32"
      by fastforce
    then show "bit (lba28 (ata_selected a count lba)) n = bit lba n"
      by cases (auto simp: lba28_def ata_selected_def top bit_simps hi)
  qed
qed

lemma selected_simps [simp]:
  "ata_disk (ata_selected a n lba) = ata_disk a" "port_base (ata_selected a n lba) = port_base a"
  "sector_count (ata_selected a n lba) = n"
  by (simp_all add: ata_selected_def)

lemma lba28_cong:
  "lba_low a = lba_low b \<Longrightarrow> lba_mid a = lba_mid b \<Longrightarrow> lba_high a = lba_high b \<Longrightarrow> drive_head a = drive_head b
   \<Longrightarrow> lba28 a = lba28 b"
  by (simp add: lba28_def)

text \<open>The state after a READ SECTORS or WRITE SECTORS command is issued to registers set for \<open>lba\<close>.\<close>

definition ata_reading :: "ata \<Rightarrow> bytes \<Rightarrow> ata" where
  "ata_reading a buf = a\<lparr>ata_buf := buf, ata_pos := 0, ata_writing := False, ata_error := 0,
     ata_status := STATUS_DRDY OR STATUS_DRQ\<rparr>"

definition ata_filling :: "ata \<Rightarrow> nat \<Rightarrow> u32 \<Rightarrow> ata" where
  "ata_filling a n lba = a\<lparr>ata_buf := replicate n 0, ata_pos := 0, ata_writing := True, write_lba := lba,
     ata_error := 0, ata_status := STATUS_DRDY OR STATUS_DRQ\<rparr>"

lemma issue_read:
  assumes "sector_count a \<noteq> 0" "lba28 a = lba"
  shows "ata_write a (port_base a + 7) CMD_READ_SECTORS =
    ata_reading a (map (\<lambda>j. disk_byte (ata_disk a) (unat lba * SECTOR_SIZE + j))
      [0..<SECTOR_SIZE * unat (sector_count a)])"
proof -
  have "lba28 (a\<lparr>ata_status := STATUS_BSY\<rparr>) = lba" using assms(2) by (simp add: lba28_def)
  moreover have "ucast (ucast (sector_count a) :: u16) = sector_count a"
    by (rule bit_word_eqI) (simp add: bit_simps)
  ultimately show ?thesis
    using assms(1)
    by (simp add: ata_write_def ata_execute_def Let_def transfer_count_def unat_ucast_wider read_sectors_full
        ata_reading_def ata_consts)
qed

lemma issue_write:
  assumes "lba28 a = lba"
  shows "ata_write a (port_base a + 7) CMD_WRITE_SECTORS =
    ata_filling a (SECTOR_SIZE * unat (transfer_count a)) lba"
proof -
  have "lba28 (a\<lparr>ata_status := STATUS_BSY\<rparr>) = lba" "transfer_count (a\<lparr>ata_status := STATUS_BSY\<rparr>) = transfer_count a"
    using assms by (simp_all add: lba28_def transfer_count_def)
  then show ?thesis
    by (simp add: ata_write_def ata_execute_def Let_def ata_filling_def ata_consts)
qed

lemma run_read:
  assumes "sector_count a \<noteq> 0" "lba28 a = lba" "data_ports a ps" "length ps = SECTOR_SIZE * unat (sector_count a)"
  shows "run_accesses ata_read ata_write a (Out (port_base a + 7) CMD_READ_SECTORS # map In ps) =
    (map (\<lambda>j. disk_byte (ata_disk a) (unat lba * SECTOR_SIZE + j)) [0..<length ps],
     ata_idle (ata_reading a (map (\<lambda>j. disk_byte (ata_disk a) (unat lba * SECTOR_SIZE + j)) [0..<length ps])))"
proof -
  let ?buf = "map (\<lambda>j. disk_byte (ata_disk a) (unat lba * SECTOR_SIZE + j)) [0..<length ps]"
  have "unat (sector_count a) \<noteq> 0" using assms(1) by (simp add: unsigned_eq_0_iff)
  then have ne: "ps \<noteq> []" using assms(4) by (auto simp: SECTOR_SIZE_def)
  have "run_accesses ata_read ata_write (ata_reading a ?buf) (map In ps) =
      (drop (ata_pos (ata_reading a ?buf)) (ata_buf (ata_reading a ?buf)), ata_idle (ata_reading a ?buf))"
    using assms(3) ne by (intro drain_buffer) (simp_all add: ata_reading_def data_ports_def)
  then show ?thesis
    by (simp add: issue_read [OF assms(1,2)] assms(4) [symmetric]) (simp add: ata_reading_def)
qed

lemma run_write:
  assumes "lba28 a = lba" "data_ports a ps" "length ps = SECTOR_SIZE * unat (transfer_count a)" "length data = length ps"
  shows "run_accesses ata_read ata_write a (Out (port_base a + 7) CMD_WRITE_SECTORS # map2 Out ps data) =
    ([], ata_committed (ata_filling a (length ps) lba) data)"
proof -
  let ?a = "ata_filling a (length ps) lba"
  have ne: "ps \<noteq> []" using assms(3) transfer_count_bounds(1) [of a] by (auto simp: SECTOR_SIZE_def)
  have "run_accesses ata_read ata_write ?a (map2 Out ps data) =
      ([], ata_committed ?a (take (ata_pos ?a) (ata_buf ?a) @ data))"
    using assms(2,4) ne by (intro fill_buffer) (simp_all add: ata_filling_def data_ports_def)
  then show ?thesis
    by (simp add: issue_write [OF assms(1)] assms(3) [symmetric]) (simp add: ata_filling_def)
qed

text \<open>
  PIO write followed by PIO read is the identity.  A driver that, from any state of the
  controller, programs a sector count of 1 to 255 and a 28-bit LBA, issues WRITE SECTORS, sends
  the data bytes through the data port in any mix of its two byte halves, issues READ SECTORS and
  drains the buffer gets exactly its data back; the disk holds the data at \<open>lba * 512\<close> and is
  unchanged everywhere else; and the controller is ready with DRQ clear.
\<close>

theorem ata_pio_roundtrip:
  fixes a :: ata
  assumes "lba < 2 ^ 28" and "0 < count" and "length data = 512 * unat count"
    and "data_ports a ps" and "length ps = length data" and "data_ports a qs" and "length qs = length data"
  defines "base \<equiv> port_base a"
  defines "r \<equiv> run_accesses ata_read ata_write a
      (ata_select base count lba @ [Out (base + 7) CMD_WRITE_SECTORS] @ map2 Out ps data @
       [Out (base + 7) CMD_READ_SECTORS] @ map In qs)"
  shows "fst r = data \<and> ata_status (snd r) = STATUS_DRDY \<and> \<not> drq (snd r) \<and>
    (\<forall>i. disk_byte (ata_disk (snd r)) i =
       (if unat lba * 512 \<le> i \<and> i < unat lba * 512 + length data then data ! (i - unat lba * 512)
        else disk_byte (ata_disk a) i))"
proof -
  define a1 where "a1 = ata_selected a count lba"
  define a2 where "a2 = ata_committed (ata_filling a1 (length ps) lba) data"
  have nz: "count \<noteq> 0" using assms(2) by auto
  have lba1: "lba28 a1 = lba" unfolding a1_def by (rule lba28_selected [OF assms(1)])
  have lba2: "lba28 a2 = lba"
    unfolding lba1 [symmetric] by (rule lba28_cong) (simp_all add: a2_def ata_committed_def ata_filling_def ata_idle_def)
  have a2: "port_base a2 = base" "sector_count a2 = count"
    "ata_disk a2 = write_sectors (ata_disk a) lba data"
    by (simp_all add: a2_def ata_committed_def ata_filling_def ata_idle_def a1_def base_def)
  have tc: "unat (transfer_count a1) = unat count"
    using nz by (simp add: transfer_count_def a1_def unat_ucast_wider)
  have w: "run_accesses ata_read ata_write a1 (Out (base + 7) CMD_WRITE_SECTORS # map2 Out ps data) = ([], a2)"
    using run_write [OF lba1, of ps data] assms tc
    by (simp add: a2_def a1_def SECTOR_SIZE_def data_ports_def)
  let ?buf = "map (\<lambda>j. disk_byte (ata_disk a2) (unat lba * SECTOR_SIZE + j)) [0..<length qs]"
  have rd: "run_accesses ata_read ata_write a2 (Out (base + 7) CMD_READ_SECTORS # map In qs) =
      (?buf, ata_idle (ata_reading a2 ?buf))"
    using run_read [OF _ lba2, of qs] nz assms(3,6,7) by (simp add: a2 SECTOR_SIZE_def data_ports_def base_def)
  have "r = (?buf, ata_idle (ata_reading a2 ?buf))"
    using run_select [of a count lba] w rd unfolding r_def base_def a1_def
    by (simp add: run_accesses_append)
  moreover have "?buf = data"
    by (rule nth_equalityI) (simp_all add: a2 write_sectors_byte assms(7))
  ultimately show ?thesis
    by (simp add: ata_idle_def ata_reading_def drq_def a2 write_sectors_byte SECTOR_SIZE_def) (simp add: ata_consts)
qed

theorem ata_pio_roundtrip_witness:
  "(7 :: u32) < 2 ^ 28 \<and> (0 :: u8) < 2 \<and> data_ports ata_new (replicate 1024 0x1F0) \<and>
   fst (run_accesses ata_read ata_write ata_new
      (ata_select 0x1F0 2 7 @ [Out 0x1F7 CMD_WRITE_SECTORS] @ map2 Out (replicate 1024 0x1F0) (replicate 1024 0xA5) @
       [Out 0x1F7 CMD_READ_SECTORS] @ map In (replicate 1024 0x1F0))) = replicate 1024 0xA5"
proof -
  have base: "port_base ata_new = 0x1F0"
    by (simp add: ata_new_def ata_with_port_base_def PRIMARY_PORT_BASE_def)
  have ports: "data_ports ata_new (replicate 1024 0x1F0)" by (simp add: data_ports_def base)
  show ?thesis
    using ata_pio_roundtrip [of 7 2 "replicate 1024 0xA5" ata_new "replicate 1024 0x1F0" "replicate 1024 0x1F0"] ports
    by (simp add: base)
qed

text \<open>
  A 256-sector READ delivers no data.  With the sector count register at 0, which the code and
  its comment define as 256 sectors, READ SECTORS raises DRQ for 131072 bytes, but every one of
  them is zero whatever the disk holds: the count is narrowed to \<^verbatim>\<open>u8\<close> on its way to
  \<^verbatim>\<open>read_sectors\<close> and arrives there as 0.  (WRITE SECTORS with the same count does store all 256.)
\<close>

theorem ata_read_256_blank:
  fixes a :: ata
  assumes "data_ports a ps" and "length ps = 131072" and "lba < 2 ^ 28"
  defines "base \<equiv> port_base a"
  shows "fst (run_accesses ata_read ata_write a
      (ata_select base 0 lba @ [Out (base + 7) CMD_READ_SECTORS] @ map In ps)) = replicate 131072 0"
proof -
  define a1 where "a1 = ata_selected a 0 lba"
  have a1: "port_base a1 = base" by (simp add: a1_def base_def)
  have "sector_count a1 = 0" by (simp add: a1_def)
  then have issue: "ata_write a1 (base + 7) CMD_READ_SECTORS = ata_reading a1 (replicate 131072 0)"
    unfolding a1 [symmetric]
    by (simp add: ata_write_def ata_execute_def Let_def transfer_count_def read_sectors_def SECTOR_SIZE_def
        ata_reading_def ata_consts)
  have "run_accesses ata_read ata_write (ata_reading a1 (replicate 131072 0)) (map In ps) =
      (drop (ata_pos (ata_reading a1 (replicate 131072 0))) (ata_buf (ata_reading a1 (replicate 131072 0))),
       ata_idle (ata_reading a1 (replicate 131072 0)))"
    using assms(1,2) by (intro drain_buffer) (auto simp: ata_reading_def data_ports_def a1 base_def)
  then have "fst (run_accesses ata_read ata_write (ata_reading a1 (replicate 131072 0)) (map In ps)) =
      replicate 131072 0" by (simp add: ata_reading_def)
  then show ?thesis
    using run_select [of a 0 lba] unfolding base_def
    by (simp add: run_accesses_append issue [unfolded base_def] case_prod_unfold Let_def flip: a1_def)
qed

theorem ata_read_256_blank_witness:
  "data_ports ata_new (replicate 131072 0x1F0) \<and>
   fst (run_accesses ata_read ata_write (ata_new\<lparr>ata_disk := \<lparr>disk_bytes = replicate 200000 0x55\<rparr>\<rparr>)
      (ata_select 0x1F0 0 3 @ [Out 0x1F7 CMD_READ_SECTORS] @ map In (replicate 131072 0x1F0))) = replicate 131072 0"
proof -
  define a where "a = ata_new\<lparr>ata_disk := \<lparr>disk_bytes = replicate 200000 0x55\<rparr>\<rparr>"
  have base: "port_base a = 0x1F0" "port_base ata_new = 0x1F0"
    by (simp_all add: a_def ata_new_def ata_with_port_base_def PRIMARY_PORT_BASE_def)
  have ports: "data_ports a (replicate 131072 0x1F0)" "data_ports ata_new (replicate 131072 0x1F0)"
    by (simp_all add: data_ports_def base)
  show ?thesis
    using ata_read_256_blank [OF ports(1), of 3] ports(2) by (simp add: base flip: a_def)
qed

end
