(* ===== verification/Pci.thy ===== *)
theory Pci
  imports IoDevice
begin

text \<open>
  PCI configuration mechanism #1 (\<^verbatim>\<open>crates/devices/src/pci.rs\<close>): the address latch at 0xCF8, the
  data window at 0xCFC, a host bridge at 00:00.0 and the configuration header of the network
  card at 00:01.0.
\<close>

definition PORT_ADDR_LO :: u16 where "PORT_ADDR_LO = 0xCF8"
definition PORT_LAST :: u16 where "PORT_LAST = 0xCFF"

definition host_bridge_config :: "u32 \<Rightarrow> u32" where
  "host_bridge_config reg =
     (if reg = 0x00 then 0x12378086
      else if reg = 0x04 then 0
      else if reg = 0x08 then 0x06000000 OR 0x02
      else if reg = 0x0C then 0
      else 0)"

definition RTL8139_IO_SIZE :: u32 where "RTL8139_IO_SIZE = 0x100"

record pci =
  pci_addr :: u32
  nic_bar0 :: u32
  nic_command :: u16

definition pci_new :: pci where
  "pci_new = \<lparr>pci_addr = 0, nic_bar0 = 0, nic_command = 0\<rparr>"

definition nic_config_read :: "pci \<Rightarrow> u32 \<Rightarrow> u32" where
  "nic_config_read p reg =
     (if reg = 0x00 then 0x813910EC
      else if reg = 0x04 then ucast (nic_command p)
      else if reg = 0x08 then 0x02000000 OR 0x10
      else if reg = 0x0C then 0
      else if reg = 0x10 then (nic_bar0 p AND 0xFFFFFF00) OR 0x1
      else if reg = 0x3C then 0x0000010B
      else 0)"

definition nic_write_byte :: "pci \<Rightarrow> u32 \<Rightarrow> u8 \<Rightarrow> pci" where
  "nic_write_byte p off value =
     (if off = 0x04 then p\<lparr>nic_command := (nic_command p AND 0xFF00) OR ucast value\<rparr>
      else if off = 0x05 then p\<lparr>nic_command := (nic_command p AND 0x00FF) OR push_bit 8 (ucast value)\<rparr>
      else if 0x10 \<le> off \<and> off \<le> 0x13 then
        let sh = unat ((off - 0x10) * 8)
        in p\<lparr>nic_bar0 := (nic_bar0 p AND NOT (push_bit sh 0xFF)) OR push_bit sh (ucast value)\<rparr>
      else p)"

definition nic_io_base :: "pci \<Rightarrow> u16" where
  "nic_io_base p = ucast (nic_bar0 p AND 0xFF00)"

definition nic_io_enabled :: "pci \<Rightarrow> bool" where
  "nic_io_enabled p \<longleftrightarrow> nic_command p AND 0x1 \<noteq> 0 \<and> nic_io_base p \<noteq> 0"

definition read_data :: "pci \<Rightarrow> u32" where
  "read_data p =
     (if pci_addr p AND 0x80000000 = 0 then 0xFFFFFFFF
      else
        let bus = drop_bit 16 (pci_addr p) AND 0xFF; dev = drop_bit 11 (pci_addr p) AND 0x1F;
            func = drop_bit 8 (pci_addr p) AND 0x07; reg = pci_addr p AND 0xFC
        in if (bus, dev, func) = (0, 0, 0) then host_bridge_config reg
           else if (bus, dev, func) = (0, 1, 0) then nic_config_read p reg
           else 0xFFFFFFFF)"

definition pci_snapshot :: "pci \<Rightarrow> bytes" where
  "pci_snapshot p = le32 (pci_addr p) @ le32 (nic_bar0 p) @ le16 (nic_command p)"

definition pci_restore :: "pci \<Rightarrow> bytes \<Rightarrow> pci \<times> nat result" where
  "pci_restore p bs =
     (if length bs < 4 then (p, Inl ''pci: truncated'')
      else
        let p1 = p\<lparr>pci_addr := get32 bs 0\<rparr>
        in if 10 \<le> length bs then (p1\<lparr>nic_bar0 := get32 bs 4, nic_command := get16 bs 8\<rparr>, Inr 10)
           else (p1, Inr 4))"

definition pci_port_range :: "pci \<Rightarrow> u16 \<times> u16" where
  "pci_port_range p = (PORT_ADDR_LO, PORT_LAST)"

definition pci_read :: "pci \<Rightarrow> u16 \<Rightarrow> u8 \<times> pci" where
  "pci_read p port =
     (if port = 0xCF8 then (ucast (pci_addr p), p)
      else if port = 0xCF9 then (ucast (drop_bit 8 (pci_addr p)), p)
      else if port = 0xCFA then (ucast (drop_bit 16 (pci_addr p)), p)
      else if port = 0xCFB then (ucast (drop_bit 24 (pci_addr p)), p)
      else if port = 0xCFC then (ucast (read_data p), p)
      else if port = 0xCFD then (ucast (drop_bit 8 (read_data p)), p)
      else if port = 0xCFE then (ucast (drop_bit 16 (read_data p)), p)
      else if port = 0xCFF then (ucast (drop_bit 24 (read_data p)), p)
      else (0xFF, p))"

definition pci_write :: "pci \<Rightarrow> u16 \<Rightarrow> u8 \<Rightarrow> pci" where
  "pci_write p port value =
     (if port = 0xCF8 then p\<lparr>pci_addr := (pci_addr p AND NOT 0xFF) OR ucast value\<rparr>
      else if port = 0xCF9 then p\<lparr>pci_addr := (pci_addr p AND NOT 0xFF00) OR push_bit 8 (ucast value)\<rparr>
      else if port = 0xCFA then p\<lparr>pci_addr := (pci_addr p AND NOT 0xFF0000) OR push_bit 16 (ucast value)\<rparr>
      else if port = 0xCFB then p\<lparr>pci_addr := (pci_addr p AND NOT 0xFF000000) OR push_bit 24 (ucast value)\<rparr>
      else if 0xCFC \<le> port \<and> port \<le> 0xCFF \<and> pci_addr p AND 0x80000000 \<noteq> 0 then
        let bus = drop_bit 16 (pci_addr p) AND 0xFF; dev = drop_bit 11 (pci_addr p) AND 0x1F;
            func = drop_bit 8 (pci_addr p) AND 0x07
        in if (bus, dev, func) = (0, 1, 0)
           then nic_write_byte p ((pci_addr p AND 0xFC) + ucast (port - 0xCFC)) value else p
      else p)"

section \<open>Contracts\<close>

lemma pci_read_pure [simp]: "snd (pci_read p port) = p"
  by (simp add: pci_read_def)

interpretation pci_dev: io_device pci_port_range pci_read pci_write "\<lambda>_. True"
  by unfold_locales (simp_all add: pci_port_range_def)

definition pci_keep :: "pci \<Rightarrow> pci \<Rightarrow> pci" where
  "pci_keep p0 p = p"

interpretation pci_snap: snapshot_device pci_snapshot pci_restore pci_keep "\<lambda>_. True" "\<lambda>_. True"
proof
  fix p p0 rest
  define bs where "bs = pci_snapshot p @ rest"
  let ?a = "le32 (pci_addr p)" and ?b = "le32 (nic_bar0 p)" and ?c = "le16 (nic_command p)"
  have g: "get32 bs 0 = pci_addr p" "get32 bs 4 = nic_bar0 p" "get16 bs 8 = nic_command p" "10 \<le> length bs"
    using get32_at [of "[]" 0 "pci_addr p" "?b @ ?c @ rest"] get32_at [of ?a 4 "nic_bar0 p" "?c @ rest"]
      get16_at [of "?a @ ?b" 8 "nic_command p" rest]
    by (simp_all add: bs_def pci_snapshot_def)
  then have "pci_restore p0 bs = (pci_keep p0 p, Inr 10)"
    by (simp add: pci_restore_def pci_keep_def Let_def)
  then show "pci_restore p0 (pci_snapshot p @ rest) = (pci_keep p0 p, Inr (length (pci_snapshot p)))"
    by (simp add: bs_def [symmetric]) (simp add: pci_snapshot_def)
qed

section \<open>Configuration cycles\<close>

text \<open>
  A 32-bit access of the guest is four byte accesses.  \<open>cfg_select\<close> latches an address,
  \<open>cfg_read\<close> and \<open>cfg_write\<close> are whole cycles.
\<close>

definition out32 :: "u16 \<Rightarrow> u32 \<Rightarrow> access list" where
  "out32 port v = [Out port (ucast v), Out (port + 1) (ucast (drop_bit 8 v)),
     Out (port + 2) (ucast (drop_bit 16 v)), Out (port + 3) (ucast (drop_bit 24 v))]"

definition in32 :: "u16 \<Rightarrow> access list" where
  "in32 port = [In port, In (port + 1), In (port + 2), In (port + 3)]"

definition cfg_write :: "pci \<Rightarrow> u32 \<Rightarrow> u32 \<Rightarrow> pci" where
  "cfg_write p addr v = snd (run_accesses pci_read pci_write p (out32 0xCF8 addr @ out32 0xCFC v))"

definition cfg_read :: "pci \<Rightarrow> u32 \<Rightarrow> u32" where
  "cfg_read p addr = get32 (fst (run_accesses pci_read pci_write p (out32 0xCF8 addr @ in32 0xCFC))) 0"

lemma byte_masks:
  "(0xFF :: u32) = mask 8" "(0xFF00 :: u32) = push_bit 8 (mask 8)" "(0xFF0000 :: u32) = push_bit 16 (mask 8)"
  "(0xFF000000 :: u32) = push_bit 24 (mask 8)"
  by (simp_all add: mask_eq_exp_minus_1)

text \<open>Replacing the four bytes of a word from the lowest up leaves the new word only.\<close>

lemma merge_bytes:
  fixes x v :: u32
  shows "((((((x AND NOT (mask 8)) OR ucast (ucast v :: u8)) AND NOT (push_bit 8 (mask 8)))
      OR push_bit 8 (ucast (ucast (drop_bit 8 v) :: u8))) AND NOT (push_bit 16 (mask 8)))
      OR push_bit 16 (ucast (ucast (drop_bit 16 v) :: u8))) AND NOT (push_bit 24 (mask 8))
      OR push_bit 24 (ucast (ucast (drop_bit 24 v) :: u8)) = v"
proof (rule bit_word_eqI)
  fix n assume "n < LENGTH(32)"
  then consider "n < 8" | "8 \<le> n" "n < 16" | "16 \<le> n" "n < 24" | "24 \<le> n" "n < 32"
    by fastforce
  then show "bit (((((((x AND NOT (mask 8)) OR ucast (ucast v :: u8)) AND NOT (push_bit 8 (mask 8)))
      OR push_bit 8 (ucast (ucast (drop_bit 8 v) :: u8))) AND NOT (push_bit 16 (mask 8)))
      OR push_bit 16 (ucast (ucast (drop_bit 16 v) :: u8))) AND NOT (push_bit 24 (mask 8))
      OR push_bit 24 (ucast (ucast (drop_bit 24 v) :: u8))) n = bit v n"
    by cases (auto simp: bit_simps)
qed

lemma run_cfg_select:
  "run_accesses pci_read pci_write p (out32 0xCF8 addr) = ([], p\<lparr>pci_addr := addr\<rparr>)"
  using merge_bytes [of "pci_addr p" addr] by (simp add: out32_def pci_write_def flip: byte_masks)

lemma cfg_read_data: "cfg_read p addr = read_data (p\<lparr>pci_addr := addr\<rparr>)"
  by (simp add: cfg_read_def run_accesses_append run_cfg_select in32_def pci_read_def get32_def)

text \<open>Which function of which slot an address selects, and the register in its header.\<close>

definition cfg_slot :: "u32 \<Rightarrow> u32 \<times> u32 \<times> u32" where
  "cfg_slot addr = (drop_bit 16 addr AND 0xFF, drop_bit 11 addr AND 0x1F, drop_bit 8 addr AND 0x07)"

lemma data_window_write:
  assumes "0xCFC \<le> port" "port \<le> 0xCFF"
  shows "pci_write p port v =
    (if pci_addr p AND 0x80000000 \<noteq> 0 \<and> cfg_slot (pci_addr p) = (0, 1, 0)
     then nic_write_byte p ((pci_addr p AND 0xFC) + ucast (port - 0xCFC)) v else p)"
proof -
  have "port \<noteq> 0xCF8" "port \<noteq> 0xCF9" "port \<noteq> 0xCFA" "port \<noteq> 0xCFB" using assms(1) by auto
  then show ?thesis using assms by (simp add: pci_write_def cfg_slot_def Let_def)
qed

lemma nic_write_byte_addr [simp]: "pci_addr (nic_write_byte p off v) = pci_addr p"
  by (simp add: nic_write_byte_def Let_def)

definition nic_selected :: "u32 \<Rightarrow> bool" where
  "nic_selected addr \<longleftrightarrow> addr AND 0x80000000 \<noteq> 0 \<and> cfg_slot addr = (0, 1, 0)"

lemma window_bytes:
  assumes "nic_selected (pci_addr p)"
  shows "pci_write p 0xCFC v = nic_write_byte p (pci_addr p AND 0xFC) v"
    "pci_write p 0xCFD v = nic_write_byte p ((pci_addr p AND 0xFC) + 1) v"
    "pci_write p 0xCFE v = nic_write_byte p ((pci_addr p AND 0xFC) + 2) v"
    "pci_write p 0xCFF v = nic_write_byte p ((pci_addr p AND 0xFC) + 3) v"
  using assms by (simp_all add: data_window_write nic_selected_def)

lemma window_ignored:
  assumes "\<not> nic_selected (pci_addr p)"
  shows "pci_write p 0xCFC v = p" "pci_write p 0xCFD v = p" "pci_write p 0xCFE v = p" "pci_write p 0xCFF v = p"
  using assms by (auto simp: data_window_write nic_selected_def)

lemma cfg_write_steps:
  "cfg_write p addr v =
     pci_write (pci_write (pci_write (pci_write (p\<lparr>pci_addr := addr\<rparr>) 0xCFC (ucast v)) 0xCFD (ucast (drop_bit 8 v)))
       0xCFE (ucast (drop_bit 16 v))) 0xCFF (ucast (drop_bit 24 v))"
  unfolding cfg_write_def run_accesses_append run_cfg_select by (simp add: out32_def)

lemma cfg_write_nic:
  assumes "nic_selected addr"
  shows "cfg_write p addr v =
    nic_write_byte (nic_write_byte (nic_write_byte (nic_write_byte (p\<lparr>pci_addr := addr\<rparr>)
      (addr AND 0xFC) (ucast v)) ((addr AND 0xFC) + 1) (ucast (drop_bit 8 v)))
      ((addr AND 0xFC) + 2) (ucast (drop_bit 16 v))) ((addr AND 0xFC) + 3) (ucast (drop_bit 24 v))"
  using assms by (simp add: cfg_write_steps window_bytes)

lemma cfg_write_elsewhere: "\<not> nic_selected addr \<Longrightarrow> cfg_write p addr v = p\<lparr>pci_addr := addr\<rparr>"
  by (simp add: cfg_write_steps window_ignored)

lemma merge_command: "(((x AND 0xFF00) OR ucast (ucast v :: u8)) AND 0x00FF) OR push_bit 8 (ucast (ucast (drop_bit 8 v) :: u8))
    = (ucast v :: u16)" for x :: u16 and v :: u32
proof -
  have m: "(0xFF :: u16) = mask 8" "(0xFF00 :: u16) = push_bit 8 (mask 8)" by (simp_all add: mask_eq_exp_minus_1)
  show ?thesis unfolding m by (rule bit_word_eqI) (auto simp: bit_simps)
qed

lemma nic_bar0_write: "nic_bar0 (cfg_write p 0x80000810 v) = v \<and> nic_command (cfg_write p 0x80000810 v) = nic_command p"
  using merge_bytes [of "nic_bar0 p" v]
  by (simp add: cfg_write_nic nic_selected_def cfg_slot_def nic_write_byte_def flip: byte_masks)

lemma nic_command_write:
  "nic_command (cfg_write p 0x80000804 v) = ucast v \<and> nic_bar0 (cfg_write p 0x80000804 v) = nic_bar0 p"
  by (simp add: cfg_write_nic nic_selected_def cfg_slot_def nic_write_byte_def merge_command)

text \<open>
  The card's writable registers behave as a driver expects of a 256-byte I/O BAR.  Whatever the
  state, a configuration write of \<open>v\<close> to BAR0 reads back as \<open>v\<close> with the low byte replaced by the
  I/O indicator (so writing all ones sizes the region) and moves the decoded I/O base to
  \<open>v AND 0xFF00\<close>, leaving the command register; a write to the command register is stored,
  leaves BAR0, and enables decoding exactly when bit 0 is set and a base was assigned.
\<close>

theorem pci_nic_registers:
  fixes p :: pci and v :: u32
  defines "b \<equiv> cfg_write p 0x80000810 v" and "c \<equiv> cfg_write p 0x80000804 v"
  shows "cfg_read b 0x80000810 = (v AND 0xFFFFFF00) OR 1 \<and> nic_io_base b = ucast (v AND 0xFF00) \<and>
    nic_command b = nic_command p \<and>
    cfg_read c 0x80000804 = ucast (ucast v :: u16) \<and> nic_io_base c = nic_io_base p \<and>
    (nic_io_enabled c \<longleftrightarrow> bit v 0 \<and> nic_io_base p \<noteq> 0)"
proof -
  have "bit (ucast v :: u16) 0 = bit v 0" by (simp add: bit_simps del: bit_0)
  then show ?thesis
    using nic_bar0_write [of p v] nic_command_write [of p v]
    by (simp add: b_def c_def cfg_read_data read_data_def nic_config_read_def nic_io_base_def nic_io_enabled_def
        and_1_bit del: bit_0)
qed

text \<open>
  Only the two functions that exist answer.  With the enable bit set, a configuration read of
  any other bus, device or function gives all ones in every register and a write changes nothing
  but the address latch; with the enable bit clear the same holds of every address; and the
  identification registers of the two present functions are constant.
\<close>

theorem pci_absent_slots:
  assumes "addr AND 0x80000000 = 0 \<or> cfg_slot addr \<notin> {(0, 0, 0), (0, 1, 0)}"
  shows "cfg_read p addr = 0xFFFFFFFF \<and> cfg_write p addr v = p\<lparr>pci_addr := addr\<rparr> \<and>
    cfg_read (cfg_write p a w) 0x80000000 = 0x12378086 \<and> cfg_read (cfg_write p a w) 0x80000800 = 0x813910EC"
proof -
  have "\<not> nic_selected addr" using assms by (auto simp: nic_selected_def)
  moreover have "read_data (p\<lparr>pci_addr := addr\<rparr>) = 0xFFFFFFFF"
    using assms by (auto simp: read_data_def cfg_slot_def Let_def)
  ultimately show ?thesis
    by (simp add: cfg_read_data cfg_write_elsewhere)
       (simp add: read_data_def host_bridge_config_def nic_config_read_def)
qed

theorem pci_absent_slots_witness:
  "cfg_slot 0x80001000 \<notin> {(0, 0, 0), (0, 1, 0)} \<and> cfg_read pci_new 0x80001000 = 0xFFFFFFFF"
  using pci_absent_slots [of "0x80001000" pci_new 0 0 0] by (simp add: cfg_slot_def)

end
