(* ===== verification/Rtl8139.thy ===== *)
theory Rtl8139
  imports IoDevice "HOL-Library.Sublist"
begin

text \<open>
  The RTL8139 network card (\<^verbatim>\<open>crates/devices/src/rtl8139.rs\<close>): the 256-byte register window, the
  93C46 serial EEPROM behind register 0x50, transmit kicks and the receive ring.  \<open>accept_rx\<close>
  returns the guest-physical address and the bytes the machine copies there.  The bit counter
  \<open>ee_count\<close> wraps at 8 bits as in a release build.
\<close>

definition DEFAULT_MAC :: bytes where "DEFAULT_MAC = [0x52, 0x54, 0x00, 0x12, 0x34, 0x56]"
definition HW_VERSION_HI :: u8 where "HW_VERSION_HI = 0x74"
definition EE_CS :: u8 where "EE_CS = 0x08"
definition EE_SK :: u8 where "EE_SK = 0x04"
definition EE_DI :: u8 where "EE_DI = 0x02"
definition EE_DO :: u8 where "EE_DO = 0x01"

record rtl8139 =
  nic_regs :: bytes
  eeprom :: "u16 list"
  ee_prev_sk :: bool
  ee_cs :: bool
  ee_waiting_start :: bool
  ee_reading :: bool
  ee_cmd :: u16
  ee_count :: u8
  ee_shift :: u16
  ee_dobit :: u8
  tx_pending :: "(u32 \<times> u16) list"
  rx_rptr :: u32

definition TSD0 :: nat where "TSD0 = 0x10"
definition TSAD0 :: nat where "TSAD0 = 0x20"
definition NIC_IMR :: nat where "NIC_IMR = 0x3C"
definition NIC_ISR :: nat where "NIC_ISR = 0x3E"
definition TSD_OWN :: u32 where "TSD_OWN = push_bit 13 1"
definition TSD_TOK :: u32 where "TSD_TOK = push_bit 15 1"
definition TSD_SIZE_MASK :: u32 where "TSD_SIZE_MASK = 0x1FFF"
definition ISR_TOK :: u16 where "ISR_TOK = push_bit 2 1"
definition ISR_ROK :: u16 where "ISR_ROK = push_bit 0 1"
definition RBSTART :: nat where "RBSTART = 0x30"
definition CAPR :: nat where "CAPR = 0x38"
definition CBR :: nat where "CBR = 0x3A"
definition RCR :: nat where "RCR = 0x44"
definition CMD_RX_ENABLE :: u8 where "CMD_RX_ENABLE = push_bit 3 1"
definition CMD_BUFE :: u8 where "CMD_BUFE = push_bit 0 1"
definition RX_STATUS_ROK :: u16 where "RX_STATUS_ROK = 0x0001"
definition ETH_MIN_FRAME :: nat where "ETH_MIN_FRAME = 60"
definition RX_CRC_LEN :: nat where "RX_CRC_LEN = 4"

lemmas nic_offs = TSD0_def TSAD0_def NIC_IMR_def NIC_ISR_def RBSTART_def CAPR_def CBR_def RCR_def
lemmas nic_bits = TSD_OWN_def TSD_TOK_def TSD_SIZE_MASK_def ISR_TOK_def ISR_ROK_def CMD_RX_ENABLE_def
  CMD_BUFE_def RX_STATUS_ROK_def
lemmas ee_bits = EE_CS_def EE_SK_def EE_DI_def EE_DO_def

definition mac_words :: "bytes \<Rightarrow> u16 list \<Rightarrow> u16 list" where
  "mac_words mac ee = ee[7 := ucast (mac ! 0) OR push_bit 8 (ucast (mac ! 1)),
     8 := ucast (mac ! 2) OR push_bit 8 (ucast (mac ! 3)), 9 := ucast (mac ! 4) OR push_bit 8 (ucast (mac ! 5))]"

definition set_mac :: "rtl8139 \<Rightarrow> bytes \<Rightarrow> rtl8139" where
  "set_mac n mac = n\<lparr>nic_regs := put (nic_regs n) 0 mac, eeprom := mac_words mac (eeprom n)\<rparr>"

definition with_mac :: "bytes \<Rightarrow> rtl8139" where
  "with_mac mac =
     \<lparr>nic_regs = put (replicate 256 0) 0 mac, eeprom = mac_words mac ((replicate 64 0)[0 := 0x8129]),
      ee_prev_sk = False, ee_cs = False, ee_waiting_start = True, ee_reading = False, ee_cmd = 0,
      ee_count = 0, ee_shift = 0, ee_dobit = 0, tx_pending = [], rx_rptr = 0\<rparr>"

definition nic_new :: rtl8139 where
  "nic_new = with_mac DEFAULT_MAC"

definition reg_u32 :: "rtl8139 \<Rightarrow> nat \<Rightarrow> u32" where
  "reg_u32 n off = get32 (nic_regs n) off"

definition set_reg_u32 :: "rtl8139 \<Rightarrow> nat \<Rightarrow> u32 \<Rightarrow> rtl8139" where
  "set_reg_u32 n off v = n\<lparr>nic_regs := put (nic_regs n) off (le32 v)\<rparr>"

definition reg_u16 :: "rtl8139 \<Rightarrow> nat \<Rightarrow> u16" where
  "reg_u16 n off = get16 (nic_regs n) off"

definition nic_irq_pending :: "rtl8139 \<Rightarrow> bool" where
  "nic_irq_pending n \<longleftrightarrow> reg_u16 n NIC_ISR AND reg_u16 n NIC_IMR \<noteq> 0"

definition has_pending_tx :: "rtl8139 \<Rightarrow> bool" where
  "has_pending_tx n \<longleftrightarrow> tx_pending n \<noteq> []"

definition take_tx_frames :: "rtl8139 \<Rightarrow> (u32 \<times> u16) list \<times> rtl8139" where
  "take_tx_frames n = (tx_pending n, n\<lparr>tx_pending := []\<rparr>)"

definition signal_rx_ok :: "rtl8139 \<Rightarrow> rtl8139" where
  "signal_rx_ok n =
     (let isr = reg_u16 n NIC_ISR OR ISR_ROK in n\<lparr>nic_regs := put (nic_regs n) NIC_ISR (le16 isr)\<rparr>)"

definition rx_buf_len :: "rtl8139 \<Rightarrow> u32" where
  "rx_buf_len n = push_bit (unat (drop_bit 11 (reg_u32 n RCR) AND 0x3)) 8192"

definition rx_buffer_empty :: "rtl8139 \<Rightarrow> bool" where
  "rx_buffer_empty n = (let len = rx_buf_len n in ucast (reg_u16 n CBR) mod len = rx_rptr n mod len)"

definition next_multiple_of_4 :: "nat \<Rightarrow> nat" where
  "next_multiple_of_4 k = (k + 3) div 4 * 4"

definition accept_rx :: "rtl8139 \<Rightarrow> bytes \<Rightarrow> (u32 \<times> bytes) option \<times> rtl8139" where
  "accept_rx n frame =
     (if nic_regs n ! 0x37 AND CMD_RX_ENABLE = 0 then (None, n)
      else
        let payload = max (length frame) ETH_MIN_FRAME; rx_size = payload + RX_CRC_LEN;
            total = next_multiple_of_4 (4 + rx_size); len = rx_buf_len n
        in if len \<le> of_nat total then (None, n)
           else
             let wptr = ucast (reg_u16 n CBR) mod len; rptr = rx_rptr n mod len;
                 unread = (wptr + len - rptr) mod len
             in if len \<le> unread + of_nat total then (None, n)
                else
                  let buf = resize (le16 RX_STATUS_ROK @ le16 (of_nat rx_size) @ frame) total 0;
                      dest = reg_u32 n RBSTART + wptr;
                      new_cbr = ucast ((wptr + of_nat total) mod len) :: u16
                  in (Some (dest, buf), signal_rx_ok (n\<lparr>nic_regs := put (nic_regs n) CBR (le16 new_cbr)\<rparr>)))"

definition read_reg :: "rtl8139 \<Rightarrow> u16 \<Rightarrow> u8" where
  "read_reg n off0 =
     (let off = unat (off0 AND 0xFF) in
      if off = 0x50 then (nic_regs n ! 0x50 AND NOT EE_DO) OR ee_dobit n
      else if off = 0x43 then HW_VERSION_HI
      else if off = 0x64 then 0x2D
      else if off = 0x65 then 0x78
      else if off = 0x37 then
        (if rx_buffer_empty n then nic_regs n ! 0x37 OR CMD_BUFE else nic_regs n ! 0x37 AND NOT CMD_BUFE)
      else nic_regs n ! off)"

definition eeprom_clock :: "rtl8139 \<Rightarrow> u8 \<Rightarrow> rtl8139" where
  "eeprom_clock n value =
     (let cs = (value AND EE_CS \<noteq> 0); sk = (value AND EE_SK \<noteq> 0); di = (value AND EE_DI \<noteq> 0) in
      if \<not> cs then
        n\<lparr>ee_cs := False, ee_waiting_start := True, ee_reading := False, ee_count := 0, ee_prev_sk := sk\<rparr>
      else
        let n1 = (if \<not> ee_cs n
                  then n\<lparr>ee_waiting_start := True, ee_reading := False, ee_cmd := 0, ee_count := 0\<rparr> else n);
            n2 = n1\<lparr>ee_cs := True\<rparr>;
            n3 = (if sk \<and> \<not> ee_prev_sk n2 then
                    (if ee_waiting_start n2 then
                       (if di then n2\<lparr>ee_waiting_start := False, ee_cmd := 0, ee_count := 0\<rparr> else n2)
                     else if \<not> ee_reading n2 then
                       let n4 = n2\<lparr>ee_cmd := push_bit 1 (ee_cmd n2) OR b2w di, ee_count := ee_count n2 + 1\<rparr>
                       in if ee_count n4 = 8 then
                            let opcode = drop_bit 6 (ee_cmd n4) AND 0x3; addr = unat (ee_cmd n4 AND 0x3F)
                            in if opcode = 2
                               then n4\<lparr>ee_shift := eeprom n4 ! addr, ee_reading := True\<rparr> else n4
                          else n4
                     else
                       n2\<lparr>ee_dobit := ucast (drop_bit 15 (ee_shift n2) AND 1),
                          ee_shift := push_bit 1 (ee_shift n2)\<rparr>)
                  else n2)
        in n3\<lparr>ee_prev_sk := sk\<rparr>)"

definition tx_kick :: "rtl8139 \<Rightarrow> nat \<Rightarrow> rtl8139" where
  "tx_kick n off =
     (let k = (off - 0x13) div 4; tsd_off = TSD0 + k * 4; tsd = reg_u32 n tsd_off in
      if tsd AND TSD_OWN = 0 then
        let addr = reg_u32 n (TSAD0 + k * 4); size1 = ucast (tsd AND TSD_SIZE_MASK) :: u16;
            n1 = set_reg_u32 (n\<lparr>tx_pending := tx_pending n @ [(addr, size1)]\<rparr>) tsd_off
                   (tsd OR TSD_OWN OR TSD_TOK);
            isr = reg_u16 n1 NIC_ISR OR ISR_TOK
        in n1\<lparr>nic_regs := put (nic_regs n1) NIC_ISR (le16 isr)\<rparr>
      else n)"

definition write_reg :: "rtl8139 \<Rightarrow> u16 \<Rightarrow> u8 \<Rightarrow> rtl8139" where
  "write_reg n off0 value =
     (let off = unat (off0 AND 0xFF); stored = n\<lparr>nic_regs := (nic_regs n)[off := value]\<rparr> in
      if off = 0x50 then
        let n1 = eeprom_clock n value in n1\<lparr>nic_regs := (nic_regs n1)[0x50 := value]\<rparr>
      else if off = 0x37 then n\<lparr>nic_regs := (nic_regs n)[0x37 := value AND NOT 0x10]\<rparr>
      else if off \<le> 0x05 then n
      else if off = 0x3E \<or> off = 0x3F then n\<lparr>nic_regs := (nic_regs n)[off := nic_regs n ! off AND NOT value]\<rparr>
      else if off = 0x38 \<or> off = 0x39 then
        stored\<lparr>rx_rptr := (ucast (reg_u16 stored CAPR) + 16) mod rx_buf_len stored\<rparr>
      else if off = 0x13 \<or> off = 0x17 \<or> off = 0x1B \<or> off = 0x1F then tx_kick stored off
      else stored)"

definition nic_snapshot :: "rtl8139 \<Rightarrow> bytes" where
  "nic_snapshot n = nic_regs n @ concat (map le16 (eeprom n)) @ le32 (rx_rptr n)"

definition nic_restore :: "rtl8139 \<Rightarrow> bytes \<Rightarrow> rtl8139 \<times> nat result" where
  "nic_restore n bs =
     (if length bs < 384 then (n, Inl ''rtl8139: truncated'')
      else
        let n1 = n\<lparr>nic_regs := put (nic_regs n) 0 (take 256 bs),
                   eeprom := map (\<lambda>i. get16 bs (256 + i * 2)) [0..<length (eeprom n)]\<rparr>
        in if 388 \<le> length bs then (n1\<lparr>rx_rptr := get32 bs 384\<rparr>, Inr 388)
           else (n1\<lparr>rx_rptr := 0\<rparr>, Inr 384))"

section \<open>Contracts\<close>

definition nic_wf :: "rtl8139 \<Rightarrow> bool" where
  "nic_wf n \<longleftrightarrow> length (nic_regs n) = 256 \<and> length (eeprom n) = 64"

lemma nic_wfD: "nic_wf n \<Longrightarrow> length (nic_regs n) = 256" "nic_wf n \<Longrightarrow> length (eeprom n) = 64"
  by (simp_all add: nic_wf_def)

lemma nic_wf_update [simp]:
  "nic_wf n \<Longrightarrow> length xs = 256 \<Longrightarrow> nic_wf (n\<lparr>nic_regs := xs\<rparr>)"
  "nic_wf (n\<lparr>rx_rptr := r\<rparr>) = nic_wf n" "nic_wf (eeprom_clock n v) = nic_wf n"
  by (simp_all add: nic_wf_def eeprom_clock_def Let_def)

lemma with_mac_wf: "length mac = 6 \<Longrightarrow> nic_wf (with_mac mac)"
  by (simp add: with_mac_def nic_wf_def mac_words_def)

lemma nic_new_wf: "nic_wf nic_new"
  by (simp add: nic_new_def with_mac_wf DEFAULT_MAC_def)

lemma set_mac_wf: "nic_wf n \<Longrightarrow> length mac = 6 \<Longrightarrow> nic_wf (set_mac n mac)"
  by (simp add: set_mac_def nic_wf_def mac_words_def)

lemma eeprom_clock_frame [simp]:
  "nic_regs (eeprom_clock n v) = nic_regs n" "eeprom (eeprom_clock n v) = eeprom n"
  "tx_pending (eeprom_clock n v) = tx_pending n" "rx_rptr (eeprom_clock n v) = rx_rptr n"
  by (simp_all add: eeprom_clock_def Let_def)

lemma set_reg_u32_wf: "nic_wf n \<Longrightarrow> off + 4 \<le> 256 \<Longrightarrow> nic_wf (set_reg_u32 n off v)"
  by (simp add: set_reg_u32_def nic_wf_def)

lemma signal_rx_ok_wf: "nic_wf n \<Longrightarrow> nic_wf (signal_rx_ok n)"
  by (simp add: signal_rx_ok_def nic_wf_def Let_def nic_offs)

lemma tx_kick_wf: "nic_wf n \<Longrightarrow> off \<le> 0x1F \<Longrightarrow> nic_wf (tx_kick n off)"
  by (simp add: tx_kick_def set_reg_u32_def nic_wf_def Let_def nic_offs)

lemma write_reg_wf: "nic_wf n \<Longrightarrow> nic_wf (write_reg n off v)"
  by (auto simp: write_reg_def Let_def nic_wf_update intro!: tx_kick_wf)
     (simp_all add: nic_wf_def)

lemma accept_rx_wf: "nic_wf n \<Longrightarrow> nic_wf (snd (accept_rx n frame))"
  unfolding accept_rx_def Let_def by (auto intro!: signal_rx_ok_wf) (auto simp: nic_wf_def nic_offs)

definition nic_keep :: "rtl8139 \<Rightarrow> rtl8139 \<Rightarrow> rtl8139" where
  "nic_keep n0 n = n0\<lparr>nic_regs := nic_regs n, eeprom := eeprom n, rx_rptr := rx_rptr n\<rparr>"

lemma get16_concat:
  "i < length ws \<Longrightarrow> length pre = k \<Longrightarrow> get16 (pre @ concat (map le16 ws) @ post) (k + i * 2) = ws ! i"
proof (induction ws arbitrary: i pre k)
  case (Cons w ws)
  show ?case
  proof (cases i)
    case 0
    then show ?thesis using Cons.prems get16_at [of pre k w "concat (map le16 ws) @ post"] by simp
  next
    case (Suc j)
    then show ?thesis using Cons.IH [of j "pre @ le16 w" "k + 2"] Cons.prems by (simp add: add.assoc)
  qed
qed simp

interpretation nic_snap: snapshot_device nic_snapshot nic_restore nic_keep nic_wf nic_wf
proof
  fix n n0 rest
  assume wf: "nic_wf n" and wf0: "nic_wf n0"
  let ?ee = "concat (map le16 (eeprom n))"
  define bs where "bs = nic_snapshot n @ rest"
  have bs: "bs = nic_regs n @ ?ee @ le32 (rx_rptr n) @ rest" by (simp add: bs_def nic_snapshot_def)
  have len: "length bs = 388 + length rest" by (simp add: bs length_concat_le16 nic_wfD [OF wf])
  have regs: "take 256 bs = nic_regs n" by (simp add: bs nic_wfD [OF wf])
  have "map (\<lambda>i. get16 bs (256 + i * 2)) [0..<64] = eeprom n"
    by (rule nth_equalityI) (simp_all add: bs nic_wfD [OF wf] get16_concat)
  moreover have "get32 bs 384 = rx_rptr n"
    using get32_at [of "nic_regs n @ ?ee" 384 "rx_rptr n" rest] by (simp add: bs length_concat_le16 nic_wfD [OF wf])
  ultimately have "nic_restore n0 bs = (nic_keep n0 n, Inr 388)"
    using len by (simp add: nic_restore_def Let_def regs nic_wfD [OF wf0] nic_wfD(1) [OF wf] put_same_length_append nic_keep_def)
  moreover have "length (nic_snapshot n) = 388"
    by (simp add: nic_snapshot_def length_concat_le16 nic_wfD [OF wf])
  ultimately show "nic_restore n0 (nic_snapshot n @ rest) = (nic_keep n0 n, Inr (length (nic_snapshot n)))"
    by (simp only: bs_def)
qed

section \<open>The serial EEPROM\<close>

text \<open>
  One clock of the Microwire bus with chip select held: the line goes low and high again with the
  data bit stable, which is one rising edge for the EEPROM.
\<close>

definition ee_edge :: "rtl8139 \<Rightarrow> bool \<Rightarrow> rtl8139" where
  "ee_edge n di =
     (let v = EE_CS OR (if di then EE_DI else 0) in write_reg (write_reg n 0x50 v) 0x50 (v OR EE_SK))"

text \<open>A READ command as the driver sends it: two leading zeros, start bit, opcode 10, address.\<close>

definition ee_read_bits :: "6 word \<Rightarrow> bool list" where
  "ee_read_bits w = [False, False, True, True, False, bit w 5, bit w 4, bit w 3, bit w 2, bit w 1, bit w 0]"

definition ee_read_bit :: "u16 \<times> rtl8139 \<Rightarrow> u16 \<times> rtl8139" where
  "ee_read_bit = (\<lambda>(val, n).
     let n1 = write_reg n 0x50 (EE_CS OR EE_SK)
     in (push_bit 1 val OR ucast (read_reg n1 0x50 AND EE_DO), write_reg n1 0x50 EE_CS))"

definition eeprom_read :: "rtl8139 \<Rightarrow> 6 word \<Rightarrow> u16 \<times> rtl8139" where
  "eeprom_read n w =
     (let n1 = write_reg (write_reg n 0x50 0) 0x50 EE_CS; n2 = foldl ee_edge n1 (ee_read_bits w);
          (val, n3) = (ee_read_bit ^^ 16) (0, write_reg n2 0x50 EE_CS)
      in (val, write_reg n3 0x50 0))"

text \<open>
  The protocol phases: waiting for the start bit, shifting in a command of which \<open>k\<close> bits with
  value \<open>c\<close> have arrived, and shifting out a word of which \<open>s\<close> is left.
\<close>

definition ee_wait :: "rtl8139 \<Rightarrow> bool" where
  "ee_wait n \<longleftrightarrow> ee_cs n \<and> ee_waiting_start n \<and> \<not> ee_reading n"

definition ee_in :: "rtl8139 \<Rightarrow> u16 \<Rightarrow> u8 \<Rightarrow> bool" where
  "ee_in n c k \<longleftrightarrow> ee_cs n \<and> \<not> ee_waiting_start n \<and> \<not> ee_reading n \<and> ee_cmd n = c \<and> ee_count n = k"

definition ee_out :: "rtl8139 \<Rightarrow> u16 \<Rightarrow> bool" where
  "ee_out n s \<longleftrightarrow> ee_cs n \<and> \<not> ee_waiting_start n \<and> ee_reading n \<and> ee_shift n = s"

lemma write_50: "write_reg n 0x50 v = (eeprom_clock n v)\<lparr>nic_regs := (nic_regs n)[0x50 := v]\<rparr>"
  by (simp add: write_reg_def Let_def)

lemma write_50_frame [simp]: "eeprom (write_reg n 0x50 v) = eeprom n" "nic_wf (write_reg n 0x50 v) = nic_wf n"
  by (simp_all add: write_50 nic_wf_def)

lemma ee_edge_frame [simp]: "eeprom (ee_edge n di) = eeprom n" "nic_wf (ee_edge n di) = nic_wf n"
  by (simp_all add: ee_edge_def Let_def)

lemmas ee_eval = ee_edge_def write_50 eeprom_clock_def Let_def ee_bits

lemma ee_select: "ee_wait (write_reg (write_reg n 0x50 0) 0x50 EE_CS)"
  by (simp add: ee_wait_def ee_eval)

lemma ee_wait_zero: "ee_wait n \<Longrightarrow> ee_wait (ee_edge n False)"
  by (simp add: ee_wait_def ee_eval)

lemma ee_wait_start: "ee_wait n \<Longrightarrow> ee_in (ee_edge n True) 0 0"
  by (simp add: ee_wait_def ee_in_def ee_eval)

lemma ee_in_bit: "ee_in n c k \<Longrightarrow> k + 1 \<noteq> 8 \<Longrightarrow> ee_in (ee_edge n di) (push_bit 1 c OR b2w di) (k + 1)"
  by (cases di) (simp_all add: ee_in_def ee_eval b2w_def)

lemma ee_in_bits:
  "ee_in n c k \<Longrightarrow> unat k + length bs < 8 \<Longrightarrow>
   ee_in (foldl ee_edge n bs) (foldl (\<lambda>c b. push_bit 1 c OR b2w b) c bs) (k + of_nat (length bs))"
proof (induction bs arbitrary: n c k)
  case (Cons b bs)
  then have k: "unat (k + 1) = unat k + 1" by (simp add: unat_word_ariths)
  then have "k + 1 \<noteq> 8" using Cons.prems(2) by auto
  then show ?case
    using Cons.IH [OF ee_in_bit [OF Cons.prems(1)], of b] Cons.prems(2) k by (simp add: add.assoc)
qed simp

lemma ee_in_last:
  assumes "ee_in n c 7" and "drop_bit 6 (push_bit 1 c OR b2w di) AND 0x3 = 2"
  shows "ee_out (ee_edge n di) (eeprom n ! unat ((push_bit 1 c OR b2w di) AND 0x3F))"
  using assms by (cases di) (simp_all add: ee_in_def ee_out_def ee_eval b2w_def)

lemma ee_out_low: "ee_out n s \<Longrightarrow> ee_out (write_reg n 0x50 EE_CS) s \<and> \<not> ee_prev_sk (write_reg n 0x50 EE_CS)"
  by (simp add: ee_out_def ee_eval)

lemma ee_out_bit:
  assumes "ee_out n s" "\<not> ee_prev_sk n" "nic_wf n"
  shows "fst (ee_read_bit (val, n)) = push_bit 1 val OR (drop_bit 15 s AND 1) \<and>
    ee_out (snd (ee_read_bit (val, n))) (push_bit 1 s) \<and> \<not> ee_prev_sk (snd (ee_read_bit (val, n))) \<and>
    nic_wf (snd (ee_read_bit (val, n))) \<and> eeprom (snd (ee_read_bit (val, n))) = eeprom n"
proof -
  define n1 where "n1 = write_reg n 0x50 (EE_CS OR EE_SK)"
  have n1: "ee_out n1 (push_bit 1 s)" "ee_dobit n1 = ucast (drop_bit 15 s AND 1)" "nic_wf n1" "eeprom n1 = eeprom n"
    "nic_regs n1 ! 0x50 = EE_CS OR EE_SK"
    using assms nic_wfD(1) [OF assms(3)] by (simp_all add: n1_def ee_out_def ee_eval nic_wf_def)
  have one: "x AND 1 = 0 \<or> x AND 1 = (1 :: u16)" for x by (simp add: and_one_eq mod_2_eq_odd)
  have "ucast (read_reg n1 0x50 AND EE_DO) = drop_bit 15 s AND 1"
    using one [of "drop_bit 15 s"] by (auto simp: read_reg_def n1 ee_bits)
  then show ?thesis
    using ee_out_low [OF n1(1)] n1 by (simp add: ee_read_bit_def n1_def [symmetric] Let_def)
qed

lemma ee_shift_out:
  assumes "ee_out n w" "\<not> ee_prev_sk n" "nic_wf n" "k \<le> 16"
  shows "\<exists>n'. (ee_read_bit ^^ k) (0, n) = (drop_bit (16 - k) w, n') \<and> ee_out n' (push_bit k w) \<and> \<not> ee_prev_sk n' \<and>
    nic_wf n' \<and> eeprom n' = eeprom n"
  using assms(4)
proof (induction k)
  case 0
  have "drop_bit 16 w = 0" by (rule bit_word_eqI) (auto simp: bit_simps dest: bit_imp_le_length)
  then show ?case using assms by simp
next
  case (Suc k)
  then obtain n' where n': "(ee_read_bit ^^ k) (0, n) = (drop_bit (16 - k) w, n')" "ee_out n' (push_bit k w)"
    "\<not> ee_prev_sk n'" "nic_wf n'" "eeprom n' = eeprom n" by auto
  have "push_bit 1 (drop_bit (16 - k) w) OR (drop_bit 15 (push_bit k w) AND 1) = drop_bit (16 - Suc k) w"
  proof (rule bit_word_eqI)
    fix i assume "i < LENGTH(16)"
    then show "bit (push_bit 1 (drop_bit (16 - k) w) OR (drop_bit 15 (push_bit k w) AND 1)) i = bit (drop_bit (16 - Suc k) w) i"
      using Suc.prems
      by (cases i) (auto simp only: bit_or_iff bit_push_bit_iff bit_and_iff bit_drop_bit_eq comp_apply bit_1_iff,
          auto simp: Suc_diff_le [symmetric])
  qed
  moreover have "push_bit 1 (push_bit k w) = push_bit (Suc k) w" by (simp add: push_bit_push_bit)
  moreover have "(ee_read_bit ^^ Suc k) (0, n) = ee_read_bit (drop_bit (16 - k) w, n')" by (simp add: n'(1))
  ultimately show ?case
    using ee_out_bit [OF n'(2-4), of "drop_bit (16 - k) w"] n'(5)
    by (intro exI [of _ "snd (ee_read_bit (drop_bit (16 - k) w, n'))"]) (metis prod.collapse)
qed

text \<open>The eight command bits of a READ carry opcode 2 and the address; checked for all 64 addresses.\<close>

definition ee_cmd_of :: "bool list \<Rightarrow> u16" where
  "ee_cmd_of bs = foldl (\<lambda>c b. push_bit 1 c OR b2w b) 0 bs"

lemma ee_cmd_all:
  "list_all (\<lambda>k. let c = ee_cmd_of (drop 3 (ee_read_bits (of_nat k)))
     in drop_bit 6 c AND 0x3 = 2 \<and> unat (c AND 0x3F) = k) [0..<64]"
  by code_simp

lemma ee_cmd_read:
  fixes w :: "6 word"
  defines "c \<equiv> ee_cmd_of (drop 3 (ee_read_bits w))"
  shows "drop_bit 6 c AND 0x3 = 2" "unat (c AND 0x3F) = unat w"
proof -
  have mem: "unat w \<in> set [0..<64]" using unsigned_less [of w] by simp
  have id: "of_nat (unat w) = w" by simp
  show "drop_bit 6 c AND 0x3 = 2" "unat (c AND 0x3F) = unat w"
    using bspec [OF ee_cmd_all [unfolded list_all_iff] mem] unfolding id c_def Let_def by simp_all
qed

lemma ee_command:
  assumes "ee_wait n"
  shows "ee_out (foldl ee_edge n (ee_read_bits w)) (eeprom n ! unat w)"
proof -
  define n2 where "n2 = ee_edge (ee_edge (ee_edge n False) False) True"
  define c where "c = ee_cmd_of (butlast (drop 3 (ee_read_bits w)))"
  define n7 where "n7 = foldl ee_edge n2 (butlast (drop 3 (ee_read_bits w)))"
  have in0: "ee_in n2 0 0" unfolding n2_def using assms by (intro ee_wait_start ee_wait_zero)
  have frame: "eeprom n7 = eeprom n" by (simp add: n7_def n2_def ee_read_bits_def)
  have last_bit: "push_bit 1 c OR b2w (bit w 0) = ee_cmd_of (drop 3 (ee_read_bits w))"
  proof -
    have split: "drop 3 (ee_read_bits w) = butlast (drop 3 (ee_read_bits w)) @ [bit w 0]" by (simp add: ee_read_bits_def)
    show ?thesis by (subst split) (simp add: c_def ee_cmd_of_def)
  qed
  have "ee_in n7 c 7"
    using ee_in_bits [OF in0, of "butlast (drop 3 (ee_read_bits w))"]
    unfolding n7_def c_def ee_cmd_of_def by (simp add: ee_read_bits_def del: foldl.simps foldl_Cons foldl_Nil)
  then have "ee_out (ee_edge n7 (bit w 0)) (eeprom n7 ! unat ((push_bit 1 c OR b2w (bit w 0)) AND 0x3F))"
    by (rule ee_in_last) (simp only: last_bit ee_cmd_read)
  moreover have "foldl ee_edge n (ee_read_bits w) = ee_edge n7 (bit w 0)"
    by (simp add: n7_def n2_def ee_read_bits_def)
  ultimately show ?thesis by (simp only: frame last_bit ee_cmd_read)
qed

text \<open>
  Bit-banging a READ command through the Cmd9346 register returns the EEPROM word.  From any
  state of the serial machine, a driver that deselects the chip, selects it, clocks in the start
  bit, opcode 10 and a 6-bit address, and clocks out sixteen bits reads exactly word \<open>w\<close>, most
  significant bit first, and the EEPROM is unchanged; the driver's MAC address comes from there.
\<close>

theorem eeprom_read_correct:
  assumes "nic_wf n"
  shows "fst (eeprom_read n w) = eeprom n ! unat w \<and> eeprom (snd (eeprom_read n w)) = eeprom n"
proof -
  define n2 where "n2 = foldl ee_edge (write_reg (write_reg n 0x50 0) 0x50 EE_CS) (ee_read_bits w)"
  have frame: "eeprom n2 = eeprom n" "nic_wf n2" using assms by (simp_all add: n2_def ee_read_bits_def)
  have "ee_out n2 (eeprom n ! unat w)"
    unfolding n2_def using ee_command [OF ee_select] by simp
  then obtain n' where "(ee_read_bit ^^ 16) (0, write_reg n2 0x50 EE_CS) = (drop_bit (16 - 16) (eeprom n ! unat w), n')"
    "eeprom n' = eeprom n"
    using ee_shift_out [of "write_reg n2 0x50 EE_CS" "eeprom n ! unat w" 16] ee_out_low frame by force
  then show ?thesis
    by (simp add: eeprom_read_def n2_def [symmetric])
qed

theorem eeprom_read_correct_witness:
  "nic_wf (with_mac [0xDE, 0xAD, 0xBE, 0xEF, 0x00, 0x01]) \<and>
   fst (eeprom_read (with_mac [0xDE, 0xAD, 0xBE, 0xEF, 0x00, 0x01]) 7) = 0xADDE"
  using eeprom_read_correct [OF with_mac_wf [of "[0xDE, 0xAD, 0xBE, 0xEF, 0x00, 0x01]"], of 7]
  by (simp add: with_mac_wf) (simp add: with_mac_def mac_words_def)

section \<open>The receive ring\<close>

text \<open>
  Ring length, write offset, read offset and the room a frame takes, as natural numbers.
\<close>

definition ring_len :: "rtl8139 \<Rightarrow> nat" where "ring_len n = unat (rx_buf_len n)"
definition ring_w :: "rtl8139 \<Rightarrow> nat" where "ring_w n = unat (reg_u16 n CBR) mod ring_len n"
definition ring_r :: "rtl8139 \<Rightarrow> nat" where "ring_r n = unat (rx_rptr n) mod ring_len n"

definition rx_total :: "bytes \<Rightarrow> nat" where
  "rx_total f = next_multiple_of_4 (4 + (max (length f) ETH_MIN_FRAME + RX_CRC_LEN))"

definition rx_packet :: "bytes \<Rightarrow> bytes" where
  "rx_packet f = resize (le16 RX_STATUS_ROK @ le16 (of_nat (max (length f) ETH_MIN_FRAME + RX_CRC_LEN)) @ f) (rx_total f) 0"

definition rx_enabled :: "rtl8139 \<Rightarrow> bool" where
  "rx_enabled n \<longleftrightarrow> nic_regs n ! 0x37 AND CMD_RX_ENABLE \<noteq> 0"

lemma length_rx_packet [simp]: "length (rx_packet f) = rx_total f"
  by (simp add: rx_packet_def)

lemma rx_total_bounds: "68 \<le> rx_total f" "length f + 8 \<le> rx_total f" "rx_total f \<le> length f + 71"
  by (simp_all add: rx_total_def next_multiple_of_4_def ETH_MIN_FRAME_def RX_CRC_LEN_def)

lemma ring_len_cases: "ring_len n \<in> {8192, 16384, 32768, 65536}"
proof -
  define k where "k = unat (drop_bit 11 (reg_u32 n RCR) AND 0x3)"
  have "drop_bit 11 (reg_u32 n RCR) AND 0x3 \<le> 0x3" by (rule word_and_le1)
  then have "k \<le> 3" by (simp add: k_def word_le_nat_alt)
  then have "k \<in> {0, 1, 2, 3}" by auto
  then show ?thesis by (auto simp: ring_len_def rx_buf_len_def k_def [symmetric])
qed

lemma ring_len_facts:
  "0 < ring_len n" "ring_len n \<le> 65536" "ring_len n dvd 65536"
  using ring_len_cases [of n] by auto

lemma ring_less: "ring_w n < ring_len n" "ring_r n < ring_len n"
  by (simp_all add: ring_w_def ring_r_def ring_len_facts)

lemma unat_add_small: "unat (a :: u32) + unat b < 4294967296 \<Longrightarrow> unat (a + b) = unat a + unat b"
  using unat_add_lem [of a b] by simp

lemma rx_unread_nat:
  fixes n :: rtl8139
  defines "len \<equiv> rx_buf_len n"
  shows "unat (((ucast (reg_u16 n CBR) mod len) + len - (rx_rptr n mod len)) mod len) =
    (ring_w n + ring_len n - ring_r n) mod ring_len n"
proof -
  let ?w = "ucast (reg_u16 n CBR) mod len :: u32" and ?r = "rx_rptr n mod len"
  have w: "unat ?w = ring_w n" and r: "unat ?r = ring_r n"
    by (simp_all add: ring_w_def ring_r_def ring_len_def len_def unat_mod unat_ucast_wider)
  have sum: "unat (?w + len) = ring_w n + ring_len n"
    using ring_less(1) [of n] ring_len_facts(2) [of n] w by (subst unat_add_small) (simp_all add: ring_len_def len_def)
  have "unat (?w + len - ?r) = ring_w n + ring_len n - ring_r n"
    using ring_less(2) [of n] by (subst unat_sub) (simp_all add: word_le_nat_alt sum r)
  then show ?thesis by (simp only: unat_mod) (simp add: ring_len_def len_def)
qed

text \<open>The device after it stored a packet: write offset advanced, ROK raised, all else as before.\<close>

definition rx_stored :: "rtl8139 \<Rightarrow> bytes \<Rightarrow> rtl8139" where
  "rx_stored n f = signal_rx_ok (n\<lparr>nic_regs :=
     put (nic_regs n) CBR (le16 (of_nat ((ring_w n + rx_total f) mod ring_len n)))\<rparr>)"

lemma accept_rx_nat:
  assumes "length f < 2 ^ 31"
  shows "accept_rx n f =
    (if \<not> rx_enabled n \<or> ring_len n \<le> (ring_w n + ring_len n - ring_r n) mod ring_len n + rx_total f then (None, n)
     else (Some (reg_u32 n RBSTART + of_nat (ring_w n), rx_packet f), rx_stored n f))"
proof -
  define T where "T = next_multiple_of_4 (4 + (max (length f) ETH_MIN_FRAME + RX_CRC_LEN))"
  define len where "len = rx_buf_len n"
  define wp where "wp = (ucast (reg_u16 n CBR) mod len :: u32)"
  define ur where "ur = (wp + len - rx_rptr n mod len) mod len"
  have T: "T = rx_total f" "unat (of_nat T :: u32) = T"
    using rx_total_bounds(3) [of f] assms by (simp_all add: T_def rx_total_def unat_of_nat_u32)
  have w1: "unat wp = ring_w n"
    by (simp add: wp_def len_def ring_w_def ring_len_def unat_mod unat_ucast_wider)
  have "wp = of_nat (unat wp)" by simp
  with w1 have w: "unat wp = ring_w n" "wp = of_nat (ring_w n)" by simp_all
  have ur: "unat ur = (ring_w n + ring_len n - ring_r n) mod ring_len n"
    using rx_unread_nat [of n] by (simp add: ur_def wp_def len_def)
  then have "unat ur < 65536" using ring_len_facts [of n] by (metis less_le_trans mod_less_divisor)
  then have sum: "unat (ur + of_nat T) = unat ur + T"
    using T assms rx_total_bounds(3) [of f] by (subst unat_add_small) simp_all
  have wsum: "unat (wp + of_nat T) = ring_w n + T"
    using T assms rx_total_bounds(3) [of f] ring_less(1) [of n] ring_len_facts(2) [of n] w
    by (subst unat_add_small) simp_all
  have g1: "(len \<le> of_nat T) = (ring_len n \<le> rx_total f)"
    using T by (simp add: word_le_nat_alt len_def ring_len_def)
  have g2: "(len \<le> ur + of_nat T) = (ring_len n \<le> unat ur + rx_total f)"
    using sum T by (simp add: word_le_nat_alt len_def ring_len_def)
  have cbr: "ucast ((wp + of_nat T) mod len) = (of_nat ((ring_w n + rx_total f) mod ring_len n) :: u16)"
  proof -
    have "unat ((wp + of_nat T) mod len) = (ring_w n + rx_total f) mod ring_len n"
      unfolding unat_mod wsum by (simp add: T(1) len_def ring_len_def)
    then show ?thesis by (metis of_nat_unat)
  qed
  show ?thesis
    unfolding accept_rx_def Let_def T_def [symmetric] len_def [symmetric] wp_def [symmetric] ur_def [symmetric] g1 g2 cbr
    by (auto simp: rx_enabled_def ur rx_stored_def rx_packet_def T w)
qed

lemma rx_stored_ring:
  assumes "nic_wf n"
  shows "nic_wf (rx_stored n f)" "rx_rptr (rx_stored n f) = rx_rptr n" "ring_len (rx_stored n f) = ring_len n"
    "reg_u32 (rx_stored n f) RBSTART = reg_u32 n RBSTART" "ring_r (rx_stored n f) = ring_r n"
    "ring_w (rx_stored n f) = (ring_w n + rx_total f) mod ring_len n" "rx_enabled (rx_stored n f) = rx_enabled n"
proof -
  define c where "c = (of_nat ((ring_w n + rx_total f) mod ring_len n) :: u16)"
  define regs1 where "regs1 = put (nic_regs n) CBR (le16 c)"
  have len: "length (nic_regs n) = 256" "length regs1 = 256" using assms by (simp_all add: nic_wf_def regs1_def nic_offs)
  have regs: "nic_regs (rx_stored n f) = put regs1 NIC_ISR (le16 (get16 regs1 NIC_ISR OR ISR_ROK))"
    by (simp add: rx_stored_def signal_rx_ok_def Let_def reg_u16_def regs1_def c_def)
  have r32: "reg_u32 (rx_stored n f) off = reg_u32 n off" if "off + 4 \<le> 0x3A \<or> 0x40 \<le> off" for off
    using that len by (auto simp: reg_u32_def regs regs1_def nic_offs get32_put_other)
  show rl: "ring_len (rx_stored n f) = ring_len n"
    by (simp add: ring_len_def rx_buf_len_def r32 RCR_def)
  show "nic_wf (rx_stored n f)"
    using assms len by (simp add: nic_wf_def regs nic_offs) (simp add: rx_stored_def signal_rx_ok_def Let_def)
  show rp: "rx_rptr (rx_stored n f) = rx_rptr n"
    by (simp add: rx_stored_def signal_rx_ok_def Let_def)
  show "ring_r (rx_stored n f) = ring_r n" by (simp add: ring_r_def rl rp)
  show "reg_u32 (rx_stored n f) RBSTART = reg_u32 n RBSTART" by (simp add: r32 RBSTART_def)
  have "(ring_w n + rx_total f) mod ring_len n < 65536"
    using ring_len_facts [of n] by (metis less_le_trans mod_less_divisor)
  moreover have "reg_u16 (rx_stored n f) CBR = c"
    using len by (simp add: reg_u16_def regs get16_put_other nic_offs) (simp add: regs1_def CBR_def get16_put_same)
  ultimately show "ring_w (rx_stored n f) = (ring_w n + rx_total f) mod ring_len n"
    by (simp add: ring_w_def rl c_def unat_of_nat)
  show "rx_enabled (rx_stored n f) = rx_enabled n"
    using len by (simp add: rx_enabled_def regs put_nth nic_offs regs1_def)
qed

text \<open>The driver returns the space up to offset \<open>c + 16\<close> by writing \<open>c\<close> to CAPR, low byte first.\<close>

definition write_capr :: "rtl8139 \<Rightarrow> u16 \<Rightarrow> rtl8139" where
  "write_capr n c = write_reg (write_reg n 0x38 (ucast c)) 0x39 (ucast (drop_bit 8 c))"

lemma write_capr_ring:
  assumes "nic_wf n"
  shows "nic_wf (write_capr n c)" "ring_len (write_capr n c) = ring_len n" "ring_w (write_capr n c) = ring_w n"
    "reg_u32 (write_capr n c) RBSTART = reg_u32 n RBSTART" "rx_enabled (write_capr n c) = rx_enabled n"
    "unat (rx_rptr (write_capr n c)) = (unat c + 16) mod ring_len n"
proof -
  have len: "length (nic_regs n) = 256" using assms by (simp add: nic_wf_def)
  define regs where "regs = put (nic_regs n) CAPR (le16 c)"
  have regs: "nic_regs (write_capr n c) = regs"
  proof (rule nth_equalityI)
    fix j assume "j < length (nic_regs (write_capr n c))"
    have upd: "nic_regs (write_capr n c) = (nic_regs n)[0x38 := ucast c, 0x39 := ucast (drop_bit 8 c)]"
      by (simp add: write_capr_def write_reg_def Let_def)
    consider "j = 0x38" | "j = 0x39" | "j \<noteq> 0x38" "j \<noteq> 0x39" by blast
    then show "nic_regs (write_capr n c) ! j = regs ! j"
    proof cases
      case 3
      then have "\<not> (0x38 \<le> j \<and> j < 0x3A)" by linarith
      with 3 show ?thesis using len by (auto simp: upd regs_def put_nth CAPR_def)
    qed (use len in \<open>simp_all add: upd regs_def put_nth CAPR_def le16_nth\<close>)
  qed (use len in \<open>simp add: write_capr_def write_reg_def Let_def regs_def CAPR_def\<close>)
  show "nic_wf (write_capr n c)" unfolding write_capr_def by (intro write_reg_wf assms)
  have r32: "reg_u32 (write_capr n c) off = reg_u32 n off" if "off + 4 \<le> 0x38 \<or> 0x3A \<le> off" for off
    using that len by (auto simp: reg_u32_def regs regs_def CAPR_def get32_put_other)
  show rl: "ring_len (write_capr n c) = ring_len n"
    by (simp add: ring_len_def rx_buf_len_def r32 RCR_def)
  show "reg_u32 (write_capr n c) RBSTART = reg_u32 n RBSTART" by (simp add: r32 RBSTART_def)
  have "reg_u16 (write_capr n c) CBR = reg_u16 n CBR"
    using len by (simp add: reg_u16_def regs regs_def nic_offs get16_put_other)
  then show "ring_w (write_capr n c) = ring_w n" by (simp add: ring_w_def rl)
  show "rx_enabled (write_capr n c) = rx_enabled n"
    using len by (simp add: rx_enabled_def regs regs_def put_nth CAPR_def)
  have capr: "reg_u16 (write_capr n c) CAPR = c"
    using len by (simp add: reg_u16_def regs regs_def CAPR_def get16_put_same)
  have "rx_rptr (write_capr n c) = (ucast (reg_u16 (write_capr n c) CAPR) + 16) mod rx_buf_len (write_capr n c)"
    by (simp add: write_capr_def write_reg_def Let_def reg_u16_def rx_buf_len_def reg_u32_def)
  then show "unat (rx_rptr (write_capr n c)) = (unat c + 16) mod ring_len n"
    using unat_bounds(2) [of c] rl unfolding capr
    by (simp add: unat_mod ring_len_def) (simp add: unat_word_ariths unat_ucast_wider)
qed

text \<open>
  The life of the ring: frames arrive, and the driver consumes the oldest packet and returns its
  space.  The state is the card, the packets in the ring (with the address each was stored at)
  and the packets consumed so far.
\<close>

datatype rx_op = Arrive bytes | Consume

type_synonym ring_state = "rtl8139 \<times> (u32 \<times> bytes) list \<times> bytes list"

fun rx_step :: "ring_state \<Rightarrow> rx_op \<Rightarrow> ring_state" where
  "rx_step (n, q, got) (Arrive f) =
     (case accept_rx n f of (None, n1) \<Rightarrow> (n1, q, got) | (Some pkt, n1) \<Rightarrow> (n1, q @ [pkt], got))"
| "rx_step (n, [], got) Consume = (n, [], got)"
| "rx_step (n, (dest, pkt) # q, got) Consume =
     (write_capr n (of_nat (unat (rx_rptr n) + length pkt) - 16), q, got @ [pkt])"

text \<open>Packets lie back to back in the ring from offset \<open>p\<close>.\<close>

fun laid_out :: "u32 \<Rightarrow> nat \<Rightarrow> nat \<Rightarrow> (u32 \<times> bytes) list \<Rightarrow> bool" where
  "laid_out base len p [] = True"
| "laid_out base len p ((dest, pkt) # q) \<longleftrightarrow>
     dest = base + of_nat (p mod len) \<and> laid_out base len (p + length pkt) q"

definition ring_used :: "(u32 \<times> bytes) list \<Rightarrow> nat" where
  "ring_used q = sum_list (map (length \<circ> snd) q)"

lemma ring_used_simps [simp]:
  "ring_used [] = 0" "ring_used (x # q) = length (snd x) + ring_used q" "ring_used (q @ r) = ring_used q + ring_used r"
  by (simp_all add: ring_used_def)

lemma laid_out_snoc:
  "laid_out base len p (q @ [(dest, pkt)]) \<longleftrightarrow>
     laid_out base len p q \<and> dest = base + of_nat ((p + ring_used q) mod len)"
  by (induction q arbitrary: p) (auto simp: add.assoc)

lemma laid_out_mod: "laid_out base len (p mod len) q = laid_out base len p q"
proof (induction q arbitrary: p)
  case (Cons x q)
  obtain d pk where x: "x = (d, pk)" by (cases x)
  have "laid_out base len (p mod len + length pk) q = laid_out base len (p + length pk) q"
    using Cons [of "p mod len + length pk"] Cons [of "p + length pk"] by (simp add: mod_add_left_eq)
  then show ?case by (simp add: x)
qed simp

definition ring_inv :: "rtl8139 \<Rightarrow> (u32 \<times> bytes) list \<Rightarrow> bool" where
  "ring_inv n q \<longleftrightarrow> nic_wf n \<and> ring_used q < ring_len n \<and> ring_w n = (unat (rx_rptr n) + ring_used q) mod ring_len n \<and>
     laid_out (reg_u32 n RBSTART) (ring_len n) (unat (rx_rptr n)) q \<and> (\<forall>x \<in> set q. snd x \<noteq> [])"

lemma ring_inv_unread:
  assumes "ring_inv n q"
  shows "(ring_w n + ring_len n - ring_r n) mod ring_len n = ring_used q"
proof -
  define L where "L = ring_len n"
  define R where "R = unat (rx_rptr n)"
  have L: "0 < L" "ring_used q < L" "ring_w n = (R + ring_used q) mod L" "ring_r n = R mod L"
    using assms ring_len_facts [of n] by (simp_all add: ring_inv_def L_def R_def ring_r_def)
  have "((R + ring_used q) mod L + L - R mod L) mod L = ((R mod L + ring_used q) mod L + L - R mod L) mod L"
    by (simp add: mod_add_left_eq)
  also have "\<dots> = ring_used q"
  proof (cases "R mod L + ring_used q < L")
    case False
    then have "(R mod L + ring_used q) mod L = R mod L + ring_used q - L"
      using L(2) mod_less_divisor [OF L(1), of R]
      by (subst le_mod_geq) (simp, rule mod_less, linarith)
    then show ?thesis using False L(2) by simp
  qed (use L in simp)
  finally show ?thesis using L by (simp add: L_def)
qed

lemma ring_diff_zero: "w < L \<Longrightarrow> r < L \<Longrightarrow> (w + L - r) mod L = 0 \<longleftrightarrow> w = r" for w r L :: nat
  by (cases "r \<le> w") (auto simp: add.commute [of w] mod_if)

lemma ring_inv_arrive:
  assumes inv: "ring_inv n q" and small: "length f < 2 ^ 31"
  shows "accept_rx n f = (None, n) \<or>
    accept_rx n f = (Some (reg_u32 n RBSTART + of_nat (ring_w n), rx_packet f), rx_stored n f) \<and>
    ring_inv (rx_stored n f) (q @ [(reg_u32 n RBSTART + of_nat (ring_w n), rx_packet f)]) \<and> rx_total f < 65536"
proof (cases "\<not> rx_enabled n \<or> ring_len n \<le> ring_used q + rx_total f")
  case True
  then show ?thesis unfolding accept_rx_nat [OF small] ring_inv_unread [OF inv] by simp
next
  case False
  have wf: "nic_wf n" using inv by (simp add: ring_inv_def)
  let ?d = "reg_u32 n RBSTART + of_nat (ring_w n)"
  have "rx_packet f \<noteq> []" using rx_total_bounds(1) [of f] length_rx_packet [of f] by (metis list.size(3) not_numeral_le_zero)
  then have "ring_inv (rx_stored n f) (q @ [(?d, rx_packet f)])"
    using inv False by (auto simp: ring_inv_def rx_stored_ring [OF wf] laid_out_snoc mod_add_left_eq add.assoc)
  moreover have "rx_total f < 65536" using False ring_len_facts(2) [of n] by linarith
  ultimately show ?thesis
    using False unfolding accept_rx_nat [OF small] ring_inv_unread [OF inv] by simp
qed

lemma capr_wrap: "(unat (of_nat k - 16 :: u16) + 16) mod 65536 = k mod 65536"
proof -
  have "unat ((of_nat k - 16 :: u16) + 16) = (unat (of_nat k - 16 :: u16) + unat (16 :: u16)) mod 2 ^ 16"
    by (simp only: unat_word_ariths) simp
  moreover have "(of_nat k - 16 :: u16) + 16 = of_nat k" by simp
  ultimately show ?thesis by (simp add: unat_of_nat)
qed

lemma mod_eq_dvd_mono: "a mod m = b mod m \<Longrightarrow> d dvd m \<Longrightarrow> a mod d = b mod d" for a b d m :: nat
  using mod_mod_cancel [of d m a] mod_mod_cancel [of d m b] by simp

lemma ring_inv_consume:
  assumes inv: "ring_inv n ((dest, pkt) # q)"
  shows "ring_inv (write_capr n (of_nat (unat (rx_rptr n) + length pkt) - 16)) q"
proof -
  define c where "c = (of_nat (unat (rx_rptr n) + length pkt) - 16 :: u16)"
  have wf: "nic_wf n" using inv by (simp add: ring_inv_def)
  have "(unat c + 16) mod ring_len n = (unat (rx_rptr n) + length pkt) mod ring_len n"
    unfolding c_def using capr_wrap ring_len_facts(3) [of n] by (rule mod_eq_dvd_mono)
  then have rptr: "unat (rx_rptr (write_capr n c)) = (unat (rx_rptr n) + length pkt) mod ring_len n"
    by (simp only: write_capr_ring [OF wf])
  have "ring_inv (write_capr n c) q"
    unfolding ring_inv_def rptr write_capr_ring(1-5) [OF wf] laid_out_mod mod_add_left_eq
    using inv by (simp add: ring_inv_def add.assoc write_capr_ring(1) [OF wf])
  then show ?thesis by (simp only: c_def)
qed

text \<open>What the driver takes from a packet: the status word and the frame the length field delimits.\<close>

definition rx_decode :: "bytes \<Rightarrow> u16 \<times> bytes" where
  "rx_decode pkt = (get16 pkt 0, take (unat (get16 pkt 2) - 4) (drop 4 pkt))"

definition padded :: "bytes \<Rightarrow> bytes" where
  "padded f = f @ replicate (ETH_MIN_FRAME - length f) 0"

lemma rx_decode_packet:
  assumes "rx_total f < 65536"
  shows "rx_decode (rx_packet f) = (RX_STATUS_ROK, padded f)"
proof -
  define m where "m = max (length f) ETH_MIN_FRAME + RX_CRC_LEN"
  have T: "m + 4 \<le> rx_total f" by (simp add: m_def rx_total_def next_multiple_of_4_def)
  have m: "m < 65536" "60 + 4 \<le> m" "length f + 4 \<le> m" "m = max (length f) 60 + 4"
    using T assms by (simp_all add: m_def ETH_MIN_FRAME_def RX_CRC_LEN_def)
  have pk: "rx_packet f = le16 RX_STATUS_ROK @ le16 (of_nat m) @ f @ replicate (rx_total f - (4 + length f)) 0"
    using T m by (simp add: rx_packet_def m_def [symmetric] resize_def)
  have st: "get16 (rx_packet f) 0 = RX_STATUS_ROK"
    unfolding pk using get16_at [of "[]" 0] by simp
  have ln: "get16 (rx_packet f) 2 = of_nat m"
    unfolding pk by (rule get16_at) simp
  have "take (m - 4) (drop 4 (rx_packet f)) = padded f"
    using m T by (cases "length f \<le> 60") (simp_all add: pk padded_def ETH_MIN_FRAME_def)
  then show ?thesis using m(1) by (simp add: rx_decode_def st ln unat_of_nat)
qed

fun arrived :: "rx_op list \<Rightarrow> bytes list" where
  "arrived [] = []"
| "arrived (Arrive f # ops) = f # arrived ops"
| "arrived (Consume # ops) = arrived ops"

lemma rx_run_inv:
  assumes "ring_inv n q" "\<forall>f \<in> set (arrived ops). length f < 2 ^ 31"
    and "foldl rx_step (n, q, got) ops = (n', q', got')"
  shows "ring_inv n' q' \<and> ring_len n' = ring_len n \<and> reg_u32 n' RBSTART = reg_u32 n RBSTART \<and>
    (\<exists>fs. subseq fs (arrived ops) \<and> (\<forall>f \<in> set fs. rx_total f < 65536) \<and>
       got' @ map snd q' = got @ map snd q @ map rx_packet fs)"
  using assms
proof (induction ops arbitrary: n q got)
  case (Cons op ops)
  have wf: "nic_wf n" using Cons.prems(1) by (simp add: ring_inv_def)
  show ?case
  proof (cases op)
    case Consume
    show ?thesis
    proof (cases q)
      case Nil
      then show ?thesis using Cons.IH [OF Cons.prems(1)] Cons.prems(2,3) Consume by simp
    next
      case (Cons x q1)
      obtain d pkt where x: "x = (d, pkt)" by (cases x)
      let ?n1 = "write_capr n (of_nat (unat (rx_rptr n) + length pkt) - 16)"
      have "ring_inv ?n1 q1" using Cons.prems(1) Cons x by (intro ring_inv_consume) simp
      from Cons.IH [OF this, of "got @ [pkt]"] show ?thesis
        using Cons.prems Cons x Consume by (simp add: write_capr_ring [OF wf])
    qed
  next
    case (Arrive f)
    have small: "length f < 2 ^ 31" using Cons.prems(2) Arrive by simp
    let ?pk = "(reg_u32 n RBSTART + of_nat (ring_w n), rx_packet f)"
    from ring_inv_arrive [OF Cons.prems(1) small] show ?thesis
    proof (elim disjE conjE)
      assume "accept_rx n f = (None, n)"
      then obtain fs where fs: "subseq fs (arrived ops)" "\<forall>f \<in> set fs. rx_total f < 65536"
        "got' @ map snd q' = got @ map snd q @ map rx_packet fs"
        "ring_inv n' q'" "ring_len n' = ring_len n" "reg_u32 n' RBSTART = reg_u32 n RBSTART"
        using Cons.IH [OF Cons.prems(1), of got] Cons.prems(2,3) Arrive by auto
      then show ?thesis using Arrive by (intro conjI exI [of _ fs]) (simp_all add: list_emb_Cons)
    next
      assume acc: "accept_rx n f = (Some ?pk, rx_stored n f)" and inv: "ring_inv (rx_stored n f) (q @ [?pk])"
        and T: "rx_total f < 65536"
      obtain fs where fs: "subseq fs (arrived ops)" "\<forall>f \<in> set fs. rx_total f < 65536"
        "got' @ map snd q' = got @ map snd (q @ [?pk]) @ map rx_packet fs"
        "ring_inv n' q'" "ring_len n' = ring_len n" "reg_u32 n' RBSTART = reg_u32 n RBSTART"
        using Cons.IH [OF inv, of got] Cons.prems(2,3) Arrive acc by (auto simp: rx_stored_ring [OF wf])
      then show ?thesis using T Arrive by (intro conjI exI [of _ "f # fs"]) simp_all
    qed
  qed
qed auto


text \<open>A card with the receiver enabled and the 8 KiB ring at 1 MiB, as the driver leaves it.\<close>

definition nic_ready :: rtl8139 where
  "nic_ready = nic_new\<lparr>nic_regs := put ((nic_regs nic_new)[0x37 := 0x0C]) RBSTART (le32 0x100000)\<rparr>"

lemma nic_ready_ok: "nic_wf nic_ready" "rx_buffer_empty nic_ready" "rx_enabled nic_ready"
proof -
  have len: "length (nic_regs nic_new) = 256" using nic_new_wf by (rule nic_wfD)
  have z: "nic_regs nic_new ! i = 0" if "6 \<le> i" "i < 256" for i
    using that by (simp add: nic_new_def with_mac_def DEFAULT_MAC_def put_nth)
  show "nic_wf nic_ready" using nic_new_wf by (simp add: nic_ready_def nic_wf_def RBSTART_def)
  have "reg_u16 nic_ready CBR = 0"
    using len by (simp add: nic_ready_def reg_u16_def get16_put_other nic_offs) (simp add: get16_def z of_le16_def)
  moreover have "rx_rptr nic_ready = 0" by (simp add: nic_ready_def nic_new_def with_mac_def)
  ultimately show "rx_buffer_empty nic_ready" by (simp add: rx_buffer_empty_def Let_def)
  show "rx_enabled nic_ready"
    using len by (simp add: rx_enabled_def nic_ready_def put_nth RBSTART_def CMD_RX_ENABLE_def)
qed


section \<open>Transmission and interrupts\<close>

text \<open>A 32-bit register write of the guest is four byte writes, low byte first.\<close>

definition wreg32 :: "rtl8139 \<Rightarrow> u16 \<Rightarrow> u32 \<Rightarrow> rtl8139" where
  "wreg32 n off v =
     write_reg (write_reg (write_reg (write_reg n off (ucast v)) (off + 1) (ucast (drop_bit 8 v)))
       (off + 2) (ucast (drop_bit 16 v))) (off + 3) (ucast (drop_bit 24 v))"

lemma four_updates:
  assumes "i + 4 \<le> length xs"
  shows "xs[i := a, i + 1 := b, i + 2 := c, i + 3 := d] = put xs i [a, b, c, d]"
proof (rule nth_equalityI)
  fix j assume "j < length (xs[i := a, i + 1 := b, i + 2 := c, i + 3 := d])"
  consider "j = i" | "j = i + 1" | "j = i + 2" | "j = i + 3" | "j < i \<or> i + 4 \<le> j" by linarith
  then show "xs[i := a, i + 1 := b, i + 2 := c, i + 3 := d] ! j = put xs i [a, b, c, d] ! j"
    using assms by cases (auto simp: put_nth nth_list_update)
qed (use assms in simp)

lemma low_off: "i < 256 \<Longrightarrow> unat ((of_nat i :: u16) AND 0xFF) = i"
proof -
  assume i: "i < 256"
  have "(of_nat i :: u16) AND 0xFF = take_bit 8 (of_nat i)" by (simp add: take_bit_eq_mask mask_eq_exp_minus_1)
  then show ?thesis using i by (simp add: unsigned_take_bit_eq unat_of_nat take_bit_nat_eq_self)
qed

definition plain_off :: "nat \<Rightarrow> bool" where
  "plain_off i \<longleftrightarrow> 6 \<le> i \<and> i < 256 \<and> i \<notin> {0x13, 0x17, 0x1B, 0x1F, 0x37, 0x38, 0x39, 0x3E, 0x3F, 0x50}"

lemma write_plain: "plain_off i \<Longrightarrow> write_reg n (of_nat i) v = n\<lparr>nic_regs := (nic_regs n)[i := v]\<rparr>"
  by (simp add: write_reg_def Let_def low_off plain_off_def)

text \<open>
  The window apart from the registers with side effects, the constant ones and those the live
  BUFE bit is computed from (CBR, RCR) is a cell store.
\<close>

definition nic_plain :: "rtl8139 \<Rightarrow> u8 \<Rightarrow> bool" where
  "nic_plain n i \<longleftrightarrow> nic_wf n \<and> plain_off (unat i) \<and> unat i \<notin> {0x3A, 0x3B, 0x43, 0x44, 0x45, 0x46, 0x47, 0x64, 0x65}"

lemma of_nat_unat8: "of_nat (unat (i :: u8)) = (ucast i :: u16)"
  by simp

lemma read_nat: "i < 256 \<Longrightarrow> read_reg n (of_nat i) =
   (if i = 0x50 then (nic_regs n ! 0x50 AND NOT EE_DO) OR ee_dobit n else if i = 0x43 then HW_VERSION_HI
    else if i = 0x64 then 0x2D else if i = 0x65 then 0x78
    else if i = 0x37 then
      (if rx_buffer_empty n then nic_regs n ! 0x37 OR CMD_BUFE else nic_regs n ! 0x37 AND NOT CMD_BUFE)
    else nic_regs n ! i)"
  unfolding read_reg_def Let_def by (simp only: low_off)

lemma rx_buffer_empty_update:
  "i \<notin> {0x3A, 0x3B, 0x44, 0x45, 0x46, 0x47} \<Longrightarrow>
   rx_buffer_empty (n\<lparr>nic_regs := (nic_regs n)[i := v]\<rparr>) = rx_buffer_empty n"
  by (simp add: rx_buffer_empty_def rx_buf_len_def reg_u16_def reg_u32_def get16_def get32_def nic_offs Let_def)

interpretation nic_cells: cell_store "\<lambda>n i. read_reg n (ucast (i :: u8))" "\<lambda>n i v. write_reg n (ucast (i :: u8)) v" nic_plain
proof
  fix n :: rtl8139 and a b v :: u8
  assume p: "nic_plain n a"
  have len: "length (nic_regs n) = 256" using p by (simp add: nic_plain_def nic_wf_def)
  have w: "write_reg n (ucast a) v = n\<lparr>nic_regs := (nic_regs n)[unat a := v]\<rparr>"
    using p unfolding of_nat_unat8 [symmetric] by (intro write_plain) (simp add: nic_plain_def)
  have e: "rx_buffer_empty (n\<lparr>nic_regs := (nic_regs n)[unat a := v]\<rparr>) = rx_buffer_empty n"
    using p by (intro rx_buffer_empty_update) (simp add: nic_plain_def)
  have ab: "b = a \<longleftrightarrow> unat b = unat a" by (simp add: word_unat_eq_iff)
  show "read_reg (write_reg n (ucast a) v) (ucast b) = (if b = a then v else read_reg n (ucast b))"
    using p len unat_bounds(1) [of a] unfolding w
    unfolding ab of_nat_unat8 [symmetric] read_nat [OF unat_bounds(1)] e
    by (auto simp: nic_plain_def plain_off_def)
  show "nic_plain (write_reg n (ucast a) v) b = nic_plain n b"
    using len unfolding w by (simp add: nic_plain_def nic_wf_def)
qed

lemma wreg32_three:
  assumes "plain_off i" "plain_off (i + 1)" "plain_off (i + 2)"
  shows "wreg32 n (of_nat i) v =
    write_reg (n\<lparr>nic_regs := (nic_regs n)[i := ucast v, i + 1 := ucast (drop_bit 8 v), i + 2 := ucast (drop_bit 16 v)]\<rparr>)
      (of_nat (i + 3)) (ucast (drop_bit 24 v))"
proof -
  have off: "of_nat i + 1 = (of_nat (i + 1) :: u16)" "of_nat i + 2 = (of_nat (i + 2) :: u16)" "of_nat i + 3 = (of_nat (i + 3) :: u16)"
    by simp_all
  show ?thesis
    unfolding wreg32_def off write_plain [OF assms(1)] write_plain [OF assms(2)] write_plain [OF assms(3)] by simp
qed

lemma wreg32_tsad:
  assumes "nic_wf n" "k < 4"
  shows "wreg32 n (of_nat (TSAD0 + k * 4)) v = n\<lparr>nic_regs := put (nic_regs n) (TSAD0 + k * 4) (le32 v)\<rparr>"
proof -
  let ?i = "TSAD0 + k * 4"
  have len: "length (nic_regs n) = 256" using assms(1) by (rule nic_wfD)
  have "k \<in> {0, 1, 2, 3}" using assms(2) by auto
  then have "plain_off ?i" "plain_off (?i + 1)" "plain_off (?i + 2)" "plain_off (?i + 3)"
    by (auto simp: plain_off_def TSAD0_def)
  then show ?thesis
    using four_updates [of ?i "nic_regs n"] assms(2) len
    by (simp only: wreg32_three write_plain le32_def) (simp add: TSAD0_def)
qed

text \<open>The four byte writes to a transmit status register: the last one kicks the transmission.\<close>

lemma write_kick:
  "i \<in> {0x13, 0x17, 0x1B, 0x1F} \<Longrightarrow> write_reg n (of_nat i) v = tx_kick (n\<lparr>nic_regs := (nic_regs n)[i := v]\<rparr>) i"
  by (elim insertE) (simp_all add: write_reg_def Let_def)

lemma wreg32_tsd:
  assumes "nic_wf n" "k < 4"
  shows "wreg32 n (of_nat (TSD0 + k * 4)) v =
    tx_kick (n\<lparr>nic_regs := put (nic_regs n) (TSD0 + k * 4) (le32 v)\<rparr>) (0x13 + k * 4)"
proof -
  let ?i = "TSD0 + k * 4"
  have len: "length (nic_regs n) = 256" using assms(1) by (rule nic_wfD)
  have k: "k \<in> {0, 1, 2, 3}" using assms(2) by auto
  then have "plain_off ?i" "plain_off (?i + 1)" "plain_off (?i + 2)"
    by (auto simp: plain_off_def TSD0_def)
  then have "wreg32 n (of_nat ?i) v = write_reg (n\<lparr>nic_regs := (nic_regs n)[?i := ucast v, ?i + 1 := ucast (drop_bit 8 v),
      ?i + 2 := ucast (drop_bit 16 v)]\<rparr>) (of_nat (?i + 3)) (ucast (drop_bit 24 v))"
    by (rule wreg32_three)
  also have "\<dots> = tx_kick (n\<lparr>nic_regs := (nic_regs n)[?i := ucast v, ?i + 1 := ucast (drop_bit 8 v),
      ?i + 2 := ucast (drop_bit 16 v), ?i + 3 := ucast (drop_bit 24 v)]\<rparr>) (?i + 3)"
    using k by (subst write_kick) (auto simp: TSD0_def)
  finally show ?thesis
    using four_updates [of ?i "nic_regs n"] assms(2) len by (simp only: le32_def) (simp add: TSD0_def)
qed

lemma tx_kick_effect:
  assumes "nic_wf n" "k < 4" "v AND TSD_OWN = 0"
  defines "n1 \<equiv> wreg32 n (of_nat (TSD0 + k * 4)) v"
  shows "tx_pending n1 = tx_pending n @ [(reg_u32 n (TSAD0 + k * 4), ucast (v AND TSD_SIZE_MASK))] \<and>
    reg_u32 n1 (TSD0 + k * 4) = v OR TSD_OWN OR TSD_TOK \<and> reg_u16 n1 NIC_ISR = reg_u16 n NIC_ISR OR ISR_TOK \<and>
    reg_u16 n1 NIC_IMR = reg_u16 n NIC_IMR"
proof -
  define n0 where "n0 = n\<lparr>nic_regs := put (nic_regs n) (TSD0 + k * 4) (le32 v)\<rparr>"
  define regs1 where "regs1 = put (nic_regs n0) (TSD0 + k * 4) (le32 (v OR TSD_OWN OR TSD_TOK))"
  have len: "length (nic_regs n) = 256" "length (nic_regs n0) = 256" "length regs1 = 256"
    using nic_wfD(1) [OF assms(1)] assms(2) by (simp_all add: n0_def regs1_def TSD0_def)
  have idx: "(0x13 + k * 4 - 0x13) div 4 = k" by simp
  have tsd: "reg_u32 n0 (TSD0 + k * 4) = v"
    using len assms(2) by (simp add: reg_u32_def n0_def get32_put_same TSD0_def)
  have tsad: "reg_u32 n0 (TSAD0 + k * 4) = reg_u32 n (TSAD0 + k * 4)"
    using len assms(2) by (simp add: reg_u32_def n0_def get32_put_other TSD0_def TSAD0_def)
  have isr: "get16 regs1 NIC_ISR = reg_u16 n NIC_ISR" "get16 regs1 NIC_IMR = reg_u16 n NIC_IMR"
    using len assms(2) by (simp_all add: reg_u16_def regs1_def n0_def get16_put_other TSD0_def NIC_ISR_def NIC_IMR_def)
  have kick: "n1 = n0\<lparr>tx_pending := tx_pending n @ [(reg_u32 n (TSAD0 + k * 4), ucast (v AND TSD_SIZE_MASK))],
      nic_regs := put regs1 NIC_ISR (le16 (reg_u16 n NIC_ISR OR ISR_TOK))\<rparr>"
    unfolding n1_def wreg32_tsd [OF assms(1,2)] n0_def [symmetric] tx_kick_def Let_def idx tsd tsad
    using assms(3) by (simp add: set_reg_u32_def reg_u16_def regs1_def [symmetric] isr [unfolded reg_u16_def]) (simp add: n0_def)
  show ?thesis
    using len assms(2) isr
    by (simp add: kick reg_u32_def reg_u16_def get16_put_same get16_put_other get32_put_other NIC_ISR_def NIC_IMR_def TSD0_def)
       (simp add: regs1_def get32_put_same TSD0_def)
qed

text \<open>
  A transmit kick hands the driver's buffer to the host exactly once.  For each of the four
  descriptors, writing the buffer address and then a status word with OWN clear appends precisely
  that address and the 13-bit size to the transmit queue (earlier frames keep their place),
  completes the descriptor (OWN and TOK set), and raises TOK in the interrupt status, so that the
  interrupt line is asserted when TOK is unmasked; draining returns the queue and empties it.
\<close>

theorem nic_transmit:
  fixes addr :: u32
  assumes "nic_wf n" "k < 4" "size1 < 0x2000"
  defines "n1 \<equiv> wreg32 (wreg32 n (of_nat (TSAD0 + k * 4)) addr) (of_nat (TSD0 + k * 4)) size1"
  shows "fst (take_tx_frames n1) = tx_pending n @ [(addr, ucast size1)] \<and>
    \<not> has_pending_tx (snd (take_tx_frames n1)) \<and>
    reg_u32 n1 (TSD0 + k * 4) = size1 OR TSD_OWN OR TSD_TOK \<and>
    (bit (reg_u16 n NIC_IMR) 2 \<longrightarrow> nic_irq_pending n1)"
proof -
  define n0 where "n0 = wreg32 n (of_nat (TSAD0 + k * 4)) addr"
  have len: "length (nic_regs n) = 256" using assms(1) by (rule nic_wfD)
  have n0: "n0 = n\<lparr>nic_regs := put (nic_regs n) (TSAD0 + k * 4) (le32 addr)\<rparr>"
    unfolding n0_def by (rule wreg32_tsad [OF assms(1,2)])
  have wf0: "nic_wf n0" unfolding n0 using assms(1,2) len by (simp add: TSAD0_def)
  have hi: "\<not> bit size1 i" if "13 \<le> i" for i
    using assms(3) that by (intro not_bit_above [where k = 13]) (simp_all add: word_less_nat_alt)
  have own: "size1 AND TSD_OWN = 0"
    using hi [of 13] and_mask_bit [of size1 13] by (simp add: TSD_OWN_def)
  have msk: "size1 AND TSD_SIZE_MASK = size1"
  proof -
    have m: "TSD_SIZE_MASK = mask 13" by (simp add: TSD_SIZE_MASK_def mask_eq_exp_minus_1)
    have "bit size1 i \<Longrightarrow> i < 13" for i using hi [of i] by linarith
    then show ?thesis unfolding m by (intro bit_word_eqI) (auto simp: bit_simps)
  qed
  have addr: "reg_u32 n0 (TSAD0 + k * 4) = addr"
    using len assms(2) by (simp add: n0 reg_u32_def get32_put_same TSAD0_def)
  have imr: "reg_u16 n0 NIC_IMR = reg_u16 n NIC_IMR"
    using len assms(2) by (simp add: n0 reg_u16_def get16_put_other TSAD0_def NIC_IMR_def)
  note eff = tx_kick_effect [OF wf0 assms(2) own, folded n1_def [folded n0_def]]
  have "nic_irq_pending n1" if "bit (reg_u16 n NIC_IMR) 2"
  proof -
    have "bit (reg_u16 n1 NIC_ISR AND reg_u16 n1 NIC_IMR) 2"
      using eff imr that by (simp add: bit_simps ISR_TOK_def)
    then show ?thesis unfolding nic_irq_pending_def by auto
  qed
  then show ?thesis
    using eff by (simp add: take_tx_frames_def has_pending_tx_def addr msk) (simp add: n0)
qed

theorem nic_transmit_witness:
  "nic_wf nic_new \<and> (2 :: nat) < 4 \<and> (64 :: u32) < 0x2000 \<and>
   fst (take_tx_frames (wreg32 (wreg32 nic_new (of_nat (TSAD0 + 2 * 4)) 0x100000) (of_nat (TSD0 + 2 * 4)) 64))
     = [(0x100000, 64)]"
  using nic_transmit [OF nic_new_wf, of 2 64 "0x100000"]
  by (simp add: nic_new_wf) (simp add: nic_new_def with_mac_def)

end
