(* ===== verification/IoBus.thy ===== *)
theory IoBus
  imports Uart Pic Pit Keyboard Cmos Ata Pci Rtl8139
begin

text \<open>
  The I/O bus (\<^verbatim>\<open>crates/devices/src/lib.rs\<close>): it owns one instance of every device, routes port
  accesses, latches the devices' interrupt lines into the two cascaded PICs, divides the timer
  clock, buffers transmitted frames for the host, and saves and restores all devices.
\<close>

record iobus =
  bus_uart :: uart
  bus_pic :: pic
  pit_div_counter :: u32
  bus_slave_pic :: pic
  bus_pit :: pit
  bus_kbd :: keyboard
  bus_cmos :: cmos
  bus_ata :: ata
  bus_ata2 :: ata
  bus_pci :: pci
  bus_nic :: rtl8139
  nic_tx_frames :: "bytes list"
  irq_dirty :: bool
  irq_poll :: u8

definition NIC_TX_CAP :: nat where "NIC_TX_CAP = 1024"
definition PIT_TICK_DIVIDER :: u32 where "PIT_TICK_DIVIDER = 16"

definition with_uart :: "uart \<Rightarrow> iobus" where
  "with_uart u =
     \<lparr>bus_uart = u, bus_pic = pic_master, pit_div_counter = 0,
      bus_slave_pic = (pic_new 0xA0)\<lparr>vector_base := 0x70\<rparr>, bus_pit = pit_standard, bus_kbd = kbd_new,
      bus_cmos = cmos_new, bus_ata = ata_new, bus_ata2 = ata_with_port_base SECONDARY_PORT_BASE,
      bus_pci = pci_new, bus_nic = nic_new, nic_tx_frames = [], irq_dirty = True, irq_poll = 0\<rparr>"

definition bus_new :: iobus where
  "bus_new = with_uart uart_com1"

definition bus_disk :: "iobus \<Rightarrow> disk" where
  "bus_disk b = ata_disk (bus_ata b)"

definition mark_irq_dirty :: "iobus \<Rightarrow> iobus" where
  "mark_irq_dirty b = b\<lparr>irq_dirty := True\<rparr>"

section \<open>Interrupt lines\<close>

text \<open>\<^verbatim>\<open>if line { irr |= bit } else { irr &= !bit }\<close>\<close>

definition set_line :: "pic \<Rightarrow> nat \<Rightarrow> bool \<Rightarrow> pic" where
  "set_line p i line = (if line then p\<lparr>irr := irr p OR push_bit i 1\<rparr> else p\<lparr>irr := irr p AND NOT (push_bit i 1)\<rparr>)"

definition poll_device_irqs :: "iobus \<Rightarrow> iobus" where
  "poll_device_irqs b0 =
     (let b1 = b0\<lparr>irq_dirty := False\<rparr>;
          b2 = b1\<lparr>bus_pic := set_line (bus_pic b1) 4 (uart_irq_pending (bus_uart b1))\<rparr>;
          b3 = b2\<lparr>bus_pic := set_line (bus_pic b2) 1 (kbd_irq_pending (bus_kbd b2))\<rparr>;
          b4 = b3\<lparr>bus_slave_pic := set_line (bus_slave_pic b3) 4 (aux_irq_pending (bus_kbd b3))\<rparr>;
          b5 = b4\<lparr>bus_slave_pic := set_line (bus_slave_pic b4) 3 (nic_irq_pending (bus_nic b4))\<rparr>
      in b5\<lparr>bus_pic := set_line (bus_pic b5) 2 (pending_vector (bus_slave_pic b5) \<noteq> None)\<rparr>)"

definition pit_clock :: "iobus \<Rightarrow> iobus" where
  "pit_clock b =
     (let b1 = b\<lparr>pit_div_counter := pit_div_counter b + 1\<rparr> in
      if PIT_TICK_DIVIDER \<le> pit_div_counter b1 then
        let (edge, p) = take_ch0_pending (pit_tick (bus_pit b1) 1);
            b2 = b1\<lparr>pit_div_counter := 0, bus_pit := p\<rparr>
        in if edge then b2\<lparr>bus_pic := (bus_pic b2)\<lparr>irr := irr (bus_pic b2) OR push_bit 0 1\<rparr>\<rparr> else b2
      else b1)"

definition refresh_irqs :: "iobus \<Rightarrow> iobus" where
  "refresh_irqs b =
     (let b1 = pit_clock b; b2 = b1\<lparr>irq_poll := irq_poll b1 + 1\<rparr> in
      if \<not> irq_dirty b2 \<and> irq_poll b2 \<noteq> 0 then b2 else poll_device_irqs b2)"

definition pending_irq_vector :: "iobus \<Rightarrow> u8 option" where
  "pending_irq_vector b =
     (case pending_vector (bus_pic b) of
        None \<Rightarrow> None
      | Some vec \<Rightarrow>
          let master_irq = vec - vector_base (bus_pic b)
          in if master_irq = 2 then pending_vector (bus_slave_pic b) else Some vec)"

definition ack_irq :: "iobus \<Rightarrow> iobus" where
  "ack_irq b =
     (case pending_vector (bus_pic b) of
        None \<Rightarrow> b
      | Some vec \<Rightarrow>
          let master_irq = vec - vector_base (bus_pic b);
              b1 = (if master_irq = 2 then b\<lparr>bus_slave_pic := pic_ack (bus_slave_pic b)\<rparr> else b)
          in b1\<lparr>bus_pic := pic_ack (bus_pic b1), irq_dirty := True\<rparr>)"

section \<open>Transmitted frames\<close>

definition nic_has_pending_tx :: "iobus \<Rightarrow> bool" where
  "nic_has_pending_tx b = has_pending_tx (bus_nic b)"

definition take_nic_tx_descriptors :: "iobus \<Rightarrow> (u32 \<times> u16) list \<times> iobus" where
  "take_nic_tx_descriptors b = (let (ds, n) = take_tx_frames (bus_nic b) in (ds, b\<lparr>bus_nic := n\<rparr>))"

definition record_nic_tx_frame :: "iobus \<Rightarrow> bytes \<Rightarrow> iobus" where
  "record_nic_tx_frame b frame =
     (let q = (if NIC_TX_CAP \<le> length (nic_tx_frames b) then tl (nic_tx_frames b) else nic_tx_frames b)
      in b\<lparr>nic_tx_frames := q @ [frame]\<rparr>)"

definition drain_nic_tx :: "iobus \<Rightarrow> bytes list \<times> iobus" where
  "drain_nic_tx b = (nic_tx_frames b, b\<lparr>nic_tx_frames := []\<rparr>)"

definition pop_nic_tx :: "iobus \<Rightarrow> bytes option \<times> iobus" where
  "pop_nic_tx b =
     (case nic_tx_frames b of [] \<Rightarrow> (None, b) | f # fs \<Rightarrow> (Some f, b\<lparr>nic_tx_frames := fs\<rparr>))"

section \<open>Port dispatch\<close>

definition in_range :: "u16 \<Rightarrow> u16 \<times> u16 \<Rightarrow> bool" where
  "in_range port r \<longleftrightarrow> fst r \<le> port \<and> port \<le> snd r"

definition nic_window :: "iobus \<Rightarrow> u16 \<Rightarrow> bool" where
  "nic_window b port \<longleftrightarrow> nic_io_enabled (bus_pci b) \<and> nic_io_base (bus_pci b) \<le> port \<and>
     port - nic_io_base (bus_pci b) < ucast RTL8139_IO_SIZE"

definition bus_read :: "iobus \<Rightarrow> u16 \<Rightarrow> u8 \<times> iobus" where
  "bus_read b0 port =
     (let b = b0\<lparr>irq_dirty := True\<rparr> in
      if nic_window b port then (read_reg (bus_nic b) (port - nic_io_base (bus_pci b)), b)
      else if port = 0x61 then (read_port_61 (bus_pit b), b)
      else if in_range port (uart_port_range (bus_uart b)) then
        let (v, d) = uart_read (bus_uart b) port in (v, b\<lparr>bus_uart := d\<rparr>)
      else if in_range port (pic_port_range (bus_pic b)) then
        let (v, d) = pic_read (bus_pic b) port in (v, b\<lparr>bus_pic := d\<rparr>)
      else if in_range port (pit_port_range (bus_pit b)) then
        let (v, d) = pit_read (bus_pit b) port in (v, b\<lparr>bus_pit := d\<rparr>)
      else if in_range port (kbd_port_range (bus_kbd b)) then
        let (v, d) = kbd_read (bus_kbd b) port in (v, b\<lparr>bus_kbd := d\<rparr>)
      else if in_range port (cmos_port_range (bus_cmos b)) then
        let (v, d) = cmos_read (bus_cmos b) port in (v, b\<lparr>bus_cmos := d\<rparr>)
      else if in_range port (pic_port_range (bus_slave_pic b)) then
        let (v, d) = pic_read (bus_slave_pic b) port in (v, b\<lparr>bus_slave_pic := d\<rparr>)
      else if in_range port (ata_port_range (bus_ata b)) then
        let (v, d) = ata_read (bus_ata b) port in (v, b\<lparr>bus_ata := d\<rparr>)
      else if in_range port (ata_port_range (bus_ata2 b)) then
        let (v, d) = ata_read (bus_ata2 b) port in (v, b\<lparr>bus_ata2 := d\<rparr>)
      else if port = control_port (bus_ata b) then (read_alt_status (bus_ata b), b)
      else if port = control_port (bus_ata2 b) then (read_alt_status (bus_ata2 b), b)
      else if in_range port (pci_port_range (bus_pci b)) then
        let (v, d) = pci_read (bus_pci b) port in (v, b\<lparr>bus_pci := d\<rparr>)
      else (0xFF, b))"

definition bus_write :: "iobus \<Rightarrow> u16 \<Rightarrow> u8 \<Rightarrow> iobus" where
  "bus_write b0 port value =
     (let b = b0\<lparr>irq_dirty := True\<rparr> in
      if nic_window b port then b\<lparr>bus_nic := write_reg (bus_nic b) (port - nic_io_base (bus_pci b)) value\<rparr>
      else if port = 0x61 then b\<lparr>bus_pit := write_port_61 (bus_pit b) value\<rparr>
      else if in_range port (uart_port_range (bus_uart b)) then b\<lparr>bus_uart := uart_write (bus_uart b) port value\<rparr>
      else if in_range port (pic_port_range (bus_pic b)) then b\<lparr>bus_pic := pic_write (bus_pic b) port value\<rparr>
      else if in_range port (pit_port_range (bus_pit b)) then b\<lparr>bus_pit := pit_write (bus_pit b) port value\<rparr>
      else if in_range port (kbd_port_range (bus_kbd b)) then b\<lparr>bus_kbd := kbd_write (bus_kbd b) port value\<rparr>
      else if in_range port (cmos_port_range (bus_cmos b)) then b\<lparr>bus_cmos := cmos_write (bus_cmos b) port value\<rparr>
      else if in_range port (pic_port_range (bus_slave_pic b)) then
        b\<lparr>bus_slave_pic := pic_write (bus_slave_pic b) port value\<rparr>
      else if in_range port (ata_port_range (bus_ata b)) then b\<lparr>bus_ata := ata_write (bus_ata b) port value\<rparr>
      else if in_range port (ata_port_range (bus_ata2 b)) then b\<lparr>bus_ata2 := ata_write (bus_ata2 b) port value\<rparr>
      else if port = control_port (bus_ata b) then b\<lparr>bus_ata := write_device_control (bus_ata b) value\<rparr>
      else if port = control_port (bus_ata2 b) then b\<lparr>bus_ata2 := write_device_control (bus_ata2 b) value\<rparr>
      else if in_range port (pci_port_range (bus_pci b)) then b\<lparr>bus_pci := pci_write (bus_pci b) port value\<rparr>
      else b)"

section \<open>Snapshots\<close>

definition DEV_UART :: u8 where "DEV_UART = 1"
definition DEV_PIC_MASTER :: u8 where "DEV_PIC_MASTER = 2"
definition DEV_PIC_SLAVE :: u8 where "DEV_PIC_SLAVE = 3"
definition DEV_PIT :: u8 where "DEV_PIT = 4"
definition DEV_KBD :: u8 where "DEV_KBD = 5"
definition DEV_CMOS :: u8 where "DEV_CMOS = 6"
definition DEV_ATA_PRIMARY :: u8 where "DEV_ATA_PRIMARY = 7"
definition DEV_ATA_SECONDARY :: u8 where "DEV_ATA_SECONDARY = 8"
definition DEV_PCI :: u8 where "DEV_PCI = 9"
definition DEV_RTL8139 :: u8 where "DEV_RTL8139 = 10"

lemmas dev_ids = DEV_UART_def DEV_PIC_MASTER_def DEV_PIC_SLAVE_def DEV_PIT_def DEV_KBD_def DEV_CMOS_def
  DEV_ATA_PRIMARY_def DEV_ATA_SECONDARY_def DEV_PCI_def DEV_RTL8139_def

definition emit :: "u8 \<Rightarrow> bytes \<Rightarrow> bytes" where
  "emit did payload = le32 (1 + of_nat (length payload)) @ [did] @ payload"

definition bus_snapshot :: "iobus \<Rightarrow> bytes" where
  "bus_snapshot b =
     [10] @ emit DEV_UART (uart_snapshot (bus_uart b)) @ emit DEV_PIC_MASTER (pic_snapshot (bus_pic b))
     @ emit DEV_PIC_SLAVE (pic_snapshot (bus_slave_pic b)) @ emit DEV_PIT (pit_snapshot (bus_pit b))
     @ emit DEV_KBD (kbd_snapshot (bus_kbd b)) @ emit DEV_CMOS (cmos_snapshot (bus_cmos b))
     @ emit DEV_ATA_PRIMARY (ata_snapshot (bus_ata b)) @ emit DEV_ATA_SECONDARY (ata_snapshot (bus_ata2 b))
     @ emit DEV_PCI (pci_snapshot (bus_pci b)) @ emit DEV_RTL8139 (nic_snapshot (bus_nic b))"

text \<open>The match of \<^verbatim>\<open>restore\<close> on the device id; an unknown id consumes its whole payload.\<close>

definition restore_device :: "iobus \<Rightarrow> u8 \<Rightarrow> bytes \<Rightarrow> iobus \<times> nat result" where
  "restore_device b did payload =
     (if did = DEV_UART then let (d, r) = uart_restore (bus_uart b) payload in (b\<lparr>bus_uart := d\<rparr>, r)
      else if did = DEV_PIC_MASTER then let (d, r) = pic_restore (bus_pic b) payload in (b\<lparr>bus_pic := d\<rparr>, r)
      else if did = DEV_PIC_SLAVE then let (d, r) = pic_restore (bus_slave_pic b) payload in (b\<lparr>bus_slave_pic := d\<rparr>, r)
      else if did = DEV_PIT then let (d, r) = pit_restore (bus_pit b) payload in (b\<lparr>bus_pit := d\<rparr>, r)
      else if did = DEV_KBD then let (d, r) = kbd_restore (bus_kbd b) payload in (b\<lparr>bus_kbd := d\<rparr>, r)
      else if did = DEV_CMOS then let (d, r) = cmos_restore (bus_cmos b) payload in (b\<lparr>bus_cmos := d\<rparr>, r)
      else if did = DEV_ATA_PRIMARY then let (d, r) = ata_restore (bus_ata b) payload in (b\<lparr>bus_ata := d\<rparr>, r)
      else if did = DEV_ATA_SECONDARY then let (d, r) = ata_restore (bus_ata2 b) payload in (b\<lparr>bus_ata2 := d\<rparr>, r)
      else if did = DEV_PCI then let (d, r) = pci_restore (bus_pci b) payload in (b\<lparr>bus_pci := d\<rparr>, r)
      else if did = DEV_RTL8139 then let (d, r) = nic_restore (bus_nic b) payload in (b\<lparr>bus_nic := d\<rparr>, r)
      else (b, Inr (length payload)))"

fun restore_records :: "nat \<Rightarrow> bytes \<Rightarrow> nat \<Rightarrow> iobus \<Rightarrow> iobus \<times> unit result" where
  "restore_records 0 bs p b = (b, Inr ())"
| "restore_records (Suc n) bs p b =
     (if length bs < p + 4 then (b, Inl ''iobus: truncated record header'')
      else
        let len = unat (get32 bs p); p1 = p + 4
        in if length bs < p1 + len \<or> len < 1 then (b, Inl ''iobus: truncated record body'')
           else
             case restore_device b (bs ! p1) (take (len - 1) (drop (p1 + 1) bs)) of
               (b1, Inl e) \<Rightarrow> (b1, Inl e)
             | (b1, Inr _) \<Rightarrow> restore_records n bs (p1 + len) b1)"

definition bus_restore :: "iobus \<Rightarrow> bytes \<Rightarrow> iobus \<times> unit result" where
  "bus_restore b bs =
     (if bs = [] then (b, Inl ''iobus: empty'') else restore_records (unat (bs ! 0)) bs 1 b)"

section \<open>The bus invariant\<close>

text \<open>
  What holds of each device on every bus the program can reach: its standard ports, the array
  lengths its Rust type guarantees, and its own invariant.  The cursor of a disk controller is not
  constrained: a restored image may hold any, and the code checks it before every use.
\<close>

definition uart_ok :: "uart \<Rightarrow> bool" where "uart_ok u \<longleftrightarrow> uart_base u = 0x3F8"
definition pic_ok :: "u16 \<Rightarrow> pic \<Rightarrow> bool" where "pic_ok base p \<longleftrightarrow> pic_base_port p = base"
definition pit_ok :: "pit \<Rightarrow> bool" where "pit_ok p \<longleftrightarrow> pit_base_port p = 0x40 \<and> pit_wf p"
definition kbd_ok :: "keyboard \<Rightarrow> bool" where
  "kbd_ok k \<longleftrightarrow> kbd_data_port k = 0x60 \<and> kbd_status_port k = 0x64 \<and> kbd_wf k"
definition cmos_ok :: "cmos \<Rightarrow> bool" where "cmos_ok c \<longleftrightarrow> index_port c = 0x70 \<and> data_port c = 0x71 \<and> cmos_wf c"
definition ata_ok :: "u16 \<Rightarrow> ata \<Rightarrow> bool" where "ata_ok base a \<longleftrightarrow> port_base a = base"

definition bus_wf :: "iobus \<Rightarrow> bool" where
  "bus_wf b \<longleftrightarrow> uart_ok (bus_uart b) \<and> pic_ok 0x20 (bus_pic b) \<and> pic_ok 0xA0 (bus_slave_pic b) \<and>
     pit_ok (bus_pit b) \<and> kbd_ok (bus_kbd b) \<and> cmos_ok (bus_cmos b) \<and> ata_ok 0x1F0 (bus_ata b) \<and>
     ata_ok 0x170 (bus_ata2 b) \<and> nic_wf (bus_nic b) \<and> pit_div_counter b < PIT_TICK_DIVIDER \<and>
     length (nic_tx_frames b) \<le> NIC_TX_CAP"

named_theorems dev_ok

lemma uart_ok_ops [dev_ok]:
  "uart_ok u \<Longrightarrow> uart_ok (snd (uart_read u p))" "uart_ok u \<Longrightarrow> uart_ok (uart_write u p v)"
  "uart_ok u \<Longrightarrow> uart_ok (fst (uart_restore u bs))" "uart_ok u \<Longrightarrow> uart_ok (uart_push_rx u bs)"
  "uart_ok u \<Longrightarrow> uart_ok (snd (uart_drain_tx u))"
  by (simp_all add: uart_ok_def uart_read_rx uart_write_tx uart_restore_def Let_def uart_push_rx_def uart_drain_tx_def)

lemma pic_ok_ops [dev_ok]:
  "pic_ok base p \<Longrightarrow> pic_ok base (snd (pic_read p port))" "pic_ok base p \<Longrightarrow> pic_ok base (pic_write p port v)"
  "pic_ok base p \<Longrightarrow> pic_ok base (fst (pic_restore p bs))" "pic_ok base p \<Longrightarrow> pic_ok base (pic_ack p)"
  "pic_ok base p \<Longrightarrow> pic_ok base (set_line p i l)" "pic_ok base p \<Longrightarrow> pic_ok base (p\<lparr>irr := w\<rparr>)"
  using pic_dev.range_rd [of p port] pic_dev.range_wr [of p port v]
  by (simp_all add: pic_ok_def pic_port_range_def pic_restore_def pic_ack_def set_line_def Let_def)

lemma pit_ok_ops [dev_ok]:
  assumes "pit_ok p"
  shows "pit_ok (snd (pit_read p port))" "pit_ok (pit_write p port v)" "pit_ok (fst (pit_restore p bs))"
    "pit_ok (write_port_61 p v)" "pit_ok (snd (take_ch0_pending p))" "pit_ok (pit_tick p n)"
proof -
  have "snd (pit_read p port) = p \<or> pit_base_port (snd (pit_read p port)) = pit_base_port p"
    "pit_base_port (pit_write p port v) = pit_base_port p"
    using pit_dev.range_rd [of p port] pit_dev.range_wr [of p port v] by (auto simp: pit_port_range_def)
  then show "pit_ok (snd (pit_read p port))" "pit_ok (pit_write p port v)"
    using assms pit_dev.invar_rd [of p port] pit_dev.invar_wr [of p port v] by (auto simp: pit_ok_def)
  have bit1: "x AND 1 = 0 \<or> x AND 1 = (1 :: u8)" for x by (simp add: and_one_eq mod_2_eq_odd)
  show "pit_ok (fst (pit_restore p bs))"
    using assms bit1 by (simp add: pit_ok_def pit_restore_def Let_def pit_wf_def)
  show "pit_ok (write_port_61 p v)" "pit_ok (snd (take_ch0_pending p))" "pit_ok (pit_tick p n)"
    using assms
    by (simp_all add: pit_ok_def pit_wf_def write_port_61_def take_ch0_pending_def pit_tick_def Let_def split: prod.split)
qed

lemma kbd_ok_ops [dev_ok]:
  assumes "kbd_ok k"
  shows "kbd_ok (snd (kbd_read k port))" "kbd_ok (kbd_write k port v)" "kbd_ok (fst (kbd_restore k bs))"
    "kbd_ok (push_scancode k c)" "kbd_ok (push_mouse_packet k dx dy l r m)" "kbd_ok (snd (pop_scancode k))"
  using assms kbd_dev.range_rd [of k port] kbd_dev.range_wr [of k port v] kbd_dev.invar_rd [of k port]
    kbd_dev.invar_wr [of k port v]
  by (simp_all add: kbd_ok_def kbd_port_range_def kbd_restore_def Let_def push_scancode_def push_mouse_packet_def
      pop_scancode_def split: list.split)

lemma cmos_ok_ops [dev_ok]:
  assumes "cmos_ok c"
  shows "cmos_ok (snd (cmos_read c port))" "cmos_ok (cmos_write c port v)" "cmos_ok (fst (cmos_restore c bs))"
    "cmos_ok (cmos_set_time c y mo d h mi s)" "cmos_ok (set_storage_byte c i v)"
  using assms cmos_dev.range_rd [of c port] cmos_dev.range_wr [of c port v] cmos_dev.invar_rd [of c port]
    cmos_dev.invar_wr [of c port v] and_7F_less [of "bs ! 0"]
  by (simp_all add: cmos_ok_def cmos_port_range_def cmos_restore_def cmos_wf_def cmos_set_time_def set_storage_byte_def)

lemma ata_ok_ops [dev_ok]:
  assumes "ata_ok base a"
  shows "ata_ok base (snd (ata_read a port))" "ata_ok base (ata_write a port v)" "ata_ok base (fst (ata_restore a bs))"
    "ata_ok base (write_device_control a v)" "ata_ok base (a\<lparr>ata_disk := d\<rparr>)"
  using assms ata_dev.range_rd [of a port] ata_dev.range_wr [of a port v]
  by (simp_all add: ata_ok_def ata_port_range_def ata_restore_def Let_def write_device_control_def)

lemma nic_ok_ops [dev_ok]:
  assumes "nic_wf n"
  shows "nic_wf (write_reg n off v)" "nic_wf (snd (accept_rx n f))" "nic_wf (fst (nic_restore n bs))"
    "nic_wf (snd (take_tx_frames n))"
  using assms write_reg_wf accept_rx_wf
  by (simp_all add: nic_restore_def Let_def take_tx_frames_def) (simp_all add: nic_wf_def)

lemma bus_wf_simps [simp]:
  "bus_wf (b\<lparr>irq_dirty := d\<rparr>) = bus_wf b" "bus_wf (b\<lparr>irq_poll := w\<rparr>) = bus_wf b"
  "bus_wf (b\<lparr>bus_pci := q\<rparr>) = bus_wf b"
  by (simp_all add: bus_wf_def)

lemma bus_wf_device:
  assumes "bus_wf b"
  shows "uart_ok u \<Longrightarrow> bus_wf (b\<lparr>bus_uart := u\<rparr>)" "pic_ok 0x20 p \<Longrightarrow> bus_wf (b\<lparr>bus_pic := p\<rparr>)"
    "pic_ok 0xA0 p \<Longrightarrow> bus_wf (b\<lparr>bus_slave_pic := p\<rparr>)" "pit_ok t \<Longrightarrow> bus_wf (b\<lparr>bus_pit := t\<rparr>)"
    "kbd_ok k \<Longrightarrow> bus_wf (b\<lparr>bus_kbd := k\<rparr>)" "cmos_ok c \<Longrightarrow> bus_wf (b\<lparr>bus_cmos := c\<rparr>)"
    "ata_ok 0x1F0 a \<Longrightarrow> bus_wf (b\<lparr>bus_ata := a\<rparr>)" "ata_ok 0x170 a \<Longrightarrow> bus_wf (b\<lparr>bus_ata2 := a\<rparr>)"
    "nic_wf n \<Longrightarrow> bus_wf (b\<lparr>bus_nic := n\<rparr>)" "length fs \<le> NIC_TX_CAP \<Longrightarrow> bus_wf (b\<lparr>nic_tx_frames := fs\<rparr>)"
    "w < PIT_TICK_DIVIDER \<Longrightarrow> bus_wf (b\<lparr>pit_div_counter := w\<rparr>)"
  using assms by (simp_all add: bus_wf_def)

lemma bus_wfD:
  assumes "bus_wf b"
  shows "uart_ok (bus_uart b)" "pic_ok 0x20 (bus_pic b)" "pic_ok 0xA0 (bus_slave_pic b)" "pit_ok (bus_pit b)"
    "kbd_ok (bus_kbd b)" "cmos_ok (bus_cmos b)" "ata_ok 0x1F0 (bus_ata b)" "ata_ok 0x170 (bus_ata2 b)"
    "nic_wf (bus_nic b)" "pit_div_counter b < PIT_TICK_DIVIDER" "length (nic_tx_frames b) \<le> NIC_TX_CAP"
  using assms by (simp_all add: bus_wf_def)

lemma bus_new_wf: "bus_wf bus_new"
  using kbd_new_wf cmos_new_wf nic_new_wf
  by (simp add: bus_wf_def bus_new_def with_uart_def uart_ok_def pic_ok_def pit_ok_def kbd_ok_def cmos_ok_def ata_ok_def
      uart_com1_def uart_new_def COM1_BASE_def pic_master_def pic_new_def MASTER_BASE_def pit_standard_def pit_new_def
      PIT_BASE_def pit_wf_def kbd_new_def cmos_new_def ata_new_def ata_with_port_base_def PRIMARY_PORT_BASE_def
      SECONDARY_PORT_BASE_def PIT_TICK_DIVIDER_def)

lemma bus_read_wf: "bus_wf b \<Longrightarrow> bus_wf (snd (bus_read b p))"
  unfolding bus_read_def Let_def
  by (simp add: case_prod_unfold bus_wf_device dev_ok bus_wfD)

lemma bus_write_wf: "bus_wf b \<Longrightarrow> bus_wf (bus_write b p v)"
  unfolding bus_write_def Let_def
  by (simp add: bus_wf_device dev_ok bus_wfD)

lemma restore_device_wf: "bus_wf b \<Longrightarrow> bus_wf (fst (restore_device b did bs))"
  unfolding restore_device_def
  by (simp add: case_prod_unfold Let_def bus_wf_device dev_ok bus_wfD)

lemma restore_records_wf: "bus_wf b \<Longrightarrow> bus_wf (fst (restore_records n bs p b))"
proof (induction n bs p b rule: restore_records.induct)
  case (2 n bs p b)
  let ?r = "restore_device b (bs ! (p + 4)) (take (unat (get32 bs p) - 1) (drop (p + 4 + 1) bs))"
  have wf: "bus_wf (fst ?r)" using "2.prems" by (rule restore_device_wf)
  show ?case
  proof (cases "length bs < p + 4 \<or> length bs < p + 4 + unat (get32 bs p) \<or> unat (get32 bs p) < 1")
    case True
    then show ?thesis using "2.prems" by (auto simp: Let_def)
  next
    case False
    obtain b1 r where r: "?r = (b1, r)" by (cases ?r)
    then show ?thesis
      using False wf "2.IH" [OF _ refl refl _ r [symmetric]] by (cases r) (auto simp: Let_def)
  qed
qed simp

lemma bus_restore_wf: "bus_wf b \<Longrightarrow> bus_wf (fst (bus_restore b bs))"
  by (simp add: bus_restore_def restore_records_wf)

lemma poll_device_irqs_wf: "bus_wf b \<Longrightarrow> bus_wf (poll_device_irqs b)"
  unfolding poll_device_irqs_def Let_def by (simp add: bus_wf_device dev_ok bus_wfD)

lemma pit_clock_wf: "bus_wf b \<Longrightarrow> bus_wf (pit_clock b)"
proof -
  assume wf: "bus_wf b"
  have "pit_ok (snd (take_ch0_pending (pit_tick (bus_pit b) 1)))" using bus_wfD(4) [OF wf] by (intro dev_ok)
  then show ?thesis
    using wf bus_wfD(2) [OF wf]
    by (auto simp: pit_clock_def Let_def case_prod_unfold not_le bus_wf_device PIT_TICK_DIVIDER_def
        intro!: bus_wf_device(2) dev_ok bus_wf_device(4) bus_wf_device(11))
qed

lemma refresh_irqs_wf: "bus_wf b \<Longrightarrow> bus_wf (refresh_irqs b)"
  by (simp add: refresh_irqs_def Let_def pit_clock_wf poll_device_irqs_wf)

lemma ack_irq_wf: "bus_wf b \<Longrightarrow> bus_wf (ack_irq b)"
  unfolding ack_irq_def Let_def by (simp add: bus_wf_device dev_ok bus_wfD split: option.split)

lemma record_nic_tx_frame_wf: "bus_wf b \<Longrightarrow> bus_wf (record_nic_tx_frame b f)"
  using bus_wfD(11) [of b] by (auto simp: record_nic_tx_frame_def Let_def NIC_TX_CAP_def intro!: bus_wf_device(10))

text \<open>
  The buses the program can reach: guest port accesses, CPU steps and interrupt acknowledgements,
  the host's entry points to the devices, and the restoring of any byte string.
\<close>

inductive bus_reachable :: "iobus \<Rightarrow> bool" where
  br_init: "bus_reachable bus_new"
| br_read: "bus_reachable b \<Longrightarrow> bus_reachable (snd (bus_read b p))"
| br_write: "bus_reachable b \<Longrightarrow> bus_reachable (bus_write b p v)"
| br_refresh: "bus_reachable b \<Longrightarrow> bus_reachable (refresh_irqs b)"
| br_ack: "bus_reachable b \<Longrightarrow> bus_reachable (ack_irq b)"
| br_dirty: "bus_reachable b \<Longrightarrow> bus_reachable (mark_irq_dirty b)"
| br_restore: "bus_reachable b \<Longrightarrow> bus_reachable (fst (bus_restore b bs))"
| br_take_tx: "bus_reachable b \<Longrightarrow> bus_reachable (snd (take_nic_tx_descriptors b))"
| br_record: "bus_reachable b \<Longrightarrow> bus_reachable (record_nic_tx_frame b f)"
| br_drain: "bus_reachable b \<Longrightarrow> bus_reachable (snd (drain_nic_tx b))"
| br_pop: "bus_reachable b \<Longrightarrow> bus_reachable (snd (pop_nic_tx b))"
| br_uart_rx: "bus_reachable b \<Longrightarrow> bus_reachable (b\<lparr>bus_uart := uart_push_rx (bus_uart b) bs\<rparr>)"
| br_uart_tx: "bus_reachable b \<Longrightarrow> bus_reachable (b\<lparr>bus_uart := snd (uart_drain_tx (bus_uart b))\<rparr>)"
| br_key: "bus_reachable b \<Longrightarrow> bus_reachable (b\<lparr>bus_kbd := push_scancode (bus_kbd b) c\<rparr>)"
| br_mouse: "bus_reachable b \<Longrightarrow> bus_reachable (b\<lparr>bus_kbd := push_mouse_packet (bus_kbd b) dx dy l r m\<rparr>)"
| br_key_pop: "bus_reachable b \<Longrightarrow> bus_reachable (b\<lparr>bus_kbd := snd (pop_scancode (bus_kbd b))\<rparr>)"
| br_time: "bus_reachable b \<Longrightarrow> bus_reachable (b\<lparr>bus_cmos := cmos_set_time (bus_cmos b) y mo d h mi sec\<rparr>)"
| br_cmos: "bus_reachable b \<Longrightarrow> bus_reachable (b\<lparr>bus_cmos := set_storage_byte (bus_cmos b) i v\<rparr>)"
| br_disk: "bus_reachable b \<Longrightarrow> bus_reachable (b\<lparr>bus_ata := (bus_ata b)\<lparr>ata_disk := disk_load (ata_disk (bus_ata b)) bs\<rparr>\<rparr>)"
| br_disk2: "bus_reachable b \<Longrightarrow> bus_reachable (b\<lparr>bus_ata2 := (bus_ata2 b)\<lparr>ata_disk := disk_load (ata_disk (bus_ata2 b)) bs\<rparr>\<rparr>)"
| br_rx: "bus_reachable b \<Longrightarrow> bus_reachable (b\<lparr>bus_nic := snd (accept_rx (bus_nic b) f)\<rparr>)"
| br_mac: "bus_reachable b \<Longrightarrow> length mac = 6 \<Longrightarrow> bus_reachable (b\<lparr>bus_nic := set_mac (bus_nic b) mac\<rparr>)"

text \<open>
  Every reachable bus is well formed, whatever the guest writes, the host injects or a snapshot
  contains: the CMOS index stays below 128 with its 128 bytes, the network card keeps 256 register
  bytes and 64 EEPROM words, so no array access of the device code is out of range; every device
  keeps its standard ports; the 8042's enable flags agree with its configuration byte; the timer
  prescaler stays below its divider; and at most 1024 transmitted frames are buffered.
\<close>

theorem bus_reachable_wf:
  assumes "bus_reachable b"
  shows "bus_wf b"
  using assms
proof (induction rule: bus_reachable.induct)
  case (br_pop b)
  then show ?case
    using bus_wfD(11) [of b] by (auto simp: pop_nic_tx_def intro!: bus_wf_device(10) split: list.split)
qed (simp_all add: bus_new_wf bus_read_wf bus_write_wf refresh_irqs_wf ack_irq_wf mark_irq_dirty_def bus_restore_wf
    record_nic_tx_frame_wf take_nic_tx_descriptors_def drain_nic_tx_def case_prod_unfold Let_def bus_wf_device dev_ok bus_wfD
    set_mac_wf)

theorem bus_reachable_wf_witness:
  "bus_reachable (bus_write (fst (bus_restore bus_new [1, 2, 3])) 0x70 0xFF) \<and>
   bus_wf (bus_write (fst (bus_restore bus_new [1, 2, 3])) 0x70 0xFF)"
proof -
  have r: "bus_reachable (bus_write (fst (bus_restore bus_new [1, 2, 3])) 0x70 0xFF)"
    by (intro bus_reachable.intros)
  show ?thesis using bus_reachable_wf [OF r] r by simp
qed

section \<open>Routing\<close>

text \<open>Who answers a port on a well-formed bus when the network card's window does not cover it.\<close>

datatype owner = Nobody | TheUart | ThePic | TheSlave | ThePit | Port61 | TheKbd | TheCmos | TheAta | TheAta2
  | Ctrl | Ctrl2 | ThePci

definition port_owner :: "u16 \<Rightarrow> owner" where
  "port_owner p =
     (let n = unat p in
      if 0x20 \<le> n \<and> n \<le> 0x21 then ThePic else if 0xA0 \<le> n \<and> n \<le> 0xA1 then TheSlave
      else if 0x40 \<le> n \<and> n \<le> 0x43 then ThePit else if n = 0x61 then Port61
      else if 0x60 \<le> n \<and> n \<le> 0x64 then TheKbd else if 0x70 \<le> n \<and> n \<le> 0x71 then TheCmos
      else if 0x170 \<le> n \<and> n \<le> 0x177 then TheAta2 else if 0x1F0 \<le> n \<and> n \<le> 0x1F7 then TheAta
      else if n = 0x376 then Ctrl2 else if n = 0x3F6 then Ctrl
      else if 0x3F8 \<le> n \<and> n \<le> 0x3FF then TheUart else if 0xCF8 \<le> n \<and> n \<le> 0xCFF then ThePci else Nobody)"

lemma bus_ranges:
  assumes "bus_wf b"
  shows "in_range p (uart_port_range (bus_uart b)) \<longleftrightarrow> 0x3F8 \<le> unat p \<and> unat p \<le> 0x3FF"
    "in_range p (pic_port_range (bus_pic b)) \<longleftrightarrow> 0x20 \<le> unat p \<and> unat p \<le> 0x21"
    "in_range p (pic_port_range (bus_slave_pic b)) \<longleftrightarrow> 0xA0 \<le> unat p \<and> unat p \<le> 0xA1"
    "in_range p (pit_port_range (bus_pit b)) \<longleftrightarrow> 0x40 \<le> unat p \<and> unat p \<le> 0x43"
    "in_range p (kbd_port_range (bus_kbd b)) \<longleftrightarrow> 0x60 \<le> unat p \<and> unat p \<le> 0x64"
    "in_range p (cmos_port_range (bus_cmos b)) \<longleftrightarrow> 0x70 \<le> unat p \<and> unat p \<le> 0x71"
    "in_range p (ata_port_range (bus_ata b)) \<longleftrightarrow> 0x1F0 \<le> unat p \<and> unat p \<le> 0x1F7"
    "in_range p (ata_port_range (bus_ata2 b)) \<longleftrightarrow> 0x170 \<le> unat p \<and> unat p \<le> 0x177"
    "in_range p (pci_port_range (bus_pci b)) \<longleftrightarrow> 0xCF8 \<le> unat p \<and> unat p \<le> 0xCFF"
    "p = control_port (bus_ata b) \<longleftrightarrow> unat p = 0x3F6" "p = control_port (bus_ata2 b) \<longleftrightarrow> unat p = 0x376"
    "p = 0x61 \<longleftrightarrow> unat p = 0x61"
proof -
  have ports: "uart_base (bus_uart b) = 0x3F8" "pic_base_port (bus_pic b) = 0x20" "pic_base_port (bus_slave_pic b) = 0xA0"
    "pit_base_port (bus_pit b) = 0x40" "kbd_data_port (bus_kbd b) = 0x60" "kbd_status_port (bus_kbd b) = 0x64"
    "index_port (bus_cmos b) = 0x70" "data_port (bus_cmos b) = 0x71" "port_base (bus_ata b) = 0x1F0" "port_base (bus_ata2 b) = 0x170"
    using assms by (simp_all add: bus_wf_def uart_ok_def pic_ok_def pit_ok_def kbd_ok_def cmos_ok_def ata_ok_def)
  note defs = in_range_def uart_port_range_def pic_port_range_def pit_port_range_def kbd_port_range_def
    cmos_port_range_def ata_port_range_def pci_port_range_def PORT_ADDR_LO_def PORT_LAST_def control_port_def
    CONTROL_OFFSET_def
  show "in_range p (uart_port_range (bus_uart b)) \<longleftrightarrow> 0x3F8 \<le> unat p \<and> unat p \<le> 0x3FF"
    "in_range p (pic_port_range (bus_pic b)) \<longleftrightarrow> 0x20 \<le> unat p \<and> unat p \<le> 0x21"
    "in_range p (pic_port_range (bus_slave_pic b)) \<longleftrightarrow> 0xA0 \<le> unat p \<and> unat p \<le> 0xA1"
    "in_range p (pit_port_range (bus_pit b)) \<longleftrightarrow> 0x40 \<le> unat p \<and> unat p \<le> 0x43"
    "in_range p (kbd_port_range (bus_kbd b)) \<longleftrightarrow> 0x60 \<le> unat p \<and> unat p \<le> 0x64"
    "in_range p (cmos_port_range (bus_cmos b)) \<longleftrightarrow> 0x70 \<le> unat p \<and> unat p \<le> 0x71"
    "in_range p (ata_port_range (bus_ata b)) \<longleftrightarrow> 0x1F0 \<le> unat p \<and> unat p \<le> 0x1F7"
    "in_range p (ata_port_range (bus_ata2 b)) \<longleftrightarrow> 0x170 \<le> unat p \<and> unat p \<le> 0x177"
    "in_range p (pci_port_range (bus_pci b)) \<longleftrightarrow> 0xCF8 \<le> unat p \<and> unat p \<le> 0xCFF"
    "p = control_port (bus_ata b) \<longleftrightarrow> unat p = 0x3F6" "p = control_port (bus_ata2 b) \<longleftrightarrow> unat p = 0x376"
    "p = 0x61 \<longleftrightarrow> unat p = 0x61"
    unfolding defs ports by (simp_all add: word_le_nat_alt word_unat_eq_iff)
qed

text \<open>The routing table as the specification: which device an access reaches and what it leaves alone.\<close>

definition routed_read :: "iobus \<Rightarrow> u16 \<Rightarrow> u8 \<times> iobus" where
  "routed_read b p =
     (case port_owner p of
        TheUart \<Rightarrow> let (v, d) = uart_read (bus_uart b) p in (v, b\<lparr>bus_uart := d\<rparr>)
      | ThePic \<Rightarrow> let (v, d) = pic_read (bus_pic b) p in (v, b\<lparr>bus_pic := d\<rparr>)
      | TheSlave \<Rightarrow> let (v, d) = pic_read (bus_slave_pic b) p in (v, b\<lparr>bus_slave_pic := d\<rparr>)
      | ThePit \<Rightarrow> let (v, d) = pit_read (bus_pit b) p in (v, b\<lparr>bus_pit := d\<rparr>)
      | Port61 \<Rightarrow> (read_port_61 (bus_pit b), b)
      | TheKbd \<Rightarrow> let (v, d) = kbd_read (bus_kbd b) p in (v, b\<lparr>bus_kbd := d\<rparr>)
      | TheCmos \<Rightarrow> let (v, d) = cmos_read (bus_cmos b) p in (v, b\<lparr>bus_cmos := d\<rparr>)
      | TheAta \<Rightarrow> let (v, d) = ata_read (bus_ata b) p in (v, b\<lparr>bus_ata := d\<rparr>)
      | TheAta2 \<Rightarrow> let (v, d) = ata_read (bus_ata2 b) p in (v, b\<lparr>bus_ata2 := d\<rparr>)
      | Ctrl \<Rightarrow> (ata_status (bus_ata b), b)
      | Ctrl2 \<Rightarrow> (ata_status (bus_ata2 b), b)
      | ThePci \<Rightarrow> let (v, d) = pci_read (bus_pci b) p in (v, b\<lparr>bus_pci := d\<rparr>)
      | Nobody \<Rightarrow> (0xFF, b))"

definition routed_write :: "iobus \<Rightarrow> u16 \<Rightarrow> u8 \<Rightarrow> iobus" where
  "routed_write b p v =
     (case port_owner p of
        TheUart \<Rightarrow> b\<lparr>bus_uart := uart_write (bus_uart b) p v\<rparr>
      | ThePic \<Rightarrow> b\<lparr>bus_pic := pic_write (bus_pic b) p v\<rparr>
      | TheSlave \<Rightarrow> b\<lparr>bus_slave_pic := pic_write (bus_slave_pic b) p v\<rparr>
      | ThePit \<Rightarrow> b\<lparr>bus_pit := pit_write (bus_pit b) p v\<rparr>
      | Port61 \<Rightarrow> b\<lparr>bus_pit := write_port_61 (bus_pit b) v\<rparr>
      | TheKbd \<Rightarrow> b\<lparr>bus_kbd := kbd_write (bus_kbd b) p v\<rparr>
      | TheCmos \<Rightarrow> b\<lparr>bus_cmos := cmos_write (bus_cmos b) p v\<rparr>
      | TheAta \<Rightarrow> b\<lparr>bus_ata := ata_write (bus_ata b) p v\<rparr>
      | TheAta2 \<Rightarrow> b\<lparr>bus_ata2 := ata_write (bus_ata2 b) p v\<rparr>
      | ThePci \<Rightarrow> b\<lparr>bus_pci := pci_write (bus_pci b) p v\<rparr>
      | _ \<Rightarrow> b)"

lemma port_classes:
  fixes n :: nat
  obtains "0x20 \<le> n" "n \<le> 0x21" | "0xA0 \<le> n" "n \<le> 0xA1" | "0x40 \<le> n" "n \<le> 0x43" | "n = 0x61"
    | "0x60 \<le> n" "n \<le> 0x64" "n \<noteq> 0x61" | "0x70 \<le> n" "n \<le> 0x71" | "0x170 \<le> n" "n \<le> 0x177"
    | "0x1F0 \<le> n" "n \<le> 0x1F7" | "n = 0x376" | "n = 0x3F6" | "0x3F8 \<le> n" "n \<le> 0x3FF" | "0xCF8 \<le> n" "n \<le> 0xCFF"
    | "\<not> (0x20 \<le> n \<and> n \<le> 0x21)" "\<not> (0xA0 \<le> n \<and> n \<le> 0xA1)" "\<not> (0x40 \<le> n \<and> n \<le> 0x43)" "\<not> (0x60 \<le> n \<and> n \<le> 0x64)"
      "\<not> (0x70 \<le> n \<and> n \<le> 0x71)" "\<not> (0x170 \<le> n \<and> n \<le> 0x177)" "\<not> (0x1F0 \<le> n \<and> n \<le> 0x1F7)" "n \<noteq> 0x376" "n \<noteq> 0x3F6"
      "\<not> (0x3F8 \<le> n \<and> n \<le> 0x3FF)" "\<not> (0xCF8 \<le> n \<and> n \<le> 0xCFF)"
  using that by blast

text \<open>
  Ports route to exactly the documented device.  On every well-formed bus, at every port outside
  the network card's window, a read or write reaches precisely the device that owns the port in
  the PC memory map (0x61 the timer, not the keyboard controller around it; 0x3F6 and 0x376 the
  disk controllers' alternate status, where writes are ignored), changes no other device, and
  marks the interrupt lines for re-latching; an unowned port reads 0xFF and ignores writes.
\<close>

theorem bus_routing:
  assumes "bus_wf b" and "\<not> nic_window b p"
  shows "bus_read b p = routed_read (b\<lparr>irq_dirty := True\<rparr>) p \<and>
    bus_write b p v = routed_write (b\<lparr>irq_dirty := True\<rparr>) p v"
proof -
  define b' where "b' = b\<lparr>irq_dirty := True\<rparr>"
  have wf: "bus_wf b'" using assms(1) by (simp add: b'_def)
  have nw: "\<not> nic_window b' p" using assms(2) by (simp add: nic_window_def b'_def)
  note dispatch = b'_def [symmetric] Let_def nw bus_ranges [OF wf] read_alt_status_def write_device_control_def
  note defs = bus_read_def routed_read_def bus_write_def routed_write_def port_owner_def dispatch
  have "bus_read b p = routed_read b' p \<and> bus_write b p v = routed_write b' p v"
  proof (cases rule: port_classes [of "unat p"])
    case 13
    have "unat p \<noteq> 0x61"
    proof
      assume "unat p = 0x61"
      with 13(4) show False by simp
    qed
    then show ?thesis unfolding defs by (simp only: 13 nw if_False owner.case simp_thms)
  qed (unfold defs, simp_all add: nw)
  then show ?thesis by (simp only: b'_def)
qed

theorem bus_routing_witness:
  "bus_wf bus_new \<and> \<not> nic_window bus_new 0x300 \<and> bus_read bus_new 0x300 = (0xFF, bus_new) \<and>
   bus_write bus_new 0x70 5 = bus_new\<lparr>bus_cmos := cmos_write cmos_new 0x70 5\<rparr>"
proof -
  have pci: "bus_pci bus_new = pci_new" by (simp add: bus_new_def with_uart_def)
  have nw: "\<not> nic_window bus_new p" for p
    by (simp add: nic_window_def nic_io_enabled_def pci pci_new_def)
  have d: "bus_new\<lparr>irq_dirty := True\<rparr> = bus_new" "bus_cmos bus_new = cmos_new"
    by (simp_all add: bus_new_def with_uart_def)
  have o: "port_owner 0x300 = Nobody" "port_owner 0x70 = TheCmos" by (simp_all add: port_owner_def)
  show ?thesis
    using bus_routing [OF bus_new_wf nw, of "0x300"] bus_routing [OF bus_new_wf nw, of "0x70" 5] bus_new_wf nw
    by (simp add: d routed_read_def routed_write_def o)
qed

section \<open>Interrupt delivery\<close>

lemma bit_set_line: "bit (irr (set_line p i l)) j = (if j = i \<and> i < 8 then l else bit (irr p) j)"
  by (auto simp: set_line_def bit_simps dest: bit_u8_high)

lemma set_line_frame [simp]:
  "vector_base (set_line p i l) = vector_base p" "imr (set_line p i l) = imr p" "isr (set_line p i l) = isr p"
  "pic_base_port (set_line p i l) = pic_base_port p"
  by (simp_all add: set_line_def)

text \<open>Every device line is what the request register of its PIC shows.\<close>

definition lines_latched :: "iobus \<Rightarrow> bool" where
  "lines_latched b \<longleftrightarrow>
     bit (irr (bus_pic b)) 4 = uart_irq_pending (bus_uart b) \<and> bit (irr (bus_pic b)) 1 = kbd_irq_pending (bus_kbd b) \<and>
     bit (irr (bus_slave_pic b)) 4 = aux_irq_pending (bus_kbd b) \<and>
     bit (irr (bus_slave_pic b)) 3 = nic_irq_pending (bus_nic b) \<and>
     bit (irr (bus_pic b)) 2 = (pending_vector (bus_slave_pic b) \<noteq> None)"

lemma poll_latches: "lines_latched (poll_device_irqs b)"
  by (simp add: lines_latched_def poll_device_irqs_def Let_def bit_set_line)

lemma poll_frame [simp]:
  "irq_poll (poll_device_irqs b) = irq_poll b" "bus_pit (poll_device_irqs b) = bus_pit b"
  "pit_div_counter (poll_device_irqs b) = pit_div_counter b" "bus_uart (poll_device_irqs b) = bus_uart b"
  "bus_kbd (poll_device_irqs b) = bus_kbd b" "bus_nic (poll_device_irqs b) = bus_nic b"
  by (simp_all add: poll_device_irqs_def Let_def)

lemma pit_clock_frame [simp]:
  "irq_poll (pit_clock b) = irq_poll b" "irq_dirty (pit_clock b) = irq_dirty b" "bus_uart (pit_clock b) = bus_uart b"
  "bus_kbd (pit_clock b) = bus_kbd b" "bus_nic (pit_clock b) = bus_nic b" "bus_slave_pic (pit_clock b) = bus_slave_pic b"
  by (simp_all add: pit_clock_def Let_def split: prod.split)

lemma refresh_frame [simp]:
  "irq_poll (refresh_irqs b) = irq_poll b + 1" "bus_uart (refresh_irqs b) = bus_uart b"
  "bus_kbd (refresh_irqs b) = bus_kbd b" "bus_nic (refresh_irqs b) = bus_nic b"
  by (simp_all add: refresh_irqs_def Let_def)

lemma refreshes_frame:
  "irq_poll ((refresh_irqs ^^ k) b) = irq_poll b + of_nat k" "bus_uart ((refresh_irqs ^^ k) b) = bus_uart b"
  "bus_kbd ((refresh_irqs ^^ k) b) = bus_kbd b" "bus_nic ((refresh_irqs ^^ k) b) = bus_nic b"
  by (induction k) simp_all

lemma refresh_latches: "irq_dirty b \<or> irq_poll b + 1 = 0 \<Longrightarrow> lines_latched (refresh_irqs b)"
  by (auto simp: refresh_irqs_def Let_def poll_latches)

text \<open>
  No device interrupt is missed for more than 256 steps.  If the lines were marked dirty the next
  \<open>refresh_irqs\<close> latches every device line into its PIC (UART on IRQ 4, keyboard on IRQ 1, mouse on
  IRQ 12, network card on IRQ 11, the cascade on IRQ 2 exactly when the slave has something to
  deliver); and even when a mark was missed, within 256 steps there is one at which all latched
  lines equal the lines the devices drive now.
\<close>

theorem irq_latch_latency:
  "(irq_dirty b \<longrightarrow> lines_latched (refresh_irqs b)) \<and>
   (\<exists>k \<in> {1..256}. lines_latched ((refresh_irqs ^^ k) b) \<and> bus_uart ((refresh_irqs ^^ k) b) = bus_uart b \<and>
      bus_kbd ((refresh_irqs ^^ k) b) = bus_kbd b \<and> bus_nic ((refresh_irqs ^^ k) b) = bus_nic b)"
proof -
  define k where "k = 255 - unat (irq_poll b)"
  have k: "k + unat (irq_poll b) = 255" using unat_bounds(1) [of "irq_poll b"] by (simp add: k_def)
  have "irq_poll ((refresh_irqs ^^ k) b) + 1 = of_nat (unat (irq_poll b) + k) + 1"
    by (simp add: refreshes_frame(1))
  also have "\<dots> = 0" using k by (simp only: add.commute [of k]) simp
  finally have "lines_latched (refresh_irqs ((refresh_irqs ^^ k) b))" by (intro refresh_latches) simp
  then have "lines_latched ((refresh_irqs ^^ Suc k) b)" by simp
  moreover have "Suc k \<in> {1..256}" using k by simp
  ultimately show ?thesis
    using refresh_latches [of b] refreshes_frame(2-4) [of "Suc k" b] by blast
qed

theorem irq_latch_latency_witness:
  "irq_dirty bus_new \<and> lines_latched (refresh_irqs bus_new)"
proof -
  have "irq_dirty bus_new" by (simp add: bus_new_def with_uart_def)
  then show ?thesis using irq_latch_latency [of bus_new] by simp
qed

text \<open>
  The whole cycle the CPU drives: which line wins over both PICs, and what acknowledging does.
  Lines 8 to 15 sit between 1 and 3, on the cascade.
\<close>

lemma pic_winner_less: "pic_winner p = Some k \<Longrightarrow> k < 8"
  by (simp add: pic_winner_Some deliverable_def)

lemma master_line:
  assumes "pic_winner p = Some k"
  shows "pending_vector p = Some (vector_base p + of_nat k)"
    "(vector_base p + of_nat k - vector_base p = 2) = (k = 2)"
proof -
  show "pending_vector p = Some (vector_base p + of_nat k)" using assms by (simp add: pending_vector_winner)
  have "unat (of_nat k :: u8) = k" using pic_winner_less [OF assms] by (simp add: unat_of_nat)
  then show "(vector_base p + of_nat k - vector_base p = 2) = (k = 2)" by (simp add: word_unat_eq_iff)
qed

lemma pic_ack_bits:
  assumes "pic_winner p = Some k"
  shows "bit (isr (pic_ack p)) i = (bit (isr p) i \<or> i = k)" "bit (irr (pic_ack p)) i = (bit (irr p) i \<and> i \<noteq> k)"
  using pic_winner_less [OF assms] by (auto simp: pic_ack_winner assms bit_simps dest: bit_u8_high)

text \<open>
  C28: Interrupt delivery through the cascade.  With the lines latched, the CPU is offered the vector
  of the highest-priority deliverable line of the master; when that line is the cascade it is
  offered the slave's best line instead (which then exists), so the cascade vector itself is never
  delivered.  Acknowledging moves exactly the offered line from request to in-service, and for a
  slave line the master's cascade line with it; no other request or in-service bit of either
  controller changes.
\<close>

theorem bus_interrupt_cycle:
  assumes "lines_latched b"
  shows "case pic_winner (bus_pic b) of
      None \<Rightarrow> pending_irq_vector b = None \<and> ack_irq b = b
    | Some k \<Rightarrow>
        if k = 2 then
          \<exists>j. pic_winner (bus_slave_pic b) = Some j \<and>
            pending_irq_vector b = Some (vector_base (bus_slave_pic b) + of_nat j) \<and>
            (\<forall>i. bit (isr (bus_slave_pic (ack_irq b))) i = (bit (isr (bus_slave_pic b)) i \<or> i = j)) \<and>
            (\<forall>i. bit (irr (bus_slave_pic (ack_irq b))) i = (bit (irr (bus_slave_pic b)) i \<and> i \<noteq> j)) \<and>
            (\<forall>i. bit (isr (bus_pic (ack_irq b))) i = (bit (isr (bus_pic b)) i \<or> i = 2)) \<and>
            (\<forall>i. bit (irr (bus_pic (ack_irq b))) i = (bit (irr (bus_pic b)) i \<and> i \<noteq> 2))
        else
          pending_irq_vector b = Some (vector_base (bus_pic b) + of_nat k) \<and>
          bus_slave_pic (ack_irq b) = bus_slave_pic b \<and>
          (\<forall>i. bit (isr (bus_pic (ack_irq b))) i = (bit (isr (bus_pic b)) i \<or> i = k)) \<and>
          (\<forall>i. bit (irr (bus_pic (ack_irq b))) i = (bit (irr (bus_pic b)) i \<and> i \<noteq> k))"
proof (cases "pic_winner (bus_pic b)")
  case None
  then show ?thesis by (simp add: pending_irq_vector_def ack_irq_def pending_vector_winner)
next
  case (Some k)
  note line = master_line [OF Some] and bits = pic_ack_bits [OF Some]
  show ?thesis
  proof (cases "k = 2")
    case True
    have "deliverable (bus_pic b) 2" using Some True by (simp add: pic_winner_Some)
    then have "pending_vector (bus_slave_pic b) \<noteq> None"
      using assms by (simp add: lines_latched_def deliverable_def)
    then obtain j where j: "pic_winner (bus_slave_pic b) = Some j" by (auto simp: pending_vector_winner)
    show ?thesis
      using True Some j line bits pic_ack_bits [OF j] master_line(1) [OF j]
      by (simp add: pending_irq_vector_def ack_irq_def Let_def)
  next
    case False
    then show ?thesis
      using Some line bits by (simp add: pending_irq_vector_def ack_irq_def Let_def)
  qed
qed

definition key_waiting_bus :: iobus where
  "key_waiting_bus = poll_device_irqs
     (bus_new\<lparr>bus_pic := pic_master\<lparr>imr := 0xFD\<rparr>, bus_kbd := push_scancode kbd_new 0x1E\<rparr>)"

lemma key_waiting_winner: "pic_winner (bus_pic key_waiting_bus) = Some 1" "vector_base (bus_pic key_waiting_bus) = 8"
proof -
  have irq: "kbd_irq_pending (push_scancode kbd_new 0x1E)"
    by (simp add: kbd_irq_pending_def head_is_kbd_def push_scancode_def kbd_new_def ccb_bits)
  have "deliverable (bus_pic key_waiting_bus) 1" "\<not> deliverable (bus_pic key_waiting_bus) 0"
    using irq by (simp_all add: key_waiting_bus_def poll_device_irqs_def Let_def deliverable_def bit_set_line
        pic_master_def pic_new_def bit_simps)
  then show "pic_winner (bus_pic key_waiting_bus) = Some 1" by (simp add: pic_winner_Some)
  show "vector_base (bus_pic key_waiting_bus) = 8"
    by (simp add: key_waiting_bus_def poll_device_irqs_def Let_def pic_master_def pic_new_def)
qed

theorem bus_interrupt_cycle_witness:
  "lines_latched key_waiting_bus \<and> pending_irq_vector key_waiting_bus = Some 9 \<and>
   bit (isr (bus_pic (ack_irq key_waiting_bus))) 1"
proof -
  have l: "lines_latched key_waiting_bus" by (simp add: key_waiting_bus_def poll_latches)
  show ?thesis using bus_interrupt_cycle [OF l] l key_waiting_winner by simp
qed

section \<open>The timer\<close>

lemma pit_clock_step:
  assumes "pit_div_counter b < PIT_TICK_DIVIDER"
  shows "pit_clock b =
    (if pit_div_counter b = 15
     then b\<lparr>pit_div_counter := 0, bus_pit := snd (pit_cycle (bus_pit b)),
            bus_pic := (if fst (pit_cycle (bus_pit b)) then (bus_pic b)\<lparr>irr := irr (bus_pic b) OR push_bit 0 1\<rparr>
                        else bus_pic b)\<rparr>
     else b\<lparr>pit_div_counter := pit_div_counter b + 1\<rparr>)"
proof -
  have "PIT_TICK_DIVIDER \<le> pit_div_counter b + 1 \<longleftrightarrow> pit_div_counter b = 15"
    using assms by (auto simp: PIT_TICK_DIVIDER_def word_le_nat_alt word_less_nat_alt word_unat_eq_iff unat_word_ariths)
  then show ?thesis
    by (cases "pit_cycle (bus_pit b)") (simp add: pit_clock_def Let_def pit_cycle_def)
qed

lemma poll_irq0: "bit (irr (bus_pic (poll_device_irqs b))) 0 = bit (irr (bus_pic b)) 0"
  by (simp add: poll_device_irqs_def Let_def bit_set_line del: bit_0)

lemma refresh_timer:
  assumes "pit_div_counter b < PIT_TICK_DIVIDER"
  shows "pit_div_counter (refresh_irqs b) = (if pit_div_counter b = 15 then 0 else pit_div_counter b + 1)"
    "bus_pit (refresh_irqs b) = (if pit_div_counter b = 15 then snd (pit_cycle (bus_pit b)) else bus_pit b)"
    "bit (irr (bus_pic (refresh_irqs b))) 0 =
      (bit (irr (bus_pic b)) 0 \<or> (pit_div_counter b = 15 \<and> fst (pit_cycle (bus_pit b))))"
  unfolding refresh_irqs_def Let_def pit_clock_step [OF assms]
  by (simp_all add: poll_irq0 del: bit_0) (simp add: bit_simps del: bit_0)

lemma refreshes_timer:
  assumes "pit_div_counter b = 0"
  shows "unat (pit_div_counter ((refresh_irqs ^^ n) b)) = n mod 16 \<and>
    bus_pit ((refresh_irqs ^^ n) b) = pit_cycles (n div 16) (bus_pit b)"
proof (induction n)
  case 0
  then show ?case using assms by (simp add: pit_cycles_def)
next
  case (Suc n)
  let ?b = "(refresh_irqs ^^ n) b"
  have lt: "pit_div_counter ?b < PIT_TICK_DIVIDER" using Suc by (simp add: PIT_TICK_DIVIDER_def word_less_nat_alt)
  have c15: "pit_div_counter ?b = 15 \<longleftrightarrow> n mod 16 = 15" using Suc by (simp add: word_unat_eq_iff)
  have "unat (pit_div_counter ?b + 1) = n mod 16 + 1" using Suc by (simp add: unat_word_ariths)
  moreover have "Suc n mod 16 = (if n mod 16 = 15 then 0 else n mod 16 + 1)" by (simp add: mod_Suc)
  moreover have "Suc n div 16 = (if n mod 16 = 15 then Suc (n div 16) else n div 16)" by (simp add: div_Suc mod_Suc)
  ultimately show ?case
    using Suc refresh_timer(1,2) [OF lt] c15 by (simp add: pit_cycles_def)
qed

text \<open>
  The timer interrupt rate seen by the CPU.  Once channel 0 runs periodically with reload value
  \<open>r\<close> and the prescaler is at zero, the \<open>(n + 1)\<close>-th CPU step raises a fresh IRQ 0 request exactly
  when \<open>16 * r\<close> divides \<open>n + 1\<close>; at every other step the request bit is left as it was.
\<close>

theorem bus_timer_rate:
  assumes "pit_div_counter b = 0" and "periodic_at (bus_pit b) r r" and "r \<noteq> 0"
  shows "bit (irr (bus_pic ((refresh_irqs ^^ Suc n) b))) 0 =
    (bit (irr (bus_pic ((refresh_irqs ^^ n) b))) 0 \<or> 16 * unat r dvd Suc n)"
proof -
  let ?b = "(refresh_irqs ^^ n) b"
  have t: "unat (pit_div_counter ?b) = n mod 16" "bus_pit ?b = pit_cycles (n div 16) (bus_pit b)"
    using refreshes_timer [OF assms(1), of n] by simp_all
  have lt: "pit_div_counter ?b < PIT_TICK_DIVIDER" using t(1) by (simp add: PIT_TICK_DIVIDER_def word_less_nat_alt)
  have c15: "pit_div_counter ?b = 15 \<longleftrightarrow> n mod 16 = 15" using t(1) by (simp add: word_unat_eq_iff)
  have edge: "fst (pit_cycle (pit_cycles m (bus_pit b))) \<longleftrightarrow> unat r dvd Suc m" for m
    by (rule pit_cycle_edge [OF assms(2,3)])
  have "n mod 16 = 15 \<and> unat r dvd Suc (n div 16) \<longleftrightarrow> 16 * unat r dvd Suc n"
  proof
    assume h: "n mod 16 = 15 \<and> unat r dvd Suc (n div 16)"
    then have m: "n mod 16 = 15" by simp
    then have "Suc n = 16 * Suc (n div 16)" by presburger
    then show "16 * unat r dvd Suc n" using h by (metis dvd_refl mult_dvd_mono)
  next
    assume h: "16 * unat r dvd Suc n"
    then have "16 dvd Suc n" using dvd_mult_left by blast
    then have m: "n mod 16 = 15" by presburger
    then have "Suc n = 16 * Suc (n div 16)" by presburger
    then have "unat r dvd Suc (n div 16)" using h by (metis dvd_times_left_cancel_iff zero_neq_numeral)
    then show "n mod 16 = 15 \<and> unat r dvd Suc (n div 16)" using m by simp
  qed
  then show ?thesis
    using refresh_timer(3) [OF lt] c15 edge [of "n div 16"] t(2) by (simp del: bit_0)
qed

theorem bus_timer_rate_witness:
  "pit_div_counter (bus_new\<lparr>bus_pit := pit_standard\<lparr>ch0_mode := 2, ch0_reload := 2, ch0_counter := 2, ch0_running := True\<rparr>\<rparr>) = 0 \<and>
   bit (irr (bus_pic ((refresh_irqs ^^ 32)
     (bus_new\<lparr>bus_pit := pit_standard\<lparr>ch0_mode := 2, ch0_reload := 2, ch0_counter := 2, ch0_running := True\<rparr>\<rparr>)))) 0"
proof -
  define b where "b = bus_new\<lparr>bus_pit := pit_standard\<lparr>ch0_mode := 2, ch0_reload := 2, ch0_counter := 2, ch0_running := True\<rparr>\<rparr>"
  have h: "pit_div_counter b = 0" "periodic_at (bus_pit b) 2 2"
    by (simp_all add: b_def bus_new_def with_uart_def periodic_at_def reload_value_def pit_standard_def pit_new_def)
  show ?thesis
    using bus_timer_rate [OF h, of 31] h(1) unfolding b_def [symmetric] by (simp del: funpow.simps bit_0)
qed

section \<open>Transmitted frames\<close>

text \<open>
  The host-side transmit queue keeps the newest 1024 frames in order.  Recording any frames one
  by one, starting from any queue within the cap, leaves exactly the last 1024 (or all, when there
  are fewer) of the old queue followed by the new frames; draining hands them over oldest first
  and empties the queue, and popping takes the oldest one.
\<close>

theorem tx_queue_keeps_newest:
  fixes b :: iobus and fs :: "bytes list"
  assumes "length (nic_tx_frames b) \<le> NIC_TX_CAP"
  defines "b' \<equiv> foldl record_nic_tx_frame b fs"
  shows "nic_tx_frames b' = drop (length (nic_tx_frames b @ fs) - 1024) (nic_tx_frames b @ fs) \<and>
    drain_nic_tx b' = (nic_tx_frames b', b'\<lparr>nic_tx_frames := []\<rparr>) \<and>
    fst (pop_nic_tx b') = (if nic_tx_frames b' = [] then None else Some (hd (nic_tx_frames b')))"
proof -
  have "nic_tx_frames (foldl record_nic_tx_frame b fs) =
      drop (length (nic_tx_frames b @ fs) - 1024) (nic_tx_frames b @ fs)"
    using assms(1)
  proof (induction fs arbitrary: b)
    case Nil
    then show ?case by (simp add: NIC_TX_CAP_def)
  next
    case (Cons f fs)
    let ?b = "record_nic_tx_frame b f" and ?q = "nic_tx_frames b"
    have q: "nic_tx_frames ?b = drop (Suc (length ?q) - 1024) (?q @ [f])" "length (nic_tx_frames ?b) \<le> NIC_TX_CAP"
      using Cons.prems by (auto simp: record_nic_tx_frame_def Let_def NIC_TX_CAP_def drop_Suc)
    show ?case
    proof (cases "length ?q < 1024")
      case True
      then show ?thesis using Cons.IH [OF q(2)] q(1) by simp
    next
      case False
      then have "length ?q = 1024" using Cons.prems by (simp add: NIC_TX_CAP_def)
      then show ?thesis using Cons.IH [OF q(2)] q(1) by (simp add: drop_Suc)
    qed
  qed
  then show ?thesis
    by (simp add: b'_def drain_nic_tx_def pop_nic_tx_def split: list.split)
qed

theorem tx_queue_keeps_newest_witness:
  "length (nic_tx_frames bus_new) \<le> NIC_TX_CAP \<and>
   nic_tx_frames (foldl record_nic_tx_frame bus_new [[1], [2]]) = [[1], [2]]"
proof -
  have e: "nic_tx_frames bus_new = []" by (simp add: bus_new_def with_uart_def)
  then show ?thesis using tx_queue_keeps_newest [of bus_new "[[1], [2]]"] by simp
qed

section \<open>Snapshot round trip\<close>

text \<open>The records of an image as a list, and restoring from such a list.\<close>

definition bus_records :: "iobus \<Rightarrow> (u8 \<times> bytes) list" where
  "bus_records b =
     [(DEV_UART, uart_snapshot (bus_uart b)), (DEV_PIC_MASTER, pic_snapshot (bus_pic b)),
      (DEV_PIC_SLAVE, pic_snapshot (bus_slave_pic b)), (DEV_PIT, pit_snapshot (bus_pit b)),
      (DEV_KBD, kbd_snapshot (bus_kbd b)), (DEV_CMOS, cmos_snapshot (bus_cmos b)),
      (DEV_ATA_PRIMARY, ata_snapshot (bus_ata b)), (DEV_ATA_SECONDARY, ata_snapshot (bus_ata2 b)),
      (DEV_PCI, pci_snapshot (bus_pci b)), (DEV_RTL8139, nic_snapshot (bus_nic b))]"

definition emit_all :: "(u8 \<times> bytes) list \<Rightarrow> bytes" where
  "emit_all rs = concat (map (\<lambda>(i, p). emit i p) rs)"

fun restore_list :: "iobus \<Rightarrow> (u8 \<times> bytes) list \<Rightarrow> iobus \<times> unit result" where
  "restore_list b [] = (b, Inr ())"
| "restore_list b ((i, p) # rs) =
     (case restore_device b i p of (b1, Inl e) \<Rightarrow> (b1, Inl e) | (b1, Inr _) \<Rightarrow> restore_list b1 rs)"

lemma bus_snapshot_records: "bus_snapshot b = 10 # emit_all (bus_records b)"
  by (simp add: bus_snapshot_def emit_all_def bus_records_def)

lemma emit_all_simps [simp]: "emit_all [] = []" "emit_all ((i, p) # rs) = emit i p @ emit_all rs"
  by (simp_all add: emit_all_def)

lemma length_emit [simp]: "length (emit i p) = 5 + length p"
  by (simp add: emit_def)

lemma emit_parts:
  assumes "length pre = k" "length p + 1 < 2 ^ 32"
  shows "unat (get32 (pre @ emit i p @ post) k) = length p + 1"
    "(pre @ emit i p @ post) ! (k + 4) = i"
    "take (length p) (drop (k + 4 + 1) (pre @ emit i p @ post)) = p"
proof -
  have "get32 (pre @ emit i p @ post) k = 1 + of_nat (length p)"
    using get32_at [OF assms(1), of "1 + of_nat (length p)" "[i] @ p @ post"] by (simp add: emit_def)
  also have "\<dots> = of_nat (length p + 1)" by simp
  finally show "unat (get32 (pre @ emit i p @ post) k) = length p + 1"
    using assms(2) by (simp only: unat_of_nat_u32)
  show "(pre @ emit i p @ post) ! (k + 4) = i" using assms(1) by (simp add: emit_def nth_append)
  show "take (length p) (drop (k + 4 + 1) (pre @ emit i p @ post)) = p" using assms(1) by (simp add: emit_def)
qed

lemma restore_records_step:
  assumes "length pre = k" "length p + 1 < 2 ^ 32"
  shows "restore_records (Suc n) (pre @ emit i p @ post) k b =
    (case restore_device b i p of
       (b1, Inl e) \<Rightarrow> (b1, Inl e)
     | (b1, Inr _) \<Rightarrow> restore_records n (pre @ emit i p @ post) (k + 5 + length p) b1)"
proof -
  define bs where "bs = pre @ emit i p @ post"
  have len: "\<not> length bs < k + 4" "\<not> (length bs < k + 4 + (length p + 1) \<or> length p + 1 < 1)"
    using assms(1) by (simp_all add: bs_def)
  have parts: "unat (get32 bs k) = length p + 1" "bs ! (k + 4) = i" "take (length p + 1 - 1) (drop (k + 4 + 1) bs) = p"
    using emit_parts [OF assms] by (simp_all add: bs_def)
  have pos: "k + 4 + (length p + 1) = k + 5 + length p" by simp
  show ?thesis
    unfolding bs_def [symmetric] restore_records.simps Let_def parts pos [symmetric] by (simp only: len if_False)
qed

text \<open>
  The record parser is the inverse of the record writer for every list of records, known or not:
  what follows the last record counted is ignored.
\<close>

lemma restore_records_emit:
  assumes "\<forall>(i, p) \<in> set rs. length p + 1 < 2 ^ 32" "length pre = k"
  shows "restore_records (length rs) (pre @ emit_all rs @ post) k b = restore_list b rs"
  using assms
proof (induction rs arbitrary: pre k b)
  case (Cons r rs)
  obtain i p where r: "r = (i, p)" by (cases r)
  have small: "length p + 1 < 2 ^ 32" using Cons.prems(1) r by auto
  have "restore_records (length rs) ((pre @ emit i p) @ emit_all rs @ post) (k + 5 + length p) b1 = restore_list b1 rs" for b1
    using Cons.prems by (intro Cons.IH) auto
  then show ?case
    using restore_records_step [OF Cons.prems(2) small, of "length rs" i "emit_all rs @ post" b] r
    by (simp split: prod.split sum.split)
qed simp

text \<open>An image cut off anywhere inside its records is rejected, after the complete ones were restored.\<close>

lemma restore_records_cut:
  assumes "\<forall>(i, p) \<in> set rs. length p + 1 < 2 ^ 32" "length pre = k" "m < length (emit_all rs)"
    and "snd (restore_list b rs) = Inr ()"
  shows "\<exists>e. snd (restore_records (length rs) (pre @ take m (emit_all rs)) k b) = Inl e"
  using assms
proof (induction rs arbitrary: pre k m b)
  case (Cons r rs)
  obtain i p where r: "r = (i, p)" by (cases r)
  have small: "length p + 1 < 2 ^ 32" using Cons.prems(1) r by auto
  show ?case
  proof (cases "m < 5 + length p")
    case True
    let ?bs = "pre @ take m (emit i p)"
    have bs: "pre @ take m (emit_all (r # rs)) = ?bs" using True r by simp
    have lb: "length ?bs = k + m" using True Cons.prems(2) by simp
    show ?thesis
    proof (cases "m < 4")
      case True
      then show ?thesis unfolding bs using lb by simp
    next
      case False
      have "get32 ?bs k = get32 (pre @ emit i p @ []) k"
        using False True Cons.prems(2) by (simp add: get32_def nth_append)
      then have "unat (get32 ?bs k) = length p + 1"
        using emit_parts(1) [OF Cons.prems(2) small, of i "[]"] by simp
      then show ?thesis unfolding bs using lb True False by (simp add: Let_def)
    qed
  next
    case False
    let ?m = "m - (5 + length p)"
    have bs: "pre @ take m (emit_all (r # rs)) = pre @ emit i p @ take ?m (emit_all rs)" using False r by simp
    obtain b1 x where d: "restore_device b i p = (b1, x)" by (cases "restore_device b i p")
    obtain n where x: "x = Inr n" using Cons.prems(4) r d by (cases x) auto
    have "\<exists>e. snd (restore_records (length rs) ((pre @ emit i p) @ take ?m (emit_all rs)) (k + 5 + length p) b1) = Inl e"
      using Cons.prems False r d x by (intro Cons.IH) auto
    then show ?thesis
      unfolding bs using restore_records_step [OF Cons.prems(2) small, of "length rs" i "take ?m (emit_all rs)" b] d x by simp
  qed
qed simp

text \<open>
  A bus that can be saved: every device meets its own snapshot precondition and the payloads fit
  the 32-bit record lengths.  \<open>bus_keep b0 b\<close> is what restoring the image of \<open>b\<close> into \<open>b0\<close> gives:
  port numbers, disk images, the 8042's controller state, the EEPROM's serial state, queued
  transmit frames and the bus counters stay those of \<open>b0\<close>.
\<close>

definition bus_savable :: "iobus \<Rightarrow> bool" where
  "bus_savable b \<longleftrightarrow> length (tx_buffer (bus_uart b)) + length (rx_buffer (bus_uart b)) + 10 < 2 ^ 32 \<and>
     pit_wf (bus_pit b) \<and> length (kbd_queue (bus_kbd b)) + 5 < 2 ^ 32 \<and> cmos_wf (bus_cmos b) \<and>
     ata_wf (bus_ata b) \<and> ata_wf (bus_ata2 b) \<and> nic_wf (bus_nic b)"

definition bus_keep :: "iobus \<Rightarrow> iobus \<Rightarrow> iobus" where
  "bus_keep b0 b = b0\<lparr>bus_uart := uart_keep (bus_uart b0) (bus_uart b), bus_pic := pic_keep (bus_pic b0) (bus_pic b),
     bus_slave_pic := pic_keep (bus_slave_pic b0) (bus_slave_pic b), bus_pit := pit_keep (bus_pit b0) (bus_pit b),
     bus_kbd := kbd_keep (bus_kbd b0) (bus_kbd b), bus_cmos := cmos_keep (bus_cmos b0) (bus_cmos b),
     bus_ata := ata_keep (bus_ata b0) (bus_ata b), bus_ata2 := ata_keep (bus_ata2 b0) (bus_ata2 b),
     bus_pci := pci_keep (bus_pci b0) (bus_pci b), bus_nic := nic_keep (bus_nic b0) (bus_nic b)\<rparr>"

lemma restore_list_records:
  assumes "bus_savable b" "cmos_wf (bus_cmos b0)" "nic_wf (bus_nic b0)"
  shows "restore_list b0 (bus_records b) = (bus_keep b0 b, Inr ())"
proof -
  have d: "uart_wf (bus_uart b)" "kbd_small (bus_kbd b)" "pit_wf (bus_pit b)" "cmos_wf (bus_cmos b)"
    "ata_wf (bus_ata b)" "ata_wf (bus_ata2 b)" "nic_wf (bus_nic b)"
    using assms(1) by (simp_all add: bus_savable_def uart_wf_def kbd_small_def)
  show ?thesis
    using assms(2,3) d
    by (simp add: bus_records_def restore_device_def dev_ids uart_snap.restore_snap_exact pic_snap.restore_snap_exact
        pit_snap.restore_snap_exact kbd_snap.restore_snap_exact cmos_snap.restore_snap_exact
        ata_snap.restore_snap_exact pci_snap.restore_snap_exact nic_snap.restore_snap_exact bus_keep_def)
qed

lemma bus_records_small:
  assumes "bus_savable b"
  shows "\<forall>(i, p) \<in> set (bus_records b). length p + 1 < 2 ^ 32"
  using assms
  by (simp add: bus_savable_def bus_records_def uart_snapshot_def pic_snapshot_def pit_snapshot_length kbd_snapshot_def
      cmos_snapshot_def cmos_wf_def ata_snapshot_def ata_wf_def pci_snapshot_def nic_snapshot_def nic_wf_def
      length_concat_le16)

text \<open>
  Saving and restoring all devices.  The image of a savable bus restores, into any bus with its
  arrays in shape and whatever bytes follow the image, without error and to exactly the persisted
  state of every one of the ten devices; and every proper prefix of the image is rejected with an
  error, so a truncated snapshot is never mistaken for a complete one.
\<close>

theorem bus_snapshot_roundtrip:
  assumes "bus_savable b" "cmos_wf (bus_cmos b0)" "nic_wf (bus_nic b0)"
  shows "bus_restore b0 (bus_snapshot b @ rest) = (bus_keep b0 b, Inr ()) \<and>
    (\<forall>m < length (bus_snapshot b). \<exists>e. snd (bus_restore b0 (take m (bus_snapshot b))) = Inl e)"
proof -
  note small = bus_records_small [OF assms(1)] and ok = restore_list_records [OF assms]
  have n: "length (bus_records b) = 10" by (simp add: bus_records_def)
  have "restore_records 10 ([10] @ emit_all (bus_records b) @ rest) 1 b0 = (bus_keep b0 b, Inr ())"
    using restore_records_emit [OF small, of "[10]" 1 rest b0] ok unfolding n by simp
  then have full: "bus_restore b0 (bus_snapshot b @ rest) = (bus_keep b0 b, Inr ())"
    by (simp add: bus_restore_def bus_snapshot_records)
  have "\<exists>e. snd (bus_restore b0 (take m (bus_snapshot b))) = Inl e" if m: "m < length (bus_snapshot b)" for m
  proof (cases m)
    case 0
    then show ?thesis by (simp add: bus_restore_def)
  next
    case (Suc k)
    then have "k < length (emit_all (bus_records b))" using m by (simp add: bus_snapshot_records)
    then have "\<exists>e. snd (restore_records 10 ([10] @ take k (emit_all (bus_records b))) 1 b0) = Inl e"
      using restore_records_cut [OF small, of "[10]" 1 k b0] ok unfolding n by simp
    then show ?thesis using Suc by (simp add: bus_restore_def bus_snapshot_records)
  qed
  with full show ?thesis by blast
qed

theorem bus_snapshot_roundtrip_witness:
  "bus_savable bus_new \<and> bus_restore bus_new (bus_snapshot bus_new @ [1, 2]) = (bus_keep bus_new bus_new, Inr ())"
proof -
  have s: "bus_savable bus_new"
    using bus_new_wf
    by (simp add: bus_savable_def bus_wf_def pit_ok_def cmos_ok_def bus_new_def with_uart_def uart_com1_def uart_new_def kbd_new_def
        ata_wf_def ata_new_def ata_with_port_base_def)
  have t: "cmos_wf (bus_cmos bus_new)" "nic_wf (bus_nic bus_new)"
    using bus_new_wf by (simp_all add: bus_wf_def cmos_ok_def)
  show ?thesis using bus_snapshot_roundtrip [OF s t, of "[1, 2]"] s by simp
qed

text \<open>
  Unknown device records are skipped: a record whose id is none of the ten leaves every device
  as it was and parsing continues with the next record, so an image with additional devices
  restores the same state as the image without them.
\<close>

theorem bus_unknown_skipped:
  assumes "i = 0 \<or> 10 < i" "length p + 1 < 2 ^ 32" "\<forall>(i, p) \<in> set (rs @ rs'). length p + 1 < 2 ^ 32"
  shows "restore_records (length (rs @ (i, p) # rs')) (pre @ emit_all (rs @ (i, p) # rs')) (length pre) b =
    restore_records (length (rs @ rs')) (pre @ emit_all (rs @ rs')) (length pre) b"
proof -
  have un: "restore_device c i p = (c, Inr (length p))" for c
    using assms(1) by (auto simp: restore_device_def dev_ids)
  have "restore_list b (rs @ (i, p) # rs') = restore_list b (rs @ rs')"
  proof (induction rs arbitrary: b)
    case (Cons r rs)
    then show ?case by (cases r) (simp split: prod.split sum.split)
  qed (simp add: un)
  then show ?thesis
    using restore_records_emit [of "rs @ (i, p) # rs'" pre "length pre" "[]" b]
      restore_records_emit [of "rs @ rs'" pre "length pre" "[]" b] assms(2,3) by auto
qed

theorem bus_unknown_skipped_witness:
  "(10 :: u8) < 200 \<and>
   restore_records (Suc (Suc 0)) ([2] @ emit_all [(200, [1, 2, 3]), (DEV_KBD, [0, 0, 0, 0])]) 1 bus_new =
   restore_records (Suc 0) ([2] @ emit_all [(DEV_KBD, [0, 0, 0, 0])]) 1 bus_new"
  using bus_unknown_skipped [of 200 "[1, 2, 3]" "[]" "[(DEV_KBD, [0, 0, 0, 0])]" "[2]" bus_new]
  by (simp del: restore_records.simps emit_all_simps)

end
