(* ===== verification/Scancode.thy ===== *)
theory Scancode
  imports Prelude
begin

text \<open>
  Host-side typing (\<^verbatim>\<open>crates/devices/src/scancode.rs\<close>): characters to PS/2 Set-1 scan codes.
  A Rust \<^verbatim>\<open>char\<close> is its 32-bit code point; the arms of the two matches are association lists.
\<close>

type_synonym code_point = u32

definition SHIFT_MAKE :: u8 where "SHIFT_MAKE = 0x2A"
definition SHIFT_BREAK :: u8 where "SHIFT_BREAK = 0xAA"

definition unshifted_keys :: "(char \<times> u8) list" where
  "unshifted_keys =
     [(CHR ''1'', 0x02), (CHR ''2'', 0x03), (CHR ''3'', 0x04), (CHR ''4'', 0x05), (CHR ''5'', 0x06), (CHR ''6'', 0x07),
      (CHR ''7'', 0x08), (CHR ''8'', 0x09), (CHR ''9'', 0x0A), (CHR ''0'', 0x0B), (CHR ''-'', 0x0C), (CHR ''='', 0x0D),
      (CHR 0x09, 0x0F), (CHR ''q'', 0x10), (CHR ''w'', 0x11), (CHR ''e'', 0x12), (CHR ''r'', 0x13), (CHR ''t'', 0x14),
      (CHR ''y'', 0x15), (CHR ''u'', 0x16), (CHR ''i'', 0x17), (CHR ''o'', 0x18), (CHR ''p'', 0x19), (CHR ''['', 0x1A),
      (CHR '']'', 0x1B), (CHR 0x0A, 0x1C), (CHR ''a'', 0x1E), (CHR ''s'', 0x1F), (CHR ''d'', 0x20), (CHR ''f'', 0x21),
      (CHR ''g'', 0x22), (CHR ''h'', 0x23), (CHR ''j'', 0x24), (CHR ''k'', 0x25), (CHR ''l'', 0x26), (CHR '';'', 0x27),
      (CHR 0x27, 0x28), (CHR 0x60, 0x29), (CHR 0x5C, 0x2B), (CHR ''z'', 0x2C), (CHR ''x'', 0x2D), (CHR ''c'', 0x2E),
      (CHR ''v'', 0x2F), (CHR ''b'', 0x30), (CHR ''n'', 0x31), (CHR ''m'', 0x32), (CHR '','', 0x33), (CHR ''.'', 0x34),
      (CHR ''/'', 0x35), (CHR '' '', 0x39)]"

definition unshifted_table :: "(code_point \<times> u8) list" where
  "unshifted_table = map (\<lambda>(ch, k). (of_char ch, k)) unshifted_keys"

definition unshifted :: "code_point \<Rightarrow> u8 option" where
  "unshifted c = map_of unshifted_table c"

definition shifted_keys :: "(char \<times> char) list" where
  "shifted_keys =
     [(CHR ''!'', CHR ''1''), (CHR ''@'', CHR ''2''), (CHR ''#'', CHR ''3''), (CHR ''$'', CHR ''4''), (CHR ''%'', CHR ''5''),
      (CHR ''^'', CHR ''6''), (CHR ''&'', CHR ''7''), (CHR ''*'', CHR ''8''), (CHR ''('', CHR ''9''), (CHR '')'', CHR ''0''),
      (CHR ''_'', CHR ''-''), (CHR ''+'', CHR ''=''), (CHR ''{'', CHR ''[''), (CHR ''}'', CHR '']''), (CHR ''|'', CHR 0x5C),
      (CHR '':'', CHR '';''), (CHR 0x22, CHR 0x27), (CHR ''~'', CHR 0x60), (CHR ''<'', CHR '',''), (CHR ''>'', CHR ''.''),
      (CHR ''?'', CHR ''/'')]"

definition shifted_table :: "(code_point \<times> code_point) list" where
  "shifted_table = map (\<lambda>(ch, b). (of_char ch, of_char b)) shifted_keys"

definition key_for :: "code_point \<Rightarrow> (u8 \<times> bool) option" where
  "key_for c =
     (case unshifted c of
        Some code \<Rightarrow> Some (code, False)
      | None \<Rightarrow>
          if 65 \<le> c \<and> c \<le> 90 then map_option (\<lambda>code. (code, True)) (unshifted (c + 32))
          else
            (case map_of shifted_table c of
               None \<Rightarrow> None
             | Some base \<Rightarrow> map_option (\<lambda>code. (code, True)) (unshifted base)))"

definition push_char_scancodes :: "bytes \<Rightarrow> code_point \<Rightarrow> bytes" where
  "push_char_scancodes out c =
     (case key_for c of
        None \<Rightarrow> out
      | Some (make, shift) \<Rightarrow>
          out @ (if shift then [SHIFT_MAKE] else []) @ [make, make OR 0x80]
              @ (if shift then [SHIFT_BREAK] else []))"

definition string_to_scancodes :: "code_point list \<Rightarrow> bytes" where
  "string_to_scancodes s = foldl push_char_scancodes [] s"

section \<open>What the guest types\<close>

text \<open>
  The guest's side of the protocol: the shift key switches the level, a make code types the
  character of that key on the current level, break codes of other keys do nothing.  The result
  is the text and the shift state at the end.
\<close>

definition typeable :: "code_point list" where
  "typeable = map of_nat ([9, 10] @ [32..<127])"

definition key_char :: "u8 \<times> bool \<Rightarrow> code_point option" where
  "key_char k = find (\<lambda>c. key_for c = Some k) typeable"

fun decode_keys :: "bool \<Rightarrow> bytes \<Rightarrow> code_point list \<times> bool" where
  "decode_keys shift [] = ([], shift)"
| "decode_keys shift (b # bs) =
     (if b = SHIFT_MAKE then decode_keys True bs
      else if b = SHIFT_BREAK then decode_keys False bs
      else if b AND 0x80 \<noteq> 0 then decode_keys shift bs
      else case key_char (b, shift) of
             None \<Rightarrow> decode_keys shift bs
           | Some c \<Rightarrow> let (s, sh) = decode_keys shift bs in (c # s, sh))"

section \<open>The tables\<close>

lemma unshifted_table_codes [code]:
  "unshifted_table =
     [(49, 0x02), (50, 0x03), (51, 0x04), (52, 0x05), (53, 0x06), (54, 0x07), (55, 0x08), (56, 0x09), (57, 0x0A), (48, 0x0B),
      (45, 0x0C), (61, 0x0D), (9, 0x0F), (113, 0x10), (119, 0x11), (101, 0x12), (114, 0x13), (116, 0x14), (121, 0x15), (117, 0x16),
      (105, 0x17), (111, 0x18), (112, 0x19), (91, 0x1A), (93, 0x1B), (10, 0x1C), (97, 0x1E), (115, 0x1F), (100, 0x20), (102, 0x21),
      (103, 0x22), (104, 0x23), (106, 0x24), (107, 0x25), (108, 0x26), (59, 0x27), (39, 0x28), (96, 0x29), (92, 0x2B), (122, 0x2C),
      (120, 0x2D), (99, 0x2E), (118, 0x2F), (98, 0x30), (110, 0x31), (109, 0x32), (44, 0x33), (46, 0x34), (47, 0x35), (32, 0x39)]"
  by (simp add: unshifted_table_def unshifted_keys_def)

lemma shifted_table_codes [code]:
  "shifted_table =
     [(33, 49), (64, 50), (35, 51), (36, 52), (37, 53), (94, 54), (38, 55), (42, 56), (40, 57), (41, 48),
      (95, 45), (43, 61), (123, 91), (125, 93), (124, 92), (58, 59), (34, 39), (126, 96), (60, 44), (62, 46),
      (63, 47)]"
  by (simp add: shifted_table_def shifted_keys_def)

lemma typeable_set: "set typeable = {9, 10} \<union> of_nat ` {32..<127}"
  unfolding typeable_def set_map set_append set_upt by (simp add: image_Un)

lemma typeable_iff: "c \<in> set typeable \<longleftrightarrow> c = 9 \<or> c = 10 \<or> (32 \<le> c \<and> c \<le> 126)"
proof -
  have "c \<in> of_nat ` {32..<127} \<longleftrightarrow> 32 \<le> c \<and> c \<le> 126"
  proof
    assume "32 \<le> c \<and> c \<le> 126"
    then show "c \<in> of_nat ` {32..<127}" by (intro image_eqI [of _ _ "unat c"]) (simp_all add: word_le_nat_alt)
  qed (auto simp: word_le_nat_alt unat_of_nat)
  then show ?thesis unfolding typeable_set by blast
qed

text \<open>No two keys share a code, no two shifted characters a base, and every code is a plain make code.\<close>

lemma table_facts:
  "distinct (map snd unshifted_table)" "distinct (map snd shifted_table)"
  "\<forall>(c, k) \<in> set unshifted_table. c \<in> set typeable \<and> k AND 0x80 = 0 \<and> k \<noteq> 0x2A"
  "\<forall>(c, b) \<in> set shifted_table. c \<in> set typeable \<and> \<not> (97 \<le> b \<and> b \<le> 122)"
  by (simp_all add: unshifted_table_codes shifted_table_codes typeable_iff)

lemma inv_distinct_snd: "distinct (map snd xs) \<Longrightarrow> (a, k) \<in> set xs \<Longrightarrow> (b, k) \<in> set xs \<Longrightarrow> a = b"
  by (fastforce simp: distinct_map inj_on_def)

lemma key_for_unshifted: "key_for c = Some (k, False) \<Longrightarrow> (c, k) \<in> set unshifted_table"
  by (auto simp: key_for_def unshifted_def dest: map_of_SomeD split: option.splits if_splits)

lemma key_for_shifted:
  "key_for c = Some (k, True) \<Longrightarrow> \<exists>b. (b, k) \<in> set unshifted_table \<and>
     ((65 \<le> c \<and> c \<le> 90 \<and> b = c + 32) \<or> (c, b) \<in> set shifted_table)"
  by (auto simp: key_for_def unshifted_def dest!: map_of_SomeD split: option.splits if_splits)

lemma upper_range: "65 \<le> c \<Longrightarrow> c \<le> 90 \<Longrightarrow> 97 \<le> c + 32 \<and> c + 32 \<le> (122 :: code_point)"
  by (simp add: word_le_nat_alt unat_word_ariths)

lemma key_for_inj:
  assumes "key_for c = Some x" "key_for d = Some x"
  shows "c = d"
proof (cases x)
  case (Pair k sh)
  show ?thesis
  proof (cases sh)
    case False
    then show ?thesis
      using assms Pair key_for_unshifted [of c k] key_for_unshifted [of d k] inv_distinct_snd [OF table_facts(1)] by auto
  next
    case True
    obtain b where b: "(b, k) \<in> set unshifted_table" "(65 \<le> c \<and> c \<le> 90 \<and> b = c + 32) \<or> (c, b) \<in> set shifted_table"
      using assms(1) Pair True key_for_shifted [of c k] by auto
    obtain e where e: "(e, k) \<in> set unshifted_table" "(65 \<le> d \<and> d \<le> 90 \<and> e = d + 32) \<or> (d, e) \<in> set shifted_table"
      using assms(2) Pair True key_for_shifted [of d k] by auto
    have "e = b" using inv_distinct_snd [OF table_facts(1)] b(1) e(1) by blast
    then show ?thesis
      using b(2) e(2) upper_range [of c] upper_range [of d] table_facts(4) inv_distinct_snd [OF table_facts(2)] by fastforce
  qed
qed

lemma key_for_typeable: "key_for c = Some (k, sh) \<Longrightarrow> c \<in> set typeable \<and> k AND 0x80 = 0 \<and> k \<noteq> 0x2A"
proof (cases sh)
  case True
  assume "key_for c = Some (k, sh)"
  then obtain b where "(b, k) \<in> set unshifted_table" "(65 \<le> c \<and> c \<le> 90) \<or> (c, b) \<in> set shifted_table"
    using True key_for_shifted [of c k] by auto
  then show ?thesis using table_facts(3,4) by (fastforce simp: typeable_iff word_le_nat_alt)
next
  case False
  assume "key_for c = Some (k, sh)"
  then show ?thesis using False key_for_unshifted [of c k] table_facts(3) by auto
qed

lemma key_char_key_for: "key_for c = Some x \<Longrightarrow> key_char x = Some c"
proof -
  assume kf: "key_for c = Some x"
  then have "c \<in> set typeable" using key_for_typeable by (cases x) auto
  then obtain d where "find (\<lambda>c. key_for c = Some x) typeable = Some d"
    using kf by (cases "find (\<lambda>c. key_for c = Some x) typeable") (auto simp: find_None_iff)
  moreover from this have "key_for d = Some x" by (auto simp: find_Some_iff)
  ultimately show ?thesis using key_for_inj [OF kf] by (simp add: key_char_def)
qed

text \<open>Every typeable character is in one of the tables or an upper-case letter.\<close>

lemma table_cover:
  "\<forall>c \<in> set typeable. c \<in> fst ` set unshifted_table \<or> c \<in> fst ` set shifted_table \<or> (65 \<le> c \<and> c \<le> 90)"
  "\<forall>n \<in> {97..<123}. of_nat n \<in> fst ` set unshifted_table"
  "\<forall>(c, b) \<in> set shifted_table. b \<in> fst ` set unshifted_table"
proof -
  show "\<forall>c \<in> set typeable. c \<in> fst ` set unshifted_table \<or> c \<in> fst ` set shifted_table \<or> (65 \<le> c \<and> c \<le> 90)"
    unfolding unshifted_table_codes shifted_table_codes typeable_def by simp
  have "\<forall>n \<in> set [97..<123]. of_nat n \<in> fst ` set unshifted_table"
    unfolding unshifted_table_codes by simp
  then show "\<forall>n \<in> {97..<123}. of_nat n \<in> fst ` set unshifted_table" by (simp only: set_upt)
  show "\<forall>(c, b) \<in> set shifted_table. b \<in> fst ` set unshifted_table"
    unfolding unshifted_table_codes shifted_table_codes by simp
qed

lemma unshifted_dom: "c \<in> fst ` set unshifted_table \<Longrightarrow> unshifted c \<noteq> None"
  unfolding unshifted_def map_of_eq_None_iff by simp

lemma key_for_total: "c \<in> set typeable \<Longrightarrow> key_for c \<noteq> None"
proof -
  assume "c \<in> set typeable"
  then consider "unshifted c \<noteq> None" | "unshifted c = None" "65 \<le> c" "c \<le> 90"
    | "unshifted c = None" "\<not> (65 \<le> c \<and> c \<le> 90)" "c \<in> fst ` set shifted_table"
    using table_cover(1) unshifted_dom by blast
  then show ?thesis
  proof cases
    case 2
    have "unat (c + 32) \<in> {97..<123}" using upper_range [OF 2(2,3)] by (simp add: word_le_nat_alt)
    then have "of_nat (unat (c + 32)) \<in> fst ` set unshifted_table" using table_cover(2) by blast
    moreover have "of_nat (unat (c + 32)) = c + 32" by simp
    ultimately have "unshifted (c + 32) \<noteq> None" by (metis unshifted_dom)
    with 2 show ?thesis by (simp add: key_for_def)
  next
    case 3
    then obtain b where b: "map_of shifted_table c = Some b"
      by (cases "map_of shifted_table c") (simp_all add: map_of_eq_None_iff)
    then have "unshifted b \<noteq> None" using bspec [OF table_cover(3) map_of_SomeD [OF b]] unshifted_dom by simp
    with 3 b show ?thesis by (auto simp: key_for_def)
  qed (auto simp: key_for_def)
qed

section \<open>Typing round trip\<close>

lemma break_code:
  fixes k :: u8
  assumes "k AND 0x80 = 0"
  shows "(k OR 0x80) AND 0x80 \<noteq> 0" "k OR 0x80 \<noteq> 0x2A" "k \<noteq> 0xAA" "k \<noteq> 0x2A \<Longrightarrow> k OR 0x80 \<noteq> 0xAA"
proof -
  have clr: "(k OR 0x80) AND 0x7F = k"
  proof -
    have "NOT 0x80 = (0x7F :: u8)" by code_simp
    then have "k AND 0x7F = k AND NOT 0x80" by (simp only:)
    also have "\<dots> = (k AND 0x80) OR (k AND NOT 0x80)" by (simp only: assms or.left_neutral)
    also have "\<dots> = k" by (simp only: bit.conj_disj_distrib [symmetric] bit.disj_cancel_right and.right_neutral)
    finally show ?thesis by (simp add: bit.conj_disj_distrib2)
  qed
  show hi: "(k OR 0x80) AND 0x80 \<noteq> 0" by (simp add: bit.conj_disj_distrib2 assms)
  show "k OR 0x80 \<noteq> 0x2A"
  proof
    assume "k OR 0x80 = 0x2A"
    with hi have "(0x2A :: u8) AND 0x80 \<noteq> 0" by (simp only:) simp
    then show False by simp
  qed
  show "k \<noteq> 0xAA" using assms by auto
  show "k OR 0x80 \<noteq> 0xAA" if "k \<noteq> 0x2A" using clr that by auto
qed

lemma push_char_append: "push_char_scancodes out c = out @ push_char_scancodes [] c"
  by (simp add: push_char_scancodes_def split: option.split)

lemma string_to_scancodes_concat: "string_to_scancodes s = concat (map (push_char_scancodes []) s)"
proof -
  have "foldl push_char_scancodes out s = out @ concat (map (push_char_scancodes []) s)" for out
  proof (induction s arbitrary: out)
    case (Cons c s)
    then show ?case using push_char_append [of out c] by simp
  qed simp
  then show ?thesis by (simp add: string_to_scancodes_def)
qed

lemma decode_char:
  "decode_keys False (push_char_scancodes [] c @ bs) =
     (case key_for c of None \<Rightarrow> decode_keys False bs | Some _ \<Rightarrow> let (s, sh) = decode_keys False bs in (c # s, sh))"
proof (cases "key_for c")
  case (Some x)
  obtain k sh where x: "x = (k, sh)" by (cases x)
  have k: "k AND 0x80 = 0" "k \<noteq> 0x2A" using key_for_typeable Some x by auto
  have kc: "key_char (k, sh) = Some c" using key_char_key_for [OF Some] x by simp
  show ?thesis
    using k kc break_code [OF k(1)]
    by (cases sh) (simp_all add: push_char_scancodes_def Some x SHIFT_MAKE_def SHIFT_BREAK_def Let_def case_prod_unfold)
qed (simp add: push_char_scancodes_def)

text \<open>
  Typing a string types that string.  A guest that decodes the generated scan-code stream on a
  US layout, starting with shift released, reads back exactly the characters of the string that
  the keyboard has, in order, and ends with shift released; the characters it has are tab,
  newline and all 95 printable ASCII characters.
\<close>

theorem scancode_roundtrip:
  "decode_keys False (string_to_scancodes s) =
     (filter (\<lambda>c. c = 9 \<or> c = 10 \<or> (32 \<le> c \<and> c \<le> 126)) s, False)"
proof -
  have mapped: "key_for c \<noteq> None \<longleftrightarrow> c = 9 \<or> c = 10 \<or> (32 \<le> c \<and> c \<le> 126)" for c
    using key_for_total [of c] key_for_typeable [of c] by (auto simp: typeable_iff [symmetric])
  show ?thesis unfolding string_to_scancodes_concat
  proof (induction s)
    case (Cons c s)
    then show ?case using mapped [of c] by (auto simp: decode_char split: option.split)
  qed simp
qed

end
