(* ===== verification/F80.thy ===== *)
theory F80
  imports Prelude Complex_Main
begin

text \<open>
  The software 80-bit float of the x87 stack (\<^verbatim>\<open>crates/cpu/src/f80.rs\<close>).  A value carries a sign, a
  class, an \<^verbatim>\<open>i32\<close> exponent (an \<open>int\<close> here, with the wrap-around of the release build written out by
  \<open>i32\<close>) and a 64-bit mantissa (a \<open>nat\<close>; shifts are \<open>push_bit\<close> and \<open>drop_bit\<close>, masking by \<open>2 ^ k - 1\<close> is
  \<open>take_bit k\<close>, and the casts to \<^verbatim>\<open>u64\<close> are \<open>take_bit 64\<close>).  The main results: add, sub, mul, div and
  sqrt return the representable value nearest to the exact real result, ties to even; comparison is
  the order of the reals; the 80-bit memory encoding round-trips.  \<^verbatim>\<open>from_f64\<close> is
  modelled on the bit pattern; \<^verbatim>\<open>to_f64\<close> and \<^verbatim>\<open>from_f32\<close>, which run host arithmetic, are in \<open>F64\<close>.
\<close>

section \<open>Data\<close>

datatype cls = Cls_Zero | Cls_Normal | Cls_Inf | Cls_Nan

record f80 =
  f_sign :: bool
  f_cls :: cls
  f_exp :: int
  f_mant :: nat

definition i32 :: "int \<Rightarrow> int" where "i32 x = (x + 2 ^ 31) mod 2 ^ 32 - 2 ^ 31"

definition i64 :: "int \<Rightarrow> int" where "i64 x = (x + 2 ^ 63) mod 2 ^ 64 - 2 ^ 63"

definition F80_ZERO :: f80 where
  "F80_ZERO = \<lparr>f_sign = False, f_cls = Cls_Zero, f_exp = 0, f_mant = 0\<rparr>"

definition f80_zero :: "bool \<Rightarrow> f80" where
  "f80_zero s = \<lparr>f_sign = s, f_cls = Cls_Zero, f_exp = 0, f_mant = 0\<rparr>"

definition f80_inf :: "bool \<Rightarrow> f80" where
  "f80_inf s = \<lparr>f_sign = s, f_cls = Cls_Inf, f_exp = 0, f_mant = 0\<rparr>"

definition f80_nan :: f80 where
  "f80_nan = \<lparr>f_sign = False, f_cls = Cls_Nan, f_exp = 0, f_mant = 0\<rparr>"

definition f80_is_nan :: "f80 \<Rightarrow> bool" where "f80_is_nan x \<longleftrightarrow> f_cls x = Cls_Nan"
definition f80_is_inf :: "f80 \<Rightarrow> bool" where "f80_is_inf x \<longleftrightarrow> f_cls x = Cls_Inf"
definition f80_is_zero :: "f80 \<Rightarrow> bool" where "f80_is_zero x \<longleftrightarrow> f_cls x = Cls_Zero"

definition f80_abs :: "f80 \<Rightarrow> f80" where "f80_abs x = x\<lparr>f_sign := False\<rparr>"

text \<open>The bit length \<^verbatim>\<open>128 - leading_zeros\<close>, and the integer square root of the standard library.\<close>

fun bitlen :: "nat \<Rightarrow> nat" where
  "bitlen n = (if n = 0 then 0 else Suc (bitlen (n div 2)))"

declare bitlen.simps [simp del]

fun isqrt :: "nat \<Rightarrow> nat" where
  "isqrt n = (if n = 0 then 0 else let r = 2 * isqrt (n div 4) in if (r + 1) * (r + 1) \<le> n then r + 1 else r)"

declare isqrt.simps [simp del]

section \<open>Rounding\<close>

definition round_from :: "bool \<Rightarrow> int \<Rightarrow> nat \<Rightarrow> bool \<Rightarrow> f80" where
  "round_from s e sig sticky =
     (if sig = 0 then f80_zero False
      else
        let n = bitlen sig; ex = i32 (e + int n - 1);
            (mant, round_bit, sticky_bit) =
              (if 64 < n then
                 let dropped = n - 64; rem = take_bit dropped sig
                 in (take_bit 64 (drop_bit dropped sig), bit rem (dropped - 1),
                     take_bit (dropped - 1) rem \<noteq> 0 \<or> sticky)
               else (take_bit 64 (push_bit (64 - n) (take_bit 64 sig)), False, sticky))
        in if round_bit \<and> (sticky_bit \<or> odd mant) then
             let mant' = take_bit 64 (mant + 1)
             in if mant' = 0 then \<lparr>f_sign = s, f_cls = Cls_Normal, f_exp = i32 (ex + 1), f_mant = 2 ^ 63\<rparr>
                else \<lparr>f_sign = s, f_cls = Cls_Normal, f_exp = ex, f_mant = mant'\<rparr>
           else \<lparr>f_sign = s, f_cls = Cls_Normal, f_exp = ex, f_mant = mant\<rparr>)"

section \<open>Conversions\<close>

definition from_f64 :: "u64 \<Rightarrow> f80" where
  "from_f64 bits =
     (let s = drop_bit 63 bits \<noteq> 0; ex = uint (drop_bit 52 bits AND 0x7FF);
          frac = unat (bits AND 0x000FFFFFFFFFFFFF)
      in if ex = 0x7FF then (if frac = 0 then f80_inf s else f80_nan)
         else if ex = 0 then
           (if frac = 0 then f80_zero s else round_from s (- 1022 - 52) frac False)
         else round_from s (ex - 1023 - 52) (2 ^ 52 OR frac) False)"

definition from_i64 :: "int \<Rightarrow> f80" where
  "from_i64 v = (if v = 0 then f80_zero False else round_from (v < 0) 0 (nat \<bar>v\<bar>) False)"

definition to_int :: "f80 \<Rightarrow> bool \<Rightarrow> int" where
  "to_int x trunc =
     (case f_cls x of
        Cls_Zero \<Rightarrow> 0
      | Cls_Inf \<Rightarrow> - (2 ^ 63)
      | Cls_Nan \<Rightarrow> - (2 ^ 63)
      | Cls_Normal \<Rightarrow>
          if f_exp x < 0 then
            if trunc then 0
            else let rounded = (if f_exp x = - 1 then (if f_mant x = 2 ^ 63 then 0 else 1) else 0)
                 in if f_sign x then - rounded else rounded
          else if 63 \<le> f_exp x then - (2 ^ 63)
          else
            let shift = nat (63 - f_exp x); intpart = drop_bit shift (f_mant x); frac = take_bit shift (f_mant x);
                half = 2 ^ (shift - 1);
                mag = (if \<not> trunc \<and> (half < frac \<or> frac = half \<and> odd intpart) then intpart + 1 else intpart)
            in if f_sign x then i64 (- i64 (int mag)) else i64 (int mag))"

definition to_i64_round :: "f80 \<Rightarrow> int" where "to_i64_round x = to_int x False"
definition to_i64_trunc :: "f80 \<Rightarrow> int" where "to_i64_trunc x = to_int x True"

section \<open>Comparison\<close>

datatype ordering = Less | Equal | Greater

fun ordering_reverse :: "ordering \<Rightarrow> ordering" where
  "ordering_reverse Less = Greater"
| "ordering_reverse Equal = Equal"
| "ordering_reverse Greater = Less"

definition cmp_of :: "'a::linorder \<Rightarrow> 'a \<Rightarrow> ordering" where
  "cmp_of a b = (if a < b then Less else if a = b then Equal else Greater)"

fun cls_rank :: "cls \<Rightarrow> nat" where
  "cls_rank Cls_Zero = 0"
| "cls_rank Cls_Normal = 1"
| "cls_rank Cls_Inf = 2"
| "cls_rank Cls_Nan = 3"

definition cmp_mag :: "f80 \<Rightarrow> f80 \<Rightarrow> ordering" where
  "cmp_mag x y =
     (case cmp_of (cls_rank (f_cls x)) (cls_rank (f_cls y)) of
        Equal \<Rightarrow>
          if f_cls x = Cls_Normal then
            (case cmp_of (f_exp x) (f_exp y) of Equal \<Rightarrow> cmp_of (f_mant x) (f_mant y) | r \<Rightarrow> r)
          else Equal
      | r \<Rightarrow> r)"

definition f80_partial_cmp :: "f80 \<Rightarrow> f80 \<Rightarrow> ordering option" where
  "f80_partial_cmp x y =
     (if f_cls x = Cls_Nan \<or> f_cls y = Cls_Nan then None
      else if f_cls x = Cls_Zero \<and> f_cls y = Cls_Zero then Some Equal
      else if f_sign x \<noteq> f_sign y then Some (if f_sign x then Less else Greater)
      else Some (if f_sign x then ordering_reverse (cmp_mag x y) else cmp_mag x y))"

definition f80_is_subnormal :: "f80 \<Rightarrow> bool" where
  "f80_is_subnormal x \<longleftrightarrow> f_cls x = Cls_Normal \<and> f_exp x < - 16382"

section \<open>The 80-bit memory format\<close>

definition from_f80_parts :: "nat \<Rightarrow> u16 \<Rightarrow> f80" where
  "from_f80_parts mant se =
     (let s = se AND 0x8000 \<noteq> 0; exp_field = uint (se AND 0x7FFF)
      in if exp_field = 0x7FFF then
           (if take_bit 63 mant = 0 then f80_inf s
            else \<lparr>f_sign = s, f_cls = Cls_Nan, f_exp = 0, f_mant = 0\<rparr>)
         else if mant = 0 then f80_zero s
         else
           let eff = (if exp_field = 0 then 1 else exp_field)
           in round_from s (eff - 16383 - 63) mant False)"

definition to_f80_parts :: "f80 \<Rightarrow> nat \<times> u16" where
  "to_f80_parts x =
     (let sign16 = (if f_sign x then 0x8000 else 0) :: u16 in
      case f_cls x of
        Cls_Zero \<Rightarrow> (0, sign16)
      | Cls_Inf \<Rightarrow> (2 ^ 63, sign16 OR 0x7FFF)
      | Cls_Nan \<Rightarrow> (0xC000000000000000, sign16 OR 0x7FFF)
      | Cls_Normal \<Rightarrow>
          let biased = i32 (f_exp x + 16383)
          in if 0x7FFF \<le> biased then (2 ^ 63, sign16 OR 0x7FFF)
             else if biased \<le> 0 then
               let sh = i32 (1 - biased)
               in if 64 \<le> sh then (0, sign16) else (drop_bit (nat sh) (f_mant x), sign16)
             else (f_mant x, sign16 OR word_of_int biased))"

section \<open>Integer rounding and scaling\<close>

definition has_fraction :: "f80 \<Rightarrow> bool" where
  "has_fraction x \<longleftrightarrow>
     f_cls x = Cls_Normal \<and>
     (if f_exp x < 0 then True else if 63 \<le> f_exp x then False
      else take_bit (nat (63 - f_exp x)) (f_mant x) \<noteq> 0)"

definition to_i64_rc :: "f80 \<Rightarrow> u8 \<Rightarrow> int" where
  "to_i64_rc x rc =
     (if rc AND 3 = 0 then to_i64_round x
      else if rc AND 3 = 3 then to_i64_trunc x
      else if rc AND 3 = 1 then
        (let t = to_i64_trunc x in if f_sign x \<and> has_fraction x then i64 (t - 1) else t)
      else (let t = to_i64_trunc x in if \<not> f_sign x \<and> has_fraction x then i64 (t + 1) else t))"

definition round_to_integer :: "f80 \<Rightarrow> u8 \<Rightarrow> f80" where
  "round_to_integer x rc =
     (if f_cls x = Cls_Normal \<and> f_exp x < 63 then from_i64 (to_i64_rc x rc) else x)"

definition scale2 :: "f80 \<Rightarrow> int \<Rightarrow> f80" where
  "scale2 x n =
     (if f_cls x = Cls_Normal then x\<lparr>f_exp := max (- (2 ^ 31)) (min (2 ^ 31 - 1) (f_exp x + n))\<rparr> else x)"

definition exponent_f80 :: "f80 \<Rightarrow> f80" where
  "exponent_f80 x =
     (case f_cls x of
        Cls_Normal \<Rightarrow> from_i64 (f_exp x)
      | Cls_Zero \<Rightarrow> f80_inf True
      | Cls_Inf \<Rightarrow> f80_inf False
      | Cls_Nan \<Rightarrow> f80_nan)"

definition significand :: "f80 \<Rightarrow> f80" where
  "significand x = (if f_cls x = Cls_Normal then x\<lparr>f_exp := 0\<rparr> else x)"

section \<open>Arithmetic\<close>

definition sqrt_mant :: "nat \<Rightarrow> int \<Rightarrow> f80" where
  "sqrt_mant m f =
     (let s = isqrt m; rem = m - s * s; sexp = i32 (f div 2 + 63)
      in if s < rem then
           let up = s + 1
           in if drop_bit 64 up \<noteq> 0
              then \<lparr>f_sign = False, f_cls = Cls_Normal, f_exp = i32 (sexp + 1), f_mant = 2 ^ 63\<rparr>
              else \<lparr>f_sign = False, f_cls = Cls_Normal, f_exp = sexp, f_mant = take_bit 64 up\<rparr>
         else \<lparr>f_sign = False, f_cls = Cls_Normal, f_exp = sexp, f_mant = take_bit 64 s\<rparr>)"

definition f80_sqrt :: "f80 \<Rightarrow> f80" where
  "f80_sqrt x =
     (case f_cls x of
        Cls_Nan \<Rightarrow> f80_nan
      | Cls_Zero \<Rightarrow> x
      | Cls_Inf \<Rightarrow> if f_sign x then f80_nan else x
      | Cls_Normal \<Rightarrow>
          if f_sign x then f80_nan
          else
            let m = push_bit 63 (f_mant x); f = i32 (f_exp x - 126)
            in if odd f then sqrt_mant (take_bit 128 (push_bit 1 m)) (i32 (f - 1)) else sqrt_mant m f)"

definition f80_neg :: "f80 \<Rightarrow> f80" where "f80_neg x = x\<lparr>f_sign := \<not> f_sign x\<rparr>"

definition f80_mul :: "f80 \<Rightarrow> f80 \<Rightarrow> f80" where
  "f80_mul x y =
     (let s = (f_sign x \<noteq> f_sign y) in
      if f_cls x = Cls_Nan \<or> f_cls y = Cls_Nan then f80_nan
      else if f_cls x = Cls_Inf \<and> f_cls y = Cls_Zero \<or> f_cls x = Cls_Zero \<and> f_cls y = Cls_Inf then f80_nan
      else if f_cls x = Cls_Inf \<or> f_cls y = Cls_Inf then f80_inf s
      else if f_cls x = Cls_Zero \<or> f_cls y = Cls_Zero then f80_zero s
      else round_from s (i32 (f_exp x + f_exp y - 126)) (f_mant x * f_mant y) False)"

definition add_ordered :: "f80 \<Rightarrow> f80 \<Rightarrow> f80" where
  "add_ordered a b =
     (let diff = nat ((f_exp a - f_exp b) mod 2 ^ 32);
          av = push_bit 63 (f_mant a);
          bs = (if 128 \<le> diff then (0, True)
                else (drop_bit diff (push_bit 63 (f_mant b)), take_bit diff (push_bit 63 (f_mant b)) \<noteq> 0));
          base_e = i32 (f_exp a - 126)
      in if f_sign a = f_sign b then round_from (f_sign a) base_e (av + fst bs) (snd bs)
         else
           let sig = (if snd bs then av - fst bs - 1 else av - fst bs)
           in if sig = 0 then f80_zero False else round_from (f_sign a) base_e sig (snd bs))"

definition add_normal :: "f80 \<Rightarrow> f80 \<Rightarrow> f80" where
  "add_normal x y = (if cmp_mag x y = Less then add_ordered y x else add_ordered x y)"

definition f80_add :: "f80 \<Rightarrow> f80 \<Rightarrow> f80" where
  "f80_add x y =
     (if f_cls x = Cls_Nan \<or> f_cls y = Cls_Nan then f80_nan
      else if f_cls x = Cls_Inf \<and> f_cls y = Cls_Inf then (if f_sign x = f_sign y then f80_inf (f_sign x) else f80_nan)
      else if f_cls x = Cls_Inf then f80_inf (f_sign x)
      else if f_cls y = Cls_Inf then f80_inf (f_sign y)
      else if f_cls x = Cls_Zero \<and> f_cls y = Cls_Zero then f80_zero (f_sign x \<and> f_sign y)
      else if f_cls x = Cls_Zero then y
      else if f_cls y = Cls_Zero then x
      else add_normal x y)"

definition f80_sub :: "f80 \<Rightarrow> f80 \<Rightarrow> f80" where "f80_sub x y = f80_add x (f80_neg y)"

definition f80_div :: "f80 \<Rightarrow> f80 \<Rightarrow> f80" where
  "f80_div x y =
     (let s = (f_sign x \<noteq> f_sign y) in
      if f_cls x = Cls_Nan \<or> f_cls y = Cls_Nan then f80_nan
      else if f_cls x = Cls_Inf \<and> f_cls y = Cls_Inf \<or> f_cls x = Cls_Zero \<and> f_cls y = Cls_Zero then f80_nan
      else if f_cls x = Cls_Inf then f80_inf s
      else if f_cls y = Cls_Inf then f80_zero s
      else if f_cls y = Cls_Zero then f80_inf s
      else if f_cls x = Cls_Zero then f80_zero s
      else
        let num = push_bit 64 (f_mant x); den = f_mant y; q = num div den; rem = num mod den;
            guard = push_bit 2 rem div den; sig = push_bit 2 q OR guard;
            sticky = (push_bit 2 rem mod den \<noteq> 0)
        in round_from s (i32 (f_exp x - f_exp y - 66)) sig sticky)"

section \<open>What a value denotes and what rounding means\<close>

definition fv :: "nat \<Rightarrow> int \<Rightarrow> real" where "fv m k = real m * 2 powi (k - 63)"

definition f80_val :: "f80 \<Rightarrow> real" where
  "f80_val x = (if f_cls x = Cls_Normal then (if f_sign x then - 1 else 1) * fv (f_mant x) (f_exp x) else 0)"

definition normal_mant :: "nat \<Rightarrow> bool" where "normal_mant m \<longleftrightarrow> 2 ^ 63 \<le> m \<and> m < 2 ^ 64"

text \<open>
  \<open>m \<cdot> 2 ^ (k - 63)\<close> is the value with a 64-bit normalized mantissa nearest to \<open>y\<close>; when another one
  is equally near, \<open>m\<close> is even.
\<close>

definition nearest_even :: "real \<Rightarrow> nat \<Rightarrow> int \<Rightarrow> bool" where
  "nearest_even y m k \<longleftrightarrow> normal_mant m \<and>
     (\<forall>m' k'. normal_mant m' \<longrightarrow> \<bar>fv m k - y\<bar> \<le> \<bar>fv m' k' - y\<bar> \<and>
        (\<bar>fv m' k' - y\<bar> = \<bar>fv m k - y\<bar> \<longrightarrow> fv m' k' \<noteq> fv m k \<longrightarrow> even m))"

definition rounds :: "real \<Rightarrow> f80 \<Rightarrow> bool" where
  "rounds y r \<longleftrightarrow>
     (if y = 0 then f_cls r = Cls_Zero
      else f_cls r = Cls_Normal \<and> f_sign r = (y < 0) \<and> nearest_even \<bar>y\<bar> (f_mant r) (f_exp r))"

definition f80_wf :: "f80 \<Rightarrow> bool" where "f80_wf x \<longleftrightarrow> (f_cls x = Cls_Normal \<longrightarrow> normal_mant (f_mant x))"

definition exp_small :: "f80 \<Rightarrow> bool" where "exp_small x \<longleftrightarrow> \<bar>f_exp x\<bar> < 2 ^ 29"

definition f80_finite :: "f80 \<Rightarrow> bool" where "f80_finite x \<longleftrightarrow> f_cls x = Cls_Zero \<or> f_cls x = Cls_Normal"

section \<open>The grid of representable values\<close>

lemma i32_small: "\<bar>x\<bar> < 2 ^ 31 \<Longrightarrow> i32 x = x"
  by (simp add: i32_def)

lemma fv_pos: "normal_mant m \<Longrightarrow> 0 < fv m k"
  by (auto simp: fv_def normal_mant_def)

lemma fv_shift: "k \<le> k' \<Longrightarrow> fv m k' = real (m * 2 ^ nat (k' - k)) * 2 powi (k - 63)"
proof -
  assume "k \<le> k'"
  then have "(2 :: real) powi (k' - 63) = 2 powi (k' - k) * 2 powi (k - 63)"
    by (simp flip: power_int_add)
  moreover have "(2 :: real) powi (k' - k) = 2 ^ nat (k' - k)"
    using \<open>k \<le> k'\<close> by (simp add: power_int_def)
  ultimately show ?thesis by (simp add: fv_def)
qed

lemma fv_less_binade:
  assumes "normal_mant m" "normal_mant m'" "k' < k"
  shows "fv m' k' < fv m k"
proof -
  have "m' < 2 ^ 64" "2 ^ 63 \<le> m" using assms by (auto simp: normal_mant_def)
  moreover have "(2 :: nat) ^ 64 \<le> 2 ^ 63 * 2 ^ nat (k - k')"
    using assms(3) power_increasing [of 1 "nat (k - k')" "2::nat"] by simp
  ultimately have "m' < m * 2 ^ nat (k - k')"
    by (meson le_trans less_le_trans mult_le_mono1)
  then have "real m' < real (m * 2 ^ nat (k - k'))" using of_nat_less_iff by blast
  then have "fv m' k' < real (m * 2 ^ nat (k - k')) * 2 powi (k' - 63)"
    unfolding fv_def by (intro mult_strict_right_mono) simp_all
  then show ?thesis using assms(3) fv_shift [of k' k m] by simp
qed

text \<open>Nothing is representable strictly between two neighbours of a binade.\<close>

lemma fv_gap:
  assumes "normal_mant m" "normal_mant m'" "fv m k < fv m' k'"
  shows "real (m + 1) * 2 powi (k - 63) \<le> fv m' k'"
proof -
  have le: "k \<le> k'"
    using fv_less_binade [OF assms(1,2), of k' k] assms(3) by linarith
  have "real m < real (m' * 2 ^ nat (k' - k))"
    using assms(3) unfolding fv_shift [OF le, of m'] by (simp add: fv_def)
  then have "m + 1 \<le> m' * 2 ^ nat (k' - k)" by linarith
  then have "real (m + 1) \<le> real (m' * 2 ^ nat (k' - k))" using of_nat_le_iff by blast
  then show ?thesis
    unfolding fv_shift [OF le, of m'] by (intro mult_right_mono) simp_all
qed

definition round_up :: "real \<Rightarrow> nat \<Rightarrow> bool" where
  "round_up X m \<longleftrightarrow> 1 / 2 < X - real m \<or> X - real m = 1 / 2 \<and> odd m"

lemma nearest_down:
  assumes "normal_mant m" "real m \<le> X" "X < real m + 1" "\<not> round_up X m"
  shows "nearest_even (X * 2 powi (k - 63)) m k"
proof -
  define g :: real where "g = 2 powi (k - 63)"
  have g: "0 < g" by (simp add: g_def)
  have fvm: "fv m k = real m * g" by (simp add: fv_def g_def)
  have near: "X - real m \<le> 1 / 2" and tie: "X - real m = 1 / 2 \<Longrightarrow> even m"
    using assms(4) by (auto simp: round_up_def)
  have below: "fv m k \<le> X * g" using assms(2) g by (simp add: fvm)
  have half: "X * g - real m * g \<le> g / 2"
  proof -
    have "(X - real m) * g \<le> 1 / 2 * g" using near g by (intro mult_right_mono) auto
    then show ?thesis by (simp add: left_diff_distrib)
  qed
  {
    fix m' k' assume nm: "normal_mant m'"
    consider "fv m' k' < fv m k" | "fv m' k' = fv m k" | "fv m k < fv m' k'" by linarith
    then have "\<bar>fv m k - X * g\<bar> \<le> \<bar>fv m' k' - X * g\<bar> \<and>
      (\<bar>fv m' k' - X * g\<bar> = \<bar>fv m k - X * g\<bar> \<longrightarrow> fv m' k' \<noteq> fv m k \<longrightarrow> even m)"
    proof cases
      case 3
      have up: "(real m + 1) * g \<le> fv m' k'" using fv_gap [OF assms(1) nm 3] by (simp add: g_def add.commute)
      have d: "\<bar>fv m k - X * g\<bar> = X * g - real m * g" using below by (simp add: fvm)
      have "X * g < (real m + 1) * g" using assms(3) g by simp
      then have d': "\<bar>fv m' k' - X * g\<bar> = fv m' k' - X * g" using up by simp
      have expand: "(real m + 1) * g = real m * g + g" by (simp add: algebra_simps)
      have even: "even m" if "fv m' k' - X * g = X * g - real m * g"
      proof -
        have "X * g - real m * g = g / 2" using that half up expand by linarith
        then have "(X - real m) * g = 1 / 2 * g" by (simp add: algebra_simps)
        then show ?thesis using g tie by simp
      qed
      show ?thesis using half up expand even unfolding d d' by linarith
    qed (use below in auto)
  }
  then show ?thesis using assms(1) unfolding nearest_even_def g_def by blast
qed

lemma nearest_up_aux:
  assumes "normal_mant m" "real m \<le> X" "X < real m + 1" "round_up X m"
    and nr: "normal_mant r" and fvr: "fv r j = (real m + 1) * 2 powi (k - 63)" and ev: "odd m \<Longrightarrow> even r"
    and tie0: "even m \<Longrightarrow> X - real m \<noteq> 1 / 2"
  shows "nearest_even (X * 2 powi (k - 63)) r j"
proof -
  define g :: real where "g = 2 powi (k - 63)"
  have g: "0 < g" by (simp add: g_def)
  have fvm: "fv m k = real m * g" by (simp add: fv_def g_def)
  have fvr': "fv r j = real m * g + g" by (simp add: fvr g_def algebra_simps)
  have near: "1 / 2 \<le> X - real m" using assms(4) by (auto simp: round_up_def)
  have above: "X * g < fv r j"
  proof -
    have "X * g < (real m + 1) * g" using assms(3) g by simp
    then show ?thesis by (simp add: fvr' algebra_simps)
  qed
  have half: "g / 2 \<le> X * g - real m * g"
  proof -
    have "1 / 2 * g \<le> (X - real m) * g" using near g by (intro mult_right_mono) auto
    then show ?thesis by (simp add: left_diff_distrib)
  qed
  {
    fix m' k' assume nm: "normal_mant m'"
    consider "fv m' k' \<le> fv m k" | "fv m k < fv m' k'" by linarith
    then have "\<bar>fv r j - X * g\<bar> \<le> \<bar>fv m' k' - X * g\<bar> \<and>
      (\<bar>fv m' k' - X * g\<bar> = \<bar>fv r j - X * g\<bar> \<longrightarrow> fv m' k' \<noteq> fv r j \<longrightarrow> even r)"
    proof cases
      case 1
      have "real m * g \<le> X * g" using assms(2) g by simp
      then have d': "\<bar>fv m' k' - X * g\<bar> = X * g - fv m' k'" using 1 fvm by linarith
      have d: "\<bar>fv r j - X * g\<bar> = real m * g + g - X * g" using above fvr' by linarith
      have "even r" if "X * g - fv m' k' = real m * g + g - X * g"
      proof -
        have "X * g - real m * g = g / 2" using that half 1 fvm by linarith
        then have "(X - real m) * g = 1 / 2 * g" by (simp add: algebra_simps)
        then have "X - real m = 1 / 2" using g by simp
        then show ?thesis using ev tie0 by blast
      qed
      then show ?thesis using half 1 fvm unfolding d d' by linarith
    next
      case 2
      have up: "fv r j \<le> fv m' k'" using fv_gap [OF assms(1) nm 2] fvr by (simp add: add.commute)
      then show ?thesis using above by auto
    qed
  }
  then show ?thesis using nr unfolding nearest_even_def g_def by blast
qed

lemma nearest_up:
  assumes "normal_mant m" "real m \<le> X" "X < real m + 1" "round_up X m"
  shows "if m + 1 = 2 ^ 64 then nearest_even (X * 2 powi (k - 63)) (2 ^ 63) (k + 1)
         else nearest_even (X * 2 powi (k - 63)) (m + 1) k"
proof (cases "m + 1 = 2 ^ 64")
  case True
  have "(2 :: real) powi (k + 1 - 63) = 2 * 2 powi (k - 63)"
    using power_int_add_1 [of "2::real" "k - 63"] by (simp add: algebra_simps)
  moreover have m: "real m + 1 = 2 ^ 64" using True by (metis of_nat_1 of_nat_add of_nat_numeral of_nat_power)
  ultimately have "fv (2 ^ 63) (k + 1) = (real m + 1) * 2 powi (k - 63)" by (simp add: fv_def)
  moreover have "odd m"
  proof -
    have "even (m + 1)" unfolding True by simp
    then show ?thesis by simp
  qed
  ultimately show ?thesis
    using nearest_up_aux [OF assms, of "2 ^ 63" "k + 1" k] True by (simp add: normal_mant_def)
next
  case False
  then have "normal_mant (m + 1)" using assms(1) by (auto simp: normal_mant_def)
  moreover have "fv (m + 1) k = (real m + 1) * 2 powi (k - 63)" by (simp add: fv_def add.commute)
  moreover have "even m \<Longrightarrow> X - real m \<noteq> 1 / 2"
    using assms(4) by (auto simp: round_up_def)
  ultimately show ?thesis using nearest_up_aux [OF assms, of "m + 1" k k] False by simp
qed

section \<open>The rounding routine\<close>

lemma bitlen_pos: "0 < n \<Longrightarrow> 0 < bitlen n"
  by (simp add: bitlen.simps [of n])

lemma bitlen_bounds: "0 < n \<Longrightarrow> 2 ^ (bitlen n - 1) \<le> n \<and> n < 2 ^ bitlen n"
proof (induction n rule: bitlen.induct)
  case (1 n)
  show ?case
  proof (cases "n = 1")
    case True
    then show ?thesis by (simp add: bitlen.simps [of "Suc 0"] bitlen.simps [of 0])
  next
    case False
    with 1 have d: "0 < n div 2" by auto
    with 1 have ih: "2 ^ (bitlen (n div 2) - 1) \<le> n div 2 \<and> n div 2 < 2 ^ bitlen (n div 2)" by simp
    obtain b where b: "bitlen (n div 2) = Suc b" using bitlen_pos [OF d] by (cases "bitlen (n div 2)") auto
    have "bitlen n = Suc (Suc b)" using 1 b by (simp add: bitlen.simps [of n])
    then show ?thesis using ih b by auto
  qed
qed

lemma bitlen_eqI: "2 ^ k \<le> n \<Longrightarrow> n < 2 ^ Suc k \<Longrightarrow> bitlen n = Suc k"
proof -
  assume a: "2 ^ k \<le> n" "n < 2 ^ Suc k"
  have n: "0 < n" using a(1) by (meson less_le_trans pos2 zero_less_power)
  have b: "2 ^ (bitlen n - 1) \<le> n" "n < 2 ^ bitlen n" using bitlen_bounds [OF n] by auto
  have "(2 :: nat) ^ (bitlen n - 1) < 2 ^ Suc k" "(2 :: nat) ^ k < 2 ^ bitlen n" using a b by linarith+
  then have "bitlen n - 1 < Suc k" "k < bitlen n" using power_less_imp_less_exp one_less_numeral_iff semiring_norm(76) by blast+
  then show ?thesis by simp
qed

lemma real_pow2_bound: "a < 2 ^ d \<Longrightarrow> real a + 1 \<le> 2 ^ d"
proof -
  assume "a < 2 ^ d"
  then have "real (a + 1) \<le> real (2 ^ d)" unfolding of_nat_le_iff by simp
  then show ?thesis by simp
qed

lemma take_bit_top: "take_bit (Suc n) a = of_bool (bit a n) * 2 ^ n + take_bit n (a :: nat)"
  using mod_mult2_eq [of a "2 ^ n" 2]
  by (simp add: take_bit_eq_mod bit_iff_odd mod_2_eq_odd mult.commute)

lemma real_div_mod: "real a = real (a div 2 ^ d) * 2 ^ d + real (a mod 2 ^ d)"
proof -
  have "real a = real (a div 2 ^ d * 2 ^ d + a mod 2 ^ d)" by (simp only: div_mult_mod_eq)
  then show ?thesis unfolding of_nat_add of_nat_mult of_nat_power of_nat_numeral .
qed

lemma low_bits_split:
  assumes "0 < d"
  shows "real (a mod 2 ^ d) = of_bool (bit (take_bit d a) (d - 1)) * 2 ^ (d - 1) + real (take_bit (d - 1) (take_bit d a))"
proof -
  have Sd: "Suc (d - 1) = d" using assms by simp
  have "a mod 2 ^ d = of_bool (bit (take_bit d a) (d - 1)) * 2 ^ (d - 1) + take_bit (d - 1) (take_bit d a)"
    using take_bit_top [of "d - 1" "take_bit d a"]
    unfolding Sd take_bit_take_bit min.idem take_bit_eq_mod [symmetric] .
  then have "real (a mod 2 ^ d) =
      real (of_bool (bit (take_bit d a) (d - 1)) * 2 ^ (d - 1) + take_bit (d - 1) (take_bit d a))" by (simp only:)
  then show ?thesis by simp
qed

text \<open>Cutting \<open>d\<close> bits off: the round bit and the sticky bit decide which neighbour is nearer.\<close>

lemma cut_round_up:
  fixes d sig :: nat
  assumes d: "0 < d" and Y: "real sig \<le> Y" "Y < real sig + 1" "sticky \<longleftrightarrow> Y \<noteq> real sig"
  defines "m \<equiv> sig div 2 ^ d" and "X \<equiv> Y / 2 ^ d"
  shows "real m \<le> X" and "X < real m + 1"
    and "round_up X m \<longleftrightarrow>
      bit (take_bit d sig) (d - 1) \<and> (take_bit (d - 1) (take_bit d sig) \<noteq> 0 \<or> sticky \<or> odd m)"
proof -
  define q where "q = sig mod 2 ^ d"
  define l where "l = take_bit (d - 1) (take_bit d sig)"
  define rb where "rb = bit (take_bit d sig) (d - 1)"
  have sq: "real sig = real m * 2 ^ d + real q" unfolding m_def q_def by (rule real_div_mod)
  have q: "real q + 1 \<le> 2 ^ d" by (rule real_pow2_bound) (simp add: q_def)
  have l: "real l + 1 \<le> 2 ^ (d - 1)" by (rule real_pow2_bound) (simp add: l_def)
  have ql: "real q = of_bool rb * 2 ^ (d - 1) + real l"
    unfolding q_def l_def rb_def using d by (rule low_bits_split)
  have "real m * 2 ^ d \<le> Y" using Y(1) sq by simp
  then show "real m \<le> X" by (simp add: X_def pos_le_divide_eq)
  have "Y < (real m + 1) * 2 ^ d" using Y(2) sq q by (simp add: algebra_simps)
  then show "X < real m + 1" by (simp add: X_def pos_divide_less_eq)
  have dd: "(2 :: real) ^ d = 2 * 2 ^ (d - 1)" using d by (simp flip: power_Suc)
  have Xm: "X - real m = (real q + (Y - real sig)) / (2 * 2 ^ (d - 1))"
    unfolding X_def dd [symmetric] using sq by (simp add: field_simps)
  have "round_up X m \<longleftrightarrow> rb \<and> (l \<noteq> 0 \<or> sticky \<or> odd m)"
  proof (cases rb)
    case True
    then have "X - real m = 1 / 2 + (real l + (Y - real sig)) / (2 * 2 ^ (d - 1))"
      unfolding Xm ql by (simp add: field_simps)
    moreover have "0 < real l + (Y - real sig) \<longleftrightarrow> l \<noteq> 0 \<or> sticky" using Y(1,3) by auto
    moreover have "0 \<le> real l + (Y - real sig)" using Y(1) by simp
    ultimately show ?thesis using True unfolding round_up_def
      by (smt (verit) divide_eq_0_iff divide_pos_pos zero_less_power)
  next
    case False
    have "real l + (Y - real sig) < 2 ^ (d - 1)" using l Y(2) by linarith
    then have "X - real m < 1 / 2" unfolding Xm ql using False by (simp add: field_simps)
    then show ?thesis using False by (auto simp: round_up_def)
  qed
  then show "round_up X m \<longleftrightarrow>
      bit (take_bit d sig) (d - 1) \<and> (take_bit (d - 1) (take_bit d sig) \<noteq> 0 \<or> sticky \<or> odd m)"
    by (simp only: rb_def l_def)
qed

lemma round_from_long:
  fixes d sig :: nat
  assumes n: "bitlen sig = d + 64" "0 < d" and Y: "real sig \<le> Y" "Y < real sig + 1" "sticky \<longleftrightarrow> Y \<noteq> real sig"
    and e: "\<bar>e\<bar> + int (bitlen sig) < 2 ^ 31 - 1"
  shows "f_cls (round_from s e sig sticky) = Cls_Normal \<and> f_sign (round_from s e sig sticky) = s \<and>
    nearest_even (Y * 2 powi e) (f_mant (round_from s e sig sticky)) (f_exp (round_from s e sig sticky))"
proof -
  define m where "m = sig div 2 ^ d"
  define ex where "ex = e + int (d + 64) - 1"
  have ex: "i32 (e + int (bitlen sig) - 1) = ex" "i32 (ex + 1) = ex + 1"
    unfolding ex_def using e n by (auto intro!: i32_small)
  have sig: "0 < sig" using n by (cases "sig = 0") (simp_all add: bitlen.simps)
  then have "2 ^ 63 * 2 ^ d \<le> sig" "sig < 2 ^ 64 * 2 ^ d"
    using bitlen_bounds [OF sig] n by (auto simp: power_add mult.commute)
  then have m: "normal_mant m" unfolding m_def normal_mant_def
    by (auto simp: less_mult_imp_div_less less_eq_div_iff_mult_less_eq)
  have mant: "take_bit 64 (drop_bit d sig) = m"
    using m by (simp add: m_def drop_bit_eq_div take_bit_eq_mod normal_mant_def)
  note cut = cut_round_up [OF n(2) Y, folded m_def]
  define up where "up \<longleftrightarrow> bit (take_bit d sig) (d - 1) \<and> (take_bit (d - 1) (take_bit d sig) \<noteq> 0 \<or> sticky \<or> odd m)"
  have r: "round_from s e sig sticky = (if up then
       (if take_bit 64 (m + 1) = 0 then \<lparr>f_sign = s, f_cls = Cls_Normal, f_exp = ex + 1, f_mant = 2 ^ 63\<rparr>
        else \<lparr>f_sign = s, f_cls = Cls_Normal, f_exp = ex, f_mant = take_bit 64 (m + 1)\<rparr>)
     else \<lparr>f_sign = s, f_cls = Cls_Normal, f_exp = ex, f_mant = m\<rparr>)"
    unfolding round_from_def using sig n ex mant by (auto simp: Let_def up_def)
  have m1: "take_bit 64 (m + 1) = (if m + 1 = 2 ^ 64 then 0 else m + 1)"
    using m by (auto simp: take_bit_eq_mod normal_mant_def)
  have "ex - 63 = e + int d" by (simp add: ex_def)
  then have val: "Y * 2 powi e = Y / 2 ^ d * 2 powi (ex - 63)" by (simp add: power_int_add)
  show ?thesis
  proof (cases up)
    case True
    then show ?thesis
      using nearest_up [OF m cut(1,2), of ex] cut(3) m1 unfolding val r by (auto simp: up_def simp del: One_nat_def)
  next
    case False
    then show ?thesis using nearest_down [OF m cut(1,2), of ex] cut(3) unfolding val r by (auto simp: up_def)
  qed
qed

lemma round_from_short:
  assumes sig: "0 < sig" and n: "bitlen sig \<le> 64" and e: "\<bar>e\<bar> + int (bitlen sig) < 2 ^ 31 - 1"
  shows "round_from s e sig False =
    \<lparr>f_sign = s, f_cls = Cls_Normal, f_exp = e + int (bitlen sig) - 1, f_mant = sig * 2 ^ (64 - bitlen sig)\<rparr>"
    and "normal_mant (sig * 2 ^ (64 - bitlen sig))"
proof -
  have b: "0 < bitlen sig" "2 ^ (bitlen sig - 1) \<le> sig" "sig < 2 ^ bitlen sig"
    using bitlen_pos bitlen_bounds sig by auto
  have p63: "(2 :: nat) ^ 63 = 2 ^ (bitlen sig - 1) * 2 ^ (64 - bitlen sig)"
    and p64: "(2 :: nat) ^ 64 = 2 ^ bitlen sig * 2 ^ (64 - bitlen sig)"
    using n b(1) by (simp_all flip: power_add)
  show m: "normal_mant (sig * 2 ^ (64 - bitlen sig))" unfolding normal_mant_def p63 p64 using b by simp
  have "sig < 2 ^ 64" using b(3) n power_increasing [of "bitlen sig" 64 "2::nat"] by simp
  moreover have "i32 (e + int (bitlen sig) - 1) = e + int (bitlen sig) - 1"
    using e b by (intro i32_small) auto
  ultimately show "round_from s e sig False =
    \<lparr>f_sign = s, f_cls = Cls_Normal, f_exp = e + int (bitlen sig) - 1, f_mant = sig * 2 ^ (64 - bitlen sig)\<rparr>"
    using sig n m by (simp add: round_from_def Let_def take_bit_nat_eq_self push_bit_eq_mult normal_mant_def)
qed

text \<open>
  \<open>round_from\<close> is given a significand that is the integer part of the true one, and a sticky bit
  saying whether anything was cut off.
\<close>

lemma round_from_rounds:
  fixes s :: bool
  assumes sig: "0 < sig" and Y: "real sig \<le> Y" "Y < real sig + 1" "sticky \<longleftrightarrow> Y \<noteq> real sig"
    and enough: "sticky \<Longrightarrow> 64 < bitlen sig" and e: "\<bar>e\<bar> + int (bitlen sig) < 2 ^ 31 - 1"
  defines "r \<equiv> round_from s e sig sticky"
  shows "f_cls r = Cls_Normal \<and> f_sign r = s \<and> nearest_even (Y * 2 powi e) (f_mant r) (f_exp r)"
proof (cases "64 < bitlen sig")
  case True
  then show ?thesis using round_from_long [OF _ _ Y e, of "bitlen sig - 64"] unfolding r_def by simp
next
  case False
  then have st: "\<not> sticky" using enough by auto
  have sh: "round_from s e sig False = \<lparr>f_sign = s, f_cls = Cls_Normal, f_exp = e + int (bitlen sig) - 1,
      f_mant = sig * 2 ^ (64 - bitlen sig)\<rparr>" "normal_mant (sig * 2 ^ (64 - bitlen sig))"
    using round_from_short [OF sig _ e] False by auto
  have "e = e + int (bitlen sig) - 1 - 63 + int (64 - bitlen sig)" using False by simp
  then have "(2 :: real) powi e = 2 powi (e + int (bitlen sig) - 1 - 63) * 2 ^ (64 - bitlen sig)"
    by (metis power_int_add power_int_of_nat zero_neq_numeral)
  then have "Y * 2 powi e = real (sig * 2 ^ (64 - bitlen sig)) * 2 powi (e + int (bitlen sig) - 1 - 63)"
    using Y(3) st by simp
  then show ?thesis
    using sh(1) st nearest_down [OF sh(2), of "real (sig * 2 ^ (64 - bitlen sig))" "e + int (bitlen sig) - 1"]
    unfolding r_def by (simp add: round_up_def)
qed

section \<open>Arithmetic is correctly rounded\<close>

lemma bitlen_le: "n < 2 ^ k \<Longrightarrow> bitlen n \<le> k"
proof (cases "n = 0")
  case False
  assume "n < 2 ^ k"
  then have "(2 :: nat) ^ (bitlen n - 1) < 2 ^ k" using bitlen_bounds [of n] False by linarith
  then have "bitlen n - 1 < k" using power_less_imp_less_exp one_less_numeral_iff semiring_norm(76) by blast
  then show ?thesis by simp
qed (simp add: bitlen.simps [of 0])

lemma bitlen_gt: "2 ^ k \<le> n \<Longrightarrow> k < bitlen n"
  using bitlen_bounds [of n] power_less_imp_less_exp [of "2::nat" k "bitlen n"]
  by (meson less_le_trans one_less_numeral_iff order.strict_trans1 pos2 semiring_norm(76) zero_less_power)

definition sgn_of :: "bool \<Rightarrow> real" where "sgn_of s = (if s then - 1 else 1)"

lemma rounds_round_from:
  assumes "0 < sig" "real sig \<le> Y" "Y < real sig + 1" "sticky \<longleftrightarrow> Y \<noteq> real sig"
    and "sticky \<Longrightarrow> 64 < bitlen sig" and "sig < 2 ^ 128" "\<bar>e\<bar> < 2 ^ 31 - 129"
  shows "rounds (sgn_of s * (Y * 2 powi e)) (round_from s e sig sticky)"
proof -
  have "bitlen sig \<le> 128" using assms(6) by (rule bitlen_le)
  then have "\<bar>e\<bar> + int (bitlen sig) < 2 ^ 31 - 1" using assms(7) by simp
  note r = round_from_rounds [OF assms(1-5) this, where s = s]
  have "0 < Y * 2 powi e" using assms(1,2) by simp
  then show ?thesis using r by (auto simp: rounds_def sgn_of_def)
qed

lemma or_disjoint_nat: "b < 2 ^ n \<Longrightarrow> push_bit n a OR b = a * 2 ^ n + (b :: nat)"
proof -
  assume "b < 2 ^ n"
  then have b: "take_bit n b = b" by (simp add: take_bit_nat_eq_self)
  have "push_bit n a AND b = 0"
  proof (rule bit_eqI)
    fix k show "bit (push_bit n a AND b) k = bit 0 k"
      using bit_take_bit_iff [of n b k] by (auto simp: b bit_and_iff bit_push_bit_iff_nat)
  qed
  then have "push_bit n a + b = push_bit n a OR b" by (rule disjunctive_add_eq_or)
  then show ?thesis by (simp add: push_bit_eq_mult)
qed

lemma mul_rounds:
  assumes "normal_mant mx" "normal_mant my" "\<bar>ex\<bar> < 2 ^ 29" "\<bar>ey\<bar> < 2 ^ 29"
  shows "rounds (sgn_of s * (fv mx ex * fv my ey)) (round_from s (i32 (ex + ey - 126)) (mx * my) False)"
proof -
  have e: "i32 (ex + ey - 126) = ex + ey - 126" using assms by (intro i32_small) simp
  have "mx * my < 2 ^ 64 * 2 ^ 64" using assms by (intro mult_strict_mono) (auto simp: normal_mant_def)
  moreover have "0 < mx * my" using assms by (auto simp: normal_mant_def)
  ultimately have "rounds (sgn_of s * (real (mx * my) * 2 powi (ex + ey - 126))) (round_from s (ex + ey - 126) (mx * my) False)"
    using assms(3,4) by (intro rounds_round_from) simp_all
  moreover have "(2 :: real) powi (ex + ey - 126) = 2 powi (ex - 63) * 2 powi (ey - 63)"
    by (simp flip: power_int_add)
  ultimately show ?thesis unfolding e fv_def by (simp add: mult.assoc mult.left_commute)
qed

lemma div_sig:
  fixes mx my :: nat
  assumes "normal_mant mx" "normal_mant my"
  defines "num \<equiv> push_bit 64 mx"
  shows "push_bit 2 (num div my) OR push_bit 2 (num mod my) div my = 4 * num div my"
    and "push_bit 2 (num mod my) mod my = 4 * num mod my"
    and "2 ^ 65 \<le> 4 * num div my" and "4 * num div my < 2 ^ 67"
proof -
  have my: "0 < my" "my < 2 ^ 64" "2 ^ 63 \<le> my" and mx: "2 ^ 63 \<le> mx" "mx < 2 ^ 64"
    using assms by (auto simp: normal_mant_def)
  have num: "num = mx * 2 ^ 64" by (simp add: num_def push_bit_eq_mult)
  have "4 * num = (4 * (num div my)) * my + 4 * (num mod my)"
    by (metis add_mult_distrib2 div_mult_mod_eq mult.assoc)
  then have split: "4 * num div my = 4 * (num div my) + 4 * (num mod my) div my"
      "4 * num mod my = 4 * (num mod my) mod my"
    using my by (metis div_mult_self3 less_not_refl, metis mod_mult_self3)
  have "4 * (num mod my) div my < 2 ^ 2"
    using my by (simp add: less_mult_imp_div_less)
  then show "push_bit 2 (num div my) OR push_bit 2 (num mod my) div my = 4 * num div my"
    using or_disjoint_nat [of "4 * (num mod my) div my" 2 "num div my"]
    unfolding split(1) by (simp add: push_bit_eq_mult mult.commute)
  show "push_bit 2 (num mod my) mod my = 4 * num mod my"
    unfolding split(2) by (simp add: push_bit_eq_mult mult.commute)
  have "2 ^ 65 * my \<le> 4 * num" using my mx unfolding num by simp
  then show "2 ^ 65 \<le> 4 * num div my" using my by (simp add: less_eq_div_iff_mult_less_eq)
  have "4 * num < 2 ^ 67 * my" using my mx unfolding num by simp
  then show "4 * num div my < 2 ^ 67" by (rule less_mult_imp_div_less)
qed

lemma div_rounds:
  fixes mx my :: nat
  assumes "normal_mant mx" "normal_mant my" "\<bar>ex\<bar> < 2 ^ 29" "\<bar>ey\<bar> < 2 ^ 29"
  defines "num \<equiv> push_bit 64 mx"
  shows "rounds (sgn_of s * (fv mx ex / fv my ey))
    (round_from s (i32 (ex - ey - 66)) (push_bit 2 (num div my) OR push_bit 2 (num mod my) div my)
      (push_bit 2 (num mod my) mod my \<noteq> 0))"
proof -
  have e: "i32 (ex - ey - 66) = ex - ey - 66" using assms by (intro i32_small) simp
  have my: "0 < my" using assms by (auto simp: normal_mant_def)
  define sig where "sig = 4 * num div my"
  note sg = div_sig [OF assms(1,2), folded num_def, folded sig_def]
  have num: "num = mx * 2 ^ 64" by (simp add: num_def push_bit_eq_mult)
  define Y where "Y = real (4 * num) / real my"
  have Y: "Y = real sig + real (4 * num mod my) / real my"
  proof -
    have "real (4 * num) = real (sig * my + 4 * num mod my)" unfolding sig_def by (simp only: div_mult_mod_eq)
    then show ?thesis using my unfolding Y_def by (simp add: add_divide_distrib)
  qed
  have frac: "0 \<le> real (4 * num mod my) / real my" "real (4 * num mod my) / real my < 1"
    using my by (auto simp: pos_divide_less_eq)
  have val: "fv mx ex / fv my ey = Y * 2 powi (ex - ey - 66)"
  proof -
    have p: "(2 :: real) powi (ex - ey - 66) = 2 powi (ex - 63) / 2 powi (ey - 63) / 2 ^ 66"
      by (simp flip: power_int_diff power_int_numeral)
    show ?thesis unfolding p fv_def Y_def num by simp
  qed
  have "64 < bitlen sig" using sg(3) by (intro bitlen_gt) simp
  then show ?thesis
    unfolding e sg(1,2) val using frac sg(3,4) assms(3,4) my
    by (intro rounds_round_from) (auto simp: Y)
qed

text \<open>Addition: \<open>a\<close> has the larger magnitude; \<open>B\<close> is \<open>b\<close> aligned to the scale of \<open>a\<close>.\<close>

lemma align_rounds:
  fixes mb diff :: nat
  assumes "normal_mant mb"
  defines "B \<equiv> real (push_bit 63 mb) / 2 ^ diff"
  defines "r \<equiv> (if 128 \<le> diff then (0, True)
     else (drop_bit diff (push_bit 63 mb), take_bit diff (push_bit 63 mb) \<noteq> 0))"
  shows "real (fst r) \<le> B \<and> B < real (fst r) + 1 \<and> (snd r \<longleftrightarrow> B \<noteq> real (fst r)) \<and> (snd r \<longrightarrow> fst r < 2 ^ 63)"
proof (cases "128 \<le> diff")
  case True
  have mb: "0 < mb" "real mb + 1 \<le> 2 ^ 64" using assms(1) real_pow2_bound [of mb 64] by (auto simp: normal_mant_def)
  have "real (push_bit 63 mb) < 2 ^ 128" using mb(2) by (simp add: push_bit_eq_mult)
  also have "\<dots> \<le> (2 :: real) ^ diff" using True by (intro power_increasing) auto
  finally have "B < 1" by (simp add: B_def pos_divide_less_eq)
  moreover have "0 < B" using mb by (simp add: B_def push_bit_eq_mult)
  ultimately show ?thesis using True by (simp add: r_def)
next
  case False
  define full where "full = push_bit 63 mb"
  have "real full = real (full div 2 ^ diff) * 2 ^ diff + real (full mod 2 ^ diff)" by (rule real_div_mod)
  then have B: "B = real (full div 2 ^ diff) + real (full mod 2 ^ diff) / 2 ^ diff"
    unfolding B_def full_def [symmetric] by (simp add: field_simps)
  have "real (full mod 2 ^ diff) + 1 \<le> 2 ^ diff" by (rule real_pow2_bound) simp
  then have lt: "real (full mod 2 ^ diff) / 2 ^ diff < 1" by (simp add: pos_divide_less_eq)
  have small: "drop_bit diff full < 2 ^ 63" if "take_bit diff full \<noteq> 0"
  proof -
    have "63 < diff"
    proof (rule ccontr)
      assume "\<not> 63 < diff"
      then have "take_bit diff full = 0" by (simp add: full_def take_bit_push_bit)
      with that show False by simp
    qed
    then have "(2 :: nat) ^ 64 \<le> 2 ^ diff" by (intro power_increasing) auto
    moreover have "full < 2 ^ 63 * 2 ^ 64" using assms(1) by (simp add: full_def push_bit_eq_mult normal_mant_def)
    ultimately have "full < 2 ^ 63 * 2 ^ diff" by (meson less_le_trans mult_le_mono2)
    then show ?thesis by (simp add: drop_bit_eq_div less_mult_imp_div_less)
  qed
  show ?thesis
    using False lt small unfolding B r_def full_def [symmetric] by (auto simp: drop_bit_eq_div take_bit_eq_mod)
qed

lemma add_rounds:
  fixes a b :: f80
  assumes na: "f_cls a = Cls_Normal" "normal_mant (f_mant a)" "\<bar>f_exp a\<bar> < 2 ^ 29"
    and nb: "f_cls b = Cls_Normal" "normal_mant (f_mant b)" "\<bar>f_exp b\<bar> < 2 ^ 29"
    and le: "fv (f_mant b) (f_exp b) \<le> fv (f_mant a) (f_exp a)" and lt: "f_exp b \<le> f_exp a"
  defines "diff \<equiv> nat ((f_exp a - f_exp b) mod 2 ^ 32)"
  defines "bs \<equiv> (if 128 \<le> diff then (0, True)
     else (drop_bit diff (push_bit 63 (f_mant b)), take_bit diff (push_bit 63 (f_mant b)) \<noteq> 0))"
  defines "sig \<equiv> (if f_sign a = f_sign b then push_bit 63 (f_mant a) + fst bs
     else if snd bs then push_bit 63 (f_mant a) - fst bs - 1 else push_bit 63 (f_mant a) - fst bs)"
  shows "rounds (f80_val a + f80_val b)
    (if f_sign a \<noteq> f_sign b \<and> sig = 0 then f80_zero False
     else round_from (f_sign a) (i32 (f_exp a - 126)) sig (snd bs))"
proof -
  have d: "diff = nat (f_exp a - f_exp b)" using na nb lt by (simp add: diff_def)
  have e: "i32 (f_exp a - 126) = f_exp a - 126" using na by (intro i32_small) simp
  define A where "A = push_bit 63 (f_mant a)"
  define B where "B = real (push_bit 63 (f_mant b)) / 2 ^ diff"
  have bs: "real (fst bs) \<le> B" "B < real (fst bs) + 1" "snd bs \<longleftrightarrow> B \<noteq> real (fst bs)" "snd bs \<Longrightarrow> fst bs < 2 ^ 63"
    using align_rounds [OF nb(2), of diff] unfolding bs_def B_def by auto
  have A: "2 ^ 126 \<le> A" "A < 2 ^ 127" using na(2) by (auto simp: A_def push_bit_eq_mult normal_mant_def)
  have fva: "fv (f_mant a) (f_exp a) = real A * 2 powi (f_exp a - 126)"
    by (simp add: fv_def A_def push_bit_eq_mult power_int_diff)
  have fvb: "fv (f_mant b) (f_exp b) = B * 2 powi (f_exp a - 126)"
  proof -
    have "(2 :: real) powi (f_exp b - 63) = 2 ^ 63 / 2 ^ diff * 2 powi (f_exp a - 126)"
    proof -
      have "f_exp b - 63 = (63 - int diff) + (f_exp a - 126)" using lt by (simp add: d)
      then have "(2 :: real) powi (f_exp b - 63) = 2 powi (63 - int diff) * 2 powi (f_exp a - 126)"
        by (simp only: power_int_add [of "2 :: real", OF disjI1 [OF numeral_neq_zero]])
      then show ?thesis by (simp add: power_int_diff)
    qed
    then show ?thesis by (simp add: fv_def B_def push_bit_eq_mult)
  qed
  have BA: "B \<le> real A" using le unfolding fva fvb by simp
  have small: "\<bar>f_exp a - 126\<bar> < 2 ^ 31 - 129" using na by simp
  show ?thesis
  proof (cases "f_sign a = f_sign b")
    case True
    have "f80_val a + f80_val b = sgn_of (f_sign a) * ((real A + B) * 2 powi (f_exp a - 126))"
      using na nb True by (auto simp: f80_val_def fva fvb sgn_of_def algebra_simps)
    moreover have "fst bs \<le> A" using bs(1) BA by linarith
    moreover have "64 < bitlen (A + fst bs)" using A by (intro bitlen_gt) simp
    ultimately show ?thesis
      using bs A small True unfolding e sig_def A_def [symmetric]
      by (auto intro!: rounds_round_from simp: A_def)
  next
    case False
    have val: "f80_val a + f80_val b = sgn_of (f_sign a) * ((real A - B) * 2 powi (f_exp a - 126))"
      using na nb False by (auto simp: f80_val_def fva fvb sgn_of_def algebra_simps)
    show ?thesis
    proof (cases "snd bs")
      case sticky: True
      have s: "sig = A - fst bs - 1" using False sticky by (simp add: sig_def A_def)
      have "2 ^ 64 \<le> A - fst bs - 1" using bs(4) [OF sticky] A by simp
      then have "64 < bitlen sig" "0 < sig" unfolding s by (auto intro: bitlen_gt)
      moreover have "real sig = real A - real (fst bs) - 1" unfolding s using bs(4) [OF sticky] A by (simp add: of_nat_diff)
      moreover have "sig < 2 ^ 128" unfolding s using A by simp
      ultimately show ?thesis
        unfolding val e using bs small sticky by (auto intro!: rounds_round_from)
    next
      case exact: False
      have s: "sig = A - fst bs" using False exact by (simp add: sig_def A_def)
      have B: "B = real (fst bs)" using bs(3) exact by simp
      then have r: "real sig = real A - B" unfolding s using BA by (simp add: of_nat_diff)
      show ?thesis
      proof (cases "sig = 0")
        case True
        then show ?thesis using False r unfolding val by (simp add: rounds_def f80_zero_def)
      next
        case nz: False
        then have "rounds (sgn_of (f_sign a) * (real sig * 2 powi (f_exp a - 126))) (round_from (f_sign a) (f_exp a - 126) sig False)"
          using s A small by (intro rounds_round_from) auto
        then show ?thesis using nz exact unfolding val e r by simp
      qed
    qed
  qed
qed

lemma cmp_mag_normal:
  assumes "f_cls x = Cls_Normal" "f_cls y = Cls_Normal" "normal_mant (f_mant x)" "normal_mant (f_mant y)"
  shows "cmp_mag x y = cmp_of (fv (f_mant x) (f_exp x)) (fv (f_mant y) (f_exp y))"
proof -
  consider "f_exp x < f_exp y" | "f_exp x = f_exp y" | "f_exp y < f_exp x" by linarith
  then show ?thesis
  proof cases
    case 1
    then show ?thesis using assms fv_less_binade [OF assms(4,3) 1] by (simp add: cmp_mag_def cmp_of_def)
  next
    case 2
    then show ?thesis using assms by (simp add: cmp_mag_def cmp_of_def fv_def)
  next
    case 3
    then show ?thesis using assms fv_less_binade [OF assms(3,4) 3] by (simp add: cmp_mag_def cmp_of_def)
  qed
qed

lemma exp_mono:
  assumes "normal_mant m" "normal_mant m'" "fv m' k' \<le> fv m k"
  shows "k' \<le> k"
  using fv_less_binade [OF assms(2,1), of k k'] assms(3) by linarith

lemma add_ordered_rounds:
  assumes "f_cls a = Cls_Normal" "normal_mant (f_mant a)" "\<bar>f_exp a\<bar> < 2 ^ 29"
    and "f_cls b = Cls_Normal" "normal_mant (f_mant b)" "\<bar>f_exp b\<bar> < 2 ^ 29"
    and "fv (f_mant b) (f_exp b) \<le> fv (f_mant a) (f_exp a)"
  shows "rounds (f80_val a + f80_val b) (add_ordered a b)"
proof (cases "f_sign a = f_sign b")
  case True
  then show ?thesis using add_rounds [OF assms exp_mono [OF assms(2,5,7)]]
    by (simp only: True add_ordered_def Let_def simp_thms if_True if_False)
next
  case False
  then show ?thesis using add_rounds [OF assms exp_mono [OF assms(2,5,7)]]
    by (simp only: False add_ordered_def Let_def simp_thms if_True if_False)
qed

lemma add_normal_rounds:
  assumes "f_cls x = Cls_Normal" "f_cls y = Cls_Normal" "f80_wf x" "f80_wf y" "exp_small x" "exp_small y"
  shows "rounds (f80_val x + f80_val y) (add_normal x y)"
proof -
  have n: "normal_mant (f_mant x)" "normal_mant (f_mant y)" using assms by (auto simp: f80_wf_def)
  have sm: "\<bar>f_exp x\<bar> < 2 ^ 29" "\<bar>f_exp y\<bar> < 2 ^ 29" using assms by (auto simp: exp_small_def)
  have c: "cmp_mag x y = Less \<longleftrightarrow> fv (f_mant x) (f_exp x) < fv (f_mant y) (f_exp y)"
    unfolding cmp_mag_normal [OF assms(1,2) n] by (simp add: cmp_of_def)
  show ?thesis
    using add_ordered_rounds [OF assms(1) n(1) sm(1) assms(2) n(2) sm(2)]
      add_ordered_rounds [OF assms(2) n(2) sm(2) assms(1) n(1) sm(1)]
    by (simp add: add_normal_def c add.commute)
qed

lemma rounds_self: "f80_finite x \<Longrightarrow> f80_wf x \<Longrightarrow> rounds (f80_val x) x"
proof (cases "f_cls x = Cls_Normal")
  case True
  assume "f80_wf x"
  with True have n: "normal_mant (f_mant x)" by (simp add: f80_wf_def)
  have "nearest_even (fv (f_mant x) (f_exp x)) (f_mant x) (f_exp x)"
    unfolding fv_def by (rule nearest_down [OF n]) (auto simp: round_up_def)
  then show ?thesis using True fv_pos [OF n, of "f_exp x"] by (auto simp: rounds_def f80_val_def)
qed (auto simp: rounds_def f80_val_def f80_finite_def)

lemma f80_add_rounds:
  assumes "f80_finite x" "f80_finite y" "f80_wf x" "f80_wf y" "exp_small x" "exp_small y"
  shows "rounds (f80_val x + f80_val y) (f80_add x y)"
proof -
  have zero: "f80_val z = 0" if "f_cls z = Cls_Zero" for z using that by (simp add: f80_val_def)
  show ?thesis
  proof (cases "f_cls x = Cls_Normal \<and> f_cls y = Cls_Normal")
    case True
    then show ?thesis using add_normal_rounds [of x y] assms by (simp add: f80_add_def)
  next
    case False
    then show ?thesis
      using rounds_self [OF assms(1,3)] rounds_self [OF assms(2,4)] assms(1,2)
      by (cases "f_cls x"; cases "f_cls y")
        (simp_all add: f80_add_def f80_finite_def zero, simp add: rounds_def f80_zero_def)
  qed
qed

lemma neg_props [simp]:
  "f80_val (f80_neg x) = - f80_val x" "f80_finite (f80_neg x) = f80_finite x" "f80_wf (f80_neg x) = f80_wf x"
  "exp_small (f80_neg x) = exp_small x"
  by (simp_all add: f80_val_def f80_neg_def f80_finite_def f80_wf_def exp_small_def)

lemma f80_mul_rounds:
  assumes "f80_finite x" "f80_finite y" "f80_wf x" "f80_wf y" "exp_small x" "exp_small y"
  shows "rounds (f80_val x * f80_val y) (f80_mul x y)"
proof (cases "f_cls x = Cls_Normal \<and> f_cls y = Cls_Normal")
  case True
  then have "f80_val x * f80_val y = sgn_of (f_sign x \<noteq> f_sign y) * (fv (f_mant x) (f_exp x) * fv (f_mant y) (f_exp y))"
    by (auto simp: f80_val_def sgn_of_def)
  then show ?thesis
    using mul_rounds [of "f_mant x" "f_mant y" "f_exp x" "f_exp y"] True assms
    by (simp add: f80_mul_def f80_wf_def exp_small_def)
next
  case False
  then show ?thesis using assms by (auto simp: f80_mul_def f80_val_def f80_finite_def rounds_def f80_zero_def)
qed

lemma f80_div_rounds:
  assumes "f80_finite x" "f80_finite y" "f80_wf x" "f80_wf y" "exp_small x" "exp_small y" "f_cls y = Cls_Normal"
  shows "rounds (f80_val x / f80_val y) (f80_div x y)"
proof (cases "f_cls x = Cls_Normal")
  case True
  then have "f80_val x / f80_val y = sgn_of (f_sign x \<noteq> f_sign y) * (fv (f_mant x) (f_exp x) / fv (f_mant y) (f_exp y))"
    using assms by (auto simp: f80_val_def sgn_of_def)
  then show ?thesis
    using div_rounds [of "f_mant x" "f_mant y" "f_exp x" "f_exp y"] True assms
    by (simp add: f80_div_def f80_wf_def exp_small_def Let_def)
next
  case False
  then show ?thesis using assms by (auto simp: f80_div_def f80_val_def f80_finite_def rounds_def f80_zero_def)
qed

lemma isqrt_bounds: "isqrt n * isqrt n \<le> n \<and> n < (isqrt n + 1) * (isqrt n + 1)"
proof (induction n rule: isqrt.induct)
  case (1 n)
  show ?case
  proof (cases "n = 0")
    case False
    define r where "r = isqrt (n div 4)"
    have ih: "r * r \<le> n div 4" "n div 4 < (r + 1) * (r + 1)" using 1 False by (simp_all add: r_def)
    have lo: "2 * r * (2 * r) \<le> n" using ih(1) by auto
    have "n < 4 * ((r + 1) * (r + 1))" using ih(2) by auto
    then have hi: "n < (2 * r + 1 + 1) * (2 * r + 1 + 1)" by (simp add: algebra_simps)
    show ?thesis
      using lo hi False by (simp add: isqrt.simps [of n] Let_def flip: r_def)
  qed (simp add: isqrt.simps)
qed


lemma rounds_posI:
  "0 < y \<Longrightarrow> f_cls r = Cls_Normal \<Longrightarrow> \<not> f_sign r \<Longrightarrow> nearest_even y (f_mant r) (f_exp r) \<Longrightarrow> rounds y r"
  by (simp add: rounds_def)

lemma nat_quarter: "real m < real k + 1 / 4 \<longleftrightarrow> m \<le> k"
proof (cases "m \<le> k")
  case False
  then have "real (k + 1) \<le> real m" unfolding of_nat_le_iff by simp
  then show ?thesis using False by simp
qed simp

lemma isqrt_normal:
  fixes m :: nat
  assumes m: "2 ^ 126 \<le> m" "m < 2 ^ 128"
  shows "normal_mant (isqrt m)"
proof -
  note q = isqrt_bounds [of m]
  have "isqrt m < 2 ^ 64"
  proof (rule ccontr)
    assume "\<not> isqrt m < 2 ^ 64"
    then have "2 ^ 64 * 2 ^ 64 \<le> isqrt m * isqrt m" by (intro mult_mono) auto
    with q m show False by simp
  qed
  moreover have "2 ^ 63 \<le> isqrt m"
  proof (rule ccontr)
    assume "\<not> 2 ^ 63 \<le> isqrt m"
    then have "(isqrt m + 1) * (isqrt m + 1) \<le> 2 ^ 63 * 2 ^ 63" by (intro mult_mono) auto
    with q m show False by simp
  qed
  ultimately show ?thesis by (simp add: normal_mant_def)
qed

lemma sqrt_up:
  assumes "normal_mant q"
  shows "drop_bit 64 (q + 1) \<noteq> 0 \<longleftrightarrow> q + 1 = 2 ^ 64" "q + 1 \<noteq> 2 ^ 64 \<Longrightarrow> take_bit 64 (q + 1) = q + 1"
    "take_bit 64 q = q"
  using assms by (auto simp: normal_mant_def drop_bit_eq_div take_bit_nat_eq_self div_eq_0_iff)

lemma sqrt_mant_rounds:
  fixes m :: nat
  assumes m: "2 ^ 126 \<le> m" "m < 2 ^ 128" and f: "even f" "\<bar>f\<bar> < 2 ^ 30"
  shows "rounds (sqrt (real m * 2 powi f)) (sqrt_mant m f)"
proof -
  define q where "q = isqrt m"
  define r where "r = sqrt_mant m f"
  have q: "q * q \<le> m" "m < (q + 1) * (q + 1)" using isqrt_bounds [of m] by (auto simp: q_def)
  have n: "normal_mant q" unfolding q_def using m by (rule isqrt_normal)
  have e: "i32 (f div 2 + 63) = f div 2 + 63" "i32 (f div 2 + 63 + 1) = f div 2 + 63 + 1"
    using f by (auto intro!: i32_small)
  have lo: "real q \<le> sqrt (real m)"
    using q(1) by (intro real_le_rsqrt) (simp add: power2_eq_square flip: of_nat_mult)
  have hi: "sqrt (real m) < real q + 1"
  proof (intro real_less_lsqrt)
    have "real m < real ((q + 1) * (q + 1))" using q(2) of_nat_less_iff by blast
    then show "real m < (real q + 1)\<^sup>2" by (simp add: power2_eq_square algebra_simps)
  qed simp_all
  have ru: "round_up (sqrt (real m)) q \<longleftrightarrow> q < m - q * q"
  proof -
    have sq: "(real q + 1 / 2)\<^sup>2 = real (q * q + q) + 1 / 4" by (simp add: power2_eq_square field_simps)
    have ne: "sqrt (real m) \<noteq> real q + 1 / 2"
    proof
      assume a: "sqrt (real m) = real q + 1 / 2"
      have "real m = (real q + 1 / 2)\<^sup>2" using a real_sqrt_pow2 [of "real m"] by simp
      then have "real (4 * m) = real (4 * (q * q + q) + 1)" unfolding sq by simp
      then have "4 * m = 4 * (q * q + q) + 1" using of_nat_eq_iff by blast
      then show False by presburger
    qed
    have "sqrt (real m) < real q + 1 / 2 \<longleftrightarrow> real m < (real q + 1 / 2)\<^sup>2"
      using real_sqrt_less_iff [of "real m" "(real q + 1 / 2)\<^sup>2"] by (simp add: real_sqrt_abs)
    also have "\<dots> \<longleftrightarrow> m \<le> q * q + q" unfolding sq by (rule nat_quarter)
    finally show ?thesis using ne q(1) by (auto simp: round_up_def)
  qed
  have val: "sqrt (real m * 2 powi f) = sqrt (real m) * 2 powi (f div 2 + 63 - 63)"
  proof -
    have "f = f div 2 + f div 2" using f(1) by presburger
    then have "(2 :: real) powi f = (2 powi (f div 2)) * (2 powi (f div 2))"
      by (metis power_int_add zero_neq_numeral)
    then show ?thesis by (simp add: real_sqrt_mult)
  qed
  have pos: "0 < sqrt (real m) * 2 powi (f div 2 + 63 - 63)" using m(1) by simp
  have "f_cls r = Cls_Normal \<and> \<not> f_sign r \<and> nearest_even (sqrt (real m) * 2 powi (f div 2 + 63 - 63)) (f_mant r) (f_exp r)"
  proof (cases "round_up (sqrt (real m)) q")
    case True
    then show ?thesis
      using nearest_up [OF n lo hi True, of "f div 2 + 63"] ru sqrt_up(1,2) [OF n] unfolding r_def sqrt_mant_def Let_def q_def [symmetric] e
      by (cases "q + 1 = 2 ^ 64") (simp_all del: One_nat_def add_diff_cancel_right')
  next
    case False
    then show ?thesis
      using nearest_down [OF n lo hi False, of "f div 2 + 63"] ru sqrt_up(3) [OF n] unfolding r_def sqrt_mant_def Let_def q_def [symmetric] e
      by (simp del: add_diff_cancel_right')
  qed
  with pos show ?thesis unfolding val r_def [symmetric] by (intro rounds_posI) auto
qed

lemma f80_sqrt_rounds:
  assumes "f_cls x = Cls_Normal" "\<not> f_sign x" "f80_wf x" "exp_small x"
  shows "rounds (sqrt (f80_val x)) (f80_sqrt x)"
proof -
  define m0 where "m0 = push_bit 63 (f_mant x)"
  define f0 where "f0 = f_exp x - 126"
  have f0: "i32 (f_exp x - 126) = f0" using assms(4) by (simp add: f0_def exp_small_def i32_small)
  have n: "2 ^ 63 \<le> f_mant x" "f_mant x < 2 ^ 64" using assms by (auto simp: f80_wf_def normal_mant_def)
  then have m0: "2 ^ 126 \<le> m0" "m0 < 2 ^ 127" by (auto simp: m0_def push_bit_eq_mult)
  have sm: "\<bar>f0\<bar> < 2 ^ 30 - 1" using assms(4) by (simp add: f0_def exp_small_def)
  have val: "f80_val x = real m0 * 2 powi f0"
    using assms(1,2) by (simp add: f80_val_def fv_def m0_def f0_def push_bit_eq_mult power_int_diff)
  show ?thesis
  proof (cases "odd f0")
    case True
    have "take_bit 128 (push_bit 1 m0) = 2 * m0" using m0 by (simp add: push_bit_eq_mult take_bit_nat_eq_self)
    moreover have "i32 (f0 - 1) = f0 - 1" using sm by (intro i32_small) simp
    ultimately have "f80_sqrt x = sqrt_mant (2 * m0) (f0 - 1)"
      unfolding f80_sqrt_def f0 m0_def [symmetric] using assms(1,2) True by simp
    moreover have "f80_val x = real (2 * m0) * 2 powi (f0 - 1)" unfolding val by (simp add: power_int_diff)
    ultimately show ?thesis using sqrt_mant_rounds [of "2 * m0" "f0 - 1"] m0 sm True by simp
  next
    case False
    then have "f80_sqrt x = sqrt_mant m0 f0"
      unfolding f80_sqrt_def f0 m0_def [symmetric] using assms(1,2) by simp
    then show ?thesis using sqrt_mant_rounds [of m0 f0] m0 sm False val by simp
  qed
qed

section \<open>Mantissas stay normalized\<close>

lemma round_from_wf: "sig < 2 ^ 128 \<Longrightarrow> f80_wf (round_from s e sig st)"
proof (cases "sig = 0")
  case True
  then show ?thesis by (simp add: round_from_def f80_zero_def f80_wf_def)
next
  case False
  assume "sig < 2 ^ 128"
  then have b: "bitlen sig \<le> 128" by (rule bitlen_le)
  have same: "f_mant (round_from s e sig st) = f_mant (round_from s 0 sig (st \<and> 64 < bitlen sig))"
    by (cases "64 < bitlen sig") (auto simp: round_from_def Let_def)
  have "normal_mant (f_mant (round_from s 0 sig (st \<and> 64 < bitlen sig)))"
    using round_from_rounds [of sig "real sig + (if st \<and> 64 < bitlen sig then 1 / 2 else 0)"
        "st \<and> 64 < bitlen sig" 0 s] False b
    by (auto simp: nearest_even_def)
  then show ?thesis by (simp add: f80_wf_def same)
qed

lemma wf_consts [simp]: "f80_wf (f80_zero s)" "f80_wf (f80_inf s)" "f80_wf f80_nan" "f80_wf F80_ZERO"
  by (simp_all add: f80_wf_def f80_zero_def f80_inf_def f80_nan_def F80_ZERO_def)

lemma add_ordered_wf:
  assumes "normal_mant (f_mant a)" "normal_mant (f_mant b)"
  shows "f80_wf (add_ordered a b)"
proof -
  have A: "push_bit 63 (f_mant a) < 2 ^ 127" and B: "push_bit 63 (f_mant b) < 2 ^ 127"
    using assms by (auto simp: push_bit_eq_mult normal_mant_def)
  define bs where "bs = (if 128 \<le> nat ((f_exp a - f_exp b) mod 2 ^ 32) then (0, True)
     else (drop_bit (nat ((f_exp a - f_exp b) mod 2 ^ 32)) (push_bit 63 (f_mant b)),
       take_bit (nat ((f_exp a - f_exp b) mod 2 ^ 32)) (push_bit 63 (f_mant b)) \<noteq> 0))"
  have "drop_bit d (push_bit 63 (f_mant b)) < 2 ^ 127" for d
    using B by (metis drop_bit_eq_div div_le_dividend le_less_trans)
  then have "fst bs < 2 ^ 127" by (simp add: bs_def)
  then have "push_bit 63 (f_mant a) + fst bs < 2 ^ 128" using A by simp
  moreover have "push_bit 63 (f_mant a) - c < 2 ^ 128" for c using A by simp
  moreover have "push_bit 63 (f_mant a) - fst bs - c < 2 ^ 128" for c using A by simp
  ultimately show ?thesis
    unfolding add_ordered_def Let_def bs_def [symmetric] by (auto intro!: round_from_wf split del: if_split split: if_splits)
qed

lemma sqrt_mant_wf: "2 ^ 126 \<le> m \<Longrightarrow> m < 2 ^ 128 \<Longrightarrow> f80_wf (sqrt_mant m f)"
  using sqrt_up [OF isqrt_normal, of m] isqrt_normal [of m]
  by (auto simp: sqrt_mant_def Let_def f80_wf_def normal_mant_def simp del: One_nat_def)

lemma f80_sqrt_wf: "f80_wf x \<Longrightarrow> f80_wf (f80_sqrt x)"
proof (cases "f_cls x = Cls_Normal")
  case True
  assume "f80_wf x"
  then have m: "2 ^ 126 \<le> push_bit 63 (f_mant x)" "push_bit 63 (f_mant x) < 2 ^ 127"
    using True by (auto simp: f80_wf_def normal_mant_def push_bit_eq_mult)
  then have "take_bit 128 (push_bit 1 (push_bit 63 (f_mant x))) = 2 * push_bit 63 (f_mant x)"
    by (simp add: push_bit_eq_mult take_bit_nat_eq_self)
  then show ?thesis using True m by (auto simp: f80_sqrt_def Let_def intro!: sqrt_mant_wf)
qed (auto simp: f80_sqrt_def split: cls.split)

section \<open>Properties\<close>

text \<open>
  C39: The x87 arithmetic is correctly rounded.  For finite operands with exponents far from the
  limits of \<^verbatim>\<open>i32\<close>, the product, sum, difference, quotient (by a nonzero divisor) and square root (of
  a non-negative value) computed on 128-bit integers are exactly the exact real results rounded to a
  64-bit mantissa, to nearest with ties to even; an exact zero gives zero.
\<close>

theorem f80_arithmetic:
  assumes "f80_finite x" "f80_finite y" "f80_wf x" "f80_wf y" "exp_small x" "exp_small y"
  shows "rounds (f80_val x * f80_val y) (f80_mul x y) \<and> rounds (f80_val x + f80_val y) (f80_add x y) \<and>
    rounds (f80_val x - f80_val y) (f80_sub x y) \<and>
    (f_cls y = Cls_Normal \<longrightarrow> rounds (f80_val x / f80_val y) (f80_div x y)) \<and>
    (0 \<le> f80_val x \<longrightarrow> rounds (sqrt (f80_val x)) (f80_sqrt x))"
proof (intro conjI impI)
  show "rounds (f80_val x - f80_val y) (f80_sub x y)"
    using f80_add_rounds [of x "f80_neg y"] assms by (simp add: f80_sub_def)
  assume nonneg: "0 \<le> f80_val x"
  show "rounds (sqrt (f80_val x)) (f80_sqrt x)"
  proof (cases "f_cls x = Cls_Normal")
    case True
    then have "\<not> f_sign x"
      using nonneg assms(3) fv_pos [of "f_mant x" "f_exp x"] by (auto simp: f80_val_def f80_wf_def)
    then show ?thesis using f80_sqrt_rounds [OF True] assms by blast
  next
    case False
    then show ?thesis using assms(1) by (simp add: rounds_def f80_val_def f80_finite_def f80_sqrt_def)
  qed
qed (use assms f80_mul_rounds f80_add_rounds f80_div_rounds in blast)+

theorem f80_arithmetic_witness:
  "let x = \<lparr>f_sign = False, f_cls = Cls_Normal, f_exp = 1, f_mant = 0xC000000000000000\<rparr>;
       y = \<lparr>f_sign = True, f_cls = Cls_Normal, f_exp = 2, f_mant = 0xE000000000000000\<rparr>
   in f80_val x = 3 \<and> f80_val y = - 7 \<and> rounds (3 / - 7) (f80_div x y) \<and> rounds (sqrt 3) (f80_sqrt x)"
proof -
  define x where "x = \<lparr>f_sign = False, f_cls = Cls_Normal, f_exp = 1, f_mant = 0xC000000000000000\<rparr>"
  define y where "y = \<lparr>f_sign = True, f_cls = Cls_Normal, f_exp = 2, f_mant = 0xE000000000000000\<rparr>"
  have v: "f80_val x = 3" "f80_val y = - 7" by (simp_all add: x_def y_def f80_val_def fv_def power_int_def power_one_over)
  have "rounds (f80_val x / f80_val y) (f80_div x y)" "rounds (sqrt (f80_val x)) (f80_sqrt x)"
    using f80_arithmetic [of x y] v
    by (simp_all add: x_def y_def f80_finite_def f80_wf_def exp_small_def normal_mant_def)
  then show ?thesis unfolding Let_def x_def [symmetric] y_def [symmetric] using v by simp
qed

text \<open>
  No operation ever produces an unnormalized mantissa: from values whose mantissa has its top bit
  set and fits 64 bits, every arithmetic operation, scaling and field extraction returns one again,
  whatever the exponents (even where they wrap), and so does every conversion from a 64-bit integer,
  a double or the 80-bit memory format.
\<close>

theorem f80_ops_wf:
  assumes "f80_wf x" "f80_wf y"
  shows "f80_wf (f80_mul x y) \<and> f80_wf (f80_add x y) \<and> f80_wf (f80_sub x y) \<and> f80_wf (f80_div x y) \<and>
    f80_wf (f80_sqrt x) \<and> f80_wf (scale2 x n) \<and> f80_wf (significand x) \<and>
    f80_wf (from_i64 (sint (v :: u64))) \<and> f80_wf (from_f64 b) \<and> f80_wf (from_f80_parts (unat (m :: u64)) se)"
proof (intro conjI)
  have add: "f80_wf (f80_add x z)" if "f80_wf z" for z
  proof (cases "f_cls x = Cls_Normal \<and> f_cls z = Cls_Normal")
    case True
    then show ?thesis
      using assms(1) that by (simp add: f80_add_def add_normal_def f80_wf_def [of x] f80_wf_def [of z] add_ordered_wf)
  next
    case False
    then show ?thesis using assms(1) that by (cases "f_cls x"; cases "f_cls z") (simp_all add: f80_add_def)
  qed
  show "f80_wf (f80_add x y)" "f80_wf (f80_sub x y)" using add assms by (simp_all add: f80_sub_def)
  show "f80_wf (f80_mul x y)"
  proof (cases "f_cls x = Cls_Normal \<and> f_cls y = Cls_Normal")
    case True
    then have "f_mant x * f_mant y < 2 ^ 64 * 2 ^ 64"
      using assms by (intro mult_strict_mono) (auto simp: f80_wf_def normal_mant_def)
    then show ?thesis using True by (simp add: f80_mul_def round_from_wf)
  next
    case False
    then show ?thesis by (cases "f_cls x"; cases "f_cls y") (simp_all add: f80_mul_def)
  qed
  show "f80_wf (f80_div x y)"
  proof (cases "f_cls x = Cls_Normal \<and> f_cls y = Cls_Normal")
    case True
    then show ?thesis
      using div_sig [of "f_mant x" "f_mant y"] assms
      by (simp add: f80_div_def Let_def f80_wf_def [of x] f80_wf_def [of y] round_from_wf)
  next
    case False
    then show ?thesis by (cases "f_cls x"; cases "f_cls y") (simp_all add: f80_div_def)
  qed
  show "f80_wf (f80_sqrt x)" using assms(1) by (rule f80_sqrt_wf)
  show "f80_wf (scale2 x n)" "f80_wf (significand x)" using assms by (auto simp: scale2_def significand_def f80_wf_def)
  have "nat \<bar>sint v\<bar> < 2 ^ 128" using sint_range_size [of v] by (auto simp: word_size nat_less_iff)
  then show "f80_wf (from_i64 (sint v))" by (simp add: from_i64_def round_from_wf)
  show "f80_wf (from_f80_parts (unat m) se)"
    using unsigned_less [of m, where 'a = nat] by (auto simp: from_f80_parts_def Let_def f80_wf_def [of "f80_ext _ _ _ _ _"] intro!: round_from_wf)
  have frac: "unat (b AND 0x000FFFFFFFFFFFFF) < 2 ^ 52"
  proof -
    have "b AND 0x000FFFFFFFFFFFFF \<le> 0x000FFFFFFFFFFFFF" by (rule word_and_le1)
    then show ?thesis by (simp add: word_le_nat_alt)
  qed
  then show "f80_wf (from_f64 b)"
    using or_disjoint_nat [of "unat (b AND 0x000FFFFFFFFFFFFF)" 52 1]
    by (auto simp: from_f64_def Let_def intro!: round_from_wf)
qed

theorem f80_ops_wf_witness:
  "f80_wf (f80_add (f80_zero True) \<lparr>f_sign = True, f_cls = Cls_Normal, f_exp = 2, f_mant = 0xE000000000000000\<rparr>)"
  using f80_ops_wf [of "f80_zero True" "\<lparr>f_sign = True, f_cls = Cls_Normal, f_exp = 2, f_mant = 0xE000000000000000\<rparr>"]
  by (simp add: f80_wf_def f80_zero_def normal_mant_def)


text \<open>
  Comparison is the order of the numbers.  Two values are unordered exactly when one is a NaN;
  finite values compare as the reals they denote, both zeros being equal; and an infinity lies beyond
  every finite value on its side.
\<close>

theorem f80_comparison:
  assumes "f80_wf x" "f80_wf y"
  shows "(f80_partial_cmp x y = None \<longleftrightarrow> f80_is_nan x \<or> f80_is_nan y) \<and>
    (f80_finite x \<and> f80_finite y \<longrightarrow> f80_partial_cmp x y = Some (cmp_of (f80_val x) (f80_val y))) \<and>
    (f80_finite x \<and> f80_is_inf y \<longrightarrow>
       f80_partial_cmp x y = Some (if f_sign y then Greater else Less))"
proof (intro conjI impI)
  show "f80_partial_cmp x y = None \<longleftrightarrow> f80_is_nan x \<or> f80_is_nan y"
    by (simp add: f80_partial_cmp_def f80_is_nan_def)
  show "f80_partial_cmp x y = Some (if f_sign y then Greater else Less)"
    if "f80_finite x \<and> f80_is_inf y"
    using that by (auto simp: f80_finite_def f80_partial_cmp_def f80_is_inf_def cmp_mag_def cmp_of_def)
  assume fin: "f80_finite x \<and> f80_finite y"
  have pos: "0 < fv (f_mant z) (f_exp z)" if "f80_wf z" "f_cls z = Cls_Normal" for z
    using that fv_pos by (simp add: f80_wf_def)
  show "f80_partial_cmp x y = Some (cmp_of (f80_val x) (f80_val y))"
  proof (cases "f_cls x = Cls_Normal \<and> f_cls y = Cls_Normal")
    case True
    note m = cmp_mag_normal [of x y, unfolded cmp_of_def] pos [OF assms(1)] pos [OF assms(2)]
    show ?thesis using True assms m
      by (cases "f_sign x"; cases "f_sign y") (simp_all add: f80_partial_cmp_def f80_wf_def f80_val_def cmp_of_def)
  next
    case False
    then show ?thesis
      using fin pos [OF assms(1)] pos [OF assms(2)]
      by (cases "f_sign x"; cases "f_sign y"; cases "f_cls x"; cases "f_cls y")
        (simp_all add: f80_partial_cmp_def f80_finite_def f80_val_def cmp_mag_def cmp_of_def)
  qed
qed

theorem f80_comparison_witness:
  "let x = \<lparr>f_sign = True, f_cls = Cls_Normal, f_exp = 1, f_mant = 0xC000000000000000\<rparr>
   in f80_wf x \<and> f80_wf (f80_zero True) \<and> f80_partial_cmp x (f80_zero True) = Some (cmp_of (f80_val x) 0)"
  using f80_comparison [of "\<lparr>f_sign = True, f_cls = Cls_Normal, f_exp = 1, f_mant = 0xC000000000000000\<rparr>" "f80_zero True"]
  by (simp add: Let_def f80_wf_def f80_finite_def f80_zero_def f80_val_def [of "f80_ext _ Cls_Zero _ _ _"] normal_mant_def)

section \<open>The memory format and integers\<close>

lemma round_from_exact:
  assumes "0 < m" "m < 2 ^ 64" "\<bar>e\<bar> < 2 ^ 31 - 129"
  shows "round_from s e m False =
    \<lparr>f_sign = s, f_cls = Cls_Normal, f_exp = e + int (bitlen m) - 1, f_mant = m * 2 ^ (64 - bitlen m)\<rparr>"
  using bitlen_le [OF assms(2)] assms by (intro round_from_short) auto

lemma bitlen_normal: "normal_mant m \<Longrightarrow> bitlen m = 64"
  using bitlen_eqI [of 63 m] by (simp add: normal_mant_def)

text \<open>Encodings the hardware writes: infinity, the quiet NaN, zero, subnormals and normals.\<close>

definition m80_canonical :: "nat \<Rightarrow> u16 \<Rightarrow> bool" where
  "m80_canonical mant se \<longleftrightarrow>
     (if se AND 0x7FFF = 0x7FFF then mant = 2 ^ 63 \<or> mant = 0xC000000000000000
      else if se AND 0x7FFF = 0 then mant < 2 ^ 63
      else normal_mant mant)"

lemma se_split: "(if se AND 0x8000 \<noteq> 0 then 0x8000 else 0) OR (se AND 0x7FFF) = (se :: u16)"
proof -
  have m: "(0x8000 :: u16) = push_bit 15 1" "(0x7FFF :: u16) = mask 15" by (simp_all add: mask_eq_exp_minus_1)
  have "se AND push_bit 15 1 \<noteq> 0 \<longleftrightarrow> bit se 15"
    using and_exp_eq_0_iff_not_bit [of se 15] by simp
  then show ?thesis
    unfolding m by (intro bit_word_eqI) (auto simp: bit_simps not_less less_Suc_eq numeral_eq_Suc)
qed


lemma se_fields:
  fixes s :: bool
  assumes "0 \<le> e" "e < 0x8000"
  defines "se \<equiv> (if s then 0x8000 else 0) OR (word_of_int e :: u16)"
  shows "(se AND 0x8000 \<noteq> 0) = s" "uint (se AND 0x7FFF) = e"
proof -
  have u: "uint (word_of_int e :: u16) = e" using assms by (simp add: uint_word_of_int)
  have hi: "\<not> bit (word_of_int e :: u16) 15"
  proof -
    have "\<not> bit e 15" using assms(1,2) by (simp add: bit_iff_odd)
    then show ?thesis by (simp only: bit_word_of_int_iff simp_thms)
  qed
  have m: "(0x8000 :: u16) = push_bit 15 1" "(0x7FFF :: u16) = mask 15" by (simp_all add: mask_eq_exp_minus_1)
  have "se AND 0x8000 \<noteq> 0 \<longleftrightarrow> bit se 15" using and_exp_eq_0_iff_not_bit [of se 15] by simp
  moreover have "bit se 15 = s" using hi unfolding se_def by (simp add: bit_or_iff)
  ultimately show "(se AND 0x8000 \<noteq> 0) = s" by simp
  have "se AND 0x7FFF = word_of_int e"
    using hi unfolding se_def m
    by (intro bit_word_eqI) (auto simp: bit_simps not_less less_Suc_eq numeral_eq_Suc)
  then show "uint (se AND 0x7FFF) = e" using u by simp
qed

text \<open>
  The 80-bit memory format loses nothing.  Every canonical encoding (normals, subnormals, both
  zeros, both infinities and the quiet NaNs) decodes to a value that encodes to the same ten bytes;
  and every normalized value with an exponent in the hardware's normal range survives being stored
  and loaded, unlike in the 53-bit format the code used before.
\<close>

theorem f80_memory_roundtrip:
  "(m80_canonical mant se \<longrightarrow> to_f80_parts (from_f80_parts mant se) = (mant, se)) \<and>
   (f_cls x = Cls_Normal \<and> f80_wf x \<and> - 16382 \<le> f_exp x \<and> f_exp x \<le> 16383 \<longrightarrow>
      from_f80_parts (fst (to_f80_parts x)) (snd (to_f80_parts x)) = x)"
proof (intro conjI impI)
  assume c: "m80_canonical mant se"
  define ef where "ef = uint (se AND 0x7FFF)"
  have w: "word_of_int ef = se AND 0x7FFF" by (simp add: ef_def)
  have ef: "0 \<le> ef" "ef \<le> 0x7FFF" "ef = 0x7FFF \<longleftrightarrow> se AND 0x7FFF = 0x7FFF" "ef = 0 \<longleftrightarrow> se AND 0x7FFF = 0"
    using word_and_le1 [of se "0x7FFF"] by (auto simp: ef_def word_le_def word_uint_eq_iff)
  consider "ef = 0x7FFF" | "ef \<noteq> 0x7FFF" "mant = 0" | "ef = 0" "mant \<noteq> 0" | "ef \<noteq> 0x7FFF" "ef \<noteq> 0" "mant \<noteq> 0" by blast
  then show "to_f80_parts (from_f80_parts mant se) = (mant, se)"
  proof cases
    case 1
    then show ?thesis using c ef se_split [of se]
      by (auto simp: m80_canonical_def from_f80_parts_def to_f80_parts_def f80_inf_def Let_def simp flip: ef_def
          split: if_splits)
  next
    case 2
    then show ?thesis using c ef se_split [of se]
      by (auto simp: m80_canonical_def normal_mant_def from_f80_parts_def to_f80_parts_def f80_zero_def Let_def
          simp flip: ef_def split: if_splits)
  next
    case 3
    then have m: "0 < mant" "mant < 2 ^ 63" using c ef by (auto simp: m80_canonical_def)
    have b: "bitlen mant \<le> 63" "0 < bitlen mant" using m bitlen_le bitlen_pos by auto
    have p: "from_f80_parts mant se = \<lparr>f_sign = se AND 0x8000 \<noteq> 0, f_cls = Cls_Normal,
        f_exp = int (bitlen mant) - 16446, f_mant = mant * 2 ^ (64 - bitlen mant)\<rparr>"
      using 3 ef m unfolding from_f80_parts_def Let_def ef_def [symmetric]
      by (simp add: round_from_exact)
    have "drop_bit (64 - bitlen mant) (mant * 2 ^ (64 - bitlen mant)) = mant" by (simp add: drop_bit_eq_div)
    then show ?thesis using b se_split [of se] 3 ef unfolding p
      by (auto simp: to_f80_parts_def i32_small nat_diff_distrib' algebra_simps split: if_splits)
  next
    case 4
    then have m: "normal_mant mant" using c ef by (auto simp: m80_canonical_def)
    have p: "from_f80_parts mant se = \<lparr>f_sign = se AND 0x8000 \<noteq> 0, f_cls = Cls_Normal, f_exp = ef - 16383, f_mant = mant\<rparr>"
      using 4 ef m unfolding from_f80_parts_def Let_def ef_def [symmetric]
      by (simp add: round_from_exact normal_mant_def bitlen_normal)
    show ?thesis using se_split [of se] 4 ef unfolding p
      by (auto simp: to_f80_parts_def i32_small w split: if_splits)
  qed
next
  assume a: "f_cls x = Cls_Normal \<and> f80_wf x \<and> - 16382 \<le> f_exp x \<and> f_exp x \<le> 16383"
  define e where "e = f_exp x + 16383"
  have e: "0 < e" "e < 0x7FFF" "i32 (f_exp x + 16383) = e" using a by (auto simp: e_def i32_small)
  have n: "normal_mant (f_mant x)" "0 < f_mant x" using a by (auto simp: f80_wf_def normal_mant_def)
  have "from_f80_parts (f_mant x) ((if f_sign x then 0x8000 else 0) OR word_of_int e) =
      round_from (f_sign x) (e - 16383 - 63) (f_mant x) False"
    using e n se_fields [of e "f_sign x"] by (simp add: from_f80_parts_def Let_def)
  also have "\<dots> = \<lparr>f_sign = f_sign x, f_cls = Cls_Normal, f_exp = f_exp x, f_mant = f_mant x\<rparr>"
  proof -
    have "\<bar>f_exp x - 63\<bar> < 2 ^ 31 - 129" using a by (auto simp: abs_less_iff)
    with n show ?thesis
      using round_from_exact [of "f_mant x" "f_exp x - 63" "f_sign x"] bitlen_normal [OF n(1)]
      by (simp add: e_def normal_mant_def)
  qed
  also have "\<dots> = x" using a by simp
  finally show "from_f80_parts (fst (to_f80_parts x)) (snd (to_f80_parts x)) = x"
    using a e by (simp add: to_f80_parts_def Let_def)
qed

theorem f80_memory_roundtrip_witness:
  "m80_canonical 0xC90FDAA22168C235 0x4000 \<and>
   to_f80_parts (from_f80_parts 0xC90FDAA22168C235 0x4000) = (0xC90FDAA22168C235, 0x4000)"
  using f80_memory_roundtrip [of "0xC90FDAA22168C235" "0x4000"] by (simp add: m80_canonical_def normal_mant_def)


section \<open>Integer conversion\<close>

lemma i64_small: "- (2 ^ 63) \<le> x \<Longrightarrow> x < 2 ^ 63 \<Longrightarrow> i64 x = x"
  by (simp add: i64_def)

lemma fv_int_split:
  assumes "0 \<le> k" "k < 63"
  defines "sh \<equiv> nat (63 - k)"
  shows "fv m k = real (drop_bit sh m) + real (take_bit sh m) / 2 ^ sh"
    and "real (take_bit sh m) / 2 ^ sh < 1"
proof -
  have p: "(2 :: real) powi (k - 63) = 1 / 2 ^ sh"
    using assms by (simp add: power_int_def sh_def power_one_over)
  have "real m = real (m div 2 ^ sh) * 2 ^ sh + real (m mod 2 ^ sh)" by (rule real_div_mod)
  then show "fv m k = real (drop_bit sh m) + real (take_bit sh m) / 2 ^ sh"
    unfolding fv_def p by (simp add: drop_bit_eq_div take_bit_eq_mod field_simps)
  have "real (take_bit sh m) + 1 \<le> 2 ^ sh" by (rule real_pow2_bound) simp
  then show "real (take_bit sh m) / 2 ^ sh < 1" by (simp add: pos_divide_less_eq)
qed

lemma fv_lt1: "normal_mant m \<Longrightarrow> k < 0 \<Longrightarrow> fv m k < 1"
  using fv_less_binade [of "2 ^ 63" m k 0] by (simp add: fv_def normal_mant_def power_int_def power_one_over)

lemma to_i64_trunc_val:
  assumes "f80_wf x" "f_cls x = Cls_Normal" "f_exp x < 63"
  shows "to_i64_trunc x = (if f_sign x then - \<lfloor>fv (f_mant x) (f_exp x)\<rfloor> else \<lfloor>fv (f_mant x) (f_exp x)\<rfloor>) \<and>
    (has_fraction x \<longleftrightarrow> fv (f_mant x) (f_exp x) \<noteq> \<lfloor>fv (f_mant x) (f_exp x)\<rfloor>)"
proof -
  have n: "normal_mant (f_mant x)" using assms by (simp add: f80_wf_def)
  show ?thesis
  proof (cases "f_exp x < 0")
    case True
    then have "\<lfloor>fv (f_mant x) (f_exp x)\<rfloor> = 0" "fv (f_mant x) (f_exp x) \<noteq> 0"
      using fv_lt1 [OF n True] fv_pos [OF n, of "f_exp x"] by (auto simp: floor_eq_iff)
    then show ?thesis using True assms by (simp add: to_i64_trunc_def to_int_def has_fraction_def)
  next
    case False
    define sh where "sh = nat (63 - f_exp x)"
    note v = fv_int_split [of "f_exp x" "f_mant x", folded sh_def]
    have fl: "\<lfloor>fv (f_mant x) (f_exp x)\<rfloor> = int (drop_bit sh (f_mant x))"
      using v False assms(3) by (simp add: floor_eq_iff)
    have "drop_bit sh (f_mant x) < 2 ^ 63"
    proof -
      have "f_mant x < 2 ^ 63 * 2 ^ 1" using n by (simp add: normal_mant_def)
      also have "\<dots> \<le> 2 ^ 63 * 2 ^ sh" using assms(3) False by (intro mult_left_mono power_increasing) (auto simp: sh_def)
      finally show ?thesis unfolding drop_bit_eq_div by (rule less_mult_imp_div_less)
    qed
    then have "int (drop_bit sh (f_mant x)) < 2 ^ 63" using of_nat_less_iff [of _ "2 ^ 63", where 'a = int] by simp
    then have t: "to_i64_trunc x = (if f_sign x then - int (drop_bit sh (f_mant x)) else int (drop_bit sh (f_mant x)))"
      using False assms by (simp add: to_i64_trunc_def to_int_def Let_def i64_small flip: sh_def)
    have "has_fraction x \<longleftrightarrow> fv (f_mant x) (f_exp x) \<noteq> int (drop_bit sh (f_mant x))"
      using v(1) False assms by (simp add: has_fraction_def flip: sh_def)
    then show ?thesis using t fl by simp
  qed
qed

definition half_even :: "nat \<Rightarrow> real \<Rightarrow> bool" where
  "half_even r a \<longleftrightarrow> \<bar>real r - a\<bar> \<le> 1 / 2 \<and> (\<bar>real r - a\<bar> = 1 / 2 \<longrightarrow> even r)"

lemma round_below_one:
  assumes "normal_mant m" "k < 0"
  shows "half_even (if k = - 1 \<and> m \<noteq> 2 ^ 63 then 1 else 0) (fv m k)"
proof -
  have a: "0 < fv m k" "fv m k < 1" using fv_pos [OF assms(1)] fv_lt1 [OF assms] by auto
  show ?thesis
  proof (cases "k = - 1")
    case True
    have a2: "fv m k = real m / 2 ^ 64" using True by (simp add: fv_def power_int_def power_one_over)
    have "real (2 ^ 63) \<le> real m" using assms(1) unfolding of_nat_le_iff normal_mant_def by simp
    then have "1 / 2 \<le> fv m k" unfolding a2 by simp
    moreover have "m = 2 ^ 63 \<longleftrightarrow> real m = real (2 ^ 63)" unfolding of_nat_eq_iff ..
    then have "m = 2 ^ 63 \<longleftrightarrow> fv m k = 1 / 2" unfolding a2 by auto
    ultimately show ?thesis using a True by (auto simp: half_even_def)
  next
    case False
    then have "fv m k < 1 / 2"
      using fv_less_binade [of "2 ^ 63" m k "- 1"] assms
      by (simp add: fv_def normal_mant_def power_int_def power_one_over)
    then show ?thesis using a False by (simp add: half_even_def)
  qed
qed

lemma round_with_fraction:
  fixes t sh :: nat
  assumes "0 < sh" "t < 2 ^ sh"
  shows "half_even (if 2 ^ (sh - 1) < t \<or> t = 2 ^ (sh - 1) \<and> odd i then i + 1 else i) (real i + real t / 2 ^ sh)"
proof -
  have p2: "(2 :: real) ^ sh = 2 * 2 ^ (sh - 1)" using assms(1) by (simp flip: power_Suc)
  have "2 ^ (sh - 1) < t \<longleftrightarrow> real (2 ^ (sh - 1)) < real t" unfolding of_nat_less_iff ..
  then have c1: "2 ^ (sh - 1) < t \<longleftrightarrow> 1 / 2 < real t / 2 ^ sh" unfolding p2 by (simp add: field_simps)
  have "t = 2 ^ (sh - 1) \<longleftrightarrow> real t = real (2 ^ (sh - 1))" unfolding of_nat_eq_iff ..
  then have c2: "t = 2 ^ (sh - 1) \<longleftrightarrow> real t / 2 ^ sh = 1 / 2" unfolding p2 by (auto simp: field_simps)
  have "real t / 2 ^ sh < 1" using real_pow2_bound [OF assms(2)] assms(2) by (simp add: pos_divide_less_eq)
  then show ?thesis using c1 c2 by (auto simp: half_even_def)
qed

lemma exp_below_63:
  assumes "normal_mant m" "fv m k < 2 ^ 63"
  shows "k < 63"
proof (rule ccontr)
  assume "\<not> k < 63"
  then have "fv (2 ^ 63) 63 \<le> fv m k"
    using fv_less_binade [OF assms(1), of "2 ^ 63" 63 k] assms(1)
    by (cases "k = 63") (auto simp: fv_def normal_mant_def less_imp_le)
  then show False using assms(2) by (simp add: fv_def)
qed

lemma to_i64_round_val:
  assumes "f80_wf x" "f_cls x = Cls_Normal" "fv (f_mant x) (f_exp x) < 2 ^ 63 - 1 / 2"
  shows "\<exists>r. to_i64_round x = (if f_sign x then - int r else int r) \<and> half_even r (fv (f_mant x) (f_exp x))"
proof -
  have n: "normal_mant (f_mant x)" using assms by (simp add: f80_wf_def)
  show ?thesis
  proof (cases "f_exp x < 0")
    case True
    then show ?thesis
      using round_below_one [OF n True] assms(2)
      by (intro exI [of _ "if f_exp x = - 1 \<and> f_mant x \<noteq> 2 ^ 63 then 1 else 0"]) (simp add: to_i64_round_def to_int_def)
  next
    case False
    have e: "f_exp x < 63" using exp_below_63 [OF n] assms(3) by simp
    define sh where "sh = nat (63 - f_exp x)"
    define i where "i = drop_bit sh (f_mant x)"
    define t where "t = take_bit sh (f_mant x)"
    define r where "r = (if 2 ^ (sh - 1) < t \<or> t = 2 ^ (sh - 1) \<and> odd i then i + 1 else i)"
    have v: "fv (f_mant x) (f_exp x) = real i + real t / 2 ^ sh"
      using fv_int_split(1) [of "f_exp x" "f_mant x"] False e by (simp add: i_def t_def sh_def)
    have "0 < sh" "t < 2 ^ sh" using e by (auto simp: sh_def t_def)
    then have h: "half_even r (fv (f_mant x) (f_exp x))" unfolding v r_def by (rule round_with_fraction)
    then have "\<bar>real r - fv (f_mant x) (f_exp x)\<bar> \<le> 1 / 2" by (simp only: half_even_def)
    then have "real r < 2 ^ 63" using assms(3) by linarith
    then have "r < 2 ^ 63" by simp
    then have small: "i64 (int r) = int r" "i64 (- int r) = - int r" by (auto intro!: i64_small)
    have "to_i64_round x = (if f_sign x then i64 (- i64 (int r)) else i64 (int r))"
      using False e assms(2)
      unfolding to_i64_round_def to_int_def Let_def sh_def [symmetric] i_def [symmetric] t_def [symmetric]
      by (simp add: r_def)
    then have "to_i64_round x = (if f_sign x then - int r else int r)" using small by simp
    then show ?thesis using h by blast
  qed
qed

lemma half_even_int: "half_even r (real m) \<Longrightarrow> r = m"
proof -
  assume "half_even r (real m)"
  then have "\<bar>real_of_int (int r - int m)\<bar> < 1" unfolding half_even_def by simp
  then show ?thesis by linarith
qed

lemma from_i64_val:
  assumes "v \<noteq> 0" "- (2 ^ 63) \<le> v" "v < 2 ^ 63"
  shows "f_cls (from_i64 v) = Cls_Normal" "f_sign (from_i64 v) = (v < 0)" "f80_wf (from_i64 v)"
    "fv (f_mant (from_i64 v)) (f_exp (from_i64 v)) = real (nat \<bar>v\<bar>)"
    "f_exp (from_i64 v) < 63 \<longleftrightarrow> v \<noteq> - (2 ^ 63)"
proof -
  define m where "m = nat \<bar>v\<bar>"
  have m: "0 < m" "m \<le> 2 ^ 63" using assms by (auto simp: m_def nat_le_iff)
  then have f: "from_i64 v = \<lparr>f_sign = v < 0, f_cls = Cls_Normal, f_exp = int (bitlen m) - 1, f_mant = m * 2 ^ (64 - bitlen m)\<rparr>"
    using assms(1) round_from_exact [of m 0 "v < 0"] by (simp add: from_i64_def flip: m_def)
  have b: "0 < bitlen m" "bitlen m \<le> 64" using m bitlen_pos bitlen_le [of m 64] by auto
  show "f_cls (from_i64 v) = Cls_Normal" "f_sign (from_i64 v) = (v < 0)" by (simp_all add: f)
  show "f80_wf (from_i64 v)" using assms round_from_wf [of m] m by (simp add: from_i64_def flip: m_def)
  have "(2 :: real) powi (int (bitlen m) - 64) = 1 / 2 ^ (64 - bitlen m)"
    using b by (cases "bitlen m = 64") (auto simp: power_int_def power_one_over nat_diff_distrib')
  then show "fv (f_mant (from_i64 v)) (f_exp (from_i64 v)) = real (nat \<bar>v\<bar>)"
    unfolding m_def [symmetric] by (simp add: f fv_def)
  have "bitlen m = 64 \<longleftrightarrow> m = 2 ^ 63"
  proof
    assume "bitlen m = 64"
    then show "m = 2 ^ 63" using bitlen_bounds [of m] m by simp
  next
    assume "m = 2 ^ 63"
    then show "bitlen m = 64" by (intro bitlen_normal) (simp add: normal_mant_def)
  qed
  moreover have "m = 2 ^ 63 \<longleftrightarrow> v = - (2 ^ 63)" using assms by (auto simp: m_def)
  ultimately show "f_exp (from_i64 v) < 63 \<longleftrightarrow> v \<noteq> - (2 ^ 63)" using b by (auto simp: f)
qed

lemma to_i64_rc_exact:
  assumes "- (2 ^ 63) \<le> v" "v < 2 ^ 63"
  shows "to_i64_rc (from_i64 v) rc = v"
proof -
  consider "v = 0" | "v = - (2 ^ 63)" | "v \<noteq> 0" "v \<noteq> - (2 ^ 63)" by blast
  then show ?thesis
  proof cases
    case 1
    then show ?thesis
      by (simp add: from_i64_def f80_zero_def to_i64_rc_def to_i64_round_def to_i64_trunc_def to_int_def has_fraction_def)
  next
    case 2
    then show ?thesis using from_i64_val [of v]
      by (simp add: to_i64_rc_def to_i64_round_def to_i64_trunc_def to_int_def has_fraction_def)
  next
    case 3
    note v = from_i64_val [OF 3(1) assms]
    have t: "to_i64_trunc (from_i64 v) = v" "\<not> has_fraction (from_i64 v)"
      using to_i64_trunc_val [OF v(3,1)] v(2,4,5) 3 by auto
    have "real (nat \<bar>v\<bar>) \<le> real (2 ^ 63 - 1)" unfolding of_nat_le_iff using assms 3 by (simp add: nat_le_iff)
    then obtain r where "to_i64_round (from_i64 v) = (if v < 0 then - int r else int r)" "half_even r (real (nat \<bar>v\<bar>))"
      using to_i64_round_val [OF v(3,1)] v(2,4) by auto
    then have "to_i64_round (from_i64 v) = v" using half_even_int by fastforce
    then show ?thesis using t by (simp add: to_i64_rc_def)
  qed
qed

lemma rc_modes:
  assumes "f80_wf x" "f_cls x = Cls_Normal" "\<bar>f80_val x\<bar> < 2 ^ 63 - 1"
  shows "to_i64_rc x 1 = \<lfloor>f80_val x\<rfloor> \<and> to_i64_rc x 2 = \<lceil>f80_val x\<rceil> \<and>
     to_i64_rc x 3 = (if f80_val x < 0 then \<lceil>f80_val x\<rceil> else \<lfloor>f80_val x\<rfloor>) \<and>
     \<bar>real_of_int (to_i64_rc x 0) - f80_val x\<bar> \<le> 1 / 2 \<and>
     (\<bar>real_of_int (to_i64_rc x 0) - f80_val x\<bar> = 1 / 2 \<longrightarrow> even (to_i64_rc x 0))"
proof -
  have n: "normal_mant (f_mant x)" using assms by (simp add: f80_wf_def)
  define a where "a = fv (f_mant x) (f_exp x)"
  have pos: "0 < a" using fv_pos [OF n] by (simp add: a_def)
  have val: "f80_val x = (if f_sign x then - a else a)" using assms(2) by (simp add: f80_val_def a_def)
  have lt: "a < 2 ^ 63 - 1" using assms(3) val pos by (auto split: if_splits)
  have e: "f_exp x < 63" using exp_below_63 [OF n, of "f_exp x"] lt by (simp add: a_def)
  have t: "to_i64_trunc x = (if f_sign x then - \<lfloor>a\<rfloor> else \<lfloor>a\<rfloor>)" "has_fraction x \<longleftrightarrow> a \<noteq> \<lfloor>a\<rfloor>"
    using to_i64_trunc_val [OF assms(1,2) e] by (auto simp: a_def)
  have fl: "0 \<le> \<lfloor>a\<rfloor>" "\<lfloor>a\<rfloor> < 2 ^ 63 - 1" using pos lt by (auto simp: floor_less_iff)
  have sm: "i64 (- \<lfloor>a\<rfloor> - 1) = - \<lfloor>a\<rfloor> - 1" "i64 (\<lfloor>a\<rfloor> + 1) = \<lfloor>a\<rfloor> + 1"
    by (rule i64_small; use fl in linarith)+
  have ce: "\<lceil>a\<rceil> = (if a = \<lfloor>a\<rfloor> then \<lfloor>a\<rfloor> else \<lfloor>a\<rfloor> + 1)" by (auto simp: ceiling_altdef)
  obtain r where r: "to_i64_round x = (if f_sign x then - int r else int r)" "half_even r a"
    using to_i64_round_val [OF assms(1,2)] lt by (auto simp: a_def)
  have rc: "to_i64_rc x 1 = \<lfloor>f80_val x\<rfloor>" "to_i64_rc x 2 = \<lceil>f80_val x\<rceil>"
    using t sm ce by (auto simp: to_i64_rc_def val floor_minus ceiling_minus)
  have "to_i64_rc x 3 = (if f80_val x < 0 then \<lceil>f80_val x\<rceil> else \<lfloor>f80_val x\<rfloor>)"
    using t pos by (auto simp: to_i64_rc_def val ceiling_minus)
  moreover have "\<bar>real_of_int (to_i64_rc x 0) - f80_val x\<bar> = \<bar>real r - a\<bar>" "even (to_i64_rc x 0) = even r"
    using r(1) by (auto simp: to_i64_rc_def val)
  ultimately show ?thesis using rc r(2) unfolding half_even_def by simp
qed

text \<open>
  Conversion to integers honours the rounding-control field.  Every \<^verbatim>\<open>i64\<close> converts to a float and
  back unchanged in all four modes; and a finite value of magnitude below \<open>2\<^sup>6\<^sup>3 - 1\<close> converts to its
  floor (mode 1), its ceiling (mode 2), its truncation (mode 3), and in mode 0 to an integer at most
  one half away, the even one at a tie.
\<close>

theorem f80_integer_conversion:
  "(- (2 ^ 63) \<le> v \<and> v < 2 ^ 63 \<longrightarrow> to_i64_rc (from_i64 v) rc = v) \<and>
   (f80_wf x \<and> f80_finite x \<and> \<bar>f80_val x\<bar> < 2 ^ 63 - 1 \<longrightarrow>
     to_i64_rc x 1 = \<lfloor>f80_val x\<rfloor> \<and> to_i64_rc x 2 = \<lceil>f80_val x\<rceil> \<and>
     to_i64_rc x 3 = (if f80_val x < 0 then \<lceil>f80_val x\<rceil> else \<lfloor>f80_val x\<rfloor>) \<and>
     \<bar>real_of_int (to_i64_rc x 0) - f80_val x\<bar> \<le> 1 / 2 \<and>
     (\<bar>real_of_int (to_i64_rc x 0) - f80_val x\<bar> = 1 / 2 \<longrightarrow> even (to_i64_rc x 0)))"
proof (intro conjI impI)
  assume "- (2 ^ 63) \<le> v \<and> v < 2 ^ 63"
  then show "to_i64_rc (from_i64 v) rc = v" using to_i64_rc_exact by blast
next
  assume a: "f80_wf x \<and> f80_finite x \<and> \<bar>f80_val x\<bar> < 2 ^ 63 - 1"
  have "to_i64_rc x 1 = \<lfloor>f80_val x\<rfloor> \<and> to_i64_rc x 2 = \<lceil>f80_val x\<rceil> \<and>
     to_i64_rc x 3 = (if f80_val x < 0 then \<lceil>f80_val x\<rceil> else \<lfloor>f80_val x\<rfloor>) \<and>
     \<bar>real_of_int (to_i64_rc x 0) - f80_val x\<bar> \<le> 1 / 2 \<and>
     (\<bar>real_of_int (to_i64_rc x 0) - f80_val x\<bar> = 1 / 2 \<longrightarrow> even (to_i64_rc x 0))"
  proof (cases "f_cls x = Cls_Normal")
    case True
    then show ?thesis using rc_modes [of x] a by blast
  next
    case False
    then have "f_cls x = Cls_Zero" using a by (simp add: f80_finite_def)
    then show ?thesis
      by (simp add: f80_val_def to_i64_rc_def to_i64_round_def to_i64_trunc_def to_int_def has_fraction_def)
  qed
  then show "to_i64_rc x 1 = \<lfloor>f80_val x\<rfloor>" "to_i64_rc x 2 = \<lceil>f80_val x\<rceil>"
     "to_i64_rc x 3 = (if f80_val x < 0 then \<lceil>f80_val x\<rceil> else \<lfloor>f80_val x\<rfloor>)"
     "\<bar>real_of_int (to_i64_rc x 0) - f80_val x\<bar> \<le> 1 / 2"
     "\<bar>real_of_int (to_i64_rc x 0) - f80_val x\<bar> = 1 / 2 \<Longrightarrow> even (to_i64_rc x 0)" by blast+
qed

theorem f80_integer_conversion_witness:
  "let x = \<lparr>f_sign = True, f_cls = Cls_Normal, f_exp = 1, f_mant = 0xA000000000000000\<rparr>
   in f80_val x = - 5 / 2 \<and> to_i64_rc x 1 = - 3 \<and> to_i64_rc (from_i64 (- 77)) 0 = - 77"
proof -
  define x where "x = \<lparr>f_sign = True, f_cls = Cls_Normal, f_exp = 1, f_mant = 0xA000000000000000\<rparr>"
  have v: "f80_val x = - 5 / 2" by (simp add: x_def f80_val_def fv_def power_int_def power_one_over)
  then have "\<lfloor>f80_val x\<rfloor> = - 3" by (simp add: floor_eq_iff)
  then show ?thesis
    using f80_integer_conversion [of "- 77" 0 x] v unfolding Let_def x_def [symmetric]
    by (simp add: x_def f80_wf_def f80_finite_def normal_mant_def)
qed

text \<open>
  FRNDINT can return the wrong sign.  Rounding the largest value below \<open>2\<^sup>6\<^sup>3\<close>, which is
  \<open>2\<^sup>6\<^sup>3 - 1/2\<close>, to the nearest integer (or up) goes through the \<^verbatim>\<open>i64\<close> conversion, whose result
  \<open>2\<^sup>6\<^sup>3\<close> does not fit and wraps, so the code returns \<open>- 2\<^sup>6\<^sup>3\<close>.
\<close>

theorem f80_frndint_wraps:
  "let x = \<lparr>f_sign = False, f_cls = Cls_Normal, f_exp = 62, f_mant = 2 ^ 64 - 1\<rparr>
   in f80_val x = 2 ^ 63 - 1 / 2 \<and> f80_val (round_to_integer x 0) = - (2 ^ 63) \<and>
      f80_val (round_to_integer x 2) = - (2 ^ 63)"
proof -
  define x where "x = \<lparr>f_sign = False, f_cls = Cls_Normal, f_exp = 62, f_mant = 2 ^ 64 - 1\<rparr>"
  have t: "take_bit (Suc 0) (18446744073709551615 :: nat) = 1" "drop_bit (Suc 0) (18446744073709551615 :: nat) = 2 ^ 63 - 1"
    by (simp_all add: take_bit_eq_mod drop_bit_eq_div)
  have v: "f80_val x = 2 ^ 63 - 1 / 2" by (simp add: x_def f80_val_def fv_def power_int_def)
  have r: "to_i64_rc x 0 = - (2 ^ 63)" "to_i64_rc x 2 = - (2 ^ 63)"
    by (simp_all add: x_def to_i64_rc_def to_i64_round_def to_i64_trunc_def to_int_def has_fraction_def t i64_def)
  have "f80_val (from_i64 (- (2 ^ 63))) = - (2 ^ 63)"
    using from_i64_val [of "- (2 ^ 63)"] by (simp add: f80_val_def)
  then show ?thesis unfolding Let_def x_def [symmetric] using v r by (simp add: round_to_integer_def, simp add: x_def)
qed

end
