(* ===== verification/F64.thy ===== *)
theory F64
  imports F80
begin

unbundle bit_operations_syntax

text \<open>
  The conversions between the 80-bit format and the host's f64 and f32 (\<^verbatim>\<open>crates/cpu/src/f80.rs\<close>, \<^verbatim>\<open>to_f64\<close> and
  \<^verbatim>\<open>from_f32\<close>).  They compute with the host's floating-point arithmetic: an integer-to-f64 cast and
  multiplications by powers of two.  These two operations are modelled on bit patterns as IEEE 754 defines
  them, rounding to nearest with ties to even, with gradual underflow and overflow to infinity.
\<close>

section \<open>The host's f64\<close>

definition F64_INF :: u64 where "F64_INF = 0x7FF0000000000000"
definition F64_NAN :: u64 where "F64_NAN = 0x7FF8000000000000"
definition F64_SIGN :: u64 where "F64_SIGN = 0x8000000000000000"

text \<open>Rounding a quotient by \<open>2 ^ n\<close> to the nearest integer, ties to even.\<close>

definition div_even :: "nat \<Rightarrow> nat \<Rightarrow> nat" where
  "div_even m n =
     (if n = 0 then m
      else let d = m div 2 ^ n; r = m mod 2 ^ n
           in if 2 ^ (n - 1) < r \<or> (r = 2 ^ (n - 1) \<and> odd d) then d + 1 else d)"

text \<open>The pattern of the f64 nearest to \<open>m \<cdot> 2 ^ e\<close>: \<open>q\<close> is the exponent of its last place.\<close>

definition f64_pack :: "nat \<Rightarrow> int \<Rightarrow> nat" where
  "f64_pack m e =
     (if m = 0 then 0
      else let q = max (e + int (bitlen m) - 53) (- 1074);
               f = (if q \<le> e then m * 2 ^ nat (e - q) else div_even m (nat (q - e)))
           in min (nat (q + 1074) * 2 ^ 52 + f) (0x7FF * 2 ^ 52))"

definition f64_parts :: "nat \<Rightarrow> nat \<times> int" where
  "f64_parts b = (if b < 2 ^ 52 then (b, - 1074) else (2 ^ 52 + b mod 2 ^ 52, int (b div 2 ^ 52) - 1075))"

text \<open>Multiplication of a non-negative f64 by \<open>2 ^ k\<close>.\<close>

definition f64_scale :: "nat \<Rightarrow> int \<Rightarrow> nat" where
  "f64_scale b k = (if 0x7FF * 2 ^ 52 \<le> b then b else case f64_parts b of (m, e) \<Rightarrow> f64_pack m (e + k))"

section \<open>to_f64 and from_f32\<close>

text \<open>The two loops of \<^verbatim>\<open>to_f64\<close>: the value and the exponent still to apply.\<close>

function scale_down :: "nat \<Rightarrow> int \<Rightarrow> nat \<times> int" where
  "scale_down r k = (if k < - 512 then scale_down (f64_scale r (- 512)) (k + 512) else (r, k))"
  by auto
termination by (relation "measure (\<lambda>(r, k). nat (- k))") auto

function scale_up :: "nat \<Rightarrow> int \<Rightarrow> nat \<times> int" where
  "scale_up r k = (if 512 < k then scale_up (f64_scale r 512) (k - 512) else (r, k))"
  by auto
termination by (relation "measure (\<lambda>(r, k). nat k)") auto

declare scale_down.simps [simp del] scale_up.simps [simp del]

definition to_f64 :: "f80 \<Rightarrow> u64" where
  "to_f64 x =
     (let s = (if f_sign x then F64_SIGN else 0) in
      case f_cls x of
        Cls_Zero \<Rightarrow> s
      | Cls_Inf \<Rightarrow> s OR F64_INF
      | Cls_Nan \<Rightarrow> F64_NAN
      | Cls_Normal \<Rightarrow>
          (let (r1, k1) = scale_down (f64_pack (f_mant x) 0) (i32 (f_exp x - 63));
               (r2, k2) = scale_up r1 k1
           in s OR of_nat (f64_scale r2 k2)))"

text \<open>The widening cast from f32 is exact.\<close>

definition f32_to_f64 :: "u32 \<Rightarrow> u64" where
  "f32_to_f64 v =
     (let s = (if bit v 31 then F64_SIGN else 0); ex = unat (drop_bit 23 v AND 0xFF); frac = unat (v AND 0x7FFFFF)
      in if ex = 0xFF then s OR F64_INF OR (if frac = 0 then 0 else 0x8000000000000 OR of_nat (frac * 2 ^ 29))
         else if ex = 0 then s OR of_nat (f64_pack frac (- 149))
         else s OR of_nat (f64_pack (2 ^ 23 + frac) (int ex - 150)))"

definition from_f32 :: "u32 \<Rightarrow> f80" where
  "from_f32 v = from_f64 (f32_to_f64 v)"

section \<open>Exact cases\<close>

lemma div_even_exact: "div_even (f * 2 ^ n) n = f"
  by (simp add: div_even_def)

definition normal53 :: "nat \<Rightarrow> bool" where
  "normal53 f \<longleftrightarrow> 2 ^ 52 \<le> f \<and> f < 2 ^ 53"

lemma bitlen53: "normal53 f \<Longrightarrow> bitlen f = 53"
  using bitlen_eqI [of 52 f] by (simp add: normal53_def)

lemma f64_pack_exact:
  assumes "normal53 f" "- 1074 \<le> e" "e \<le> 971"
  shows "f64_pack f e = nat (e + 1074) * 2 ^ 52 + f" "f64_pack f e < 0x7FF * 2 ^ 52" "f64_parts (f64_pack f e) = (f, e)"
proof -
  have f: "0 < f" "bitlen f = 53" "2 ^ 52 \<le> f" "f < 2 ^ 53" using assms(1) bitlen53 by (auto simp: normal53_def)
  have n: "nat (e + 1074) \<le> 2045" using assms(3) by simp
  have l: "nat (e + 1074) * 2 ^ 52 + f < 0x7FF * 2 ^ 52" using n f(4) by simp
  show p: "f64_pack f e = nat (e + 1074) * 2 ^ 52 + f"
    using f assms(2) l by (simp add: f64_pack_def)
  show "f64_pack f e < 0x7FF * 2 ^ 52" using l p by simp
  define g where "g = f - 2 ^ 52"
  have g: "f = 2 ^ 52 + g" "g < 2 ^ 52" using f(3,4) by (simp_all add: g_def)
  have d: "f64_pack f e = Suc (nat (e + 1074)) * 2 ^ 52 + g" using p g by simp
  have "f64_pack f e div 2 ^ 52 = Suc (nat (e + 1074))" "f64_pack f e mod 2 ^ 52 = g"
    unfolding d using g(2) by (simp_all del: mult_Suc)
  moreover have "\<not> f64_pack f e < 2 ^ 52" using p f(3) by simp
  ultimately show "f64_parts (f64_pack f e) = (f, e)" using g assms(2) by (simp add: f64_parts_def)
qed

lemma f64_scale_exact:
  assumes "normal53 f" "- 1074 \<le> e" "e \<le> 971"
  shows "f64_scale (f64_pack f e) k = f64_pack f (e + k)"
  using f64_pack_exact [OF assms] by (simp add: f64_scale_def)

lemma f64_pack_wide:
  assumes "normal53 f" "- 1074 \<le> e"
  shows "f64_pack (f * 2 ^ 11) (e - 11) = f64_pack f e"
proof -
  have f: "0 < f" "bitlen f = 53" "2 ^ 52 \<le> f" "f < 2 ^ 53" using assms(1) bitlen53 by (auto simp: normal53_def)
  then have "bitlen (f * 2 ^ 11) = 64" using bitlen_eqI [of 63 "f * 2 ^ 11"] by simp
  then show ?thesis using f assms(2) div_even_exact [of f 11] by (simp add: f64_pack_def)
qed

lemma f64_pack_subnormal:
  assumes "0 < g" "g < 2 ^ 52"
  shows "f64_pack (g * 2 ^ (53 - bitlen g)) (int (bitlen g) - 1127) = g"
proof -
  define n where "n = bitlen g"
  have n: "0 < n" "n \<le> 52" "2 ^ (n - 1) \<le> g" "g < 2 ^ n"
    using assms bitlen_pos bitlen_bounds bitlen_le by (auto simp: n_def)
  have e: "(2 :: nat) ^ 52 = 2 ^ (n - 1) * 2 ^ (53 - n)" "(2 :: nat) ^ 53 = 2 ^ n * 2 ^ (53 - n)"
    using n(1,2) by (simp_all flip: power_add)
  have "normal53 (g * 2 ^ (53 - n))" unfolding normal53_def e using n(3,4) by simp
  then have b: "bitlen (g * 2 ^ (53 - n)) = 53" by (rule bitlen53)
  have "nat (53 - int n) = 53 - n" by simp
  then show ?thesis
    using b n assms div_even_exact [of g "53 - n"] by (simp add: f64_pack_def flip: n_def)
qed

lemma subnormal_scaled:
  assumes "0 < g" "g < 2 ^ 52"
  shows "normal53 (g * 2 ^ (53 - bitlen g))" "g * 2 ^ (64 - bitlen g) = g * 2 ^ (53 - bitlen g) * 2 ^ 11"
proof -
  define n where "n = bitlen g"
  have n: "0 < n" "n \<le> 52" "2 ^ (n - 1) \<le> g" "g < 2 ^ n"
    using assms bitlen_pos bitlen_bounds bitlen_le by (auto simp: n_def)
  have e: "(2 :: nat) ^ 52 = 2 ^ (n - 1) * 2 ^ (53 - n)" "(2 :: nat) ^ 53 = 2 ^ n * 2 ^ (53 - n)"
    using n(1,2) by (simp_all flip: power_add)
  show "normal53 (g * 2 ^ (53 - bitlen g))" unfolding normal53_def e using n(3,4) by (simp flip: n_def)
  have "64 - n = 53 - n + 11" using n(2) by simp
  then have "(2 :: nat) ^ (64 - n) = 2 ^ (53 - n) * 2 ^ 11" by (simp only: power_add)
  then show "g * 2 ^ (64 - bitlen g) = g * 2 ^ (53 - bitlen g) * 2 ^ 11" by (simp only: n_def mult.assoc)
qed

section \<open>The scaling loops are exact until the last step\<close>

lemma scale_down_exact:
  assumes "normal53 f" "- 1536 \<le> k"
  obtains j where "scale_down (f64_pack f 11) k = (f64_pack f (11 - j), k + j)" "0 \<le> j" "j \<le> 1024"
    "- 512 \<le> k + j" "j = 0 \<or> k + j < 0"
proof -
  note ex = f64_scale_exact [OF assms(1)]
  consider "- 512 \<le> k" | "k < - 512" "- 1024 \<le> k" | "k < - 1024" by linarith
  then show thesis
  proof cases
    case 1
    then show thesis using that [of 0] by (simp add: scale_down.simps)
  next
    case 2
    then show thesis
      using that [of 512] ex [of 11 "- 512"] by (simp add: scale_down.simps [of _ k] scale_down.simps [of _ "k + 512"])
  next
    case 3
    then show thesis
      using that [of 1024] assms(2) ex [of 11 "- 512"] ex [of "- 501" "- 512"]
      by (simp add: scale_down.simps [of _ k] scale_down.simps [of _ "k + 512"] scale_down.simps [of _ "1024 + k"])
  qed
qed

lemma scale_up_exact:
  assumes "normal53 f" "- 1024 \<le> e" "e \<le> 11" "k \<le> 960"
  obtains j where "scale_up (f64_pack f e) k = (f64_pack f (e + j), k - j)" "0 \<le> j" "j \<le> 512"
proof (cases "512 < k")
  case True
  then show thesis
    using that [of 512] assms f64_scale_exact [OF assms(1), of e 512]
    by (simp add: scale_up.simps [of _ k] scale_up.simps [of _ "k - 512"])
next
  case False
  then show thesis using that [of 0] by (simp add: scale_up.simps)
qed

lemma to_f64_normal:
  assumes "normal53 f" "f_cls x = Cls_Normal" "f64_pack (f_mant x) 0 = f64_pack f 11" "- 1473 \<le> f_exp x" "f_exp x \<le> 1023"
  shows "to_f64 x = (if f_sign x then F64_SIGN else 0) OR of_nat (f64_pack f (f_exp x - 52))"
proof -
  define k where "k = f_exp x - 63"
  have k: "i32 (f_exp x - 63) = k" using assms(4,5) by (simp add: k_def i32_small)
  obtain j where j: "scale_down (f64_pack f 11) k = (f64_pack f (11 - j), k + j)" "0 \<le> j" "j \<le> 1024"
    "- 512 \<le> k + j" "j = 0 \<or> k + j < 0"
    using scale_down_exact [OF assms(1), of k] assms(4) by (auto simp: k_def)
  have b: "- 1024 \<le> 11 - j" "11 - j \<le> 11" "k + j \<le> 960" using j assms(5) by (auto simp: k_def)
  obtain i where i: "scale_up (f64_pack f (11 - j)) (k + j) = (f64_pack f (11 - j + i), k + j - i)" "0 \<le> i" "i \<le> 512"
    using scale_up_exact [OF assms(1) b] by blast
  have "f64_scale (f64_pack f (11 - j + i)) (k + j - i) = f64_pack f (11 + k)"
    using f64_scale_exact [OF assms(1), of "11 - j + i" "k + j - i"] b(1,2) i(2,3) by simp
  moreover have "11 + k = f_exp x - 52" by (simp add: k_def)
  ultimately show ?thesis using assms(2,3) k j(1) i(1) by (simp add: to_f64_def)
qed

section \<open>The fields of a pattern\<close>

lemma f64_fields:
  fixes b :: u64
  defines "ex \<equiv> unat (drop_bit 52 b AND 0x7FF)" and "fr \<equiv> unat (b AND 0x000FFFFFFFFFFFFF)"
  shows "fr < 2 ^ 52" "ex \<le> 0x7FF"
    "(if drop_bit 63 b \<noteq> 0 then F64_SIGN else 0) OR of_nat (ex * 2 ^ 52 + fr) = b"
proof -
  have m: "(0x7FF :: u64) = mask 11" "(0x000FFFFFFFFFFFFF :: u64) = mask 52" by (simp_all add: mask_eq_exp_minus_1)
  have ex: "ex = unat b div 2 ^ 52 mod 2 ^ 11"
    unfolding ex_def m(1) by (simp only: take_bit_eq_mask [symmetric] unsigned_take_bit_eq unat_drop_bit_eq)
      (simp add: take_bit_eq_mod drop_bit_eq_div)
  have fr: "fr = unat b mod 2 ^ 52"
    unfolding fr_def m(2) by (simp only: take_bit_eq_mask [symmetric] unsigned_take_bit_eq) (simp add: take_bit_eq_mod)
  show "fr < 2 ^ 52" "ex \<le> 0x7FF" by (simp_all add: ex fr)
  have "ex * 2 ^ 52 + fr = take_bit 63 (unat b)"
    using mod_mult2_eq [of "unat b" "2 ^ 52" "2 ^ 11"] by (simp add: ex fr take_bit_eq_mod)
  then have lo: "(of_nat (ex * 2 ^ 52 + fr) :: u64) = take_bit 63 b"
    by (simp flip: unsigned_take_bit_eq)
  have s: "(if drop_bit 63 b \<noteq> 0 then F64_SIGN else 0) = push_bit 63 (drop_bit 63 b)"
  proof -
    have "drop_bit 63 b = (if bit b 63 then 1 else 0)"
    proof (rule bit_word_eqI)
      show "bit (drop_bit 63 b) n = bit (if bit b 63 then 1 else 0 :: u64) n" for n
        by (cases n) (auto simp: bit_drop_bit_eq bit_1_iff dest: bit_imp_le_length)
    qed
    then show ?thesis by (simp add: F64_SIGN_def)
  qed
  show "(if drop_bit 63 b \<noteq> 0 then F64_SIGN else 0) OR of_nat (ex * 2 ^ 52 + fr) = b"
    unfolding lo s
  proof (rule bit_word_eqI)
    fix n :: nat
    assume "n < LENGTH(64)"
    then consider "n < 63" | "n = 63" by fastforce
    then show "bit (push_bit 63 (drop_bit 63 b) OR take_bit 63 b) n = bit b n" by cases (auto simp: bit_simps)
  qed
qed

section \<open>The round trip\<close>

definition is_nan64 :: "u64 \<Rightarrow> bool" where
  "is_nan64 b \<longleftrightarrow> drop_bit 52 b AND 0x7FF = 0x7FF \<and> b AND 0x000FFFFFFFFFFFFF \<noteq> 0"

lemma promote_demote: "to_f64 (from_f64 b) = (if is_nan64 b then F64_NAN else b)"
proof -
  define ex fr s where "ex = unat (drop_bit 52 b AND 0x7FF)" and "fr = unat (b AND 0x000FFFFFFFFFFFFF)"
    and "s = (drop_bit 63 b \<noteq> 0)"
  note fields = f64_fields [of b, folded ex_def fr_def s_def]
  have u: "uint (drop_bit 52 b AND 0x7FF) = int ex" by (simp add: ex_def)
  have nan: "is_nan64 b \<longleftrightarrow> ex = 0x7FF \<and> fr \<noteq> 0"
    unfolding is_nan64_def ex_def fr_def by (simp add: unat_eq_0 word_unat_eq_iff [of _ "0x7FF"])
  have promote: "from_f64 b = (if ex = 0x7FF then (if fr = 0 then f80_inf s else f80_nan)
     else if ex = 0 then (if fr = 0 then f80_zero s else round_from s (- 1074) fr False)
     else round_from s (int ex - 1075) (2 ^ 52 OR fr) False)"
    unfolding from_f64_def u by (simp add: s_def fr_def Let_def)
  consider "ex = 0x7FF" | "ex = 0" "fr = 0" | "ex = 0" "0 < fr" | "0 < ex" "ex \<noteq> 0x7FF" by auto
  then show ?thesis
  proof cases
    case 1
    then show ?thesis
      using fields(3) nan by (auto simp: promote to_f64_def f80_inf_def f80_nan_def F64_INF_def)
  next
    case 2
    then show ?thesis using fields(3) nan by (simp add: promote to_f64_def f80_zero_def)
  next
    case 3
    have n: "bitlen fr \<le> 52" using fields(1) by (rule bitlen_le)
    have r: "from_f64 b = \<lparr>f_sign = s, f_cls = Cls_Normal, f_exp = int (bitlen fr) - 1075, f_mant = fr * 2 ^ (64 - bitlen fr)\<rparr>"
      using round_from_short(1) [of fr "- 1074" s] 3 n by (simp add: promote)
    show ?thesis
      using to_f64_normal [OF subnormal_scaled(1) [OF 3(2) fields(1)], of "from_f64 b"] subnormal_scaled(2) [OF 3(2) fields(1)]
        f64_pack_wide [OF subnormal_scaled(1) [OF 3(2) fields(1)], of 11] f64_pack_subnormal [OF 3(2) fields(1)] n fields(3) nan 3
      by (simp add: r mult.assoc)
  next
    case 4
    have o: "2 ^ 52 OR fr = 2 ^ 52 + fr"
      using fields(1) or_disjoint_nat [of fr 52 1] by (simp add: push_bit_eq_mult)
    have f: "normal53 (2 ^ 52 + fr)" using fields(1) by (simp add: normal53_def)
    have r: "from_f64 b = \<lparr>f_sign = s, f_cls = Cls_Normal, f_exp = int ex - 1023, f_mant = (2 ^ 52 + fr) * 2 ^ 11\<rparr>"
      using round_from_short(1) [of "2 ^ 52 + fr" "int ex - 1075" s] 4 bitlen53 [OF f] fields(2) o by (simp add: promote)
    have p: "f64_pack (2 ^ 52 + fr) (int ex - 1075) = ex * 2 ^ 52 + fr"
      using f64_pack_exact(1) [OF f, of "int ex - 1075"] 4 fields(2) by (simp add: nat_diff_distrib algebra_simps)
    show ?thesis using to_f64_normal [OF f, of "from_f64 b"] f64_pack_wide [OF f, of 11] p fields(2,3) nan 4 by (simp add: r)
  qed
qed

section \<open>Demotion is stable\<close>

lemma f64_pack_le: "f64_pack m e \<le> 0x7FF * 2 ^ 52"
  by (simp add: f64_pack_def Let_def)

lemma f64_scale_le: "b \<le> 0x7FF * 2 ^ 52 \<Longrightarrow> f64_scale b k \<le> 0x7FF * 2 ^ 52"
  using f64_pack_le by (simp add: f64_scale_def split: prod.split)

lemma scale_down_le: "r \<le> 0x7FF * 2 ^ 52 \<Longrightarrow> fst (scale_down r k) \<le> 0x7FF * 2 ^ 52"
proof (induction r k rule: scale_down.induct)
  case (1 r k)
  then show ?case using f64_scale_le [of r] by (subst scale_down.simps) simp
qed

lemma scale_up_le: "r \<le> 0x7FF * 2 ^ 52 \<Longrightarrow> fst (scale_up r k) \<le> 0x7FF * 2 ^ 52"
proof (induction r k rule: scale_up.induct)
  case (1 r k)
  then show ?case using f64_scale_le [of r] by (subst scale_up.simps) simp
qed

lemma magnitude_not_nan:
  fixes s :: u64
  assumes "n \<le> 0x7FF * 2 ^ 52" "s = F64_SIGN \<or> s = 0"
  shows "\<not> is_nan64 (s OR of_nat n)"
proof
  assume nan: "is_nan64 (s OR of_nat n)"
  have m: "(0x7FF :: u64) = mask 11" "(0x000FFFFFFFFFFFFF :: u64) = mask 52" by (simp_all add: mask_eq_exp_minus_1)
  have "drop_bit 52 s AND mask 11 = 0" "s AND mask 52 = 0"
    using assms(2) by (auto simp: F64_SIGN_def mask_eq_exp_minus_1)
  then have d: "drop_bit 52 (of_nat n :: u64) AND mask 11 = mask 11" "(of_nat n :: u64) AND mask 52 \<noteq> 0"
    using nan unfolding is_nan64_def m by (simp_all add: drop_bit_or bit.conj_disj_distrib2)
  have u: "unat (of_nat n :: u64) = n" using assms(1) by (simp add: unat_of_nat)
  have "n div 2 ^ 52 mod 2 ^ 11 = 2 ^ 11 - 1"
    using arg_cong [OF d(1), of unat] by (simp only: take_bit_eq_mask [symmetric] unsigned_take_bit_eq unat_drop_bit_eq)
      (simp add: u drop_bit_eq_div take_bit_eq_mod mask_eq_exp_minus_1)
  then have "0x7FF \<le> n div 2 ^ 52" using mod_less_eq_dividend [of "n div 2 ^ 52" "2 ^ 11"] by simp
  then have "n = 0x7FF * 2 ^ 52" using assms(1) by simp
  then show False using d(2) by (simp add: mask_eq_exp_minus_1)
qed

lemma to_f64_stable: "to_f64 (from_f64 (to_f64 x)) = to_f64 x"
proof (cases "f_cls x")
  case Cls_Normal
  define s where "s = (if f_sign x then F64_SIGN else 0)"
  obtain r1 k1 r2 k2 where r: "scale_down (f64_pack (f_mant x) 0) (i32 (f_exp x - 63)) = (r1, k1)" "scale_up r1 k1 = (r2, k2)"
    by (meson prod.exhaust)
  have "r1 \<le> 0x7FF * 2 ^ 52" using scale_down_le [OF f64_pack_le, of "f_mant x" 0] r(1) by (metis fst_conv)
  then have "f64_scale r2 k2 \<le> 0x7FF * 2 ^ 52" using scale_up_le [of r1 k1] f64_scale_le r(2) by simp
  then have "\<not> is_nan64 (s OR of_nat (f64_scale r2 k2))" by (rule magnitude_not_nan) (simp add: s_def)
  moreover have "to_f64 x = s OR of_nat (f64_scale r2 k2)" using Cls_Normal r by (simp add: to_f64_def s_def)
  ultimately show ?thesis by (simp add: promote_demote)
next
  case Cls_Zero
  then have "\<not> is_nan64 (to_f64 x)" by (simp add: to_f64_def is_nan64_def F64_SIGN_def)
  then show ?thesis by (simp add: promote_demote)
next
  case Cls_Inf
  then have "\<not> is_nan64 (to_f64 x)" by (simp add: to_f64_def is_nan64_def F64_SIGN_def F64_INF_def)
  then show ?thesis by (simp add: promote_demote)
next
  case Cls_Nan
  then have "to_f64 x = F64_NAN" by (simp add: to_f64_def)
  then show ?thesis by (simp add: promote_demote)
qed

section \<open>The conversions agree\<close>

text \<open>
  C40: promoting an f64 to the 80-bit format and demoting it gives back the same bit pattern, for zeros, subnormals,
  normals and infinities of both signs; every NaN becomes the canonical quiet NaN.  Demoting loses precision only once:
  promoting the demoted value and demoting it again changes nothing.
\<close>

theorem f64_roundtrip:
  "to_f64 (from_f64 b) = (if is_nan64 b then F64_NAN else b) \<and> to_f64 (from_f64 (to_f64 x)) = to_f64 x"
  using promote_demote to_f64_stable by blast

section \<open>Demotion into the subnormal range rounds twice\<close>

text \<open>
  \<open>(2 ^ 63 + 0x17FF) \<cdot> 2 ^ - 1086\<close> lies below the midpoint of its two f64 neighbours \<open>(2 ^ 51 + 1) \<cdot> 2 ^ - 1074\<close> and
  \<open>(2 ^ 51 + 2) \<cdot> 2 ^ - 1074\<close>.  The cast to f64 moves it to the midpoint, the last multiplication rounds the tie to
  even, and the result is the farther neighbour.
\<close>

definition near_midpoint :: f80 where
  "near_midpoint = \<lparr>f_sign = False, f_cls = Cls_Normal, f_exp = - 1023, f_mant = 0x80000000000017FF\<rparr>"

theorem to_f64_double_rounding:
  "to_f64 near_midpoint = 2 ^ 51 + 2"
  "\<bar>f80_val near_midpoint - real (2 ^ 51 + 1) * 2 powi (- 1074)\<bar> < \<bar>f80_val near_midpoint - real (2 ^ 51 + 2) * 2 powi (- 1074)\<bar>"
proof -
  have f: "normal53 (2 ^ 52 + 3)" by (simp add: normal53_def)
  have b: "bitlen 0x80000000000017FF = 64" by (rule bitlen_normal) (simp add: normal_mant_def)
  have p: "f64_pack (f_mant near_midpoint) 0 = f64_pack (2 ^ 52 + 3) 11"
    using bitlen53 [OF f] by (simp add: f64_pack_def near_midpoint_def b div_even_def)
  have "f64_pack (2 ^ 52 + 3) (- 1075) = 2 ^ 51 + 2" using bitlen53 [OF f] by (simp add: f64_pack_def div_even_def)
  then show "to_f64 near_midpoint = 2 ^ 51 + 2" using to_f64_normal [OF f _ p] by (simp add: near_midpoint_def)
  have s: "(2 :: real) powi (- 1074) = 2 ^ 12 * 2 powi (- 1086)"
    using power_int_add [of "2::real" 12 "- 1086"] by simp
  define g :: real where "g = 2 powi (- 1086)"
  have g: "0 < g" by (simp add: g_def)
  have v: "f80_val near_midpoint = 0x80000000000017FF * g" by (simp add: f80_val_def near_midpoint_def fv_def g_def)
  show "\<bar>f80_val near_midpoint - real (2 ^ 51 + 1) * 2 powi (- 1074)\<bar> < \<bar>f80_val near_midpoint - real (2 ^ 51 + 2) * 2 powi (- 1074)\<bar>"
    unfolding s v g_def [symmetric] using g by (simp add: abs_if)
qed

end
