(* ===== verification/CpuState.thy ===== *)
theory CpuState
  imports Prelude F80
begin

text \<open>
  The CPU's state (\<^verbatim>\<open>struct Cpu\<close> of \<^verbatim>\<open>crates/cpu/src/lib.rs\<close>), its construction and reset, the register
  file and the flag bits.  The fields a run cannot observe are left out: the debug trace ring and its
  cached environment switches (\<^verbatim>\<open>pf_trace\<close>, \<^verbatim>\<open>pf_trace_on\<close>, \<^verbatim>\<open>trace_call_target\<close>, \<^verbatim>\<open>watch_on\<close>), which only
  print, and \<^verbatim>\<open>bios_hook\<close>, a host function pointer.  The \<^verbatim>\<open>Cell\<close> fields that \<^verbatim>\<open>&self\<close> methods update (the
  pending fault and the three translation caches) are ordinary fields, so those methods return the
  updated CPU.
\<close>

section \<open>Data\<close>

type_synonym u128 = "128 word"

datatype cpu_error =
  Unimplemented (err_opcode: u8) (err_cs: u16) (err_ip: u32)
| UnimplementedModRm (err_opcode: u8) (err_mode: u8) (err_cs: u16) (err_ip: u32)

definition CF :: u16 where "CF = push_bit 0 1"
definition PF :: u16 where "PF = push_bit 2 1"
definition AF :: u16 where "AF = push_bit 4 1"
definition ZF :: u16 where "ZF = push_bit 6 1"
definition SF :: u16 where "SF = push_bit 7 1"
definition IF :: u16 where "IF = push_bit 9 1"
definition DF :: u16 where "DF = push_bit 10 1"
definition OF :: u16 where "OF = push_bit 11 1"

definition AX :: nat where "AX = 0"
definition CX :: nat where "CX = 1"
definition DX :: nat where "DX = 2"
definition BX :: nat where "BX = 3"
definition SP :: nat where "SP = 4"
definition BP :: nat where "BP = 5"
definition SI :: nat where "SI = 6"
definition DI :: nat where "DI = 7"

definition ES :: nat where "ES = 0"
definition CS :: nat where "CS = 1"
definition SS :: nat where "SS = 2"
definition DS :: nat where "DS = 3"
definition FS :: nat where "FS = 4"
definition GS :: nat where "GS = 5"

definition RW_TLB_WAYS :: nat where "RW_TLB_WAYS = 16"

definition rw_tlb_index :: "u32 \<Rightarrow> nat" where
  "rw_tlb_index page = unat (drop_bit 12 page AND (of_nat RW_TLB_WAYS - 1))"

record page_fault =
  pf_addr :: u32
  pf_error_code :: u32

record descriptor_table =
  dt_limit :: u16
  dt_base :: u32

record segment_cache =
  sc_base :: u32
  sc_limit :: u32
  sc_access :: u8

record eff_addr =
  ea_seg :: nat
  ea_off :: u32

datatype rm = Reg u8 | Mem eff_addr

datatype access_kind = Read | Write | Fetch

type_synonym tlb_entry = "(u32 \<times> u32 \<times> bool) option"

record cpu =
  regs :: "u16 list"
  regs_high :: "u16 list"
  sregs :: "u16 list"
  ip :: u32
  flags :: u16
  flags_high :: u16
  halted :: bool
  seg_override :: "nat option"
  op_size_32 :: bool
  addr_size_32 :: bool
  stack_size_32 :: bool
  code_size_32 :: bool
  cr0 :: u32
  gdtr :: descriptor_table
  idtr :: descriptor_table
  cr3 :: u32
  cr2 :: u32
  cr4 :: u32
  dr :: "u32 list"
  tsc :: u64
  ldtr :: u16
  tr :: u16
  fpu_sw :: u16
  fpu_cw :: u16
  fpu_st :: "f80 list"
  fpu_top :: u8
  xmm :: "u128 list"
  mmx :: "u64 list"
  sysenter_cs :: u32
  sysenter_esp :: u32
  sysenter_eip :: u32
  misc_enable :: u64
  tsc_aux :: u32
  efer :: u64
  pending_fault :: "page_fault option"
  fetch_tlb :: tlb_entry
  read_tlb :: "tlb_entry list"
  write_tlb :: "tlb_entry list"
  last_op_ip :: u32
  a20 :: bool
  seg_cache :: "segment_cache list"

definition dt_default :: descriptor_table where "dt_default = \<lparr>dt_limit = 0, dt_base = 0\<rparr>"

definition cpu_new :: cpu where
  "cpu_new =
     \<lparr>regs = replicate 8 0, regs_high = replicate 8 0, sregs = replicate 6 0, ip = 0, flags = 0, flags_high = 0,
      halted = False, seg_override = None, op_size_32 = False, addr_size_32 = False, stack_size_32 = False,
      code_size_32 = False, cr0 = 0, gdtr = dt_default, idtr = dt_default, cr3 = 0, cr2 = 0, cr4 = 0,
      dr = replicate 8 0, tsc = 0, ldtr = 0, tr = 0, fpu_sw = 0, fpu_cw = 0x037F, fpu_st = replicate 8 F80_ZERO,
      fpu_top = 0, xmm = replicate 8 0, mmx = replicate 8 0, sysenter_cs = 0, sysenter_esp = 0, sysenter_eip = 0,
      misc_enable = 0, tsc_aux = 0, efer = 0, pending_fault = None, fetch_tlb = None,
      read_tlb = replicate RW_TLB_WAYS None, write_tlb = replicate RW_TLB_WAYS None, last_op_ip = 0, a20 = True,
      seg_cache = replicate 6 \<lparr>sc_base = 0, sc_limit = 0, sc_access = 0\<rparr>\<rparr>"

definition reset_to_boot :: "cpu \<Rightarrow> cpu" where
  "reset_to_boot c =
     c\<lparr>regs := (replicate 8 0)[SP := 0x7C00], regs_high := replicate 8 0, sregs := replicate 6 0, ip := 0x7C00,
       flags := 0, halted := False, seg_override := None, cr0 := 0, gdtr := dt_default, idtr := dt_default,
       cr3 := 0, cr2 := 0, cr4 := 0, dr := replicate 8 0, tsc := 0, ldtr := 0, tr := 0, fpu_sw := 0,
       fpu_cw := 0x037F, fpu_st := replicate 8 F80_ZERO, fpu_top := 0, xmm := replicate 8 0, sysenter_cs := 0,
       sysenter_esp := 0, sysenter_eip := 0, misc_enable := 0, tsc_aux := 0, efer := 0, pending_fault := None,
       fetch_tlb := None, read_tlb := replicate RW_TLB_WAYS None, write_tlb := replicate RW_TLB_WAYS None,
       last_op_ip := 0, a20 := True, code_size_32 := False, stack_size_32 := False,
       seg_cache := replicate 6 \<lparr>sc_base = 0, sc_limit = 0xFFFF, sc_access = 0x93\<rparr>\<rparr>"

text \<open>The fixed array sizes of the Rust struct, and selectors of segments that exist.\<close>

definition cpu_wf :: "cpu \<Rightarrow> bool" where
  "cpu_wf c \<longleftrightarrow> length (regs c) = 8 \<and> length (regs_high c) = 8 \<and> length (sregs c) = 6 \<and> length (dr c) = 8 \<and>
     length (fpu_st c) = 8 \<and> length (xmm c) = 8 \<and> length (mmx c) = 8 \<and> length (read_tlb c) = RW_TLB_WAYS \<and>
     length (write_tlb c) = RW_TLB_WAYS \<and> length (seg_cache c) = 6"

section \<open>Registers\<close>

definition read_r8 :: "cpu \<Rightarrow> u8 \<Rightarrow> u8" where
  "read_r8 c i =
     (let idx = unat (i AND 3); w = regs c ! idx
      in if 4 \<le> i then ucast (drop_bit 8 w) else ucast w)"

definition write_r8 :: "cpu \<Rightarrow> u8 \<Rightarrow> u8 \<Rightarrow> cpu" where
  "write_r8 c i v =
     (let idx = unat (i AND 3); w = regs c ! idx
      in c\<lparr>regs := (regs c)[idx := if 4 \<le> i then (w AND 0x00FF) OR push_bit 8 (ucast v) else (w AND 0xFF00) OR ucast v]\<rparr>)"

definition read_r16 :: "cpu \<Rightarrow> u8 \<Rightarrow> u16" where "read_r16 c i = regs c ! unat (i AND 7)"

definition write_r16 :: "cpu \<Rightarrow> u8 \<Rightarrow> u16 \<Rightarrow> cpu" where
  "write_r16 c i v = c\<lparr>regs := (regs c)[unat (i AND 7) := v]\<rparr>"

definition read_r32 :: "cpu \<Rightarrow> u8 \<Rightarrow> u32" where
  "read_r32 c i = (let idx = unat (i AND 7) in push_bit 16 (ucast (regs_high c ! idx)) OR ucast (regs c ! idx))"

definition write_r32 :: "cpu \<Rightarrow> u8 \<Rightarrow> u32 \<Rightarrow> cpu" where
  "write_r32 c i v =
     (let idx = unat (i AND 7)
      in c\<lparr>regs := (regs c)[idx := ucast v], regs_high := (regs_high c)[idx := ucast (drop_bit 16 v)]\<rparr>)"

section \<open>Flag bits\<close>

definition set_flag :: "cpu \<Rightarrow> u16 \<Rightarrow> bool \<Rightarrow> cpu" where
  "set_flag c m v = (if v then c\<lparr>flags := flags c OR m\<rparr> else c\<lparr>flags := flags c AND NOT m\<rparr>)"

definition has :: "cpu \<Rightarrow> u16 \<Rightarrow> bool" where "has c m \<longleftrightarrow> flags c AND m \<noteq> 0"

definition has_66 :: "cpu \<Rightarrow> bool" where "has_66 c \<longleftrightarrow> op_size_32 c \<noteq> code_size_32 c"

section \<open>Laws of the register file\<close>

lemmas flag_defs = CF_def PF_def AF_def ZF_def SF_def IF_def DF_def OF_def

lemma has_bit: "k < 16 \<Longrightarrow> has c (push_bit k 1) \<longleftrightarrow> bit (flags c) k"
  using and_exp_eq_0_iff_not_bit [of "flags c" k] by (simp add: has_def push_bit_eq_mult)

lemmas has_flags = has_bit [of 0, folded CF_def, simplified] has_bit [of 2, folded PF_def, simplified]
  has_bit [of 4, folded AF_def, simplified] has_bit [of 6, folded ZF_def, simplified]
  has_bit [of 7, folded SF_def, simplified] has_bit [of 9, folded IF_def, simplified]
  has_bit [of 10, folded DF_def, simplified] has_bit [of 11, folded OF_def, simplified]

lemma bit_set_flag:
  assumes "k < 16"
  shows "bit (flags (set_flag c (push_bit k 1) v)) j = (if j = k then v else bit (flags c) j)"
proof (cases "j < 16")
  case True
  then show ?thesis using assms by (auto simp: set_flag_def bit_simps)
next
  case False
  then show ?thesis using assms bit_imp_le_length [of "flags c" j] bit_imp_le_length [of "flags (set_flag c (push_bit k 1) v)" j]
    by auto
qed

lemmas bit_set_flags = bit_set_flag [of 0, folded CF_def, simplified] bit_set_flag [of 2, folded PF_def, simplified]
  bit_set_flag [of 4, folded AF_def, simplified] bit_set_flag [of 6, folded ZF_def, simplified]
  bit_set_flag [of 7, folded SF_def, simplified] bit_set_flag [of 9, folded IF_def, simplified]
  bit_set_flag [of 10, folded DF_def, simplified] bit_set_flag [of 11, folded OF_def, simplified]

lemma set_flag_only: "set_flag c m v = c\<lparr>flags := flags (set_flag c m v)\<rparr>"
  by (simp add: set_flag_def)

text \<open>The CPU differs at most in its flags.\<close>

definition flags_only :: "cpu \<Rightarrow> cpu \<Rightarrow> bool" where "flags_only c c' \<longleftrightarrow> c' = c\<lparr>flags := flags c'\<rparr>"

lemma flags_only_refl [simp]: "flags_only c c"
  by (simp add: flags_only_def)

lemma flags_only_set [simp]: "flags_only c (set_flag c' m v) \<longleftrightarrow> flags_only c c'"
proof -
  have "set_flag c' m v = c\<lparr>flags := flags (set_flag c' m v)\<rparr> \<longleftrightarrow> c' = c\<lparr>flags := flags c'\<rparr>"
    by (cases c; cases c') (auto simp: set_flag_def)
  then show ?thesis by (simp only: flags_only_def)
qed

lemma idx7: "unat (i AND 7 :: u8) < 8"
proof -
  have "i AND 7 \<le> 7" by (rule word_and_le1)
  then show ?thesis by (simp add: word_le_nat_alt)
qed

lemma and7_idx: "i < 8 \<Longrightarrow> unat (i AND 7 :: u8) = unat i"
proof -
  assume "i < 8"
  then have "unat i < 8" by (simp add: word_less_nat_alt)
  moreover have "i AND 7 = take_bit 3 i" by (simp add: take_bit_eq_mask mask_eq_exp_minus_1)
  ultimately show ?thesis by (simp add: unsigned_take_bit_eq take_bit_nat_eq_self)
qed

lemma and3_idx: "unat (i AND 3 :: u8) = unat i mod 4"
proof -
  have e: "i AND 3 = take_bit 2 i" by (simp add: take_bit_eq_mask mask_eq_exp_minus_1)
  show ?thesis unfolding e unsigned_take_bit_eq by (simp add: take_bit_eq_mod)
qed

lemma r8_split:
  fixes i j :: u8
  assumes "i < 8" "j < 8"
  shows "i = j \<longleftrightarrow> i AND 3 = j AND 3 \<and> (4 \<le> i \<longleftrightarrow> 4 \<le> j)"
proof -
  have "unat i < 8" "unat j < 8" using assms by (auto simp: word_less_nat_alt)
  then have d: "unat i div 4 = (if 4 \<le> unat i then 1 else 0)" "unat j div 4 = (if 4 \<le> unat j then 1 else 0)" by auto
  have "unat i = unat j" if "unat i mod 4 = unat j mod 4" "4 \<le> unat i \<longleftrightarrow> 4 \<le> unat j"
    using div_mult_mod_eq [of "unat i" 4] div_mult_mod_eq [of "unat j" 4] d that by simp
  then show ?thesis
    by (auto simp: word_unat_eq_iff word_le_nat_alt and3_idx)
qed

lemma low_reg:
  fixes i :: u8
  assumes "i < 4"
  shows "unat (i AND 3) = unat i" "unat (i + 4 AND 3) = unat i" "4 \<le> i + 4" "\<not> 4 \<le> i"
proof -
  have u: "unat i < 4" using assms by (simp add: word_less_nat_alt)
  then have "unat (i + 4) = unat i + 4" by (simp add: unat_word_ariths)
  then show "unat (i AND 3) = unat i" "unat (i + 4 AND 3) = unat i" "4 \<le> i + 4" "\<not> 4 \<le> i"
    using u unfolding and3_idx by (auto simp: word_le_nat_alt)
qed

lemma join_halves: "push_bit 16 (ucast (ucast (drop_bit 16 v) :: u16)) OR ucast (ucast v :: u16) = (v :: u32)"
  by (rule bit_word_eqI) (auto simp: bit_simps)

lemma keep_high_half:
  "push_bit 16 (ucast h) OR ucast w =
    (((push_bit 16 (ucast (h :: u16)) OR ucast (l :: u16)) AND 0xFFFF0000) OR ucast (w :: u16) :: u32)"
proof -
  have m: "(0xFFFF0000 :: u32) = push_bit 16 (mask 16)" by (simp add: mask_eq_exp_minus_1 push_bit_eq_mult)
  show ?thesis unfolding m by (rule bit_word_eqI) (auto simp: bit_simps dest: bit_imp_le_length)
qed

lemma byte_lanes:
  "ucast (drop_bit 8 ((w AND 0x00FF) OR push_bit 8 (ucast v))) = (v :: u8)"
  "ucast ((w AND 0x00FF) OR push_bit 8 (ucast v)) = (ucast w :: u8)"
  "ucast ((w AND 0xFF00) OR ucast v) = (v :: u8)"
  "ucast (drop_bit 8 ((w AND 0xFF00) OR ucast v)) = (ucast (drop_bit 8 (w :: u16)) :: u8)"
proof -
  have m: "(0x00FF :: u16) = mask 8" "(0xFF00 :: u16) = push_bit 8 (mask 8)" by (simp_all add: mask_eq_exp_minus_1 push_bit_eq_mult)
  have b: "\<not> bit v (8 + n)" for n using bit_imp_le_length [of v "8 + n"] by auto
  show "ucast (drop_bit 8 ((w AND 0x00FF) OR push_bit 8 (ucast v))) = (v :: u8)"
    "ucast ((w AND 0x00FF) OR push_bit 8 (ucast v)) = (ucast w :: u8)"
    "ucast ((w AND 0xFF00) OR ucast v) = (v :: u8)"
    "ucast (drop_bit 8 ((w AND 0xFF00) OR ucast v)) = (ucast (drop_bit 8 (w :: u16)) :: u8)"
    unfolding m by (auto intro!: bit_word_eqI simp: bit_simps b dest: bit_imp_le_length)
qed

lemma cpu_wf_new: "cpu_wf cpu_new" "cpu_wf (reset_to_boot cpu_new)"
  by (simp_all add: cpu_wf_def cpu_new_def reset_to_boot_def)

text \<open>
  The register file aliases as on the hardware.  A 32-bit write reads back and its halves are what
  the 16-bit and 8-bit names show; a 16-bit write changes the low half only; a write to a low byte
  (AL..BL) or to a high byte (AH..BH) changes exactly that byte; and a write to one register leaves
  every other one.
\<close>

theorem register_aliasing:
  assumes "cpu_wf c" and "i < 8" and "j < 8"
  shows "read_r32 (write_r32 c i v) j = (if j = i then v else read_r32 c j) \<and>
    read_r16 (write_r32 c i v) i = ucast v \<and>
    read_r32 (write_r16 c i w) j = (if j = i then (read_r32 c i AND 0xFFFF0000) OR ucast w else read_r32 c j) \<and>
    (i < 4 \<longrightarrow> read_r8 (write_r32 c i v) i = ucast v \<and> read_r8 (write_r32 c i v) (i + 4) = ucast (drop_bit 8 v)) \<and>
    read_r8 (write_r8 c i b) j = (if j = i then b else read_r8 c j)"
proof -
  have len: "length (regs c) = 8" "length (regs_high c) = 8" using assms(1) by (auto simp: cpu_wf_def)
  have i: "unat i < 8" "unat j < 8" "unat i = unat j \<longleftrightarrow> i = j" using assms(2,3) by (auto simp: word_less_nat_alt word_unat_eq_iff)
  note idx = and7_idx [OF assms(2)] and7_idx [OF assms(3)]
  have r32: "read_r32 (write_r32 c i v) j = (if j = i then v else read_r32 c j)"
    using i len join_halves [of v] by (auto simp: read_r32_def write_r32_def Let_def idx)
  have r16: "read_r16 (write_r32 c i v) i = ucast v"
    using i len by (simp add: read_r16_def write_r32_def Let_def idx)
  have w16: "read_r32 (write_r16 c i w) j = (if j = i then (read_r32 c i AND 0xFFFF0000) OR ucast w else read_r32 c j)"
    using i len keep_high_half by (auto simp: read_r32_def write_r16_def Let_def idx)
  have w8: "read_r8 (write_r8 c i b) j = (if j = i then b else read_r8 c j)"
  proof (cases "i AND 3 = j AND 3")
    case True
    have e: "j = i \<longleftrightarrow> (4 \<le> i \<longleftrightarrow> 4 \<le> j)" using r8_split [OF assms(2,3)] True by blast
    have "unat (j AND 3) < 8" using and3_idx [of j] by simp
    then show ?thesis
      unfolding e read_r8_def write_r8_def Let_def True using len
      by (cases "4 \<le> i"; cases "4 \<le> j") (simp_all add: byte_lanes del: drop_bit_or drop_bit_and)
  next
    case False
    then have "unat (i AND 3) \<noteq> unat (j AND 3)" "i \<noteq> j" by (simp add: word_unat_eq_iff, blast)
    then show ?thesis by (auto simp: read_r8_def write_r8_def Let_def)
  qed
  have r8: "read_r8 (write_r32 c i v) i = ucast v \<and> read_r8 (write_r32 c i v) (i + 4) = ucast (drop_bit 8 v)" if "i < 4"
  proof -
    have x: "unat (i AND 3) = unat i" "unat (i + 4 AND 3) = unat i" "4 \<le> i + 4" "\<not> 4 \<le> i" using low_reg [OF that] by auto
    have "(ucast (drop_bit 8 (ucast v :: u16)) :: u8) = ucast (drop_bit 8 v)" "(ucast (ucast v :: u16) :: u8) = ucast v"
      by (auto intro!: bit_word_eqI simp: bit_simps)
    then show ?thesis using i len x by (simp add: read_r8_def write_r32_def Let_def idx)
  qed
  show ?thesis using r32 r16 w16 r8 w8 by blast
qed

theorem register_aliasing_witness:
  "cpu_wf cpu_new \<and> read_r32 (write_r32 cpu_new 3 0xDEADBEEF) 3 = 0xDEADBEEF \<and>
   read_r8 (write_r32 cpu_new 3 0xDEADBEEF) (3 + 4) = ucast (drop_bit 8 (0xDEADBEEF :: u32))"
  using register_aliasing [OF cpu_wf_new(1), of 3 3 "0xDEADBEEF" 0 0] cpu_wf_new(1) by simp

end
