(* ===== verification/CpuAlu.thy ===== *)
theory CpuAlu
  imports CpuState
begin

text \<open>
  The integer ALU of the CPU: flag computation, the eight two-operand operations at 8, 16 and 32
  bits, shifts and rotates, and the condition codes of Jcc/SETcc/CMOVcc
  (\<^verbatim>\<open>flags_*\<close>, \<^verbatim>\<open>alu_apply*\<close>, \<^verbatim>\<open>shift_apply*\<close>, \<^verbatim>\<open>eval_cond\<close> of \<^verbatim>\<open>crates/cpu/src/lib.rs\<close>).  The sums and
  differences the code forms in the next wider type to see the carry cannot overflow there and are
  \<open>int\<close>s here.  The code repeats each routine at three widths; the contracts are stated once in the
  locale \<open>alu_width\<close> and interpreted at each width.
\<close>

section \<open>Flags of a result\<close>

definition count_ones :: "'a::len word \<Rightarrow> nat" where
  "count_ones w = length (filter (bit w) [0..<LENGTH('a)])"

definition flags_logic8 :: "cpu \<Rightarrow> u8 \<Rightarrow> cpu" where
  "flags_logic8 c r =
     (let c1 = set_flag c ZF (r = 0);
          c2 = set_flag c1 SF (r AND 0x80 \<noteq> 0);
          c3 = set_flag c2 PF (even (count_ones r));
          c4 = set_flag c3 CF (False)
      in set_flag c4 OF (False))"

definition flags_logic16 :: "cpu \<Rightarrow> u16 \<Rightarrow> cpu" where
  "flags_logic16 c r =
     (let c1 = set_flag c ZF (r = 0);
          c2 = set_flag c1 SF (r AND 0x8000 \<noteq> 0);
          c3 = set_flag c2 PF (even (count_ones (ucast r :: u8)));
          c4 = set_flag c3 CF (False)
      in set_flag c4 OF (False))"

definition flags_logic32 :: "cpu \<Rightarrow> u32 \<Rightarrow> cpu" where
  "flags_logic32 c r =
     (let c1 = set_flag c ZF (r = 0);
          c2 = set_flag c1 SF (r AND 0x80000000 \<noteq> 0);
          c3 = set_flag c2 PF (even (count_ones (ucast r :: u8)));
          c4 = set_flag c3 CF (False)
      in set_flag c4 OF (False))"

definition flags_add8 :: "cpu \<Rightarrow> u8 \<Rightarrow> u8 \<Rightarrow> u8 \<Rightarrow> u8 \<Rightarrow> cpu" where
  "flags_add8 c a b cin r =
     (let c1 = set_flag c CF (0xFF < uint a + uint b + uint cin);
          c2 = set_flag c1 ZF (r = 0);
          c3 = set_flag c2 SF (r AND 0x80 \<noteq> 0);
          c4 = set_flag c3 PF (even (count_ones r));
          c5 = set_flag c4 OF ((a XOR r) AND (b XOR r) AND 0x80 \<noteq> 0)
      in set_flag c5 AF ((a XOR b XOR r) AND 0x10 \<noteq> 0))"

definition flags_add16 :: "cpu \<Rightarrow> u16 \<Rightarrow> u16 \<Rightarrow> u16 \<Rightarrow> u16 \<Rightarrow> cpu" where
  "flags_add16 c a b cin r =
     (let c1 = set_flag c CF (0xFFFF < uint a + uint b + uint cin);
          c2 = set_flag c1 ZF (r = 0);
          c3 = set_flag c2 SF (r AND 0x8000 \<noteq> 0);
          c4 = set_flag c3 PF (even (count_ones (ucast r :: u8)));
          c5 = set_flag c4 OF ((a XOR r) AND (b XOR r) AND 0x8000 \<noteq> 0)
      in set_flag c5 AF ((a XOR b XOR r) AND 0x10 \<noteq> 0))"

definition flags_add32 :: "cpu \<Rightarrow> u32 \<Rightarrow> u32 \<Rightarrow> u32 \<Rightarrow> u32 \<Rightarrow> cpu" where
  "flags_add32 c a b cin r =
     (let c1 = set_flag c CF (0xFFFFFFFF < uint a + uint b + uint cin);
          c2 = set_flag c1 ZF (r = 0);
          c3 = set_flag c2 SF (r AND 0x80000000 \<noteq> 0);
          c4 = set_flag c3 PF (even (count_ones (ucast r :: u8)));
          c5 = set_flag c4 OF ((a XOR r) AND (b XOR r) AND 0x80000000 \<noteq> 0)
      in set_flag c5 AF ((a XOR b XOR r) AND 0x10 \<noteq> 0))"

definition flags_sub8 :: "cpu \<Rightarrow> u8 \<Rightarrow> u8 \<Rightarrow> u8 \<Rightarrow> u8 \<Rightarrow> cpu" where
  "flags_sub8 c a b bin r =
     (let c1 = set_flag c CF (uint a - uint b - uint bin < 0);
          c2 = set_flag c1 ZF (r = 0);
          c3 = set_flag c2 SF (r AND 0x80 \<noteq> 0);
          c4 = set_flag c3 PF (even (count_ones r));
          c5 = set_flag c4 OF ((a XOR b) AND (a XOR r) AND 0x80 \<noteq> 0)
      in set_flag c5 AF ((a XOR b XOR r) AND 0x10 \<noteq> 0))"

definition flags_sub16 :: "cpu \<Rightarrow> u16 \<Rightarrow> u16 \<Rightarrow> u16 \<Rightarrow> u16 \<Rightarrow> cpu" where
  "flags_sub16 c a b bin r =
     (let c1 = set_flag c CF (uint a - uint b - uint bin < 0);
          c2 = set_flag c1 ZF (r = 0);
          c3 = set_flag c2 SF (r AND 0x8000 \<noteq> 0);
          c4 = set_flag c3 PF (even (count_ones (ucast r :: u8)));
          c5 = set_flag c4 OF ((a XOR b) AND (a XOR r) AND 0x8000 \<noteq> 0)
      in set_flag c5 AF ((a XOR b XOR r) AND 0x10 \<noteq> 0))"

definition flags_sub32 :: "cpu \<Rightarrow> u32 \<Rightarrow> u32 \<Rightarrow> u32 \<Rightarrow> u32 \<Rightarrow> cpu" where
  "flags_sub32 c a b bin r =
     (let c1 = set_flag c CF (uint a - uint b - uint bin < 0);
          c2 = set_flag c1 ZF (r = 0);
          c3 = set_flag c2 SF (r AND 0x80000000 \<noteq> 0);
          c4 = set_flag c3 PF (even (count_ones (ucast r :: u8)));
          c5 = set_flag c4 OF ((a XOR b) AND (a XOR r) AND 0x80000000 \<noteq> 0)
      in set_flag c5 AF ((a XOR b XOR r) AND 0x10 \<noteq> 0))"

definition flags_zsp8 :: "cpu \<Rightarrow> u8 \<Rightarrow> cpu" where
  "flags_zsp8 c r =
     (let c1 = set_flag c ZF (r = 0);
          c2 = set_flag c1 SF (r AND 0x80 \<noteq> 0)
      in set_flag c2 PF (even (count_ones r)))"

definition flags_zsp16 :: "cpu \<Rightarrow> u16 \<Rightarrow> cpu" where
  "flags_zsp16 c r =
     (let c1 = set_flag c ZF (r = 0);
          c2 = set_flag c1 SF (r AND 0x8000 \<noteq> 0)
      in set_flag c2 PF (even (count_ones (ucast r :: u8))))"

definition flags_zsp32 :: "cpu \<Rightarrow> u32 \<Rightarrow> cpu" where
  "flags_zsp32 c r =
     (let c1 = set_flag c ZF (r = 0);
          c2 = set_flag c1 SF (r AND 0x80000000 \<noteq> 0)
      in set_flag c2 PF (even (count_ones (ucast r :: u8))))"

section \<open>The eight operations\<close>

text \<open>
  \<open>op\<close> is the 3-bit operation field (0 ADD, 1 OR, 2 ADC, 3 SBB, 4 AND, 5 SUB, 6 XOR, 7 CMP); the
  boolean says whether the result is written back.  The code's \<^verbatim>\<open>unreachable!\<close> for \<open>op > 7\<close> is the last
  case here.
\<close>

definition alu_apply8 :: "cpu \<Rightarrow> u8 \<Rightarrow> u8 \<Rightarrow> u8 \<Rightarrow> (u8 \<times> bool) \<times> cpu" where
  "alu_apply8 c op a b =
     (let cin = (if (op = 2 \<or> op = 3) \<and> has c CF then 1 else 0) in
      if op = 0 then let r = a + b in ((r, True), flags_add8 c a b 0 r)
      else if op = 1 then let r = a OR b in ((r, True), flags_logic8 c r)
      else if op = 2 then let r = a + b + cin in ((r, True), flags_add8 c a b cin r)
      else if op = 3 then let r = a - b - cin in ((r, True), flags_sub8 c a b cin r)
      else if op = 4 then let r = a AND b in ((r, True), flags_logic8 c r)
      else if op = 5 then let r = a - b in ((r, True), flags_sub8 c a b 0 r)
      else if op = 6 then let r = a XOR b in ((r, True), flags_logic8 c r)
      else let r = a - b in ((r, False), flags_sub8 c a b 0 r))"

definition alu_apply16 :: "cpu \<Rightarrow> u8 \<Rightarrow> u16 \<Rightarrow> u16 \<Rightarrow> (u16 \<times> bool) \<times> cpu" where
  "alu_apply16 c op a b =
     (let cin = (if (op = 2 \<or> op = 3) \<and> has c CF then 1 else 0) in
      if op = 0 then let r = a + b in ((r, True), flags_add16 c a b 0 r)
      else if op = 1 then let r = a OR b in ((r, True), flags_logic16 c r)
      else if op = 2 then let r = a + b + cin in ((r, True), flags_add16 c a b cin r)
      else if op = 3 then let r = a - b - cin in ((r, True), flags_sub16 c a b cin r)
      else if op = 4 then let r = a AND b in ((r, True), flags_logic16 c r)
      else if op = 5 then let r = a - b in ((r, True), flags_sub16 c a b 0 r)
      else if op = 6 then let r = a XOR b in ((r, True), flags_logic16 c r)
      else let r = a - b in ((r, False), flags_sub16 c a b 0 r))"

definition alu_apply32 :: "cpu \<Rightarrow> u8 \<Rightarrow> u32 \<Rightarrow> u32 \<Rightarrow> (u32 \<times> bool) \<times> cpu" where
  "alu_apply32 c op a b =
     (let cin = (if (op = 2 \<or> op = 3) \<and> has c CF then 1 else 0) in
      if op = 0 then let r = a + b in ((r, True), flags_add32 c a b 0 r)
      else if op = 1 then let r = a OR b in ((r, True), flags_logic32 c r)
      else if op = 2 then let r = a + b + cin in ((r, True), flags_add32 c a b cin r)
      else if op = 3 then let r = a - b - cin in ((r, True), flags_sub32 c a b cin r)
      else if op = 4 then let r = a AND b in ((r, True), flags_logic32 c r)
      else if op = 5 then let r = a - b in ((r, True), flags_sub32 c a b 0 r)
      else if op = 6 then let r = a XOR b in ((r, True), flags_logic32 c r)
      else let r = a - b in ((r, False), flags_sub32 c a b 0 r))"

section \<open>Shifts and rotates\<close>

text \<open>The bit-by-bit loops of RCL and RCR, over the operand and the carry.\<close>

fun rcl_loop8 :: "nat \<Rightarrow> u8 \<Rightarrow> bool \<Rightarrow> u8 \<times> bool" where
  "rcl_loop8 0 v cf = (v, cf)"
| "rcl_loop8 (Suc k) v cf = rcl_loop8 k (push_bit 1 v OR (if cf then 1 else 0)) (v AND 0x80 \<noteq> 0)"

fun rcr_loop8 :: "nat \<Rightarrow> u8 \<Rightarrow> bool \<Rightarrow> u8 \<times> bool" where
  "rcr_loop8 0 v cf = (v, cf)"
| "rcr_loop8 (Suc k) v cf = rcr_loop8 k (drop_bit 1 v OR push_bit 7 (if cf then 1 else 0)) (v AND 1 \<noteq> 0)"

fun rcl_loop16 :: "nat \<Rightarrow> u16 \<Rightarrow> bool \<Rightarrow> u16 \<times> bool" where
  "rcl_loop16 0 v cf = (v, cf)"
| "rcl_loop16 (Suc k) v cf = rcl_loop16 k (push_bit 1 v OR (if cf then 1 else 0)) (v AND 0x8000 \<noteq> 0)"

fun rcr_loop16 :: "nat \<Rightarrow> u16 \<Rightarrow> bool \<Rightarrow> u16 \<times> bool" where
  "rcr_loop16 0 v cf = (v, cf)"
| "rcr_loop16 (Suc k) v cf = rcr_loop16 k (drop_bit 1 v OR push_bit 15 (if cf then 1 else 0)) (v AND 1 \<noteq> 0)"

fun rcl_loop32 :: "nat \<Rightarrow> u32 \<Rightarrow> bool \<Rightarrow> u32 \<times> bool" where
  "rcl_loop32 0 v cf = (v, cf)"
| "rcl_loop32 (Suc k) v cf = rcl_loop32 k (push_bit 1 v OR (if cf then 1 else 0)) (v AND 0x80000000 \<noteq> 0)"

fun rcr_loop32 :: "nat \<Rightarrow> u32 \<Rightarrow> bool \<Rightarrow> u32 \<times> bool" where
  "rcr_loop32 0 v cf = (v, cf)"
| "rcr_loop32 (Suc k) v cf = rcr_loop32 k (drop_bit 1 v OR push_bit 31 (if cf then 1 else 0)) (v AND 1 \<noteq> 0)"

definition shift_apply8 :: "cpu \<Rightarrow> u8 \<Rightarrow> u8 \<Rightarrow> u8 \<Rightarrow> (cpu_error + u8) \<times> cpu" where
  "shift_apply8 c sub v count_raw =
     (let count = count_raw AND 0x1F; n = unat count in
      if count = 0 then (Inr v, c)
      else if sub = 0 then
        (let r = word_rotl n v; cf = (r AND 1 \<noteq> 0); c1 = set_flag c CF cf;
             c2 = (if count = 1 then set_flag c1 OF ((r AND 0x80 \<noteq> 0) \<noteq> cf) else c1)
         in (Inr r, c2))
      else if sub = 1 then
        (let r = word_rotr n v; cf = (r AND 0x80 \<noteq> 0); c1 = set_flag c CF cf;
             c2 = (if count = 1 then set_flag c1 OF (cf \<noteq> (r AND 0x40 \<noteq> 0)) else c1)
         in (Inr r, c2))
      else if sub = 4 \<or> sub = 6 then
        (let cf = (if n \<le> 8 then drop_bit (8 - n) (ucast v :: u16) AND 1 \<noteq> 0 else False);
             r = (if 8 \<le> n then 0 else push_bit n v); c1 = set_flag c CF cf;
             c2 = (if count = 1 then set_flag c1 OF ((r AND 0x80 \<noteq> 0) \<noteq> cf) else c1)
         in (Inr r, flags_zsp8 c2 r))
      else if sub = 5 then
        (let cf = (if n \<le> 8 then drop_bit (n - 1) v AND 1 \<noteq> 0 else False);
             r = (if 8 \<le> n then 0 else drop_bit n v); c1 = set_flag c CF cf;
             c2 = (if count = 1 then set_flag c1 OF (v AND 0x80 \<noteq> 0) else c1)
         in (Inr r, flags_zsp8 c2 r))
      else if sub = 7 then
        (let cf = (if n \<le> 8 then drop_bit (n - 1) v AND 1 \<noteq> 0 else v AND 0x80 \<noteq> 0);
             r = (if 8 \<le> n then (if v AND 0x80 \<noteq> 0 then 0xFF else 0) else signed_drop_bit n v);
             c1 = set_flag c CF cf; c2 = (if count = 1 then set_flag c1 OF False else c1)
         in (Inr r, flags_zsp8 c2 r))
      else if sub = 2 then
        (let (w, cf) = rcl_loop8 (n mod 9) v (has c CF); c1 = set_flag c CF cf;
             c2 = (if count = 1 then set_flag c1 OF ((w AND 0x80 \<noteq> 0) \<noteq> cf) else c1)
         in (Inr w, c2))
      else if sub = 3 then
        (let (w, cf) = rcr_loop8 (n mod 9) v (has c CF); c1 = set_flag c CF cf;
             c2 = (if count = 1 then set_flag c1 OF ((w AND 0x80 \<noteq> 0) \<noteq> (w AND 0x40 \<noteq> 0)) else c1)
         in (Inr w, c2))
      else (Inl (Unimplemented 0xD0 0 0), c))"

definition shift_apply16 :: "cpu \<Rightarrow> u8 \<Rightarrow> u16 \<Rightarrow> u8 \<Rightarrow> (cpu_error + u16) \<times> cpu" where
  "shift_apply16 c sub v count_raw =
     (let count = count_raw AND 0x1F; n = unat count in
      if count = 0 then (Inr v, c)
      else if sub = 0 then
        (let r = word_rotl n v; cf = (r AND 1 \<noteq> 0); c1 = set_flag c CF cf;
             c2 = (if count = 1 then set_flag c1 OF ((r AND 0x8000 \<noteq> 0) \<noteq> cf) else c1)
         in (Inr r, c2))
      else if sub = 1 then
        (let r = word_rotr n v; cf = (r AND 0x8000 \<noteq> 0); c1 = set_flag c CF cf;
             c2 = (if count = 1 then set_flag c1 OF (cf \<noteq> (r AND 0x4000 \<noteq> 0)) else c1)
         in (Inr r, c2))
      else if sub = 4 \<or> sub = 6 then
        (let cf = (if n \<le> 16 then drop_bit (16 - n) (ucast v :: u32) AND 1 \<noteq> 0 else False);
             r = (if 16 \<le> n then 0 else push_bit n v); c1 = set_flag c CF cf;
             c2 = (if count = 1 then set_flag c1 OF ((r AND 0x8000 \<noteq> 0) \<noteq> cf) else c1)
         in (Inr r, flags_zsp16 c2 r))
      else if sub = 5 then
        (let cf = (if n \<le> 16 then drop_bit (n - 1) v AND 1 \<noteq> 0 else False);
             r = (if 16 \<le> n then 0 else drop_bit n v); c1 = set_flag c CF cf;
             c2 = (if count = 1 then set_flag c1 OF (v AND 0x8000 \<noteq> 0) else c1)
         in (Inr r, flags_zsp16 c2 r))
      else if sub = 7 then
        (let cf = (if n \<le> 16 then drop_bit (n - 1) v AND 1 \<noteq> 0 else v AND 0x8000 \<noteq> 0);
             r = (if 16 \<le> n then (if v AND 0x8000 \<noteq> 0 then 0xFFFF else 0) else signed_drop_bit n v);
             c1 = set_flag c CF cf; c2 = (if count = 1 then set_flag c1 OF False else c1)
         in (Inr r, flags_zsp16 c2 r))
      else if sub = 2 then
        (let (w, cf) = rcl_loop16 (n mod 17) v (has c CF); c1 = set_flag c CF cf;
             c2 = (if count = 1 then set_flag c1 OF ((w AND 0x8000 \<noteq> 0) \<noteq> cf) else c1)
         in (Inr w, c2))
      else if sub = 3 then
        (let (w, cf) = rcr_loop16 (n mod 17) v (has c CF); c1 = set_flag c CF cf;
             c2 = (if count = 1 then set_flag c1 OF ((w AND 0x8000 \<noteq> 0) \<noteq> (w AND 0x4000 \<noteq> 0)) else c1)
         in (Inr w, c2))
      else (Inl (Unimplemented 0xD1 0 0), c))"

definition shift_apply32 :: "cpu \<Rightarrow> u8 \<Rightarrow> u32 \<Rightarrow> u8 \<Rightarrow> (cpu_error + u32) \<times> cpu" where
  "shift_apply32 c sub v count_raw =
     (let count = count_raw AND 0x1F; n = unat count in
      if count = 0 then (Inr v, c)
      else if sub = 0 then
        (let r = word_rotl n v; cf = (r AND 1 \<noteq> 0); c1 = set_flag c CF cf;
             c2 = (if count = 1 then set_flag c1 OF ((r AND 0x80000000 \<noteq> 0) \<noteq> cf) else c1)
         in (Inr r, c2))
      else if sub = 1 then
        (let r = word_rotr n v; cf = (r AND 0x80000000 \<noteq> 0); c1 = set_flag c CF cf;
             c2 = (if count = 1 then set_flag c1 OF (cf \<noteq> (r AND 0x40000000 \<noteq> 0)) else c1)
         in (Inr r, c2))
      else if sub = 4 \<or> sub = 6 then
        (let cf = (drop_bit (32 - n) (ucast v :: u64) AND 1 \<noteq> 0);
             r = (if 32 \<le> n then 0 else push_bit n v); c1 = set_flag c CF cf;
             c2 = (if count = 1 then set_flag c1 OF ((r AND 0x80000000 \<noteq> 0) \<noteq> cf) else c1)
         in (Inr r, flags_zsp32 c2 r))
      else if sub = 5 then
        (let cf = (drop_bit (n - 1) v AND 1 \<noteq> 0);
             r = (if 32 \<le> n then 0 else drop_bit n v); c1 = set_flag c CF cf;
             c2 = (if count = 1 then set_flag c1 OF (v AND 0x80000000 \<noteq> 0) else c1)
         in (Inr r, flags_zsp32 c2 r))
      else if sub = 7 then
        (let cf = (drop_bit (n - 1) v AND 1 \<noteq> 0);
             r = (if 32 \<le> n then (if v AND 0x80000000 \<noteq> 0 then 0xFFFFFFFF else 0) else signed_drop_bit n v);
             c1 = set_flag c CF cf; c2 = (if count = 1 then set_flag c1 OF False else c1)
         in (Inr r, flags_zsp32 c2 r))
      else if sub = 2 then
        (let (w, cf) = rcl_loop32 (n mod 33) v (has c CF); c1 = set_flag c CF cf;
             c2 = (if count = 1 then set_flag c1 OF ((w AND 0x80000000 \<noteq> 0) \<noteq> cf) else c1)
         in (Inr w, c2))
      else if sub = 3 then
        (let (w, cf) = rcr_loop32 (n mod 33) v (has c CF); c1 = set_flag c CF cf;
             c2 = (if count = 1 then set_flag c1 OF ((w AND 0x80000000 \<noteq> 0) \<noteq> (w AND 0x40000000 \<noteq> 0)) else c1)
         in (Inr w, c2))
      else (Inl (Unimplemented 0xD1 0 0), c))"

section \<open>Condition codes\<close>

definition eval_cond :: "cpu \<Rightarrow> u8 \<Rightarrow> bool" where
  "eval_cond c code =
     (let cf = has c CF; zf = has c ZF; sf = has c SF; ov = has c OF; pf = has c PF in
      if code = 0x0 then ov else if code = 0x1 then \<not> ov
      else if code = 0x2 then cf else if code = 0x3 then \<not> cf
      else if code = 0x4 then zf else if code = 0x5 then \<not> zf
      else if code = 0x6 then cf \<or> zf else if code = 0x7 then \<not> cf \<and> \<not> zf
      else if code = 0x8 then sf else if code = 0x9 then \<not> sf
      else if code = 0xA then pf else if code = 0xB then \<not> pf
      else if code = 0xC then sf \<noteq> ov else if code = 0xD then sf = ov
      else if code = 0xE then zf \<or> sf \<noteq> ov else if code = 0xF then \<not> zf \<and> sf = ov
      else False)"

section \<open>Carries and overflows of machine words\<close>

lemma sint_split:
  fixes x :: "'a::len word"
  shows "sint x < 0 \<and> sint x = uint x - 2 * 2 ^ (LENGTH('a) - 1) \<or> 0 \<le> sint x \<and> sint x = uint x"
    and "- (2 ^ (LENGTH('a) - 1)) \<le> sint x" and "sint x < 2 ^ (LENGTH('a) - 1)"
    and "0 \<le> uint x" and "uint x < 2 * 2 ^ (LENGTH('a) - 1)"
proof -
  obtain n where n: "LENGTH('a) = Suc n" by (metis len_gt_0 gr0_conv_Suc)
  have "sint x = take_bit (Suc n) (uint x) - 2 ^ Suc n * of_bool (bit (uint x) n)"
    unfolding sint_uint n by (simp add: signed_take_bit_eq_take_bit_minus)
  moreover have "bit (uint x) n \<longleftrightarrow> sint x < 0"
    using bit_last_iff [of x] n by (simp add: bit_uint_iff)
  moreover have "take_bit (Suc n) (uint x) = uint x"
    using uint_bounded [of x] n by (intro take_bit_int_eq_self) auto
  ultimately have "sint x = uint x - 2 ^ Suc n * of_bool (sint x < 0)" by (simp only:)
  then show "sint x < 0 \<and> sint x = uint x - 2 * 2 ^ (LENGTH('a) - 1) \<or> 0 \<le> sint x \<and> sint x = uint x"
    by (cases "sint x < 0") (simp_all only: n of_bool_eq, simp_all)
  show "- (2 ^ (LENGTH('a) - 1)) \<le> sint x" "sint x < 2 ^ (LENGTH('a) - 1)"
    using sint_range_size [of x] by (auto simp: word_size)
  show "0 \<le> uint x" "uint x < 2 * 2 ^ (LENGTH('a) - 1)"
    using uint_bounded [of x] n by auto
qed

lemma mod_once:
  fixes s M :: int
  shows "0 \<le> s \<Longrightarrow> s < 2 * M \<Longrightarrow> s mod M = s - (if M \<le> s then M else 0)"
    and "- M \<le> s \<Longrightarrow> s < M \<Longrightarrow> s mod M = s + (if s < 0 then M else 0)"
proof -
  assume a: "0 \<le> s" "s < 2 * M"
  show "s mod M = s - (if M \<le> s then M else 0)"
  proof (cases "M \<le> s")
    case True
    have "s mod M = (s - M) mod M" by simp
    also have "\<dots> = s - M" using a True by (intro mod_pos_pos_trivial) auto
    finally show ?thesis using True by simp
  qed (use a in simp)
next
  assume a: "- M \<le> s" "s < M"
  show "s mod M = s + (if s < 0 then M else 0)"
  proof (cases "s < 0")
    case True
    have "s mod M = (s + M) mod M" by simp
    also have "\<dots> = s + M" using a True by (intro mod_pos_pos_trivial) auto
    finally show ?thesis using True by simp
  qed (use a in simp)
qed

lemma uint_add_carry:
  fixes a b :: "'a::len word"
  defines "M \<equiv> 2 * 2 ^ (LENGTH('a) - 1) :: int"
  shows "uint (a + b + (if k then 1 else 0)) =
    uint a + uint b + of_bool k - (if M \<le> uint a + uint b + of_bool k then M else 0)"
proof -
  have M: "M = 2 ^ LENGTH('a)" unfolding M_def by (metis len_gt_0 power_Suc Suc_pred One_nat_def)
  have "uint (a + b + (if k then 1 else 0)) = (uint a + uint b + of_bool k) mod M"
    by (cases k) (simp_all add: M uint_word_ariths mod_simps)
  moreover have "0 \<le> uint a + uint b + of_bool k" "uint a + uint b + of_bool k < 2 * M"
    using sint_split(4,5) [of a] sint_split(4,5) [of b] unfolding M_def
    by (cases k; simp only: of_bool_eq; linarith)+
  ultimately show ?thesis by (simp only: mod_once)
qed

lemma uint_sub_borrow:
  fixes a b :: "'a::len word"
  defines "M \<equiv> 2 * 2 ^ (LENGTH('a) - 1) :: int"
  shows "uint (a - b - (if k then 1 else 0)) =
    uint a - uint b - of_bool k + (if uint a - uint b - of_bool k < 0 then M else 0)"
proof -
  have M: "M = 2 ^ LENGTH('a)" unfolding M_def by (metis len_gt_0 power_Suc Suc_pred One_nat_def)
  have "uint (a - b - (if k then 1 else 0)) = (uint a - uint b - of_bool k) mod M"
    by (cases k) (simp_all add: M uint_word_ariths mod_simps)
  moreover have "- M \<le> uint a - uint b - of_bool k" "uint a - uint b - of_bool k < M"
    using sint_split(4,5) [of a] sint_split(4,5) [of b] unfolding M_def
    by (cases k; simp only: of_bool_eq; linarith)+
  ultimately show ?thesis by (simp only: mod_once)
qed

text \<open>The sign tests of the code see exactly the signed overflows.\<close>

lemma overflow_arith:
  fixes sa sb sr ua ub ur k H :: int
  assumes "sa < 0 \<and> sa = ua - 2 * H \<or> 0 \<le> sa \<and> sa = ua" "- H \<le> sa" "sa < H"
    and "sb < 0 \<and> sb = ub - 2 * H \<or> 0 \<le> sb \<and> sb = ub" "- H \<le> sb" "sb < H"
    and "sr < 0 \<and> sr = ur - 2 * H \<or> 0 \<le> sr \<and> sr = ur" "- H \<le> sr" "sr < H" and "k = 0 \<or> k = 1"
  shows "ur = ua + ub + k - (if 2 * H \<le> ua + ub + k then 2 * H else 0) \<Longrightarrow>
      (sa < 0) \<noteq> (sr < 0) \<and> (sb < 0) \<noteq> (sr < 0) \<longleftrightarrow> sr \<noteq> sa + sb + k"
    and "ur = ua - ub - k + (if ua - ub - k < 0 then 2 * H else 0) \<Longrightarrow>
      (sa < 0) \<noteq> (sb < 0) \<and> (sa < 0) \<noteq> (sr < 0) \<longleftrightarrow> sr \<noteq> sa - sb - k"
  using assms by (smt (verit))+

lemma add_overflow:
  fixes a b :: "'a::len word" and k :: bool
  defines "r \<equiv> a + b + (if k then 1 else 0)"
  shows "(sint a < 0) \<noteq> (sint r < 0) \<and> (sint b < 0) \<noteq> (sint r < 0) \<longleftrightarrow> sint r \<noteq> sint a + sint b + of_bool k"
  by (rule overflow_arith(1) [OF sint_split(1-3) [of a] sint_split(1-3) [of b] sint_split(1-3) [of r]])
    (auto simp: uint_add_carry r_def)

lemma sub_overflow:
  fixes a b :: "'a::len word" and k :: bool
  defines "r \<equiv> a - b - (if k then 1 else 0)"
  shows "(sint a < 0) \<noteq> (sint b < 0) \<and> (sint a < 0) \<noteq> (sint r < 0) \<longleftrightarrow> sint r \<noteq> sint a - sint b - of_bool k"
  by (rule overflow_arith(2) [OF sint_split(1-3) [of a] sint_split(1-3) [of b] sint_split(1-3) [of r]])
    (auto simp: uint_sub_borrow r_def)

text \<open>The auxiliary carry: out of, and into, bit 4.\<close>

lemma int_div_eq_one: "16 \<le> z \<Longrightarrow> z < 32 \<Longrightarrow> z div 16 = (1 :: int)"
  by (rule int_div_pos_eq [of _ _ _ "z - 16"]) auto

lemma int_div_eq_minus_one: "- 16 \<le> z \<Longrightarrow> z < 0 \<Longrightarrow> z div 16 = (- 1 :: int)"
  by (rule int_div_pos_eq [of _ _ _ "z + 16"]) auto

lemma bit4_arith:
  fixes x y k :: int
  assumes "k = 0 \<or> k = 1"
  shows "odd ((x + y + k) div 16) \<longleftrightarrow> (odd (x div 16) \<noteq> odd (y div 16)) \<noteq> (16 \<le> x mod 16 + y mod 16 + k)"
    and "odd ((x - y - k) div 16) \<longleftrightarrow> (odd (x div 16) \<noteq> odd (y div 16)) \<noteq> (x mod 16 < y mod 16 + k)"
proof -
  define r s p q where "r = x mod 16" and "s = y mod 16" and "p = x div 16" and "q = y div 16"
  have rs: "0 \<le> r" "r < 16" "0 \<le> s" "s < 16" by (auto simp: r_def s_def)
  have xy: "x = p * 16 + r" "y = q * 16 + s" by (simp_all add: r_def s_def p_def q_def)
  have "x + y + k = (r + s + k) + (p + q) * 16" "x - y - k = (r - s - k) + (p - q) * 16"
    unfolding xy by (simp_all add: algebra_simps)
  then have d: "(x + y + k) div 16 = (p + q) + (r + s + k) div 16" "(x - y - k) div 16 = (p - q) + (r - s - k) div 16"
    by (simp_all only: div_mult_self1)
  have c: "(r + s + k) div 16 = (if 16 \<le> r + s + k then 1 else 0)"
    "(r - s - k) div 16 = (if r < s + k then - 1 else 0)"
    using rs assms by (auto simp: div_pos_pos_trivial intro: int_div_eq_one int_div_eq_minus_one)
  show "odd ((x + y + k) div 16) \<longleftrightarrow> (odd (x div 16) \<noteq> odd (y div 16)) \<noteq> (16 \<le> x mod 16 + y mod 16 + k)"
    unfolding r_def [symmetric] s_def [symmetric] p_def [symmetric] q_def [symmetric] d c by auto
  show "odd ((x - y - k) div 16) \<longleftrightarrow> (odd (x div 16) \<noteq> odd (y div 16)) \<noteq> (x mod 16 < y mod 16 + k)"
    unfolding r_def [symmetric] s_def [symmetric] p_def [symmetric] q_def [symmetric] d c by auto
qed

lemma aux_carry:
  fixes a b :: "'a::len word"
  assumes "4 < LENGTH('a)"
  shows "bit (a XOR b XOR (a + b + (if k then 1 else 0))) 4 \<longleftrightarrow> 16 \<le> uint a mod 16 + uint b mod 16 + of_bool k"
    and "bit (a XOR b XOR (a - b - (if k then 1 else 0))) 4 \<longleftrightarrow> uint a mod 16 < uint b mod 16 + of_bool k"
proof -
  have w: "bit (word_of_int z :: 'a word) 4 \<longleftrightarrow> odd (z div 16)" for z :: int
  proof -
    have "bit z 4 \<longleftrightarrow> odd (z div 16)" by (simp add: bit_iff_odd)
    then show ?thesis using assms by (simp only: bit_word_of_int_iff simp_thms)
  qed
  have u: "bit x 4 \<longleftrightarrow> odd (uint x div 16)" for x :: "'a word"
    using w [of "uint x"] by simp
  have e: "a + b + (if k then 1 else 0) = word_of_int (uint a + uint b + of_bool k)"
    "a - b - (if k then 1 else 0) = word_of_int (uint a - uint b - of_bool k)" by (cases k; simp)+
  have k: "of_bool k = (0 :: int) \<or> of_bool k = (1 :: int)" by (cases k) auto
  show "bit (a XOR b XOR (a + b + (if k then 1 else 0))) 4 \<longleftrightarrow> 16 \<le> uint a mod 16 + uint b mod 16 + of_bool k"
    "bit (a XOR b XOR (a - b - (if k then 1 else 0))) 4 \<longleftrightarrow> uint a mod 16 < uint b mod 16 + of_bool k"
    unfolding e bit_xor_iff w u [of a] u [of b] bit4_arith [OF k] by blast+
qed

section \<open>The contract of one width\<close>

text \<open>
  What \<open>alu\<close> promises: ADD and ADC (carry \<open>k\<close>), SUB, SBB and CMP (borrow \<open>k\<close>), and the logical
  operations; the flags describe the exact integer result, and nothing but the flags changes.
\<close>

definition arith_flags :: "cpu \<Rightarrow> cpu \<Rightarrow> 'a::len word \<Rightarrow> bool \<Rightarrow> bool \<Rightarrow> bool \<Rightarrow> bool" where
  "arith_flags c c' r carry overflow aux \<longleftrightarrow>
     flags_only c c' \<and> has c' CF = carry \<and> has c' OF = overflow \<and> has c' AF = aux \<and> has c' ZF = (r = 0) \<and>
     has c' SF = (sint r < 0) \<and> has c' PF = even (count_ones (ucast r :: u8)) \<and>
     (\<forall>k. k \<notin> {0, 2, 4, 6, 7, 11} \<longrightarrow> bit (flags c') k = bit (flags c) k)"

definition logic_op :: "u8 \<Rightarrow> 'a::len word \<Rightarrow> 'a word \<Rightarrow> 'a word" where
  "logic_op op a b = (if op = 1 then a OR b else if op = 4 then a AND b else a XOR b)"

locale alu_width =
  fixes alu :: "cpu \<Rightarrow> u8 \<Rightarrow> 'w::len word \<Rightarrow> 'w word \<Rightarrow> ('w word \<times> bool) \<times> cpu"
  assumes alu_add: "op = 0 \<or> op = 2 \<Longrightarrow> k = (op = 2 \<and> has c CF) \<Longrightarrow> r = a + b + (if k then 1 else 0) \<Longrightarrow>
      \<exists>c'. alu c op a b = ((r, True), c') \<and>
        arith_flags c c' r (2 ^ LENGTH('w) \<le> uint a + uint b + of_bool k) (sint r \<noteq> sint a + sint b + of_bool k)
          (16 \<le> uint a mod 16 + uint b mod 16 + of_bool k)"
    and alu_sub: "op = 3 \<or> op = 5 \<or> op = 7 \<Longrightarrow> k = (op = 3 \<and> has c CF) \<Longrightarrow> r = a - b - (if k then 1 else 0) \<Longrightarrow>
      \<exists>c'. alu c op a b = ((r, op \<noteq> 7), c') \<and>
        arith_flags c c' r (uint a < uint b + of_bool k) (sint r \<noteq> sint a - sint b - of_bool k)
          (uint a mod 16 < uint b mod 16 + of_bool k)"
    and alu_logic: "op = 1 \<or> op = 4 \<or> op = 6 \<Longrightarrow>
      \<exists>c'. alu c op a b = ((logic_op op a b, True), c') \<and> arith_flags c c' (logic_op op a b) False False (has c AF)"
begin

text \<open>After CMP the sixteen condition codes are the sixteen comparisons.\<close>

lemma cmp_conditions:
  assumes "alu c 7 a b = (rw, c')"
  shows "eval_cond c' 0x2 = (a < b)" "eval_cond c' 0x3 = (b \<le> a)" "eval_cond c' 0x4 = (a = b)"
    "eval_cond c' 0x5 = (a \<noteq> b)" "eval_cond c' 0x6 = (a \<le> b)" "eval_cond c' 0x7 = (b < a)"
    "eval_cond c' 0xC = (sint a < sint b)" "eval_cond c' 0xD = (sint b \<le> sint a)"
    "eval_cond c' 0xE = (sint a \<le> sint b)" "eval_cond c' 0xF = (sint b < sint a)"
    "flags_only c c'" "\<not> snd rw"
proof -
  define r where "r = a - b"
  have f: "rw = (r, False)" "arith_flags c c' r (uint a < uint b) (sint r \<noteq> sint a - sint b) (uint a mod 16 < uint b mod 16)"
    using alu_sub [of 7 False c r a b] assms by (auto simp: r_def)
  then show "flags_only c c'" "\<not> snd rw" by (simp_all add: arith_flags_def)
  have fl: "has c' CF = (uint a < uint b)" "has c' OF = (sint r \<noteq> sint a - sint b)" "has c' ZF = (a = b)"
    "has c' SF = (sint r < 0)"
    using f by (auto simp: arith_flags_def r_def)
  show "eval_cond c' 0x2 = (a < b)" "eval_cond c' 0x3 = (b \<le> a)" "eval_cond c' 0x4 = (a = b)"
    "eval_cond c' 0x5 = (a \<noteq> b)" "eval_cond c' 0x6 = (a \<le> b)" "eval_cond c' 0x7 = (b < a)"
    by (auto simp: eval_cond_def fl word_less_def word_le_def word_uint_eq_iff)
  have lt: "has c' SF \<noteq> has c' OF \<longleftrightarrow> sint a < sint b"
    unfolding fl using sub_overflow [where a = a and b = b and k = False] by (auto simp: r_def)
  have eq: "a = b \<longleftrightarrow> sint a = sint b" by (auto intro: signed_word_eqI)
  show "eval_cond c' 0xC = (sint a < sint b)" "eval_cond c' 0xD = (sint b \<le> sint a)"
    "eval_cond c' 0xE = (sint a \<le> sint b)" "eval_cond c' 0xF = (sint b < sint a)"
    using lt eq by (auto simp: eval_cond_def fl)
qed

text \<open>ADD/ADC and SUB/SBB chains compute on double-width integers.\<close>

lemma add_adc_chain:
  assumes "alu c 0 l l' = ((x, w), c1)" and "alu c1 2 h h' = ((y, w'), c2)"
  shows "uint x + 2 ^ LENGTH('w) * uint y + 2 ^ (2 * LENGTH('w)) * of_bool (has c2 CF) =
    uint l + uint l' + 2 ^ LENGTH('w) * (uint h + uint h')"
proof -
  have M: "2 * 2 ^ (LENGTH('w) - 1) = (2 :: int) ^ LENGTH('w)" by (simp flip: power_Suc)
  have 1: "x = l + l'" "has c1 CF = (2 ^ LENGTH('w) \<le> uint l + uint l')"
    using alu_add [of 0 False c "l + l'" l l'] assms(1) by (auto simp: arith_flags_def)
  have 2: "y = h + h' + (if has c1 CF then 1 else 0)" "has c2 CF = (2 ^ LENGTH('w) \<le> uint h + uint h' + of_bool (has c1 CF))"
    using alu_add [of 2 "has c1 CF" c1 "h + h' + (if has c1 CF then 1 else 0)" h h'] assms(2)
    by (auto simp: arith_flags_def)
  have ux: "uint x = uint l + uint l' - 2 ^ LENGTH('w) * of_bool (has c1 CF)"
    using uint_add_carry [of l l' False] unfolding 1 M by (simp only: of_bool_def mult_1_right mult_zero_right split: if_split) simp
  have uy: "uint y = uint h + uint h' + of_bool (has c1 CF) - 2 ^ LENGTH('w) * of_bool (has c2 CF)"
    using uint_add_carry [of h h' "has c1 CF"] unfolding 2 M by (simp only: of_bool_def mult_1_right mult_zero_right split: if_split) simp
  have "(2 :: int) ^ (2 * LENGTH('w)) = 2 ^ LENGTH('w) * 2 ^ LENGTH('w)" by (simp add: mult_2 power_add)
  then show ?thesis unfolding ux uy by (simp only: algebra_simps)
qed

lemma sub_sbb_chain:
  assumes "alu c 5 l l' = ((x, w), c1)" and "alu c1 3 h h' = ((y, w'), c2)"
  shows "uint x + 2 ^ LENGTH('w) * uint y - 2 ^ (2 * LENGTH('w)) * of_bool (has c2 CF) =
    uint l - uint l' + 2 ^ LENGTH('w) * (uint h - uint h')"
proof -
  have M: "2 * 2 ^ (LENGTH('w) - 1) = (2 :: int) ^ LENGTH('w)" by (simp flip: power_Suc)
  have 1: "x = l - l'" "has c1 CF = (uint l - uint l' < 0)"
    using alu_sub [of 5 False c "l - l'" l l'] assms(1) by (auto simp: arith_flags_def)
  have 2: "y = h - h' - (if has c1 CF then 1 else 0)" "has c2 CF = (uint h - uint h' - of_bool (has c1 CF) < 0)"
  proof -
    obtain d where "alu c1 3 h h' = ((h - h' - (if has c1 CF then 1 else 0), True), d)"
        "has d CF = (uint h < uint h' + of_bool (has c1 CF))"
      using alu_sub [of 3 "has c1 CF" c1 _ h h', OF _ _ refl] unfolding arith_flags_def by auto
    with assms(2) have y: "y = h - h' - (if has c1 CF then 1 else 0)"
      and cf: "has c2 CF = (uint h < uint h' + of_bool (has c1 CF))" by simp_all
    show "y = h - h' - (if has c1 CF then 1 else 0)" by (rule y)
    show "has c2 CF = (uint h - uint h' - of_bool (has c1 CF) < 0)" unfolding cf by linarith
  qed
  have ux: "uint x = uint l - uint l' + 2 ^ LENGTH('w) * of_bool (has c1 CF)"
    using uint_sub_borrow [of l l' False] unfolding 1 M by (simp only: of_bool_def mult_1_right mult_zero_right split: if_split) simp
  have uy: "uint y = uint h - uint h' - of_bool (has c1 CF) + 2 ^ LENGTH('w) * of_bool (has c2 CF)"
    using uint_sub_borrow [of h h' "has c1 CF"] unfolding 2 M by (simp only: of_bool_def mult_1_right mult_zero_right split: if_split) simp
  have "(2 :: int) ^ (2 * LENGTH('w)) = 2 ^ LENGTH('w) * 2 ^ LENGTH('w)" by (simp add: mult_2 power_add)
  then show ?thesis unfolding ux uy by (simp only: algebra_simps)
qed

end

lemma sign_masks:
  "r AND 0x80 \<noteq> 0 \<longleftrightarrow> sint r < 0" "s AND 0x8000 \<noteq> 0 \<longleftrightarrow> sint s < 0" "t AND 0x80000000 \<noteq> 0 \<longleftrightarrow> sint t < 0"
  "x AND 0x10 \<noteq> 0 \<longleftrightarrow> bit x 4"
  for r :: u8 and s :: u16 and t :: u32 and x :: "'a::len word"
  using and_exp_eq_0_iff_not_bit [of r 7] and_exp_eq_0_iff_not_bit [of s 15] and_exp_eq_0_iff_not_bit [of t 31]
    and_exp_eq_0_iff_not_bit [of x 4] bit_last_iff [of r] bit_last_iff [of s] bit_last_iff [of t]
  by simp_all

lemma sint_neg_bits:
  "sint (p AND q) < 0 \<longleftrightarrow> sint p < 0 \<and> sint q < 0" "sint (p XOR q) < 0 \<longleftrightarrow> (sint p < 0) \<noteq> (sint q < 0)"
  for p q :: "'a::len word"
  unfolding bit_last_iff [symmetric] by (simp_all add: bit_and_iff bit_xor_iff)

lemma overflow_masks:
  "p AND q AND 0x80 \<noteq> 0 \<longleftrightarrow> sint p < 0 \<and> sint q < 0" "p' AND q' AND 0x8000 \<noteq> 0 \<longleftrightarrow> sint p' < 0 \<and> sint q' < 0"
  "p'' AND q'' AND 0x80000000 \<noteq> 0 \<longleftrightarrow> sint p'' < 0 \<and> sint q'' < 0"
  for p q :: u8 and p' q' :: u16 and p'' q'' :: u32
  unfolding and.assoc [symmetric] sign_masks sint_neg_bits by (rule refl)+

lemma carry_in: "uint (if k then 1 else 0 :: 'a::len word) = of_bool k"
  by simp

lemma flags_add8_ok:
  assumes "cin = (if k then 1 else 0)" "r = a + b + cin"
  shows "arith_flags c (flags_add8 c a b cin r) r (2 ^ LENGTH(8) \<le> uint a + uint b + of_bool k)
    (sint r \<noteq> sint a + sint b + of_bool k) (16 \<le> uint a mod 16 + uint b mod 16 + of_bool k)"
proof -
  have ov: "(a XOR r) AND (b XOR r) AND 0x80 \<noteq> 0 \<longleftrightarrow> sint r \<noteq> sint a + sint b + of_bool k"
    unfolding overflow_masks sint_neg_bits assms using add_overflow [where a = a and b = b and k = k] by auto
  have ax: "(a XOR b XOR r) AND 0x10 \<noteq> 0 \<longleftrightarrow> 16 \<le> uint a mod 16 + uint b mod 16 + of_bool k"
    unfolding sign_masks assms by (rule aux_carry) simp
  have cy: "0xFF < uint a + uint b + uint cin \<longleftrightarrow> 2 ^ LENGTH(8) \<le> uint a + uint b + of_bool k"
    unfolding assms carry_in by simp linarith
  show ?thesis
    unfolding arith_flags_def flags_add8_def Let_def has_flags bit_set_flags ov ax cy sign_masks(1) by (simp add: ucast_id)
qed

lemma flags_sub8_ok:
  assumes "bin = (if k then 1 else 0)" "r = a - b - bin"
  shows "arith_flags c (flags_sub8 c a b bin r) r (uint a < uint b + of_bool k)
    (sint r \<noteq> sint a - sint b - of_bool k) (uint a mod 16 < uint b mod 16 + of_bool k)"
proof -
  have ov: "(a XOR b) AND (a XOR r) AND 0x80 \<noteq> 0 \<longleftrightarrow> sint r \<noteq> sint a - sint b - of_bool k"
    unfolding overflow_masks sint_neg_bits assms using sub_overflow [where a = a and b = b and k = k] by auto
  have ax: "(a XOR b XOR r) AND 0x10 \<noteq> 0 \<longleftrightarrow> uint a mod 16 < uint b mod 16 + of_bool k"
    unfolding sign_masks assms by (rule aux_carry) simp
  have cy: "uint a - uint b - uint bin < 0 \<longleftrightarrow> uint a < uint b + of_bool k"
    unfolding assms carry_in by linarith
  show ?thesis
    unfolding arith_flags_def flags_sub8_def Let_def has_flags bit_set_flags ov ax cy sign_masks(1) by (simp add: ucast_id)
qed

lemma flags_logic8_ok: "arith_flags c (flags_logic8 c r) r False False (has c AF)"
  unfolding arith_flags_def flags_logic8_def Let_def has_flags bit_set_flags sign_masks(1) by (simp add: ucast_id)

interpretation alu8: alu_width alu_apply8
proof
  fix op :: u8 and k :: bool and c :: cpu and r a b :: u8
  show "\<exists>c'. alu_apply8 c op a b = ((r, True), c') \<and>
        arith_flags c c' r (2 ^ LENGTH(8) \<le> uint a + uint b + of_bool k) (sint r \<noteq> sint a + sint b + of_bool k)
          (16 \<le> uint a mod 16 + uint b mod 16 + of_bool k)"
    if "op = 0 \<or> op = 2" "k = (op = 2 \<and> has c CF)" "r = a + b + (if k then 1 else 0)"
    using that flags_add8_ok [of "if k then 1 else 0" k r a b c] by (auto simp: alu_apply8_def Let_def)
  show "\<exists>c'. alu_apply8 c op a b = ((r, op \<noteq> 7), c') \<and>
        arith_flags c c' r (uint a < uint b + of_bool k) (sint r \<noteq> sint a - sint b - of_bool k)
          (uint a mod 16 < uint b mod 16 + of_bool k)"
    if "op = 3 \<or> op = 5 \<or> op = 7" "k = (op = 3 \<and> has c CF)" "r = a - b - (if k then 1 else 0)"
    using that flags_sub8_ok [of "if k then 1 else 0" k r a b c] by (auto simp: alu_apply8_def Let_def)
  show "\<exists>c'. alu_apply8 c op a b = ((logic_op op a b, True), c') \<and>
      arith_flags c c' (logic_op op a b) False False (has c AF)"
    if "op = 1 \<or> op = 4 \<or> op = 6"
    using that flags_logic8_ok by (auto simp: alu_apply8_def Let_def logic_op_def)
qed

lemma flags_add16_ok:
  assumes "cin = (if k then 1 else 0)" "r = a + b + cin"
  shows "arith_flags c (flags_add16 c a b cin r) r (2 ^ LENGTH(16) \<le> uint a + uint b + of_bool k)
    (sint r \<noteq> sint a + sint b + of_bool k) (16 \<le> uint a mod 16 + uint b mod 16 + of_bool k)"
proof -
  have ov: "(a XOR r) AND (b XOR r) AND 0x8000 \<noteq> 0 \<longleftrightarrow> sint r \<noteq> sint a + sint b + of_bool k"
    unfolding overflow_masks sint_neg_bits assms using add_overflow [where a = a and b = b and k = k] by auto
  have ax: "(a XOR b XOR r) AND 0x10 \<noteq> 0 \<longleftrightarrow> 16 \<le> uint a mod 16 + uint b mod 16 + of_bool k"
    unfolding sign_masks assms by (rule aux_carry) simp
  have cy: "0xFFFF < uint a + uint b + uint cin \<longleftrightarrow> 2 ^ LENGTH(16) \<le> uint a + uint b + of_bool k"
    unfolding assms carry_in by simp linarith
  show ?thesis
    unfolding arith_flags_def flags_add16_def Let_def has_flags bit_set_flags ov ax cy sign_masks(2) by (simp)
qed

lemma flags_sub16_ok:
  assumes "bin = (if k then 1 else 0)" "r = a - b - bin"
  shows "arith_flags c (flags_sub16 c a b bin r) r (uint a < uint b + of_bool k)
    (sint r \<noteq> sint a - sint b - of_bool k) (uint a mod 16 < uint b mod 16 + of_bool k)"
proof -
  have ov: "(a XOR b) AND (a XOR r) AND 0x8000 \<noteq> 0 \<longleftrightarrow> sint r \<noteq> sint a - sint b - of_bool k"
    unfolding overflow_masks sint_neg_bits assms using sub_overflow [where a = a and b = b and k = k] by auto
  have ax: "(a XOR b XOR r) AND 0x10 \<noteq> 0 \<longleftrightarrow> uint a mod 16 < uint b mod 16 + of_bool k"
    unfolding sign_masks assms by (rule aux_carry) simp
  have cy: "uint a - uint b - uint bin < 0 \<longleftrightarrow> uint a < uint b + of_bool k"
    unfolding assms carry_in by linarith
  show ?thesis
    unfolding arith_flags_def flags_sub16_def Let_def has_flags bit_set_flags ov ax cy sign_masks(2) by (simp)
qed

lemma flags_logic16_ok: "arith_flags c (flags_logic16 c r) r False False (has c AF)"
  unfolding arith_flags_def flags_logic16_def Let_def has_flags bit_set_flags sign_masks(2) by (simp)

interpretation alu16: alu_width alu_apply16
proof
  fix op :: u8 and k :: bool and c :: cpu and r a b :: u16
  show "\<exists>c'. alu_apply16 c op a b = ((r, True), c') \<and>
        arith_flags c c' r (2 ^ LENGTH(16) \<le> uint a + uint b + of_bool k) (sint r \<noteq> sint a + sint b + of_bool k)
          (16 \<le> uint a mod 16 + uint b mod 16 + of_bool k)"
    if "op = 0 \<or> op = 2" "k = (op = 2 \<and> has c CF)" "r = a + b + (if k then 1 else 0)"
    using that flags_add16_ok [of "if k then 1 else 0" k r a b c] by (auto simp: alu_apply16_def Let_def)
  show "\<exists>c'. alu_apply16 c op a b = ((r, op \<noteq> 7), c') \<and>
        arith_flags c c' r (uint a < uint b + of_bool k) (sint r \<noteq> sint a - sint b - of_bool k)
          (uint a mod 16 < uint b mod 16 + of_bool k)"
    if "op = 3 \<or> op = 5 \<or> op = 7" "k = (op = 3 \<and> has c CF)" "r = a - b - (if k then 1 else 0)"
    using that flags_sub16_ok [of "if k then 1 else 0" k r a b c] by (auto simp: alu_apply16_def Let_def)
  show "\<exists>c'. alu_apply16 c op a b = ((logic_op op a b, True), c') \<and>
      arith_flags c c' (logic_op op a b) False False (has c AF)"
    if "op = 1 \<or> op = 4 \<or> op = 6"
    using that flags_logic16_ok by (auto simp: alu_apply16_def Let_def logic_op_def)
qed

lemma flags_add32_ok:
  assumes "cin = (if k then 1 else 0)" "r = a + b + cin"
  shows "arith_flags c (flags_add32 c a b cin r) r (2 ^ LENGTH(32) \<le> uint a + uint b + of_bool k)
    (sint r \<noteq> sint a + sint b + of_bool k) (16 \<le> uint a mod 16 + uint b mod 16 + of_bool k)"
proof -
  have ov: "(a XOR r) AND (b XOR r) AND 0x80000000 \<noteq> 0 \<longleftrightarrow> sint r \<noteq> sint a + sint b + of_bool k"
    unfolding overflow_masks sint_neg_bits assms using add_overflow [where a = a and b = b and k = k] by auto
  have ax: "(a XOR b XOR r) AND 0x10 \<noteq> 0 \<longleftrightarrow> 16 \<le> uint a mod 16 + uint b mod 16 + of_bool k"
    unfolding sign_masks assms by (rule aux_carry) simp
  have cy: "0xFFFFFFFF < uint a + uint b + uint cin \<longleftrightarrow> 2 ^ LENGTH(32) \<le> uint a + uint b + of_bool k"
    unfolding assms carry_in by simp linarith
  show ?thesis
    unfolding arith_flags_def flags_add32_def Let_def has_flags bit_set_flags ov ax cy sign_masks(3) by (simp)
qed

lemma flags_sub32_ok:
  assumes "bin = (if k then 1 else 0)" "r = a - b - bin"
  shows "arith_flags c (flags_sub32 c a b bin r) r (uint a < uint b + of_bool k)
    (sint r \<noteq> sint a - sint b - of_bool k) (uint a mod 16 < uint b mod 16 + of_bool k)"
proof -
  have ov: "(a XOR b) AND (a XOR r) AND 0x80000000 \<noteq> 0 \<longleftrightarrow> sint r \<noteq> sint a - sint b - of_bool k"
    unfolding overflow_masks sint_neg_bits assms using sub_overflow [where a = a and b = b and k = k] by auto
  have ax: "(a XOR b XOR r) AND 0x10 \<noteq> 0 \<longleftrightarrow> uint a mod 16 < uint b mod 16 + of_bool k"
    unfolding sign_masks assms by (rule aux_carry) simp
  have cy: "uint a - uint b - uint bin < 0 \<longleftrightarrow> uint a < uint b + of_bool k"
    unfolding assms carry_in by linarith
  show ?thesis
    unfolding arith_flags_def flags_sub32_def Let_def has_flags bit_set_flags ov ax cy sign_masks(3) by (simp)
qed

lemma flags_logic32_ok: "arith_flags c (flags_logic32 c r) r False False (has c AF)"
  unfolding arith_flags_def flags_logic32_def Let_def has_flags bit_set_flags sign_masks(3) by (simp)

interpretation alu32: alu_width alu_apply32
proof
  fix op :: u8 and k :: bool and c :: cpu and r a b :: u32
  show "\<exists>c'. alu_apply32 c op a b = ((r, True), c') \<and>
        arith_flags c c' r (2 ^ LENGTH(32) \<le> uint a + uint b + of_bool k) (sint r \<noteq> sint a + sint b + of_bool k)
          (16 \<le> uint a mod 16 + uint b mod 16 + of_bool k)"
    if "op = 0 \<or> op = 2" "k = (op = 2 \<and> has c CF)" "r = a + b + (if k then 1 else 0)"
    using that flags_add32_ok [of "if k then 1 else 0" k r a b c] by (auto simp: alu_apply32_def Let_def)
  show "\<exists>c'. alu_apply32 c op a b = ((r, op \<noteq> 7), c') \<and>
        arith_flags c c' r (uint a < uint b + of_bool k) (sint r \<noteq> sint a - sint b - of_bool k)
          (uint a mod 16 < uint b mod 16 + of_bool k)"
    if "op = 3 \<or> op = 5 \<or> op = 7" "k = (op = 3 \<and> has c CF)" "r = a - b - (if k then 1 else 0)"
    using that flags_sub32_ok [of "if k then 1 else 0" k r a b c] by (auto simp: alu_apply32_def Let_def)
  show "\<exists>c'. alu_apply32 c op a b = ((logic_op op a b, True), c') \<and>
      arith_flags c c' (logic_op op a b) False False (has c AF)"
    if "op = 1 \<or> op = 4 \<or> op = 6"
    using that flags_logic32_ok by (auto simp: alu_apply32_def Let_def logic_op_def)
qed

section \<open>Properties\<close>

definition branch_conditions :: "cpu \<Rightarrow> 'a::len word \<Rightarrow> 'a word \<Rightarrow> bool" where
  "branch_conditions c a b \<longleftrightarrow>
     eval_cond c 0x2 = (a < b) \<and> eval_cond c 0x3 = (b \<le> a) \<and> eval_cond c 0x4 = (a = b) \<and>
     eval_cond c 0x5 = (a \<noteq> b) \<and> eval_cond c 0x6 = (a \<le> b) \<and> eval_cond c 0x7 = (b < a) \<and>
     eval_cond c 0xC = (sint a < sint b) \<and> eval_cond c 0xD = (sint b \<le> sint a) \<and>
     eval_cond c 0xE = (sint a \<le> sint b) \<and> eval_cond c 0xF = (sint b < sint a)"

text \<open>
  C31: The arithmetic flags are exact at every width.  ADD and ADC report the unsigned carry in CF, the
  signed overflow in OF (the signed result differs from the mathematical one) and the carry out of
  bit 3 in AF; SUB, SBB and CMP likewise for borrows; ZF, SF and PF describe the result; the result
  of CMP is not written back; and nothing but these six flag bits of the CPU changes.  (Shown at 32
  bits; the same holds of the 8-bit and 16-bit routines.)
\<close>

theorem alu_flags_exact:
  fixes a b :: u32 and c :: cpu and op :: u8
  defines "k \<equiv> (op = 2 \<or> op = 3) \<and> has c CF"
  shows "(op \<in> {0, 2} \<longrightarrow> (let r = a + b + (if k then 1 else 0); (rw, c') = alu_apply32 c op a b in
      rw = (r, True) \<and> arith_flags c c' r (2 ^ 32 \<le> uint a + uint b + of_bool k)
        (sint r \<noteq> sint a + sint b + of_bool k) (16 \<le> uint a mod 16 + uint b mod 16 + of_bool k))) \<and>
    (op \<in> {3, 5, 7} \<longrightarrow> (let r = a - b - (if k then 1 else 0); (rw, c') = alu_apply32 c op a b in
      rw = (r, op \<noteq> 7) \<and> arith_flags c c' r (uint a < uint b + of_bool k)
        (sint r \<noteq> sint a - sint b - of_bool k) (uint a mod 16 < uint b mod 16 + of_bool k)))"
proof (intro conjI impI)
  assume o: "op \<in> {0, 2}"
  then have "k = (op = 2 \<and> has c CF)" by (auto simp: k_def)
  then show "let r = a + b + (if k then 1 else 0); (rw, c') = alu_apply32 c op a b in
      rw = (r, True) \<and> arith_flags c c' r (2 ^ 32 \<le> uint a + uint b + of_bool k)
        (sint r \<noteq> sint a + sint b + of_bool k) (16 \<le> uint a mod 16 + uint b mod 16 + of_bool k)"
    using alu32.alu_add [of op k c "a + b + (if k then 1 else 0)" a b] o by (auto simp: Let_def)
next
  assume o: "op \<in> {3, 5, 7}"
  then have "k = (op = 3 \<and> has c CF)" by (auto simp: k_def)
  then show "let r = a - b - (if k then 1 else 0); (rw, c') = alu_apply32 c op a b in
      rw = (r, op \<noteq> 7) \<and> arith_flags c c' r (uint a < uint b + of_bool k)
        (sint r \<noteq> sint a - sint b - of_bool k) (uint a mod 16 < uint b mod 16 + of_bool k)"
    using alu32.alu_sub [of op k c "a - b - (if k then 1 else 0)" a b] o by (auto simp: Let_def)
qed

theorem alu_flags_exact_witness:
  "arith_flags cpu_new (snd (alu_apply32 cpu_new 0 15 1)) (16 :: u32) False False True"
  using alu_flags_exact [where op = 0 and c = cpu_new and a = 15 and b = 1] by (simp add: Let_def case_prod_beta)

text \<open>
  Compare and branch decide correctly at every width.  After \<open>CMP a, b\<close> the conditions B, AE, E,
  NE, BE, A are the unsigned comparisons of the operands and L, GE, LE, G the signed ones, overflow
  included; CMP itself changes only flags.
\<close>

theorem cmp_branch:
  "branch_conditions (snd (alu_apply8 c 7 a b)) a b \<and> branch_conditions (snd (alu_apply16 c 7 a' b')) a' b' \<and>
   branch_conditions (snd (alu_apply32 c 7 a'' b'')) a'' b'' \<and> flags_only c (snd (alu_apply32 c 7 a'' b''))"
  unfolding branch_conditions_def
  by (intro conjI alu8.cmp_conditions [OF surjective_pairing] alu16.cmp_conditions [OF surjective_pairing]
      alu32.cmp_conditions [OF surjective_pairing])

text \<open>
  Multi-word arithmetic.  An ADD of the low words followed by an ADC of the high words is the
  64-bit sum, with the carry out of bit 63 left in CF; SUB followed by SBB is the 64-bit difference
  with its borrow in CF.
\<close>

theorem double_word_arithmetic:
  fixes l l' h h' :: u32 and c :: cpu
  defines "lo \<equiv> alu_apply32 c 0 l l'" and "ls \<equiv> alu_apply32 c 5 l l'"
  defines "hi \<equiv> alu_apply32 (snd lo) 2 h h'" and "hs \<equiv> alu_apply32 (snd ls) 3 h h'"
  shows "uint (fst (fst lo)) + 2 ^ 32 * uint (fst (fst hi)) + 2 ^ 64 * of_bool (has (snd hi) CF) =
      (uint l + 2 ^ 32 * uint h) + (uint l' + 2 ^ 32 * uint h') \<and>
    uint (fst (fst ls)) + 2 ^ 32 * uint (fst (fst hs)) - 2 ^ 64 * of_bool (has (snd hs) CF) =
      (uint l + 2 ^ 32 * uint h) - (uint l' + 2 ^ 32 * uint h')"
proof -
  have p: "x = ((fst (fst x), snd (fst x)), snd x)" for x :: "(u32 \<times> bool) \<times> cpu" by simp
  have "uint (fst (fst lo)) + 2 ^ 32 * uint (fst (fst hi)) + 2 ^ 64 * of_bool (has (snd hi) CF) =
      uint l + uint l' + 2 ^ 32 * (uint h + uint h')"
    using alu32.add_adc_chain [OF p p, of c l l' h h'] unfolding hi_def lo_def by simp
  moreover have "uint (fst (fst ls)) + 2 ^ 32 * uint (fst (fst hs)) - 2 ^ 64 * of_bool (has (snd hs) CF) =
      uint l - uint l' + 2 ^ 32 * (uint h - uint h')"
    using alu32.sub_sbb_chain [OF p p, of c l l' h h'] unfolding hs_def ls_def by simp
  ultimately show ?thesis by simp
qed

end
