(* ===== verification/CpuShift.thy ===== *)
theory CpuShift
  imports CpuAlu
begin

text \<open>
  What the shift and rotate routines of \<open>CpuAlu\<close> compute: SHL, SHR and SAR are multiplication and
  division by a power of two with the last bit shifted out in CF, also for counts beyond the operand
  width, and the rotates through carry are inverse to each other.
\<close>

section \<open>Shifts as arithmetic\<close>

definition shift_spec :: "cpu \<Rightarrow> u8 \<Rightarrow> 'a::len word \<Rightarrow> nat \<Rightarrow> 'a word \<Rightarrow> cpu \<Rightarrow> bool" where
  "shift_spec c sub v n r c' \<longleftrightarrow>
     flags_only c c' \<and>
     (if n = 0 then r = v \<and> c' = c
      else has c' ZF = (r = 0) \<and> has c' SF = (sint r < 0) \<and>
        (if sub = 5 then uint r = uint v div 2 ^ n \<and> has c' CF = bit v (n - 1)
         else if sub = 7 then sint r = sint v div 2 ^ n \<and> has c' CF = bit (sint v) (n - 1)
         else uint r = uint v * 2 ^ n mod 2 ^ LENGTH('a) \<and> has c' CF = (n \<le> LENGTH('a) \<and> bit v (LENGTH('a) - n))))"

lemma shl_value: "uint (push_bit n v) = uint v * 2 ^ n mod 2 ^ LENGTH('a)" for v :: "'a::len word"
  unfolding unsigned_push_bit_eq unfolding push_bit_eq_mult take_bit_eq_mod ..

lemma shr_value: "uint (drop_bit n v) = uint v div 2 ^ n" for v :: "'a::len word"
  unfolding unsigned_drop_bit_eq by (simp add: drop_bit_eq_div take_bit_int_eq_self)

lemma sar_value: "sint (signed_drop_bit n v) = sint v div 2 ^ n" for v :: "'a::len word"
  by (simp add: sint_signed_drop_bit_eq drop_bit_eq_div)

lemma sar_beyond: "LENGTH('a) \<le> n \<Longrightarrow> signed_drop_bit n v = (if sint v < 0 then - 1 else 0)" for v :: "'a::len word"
  using bit_last_iff [of v] by (simp add: signed_drop_bit_beyond)

lemma low_bit: "drop_bit k x AND 1 \<noteq> 0 \<longleftrightarrow> bit x k" for x :: "'a::len word"
  by (simp add: and_one_eq mod_2_eq_odd bit_iff_odd_drop_bit)

lemma sar_carry:
  "bit (sint v) k = (if k < LENGTH('a) then bit v k else sint v < 0)" for v :: "'a::len word"
  using bit_last_iff [of v] bit_imp_le_length [of v k] by (auto simp: bit_sint_iff)

lemma count_range: "unat (k AND 0x1F :: u8) < 32" "unat (k AND 0x1F :: u8) = 0 \<longleftrightarrow> k AND 0x1F = 0"
proof -
  have "k AND 0x1F \<le> 0x1F" by (rule word_and_le1)
  then show "unat (k AND 0x1F :: u8) < 32" by (simp add: word_le_nat_alt)
  show "unat (k AND 0x1F :: u8) = 0 \<longleftrightarrow> k AND 0x1F = 0" by (rule unat_eq_0)
qed

lemma overflow_view:
  "has (if b then set_flag c1 OF w else c1) CF = has c1 CF" "has (set_flag c1 OF w) CF = has c1 CF"
  "flags_only c (if b then set_flag c1 OF w else c1) = flags_only c c1"
  "has (set_flag c2 CF w') CF = w'" "flags_only c (set_flag c2 CF w') = flags_only c c2"
  by (simp_all add: has_flags bit_set_flags del: bit_0)

lemma flags_zsp8_view:
  "flags_only c (flags_zsp8 c' r) = flags_only c c'" "has (flags_zsp8 c' r) CF = has c' CF"
  "has (flags_zsp8 c' r) ZF = (r = 0)" "has (flags_zsp8 c' r) SF = (sint r < 0)"
  unfolding flags_zsp8_def Let_def has_flags bit_set_flags sign_masks(1) by simp_all

lemma shift_apply8_spec:
  assumes "sub \<in> {4, 5, 6, 7}"
  shows "\<exists>r c'. shift_apply8 c sub v k = (Inr r, c') \<and> shift_spec c sub v (unat (k AND 0x1F)) r c'"
proof (cases "k AND 0x1F = 0")
  case True
  then show ?thesis by (simp add: shift_apply8_def shift_spec_def)
next
  case False
  define n where "n = unat (k AND 0x1F)"
  have n: "0 < n" "n < 32" using False count_range [of k] by (auto simp: n_def)
  note view = flags_zsp8_view overflow_view
  consider (shl) "sub = 4 \<or> sub = 6" | (shr) "sub = 5" | (sar) "sub = 7" using assms by auto
  then show ?thesis
  proof cases
    case shl
    have r: "(if 8 \<le> n then 0 else push_bit n v) = push_bit n v" by (simp add: push_bit_word_beyond)
    have c: "(if n \<le> 8 then drop_bit (8 - n) (ucast v :: u16) AND 1 \<noteq> 0 else False) = (n \<le> 8 \<and> bit v (8 - n))"
      unfolding low_bit using n by (auto simp: bit_simps dest: bit_imp_le_length)
    show ?thesis
      using shl False n unfolding shift_apply8_def Let_def n_def [symmetric] r c
      by (auto simp: shift_spec_def view shl_value)
  next
    case shr
    have r: "(if 8 \<le> n then 0 else drop_bit n v) = drop_bit n v" by (simp add: drop_bit_word_beyond)
    have c: "(if n \<le> 8 then drop_bit (n - 1) v AND 1 \<noteq> 0 else False) = bit v (n - 1)"
      unfolding low_bit using n bit_imp_le_length [of v "n - 1"] by auto
    show ?thesis
      using shr False n unfolding shift_apply8_def Let_def n_def [symmetric] r c
      by (auto simp: shift_spec_def view shr_value)
  next
    case sar
    have r: "(if 8 \<le> n then if v AND 0x80 \<noteq> 0 then 0xFF else 0 else signed_drop_bit n v) = signed_drop_bit n v"
      unfolding sign_masks by (simp add: sar_beyond)
    have c: "(if n \<le> 8 then drop_bit (n - 1) v AND 1 \<noteq> 0 else v AND 0x80 \<noteq> 0) = bit (sint v) (n - 1)"
      unfolding low_bit sign_masks sar_carry using n by auto
    show ?thesis
      using sar False n unfolding shift_apply8_def Let_def n_def [symmetric] r c
      by (auto simp: shift_spec_def view sar_value)
  qed
qed

lemma flags_zsp16_view:
  "flags_only c (flags_zsp16 c' r) = flags_only c c'" "has (flags_zsp16 c' r) CF = has c' CF"
  "has (flags_zsp16 c' r) ZF = (r = 0)" "has (flags_zsp16 c' r) SF = (sint r < 0)"
  unfolding flags_zsp16_def Let_def has_flags bit_set_flags sign_masks(2) by simp_all

lemma shift_apply16_spec:
  assumes "sub \<in> {4, 5, 6, 7}"
  shows "\<exists>r c'. shift_apply16 c sub v k = (Inr r, c') \<and> shift_spec c sub v (unat (k AND 0x1F)) r c'"
proof (cases "k AND 0x1F = 0")
  case True
  then show ?thesis by (simp add: shift_apply16_def shift_spec_def)
next
  case False
  define n where "n = unat (k AND 0x1F)"
  have n: "0 < n" "n < 32" using False count_range [of k] by (auto simp: n_def)
  note view = flags_zsp16_view overflow_view
  consider (shl) "sub = 4 \<or> sub = 6" | (shr) "sub = 5" | (sar) "sub = 7" using assms by auto
  then show ?thesis
  proof cases
    case shl
    have r: "(if 16 \<le> n then 0 else push_bit n v) = push_bit n v" by (simp add: push_bit_word_beyond)
    have c: "(if n \<le> 16 then drop_bit (16 - n) (ucast v :: u32) AND 1 \<noteq> 0 else False) = (n \<le> 16 \<and> bit v (16 - n))"
      unfolding low_bit using n by (auto simp: bit_simps dest: bit_imp_le_length)
    show ?thesis
      using shl False n unfolding shift_apply16_def Let_def n_def [symmetric] r c
      by (auto simp: shift_spec_def view shl_value)
  next
    case shr
    have r: "(if 16 \<le> n then 0 else drop_bit n v) = drop_bit n v" by (simp add: drop_bit_word_beyond)
    have c: "(if n \<le> 16 then drop_bit (n - 1) v AND 1 \<noteq> 0 else False) = bit v (n - 1)"
      unfolding low_bit using n bit_imp_le_length [of v "n - 1"] by auto
    show ?thesis
      using shr False n unfolding shift_apply16_def Let_def n_def [symmetric] r c
      by (auto simp: shift_spec_def view shr_value)
  next
    case sar
    have r: "(if 16 \<le> n then if v AND 0x8000 \<noteq> 0 then 0xFFFF else 0 else signed_drop_bit n v) = signed_drop_bit n v"
      unfolding sign_masks by (simp add: sar_beyond)
    have c: "(if n \<le> 16 then drop_bit (n - 1) v AND 1 \<noteq> 0 else v AND 0x8000 \<noteq> 0) = bit (sint v) (n - 1)"
      unfolding low_bit sign_masks sar_carry using n by auto
    show ?thesis
      using sar False n unfolding shift_apply16_def Let_def n_def [symmetric] r c
      by (auto simp: shift_spec_def view sar_value)
  qed
qed

lemma flags_zsp32_view:
  "flags_only c (flags_zsp32 c' r) = flags_only c c'" "has (flags_zsp32 c' r) CF = has c' CF"
  "has (flags_zsp32 c' r) ZF = (r = 0)" "has (flags_zsp32 c' r) SF = (sint r < 0)"
  unfolding flags_zsp32_def Let_def has_flags bit_set_flags sign_masks(3) by simp_all

lemma shift_apply32_spec:
  assumes "sub \<in> {4, 5, 6, 7}"
  shows "\<exists>r c'. shift_apply32 c sub v k = (Inr r, c') \<and> shift_spec c sub v (unat (k AND 0x1F)) r c'"
proof (cases "k AND 0x1F = 0")
  case True
  then show ?thesis by (simp add: shift_apply32_def shift_spec_def)
next
  case False
  define n where "n = unat (k AND 0x1F)"
  have n: "0 < n" "n < 32" using False count_range [of k] by (auto simp: n_def)
  note view = flags_zsp32_view overflow_view
  consider (shl) "sub = 4 \<or> sub = 6" | (shr) "sub = 5" | (sar) "sub = 7" using assms by auto
  then show ?thesis
  proof cases
    case shl
    have r: "(if 32 \<le> n then 0 else push_bit n v) = push_bit n v" by (simp add: push_bit_word_beyond)
    have c: "(drop_bit (32 - n) (ucast v :: u64) AND 1 \<noteq> 0) = (n \<le> 32 \<and> bit v (32 - n))"
      unfolding low_bit using n by (auto simp: bit_simps dest: bit_imp_le_length)
    show ?thesis
      using shl False n unfolding shift_apply32_def Let_def n_def [symmetric] r c
      by (auto simp: shift_spec_def view shl_value)
  next
    case shr
    have r: "(if 32 \<le> n then 0 else drop_bit n v) = drop_bit n v" by (simp add: drop_bit_word_beyond)
    have c: "(drop_bit (n - 1) v AND 1 \<noteq> 0) = bit v (n - 1)"
      unfolding low_bit using n bit_imp_le_length [of v "n - 1"] by auto
    show ?thesis
      using shr False n unfolding shift_apply32_def Let_def n_def [symmetric] r c
      by (auto simp: shift_spec_def view shr_value)
  next
    case sar
    have r: "(if 32 \<le> n then if v AND 0x80000000 \<noteq> 0 then 0xFFFFFFFF else 0 else signed_drop_bit n v) = signed_drop_bit n v"
      unfolding sign_masks by (simp add: sar_beyond)
    have c: "(drop_bit (n - 1) v AND 1 \<noteq> 0) = bit (sint v) (n - 1)"
      unfolding low_bit sign_masks sar_carry using n by auto
    show ?thesis
      using sar False n unfolding shift_apply32_def Let_def n_def [symmetric] r c
      by (auto simp: shift_spec_def view sar_value)
  qed
qed



section \<open>Rotates\<close>

lemma rc_bits:
  "bit (push_bit 1 v) i \<longleftrightarrow> 0 < i \<and> i < LENGTH('a) \<and> bit v (i - 1)" "bit (drop_bit 1 v) i \<longleftrightarrow> bit v (Suc i)"
  "bit (if cf then 1 else 0 :: 'a word) i \<longleftrightarrow> cf \<and> i = 0"
  "k < LENGTH('a) \<Longrightarrow> bit (push_bit k (if cf then 1 else 0 :: 'a word)) i \<longleftrightarrow> cf \<and> i = k" for v :: "'a::len word"
  unfolding bit_push_bit_iff bit_drop_bit_eq by (auto simp: bit_1_iff)

lemma rc_inverse:
  fixes v :: "'a::len word"
  assumes "Suc k = LENGTH('a)"
  shows "drop_bit 1 (push_bit 1 v OR (if cf then 1 else 0)) OR push_bit k (if bit v k then 1 else 0) = v"
    "bit (push_bit 1 v OR (if cf then 1 else 0)) 0 = cf"
    "push_bit 1 (drop_bit 1 v OR push_bit k (if cf then 1 else 0)) OR (if bit v 0 then 1 else 0) = v"
    "bit (drop_bit 1 v OR push_bit k (if cf then 1 else 0)) k = cf"
proof -
  have k: "k < LENGTH('a)" using assms by simp
  have top: "\<not> bit v (Suc k)" using bit_imp_le_length [of v "Suc k"] assms by auto
  show "drop_bit 1 (push_bit 1 v OR (if cf then 1 else 0)) OR push_bit k (if bit v k then 1 else 0) = v"
  proof (rule bit_word_eqI)
    fix i assume "i < LENGTH('a)"
    then show "bit (drop_bit 1 (push_bit 1 v OR (if cf then 1 else 0)) OR push_bit k (if bit v k then 1 else 0)) i = bit v i"
      unfolding bit_or_iff rc_bits(2) unfolding bit_or_iff rc_bits(1,3) rc_bits(4) [OF k]
      using assms by (cases "i = k") auto
  qed
  show "bit (push_bit 1 v OR (if cf then 1 else 0)) 0 = cf" unfolding bit_or_iff rc_bits(1,3) by simp
  show "push_bit 1 (drop_bit 1 v OR push_bit k (if cf then 1 else 0)) OR (if bit v 0 then 1 else 0) = v"
  proof (rule bit_word_eqI)
    fix i assume "i < LENGTH('a)"
    then show "bit (push_bit 1 (drop_bit 1 v OR push_bit k (if cf then 1 else 0)) OR (if bit v 0 then 1 else 0)) i = bit v i"
      unfolding bit_or_iff rc_bits(1-3) rc_bits(4) [OF k] using assms by (cases i) (auto simp del: bit_0)
  qed
  show "bit (drop_bit 1 v OR push_bit k (if cf then 1 else 0)) k = cf"
    unfolding bit_or_iff rc_bits(2) rc_bits(4) [OF k] using top by simp
qed

lemma funpow_inverse: "(\<And>x. g (f x) = x) \<Longrightarrow> (g ^^ k) ((f ^^ k) x) = x" for f g :: "'a \<Rightarrow> 'a"
  by (induction k arbitrary: x) (simp_all add: funpow_swap1)

definition rcl_step8 :: "u8 \<times> bool \<Rightarrow> u8 \<times> bool" where
  "rcl_step8 = (\<lambda>(v, cf). (push_bit 1 v OR (if cf then 1 else 0), v AND 0x80 \<noteq> 0))"

definition rcr_step8 :: "u8 \<times> bool \<Rightarrow> u8 \<times> bool" where
  "rcr_step8 = (\<lambda>(v, cf). (drop_bit 1 v OR push_bit (8 - 1) (if cf then 1 else 0), v AND 1 \<noteq> 0))"

lemma rcl_loop8: "rcl_loop8 k v cf = (rcl_step8 ^^ k) (v, cf)" "rcr_loop8 k v cf = (rcr_step8 ^^ k) (v, cf)"
  by (induction k arbitrary: v cf) (simp_all add: rcl_step8_def rcr_step8_def funpow_swap1)

lemma rc_steps8: "rcr_step8 (rcl_step8 x) = x" "rcl_step8 (rcr_step8 x) = x"
proof -
  obtain v cf where x: "x = (v, cf)" by fastforce
  have m: "v AND 0x80 \<noteq> 0 \<longleftrightarrow> bit v (8 - 1)" for v :: u8
    using and_exp_eq_0_iff_not_bit [of v "8 - 1"] by simp
  have o: "v AND 1 \<noteq> 0 \<longleftrightarrow> bit v 0" for v :: u8
    by (simp add: and_one_eq mod_2_eq_odd bit_0)
  note rc = rc_inverse [of "8 - 1" v cf]
  show "rcr_step8 (rcl_step8 x) = x" "rcl_step8 (rcr_step8 x) = x"
    unfolding x rcl_step8_def rcr_step8_def case_prod_conv m o using rc by simp_all
qed

definition rcl_step16 :: "u16 \<times> bool \<Rightarrow> u16 \<times> bool" where
  "rcl_step16 = (\<lambda>(v, cf). (push_bit 1 v OR (if cf then 1 else 0), v AND 0x8000 \<noteq> 0))"

definition rcr_step16 :: "u16 \<times> bool \<Rightarrow> u16 \<times> bool" where
  "rcr_step16 = (\<lambda>(v, cf). (drop_bit 1 v OR push_bit (16 - 1) (if cf then 1 else 0), v AND 1 \<noteq> 0))"

lemma rcl_loop16: "rcl_loop16 k v cf = (rcl_step16 ^^ k) (v, cf)" "rcr_loop16 k v cf = (rcr_step16 ^^ k) (v, cf)"
  by (induction k arbitrary: v cf) (simp_all add: rcl_step16_def rcr_step16_def funpow_swap1)

lemma rc_steps16: "rcr_step16 (rcl_step16 x) = x" "rcl_step16 (rcr_step16 x) = x"
proof -
  obtain v cf where x: "x = (v, cf)" by fastforce
  have m: "v AND 0x8000 \<noteq> 0 \<longleftrightarrow> bit v (16 - 1)" for v :: u16
    using and_exp_eq_0_iff_not_bit [of v "16 - 1"] by simp
  have o: "v AND 1 \<noteq> 0 \<longleftrightarrow> bit v 0" for v :: u16
    by (simp add: and_one_eq mod_2_eq_odd bit_0)
  note rc = rc_inverse [of "16 - 1" v cf]
  show "rcr_step16 (rcl_step16 x) = x" "rcl_step16 (rcr_step16 x) = x"
    unfolding x rcl_step16_def rcr_step16_def case_prod_conv m o using rc by simp_all
qed

definition rcl_step32 :: "u32 \<times> bool \<Rightarrow> u32 \<times> bool" where
  "rcl_step32 = (\<lambda>(v, cf). (push_bit 1 v OR (if cf then 1 else 0), v AND 0x80000000 \<noteq> 0))"

definition rcr_step32 :: "u32 \<times> bool \<Rightarrow> u32 \<times> bool" where
  "rcr_step32 = (\<lambda>(v, cf). (drop_bit 1 v OR push_bit (32 - 1) (if cf then 1 else 0), v AND 1 \<noteq> 0))"

lemma rcl_loop32: "rcl_loop32 k v cf = (rcl_step32 ^^ k) (v, cf)" "rcr_loop32 k v cf = (rcr_step32 ^^ k) (v, cf)"
  by (induction k arbitrary: v cf) (simp_all add: rcl_step32_def rcr_step32_def funpow_swap1)

lemma rc_steps32: "rcr_step32 (rcl_step32 x) = x" "rcl_step32 (rcr_step32 x) = x"
proof -
  obtain v cf where x: "x = (v, cf)" by fastforce
  have m: "v AND 0x80000000 \<noteq> 0 \<longleftrightarrow> bit v (32 - 1)" for v :: u32
    using and_exp_eq_0_iff_not_bit [of v "32 - 1"] by simp
  have o: "v AND 1 \<noteq> 0 \<longleftrightarrow> bit v 0" for v :: u32
    by (simp add: and_one_eq mod_2_eq_odd bit_0)
  note rc = rc_inverse [of "32 - 1" v cf]
  show "rcr_step32 (rcl_step32 x) = x" "rcl_step32 (rcr_step32 x) = x"
    unfolding x rcl_step32_def rcr_step32_def case_prod_conv m o using rc by simp_all
qed

lemma has_rc:
  "has (if b then set_flag (set_flag c CF cf) OF ov else set_flag c CF cf) CF = cf"
  by (simp add: has_flags bit_set_flags)

lemma rc_compose:
  assumes "\<And>c v. \<exists>c'. f c v = (Inr (fst (lf v (has c CF))), c') \<and> has c' CF = snd (lf v (has c CF))"
    and "\<And>c v. \<exists>c'. g c v = (Inr (fst (lg v (has c CF))), c') \<and> has c' CF = snd (lg v (has c CF))"
    and "(case lf v (has c CF) of (w, cf') \<Rightarrow> lg w cf') = (v, has c CF)"
  shows "\<exists>w c1 c2. f c v = (Inr w, c1) \<and> g c1 w = (Inr v, c2) \<and> has c2 CF = has c CF"
proof -
  obtain c1 where 1: "f c v = (Inr (fst (lf v (has c CF))), c1)" "has c1 CF = snd (lf v (has c CF))"
    using assms(1) by blast
  obtain c2 where "g c1 (fst (lf v (has c CF))) = (Inr (fst (lg (fst (lf v (has c CF))) (has c1 CF))), c2)"
    "has c2 CF = snd (lg (fst (lf v (has c CF))) (has c1 CF))"
    using assms(2) by blast
  then show ?thesis using 1 assms(3) by (simp add: case_prod_beta)
qed

lemma rc_loop_inverse8:
  "(case rcl_loop8 k v cf of (w, cf') \<Rightarrow> rcr_loop8 k w cf') = (v, cf)"
  "(case rcr_loop8 k v cf of (w, cf') \<Rightarrow> rcl_loop8 k w cf') = (v, cf)"
  using funpow_inverse [of rcr_step8 rcl_step8 k "(v, cf)"] funpow_inverse [of rcl_step8 rcr_step8 k "(v, cf)"]
  by (simp_all add: rcl_loop8 rc_steps8 split: prod.split)

lemma rc_apply8_form:
  assumes "k AND 0x1F \<noteq> 0"
  shows "\<exists>c'. shift_apply8 c 2 v k = (Inr (fst (rcl_loop8 (unat (k AND 0x1F) mod 9) v (has c CF))), c') \<and>
      has c' CF = snd (rcl_loop8 (unat (k AND 0x1F) mod 9) v (has c CF))"
    "\<exists>c'. shift_apply8 c 3 v k = (Inr (fst (rcr_loop8 (unat (k AND 0x1F) mod 9) v (has c CF))), c') \<and>
      has c' CF = snd (rcr_loop8 (unat (k AND 0x1F) mod 9) v (has c CF))"
  using assms unfolding shift_apply8_def Let_def case_prod_beta by (simp_all add: has_rc)

lemma rc_apply8:
  "\<exists>w c1 c2. shift_apply8 c 2 v k = (Inr w, c1) \<and> shift_apply8 c1 3 w k = (Inr v, c2) \<and> has c2 CF = has c CF"
  "\<exists>w c1 c2. shift_apply8 c 3 v k = (Inr w, c1) \<and> shift_apply8 c1 2 w k = (Inr v, c2) \<and> has c2 CF = has c CF"
proof -
  note l = rc_loop_inverse8 [of "unat (k AND 0x1F) mod 9" v "has c CF"]
  have zero: "shift_apply8 c sub v k = (Inr v, c)" if "k AND 0x1F = 0" for sub
    using that by (simp add: shift_apply8_def)
  show "\<exists>w c1 c2. shift_apply8 c 2 v k = (Inr w, c1) \<and> shift_apply8 c1 3 w k = (Inr v, c2) \<and> has c2 CF = has c CF"
    using zero rc_compose [where f = "\<lambda>c v. shift_apply8 c 2 v k" and g = "\<lambda>c v. shift_apply8 c 3 v k",
      OF rc_apply8_form(1) rc_apply8_form(2) l(1)] by (cases "k AND 0x1F = 0") simp_all
  show "\<exists>w c1 c2. shift_apply8 c 3 v k = (Inr w, c1) \<and> shift_apply8 c1 2 w k = (Inr v, c2) \<and> has c2 CF = has c CF"
    using zero rc_compose [where f = "\<lambda>c v. shift_apply8 c 3 v k" and g = "\<lambda>c v. shift_apply8 c 2 v k",
      OF rc_apply8_form(2) rc_apply8_form(1) l(2)] by (cases "k AND 0x1F = 0") simp_all
qed

lemma ro_apply8:
  "\<exists>w c1 c2. shift_apply8 c 0 v k = (Inr w, c1) \<and> shift_apply8 c1 1 w k = (Inr v, c2)"
  by (cases "k AND 0x1F = 0") (auto simp: shift_apply8_def Let_def)

lemma rc_loop_inverse16:
  "(case rcl_loop16 k v cf of (w, cf') \<Rightarrow> rcr_loop16 k w cf') = (v, cf)"
  "(case rcr_loop16 k v cf of (w, cf') \<Rightarrow> rcl_loop16 k w cf') = (v, cf)"
  using funpow_inverse [of rcr_step16 rcl_step16 k "(v, cf)"] funpow_inverse [of rcl_step16 rcr_step16 k "(v, cf)"]
  by (simp_all add: rcl_loop16 rc_steps16 split: prod.split)

lemma rc_apply16_form:
  assumes "k AND 0x1F \<noteq> 0"
  shows "\<exists>c'. shift_apply16 c 2 v k = (Inr (fst (rcl_loop16 (unat (k AND 0x1F) mod 17) v (has c CF))), c') \<and>
      has c' CF = snd (rcl_loop16 (unat (k AND 0x1F) mod 17) v (has c CF))"
    "\<exists>c'. shift_apply16 c 3 v k = (Inr (fst (rcr_loop16 (unat (k AND 0x1F) mod 17) v (has c CF))), c') \<and>
      has c' CF = snd (rcr_loop16 (unat (k AND 0x1F) mod 17) v (has c CF))"
  using assms unfolding shift_apply16_def Let_def case_prod_beta by (simp_all add: has_rc)

lemma rc_apply16:
  "\<exists>w c1 c2. shift_apply16 c 2 v k = (Inr w, c1) \<and> shift_apply16 c1 3 w k = (Inr v, c2) \<and> has c2 CF = has c CF"
  "\<exists>w c1 c2. shift_apply16 c 3 v k = (Inr w, c1) \<and> shift_apply16 c1 2 w k = (Inr v, c2) \<and> has c2 CF = has c CF"
proof -
  note l = rc_loop_inverse16 [of "unat (k AND 0x1F) mod 17" v "has c CF"]
  have zero: "shift_apply16 c sub v k = (Inr v, c)" if "k AND 0x1F = 0" for sub
    using that by (simp add: shift_apply16_def)
  show "\<exists>w c1 c2. shift_apply16 c 2 v k = (Inr w, c1) \<and> shift_apply16 c1 3 w k = (Inr v, c2) \<and> has c2 CF = has c CF"
    using zero rc_compose [where f = "\<lambda>c v. shift_apply16 c 2 v k" and g = "\<lambda>c v. shift_apply16 c 3 v k",
      OF rc_apply16_form(1) rc_apply16_form(2) l(1)] by (cases "k AND 0x1F = 0") simp_all
  show "\<exists>w c1 c2. shift_apply16 c 3 v k = (Inr w, c1) \<and> shift_apply16 c1 2 w k = (Inr v, c2) \<and> has c2 CF = has c CF"
    using zero rc_compose [where f = "\<lambda>c v. shift_apply16 c 3 v k" and g = "\<lambda>c v. shift_apply16 c 2 v k",
      OF rc_apply16_form(2) rc_apply16_form(1) l(2)] by (cases "k AND 0x1F = 0") simp_all
qed

lemma ro_apply16:
  "\<exists>w c1 c2. shift_apply16 c 0 v k = (Inr w, c1) \<and> shift_apply16 c1 1 w k = (Inr v, c2)"
  by (cases "k AND 0x1F = 0") (auto simp: shift_apply16_def Let_def)

lemma rc_loop_inverse32:
  "(case rcl_loop32 k v cf of (w, cf') \<Rightarrow> rcr_loop32 k w cf') = (v, cf)"
  "(case rcr_loop32 k v cf of (w, cf') \<Rightarrow> rcl_loop32 k w cf') = (v, cf)"
  using funpow_inverse [of rcr_step32 rcl_step32 k "(v, cf)"] funpow_inverse [of rcl_step32 rcr_step32 k "(v, cf)"]
  by (simp_all add: rcl_loop32 rc_steps32 split: prod.split)

lemma rc_apply32_form:
  assumes "k AND 0x1F \<noteq> 0"
  shows "\<exists>c'. shift_apply32 c 2 v k = (Inr (fst (rcl_loop32 (unat (k AND 0x1F) mod 33) v (has c CF))), c') \<and>
      has c' CF = snd (rcl_loop32 (unat (k AND 0x1F) mod 33) v (has c CF))"
    "\<exists>c'. shift_apply32 c 3 v k = (Inr (fst (rcr_loop32 (unat (k AND 0x1F) mod 33) v (has c CF))), c') \<and>
      has c' CF = snd (rcr_loop32 (unat (k AND 0x1F) mod 33) v (has c CF))"
  using assms unfolding shift_apply32_def Let_def case_prod_beta by (simp_all add: has_rc)

lemma rc_apply32:
  "\<exists>w c1 c2. shift_apply32 c 2 v k = (Inr w, c1) \<and> shift_apply32 c1 3 w k = (Inr v, c2) \<and> has c2 CF = has c CF"
  "\<exists>w c1 c2. shift_apply32 c 3 v k = (Inr w, c1) \<and> shift_apply32 c1 2 w k = (Inr v, c2) \<and> has c2 CF = has c CF"
proof -
  note l = rc_loop_inverse32 [of "unat (k AND 0x1F) mod 33" v "has c CF"]
  have zero: "shift_apply32 c sub v k = (Inr v, c)" if "k AND 0x1F = 0" for sub
    using that by (simp add: shift_apply32_def)
  show "\<exists>w c1 c2. shift_apply32 c 2 v k = (Inr w, c1) \<and> shift_apply32 c1 3 w k = (Inr v, c2) \<and> has c2 CF = has c CF"
    using zero rc_compose [where f = "\<lambda>c v. shift_apply32 c 2 v k" and g = "\<lambda>c v. shift_apply32 c 3 v k",
      OF rc_apply32_form(1) rc_apply32_form(2) l(1)] by (cases "k AND 0x1F = 0") simp_all
  show "\<exists>w c1 c2. shift_apply32 c 3 v k = (Inr w, c1) \<and> shift_apply32 c1 2 w k = (Inr v, c2) \<and> has c2 CF = has c CF"
    using zero rc_compose [where f = "\<lambda>c v. shift_apply32 c 3 v k" and g = "\<lambda>c v. shift_apply32 c 2 v k",
      OF rc_apply32_form(2) rc_apply32_form(1) l(2)] by (cases "k AND 0x1F = 0") simp_all
qed

lemma ro_apply32:
  "\<exists>w c1 c2. shift_apply32 c 0 v k = (Inr w, c1) \<and> shift_apply32 c1 1 w k = (Inr v, c2)"
  by (cases "k AND 0x1F = 0") (auto simp: shift_apply32_def Let_def)

text \<open>
  The rotates are inverse to each other at every width and for every count byte, masked counts
  beyond the operand's width included: RCL followed by RCR (or RCR by RCL) with the same count
  gives back the operand and the carry flag, as rotation through carry moves width + 1 bits, and
  ROL followed by ROR gives back the operand. None of them is an unimplemented encoding.
\<close>
theorem rotate_inverse:
  "(\<exists>w c1 c2. shift_apply8 c 2 v8 k = (Inr w, c1) \<and> shift_apply8 c1 3 w k = (Inr v8, c2) \<and> has c2 CF = has c CF) \<and>
   (\<exists>w c1 c2. shift_apply16 c 2 v16 k = (Inr w, c1) \<and> shift_apply16 c1 3 w k = (Inr v16, c2) \<and> has c2 CF = has c CF) \<and>
   (\<exists>w c1 c2. shift_apply32 c 2 v32 k = (Inr w, c1) \<and> shift_apply32 c1 3 w k = (Inr v32, c2) \<and> has c2 CF = has c CF) \<and>
   (\<exists>w c1 c2. shift_apply8 c 3 v8 k = (Inr w, c1) \<and> shift_apply8 c1 2 w k = (Inr v8, c2) \<and> has c2 CF = has c CF) \<and>
   (\<exists>w c1 c2. shift_apply16 c 3 v16 k = (Inr w, c1) \<and> shift_apply16 c1 2 w k = (Inr v16, c2) \<and> has c2 CF = has c CF) \<and>
   (\<exists>w c1 c2. shift_apply32 c 3 v32 k = (Inr w, c1) \<and> shift_apply32 c1 2 w k = (Inr v32, c2) \<and> has c2 CF = has c CF) \<and>
   (\<exists>w c1 c2. shift_apply8 c 0 v8 k = (Inr w, c1) \<and> shift_apply8 c1 1 w k = (Inr v8, c2)) \<and>
   (\<exists>w c1 c2. shift_apply16 c 0 v16 k = (Inr w, c1) \<and> shift_apply16 c1 1 w k = (Inr v16, c2)) \<and>
   (\<exists>w c1 c2. shift_apply32 c 0 v32 k = (Inr w, c1) \<and> shift_apply32 c1 1 w k = (Inr v32, c2))"
  by (intro conjI rc_apply8 rc_apply16 rc_apply32 ro_apply8 ro_apply16 ro_apply32)

end
