(* ===== verification/CpuPaging.thy ===== *)
theory CpuPaging
  imports CpuState Memory
begin

unbundle bit_operations_syntax

text \<open>
  Address translation and memory access of the CPU (\<^verbatim>\<open>crates/cpu/src/lib.rs\<close>): the two-level page
  walk, the three translation caches, the pending page fault and the paging-aware accesses with their
  same-page fast paths.  The Rust methods take \<^verbatim>\<open>&self\<close> and change the caches and the fault
  slot through \<^verbatim>\<open>Cell\<close>s; here they return the changed CPU.  The lemmas show that the caches are
  transparent: a translation through them is the page walk of a reference definition written with
  bits and arithmetic, and the fast paths are byte-wise accesses through that walk.
\<close>

section \<open>Translation\<close>

definition raise_fault :: "cpu \<Rightarrow> u32 \<Rightarrow> u32 \<Rightarrow> cpu" where
  "raise_fault c addr ec =
     (case pending_fault c of None \<Rightarrow> c\<lparr>pending_fault := Some \<lparr>pf_addr = addr, pf_error_code = ec\<rparr>\<rparr> | Some _ \<Rightarrow> c)"

definition take_pending_fault :: "cpu \<Rightarrow> page_fault option \<times> cpu" where
  "take_pending_fault c = (pending_fault c, c\<lparr>pending_fault := None\<rparr>)"

definition a20_gate :: "cpu \<Rightarrow> u32 \<Rightarrow> u32" where
  "a20_gate c phys = (if a20 c then phys else phys AND 0xFFEFFFFF)"

definition translate_inner :: "cpu \<Rightarrow> memory \<Rightarrow> u32 \<Rightarrow> access_kind \<Rightarrow> u32 \<times> cpu" where
  "translate_inner c m lin access =
     (if cr0 c AND 0x80000000 = 0 then (a20_gate c lin, c)
      else
        (let pd_index = drop_bit 22 lin AND 0x3FF; pt_index = drop_bit 12 lin AND 0x3FF;
             page_offset = lin AND 0xFFF; pd_base = cr3 c AND 0xFFFFF000;
             pde = read_u32 m (pd_base + pd_index * 4);
             wr = (access = Write); w_bit = (if wr then 2 else 0);
             id_bit = (if access = Fetch then 0x10 else 0);
             us_bit = (if cr0 c AND 1 \<noteq> 0 \<and> sregs c ! CS AND 3 = 3 then 4 else 0);
             extra = (w_bit OR id_bit) OR us_bit
         in if pde AND 1 = 0 then (0, raise_fault c lin extra)
            else if cr4 c AND 0x10 \<noteq> 0 \<and> pde AND 0x80 \<noteq> 0 then
              (if wr \<and> cr0 c AND 0x00010000 \<noteq> 0 \<and> pde AND 2 = 0 then (0, raise_fault c lin (extra OR 1))
               else (a20_gate c ((pde AND 0xFFC00000) OR (lin AND 0x003FFFFF)), c))
            else
              (let pt_base = pde AND 0xFFFFF000; pte = read_u32 m (pt_base + pt_index * 4) in
               if pte AND 1 = 0 then (0, raise_fault c lin extra)
               else
                 (let effective_rw = (pde AND 2) AND (pte AND 2) in
                  if wr \<and> cr0 c AND 0x00010000 \<noteq> 0 \<and> effective_rw = 0 then (0, raise_fault c lin (extra OR 1))
                  else (a20_gate c ((pte AND 0xFFFFF000) OR page_offset), c)))))"

definition translate :: "cpu \<Rightarrow> memory \<Rightarrow> u32 \<Rightarrow> u32 \<times> cpu" where
  "translate c m lin =
     (if cr0 c AND 0x80000000 = 0 then (if a20 c then lin else lin AND 0xFFEFFFFF, c)
      else
        (let page = lin AND 0xFFFFF000; i = rw_tlb_index page;
             walk = (let (phys, c1) = translate_inner c m lin Read in
               (phys, if pending_fault c1 = None
                      then c1\<lparr>read_tlb := (read_tlb c1)[i := Some (page, phys AND 0xFFFFF000, a20 c)]\<rparr> else c1))
         in case read_tlb c ! i of
              Some (cached_page, cached_frame, cached_a20) \<Rightarrow>
                (if cached_page = page \<and> cached_a20 = a20 c then (cached_frame OR (lin AND 0xFFF), c) else walk)
            | None \<Rightarrow> walk))"

definition translate_write :: "cpu \<Rightarrow> memory \<Rightarrow> u32 \<Rightarrow> u32 \<times> cpu" where
  "translate_write c m lin =
     (if cr0 c AND 0x80000000 = 0 then (if a20 c then lin else lin AND 0xFFEFFFFF, c)
      else
        (let page = lin AND 0xFFFFF000; i = rw_tlb_index page;
             walk = (let (phys, c1) = translate_inner c m lin Write in
               (phys, if pending_fault c1 = None
                      then c1\<lparr>write_tlb := (write_tlb c1)[i := Some (page, phys AND 0xFFFFF000, a20 c)]\<rparr> else c1))
         in case write_tlb c ! i of
              Some (cached_page, cached_frame, cached_a20) \<Rightarrow>
                (if cached_page = page \<and> cached_a20 = a20 c then (cached_frame OR (lin AND 0xFFF), c) else walk)
            | None \<Rightarrow> walk))"

definition translate_fetch :: "cpu \<Rightarrow> memory \<Rightarrow> u32 \<Rightarrow> u32 \<times> cpu" where
  "translate_fetch c m lin =
     (if cr0 c AND 0x80000000 = 0 then (if a20 c then lin else lin AND 0xFFEFFFFF, c)
      else
        (let page = lin AND 0xFFFFF000;
             walk = (let (phys, c1) = translate_inner c m lin Fetch in
               (phys, if pending_fault c1 = None
                      then c1\<lparr>fetch_tlb := Some (page, phys AND 0xFFFFF000, a20 c)\<rparr> else c1))
         in case fetch_tlb c of
              Some (cached_page, cached_frame, cached_a20) \<Rightarrow>
                (if cached_page = page \<and> cached_a20 = a20 c then (cached_frame OR (lin AND 0xFFF), c) else walk)
            | None \<Rightarrow> walk))"

definition invalidate_fetch_tlb :: "cpu \<Rightarrow> cpu" where
  "invalidate_fetch_tlb c =
     c\<lparr>fetch_tlb := None, read_tlb := map (\<lambda>_. None) (read_tlb c), write_tlb := map (\<lambda>_. None) (write_tlb c)\<rparr>"

section \<open>Paging-aware accesses\<close>

definition mem_read_u8 :: "cpu \<Rightarrow> memory \<Rightarrow> u32 \<Rightarrow> u8 \<times> cpu" where
  "mem_read_u8 c m lin =
     (if pending_fault c \<noteq> None then (0, c)
      else (let (phys, c1) = translate c m lin in (read_u8 m phys, c1)))"

definition mem_fetch_u8 :: "cpu \<Rightarrow> memory \<Rightarrow> u32 \<Rightarrow> u8 \<times> cpu" where
  "mem_fetch_u8 c m lin =
     (if pending_fault c \<noteq> None then (0, c)
      else (let (phys, c1) = translate_fetch c m lin in (read_code_u8 m phys, c1)))"

definition mem_write_u8 :: "cpu \<Rightarrow> memory \<Rightarrow> u32 \<Rightarrow> u8 \<Rightarrow> cpu \<times> memory" where
  "mem_write_u8 c m lin v =
     (let had_fault = (pending_fault c \<noteq> None); (phys, c1) = translate_write c m lin in
      if had_fault \<or> pending_fault c1 \<noteq> None then (c1, m) else (c1, write_u8 m phys v))"

definition mem_read_u16 :: "cpu \<Rightarrow> memory \<Rightarrow> u32 \<Rightarrow> u16 \<times> cpu" where
  "mem_read_u16 c m lin =
     (if lin AND 0xFFF = 0xFFF then
        (let (lo, c1) = mem_read_u8 c m lin; (hi, c2) = mem_read_u8 c1 m (lin + 1)
         in (ucast lo OR push_bit 8 (ucast hi), c2))
      else if pending_fault c \<noteq> None then (0, c)
      else
        (let (phys, c1) = translate c m lin in
         if pending_fault c1 \<noteq> None then (0, c1)
         else (case read_ram_u16 m phys of Some v \<Rightarrow> v
               | None \<Rightarrow> ucast (read_u8 m phys) OR push_bit 8 (ucast (read_u8 m (phys + 1))), c1)))"

definition mem_read_u32 :: "cpu \<Rightarrow> memory \<Rightarrow> u32 \<Rightarrow> u32 \<times> cpu" where
  "mem_read_u32 c m lin =
     (if 0xFFC < lin AND 0xFFF then
        (let (lo, c1) = mem_read_u16 c m lin; (hi, c2) = mem_read_u16 c1 m (lin + 2)
         in (ucast lo OR push_bit 16 (ucast hi), c2))
      else if pending_fault c \<noteq> None then (0, c)
      else
        (let (phys, c1) = translate c m lin in
         if pending_fault c1 \<noteq> None then (0, c1)
         else (case read_ram_u32 m phys of Some v \<Rightarrow> v
               | None \<Rightarrow> ((ucast (read_u8 m phys) OR push_bit 8 (ucast (read_u8 m (phys + 1)))) OR
                   push_bit 16 (ucast (read_u8 m (phys + 2)))) OR push_bit 24 (ucast (read_u8 m (phys + 3))), c1)))"

fun mem_write_bytes :: "cpu \<Rightarrow> memory \<Rightarrow> u32 \<Rightarrow> bytes \<Rightarrow> cpu \<times> memory" where
  "mem_write_bytes c m lin [] = (c, m)"
| "mem_write_bytes c m lin (b # bs) =
     (let (c1, m1) = mem_write_u8 c m lin b in mem_write_bytes c1 m1 (lin + 1) bs)"

definition mem_write_aligned :: "cpu \<Rightarrow> memory \<Rightarrow> u32 \<Rightarrow> bytes \<Rightarrow> cpu \<times> memory" where
  "mem_write_aligned c m lin bs =
     (let len = of_nat (length bs) :: u32; page_off = lin AND 0xFFF in
      if page_off + len \<le> 0x1000 then
        (let had_fault = (pending_fault c \<noteq> None); (phys_base, c1) = translate_write c m lin in
         if had_fault \<or> pending_fault c1 \<noteq> None then (c1, m)
         else (let (m1, done) = write_ram_bulk m phys_base bs in
               (c1, if done then m1 else write_u8_seq m1 phys_base bs)))
      else mem_write_bytes c m lin bs)"

definition mem_write_u16 :: "cpu \<Rightarrow> memory \<Rightarrow> u32 \<Rightarrow> u16 \<Rightarrow> cpu \<times> memory" where
  "mem_write_u16 c m lin v = mem_write_aligned c m lin (le16 v)"

definition mem_write_u32 :: "cpu \<Rightarrow> memory \<Rightarrow> u32 \<Rightarrow> u32 \<Rightarrow> cpu \<times> memory" where
  "mem_write_u32 c m lin v = mem_write_aligned c m lin (le32 v)"

section \<open>The reference page walk\<close>

text \<open>
  The mapping the page tables describe, with table indices by division and flags as bits.  A linear
  address is mapped for an access when its directory entry is present and either names a 4 MiB page
  or a table whose entry is present, and when a write under CR0.WP finds every level writable.
\<close>

definition paging_on :: "cpu \<Rightarrow> bool" where "paging_on c \<longleftrightarrow> bit (cr0 c) 31"

definition dir_entry :: "cpu \<Rightarrow> memory \<Rightarrow> u32 \<Rightarrow> u32" where
  "dir_entry c m l = read_u32 m (4096 * (cr3 c div 4096) + 4 * (l div 2 ^ 22))"

definition table_entry :: "memory \<Rightarrow> u32 \<Rightarrow> u32 \<Rightarrow> u32" where
  "table_entry m pde l = read_u32 m (4096 * (pde div 4096) + 4 * (l div 2 ^ 12 mod 2 ^ 10))"

definition write_blocked :: "cpu \<Rightarrow> access_kind \<Rightarrow> bool \<Rightarrow> bool" where
  "write_blocked c a writable \<longleftrightarrow> a = Write \<and> bit (cr0 c) 16 \<and> \<not> writable"

definition large_page :: "cpu \<Rightarrow> u32 \<Rightarrow> bool" where "large_page c pde \<longleftrightarrow> bit (cr4 c) 4 \<and> bit pde 7"

definition page_frame :: "cpu \<Rightarrow> memory \<Rightarrow> access_kind \<Rightarrow> u32 \<Rightarrow> u32 option" where
  "page_frame c m a l =
     (let pde = dir_entry c m l; pte = table_entry m pde l in
      if \<not> bit pde 0 then None
      else if large_page c pde then
        (if write_blocked c a (bit pde 1) then None else Some (2 ^ 22 * (pde div 2 ^ 22) + l mod 2 ^ 22))
      else if \<not> bit pte 0 \<or> write_blocked c a (bit pde 1 \<and> bit pte 1) then None
      else Some (4096 * (pte div 4096) + l mod 4096))"

definition page_map :: "cpu \<Rightarrow> memory \<Rightarrow> access_kind \<Rightarrow> u32 \<Rightarrow> u32 option" where
  "page_map c m a l =
     map_option (\<lambda>p. if a20 c then p else unset_bit 20 p) (if paging_on c then page_frame c m a l else Some l)"

text \<open>The error code of the fault: not present or protected, write, user mode, instruction fetch.\<close>

definition fault_protected :: "cpu \<Rightarrow> memory \<Rightarrow> u32 \<Rightarrow> bool" where
  "fault_protected c m l \<longleftrightarrow>
     bit (dir_entry c m l) 0 \<and>
     (large_page c (dir_entry c m l) \<or> bit (table_entry m (dir_entry c m l) l) 0)"

definition user_mode :: "cpu \<Rightarrow> bool" where "user_mode c \<longleftrightarrow> bit (cr0 c) 0 \<and> sregs c ! CS mod 4 = 3"

definition fault_code :: "cpu \<Rightarrow> memory \<Rightarrow> access_kind \<Rightarrow> u32 \<Rightarrow> u32" where
  "fault_code c m a l =
     of_bool (fault_protected c m l) + 2 * of_bool (a = Write) + 4 * of_bool (user_mode c) + 16 * of_bool (a = Fetch)"

definition page_fault_of :: "cpu \<Rightarrow> memory \<Rightarrow> access_kind \<Rightarrow> u32 \<Rightarrow> page_fault" where
  "page_fault_of c m a l = \<lparr>pf_addr = l, pf_error_code = fault_code c m a l\<rparr>"

section \<open>The walk refines the reference\<close>

lemma word_masks:
  fixes x :: u32
  shows "x AND 0xFFFFF000 = 4096 * (x div 4096)" "x AND 0xFFF = x mod 4096"
    "x AND 0xFFC00000 = 2 ^ 22 * (x div 2 ^ 22)" "x AND 0x003FFFFF = x mod 2 ^ 22"
    "drop_bit 12 x AND 0x3FF = x div 2 ^ 12 mod 2 ^ 10" "x AND 0xFFEFFFFF = unset_bit 20 x"
proof -
  have m: "(0xFFFFF000 :: u32) = NOT (mask 12)" "(0xFFF :: u32) = mask 12" "(0xFFC00000 :: u32) = NOT (mask 22)"
    "(0x003FFFFF :: u32) = mask 22" "(0x3FF :: u32) = mask 10" "(0xFFEFFFFF :: u32) = NOT (push_bit 20 1)"
    by (simp_all add: mask_numeral)
  have d: "x AND NOT (mask n) = 2 ^ n * (x div 2 ^ n)" for n
  proof -
    have "x AND NOT (mask n) = push_bit n (drop_bit n x)"
      by (rule bit_word_eqI) (auto simp: bit_simps)
    then show ?thesis by (simp add: push_bit_eq_mult drop_bit_eq_div)
  qed
  show "x AND 0xFFFFF000 = 4096 * (x div 4096)" using d [of 12] by (simp add: m)
  show "x AND 0xFFC00000 = 2 ^ 22 * (x div 2 ^ 22)" using d [of 22] by (simp add: m)
  show "x AND 0xFFF = x mod 4096" "x AND 0x003FFFFF = x mod 2 ^ 22" "drop_bit 12 x AND 0x3FF = x div 2 ^ 12 mod 2 ^ 10"
    unfolding m take_bit_eq_mask [symmetric] by (simp_all add: take_bit_eq_mod drop_bit_eq_div)
  show "x AND 0xFFEFFFFF = unset_bit 20 x" unfolding m by (simp add: unset_bit_eq_and_not)
qed

lemma top_index: "drop_bit 22 l AND 0x3FF = l div 2 ^ 22" for l :: u32
proof -
  have "drop_bit 22 l AND mask 10 = drop_bit 22 l"
    by (rule bit_word_eqI) (auto simp: bit_simps dest: bit_imp_le_length)
  then show ?thesis by (simp add: mask_numeral drop_bit_eq_div)
qed

lemma flag_masks:
  fixes x :: u32
  shows "x AND 0x80000000 = 0 \<longleftrightarrow> \<not> bit x 31" "x AND 0x00010000 = 0 \<longleftrightarrow> \<not> bit x 16" "x AND 0x10 = 0 \<longleftrightarrow> \<not> bit x 4"
    "x AND 0x80 = 0 \<longleftrightarrow> \<not> bit x 7" "x AND 2 = 0 \<longleftrightarrow> \<not> bit x 1" "x AND 1 = 0 \<longleftrightarrow> \<not> bit x 0"
  using and_exp_eq_0_iff_not_bit [of x 31] and_exp_eq_0_iff_not_bit [of x 16] and_exp_eq_0_iff_not_bit [of x 4]
    and_exp_eq_0_iff_not_bit [of x 7] and_exp_eq_0_iff_not_bit [of x 1] and_exp_eq_0_iff_not_bit [of x 0]
  by simp_all

lemma and_two_levels: "(x AND 2) AND (y AND 2) = 0 \<longleftrightarrow> \<not> (bit x 1 \<and> bit y 1)" for x y :: u32
proof -
  have "(x AND 2) AND (y AND 2) = (x AND y) AND 2" by (simp add: ac_simps)
  then show ?thesis by (simp add: flag_masks bit_and_iff)
qed

lemma join_frame:
  fixes f x :: u32
  shows "4096 * (f div 4096) OR x mod 4096 = 4096 * (f div 4096) + x mod 4096"
    "2 ^ 22 * (f div 2 ^ 22) OR x mod 2 ^ 22 = 2 ^ 22 * (f div 2 ^ 22) + x mod 2 ^ 22"
proof -
  have d: "2 ^ n * (f div 2 ^ n) OR x mod 2 ^ n = 2 ^ n * (f div 2 ^ n) + x mod 2 ^ n" for n
    by (rule disjunctive_add [symmetric])
      (simp add: push_bit_eq_mult [symmetric] drop_bit_eq_div [symmetric] take_bit_eq_mod [symmetric] bit_simps
        mult.commute [of "2 ^ n"])
  from d [of 12] show "4096 * (f div 4096) OR x mod 4096 = 4096 * (f div 4096) + x mod 4096" by simp
  from d [of 22] show "2 ^ 22 * (f div 2 ^ 22) OR x mod 2 ^ 22 = 2 ^ 22 * (f div 2 ^ 22) + x mod 2 ^ 22" .
qed

lemma a20_gate_eq: "a20_gate c p = (if a20 c then p else unset_bit 20 p)"
  by (simp add: a20_gate_def word_masks)

lemma page_map_gate:
  "page_map c m a l = map_option (a20_gate c) (if paging_on c then page_frame c m a l else Some l)"
  unfolding page_map_def a20_gate_eq [abs_def] ..

lemma cs_rpl: "(s :: u16) AND 3 = s mod 4"
  using take_bit_eq_mask [of 2 s] by (simp add: take_bit_eq_mod mask_numeral)

lemma fault_bits:
  "((if w then 2 else 0) OR (if f then 0x10 else 0)) OR (if u then 4 else (0 :: u32)) =
     2 * of_bool w + 4 * of_bool u + 16 * of_bool f"
  "(((if w then 2 else 0) OR (if f then 0x10 else 0)) OR (if u then 4 else (0 :: u32))) OR 1 =
     1 + 2 * of_bool w + 4 * of_bool u + 16 * of_bool f"
  by (cases w; cases f; cases u; simp)+

lemma translate_inner_walk:
  "translate_inner c m l a =
     (case page_map c m a l of Some p \<Rightarrow> (p, c) | None \<Rightarrow> (0, raise_fault c l (fault_code c m a l)))"
proof -
  have dir: "(cr3 c AND 0xFFFFF000) + (drop_bit 22 l AND 0x3FF) * 4 = 4096 * (cr3 c div 4096) + 4 * (l div 2 ^ 22)"
    unfolding word_masks(1) top_index by simp
  have tab: "(pde AND 0xFFFFF000) + (drop_bit 12 l AND 0x3FF) * 4 = 4096 * (pde div 4096) + 4 * (l div 2 ^ 12 mod 2 ^ 10)" for pde
    unfolding word_masks(1,5) by simp
  have w: "translate_inner c m l a =
    (if \<not> paging_on c then (a20_gate c l, c)
     else if \<not> bit pde 0 then (0, raise_fault c l e)
     else if large_page c pde then
       (if write_blocked c a (bit pde 1) then (0, raise_fault c l e')
        else (a20_gate c (2 ^ 22 * (pde div 2 ^ 22) + l mod 2 ^ 22), c))
     else if \<not> bit pte 0 then (0, raise_fault c l e)
     else if write_blocked c a (bit pde 1 \<and> bit pte 1) then (0, raise_fault c l e')
     else (a20_gate c (4096 * (pte div 4096) + l mod 4096), c))"
    if "pde = dir_entry c m l" "pte = table_entry m pde l"
      "e = 2 * of_bool (a = Write) + 4 * of_bool (user_mode c) + 16 * of_bool (a = Fetch)"
      "e' = 1 + 2 * of_bool (a = Write) + 4 * of_bool (user_mode c) + 16 * of_bool (a = Fetch)" for pde pte e e'
    unfolding that translate_inner_def Let_def
    unfolding dir unfolding dir_entry_def [symmetric] unfolding tab unfolding table_entry_def [symmetric]
    unfolding and_two_levels fault_bits(2)
    unfolding word_masks(1-4) flag_masks fault_bits(1) join_frame cs_rpl not_not large_page_def
      write_blocked_def user_mode_def [symmetric] paging_on_def [symmetric]
    by (rule refl)
  show ?thesis
    unfolding w [OF refl refl refl refl] page_map_gate page_frame_def Let_def fault_code_def fault_protected_def
    by (cases "paging_on c"; cases "bit (dir_entry c m l) 0"; cases "large_page c (dir_entry c m l)";
        cases "bit (table_entry m (dir_entry c m l) l) 0") simp_all
qed

section \<open>Pages\<close>

text \<open>A translation maps whole pages: the frame of the page, with the offset carried over.\<close>

abbreviation page_of :: "u32 \<Rightarrow> u32" where "page_of l \<equiv> l AND 0xFFFFF000"

lemma page_masks: "(0xFFFFF000 :: u32) = NOT (mask 12)" "(0xFFF :: u32) = mask 12" "(0xFFEFFFFF :: u32) = NOT (push_bit 20 1)"
  by (simp_all add: mask_numeral)

lemma page_split: "(q AND 0xFFFFF000) OR (q AND 0xFFF) = q" for q :: u32
  unfolding page_masks by (rule bit_word_eqI) (auto simp: bit_simps)

lemma page_div: "page_of l div 2 ^ 22 = l div 2 ^ 22" "page_of l div 2 ^ 12 = l div 2 ^ 12" for l :: u32
proof -
  have "drop_bit n (page_of l) = drop_bit n l" if "12 \<le> n" for n
    unfolding page_masks using that bit_imp_le_length [of l]
    by (auto intro!: bit_word_eqI simp: bit_drop_bit_eq bit_and_iff bit_not_iff bit_mask_iff)
  from this [of 22] this [of 12] show "page_of l div 2 ^ 22 = l div 2 ^ 22" "page_of l div 2 ^ 12 = l div 2 ^ 12"
    by (simp_all add: drop_bit_eq_div)
qed

lemma gate_page: "a20_gate c (page_of q) = page_of (a20_gate c q)" "a20_gate c q AND 0xFFF = q AND 0xFFF"
  unfolding a20_gate_eq page_masks(1,2) by (auto intro!: bit_word_eqI simp: bit_simps)

lemma frame_page:
  fixes f x :: u32
  shows "page_of (4096 * (f div 4096) + x mod 4096) = 4096 * (f div 4096) + page_of x mod 4096"
    "page_of (2 ^ 22 * (f div 2 ^ 22) + x mod 2 ^ 22) = 2 ^ 22 * (f div 2 ^ 22) + page_of x mod 2 ^ 22"
    "(4096 * (f div 4096) + x mod 4096) AND 0xFFF = x AND 0xFFF"
    "(2 ^ 22 * (f div 2 ^ 22) + x mod 2 ^ 22) AND 0xFFF = x AND 0xFFF"
proof -
  have d: "2 ^ n * (f div 2 ^ n) OR x mod 2 ^ n = push_bit n (drop_bit n f) OR take_bit n x" for n and x :: u32
    by (simp add: push_bit_eq_mult drop_bit_eq_div take_bit_eq_mod mult.commute)
  have e: "page_of (push_bit n (drop_bit n f) OR take_bit n x) = push_bit n (drop_bit n f) OR take_bit n (page_of x)"
    "(push_bit n (drop_bit n f) OR take_bit n x) AND 0xFFF = x AND 0xFFF" if "12 \<le> n" for n
    using that unfolding page_masks by (auto intro!: bit_word_eqI simp: bit_simps)
  show "page_of (4096 * (f div 4096) + x mod 4096) = 4096 * (f div 4096) + page_of x mod 4096"
    "(4096 * (f div 4096) + x mod 4096) AND 0xFFF = x AND 0xFFF"
    using e [of 12] d [of 12] d [of 12 "page_of x"] join_frame(1) by simp_all
  show "page_of (2 ^ 22 * (f div 2 ^ 22) + x mod 2 ^ 22) = 2 ^ 22 * (f div 2 ^ 22) + page_of x mod 2 ^ 22"
    "(2 ^ 22 * (f div 2 ^ 22) + x mod 2 ^ 22) AND 0xFFF = x AND 0xFFF"
    using e [of 22] d [of 22] d [of 22 "page_of x"] join_frame(2) by simp_all
qed

lemma entries_page: "dir_entry c m (page_of l) = dir_entry c m l" "table_entry m pde (page_of l) = table_entry m pde l"
  unfolding dir_entry_def table_entry_def page_div by (rule refl)+

lemma page_map_page: "page_map c m a (page_of l) = map_option page_of (page_map c m a l)"
proof -
  have "page_frame c m a (page_of l) = map_option page_of (page_frame c m a l)"
    unfolding page_frame_def entries_page Let_def by (simp only: frame_page if_distrib [of "map_option page_of"] option.map)
  then show ?thesis
    unfolding page_map_gate by (cases "page_frame c m a l") (simp_all add: gate_page)
qed

lemma page_map_offset: "page_map c m a l = Some q \<Longrightarrow> q AND 0xFFF = l AND 0xFFF"
  unfolding page_map_gate page_frame_def Let_def
  by (auto simp only: gate_page frame_page option.map option.inject option.distinct split: if_splits)

lemma page_map_cong:
  "cr0 c' = cr0 c \<Longrightarrow> cr3 c' = cr3 c \<Longrightarrow> cr4 c' = cr4 c \<Longrightarrow> a20 c' = a20 c \<Longrightarrow> page_map c' m a l = page_map c m a l"
  unfolding page_map_def page_frame_def paging_on_def dir_entry_def large_page_def write_blocked_def by (simp only:)

section \<open>Coherent translation caches\<close>

definition entry_ok :: "cpu \<Rightarrow> memory \<Rightarrow> access_kind \<Rightarrow> tlb_entry \<Rightarrow> bool" where
  "entry_ok c m a e \<longleftrightarrow> (case e of None \<Rightarrow> True | Some (page, frame, g) \<Rightarrow> page_map (c\<lparr>a20 := g\<rparr>) m a page = Some frame)"

definition tlb_coherent :: "cpu \<Rightarrow> memory \<Rightarrow> bool" where
  "tlb_coherent c m \<longleftrightarrow> paging_on c \<longrightarrow>
     list_all (entry_ok c m Read) (read_tlb c) \<and> list_all (entry_ok c m Write) (write_tlb c) \<and>
     entry_ok c m Fetch (fetch_tlb c)"

text \<open>What an access may change of the CPU besides its result.\<close>

definition mmu_only :: "cpu \<Rightarrow> cpu \<Rightarrow> bool" where
  "mmu_only c c' \<longleftrightarrow> (\<exists>pf ft rt wt. c' = c\<lparr>pending_fault := pf, fetch_tlb := ft, read_tlb := rt, write_tlb := wt\<rparr>)"

lemma mmu_onlyI: "c' = c\<lparr>pending_fault := pf, fetch_tlb := ft, read_tlb := rt, write_tlb := wt\<rparr> \<Longrightarrow> mmu_only c c'"
  unfolding mmu_only_def by blast

lemma mmu_only_refl [simp]: "mmu_only c c"
  by (rule mmu_onlyI [where pf = "pending_fault c" and ft = "fetch_tlb c" and rt = "read_tlb c" and wt = "write_tlb c"]) simp

lemma mmu_only_trans: "mmu_only a b \<Longrightarrow> mmu_only b c \<Longrightarrow> mmu_only a c"
  unfolding mmu_only_def by (elim exE, hypsubst) (rule exI, rule exI, rule exI, rule exI, simp)

lemma mmu_only_fields:
  assumes "mmu_only c c'"
  shows "cr0 c' = cr0 c" "cr3 c' = cr3 c" "cr4 c' = cr4 c" "a20 c' = a20 c" "sregs c' = sregs c" "regs c' = regs c"
    "regs_high c' = regs_high c" "seg_cache c' = seg_cache c" "ip c' = ip c" "flags c' = flags c"
    "stack_size_32 c' = stack_size_32 c" "gdtr c' = gdtr c" "idtr c' = idtr c"
  using assms unfolding mmu_only_def by auto

lemma mmu_only_walk:
  assumes "mmu_only c c'"
  shows "page_map c' m a l = page_map c m a l" "paging_on c' = paging_on c" "entry_ok c' m a = entry_ok c m a"
    "page_fault_of c' m a l = page_fault_of c m a l"
proof -
  note f = mmu_only_fields [OF assms]
  show "page_map c' m a l = page_map c m a l" using f by (intro page_map_cong)
  show "paging_on c' = paging_on c" by (simp add: paging_on_def f)
  have "page_map (c'\<lparr>a20 := g\<rparr>) m a l = page_map (c\<lparr>a20 := g\<rparr>) m a l" for g l
    by (rule page_map_cong) (simp_all add: f)
  then show "entry_ok c' m a = entry_ok c m a" by (auto simp: entry_ok_def fun_eq_iff split: option.split)
  show "page_fault_of c' m a l = page_fault_of c m a l"
    unfolding page_fault_of_def fault_code_def fault_protected_def user_mode_def dir_entry_def large_page_def f ..
qed

lemma raise_fault_mmu [simp]: "mmu_only c (raise_fault c l e)"
proof (cases "pending_fault c")
  case None
  then have "raise_fault c l e = c\<lparr>pending_fault := Some \<lparr>pf_addr = l, pf_error_code = e\<rparr>, fetch_tlb := fetch_tlb c,
      read_tlb := read_tlb c, write_tlb := write_tlb c\<rparr>" by (simp add: raise_fault_def)
  then show ?thesis by (rule mmu_onlyI)
qed (simp add: raise_fault_def)

lemma raise_fault_fields [simp]:
  "read_tlb (raise_fault c l e) = read_tlb c" "write_tlb (raise_fault c l e) = write_tlb c"
  "fetch_tlb (raise_fault c l e) = fetch_tlb c" "cpu_wf (raise_fault c l e) = cpu_wf c"
  "pending_fault (raise_fault c l e) =
     (if pending_fault c = None then Some \<lparr>pf_addr = l, pf_error_code = e\<rparr> else pending_fault c)"
  by (simp_all add: raise_fault_def cpu_wf_def split: option.split)

text \<open>
  A cached translation path: one of \<^verbatim>\<open>translate\<close>, \<^verbatim>\<open>translate_write\<close> and \<^verbatim>\<open>translate_fetch\<close>, with the
  cache it consults (the entry a page selects) and fills.  The laws say how the path uses its cache
  and what filling an entry changes; the lemmas show once that such a path is the page walk.
\<close>

locale cached_path =
  fixes tr :: "cpu \<Rightarrow> memory \<Rightarrow> u32 \<Rightarrow> u32 \<times> cpu"
    and kind :: access_kind
    and entry :: "cpu \<Rightarrow> u32 \<Rightarrow> tlb_entry"
    and fill :: "cpu \<Rightarrow> u32 \<Rightarrow> tlb_entry \<Rightarrow> cpu"
  assumes path: "tr c m l =
      (if \<not> paging_on c then (a20_gate c l, c)
       else (let walk = (let (phys, c1) = translate_inner c m l kind in
                 (phys, if pending_fault c1 = None then fill c1 (page_of l) (Some (page_of l, page_of phys, a20 c)) else c1))
             in case entry c (page_of l) of
                  Some (page, frame, g) \<Rightarrow> (if page = page_of l \<and> g = a20 c then (frame OR (l AND 0xFFF), c) else walk)
                | None \<Rightarrow> walk))"
    and entry_coherent: "cpu_wf c \<Longrightarrow> tlb_coherent c m \<Longrightarrow> paging_on c \<Longrightarrow> entry_ok c m kind (entry c (page_of l))"
    and fill_coherent: "cpu_wf c \<Longrightarrow> tlb_coherent c m \<Longrightarrow> entry_ok c m kind e \<Longrightarrow> tlb_coherent (fill c p e) m"
    and fill_frame: "mmu_only c (fill c p e)" "cpu_wf (fill c p e) = cpu_wf c" "pending_fault (fill c p e) = pending_fault c"
begin

lemma hit:
  assumes "page_map (c\<lparr>a20 := a20 c\<rparr>) m kind (page_of l) = Some frame"
  shows "page_map c m kind l = Some (frame OR (l AND 0xFFF))"
proof -
  have "map_option page_of (page_map c m kind l) = Some frame"
    using assms page_map_page [of c m kind l] by simp
  then obtain q where q: "page_map c m kind l = Some q" "frame = page_of q" by auto
  then show ?thesis using page_map_offset [OF q(1)] page_split [of q] by simp
qed

lemma refines:
  assumes "cpu_wf c" "tlb_coherent c m"
  shows "(case page_map c m kind l of
       Some p \<Rightarrow> fst (tr c m l) = p \<and> pending_fault (snd (tr c m l)) = pending_fault c
     | None \<Rightarrow> fst (tr c m l) = 0 \<and>
         pending_fault (snd (tr c m l)) = (if pending_fault c = None then Some (page_fault_of c m kind l) else pending_fault c)) \<and>
     mmu_only c (snd (tr c m l)) \<and> cpu_wf (snd (tr c m l)) \<and> tlb_coherent (snd (tr c m l)) m"
proof (cases "paging_on c")
  case False
  then show ?thesis using assms by (simp add: path page_map_gate)
next
  case True
  define walk where "walk = (let (phys, c1) = translate_inner c m l kind in
    (phys, if pending_fault c1 = None then fill c1 (page_of l) (Some (page_of l, page_of phys, a20 c)) else c1))"
  have w: "(case page_map c m kind l of
       Some p \<Rightarrow> fst walk = p \<and> pending_fault (snd walk) = pending_fault c
     | None \<Rightarrow> fst walk = 0 \<and>
         pending_fault (snd walk) = (if pending_fault c = None then Some (page_fault_of c m kind l) else pending_fault c)) \<and>
     mmu_only c (snd walk) \<and> cpu_wf (snd walk) \<and> tlb_coherent (snd walk) m"
  proof (cases "page_map c m kind l")
    case None
    have "tlb_coherent (raise_fault c l e) m" for e
      using assms(2) by (simp add: tlb_coherent_def mmu_only_walk [OF raise_fault_mmu])
    then show ?thesis using assms None
      by (simp add: walk_def translate_inner_walk page_fault_of_def)
  next
    case (Some p)
    then have "entry_ok c m kind (Some (page_of l, page_of p, a20 c))"
      using page_map_page [of c m kind l] by (simp add: entry_ok_def)
    then show ?thesis using assms Some fill_coherent [OF assms] fill_frame
      by (simp add: walk_def translate_inner_walk)
  qed
  have t: "tr c m l = (case entry c (page_of l) of
      Some (page, frame, g) \<Rightarrow> (if page = page_of l \<and> g = a20 c then (frame OR (l AND 0xFFF), c) else walk) | None \<Rightarrow> walk)"
    unfolding path walk_def Let_def using True by (simp only: not_True_eq_False if_False)
  show ?thesis
  proof (cases "\<exists>frame. entry c (page_of l) = Some (page_of l, frame, a20 c)")
    case True
    then obtain frame where e: "entry c (page_of l) = Some (page_of l, frame, a20 c)" by blast
    have "page_map (c\<lparr>a20 := a20 c\<rparr>) m kind (page_of l) = Some frame"
      using entry_coherent [OF assms \<open>paging_on c\<close>, of l] unfolding e entry_ok_def by simp
    then show ?thesis using hit e t assms by simp
  next
    case False
    then have "tr c m l = walk" unfolding t by (auto split: option.split)
    then show ?thesis using w by (simp only:)
  qed
qed

end

lemma rw_tlb_index_less: "rw_tlb_index p < RW_TLB_WAYS"
proof -
  have "unat (drop_bit 12 p AND mask 4 :: u32) < 2 ^ 4"
    unfolding take_bit_eq_mask [symmetric] using take_bit_nat_less_exp [of 4 "unat (drop_bit 12 p)"]
    by (simp add: unsigned_take_bit_eq)
  then show ?thesis by (simp add: rw_tlb_index_def RW_TLB_WAYS_def mask_numeral)
qed

lemma list_all_nth: "list_all P xs \<Longrightarrow> i < length xs \<Longrightarrow> P (xs ! i)"
  by (simp add: list_all_length)

lemma list_all_update: "list_all P xs \<Longrightarrow> P e \<Longrightarrow> list_all P (xs[i := e])"
  by (cases "i < length xs") (auto simp: list_all_length nth_list_update)

lemma mmu_updates:
  "mmu_only c (c\<lparr>read_tlb := x\<rparr>)" "mmu_only c (c\<lparr>write_tlb := x\<rparr>)" "mmu_only c (c\<lparr>fetch_tlb := y\<rparr>)"
  by (rule mmu_onlyI [where pf = "pending_fault c" and ft = "fetch_tlb c" and rt = x and wt = "write_tlb c"], simp)
    (rule mmu_onlyI [where pf = "pending_fault c" and ft = "fetch_tlb c" and rt = "read_tlb c" and wt = x], simp,
     rule mmu_onlyI [where pf = "pending_fault c" and ft = y and rt = "read_tlb c" and wt = "write_tlb c"], simp)

lemmas path_defs = flag_masks(1) paging_on_def [symmetric] a20_gate_def [symmetric] not_not

interpretation read_path: cached_path translate Read "\<lambda>c p. read_tlb c ! rw_tlb_index p"
  "\<lambda>c p e. c\<lparr>read_tlb := (read_tlb c)[rw_tlb_index p := e]\<rparr>"
proof
  fix c m l p e
  show "translate c m l =
      (if \<not> paging_on c then (a20_gate c l, c)
       else (let walk = (let (phys, c1) = translate_inner c m l Read in
                 (phys, if pending_fault c1 = None
                    then c1\<lparr>read_tlb := (read_tlb c1)[rw_tlb_index (page_of l) := Some (page_of l, page_of phys, a20 c)]\<rparr> else c1))
             in case read_tlb c ! rw_tlb_index (page_of l) of
                  Some (page, frame, g) \<Rightarrow> (if page = page_of l \<and> g = a20 c then (frame OR (l AND 0xFFF), c) else walk)
                | None \<Rightarrow> walk))"
    unfolding translate_def Let_def path_defs by (rule refl)
  show "cpu_wf c \<Longrightarrow> tlb_coherent c m \<Longrightarrow> paging_on c \<Longrightarrow> entry_ok c m Read (read_tlb c ! rw_tlb_index (page_of l))"
    by (simp add: tlb_coherent_def cpu_wf_def list_all_nth rw_tlb_index_less)
  show "cpu_wf c \<Longrightarrow> tlb_coherent c m \<Longrightarrow> entry_ok c m Read e \<Longrightarrow>
      tlb_coherent (c\<lparr>read_tlb := (read_tlb c)[rw_tlb_index p := e]\<rparr>) m"
    by (simp add: tlb_coherent_def mmu_only_walk [OF mmu_updates(1)] list_all_update)
qed (simp_all add: mmu_updates cpu_wf_def)

interpretation write_path: cached_path translate_write Write "\<lambda>c p. write_tlb c ! rw_tlb_index p"
  "\<lambda>c p e. c\<lparr>write_tlb := (write_tlb c)[rw_tlb_index p := e]\<rparr>"
proof
  fix c m l p e
  show "translate_write c m l =
      (if \<not> paging_on c then (a20_gate c l, c)
       else (let walk = (let (phys, c1) = translate_inner c m l Write in
                 (phys, if pending_fault c1 = None
                    then c1\<lparr>write_tlb := (write_tlb c1)[rw_tlb_index (page_of l) := Some (page_of l, page_of phys, a20 c)]\<rparr> else c1))
             in case write_tlb c ! rw_tlb_index (page_of l) of
                  Some (page, frame, g) \<Rightarrow> (if page = page_of l \<and> g = a20 c then (frame OR (l AND 0xFFF), c) else walk)
                | None \<Rightarrow> walk))"
    unfolding translate_write_def Let_def path_defs by (rule refl)
  show "cpu_wf c \<Longrightarrow> tlb_coherent c m \<Longrightarrow> paging_on c \<Longrightarrow> entry_ok c m Write (write_tlb c ! rw_tlb_index (page_of l))"
    by (simp add: tlb_coherent_def cpu_wf_def list_all_nth rw_tlb_index_less)
  show "cpu_wf c \<Longrightarrow> tlb_coherent c m \<Longrightarrow> entry_ok c m Write e \<Longrightarrow>
      tlb_coherent (c\<lparr>write_tlb := (write_tlb c)[rw_tlb_index p := e]\<rparr>) m"
    by (simp add: tlb_coherent_def mmu_only_walk [OF mmu_updates(2)] list_all_update)
qed (simp_all add: mmu_updates cpu_wf_def)

interpretation fetch_path: cached_path translate_fetch Fetch "\<lambda>c p. fetch_tlb c" "\<lambda>c p e. c\<lparr>fetch_tlb := e\<rparr>"
proof
  fix c m l e
  show "translate_fetch c m l =
      (if \<not> paging_on c then (a20_gate c l, c)
       else (let walk = (let (phys, c1) = translate_inner c m l Fetch in
                 (phys, if pending_fault c1 = None
                    then c1\<lparr>fetch_tlb := Some (page_of l, page_of phys, a20 c)\<rparr> else c1))
             in case fetch_tlb c of
                  Some (page, frame, g) \<Rightarrow> (if page = page_of l \<and> g = a20 c then (frame OR (l AND 0xFFF), c) else walk)
                | None \<Rightarrow> walk))"
    unfolding translate_fetch_def Let_def path_defs by (rule refl)
  show "cpu_wf c \<Longrightarrow> tlb_coherent c m \<Longrightarrow> paging_on c \<Longrightarrow> entry_ok c m Fetch (fetch_tlb c)"
    by (simp add: tlb_coherent_def)
  show "cpu_wf c \<Longrightarrow> tlb_coherent c m \<Longrightarrow> entry_ok c m Fetch e \<Longrightarrow> tlb_coherent (c\<lparr>fetch_tlb := e\<rparr>) m"
    by (simp add: tlb_coherent_def mmu_only_walk [OF mmu_updates(3)])
qed (simp_all add: mmu_updates cpu_wf_def)

section \<open>Accesses within a page\<close>

lemma same_page:
  fixes l :: u32
  assumes "unat (l AND 0xFFF) + k < 4096"
  shows "page_of (l + of_nat k) = page_of l" "(l + of_nat k) AND 0xFFF = (l AND 0xFFF) + of_nat k"
proof -
  have m: "unat (x AND 0xFFF) = unat x mod 4096" for x :: u32
    unfolding word_masks(2) by (simp add: unat_mod)
  have d: "unat (x div 4096) = unat x div 4096" for x :: u32 by (simp add: unat_div)
  have k: "unat l mod 4096 + k < 4096" using assms by (simp add: m)
  obtain q r where qr: "unat l = 4096 * q + r" "r < 4096" using mult_div_mod_eq [of 4096 "unat l", symmetric] by fastforce
  then have r: "r + k < 4096" using k by simp
  have q: "q < 1048576" using qr unat_bounds(3) [of l] by linarith
  have "unat l + k < 4294967296" using qr r q by linarith
  then have u: "unat (l + of_nat k) = unat l + k" using r by (simp add: unat_word_ariths unat_of_nat)
  have n: "(unat l + k) div 4096 = unat l div 4096" "(unat l + k) mod 4096 = unat l mod 4096 + k"
    using qr r by (simp_all add: add.assoc)
  have "(l + of_nat k) div 4096 = l div 4096" by (simp add: word_unat_eq_iff d u n)
  then show "page_of (l + of_nat k) = page_of l" unfolding word_masks(1) by simp
  have "unat ((l AND 0xFFF) + of_nat k) = unat l mod 4096 + k"
    using k by (simp add: unat_word_ariths unat_of_nat m)
  then show "(l + of_nat k) AND 0xFFF = (l AND 0xFFF) + of_nat k" by (simp add: word_unat_eq_iff m u n)
qed

lemma page_map_in_page:
  assumes "unat (l AND 0xFFF) + k < 4096"
  shows "page_map c m a (l + of_nat k) = map_option (\<lambda>p. p + of_nat k) (page_map c m a l)"
proof -
  have p: "map_option page_of (page_map c m a (l + of_nat k)) = map_option page_of (page_map c m a l)"
    unfolding page_map_page [symmetric] same_page(1) [OF assms] ..
  show ?thesis
  proof (cases "page_map c m a l")
    case (Some q)
    with p obtain q' where q': "page_map c m a (l + of_nat k) = Some q'" "page_of q' = page_of q" by auto
    have off: "q AND 0xFFF = l AND 0xFFF" "q' AND 0xFFF = (q AND 0xFFF) + of_nat k"
      using page_map_offset [OF Some] page_map_offset [OF q'(1)] same_page(2) [OF assms] by simp_all
    have "q' = page_of q' OR (q' AND 0xFFF)" using page_split [of q'] by simp
    also have "\<dots> = page_of (q + of_nat k) OR ((q + of_nat k) AND 0xFFF)"
      using same_page [of q k] assms off q'(2) by simp
    also have "\<dots> = q + of_nat k" by (rule page_split)
    finally show ?thesis using Some q'(1) by simp
  qed (use p in simp)
qed

section \<open>Reads\<close>

text \<open>The bytes an access of some length sees, or the fault of its first unmapped byte.\<close>

fun virt_bytes :: "cpu \<Rightarrow> memory \<Rightarrow> u32 \<Rightarrow> nat \<Rightarrow> page_fault + bytes" where
  "virt_bytes c m l 0 = Inr []"
| "virt_bytes c m l (Suc n) =
     (case page_map c m Read l of
        None \<Rightarrow> Inl (page_fault_of c m Read l)
      | Some p \<Rightarrow> map_sum id (\<lambda>bs. read_u8 m p # bs) (virt_bytes c m (l + 1) n))"

definition read_spec :: "cpu \<Rightarrow> memory \<Rightarrow> u32 \<Rightarrow> nat \<Rightarrow> bytes \<Rightarrow> cpu \<Rightarrow> bool" where
  "read_spec c m l n v c' \<longleftrightarrow>
     (case virt_bytes c m l n of Inl f \<Rightarrow> pending_fault c' = Some f | Inr bs \<Rightarrow> pending_fault c' = None \<and> v = bs) \<and>
     mmu_only c c' \<and> cpu_wf c' \<and> tlb_coherent c' m"

lemma virt_bytes_add:
  "virt_bytes c m l (i + j) =
     (case virt_bytes c m l i of Inl f \<Rightarrow> Inl f | Inr bs \<Rightarrow> map_sum id ((@) bs) (virt_bytes c m (l + of_nat i) j))"
proof (induction i arbitrary: l)
  case 0
  show ?case by (cases "virt_bytes c m l j") simp_all
next
  case (Suc i)
  show ?case
    by (cases "page_map c m Read l"; cases "virt_bytes c m (l + 1) i"; cases "virt_bytes c m (l + 1 + of_nat i) j")
      (simp_all add: Suc.IH add.assoc)
qed

lemma virt_bytes_page:
  assumes "unat (l AND 0xFFF) + n \<le> 4096" and "page_map c m Read l = Some p"
  shows "virt_bytes c m l n = Inr (map (\<lambda>i. read_u8 m (p + of_nat i)) [0..<n])"
  using assms(1)
proof (induction n)
  case (Suc n)
  then have "page_map c m Read (l + of_nat n) = Some (p + of_nat n)"
    using page_map_in_page [of l n c m Read] assms(2) by simp
  then show ?case using Suc virt_bytes_add [of c m l n 1] by simp
qed simp

lemma virt_bytes_unmapped: "page_map c m Read l = None \<Longrightarrow> 0 < n \<Longrightarrow> virt_bytes c m l n = Inl (page_fault_of c m Read l)"
  by (cases n) simp_all

lemma virt_bytes_mmu:
  assumes "mmu_only c c'"
  shows "virt_bytes c' m l n = virt_bytes c m l n"
  by (induction n arbitrary: l) (simp_all add: mmu_only_walk [OF assms] split: option.split)

lemma read_faulted:
  assumes "pending_fault c \<noteq> None"
  shows "mem_read_u8 c m l = (0, c)" "mem_read_u16 c m l = (0, c)" "mem_read_u32 c m l = (0, c)" "mem_fetch_u8 c m l = (0, c)"
  using assms by (auto simp: mem_read_u8_def mem_read_u16_def mem_read_u32_def mem_fetch_u8_def)

lemma read_spec_split:
  assumes "read_spec c m l i v c1"
    and "pending_fault c1 = None \<Longrightarrow> read_spec c1 m (l + of_nat i) j w c2"
    and "pending_fault c1 \<noteq> None \<Longrightarrow> c2 = c1"
  shows "read_spec c m l (i + j) (v @ w) c2"
proof (cases "virt_bytes c m l i")
  case (Inl f)
  then show ?thesis using assms by (simp add: read_spec_def virt_bytes_add)
next
  case (Inr bs)
  then have 1: "pending_fault c1 = None" "v = bs" "mmu_only c c1" using assms(1) by (simp_all add: read_spec_def)
  then have "read_spec c1 m (l + of_nat i) j w c2" using assms(2) by simp
  then show ?thesis using Inr 1 mmu_only_trans [OF 1(3)]
    by (auto simp: read_spec_def virt_bytes_add virt_bytes_mmu [OF 1(3)] split: sum.splits)
qed

lemma translate_read:
  assumes "cpu_wf c" "tlb_coherent c m" "pending_fault c = None" and "0 < n" "unat (l AND 0xFFF) + n \<le> 4096"
    and "translate c m l = (phys, c1)"
    and "v = map (\<lambda>i. read_u8 m (phys + of_nat i)) [0..<n] \<or> pending_fault c1 \<noteq> None"
  shows "read_spec c m l n v c1"
  using read_path.refines [OF assms(1,2), of l] assms virt_bytes_page [OF assms(5)] virt_bytes_unmapped [of c m l n]
  by (cases "page_map c m Read l") (auto simp: read_spec_def)

lemma mem_read_u8_spec:
  assumes "cpu_wf c" "tlb_coherent c m" "pending_fault c = None" and "mem_read_u8 c m l = (v, c')"
  shows "read_spec c m l 1 [v] c'"
proof -
  obtain phys c1 where t: "translate c m l = (phys, c1)" by fastforce
  then have "c' = c1" "v = read_u8 m phys" using assms by (simp_all add: mem_read_u8_def)
  moreover have "unat (l AND 0xFFF) + 1 \<le> 4096" using unat_bounds(3) [of l] by (simp add: word_masks(2) unat_mod less_eq_Suc_le [symmetric])
  ultimately show ?thesis using translate_read [OF assms(1-3) _ _ t, of 1 "[v]"] by simp
qed

lemma ram_u16: "mem_size m \<le> 2 ^ 32 \<Longrightarrow>
    (case read_ram_u16 m a of Some v \<Rightarrow> v | None \<Rightarrow> ucast (read_u8 m a) OR push_bit 8 (ucast (read_u8 m (a + 1)))) =
      of_le16 (read_u8 m a) (read_u8 m (a + 1))"
  using read_ram_u16_eq [of m a] by (cases "read_ram_u16 m a") (auto simp: read_u16_le of_le16_def)

lemma ram_u32: "mem_size m \<le> 2 ^ 32 \<Longrightarrow>
    (case read_ram_u32 m a of Some v \<Rightarrow> v
     | None \<Rightarrow> ((ucast (read_u8 m a) OR push_bit 8 (ucast (read_u8 m (a + 1)))) OR
         push_bit 16 (ucast (read_u8 m (a + 2)))) OR push_bit 24 (ucast (read_u8 m (a + 3)))) =
      of_le32 (read_u8 m a) (read_u8 m (a + 1)) (read_u8 m (a + 2)) (read_u8 m (a + 3))"
  using read_ram_u32_eq [of m a] by (cases "read_ram_u32 m a") (auto simp: read_u32_le of_le32_def or.assoc)

lemma le32_halves: "le32 (ucast (lo :: u16) OR push_bit 16 (ucast (hi :: u16))) = le16 lo @ le16 hi"
proof -
  have "ucast lo OR push_bit 16 (ucast hi) = of_le32 (ucast lo) (ucast (drop_bit 8 lo)) (ucast hi) (ucast (drop_bit 8 hi))"
    by (simp add: of_le32_of_le16)
  then show ?thesis by (simp add: le16_def)
qed

lemma offset_nat: "unat (l AND 0xFFF) < 4096" "l AND 0xFFF = 0xFFF \<longleftrightarrow> unat (l AND 0xFFF) = 4095"
  "0xFFC < l AND 0xFFF \<longleftrightarrow> 4092 < unat (l AND 0xFFF)" for l :: u32
proof -
  show "unat (l AND 0xFFF) < 4096" by (simp add: word_masks(2) unat_mod)
  show "l AND 0xFFF = 0xFFF \<longleftrightarrow> unat (l AND 0xFFF) = 4095" by (simp add: word_unat_eq_iff)
  show "0xFFC < l AND 0xFFF \<longleftrightarrow> 4092 < unat (l AND 0xFFF)" by (simp add: word_less_nat_alt)
qed

lemma mem_read_u16_spec:
  assumes c: "cpu_wf c" "tlb_coherent c m" "pending_fault c = None" and m: "mem_size m \<le> 2 ^ 32"
    and r: "mem_read_u16 c m l = (v, c')"
  shows "read_spec c m l 2 (le16 v) c'"
proof (cases "l AND 0xFFF = 0xFFF")
  case True
  obtain lo c1 hi c2 where b: "mem_read_u8 c m l = (lo, c1)" "mem_read_u8 c1 m (l + 1) = (hi, c2)" by fastforce
  have 1: "read_spec c m l 1 [lo] c1" using mem_read_u8_spec [OF c b(1)] .
  have "read_spec c m l (1 + 1) ([lo] @ [hi]) c2"
  proof (rule read_spec_split [OF 1])
    assume "pending_fault c1 = None"
    then show "read_spec c1 m (l + of_nat 1) 1 [hi] c2"
      using 1 mem_read_u8_spec [OF _ _ _ b(2)] by (simp add: read_spec_def [of c])
  qed (use b(2) read_faulted in auto)
  then show ?thesis using r True b by (simp add: mem_read_u16_def le16_of_le16 [symmetric] of_le16_def numeral_2_eq_2)
next
  case False
  obtain phys c1 where t: "translate c m l = (phys, c1)" by fastforce
  have n: "unat (l AND 0xFFF) + 2 \<le> 4096" using False offset_nat [of l] by linarith
  have "c' = c1" and "pending_fault c1 = None \<Longrightarrow> v = of_le16 (read_u8 m phys) (read_u8 m (phys + 1))"
    using r t False c(3) ram_u16 [OF m, of phys] by (auto simp: mem_read_u16_def split: if_splits)
  then show ?thesis using translate_read [OF c _ n t, of "le16 v"]
    by (cases "pending_fault c1") (auto simp: numeral_2_eq_2)
qed

lemma mem_read_u32_spec:
  assumes c: "cpu_wf c" "tlb_coherent c m" "pending_fault c = None" and m: "mem_size m \<le> 2 ^ 32"
    and r: "mem_read_u32 c m l = (v, c')"
  shows "read_spec c m l 4 (le32 v) c'"
proof (cases "0xFFC < l AND 0xFFF")
  case True
  obtain lo c1 hi c2 where b: "mem_read_u16 c m l = (lo, c1)" "mem_read_u16 c1 m (l + 2) = (hi, c2)" by fastforce
  have 1: "read_spec c m l 2 (le16 lo) c1" using mem_read_u16_spec [OF c m b(1)] .
  have "read_spec c m l (2 + 2) (le16 lo @ le16 hi) c2"
  proof (rule read_spec_split [OF 1])
    assume "pending_fault c1 = None"
    then show "read_spec c1 m (l + of_nat 2) 2 (le16 hi) c2"
      using 1 mem_read_u16_spec [OF _ _ _ m b(2)] by (simp add: read_spec_def [of c])
  qed (use b(2) read_faulted in auto)
  moreover have "v = ucast lo OR push_bit 16 (ucast hi)" "c' = c2" using r True b by (auto simp: mem_read_u32_def)
  ultimately show ?thesis by (simp add: le32_halves)
next
  case False
  obtain phys c1 where t: "translate c m l = (phys, c1)" by fastforce
  have n: "unat (l AND 0xFFF) + 4 \<le> 4096" using False offset_nat [of l] by linarith
  have "c' = c1" and "pending_fault c1 = None \<Longrightarrow>
      v = of_le32 (read_u8 m phys) (read_u8 m (phys + 1)) (read_u8 m (phys + 2)) (read_u8 m (phys + 3))"
    using r t False c(3) ram_u32 [OF m, of phys] by (auto simp: mem_read_u32_def split: if_splits)
  then show ?thesis using translate_read [OF c _ n t, of "le32 v"]
    by (cases "pending_fault c1") (auto simp: eval_nat_numeral)
qed

section \<open>Writes\<close>

definition write_spec :: "cpu \<Rightarrow> memory \<Rightarrow> u32 \<Rightarrow> bytes \<Rightarrow> cpu \<times> memory \<Rightarrow> bool" where
  "write_spec c m l bs r \<longleftrightarrow>
     (case page_map c m Write l of
        None \<Rightarrow> snd r = m \<and> pending_fault (fst r) = Some (page_fault_of c m Write l)
      | Some p \<Rightarrow> snd r = write_u8_seq m p bs \<and> pending_fault (fst r) = None) \<and>
     mmu_only c (fst r) \<and> cpu_wf (fst r) \<and> tlb_coherent (fst r) m"

lemma write_u8_seq_one: "write_u8_seq m p [b] = write_u8 m p b"
  by simp

lemma mem_write_u8_spec:
  assumes c: "cpu_wf c" "tlb_coherent c m" "pending_fault c = None"
  shows "write_spec c m l [b] (mem_write_u8 c m l b)"
  using write_path.refines [OF c(1,2), of l] c(3)
  by (cases "page_map c m Write l"; cases "translate_write c m l") (simp_all add: write_spec_def mem_write_u8_def)

lemma mem_write_aligned_spec:
  assumes c: "cpu_wf c" "tlb_coherent c m" "pending_fault c = None" and m: "mem_size m \<le> 2 ^ 32"
    and n: "unat (l AND 0xFFF) + length bs \<le> 4096"
  shows "write_spec c m l bs (mem_write_aligned c m l bs)"
proof -
  have len: "unat (of_nat (length bs) :: u32) = length bs" using n by (simp add: unat_of_nat)
  have "unat ((l AND 0xFFF) + of_nat (length bs)) = unat (l AND 0xFFF) + length bs"
    using n len by (simp add: unat_word_ariths)
  then have fits: "(l AND 0xFFF) + of_nat (length bs) \<le> 0x1000"
    using n by (simp add: word_le_nat_alt)
  obtain phys c1 where t: "translate_write c m l = (phys, c1)" by fastforce
  have "mem_write_aligned c m l bs = (if pending_fault c1 \<noteq> None then (c1, m) else (c1, write_u8_seq m phys bs))"
    unfolding mem_write_aligned_def Let_def t write_ram_bulk_eq [OF m] using fits c(3) by simp
  then show ?thesis using write_path.refines [OF c(1,2), of l] c(3) t
    by (cases "page_map c m Write l") (simp_all add: write_spec_def)
qed

lemma translate_write_faulted: "pending_fault c = Some f \<Longrightarrow> pending_fault (snd (translate_write c m l)) = Some f"
proof -
  assume f: "pending_fault c = Some f"
  then have "pending_fault (snd (translate_inner c m l Write)) = Some f"
    unfolding translate_inner_walk by (cases "page_map c m Write l") simp_all
  then show ?thesis using f unfolding translate_write_def Let_def
    by (auto split: option.split prod.split)
qed

lemma write_faulted:
  assumes "pending_fault c = Some f"
  shows "snd (mem_write_u8 c m l b) = m \<and> pending_fault (fst (mem_write_u8 c m l b)) = Some f"
    "snd (mem_write_bytes c m l bs) = m \<and> pending_fault (fst (mem_write_bytes c m l bs)) = Some f"
    "snd (mem_write_aligned c m l bs) = m \<and> pending_fault (fst (mem_write_aligned c m l bs)) = Some f"
proof -
  have 1: "snd (mem_write_u8 c m l b) = m \<and> pending_fault (fst (mem_write_u8 c m l b)) = Some f"
    if "pending_fault c = Some f" for c l b
    using that translate_write_faulted [OF that, of m l] by (simp add: mem_write_u8_def case_prod_beta)
  then show "snd (mem_write_u8 c m l b) = m \<and> pending_fault (fst (mem_write_u8 c m l b)) = Some f" using assms .
  show 2: "snd (mem_write_bytes c m l bs) = m \<and> pending_fault (fst (mem_write_bytes c m l bs)) = Some f"
    using assms 1 by (induction bs arbitrary: c l) (auto simp: case_prod_beta)
  show "snd (mem_write_aligned c m l bs) = m \<and> pending_fault (fst (mem_write_aligned c m l bs)) = Some f"
    using assms 2 translate_write_faulted [OF assms, of m l] by (simp add: mem_write_aligned_def Let_def case_prod_beta)
qed

section \<open>Properties\<close>

lemma flush_coherent: "tlb_coherent (invalidate_fetch_tlb c) m"
  by (simp add: tlb_coherent_def invalidate_fetch_tlb_def entry_ok_def list_all_length)

lemma a20_coherent: "tlb_coherent (c\<lparr>a20 := b\<rparr>) m = tlb_coherent c m"
proof -
  have "entry_ok (c\<lparr>a20 := b\<rparr>) m a = entry_ok c m a" for a by (auto simp: entry_ok_def fun_eq_iff split: option.split)
  then show ?thesis by (simp add: tlb_coherent_def paging_on_def)
qed

lemma boot_mmu: "tlb_coherent cpu_new m" "pending_fault cpu_new = None" "mem_size (mem_new w n) = n"
  by (simp_all add: tlb_coherent_def paging_on_def cpu_new_def mem_size_def mem_new_def)

text \<open>
  C5: The translation caches are transparent.  With coherent caches each of the three translation
  functions returns what the page walk of the reference definition returns and records exactly its
  fault (unless an earlier fault is pending, which is kept), changes nothing of the CPU but the caches
  and the fault slot, and leaves the caches coherent.  A flush makes the caches coherent with any
  page tables and control registers, and gating A20 keeps them so without one, since every entry
  carries the A20 state it was filled under.
\<close>

theorem tlb_transparent:
  assumes "cpu_wf c" "tlb_coherent c m"
    and "(xlate, a) \<in> {(translate, Read), (translate_write, Write), (translate_fetch, Fetch)}"
  shows "(case page_map c m a l of
       Some p \<Rightarrow> fst (xlate c m l) = p \<and> pending_fault (snd (xlate c m l)) = pending_fault c
     | None \<Rightarrow> fst (xlate c m l) = 0 \<and>
         pending_fault (snd (xlate c m l)) = (if pending_fault c = None then Some (page_fault_of c m a l) else pending_fault c)) \<and>
     mmu_only c (snd (xlate c m l)) \<and> tlb_coherent (snd (xlate c m l)) m \<and>
     tlb_coherent (invalidate_fetch_tlb c') m' \<and> tlb_coherent (c\<lparr>a20 := g\<rparr>) m"
proof -
  note r = read_path.refines [OF assms(1,2), of l] write_path.refines [OF assms(1,2), of l]
    fetch_path.refines [OF assms(1,2), of l]
  have g: "tlb_coherent (c\<lparr>a20 := g\<rparr>) m" using assms(2) by (simp add: a20_coherent)
  from assms(3) consider "xlate = translate" "a = Read" | "xlate = translate_write" "a = Write"
    | "xlate = translate_fetch" "a = Fetch" by auto
  then show ?thesis using r g flush_coherent by cases (simp_all only: simp_thms)
qed

theorem tlb_transparent_witness:
  "pending_fault (snd (translate_write (cpu_new\<lparr>cr0 := 0x80000001\<rparr>) (mem_new None 16) 0x1234)) =
     Some \<lparr>pf_addr = 0x1234, pf_error_code = 2\<rparr>"
proof -
  let ?c = "cpu_new\<lparr>cr0 := 0x80000001\<rparr>" and ?m = "mem_new None 16"
  have wf: "cpu_wf ?c" by (simp add: cpu_wf_def cpu_new_def)
  have co: "tlb_coherent ?c ?m" by (simp add: tlb_coherent_def entry_ok_def cpu_new_def list_all_length)
  have d: "dir_entry ?c ?m 0x1234 = 0"
    by (simp add: dir_entry_def cpu_new_def read_u32_le read_u8_def mem_new_def of_le32_def)
  then have "page_map ?c ?m Write 0x1234 = None"
    by (simp add: page_map_def page_frame_def paging_on_def cpu_new_def)
  then show ?thesis
    using tlb_transparent [OF wf co, of translate_write Write "0x1234" ?c ?m True] d
    by (simp add: page_fault_of_def fault_code_def fault_protected_def user_mode_def cpu_new_def CS_def)
qed

text \<open>
  C7: Reads see linear memory.  Through coherent caches the 8-, 16- and 32-bit reads return, in
  little-endian order, the bytes that the page walk maps each linear address to, whether the access
  lies in one page (where the code translates once and may read RAM in one go) or crosses into the
  next; when some byte is unmapped, the fault recorded is that of the first such byte; and nothing
  but caches and fault slot changes.
\<close>

theorem paged_reads:
  assumes "cpu_wf c" "tlb_coherent c m" "pending_fault c = None" and "mem_size m \<le> 2 ^ 32"
  shows "read_spec c m l 1 [fst (mem_read_u8 c m l)] (snd (mem_read_u8 c m l)) \<and>
    read_spec c m l 2 (le16 (fst (mem_read_u16 c m l))) (snd (mem_read_u16 c m l)) \<and>
    read_spec c m l 4 (le32 (fst (mem_read_u32 c m l))) (snd (mem_read_u32 c m l))"
  using mem_read_u8_spec [OF assms(1-3)] mem_read_u16_spec [OF assms] mem_read_u32_spec [OF assms] by simp

theorem paged_reads_witness:
  "read_spec cpu_new (mem_new None 16) 0xFFE 4 (le32 (fst (mem_read_u32 cpu_new (mem_new None 16) 0xFFE)))
     (snd (mem_read_u32 cpu_new (mem_new None 16) 0xFFE))"
  using paged_reads [of cpu_new "mem_new None 16" "0xFFE"]
  by (simp add: cpu_wf_new boot_mmu)

text \<open>
  C8: A faulting write changes no memory.  A write within one page stores its bytes at consecutive
  physical addresses from the one the page walk gives, or, if the page is unmapped or protected,
  records that fault and leaves memory as it was; and once a fault is pending no further write of the
  instruction, page-crossing ones included, touches memory or replaces the fault.
\<close>

theorem paged_writes:
  assumes "mem_size m \<le> 2 ^ 32"
  shows "(cpu_wf c \<and> tlb_coherent c m \<and> pending_fault c = None \<and> unat (l AND 0xFFF) + length bs \<le> 4096 \<longrightarrow>
      write_spec c m l bs (mem_write_aligned c m l bs)) \<and>
    (\<forall>f. pending_fault c = Some f \<longrightarrow>
      snd (mem_write_aligned c m l bs) = m \<and> pending_fault (fst (mem_write_aligned c m l bs)) = Some f \<and>
      snd (mem_write_u8 c m l b) = m \<and> pending_fault (fst (mem_write_u8 c m l b)) = Some f)"
  using mem_write_aligned_spec [OF _ _ _ assms] write_faulted by blast

theorem paged_writes_witness:
  "write_spec cpu_new (mem_new None 16) 4 [1, 2] (mem_write_aligned cpu_new (mem_new None 16) 4 [1, 2])"
  using paged_writes [of "mem_new None 16" cpu_new 4 "[1, 2]"]
  by (simp add: cpu_wf_new boot_mmu)

end
