(* ===== verification/CpuExec.thy ===== *)
theory CpuExec
  imports CpuShift CpuPaging IoBus "HOL-Library.State_Monad"
begin

unbundle bit_operations_syntax

text \<open>
  The machine an instruction works on and the helpers the instruction handlers share
  (\<^verbatim>\<open>crates/cpu/src/lib.rs\<close>): instruction fetch, effective addresses, operands, the stack, segment
  loads, privilege checks, interrupt entry and port access.  The Rust methods take \<^verbatim>\<open>&mut self\<close>,
  \<^verbatim>\<open>&mut Memory\<close> and \<^verbatim>\<open>&mut IoBus\<close>; here they are actions of the state monad over the three, so
  that a sequence of statements is a \<open>do\<close> block.  The diagnostic output (\<^verbatim>\<open>WWWVM_TRACE_*\<close>) is left
  out.
\<close>

record machine =
  m_cpu :: cpu
  m_mem :: memory
  m_io :: iobus

type_synonym 'a exec = "(machine, 'a) state"

abbreviation ret :: "'a \<Rightarrow> 'a exec" where "ret \<equiv> State_Monad.return"

section \<open>Access to the parts of the machine\<close>

definition cpu_get :: "(cpu \<Rightarrow> 'a) \<Rightarrow> 'a exec" where
  "cpu_get f = State (\<lambda>s. (f (m_cpu s), s))"

definition cpu_upd :: "(cpu \<Rightarrow> cpu) \<Rightarrow> unit exec" where
  "cpu_upd f = State (\<lambda>s. ((), s\<lparr>m_cpu := f (m_cpu s)\<rparr>))"

definition cpu_run :: "(cpu \<Rightarrow> 'a \<times> cpu) \<Rightarrow> 'a exec" where
  "cpu_run f = State (\<lambda>s. let (v, c) = f (m_cpu s) in (v, s\<lparr>m_cpu := c\<rparr>))"

definition mem_load :: "(cpu \<Rightarrow> memory \<Rightarrow> 'a \<times> cpu) \<Rightarrow> 'a exec" where
  "mem_load f = State (\<lambda>s. let (v, c) = f (m_cpu s) (m_mem s) in (v, s\<lparr>m_cpu := c\<rparr>))"

definition mem_store :: "(cpu \<Rightarrow> memory \<Rightarrow> cpu \<times> memory) \<Rightarrow> unit exec" where
  "mem_store f = State (\<lambda>s. let (c, m) = f (m_cpu s) (m_mem s) in ((), s\<lparr>m_cpu := c, m_mem := m\<rparr>))"

definition io_run :: "(iobus \<Rightarrow> 'a \<times> iobus) \<Rightarrow> 'a exec" where
  "io_run f = State (\<lambda>s. let (v, b) = f (m_io s) in (v, s\<lparr>m_io := b\<rparr>))"

text \<open>How each of these runs.\<close>

named_theorems run_simps "running an action on a machine"

lemma run_bind [run_simps]: "run_state (State_Monad.bind a b) s = run_state (b (fst (run_state a s))) (snd (run_state a s))"
  by (simp add: State_Monad.bind_def case_prod_beta)

lemma run_basic [run_simps]:
  "run_state (ret x) s = (x, s)" "run_state (cpu_get f) s = (f (m_cpu s), s)"
  "run_state (cpu_upd g) s = ((), s\<lparr>m_cpu := g (m_cpu s)\<rparr>)"
  "run_state (cpu_run h) s = (fst (h (m_cpu s)), s\<lparr>m_cpu := snd (h (m_cpu s))\<rparr>)"
  by (simp_all add: State_Monad.return_def cpu_get_def cpu_upd_def cpu_run_def case_prod_beta)

lemma run_memory [run_simps]:
  "run_state (mem_load f) s = (fst (f (m_cpu s) (m_mem s)), s\<lparr>m_cpu := snd (f (m_cpu s) (m_mem s))\<rparr>)"
  "run_state (mem_store g) s = ((), s\<lparr>m_cpu := fst (g (m_cpu s) (m_mem s)), m_mem := snd (g (m_cpu s) (m_mem s))\<rparr>)"
  "run_state (io_run h) s = (fst (h (m_io s)), s\<lparr>m_io := snd (h (m_io s))\<rparr>)"
  by (simp_all add: mem_load_def mem_store_def io_run_def case_prod_beta)

abbreviation set_ip :: "u32 \<Rightarrow> unit exec" where "set_ip v \<equiv> cpu_upd (\<lambda>c. c\<lparr>ip := v\<rparr>)"
abbreviation ld8 :: "u32 \<Rightarrow> u8 exec" where "ld8 l \<equiv> mem_load (\<lambda>c m. mem_read_u8 c m l)"
abbreviation ld16 :: "u32 \<Rightarrow> u16 exec" where "ld16 l \<equiv> mem_load (\<lambda>c m. mem_read_u16 c m l)"
abbreviation ld32 :: "u32 \<Rightarrow> u32 exec" where "ld32 l \<equiv> mem_load (\<lambda>c m. mem_read_u32 c m l)"
abbreviation st8 :: "u32 \<Rightarrow> u8 \<Rightarrow> unit exec" where "st8 l v \<equiv> mem_store (\<lambda>c m. mem_write_u8 c m l v)"
abbreviation st16 :: "u32 \<Rightarrow> u16 \<Rightarrow> unit exec" where "st16 l v \<equiv> mem_store (\<lambda>c m. mem_write_u16 c m l v)"
abbreviation st32 :: "u32 \<Rightarrow> u32 \<Rightarrow> unit exec" where "st32 l v \<equiv> mem_store (\<lambda>c m. mem_write_u32 c m l v)"

abbreviation faulted :: "bool exec" where "faulted \<equiv> cpu_get (\<lambda>c. pending_fault c \<noteq> None)"

abbreviation join16 :: "u16 \<Rightarrow> u16 \<Rightarrow> u32" where "join16 lo hi \<equiv> ucast lo OR push_bit 16 (ucast hi)"

section \<open>Instruction fetch\<close>

definition linear_seg :: "cpu \<Rightarrow> nat \<Rightarrow> u32 \<Rightarrow> u32" where
  "linear_seg c seg_idx off = sc_base (seg_cache c ! seg_idx) + off"

definition fetch_u8 :: "u8 exec" where
  "fetch_u8 = do {
     addr \<leftarrow> cpu_get (\<lambda>c. linear_seg c CS (ip c));
     cpu_upd (\<lambda>c. c\<lparr>ip := ip c + 1\<rparr>);
     mem_load (\<lambda>c m. mem_fetch_u8 c m addr)
   }"

definition fetch_u16 :: "u16 exec" where
  "fetch_u16 = do {
     i \<leftarrow> cpu_get ip;
     l \<leftarrow> cpu_get (\<lambda>c. linear_seg c CS i);
     if l AND 0xFFF = 0xFFF then do {
       lo \<leftarrow> fetch_u8;
       hi \<leftarrow> fetch_u8;
       ret (ucast lo OR push_bit 8 (ucast hi))
     }
     else do {
       set_ip (i + 2);
       f \<leftarrow> faulted;
       if f then ret 0
       else do {
         phys \<leftarrow> mem_load (\<lambda>c m. translate_fetch c m l);
         f \<leftarrow> faulted;
         if f then ret 0
         else mem_load (\<lambda>c m. (ucast (read_code_u8 m phys) OR push_bit 8 (ucast (read_code_u8 m (phys + 1))), c))
       }
     }
   }"

text \<open>The pair of 16-bit fetches the source writes out at every 32-bit immediate.\<close>

definition fetch_pair :: "u32 exec" where
  "fetch_pair = do { lo \<leftarrow> fetch_u16; hi \<leftarrow> fetch_u16; ret (join16 lo hi) }"

definition fetch_moffs :: "u32 exec" where
  "fetch_moffs = do {
     a \<leftarrow> cpu_get addr_size_32;
     if a then fetch_pair else do { o16 \<leftarrow> fetch_u16; ret (ucast o16) }
   }"

section \<open>Effective addresses and operands\<close>

definition seg_or :: "cpu \<Rightarrow> nat \<Rightarrow> nat" where
  "seg_or c d = (case seg_override c of Some s \<Rightarrow> s | None \<Rightarrow> d)"

text \<open>Base register sum and default segment of the sixteen-bit forms.\<close>

definition ea_base16 :: "cpu \<Rightarrow> u8 \<Rightarrow> u16 \<times> bool" where
  "ea_base16 c rm =
     (let r = (\<lambda>i. regs c ! i) in
      if rm = 0 then (r BX + r SI, False) else if rm = 1 then (r BX + r DI, False)
      else if rm = 2 then (r BP + r SI, True) else if rm = 3 then (r BP + r DI, True)
      else if rm = 4 then (r SI, False) else if rm = 5 then (r DI, False)
      else if rm = 6 then (r BP, True) else (r BX, False))"

definition compute_ea :: "u8 \<Rightarrow> u8 \<Rightarrow> eff_addr exec" where
  "compute_ea mode rm =
     (if mode = 0 \<and> rm = 6 then do {
        off \<leftarrow> fetch_u16;
        seg \<leftarrow> cpu_get (\<lambda>c. seg_or c DS);
        ret \<lparr>ea_seg = seg, ea_off = ucast off\<rparr>
      }
      else do {
        (base, default_ss) \<leftarrow> cpu_get (\<lambda>c. ea_base16 c rm);
        disp \<leftarrow> (if mode = 0 then ret 0
                  else if mode = 1 then do { b \<leftarrow> fetch_u8; ret (scast b) }
                  else fetch_u16);
        seg \<leftarrow> cpu_get (\<lambda>c. seg_or c (if default_ss then SS else DS));
        ret \<lparr>ea_seg = seg, ea_off = ucast (base + disp)\<rparr>
      })"

definition sib_base :: "u8 \<Rightarrow> (u32 \<times> bool) exec" where
  "sib_base mode = do {
     sib \<leftarrow> fetch_u8;
     let scale = drop_bit 6 sib; let index = drop_bit 3 sib AND 7; let base_reg = sib AND 7;
     index_val \<leftarrow> (if index = 4 then ret 0 else cpu_get (\<lambda>c. push_bit (unat scale) (read_r32 c index)));
     (base_val, ss) \<leftarrow> (if mode = 0 \<and> base_reg = 5 then do { d \<leftarrow> fetch_pair; ret (d, False) }
        else cpu_get (\<lambda>c. (read_r32 c base_reg, base_reg = 4 \<or> base_reg = 5)));
     ret (base_val + index_val, ss)
   }"

definition compute_ea_32 :: "u8 \<Rightarrow> u8 \<Rightarrow> eff_addr exec" where
  "compute_ea_32 mode rm =
     (if mode = 0 \<and> rm = 5 then do {
        off \<leftarrow> fetch_pair;
        seg \<leftarrow> cpu_get (\<lambda>c. seg_or c DS);
        ret \<lparr>ea_seg = seg, ea_off = off\<rparr>
      }
      else do {
        (base, default_ss) \<leftarrow> (if rm = 4 then sib_base mode else cpu_get (\<lambda>c. (read_r32 c rm, rm = 5)));
        disp \<leftarrow> (if mode = 0 then ret 0
                  else if mode = 1 then do { b \<leftarrow> fetch_u8; ret (scast b) }
                  else fetch_pair);
        let default_ss' = (if mode \<noteq> 0 \<and> rm = 5 then True else default_ss);
        seg \<leftarrow> cpu_get (\<lambda>c. seg_or c (if default_ss' then SS else DS));
        ret \<lparr>ea_seg = seg, ea_off = base + disp\<rparr>
      })"

definition fetch_modrm :: "(u8 \<times> u8 \<times> rm) exec" where
  "fetch_modrm = do {
     byte \<leftarrow> fetch_u8;
     let mode = drop_bit 6 byte; let reg = drop_bit 3 byte AND 7; let rm_field = byte AND 7;
     a32 \<leftarrow> cpu_get addr_size_32;
     rm \<leftarrow> (if mode = 3 then ret (Reg rm_field)
             else if a32 then do { ea \<leftarrow> compute_ea_32 mode rm_field; ret (Mem ea) }
             else do { ea \<leftarrow> compute_ea mode rm_field; ret (Mem ea) });
     ret (mode, reg, rm)
   }"

definition ea_linear :: "eff_addr \<Rightarrow> u32 exec" where
  "ea_linear ea = cpu_get (\<lambda>c. linear_seg c (ea_seg ea) (ea_off ea))"

definition read_rm8 :: "rm \<Rightarrow> u8 exec" where
  "read_rm8 rm = (case rm of Reg i \<Rightarrow> cpu_get (\<lambda>c. read_r8 c i) | Mem ea \<Rightarrow> do { l \<leftarrow> ea_linear ea; ld8 l })"

definition write_rm8 :: "rm \<Rightarrow> u8 \<Rightarrow> unit exec" where
  "write_rm8 rm v = (case rm of Reg i \<Rightarrow> cpu_upd (\<lambda>c. write_r8 c i v) | Mem ea \<Rightarrow> do { l \<leftarrow> ea_linear ea; st8 l v })"

definition read_rm16 :: "rm \<Rightarrow> u16 exec" where
  "read_rm16 rm = (case rm of Reg i \<Rightarrow> cpu_get (\<lambda>c. read_r16 c i) | Mem ea \<Rightarrow> do { l \<leftarrow> ea_linear ea; ld16 l })"

definition write_rm16 :: "rm \<Rightarrow> u16 \<Rightarrow> unit exec" where
  "write_rm16 rm v = (case rm of Reg i \<Rightarrow> cpu_upd (\<lambda>c. write_r16 c i v) | Mem ea \<Rightarrow> do { l \<leftarrow> ea_linear ea; st16 l v })"

definition read_rm32 :: "rm \<Rightarrow> u32 exec" where
  "read_rm32 rm = (case rm of Reg i \<Rightarrow> cpu_get (\<lambda>c. read_r32 c i) | Mem ea \<Rightarrow> do { l \<leftarrow> ea_linear ea; ld32 l })"

definition write_rm32 :: "rm \<Rightarrow> u32 \<Rightarrow> unit exec" where
  "write_rm32 rm v = (case rm of Reg i \<Rightarrow> cpu_upd (\<lambda>c. write_r32 c i v) | Mem ea \<Rightarrow> do { l \<leftarrow> ea_linear ea; st32 l v })"

section \<open>The stack\<close>

definition read_stack_ptr :: "cpu \<Rightarrow> u32" where
  "read_stack_ptr c = (if stack_size_32 c then read_r32 c (of_nat SP) else ucast (regs c ! SP))"

definition write_stack_ptr :: "cpu \<Rightarrow> u32 \<Rightarrow> cpu" where
  "write_stack_ptr c v =
     (if stack_size_32 c then write_r32 c (of_nat SP) v else c\<lparr>regs := (regs c)[SP := ucast v]\<rparr>)"

definition push16 :: "u16 \<Rightarrow> unit exec" where
  "push16 v = do {
     f \<leftarrow> faulted;
     if f then ret ()
     else do {
       new_sp \<leftarrow> cpu_get (\<lambda>c. read_stack_ptr c - 2);
       l \<leftarrow> cpu_get (\<lambda>c. linear_seg c SS new_sp);
       st16 l v;
       f \<leftarrow> faulted;
       if f then ret () else cpu_upd (\<lambda>c. write_stack_ptr c new_sp)
     }
   }"

definition pop16 :: "u16 exec" where
  "pop16 = do {
     sp \<leftarrow> cpu_get read_stack_ptr;
     l \<leftarrow> cpu_get (\<lambda>c. linear_seg c SS sp);
     v \<leftarrow> ld16 l;
     cpu_upd (\<lambda>c. write_stack_ptr c (sp + 2));
     ret v
   }"

definition push32 :: "u32 \<Rightarrow> unit exec" where
  "push32 v = do {
     f \<leftarrow> faulted;
     if f then ret ()
     else do {
       new_sp \<leftarrow> cpu_get (\<lambda>c. read_stack_ptr c - 4);
       l \<leftarrow> cpu_get (\<lambda>c. linear_seg c SS new_sp);
       st32 l v;
       f \<leftarrow> faulted;
       if f then ret () else cpu_upd (\<lambda>c. write_stack_ptr c new_sp)
     }
   }"

definition pop32 :: "u32 exec" where
  "pop32 = do {
     sp \<leftarrow> cpu_get read_stack_ptr;
     l \<leftarrow> cpu_get (\<lambda>c. linear_seg c SS sp);
     v \<leftarrow> ld32 l;
     cpu_upd (\<lambda>c. write_stack_ptr c (sp + 4));
     ret v
   }"

section \<open>Segment loads\<close>

definition selector_out_of_gdt :: "cpu \<Rightarrow> u16 \<Rightarrow> bool" where
  "selector_out_of_gdt c selector =
     (if cr0 c AND 1 = 0 then False
      else (let index = ucast (selector AND 0xFFF8) :: u32 in ucast (dt_limit (gdtr c)) < index + 7))"

definition write_sreg :: "nat \<Rightarrow> u16 \<Rightarrow> unit exec" where
  "write_sreg idx value =
     (if 6 \<le> idx then ret ()
      else do {
        cpu_upd (\<lambda>c. c\<lparr>sregs := (sregs c)[idx := value]\<rparr>);
        real \<leftarrow> cpu_get (\<lambda>c. cr0 c AND 1 = 0);
        if real then
          cpu_upd (\<lambda>c.
            (let c1 = c\<lparr>seg_cache := (seg_cache c)[idx :=
                   \<lparr>sc_base = push_bit 4 (ucast value), sc_limit = 0xFFFF, sc_access = 0x93\<rparr>]\<rparr>;
                 c2 = (if idx = CS then invalidate_fetch_tlb (c1\<lparr>code_size_32 := False\<rparr>) else c1)
             in if idx = SS then c2\<lparr>stack_size_32 := False\<rparr> else c2))
        else do {
          desc_addr \<leftarrow> cpu_get (\<lambda>c. dt_base (gdtr c) + ucast (value AND 0xFFF8));
          w0 \<leftarrow> ld16 desc_addr;
          w1 \<leftarrow> ld16 (desc_addr + 2);
          w2 \<leftarrow> ld16 (desc_addr + 4);
          w3 \<leftarrow> ld16 (desc_addr + 6);
          let d0 = (ucast w0 :: u32); let d1 = (ucast w1 :: u32); let d2 = (ucast w2 :: u32); let d3 = (ucast w3 :: u32);
              let base = (d1 OR push_bit 16 (d2 AND 0x00FF)) OR push_bit 16 (d3 AND 0xFF00);
              let access = (ucast (drop_bit 8 d2 AND 0xFF) :: u8);
              let raw_limit = (d0 AND 0xFFFF) OR push_bit 16 (d3 AND 0x000F);
              let granularity = drop_bit 7 d3 AND 1;
              let limit = (if granularity \<noteq> 0 then push_bit 12 raw_limit OR 0x0FFF else raw_limit);
              let big = (drop_bit 6 d3 AND 1 \<noteq> 0);
          cpu_upd (\<lambda>c.
            (let c1 = c\<lparr>seg_cache := (seg_cache c)[idx := \<lparr>sc_base = base, sc_limit = limit, sc_access = access\<rparr>]\<rparr>;
                 c2 = (if idx = CS then invalidate_fetch_tlb (c1\<lparr>code_size_32 := big\<rparr>) else c1)
             in if idx = SS then c2\<lparr>stack_size_32 := big\<rparr> else c2))
        }
      })"

definition selector_accessible :: "u16 \<Rightarrow> bool \<Rightarrow> bool exec" where
  "selector_accessible selector for_write = do {
     c \<leftarrow> cpu_get id;
     if cr0 c AND 1 = 0 then ret True
     else if selector AND 0xFFFC = 0 then ret False
     else do {
       let addr = dt_base (gdtr c) + ucast (selector AND 0xFFF8);
       if ucast (dt_limit (gdtr c)) < (ucast (selector AND 0xFFF8) :: u32) + 7 then ret False
       else do {
         access \<leftarrow> ld8 (addr + 5);
         let s = drop_bit 4 access AND 1; let executable = (drop_bit 3 access AND 1 \<noteq> 0);
             let rw_bit = (drop_bit 1 access AND 1 \<noteq> 0);
         ret (if s = 0 then False else if for_write then \<not> executable \<and> rw_bit else \<not> executable \<or> rw_bit)
       }
     }
   }"

section \<open>The task-state segment\<close>

definition tss_base :: "u32 exec" where
  "tss_base = do {
     desc_addr \<leftarrow> cpu_get (\<lambda>c. dt_base (gdtr c) + ucast (tr c AND 0xFFF8));
     w1 \<leftarrow> ld16 (desc_addr + 2);
     w2 \<leftarrow> ld16 (desc_addr + 4);
     w3 \<leftarrow> ld16 (desc_addr + 6);
     let d1 = (ucast w1 :: u32); let d2 = (ucast w2 :: u32); let d3 = (ucast w3 :: u32);
     ret ((d1 OR push_bit 16 (d2 AND 0x00FF)) OR push_bit 16 (d3 AND 0xFF00))
   }"

definition tss_limit :: "u32 exec" where
  "tss_limit = do {
     desc_addr \<leftarrow> cpu_get (\<lambda>c. dt_base (gdtr c) + ucast (tr c AND 0xFFF8));
     w0 \<leftarrow> ld16 desc_addr;
     w3 \<leftarrow> ld16 (desc_addr + 6);
     let d3 = (ucast w3 :: u32); let limit = ucast w0 OR push_bit 16 (d3 AND 0x000F);
     ret (if d3 AND 0x0080 \<noteq> 0 then push_bit 12 limit OR 0xFFF else limit)
   }"

fun io_bitmap_clear :: "nat \<Rightarrow> u32 \<Rightarrow> u32 \<Rightarrow> u32 \<Rightarrow> u32 \<Rightarrow> bool exec" where
  "io_bitmap_clear 0 base limit map_base p = ret True"
| "io_bitmap_clear (Suc n) base limit map_base p = do {
     let byte_off = map_base + drop_bit 3 p;
     if limit < byte_off then ret False
     else do {
       b \<leftarrow> ld8 (base + byte_off);
       if b AND push_bit (unat (p AND 7)) 1 \<noteq> 0 then ret False
       else io_bitmap_clear n base limit map_base (p + 1)
     }
   }"

definition cpl :: "cpu \<Rightarrow> u8" where "cpl c = ucast (sregs c ! CS AND 3)"
definition iopl :: "cpu \<Rightarrow> u8" where "iopl c = ucast (drop_bit 12 (flags c) AND 3)"

definition io_access_permitted :: "u16 \<Rightarrow> u32 \<Rightarrow> bool exec" where
  "io_access_permitted port width = do {
     c \<leftarrow> cpu_get id;
     if cr0 c AND 1 = 0 then ret True
     else if cpl c \<le> iopl c then ret True
     else do {
       base \<leftarrow> tss_base;
       limit \<leftarrow> tss_limit;
       if limit < 0x67 then ret False
       else do {
         map_base \<leftarrow> ld16 (base + 0x66);
         io_bitmap_clear (Suc (unat (width - (if width = 0 then 0 else 1)))) base limit (ucast map_base) (ucast port)
       }
     }
   }"

end
