(* ===== verification/CpuInterrupt.thy ===== *)
theory CpuInterrupt
  imports CpuExec
begin

unbundle bit_operations_syntax

text \<open>
  Interrupt entry, the exceptions the handlers raise and the port shims of the CPU
  (\<^verbatim>\<open>do_interrupt_with_error\<close>, the \<^verbatim>\<open>raise_*\<close> helpers, \<^verbatim>\<open>port_read\<close> and \<^verbatim>\<open>port_write\<close> of
  \<^verbatim>\<open>crates/cpu/src/lib.rs\<close>).  That IRET undoes an entry is shown with the control flow.
\<close>

section \<open>Interrupt entry\<close>

text \<open>The handler's address: the real-mode vector table, or an IDT gate in protected mode.\<close>

definition interrupt_gate :: "u8 \<Rightarrow> (u16 \<times> u32 \<times> bool \<times> bool) exec" where
  "interrupt_gate n = do {
     real \<leftarrow> cpu_get (\<lambda>c. cr0 c AND 1 = 0);
     if real then do {
       let ivt_addr = ucast n * 4;
       cs \<leftarrow> ld16 (ivt_addr + 2);
       off \<leftarrow> ld16 ivt_addr;
       ret (cs, ucast off, False, False)
     }
     else do {
       gate_addr \<leftarrow> cpu_get (\<lambda>c. dt_base (idtr c) + ucast n * 8);
       off_lo \<leftarrow> ld16 gate_addr;
       selector \<leftarrow> ld16 (gate_addr + 2);
       access \<leftarrow> ld8 (gate_addr + 5);
       off_hi \<leftarrow> ld16 (gate_addr + 6);
       let is_32 = (0x0E \<le> access AND 0x0F);
       let is_trap = (access AND 0x01 \<noteq> 0);
       ret (selector, if is_32 then join16 off_lo off_hi else ucast off_lo, is_32, is_trap)
     }
   }"

text \<open>The switch to the ring-0 stack of the task-state segment.\<close>

definition switch_stack :: "(u16 \<times> u32) exec" where
  "switch_stack = do {
     old_ss \<leftarrow> cpu_get (\<lambda>c. sregs c ! SS);
     old_esp \<leftarrow> cpu_get (\<lambda>c. read_r32 c (of_nat SP));
     base \<leftarrow> tss_base;
     new_esp \<leftarrow> ld32 (base + 4);
     new_ss \<leftarrow> ld16 (base + 8);
     write_sreg SS new_ss;
     cpu_upd (\<lambda>c. write_r32 c (of_nat SP) new_esp);
     ret (old_ss, old_esp)
   }"

definition do_interrupt_with_error :: "u8 \<Rightarrow> u32 option \<Rightarrow> unit exec" where
  "do_interrupt_with_error n error_code = do {
     (new_cs, new_ip, gate_is_32, is_trap) \<leftarrow> interrupt_gate n;
     fl \<leftarrow> cpu_get flags;
     cs \<leftarrow> cpu_get (\<lambda>c. sregs c ! CS);
     cpl_before \<leftarrow> cpu_get (\<lambda>c. if cr0 c AND 1 \<noteq> 0 then ucast (cs AND 3) else (0 :: u8));
     old \<leftarrow> (if gate_is_32 \<and> 0 < cpl_before then do { o' \<leftarrow> switch_stack; ret (Some o') } else ret None);
     (if gate_is_32 then do {
        (case old of Some (ss, esp) \<Rightarrow> do { push32 (ucast ss); push32 esp } | None \<Rightarrow> ret ());
        push32 (ucast fl);
        push32 (ucast cs);
        i \<leftarrow> cpu_get ip;
        push32 i;
        (case error_code of Some ec \<Rightarrow> push32 ec | None \<Rightarrow> ret ())
      }
      else do {
        push16 fl;
        push16 cs;
        i \<leftarrow> cpu_get ip;
        push16 (ucast i);
        (case error_code of Some ec \<Rightarrow> push16 (ucast ec) | None \<Rightarrow> ret ())
      });
     (if \<not> is_trap then cpu_upd (\<lambda>c. set_flag c IF False) else ret ());
     write_sreg CS new_cs;
     set_ip new_ip
   }"

definition do_interrupt :: "u8 \<Rightarrow> unit exec" where "do_interrupt n = do_interrupt_with_error n None"

section \<open>Exceptions\<close>

definition raise_de :: "u32 \<Rightarrow> unit exec" where
  "raise_de op_ip = do { set_ip op_ip; do_interrupt 0 }"

definition raise_gp :: "u32 \<Rightarrow> u32 \<Rightarrow> unit exec" where
  "raise_gp op_ip ec = do { set_ip op_ip; do_interrupt_with_error 13 (Some ec) }"

definition raise_gp_if_bad_selector :: "u16 \<Rightarrow> u32 \<Rightarrow> bool exec" where
  "raise_gp_if_bad_selector selector op_ip = do {
     bad \<leftarrow> cpu_get (\<lambda>c. selector_out_of_gdt c selector);
     if bad then do { raise_gp op_ip (ucast (selector AND 0xFFFC)); ret True } else ret False
   }"

definition raise_gp_if_gate_too_privileged :: "u8 \<Rightarrow> u32 \<Rightarrow> bool exec" where
  "raise_gp_if_gate_too_privileged vector op_ip = do {
     real \<leftarrow> cpu_get (\<lambda>c. cr0 c AND 1 = 0);
     if real then ret False
     else do {
       gate_addr \<leftarrow> cpu_get (\<lambda>c. dt_base (idtr c) + ucast vector * 8);
       access \<leftarrow> ld8 (gate_addr + 5);
       let gate_dpl = drop_bit 5 access AND 3;
       high \<leftarrow> cpu_get (\<lambda>c. gate_dpl < cpl c);
       if high then do { raise_gp op_ip (push_bit 3 (ucast vector) OR 2); ret True } else ret False
     }
   }"

definition raise_gp_if_user :: "u32 \<Rightarrow> bool exec" where
  "raise_gp_if_user op_ip = do {
     user \<leftarrow> cpu_get (\<lambda>c. cr0 c AND 1 \<noteq> 0 \<and> 0 < cpl c);
     if user then do { raise_gp op_ip 0; ret True } else ret False
   }"

definition raise_gp_if_below_iopl :: "u32 \<Rightarrow> bool exec" where
  "raise_gp_if_below_iopl op_ip = do {
     below \<leftarrow> cpu_get (\<lambda>c. cr0 c AND 1 \<noteq> 0 \<and> iopl c < cpl c);
     if below then do { raise_gp op_ip 0; ret True } else ret False
   }"

definition raise_gp_if_io_denied :: "u32 \<Rightarrow> u16 \<Rightarrow> u32 \<Rightarrow> bool exec" where
  "raise_gp_if_io_denied op_ip port width = do {
     ok \<leftarrow> io_access_permitted port width;
     if ok then ret False else do { raise_gp op_ip 0; ret True }
   }"

section \<open>Ports\<close>

definition port_read :: "u16 \<Rightarrow> u8 exec" where
  "port_read port =
     (if port = 0x92 then cpu_get (\<lambda>c. if a20 c then 2 else 0) else io_run (\<lambda>b. bus_read b port))"

definition port_write :: "u16 \<Rightarrow> u8 \<Rightarrow> unit exec" where
  "port_write port v =
     (if port = 0x92 then cpu_upd (\<lambda>c. c\<lparr>a20 := (v AND 2 \<noteq> 0)\<rparr>) else io_run (\<lambda>b. ((), bus_write b port v)))"

definition port_read_u32 :: "u16 \<Rightarrow> u32 exec" where
  "port_read_u32 port = do {
     b0 \<leftarrow> port_read port;
     b1 \<leftarrow> port_read (port + 1);
     b2 \<leftarrow> port_read (port + 2);
     b3 \<leftarrow> port_read (port + 3);
     ret (((ucast b0 OR push_bit 8 (ucast b1)) OR push_bit 16 (ucast b2)) OR push_bit 24 (ucast b3))
   }"

definition port_write_u32 :: "u16 \<Rightarrow> u32 \<Rightarrow> unit exec" where
  "port_write_u32 port v = do {
     port_write port (ucast v);
     port_write (port + 1) (ucast (drop_bit 8 v));
     port_write (port + 2) (ucast (drop_bit 16 v));
     port_write (port + 3) (ucast (drop_bit 24 v))
   }"

end
