(* ===== verification/CpuString.thy ===== *)
theory CpuString
  imports CpuInterrupt
begin

unbundle bit_operations_syntax

text \<open>
  The string instructions (\<^verbatim>\<open>step_movsb\<close> ... \<^verbatim>\<open>step_string_io\<close> and the REP loop of
  \<^verbatim>\<open>crates/cpu/src/lib.rs\<close>).  The REP loop takes the count register plus one as its fuel; that the
  fuel always suffices, and what REP MOVSB copies, is shown with the control flow.
\<close>

section \<open>Index registers\<close>

definition string_delta_n_u32 :: "cpu \<Rightarrow> u32 \<Rightarrow> u32" where
  "string_delta_n_u32 c width = (if has c DF then 0 - width else width)"

definition read_si_for_string :: "cpu \<Rightarrow> u32" where
  "read_si_for_string c = (if addr_size_32 c then read_r32 c (of_nat SI) else ucast (regs c ! SI))"

definition read_di_for_string :: "cpu \<Rightarrow> u32" where
  "read_di_for_string c = (if addr_size_32 c then read_r32 c (of_nat DI) else ucast (regs c ! DI))"

definition advance_si_for_string :: "u32 \<Rightarrow> cpu \<Rightarrow> cpu" where
  "advance_si_for_string delta c =
     (if addr_size_32 c then write_r32 c (of_nat SI) (read_r32 c (of_nat SI) + delta)
      else c\<lparr>regs := (regs c)[SI := regs c ! SI + ucast delta]\<rparr>)"

definition advance_di_for_string :: "u32 \<Rightarrow> cpu \<Rightarrow> cpu" where
  "advance_di_for_string delta c =
     (if addr_size_32 c then write_r32 c (of_nat DI) (read_r32 c (of_nat DI) + delta)
      else c\<lparr>regs := (regs c)[DI := regs c ! DI + ucast delta]\<rparr>)"

definition string_src_seg :: "cpu \<Rightarrow> nat" where "string_src_seg c = seg_or c DS"

definition string_src :: "cpu \<Rightarrow> u32" where
  "string_src c = linear_seg c (string_src_seg c) (read_si_for_string c)"

definition string_dst :: "cpu \<Rightarrow> u32" where "string_dst c = linear_seg c ES (read_di_for_string c)"

section \<open>One element\<close>

definition step_movsb :: "unit exec" where
  "step_movsb = do {
     src \<leftarrow> cpu_get string_src;
     dst \<leftarrow> cpu_get string_dst;
     v \<leftarrow> ld8 src;
     st8 dst v;
     d \<leftarrow> cpu_get (\<lambda>c. string_delta_n_u32 c 1);
     cpu_upd (advance_si_for_string d);
     cpu_upd (advance_di_for_string d)
   }"

definition step_movsw :: "unit exec" where
  "step_movsw = do {
     src \<leftarrow> cpu_get string_src;
     dst \<leftarrow> cpu_get string_dst;
     v \<leftarrow> ld16 src;
     st16 dst v;
     d \<leftarrow> cpu_get (\<lambda>c. string_delta_n_u32 c 2);
     cpu_upd (advance_si_for_string d);
     cpu_upd (advance_di_for_string d)
   }"

definition step_movsd :: "unit exec" where
  "step_movsd = do {
     src \<leftarrow> cpu_get string_src;
     dst \<leftarrow> cpu_get string_dst;
     v \<leftarrow> ld32 src;
     st32 dst v;
     d \<leftarrow> cpu_get (\<lambda>c. string_delta_n_u32 c 4);
     cpu_upd (advance_si_for_string d);
     cpu_upd (advance_di_for_string d)
   }"

definition step_stosb :: "unit exec" where
  "step_stosb = do {
     dst \<leftarrow> cpu_get string_dst;
     al \<leftarrow> cpu_get (\<lambda>c. read_r8 c 0);
     st8 dst al;
     d \<leftarrow> cpu_get (\<lambda>c. string_delta_n_u32 c 1);
     cpu_upd (advance_di_for_string d)
   }"

definition step_stosw :: "unit exec" where
  "step_stosw = do {
     dst \<leftarrow> cpu_get string_dst;
     ax \<leftarrow> cpu_get (\<lambda>c. regs c ! AX);
     st16 dst ax;
     d \<leftarrow> cpu_get (\<lambda>c. string_delta_n_u32 c 2);
     cpu_upd (advance_di_for_string d)
   }"

definition step_stosd :: "unit exec" where
  "step_stosd = do {
     dst \<leftarrow> cpu_get string_dst;
     eax \<leftarrow> cpu_get (\<lambda>c. read_r32 c 0);
     st32 dst eax;
     d \<leftarrow> cpu_get (\<lambda>c. string_delta_n_u32 c 4);
     cpu_upd (advance_di_for_string d)
   }"

definition step_lodsb :: "unit exec" where
  "step_lodsb = do {
     src \<leftarrow> cpu_get string_src;
     v \<leftarrow> ld8 src;
     cpu_upd (\<lambda>c. write_r8 c 0 v);
     d \<leftarrow> cpu_get (\<lambda>c. string_delta_n_u32 c 1);
     cpu_upd (advance_si_for_string d)
   }"

definition step_lodsw :: "unit exec" where
  "step_lodsw = do {
     src \<leftarrow> cpu_get string_src;
     v \<leftarrow> ld16 src;
     cpu_upd (\<lambda>c. c\<lparr>regs := (regs c)[AX := v]\<rparr>);
     d \<leftarrow> cpu_get (\<lambda>c. string_delta_n_u32 c 2);
     cpu_upd (advance_si_for_string d)
   }"

definition step_lodsd :: "unit exec" where
  "step_lodsd = do {
     src \<leftarrow> cpu_get string_src;
     v \<leftarrow> ld32 src;
     cpu_upd (\<lambda>c. write_r32 c 0 v);
     d \<leftarrow> cpu_get (\<lambda>c. string_delta_n_u32 c 4);
     cpu_upd (advance_si_for_string d)
   }"

definition step_scasb :: "unit exec" where
  "step_scasb = do {
     addr \<leftarrow> cpu_get string_dst;
     v \<leftarrow> ld8 addr;
     al \<leftarrow> cpu_get (\<lambda>c. read_r8 c 0);
     let r = al - v;
     cpu_upd (\<lambda>c. flags_sub8 c al v 0 r);
     d \<leftarrow> cpu_get (\<lambda>c. string_delta_n_u32 c 1);
     cpu_upd (advance_di_for_string d)
   }"

definition step_scasw :: "unit exec" where
  "step_scasw = do {
     addr \<leftarrow> cpu_get string_dst;
     v \<leftarrow> ld16 addr;
     ax \<leftarrow> cpu_get (\<lambda>c. regs c ! AX);
     let r = ax - v;
     cpu_upd (\<lambda>c. flags_sub16 c ax v 0 r);
     d \<leftarrow> cpu_get (\<lambda>c. string_delta_n_u32 c 2);
     cpu_upd (advance_di_for_string d)
   }"

definition step_scasd :: "unit exec" where
  "step_scasd = do {
     d_addr \<leftarrow> cpu_get string_dst;
     a \<leftarrow> cpu_get (\<lambda>c. read_r32 c 0);
     b \<leftarrow> ld32 d_addr;
     let r = a - b;
     cpu_upd (\<lambda>c. flags_sub32 c a b 0 r);
     d \<leftarrow> cpu_get (\<lambda>c. string_delta_n_u32 c 4);
     cpu_upd (advance_di_for_string d)
   }"

definition step_cmpsb :: "unit exec" where
  "step_cmpsb = do {
     s \<leftarrow> cpu_get string_src;
     d_addr \<leftarrow> cpu_get string_dst;
     a \<leftarrow> ld8 s;
     b \<leftarrow> ld8 d_addr;
     let r = a - b;
     cpu_upd (\<lambda>c. flags_sub8 c a b 0 r);
     d \<leftarrow> cpu_get (\<lambda>c. string_delta_n_u32 c 1);
     cpu_upd (advance_si_for_string d);
     cpu_upd (advance_di_for_string d)
   }"

definition step_cmpsw :: "unit exec" where
  "step_cmpsw = do {
     s \<leftarrow> cpu_get string_src;
     d_addr \<leftarrow> cpu_get string_dst;
     a \<leftarrow> ld16 s;
     b \<leftarrow> ld16 d_addr;
     let r = a - b;
     cpu_upd (\<lambda>c. flags_sub16 c a b 0 r);
     d \<leftarrow> cpu_get (\<lambda>c. string_delta_n_u32 c 2);
     cpu_upd (advance_si_for_string d);
     cpu_upd (advance_di_for_string d)
   }"

definition step_cmpsd :: "unit exec" where
  "step_cmpsd = do {
     s \<leftarrow> cpu_get string_src;
     d_addr \<leftarrow> cpu_get string_dst;
     a \<leftarrow> ld32 s;
     b \<leftarrow> ld32 d_addr;
     let r = a - b;
     cpu_upd (\<lambda>c. flags_sub32 c a b 0 r);
     d \<leftarrow> cpu_get (\<lambda>c. string_delta_n_u32 c 4);
     cpu_upd (advance_si_for_string d);
     cpu_upd (advance_di_for_string d)
   }"

definition by_size :: "'a exec \<Rightarrow> 'a exec \<Rightarrow> 'a exec" where
  "by_size dword word = do { b \<leftarrow> cpu_get op_size_32; if b then dword else word }"

definition step_string :: "u8 \<Rightarrow> bool exec" where
  "step_string inner =
     (if inner = 0xA4 then do { step_movsb; ret True }
      else if inner = 0xA5 then do { by_size step_movsd step_movsw; ret True }
      else if inner = 0xA6 then do { step_cmpsb; ret True }
      else if inner = 0xA7 then do { by_size step_cmpsd step_cmpsw; ret True }
      else if inner = 0xAA then do { step_stosb; ret True }
      else if inner = 0xAB then do { by_size step_stosd step_stosw; ret True }
      else if inner = 0xAC then do { step_lodsb; ret True }
      else if inner = 0xAD then do { by_size step_lodsd step_lodsw; ret True }
      else if inner = 0xAE then do { step_scasb; ret True }
      else if inner = 0xAF then do { by_size step_scasd step_scasw; ret True }
      else ret False)"

section \<open>Port strings\<close>

definition step_string_io :: "u8 \<Rightarrow> unit exec" where
  "step_string_io inner = do {
     port \<leftarrow> cpu_get (\<lambda>c. regs c ! DX);
     step_size \<leftarrow> cpu_get (\<lambda>c. if inner = 0x6C \<or> inner = 0x6E then (1 :: u32) else if op_size_32 c then 4 else 2);
     delta \<leftarrow> cpu_get (\<lambda>c. if has c DF then - step_size else step_size);
     if inner = 0x6C \<or> inner = 0x6D then do {
       l \<leftarrow> cpu_get string_dst;
       (if step_size = 1 then do {
          v \<leftarrow> port_read port;
          st8 l v
        }
        else if step_size = 2 then do {
          lo \<leftarrow> port_read port;
          hi \<leftarrow> port_read (port + 1);
          st16 l (ucast lo OR push_bit 8 (ucast hi))
        }
        else do {
          v \<leftarrow> port_read_u32 port;
          st32 l v
        });
       cpu_upd (advance_di_for_string delta)
     }
     else do {
       l \<leftarrow> cpu_get string_src;
       (if step_size = 1 then do {
          v \<leftarrow> ld8 l;
          port_write port v
        }
        else if step_size = 2 then do {
          v \<leftarrow> ld16 l;
          port_write port (ucast v);
          port_write (port + 1) (ucast (drop_bit 8 v))
        }
        else do {
          v \<leftarrow> ld32 l;
          port_write_u32 port v
        });
       cpu_upd (advance_si_for_string delta)
     }
   }"

section \<open>Repetition\<close>

definition rep_count :: "cpu \<Rightarrow> u32" where
  "rep_count c = (if addr_size_32 c then read_r32 c (of_nat CX) else ucast (regs c ! CX))"

definition rep_decrement :: "cpu \<Rightarrow> cpu" where
  "rep_decrement c =
     (if addr_size_32 c then write_r32 c (of_nat CX) (read_r32 c (of_nat CX) - 1)
      else c\<lparr>regs := (regs c)[CX := regs c ! CX - 1]\<rparr>)"

definition string_rollback :: "u32 \<Rightarrow> u32 \<Rightarrow> u16 \<Rightarrow> cpu \<Rightarrow> cpu" where
  "string_rollback esi edi fl c = (write_r32 (write_r32 c (of_nat SI) esi) (of_nat DI) edi)\<lparr>flags := fl\<rparr>"

datatype rep_next = RepStop | RepAgain | RepFail cpu_error

definition rep_body :: "bool \<Rightarrow> u8 \<Rightarrow> u16 \<Rightarrow> u32 \<Rightarrow> rep_next exec" where
  "rep_body rep_zero inner op_cs op_ip = do {
     let conditional = (inner \<in> {0xA6, 0xA7, 0xAE, 0xAF});
     let is_io = (0x6C \<le> inner \<and> inner \<le> 0x6F);
     esi \<leftarrow> cpu_get (\<lambda>c. read_r32 c (of_nat SI));
     edi \<leftarrow> cpu_get (\<lambda>c. read_r32 c (of_nat DI));
     fl \<leftarrow> cpu_get flags;
     ok \<leftarrow> (if is_io then do { step_string_io inner; ret True } else step_string inner);
     if \<not> ok then ret (RepFail (Unimplemented inner op_cs op_ip))
     else do {
       f \<leftarrow> faulted;
       if f then do { cpu_upd (string_rollback esi edi fl); ret RepStop }
       else do {
         cpu_upd rep_decrement;
         zf \<leftarrow> cpu_get (\<lambda>c. has c ZF);
         ret (if conditional \<and> (rep_zero \<and> \<not> zf \<or> \<not> rep_zero \<and> zf) then RepStop else RepAgain)
       }
     }
   }"

text \<open>
  The loop, with the number of rounds as fuel: \<open>rep_loop\<close> gives it the count register plus one, the
  round that finds the register zero included.
\<close>

fun rep_rounds :: "nat \<Rightarrow> bool \<Rightarrow> u8 \<Rightarrow> u16 \<Rightarrow> u32 \<Rightarrow> (cpu_error option) option exec" where
  "rep_rounds 0 rep_zero inner op_cs op_ip = ret None"
| "rep_rounds (Suc n) rep_zero inner op_cs op_ip = do {
     count \<leftarrow> cpu_get rep_count;
     if count = 0 then ret (Some None)
     else do {
       r \<leftarrow> rep_body rep_zero inner op_cs op_ip;
       (case r of RepStop \<Rightarrow> ret (Some None) | RepFail e \<Rightarrow> ret (Some (Some e))
        | RepAgain \<Rightarrow> rep_rounds n rep_zero inner op_cs op_ip)
     }
   }"

definition rep_loop :: "bool \<Rightarrow> u8 \<Rightarrow> u16 \<Rightarrow> u32 \<Rightarrow> (cpu_error option) option exec" where
  "rep_loop rep_zero inner op_cs op_ip = do {
     count \<leftarrow> cpu_get rep_count;
     rep_rounds (Suc (unat count)) rep_zero inner op_cs op_ip
   }"

end
