(* ===== verification/CpuOps.thy ===== *)
theory CpuOps
  imports CpuString
begin

unbundle bit_operations_syntax

text \<open>
  The one-byte opcodes of \<^verbatim>\<open>Cpu::step\<close> (\<^verbatim>\<open>crates/cpu/src/lib.rs\<close>), one definition per arm of its
  \<^verbatim>\<open>match\<close>: data movement, arithmetic, control transfer, stack, segment, string, port and decimal
  instructions.  A handler falls through to the end of \<^verbatim>\<open>step\<close> (\<open>Next\<close>), returns early with
  \<^verbatim>\<open>Ok(())\<close> (\<open>Return\<close>), or fails (\<open>Fail\<close>).  The operand size picks the dword or the word form.
\<close>

datatype outcome = Next | Return | Fail cpu_error

definition nx :: "unit exec \<Rightarrow> outcome exec" where "nx a = do { a; ret Next }"

abbreviation unimp :: "u8 \<Rightarrow> u16 \<Rightarrow> u32 \<Rightarrow> outcome exec" where
  "unimp opcode op_cs op_ip \<equiv> ret (Fail (Unimplemented opcode op_cs op_ip))"

text \<open>An early return after an exception was raised.\<close>

definition guarded :: "bool exec \<Rightarrow> outcome exec \<Rightarrow> outcome exec" where
  "guarded g a = do { raised \<leftarrow> g; if raised then ret Return else a }"

definition de :: "u32 \<Rightarrow> outcome exec" where "de op_ip = do { raise_de op_ip; ret Return }"

abbreviation reg16 :: "nat \<Rightarrow> u16 exec" where "reg16 i \<equiv> cpu_get (\<lambda>c. regs c ! i)"
abbreviation set_reg16 :: "nat \<Rightarrow> u16 \<Rightarrow> unit exec" where
  "set_reg16 i v \<equiv> cpu_upd (\<lambda>c. c\<lparr>regs := (regs c)[i := v]\<rparr>)"
abbreviation r8 :: "u8 \<Rightarrow> u8 exec" where "r8 i \<equiv> cpu_get (\<lambda>c. read_r8 c i)"
abbreviation r16 :: "u8 \<Rightarrow> u16 exec" where "r16 i \<equiv> cpu_get (\<lambda>c. read_r16 c i)"
abbreviation r32 :: "u8 \<Rightarrow> u32 exec" where "r32 i \<equiv> cpu_get (\<lambda>c. read_r32 c i)"
abbreviation w8 :: "u8 \<Rightarrow> u8 \<Rightarrow> unit exec" where "w8 i v \<equiv> cpu_upd (\<lambda>c. write_r8 c i v)"
abbreviation w16 :: "u8 \<Rightarrow> u16 \<Rightarrow> unit exec" where "w16 i v \<equiv> cpu_upd (\<lambda>c. write_r16 c i v)"
abbreviation w32 :: "u8 \<Rightarrow> u32 \<Rightarrow> unit exec" where "w32 i v \<equiv> cpu_upd (\<lambda>c. write_r32 c i v)"
abbreviation flag_to :: "u16 \<Rightarrow> bool \<Rightarrow> unit exec" where "flag_to f v \<equiv> cpu_upd (\<lambda>c. set_flag c f v)"
abbreviation flag_of :: "u16 \<Rightarrow> bool exec" where "flag_of f \<equiv> cpu_get (\<lambda>c. has c f)"

definition jump_rel :: "u32 \<Rightarrow> unit exec" where "jump_rel rel = cpu_upd (\<lambda>c. c\<lparr>ip := ip c + rel\<rparr>)"

section \<open>The standard ALU forms\<close>

definition alu_store8 :: "(u8 \<Rightarrow> unit exec) \<Rightarrow> u8 \<Rightarrow> u8 \<Rightarrow> u8 \<Rightarrow> unit exec" where
  "alu_store8 store op a b = do {
     (r, wb) \<leftarrow> cpu_run (\<lambda>c. alu_apply8 c op a b);
     if wb then store r else ret ()
   }"

definition alu_store16 :: "(u16 \<Rightarrow> unit exec) \<Rightarrow> u8 \<Rightarrow> u16 \<Rightarrow> u16 \<Rightarrow> unit exec" where
  "alu_store16 store op a b = do {
     (r, wb) \<leftarrow> cpu_run (\<lambda>c. alu_apply16 c op a b);
     if wb then store r else ret ()
   }"

definition alu_store32 :: "(u32 \<Rightarrow> unit exec) \<Rightarrow> u8 \<Rightarrow> u32 \<Rightarrow> u32 \<Rightarrow> unit exec" where
  "alu_store32 store op a b = do {
     (r, wb) \<leftarrow> cpu_run (\<lambda>c. alu_apply32 c op a b);
     if wb then store r else ret ()
   }"

definition alu_dispatch :: "u8 \<Rightarrow> outcome exec" where
  "alu_dispatch opcode =
     (let op = drop_bit 3 opcode AND 7; variant = opcode AND 7 in
      if variant = 0 then do {
        (_, reg, rm) \<leftarrow> fetch_modrm;
        a \<leftarrow> read_rm8 rm; b \<leftarrow> r8 reg;
        nx (alu_store8 (write_rm8 rm) op a b)
      }
      else if variant = 1 then do {
        (_, reg, rm) \<leftarrow> fetch_modrm;
        by_size (do { a \<leftarrow> read_rm32 rm; b \<leftarrow> r32 reg; nx (alu_store32 (write_rm32 rm) op a b) })
          (do { a \<leftarrow> read_rm16 rm; b \<leftarrow> r16 reg; nx (alu_store16 (write_rm16 rm) op a b) })
      }
      else if variant = 2 then do {
        (_, reg, rm) \<leftarrow> fetch_modrm;
        a \<leftarrow> r8 reg; b \<leftarrow> read_rm8 rm;
        nx (alu_store8 (w8 reg) op a b)
      }
      else if variant = 3 then do {
        (_, reg, rm) \<leftarrow> fetch_modrm;
        by_size (do { a \<leftarrow> r32 reg; b \<leftarrow> read_rm32 rm; nx (alu_store32 (w32 reg) op a b) })
          (do { a \<leftarrow> r16 reg; b \<leftarrow> read_rm16 rm; nx (alu_store16 (w16 reg) op a b) })
      }
      else if variant = 4 then do {
        imm \<leftarrow> fetch_u8; a \<leftarrow> r8 0;
        nx (alu_store8 (w8 0) op a imm)
      }
      else
        by_size (do { b \<leftarrow> fetch_pair; a \<leftarrow> r32 0; nx (alu_store32 (w32 0) op a b) })
          (do { imm \<leftarrow> fetch_u16; a \<leftarrow> r16 0; nx (alu_store16 (w16 0) op a imm) }))"

section \<open>Flags, moves and jumps\<close>

definition op_hlt :: "u32 \<Rightarrow> outcome exec" where
  "op_hlt op_ip = do {
     user \<leftarrow> cpu_get (\<lambda>c. cr0 c AND 1 \<noteq> 0 \<and> sregs c ! CS AND 3 \<noteq> 0);
     if user then do { raise_gp op_ip 0; ret Return }
     else nx (cpu_upd (\<lambda>c. c\<lparr>halted := True\<rparr>))
   }"

definition op_cli :: "u32 \<Rightarrow> outcome exec" where
  "op_cli op_ip = guarded (raise_gp_if_below_iopl op_ip) (nx (flag_to IF False))"

definition op_sti :: "u32 \<Rightarrow> outcome exec" where
  "op_sti op_ip = guarded (raise_gp_if_below_iopl op_ip) (nx (flag_to IF True))"

definition op_mov_r8_imm :: "u8 \<Rightarrow> outcome exec" where
  "op_mov_r8_imm opcode = do { imm \<leftarrow> fetch_u8; nx (w8 (opcode - 0xB0) imm) }"

definition op_mov_r_imm :: "u8 \<Rightarrow> outcome exec" where
  "op_mov_r_imm opcode =
     (let reg = opcode - 0xB8 in
      by_size (do { v \<leftarrow> fetch_pair; nx (w32 reg v) }) (do { imm \<leftarrow> fetch_u16; nx (w16 reg imm) }))"

definition op_jmp_rel8 :: "outcome exec" where
  "op_jmp_rel8 = do { rel \<leftarrow> fetch_u8; nx (jump_rel (scast rel)) }"

definition fetch_rel :: "u32 exec" where
  "fetch_rel = by_size fetch_pair (do { w \<leftarrow> fetch_u16; ret (scast w) })"

definition op_jmp_rel :: "outcome exec" where
  "op_jmp_rel = do { rel \<leftarrow> fetch_rel; nx (jump_rel rel) }"

definition op_jcc_rel8 :: "u8 \<Rightarrow> outcome exec" where
  "op_jcc_rel8 opcode = do {
     rel \<leftarrow> fetch_u8;
     taken \<leftarrow> cpu_get (\<lambda>c. eval_cond c (opcode AND 0x0F));
     nx (if taken then jump_rel (scast rel) else ret ())
   }"

definition op_loop :: "u8 \<Rightarrow> outcome exec" where
  "op_loop opcode = do {
     rel \<leftarrow> fetch_u8;
     a32 \<leftarrow> cpu_get addr_size_32;
     counter_nonzero \<leftarrow> (if a32 then do {
         n \<leftarrow> cpu_get (\<lambda>c. read_r32 c (of_nat CX) - 1);
         w32 (of_nat CX) n;
         ret (n \<noteq> 0)
       }
       else do {
         n \<leftarrow> cpu_get (\<lambda>c. regs c ! CX - 1);
         set_reg16 CX n;
         ret (n \<noteq> 0)
       });
     zf \<leftarrow> flag_of ZF;
     let cond = (if opcode = 0xE2 then True else if opcode = 0xE1 then zf else \<not> zf);
     nx (if counter_nonzero \<and> cond then jump_rel (scast rel) else ret ())
   }"

definition op_jcxz :: "outcome exec" where
  "op_jcxz = do {
     rel \<leftarrow> fetch_u8;
     counter_zero \<leftarrow> cpu_get (\<lambda>c. if addr_size_32 c then read_r32 c (of_nat CX) = 0 else regs c ! CX = 0);
     nx (if counter_zero then jump_rel (scast rel) else ret ())
   }"

section \<open>Single string operations, shifts and REP\<close>

definition op_string :: "u8 \<Rightarrow> outcome exec" where
  "op_string opcode = do {
     esi \<leftarrow> cpu_get (\<lambda>c. read_r32 c (of_nat SI));
     edi \<leftarrow> cpu_get (\<lambda>c. read_r32 c (of_nat DI));
     fl \<leftarrow> cpu_get flags;
     _ \<leftarrow> step_string opcode;
     f \<leftarrow> faulted;
     nx (if f then cpu_upd (string_rollback esi edi fl) else ret ())
   }"

definition op_shift :: "u8 \<Rightarrow> outcome exec" where
  "op_shift opcode = do {
     let is_wide = (opcode \<in> {0xD1, 0xD3, 0xC1});
     (_, sub, rm) \<leftarrow> fetch_modrm;
     count \<leftarrow> (if opcode = 0xD0 \<or> opcode = 0xD1 then ret 1
                else if opcode = 0xD2 \<or> opcode = 0xD3 then r8 1 else fetch_u8);
     if \<not> is_wide then do {
       v \<leftarrow> read_rm8 rm;
       r \<leftarrow> cpu_run (\<lambda>c. shift_apply8 c sub v count);
       (case r of Inl e \<Rightarrow> ret (Fail e) | Inr x \<Rightarrow> nx (write_rm8 rm x))
     }
     else
       by_size (do {
         v \<leftarrow> read_rm32 rm;
         r \<leftarrow> cpu_run (\<lambda>c. shift_apply32 c sub v count);
         (case r of Inl e \<Rightarrow> ret (Fail e) | Inr x \<Rightarrow> nx (write_rm32 rm x)) })
       (do {
         v \<leftarrow> read_rm16 rm;
         r \<leftarrow> cpu_run (\<lambda>c. shift_apply16 c sub v count);
         (case r of Inl e \<Rightarrow> ret (Fail e) | Inr x \<Rightarrow> nx (write_rm16 rm x)) })
   }"

text \<open>A prefix byte sets its override; any other byte is the opcode.\<close>

definition prefix_effect :: "u8 \<Rightarrow> (cpu \<Rightarrow> cpu) option" where
  "prefix_effect b =
     (if b = 0x26 then Some (\<lambda>c. c\<lparr>seg_override := Some ES\<rparr>)
      else if b = 0x2E then Some (\<lambda>c. c\<lparr>seg_override := Some CS\<rparr>)
      else if b = 0x36 then Some (\<lambda>c. c\<lparr>seg_override := Some SS\<rparr>)
      else if b = 0x3E then Some (\<lambda>c. c\<lparr>seg_override := Some DS\<rparr>)
      else if b = 0x64 then Some (\<lambda>c. c\<lparr>seg_override := Some FS\<rparr>)
      else if b = 0x65 then Some (\<lambda>c. c\<lparr>seg_override := Some GS\<rparr>)
      else if b = 0x66 then Some (\<lambda>c. c\<lparr>op_size_32 := \<not> code_size_32 c\<rparr>)
      else if b = 0x67 then Some (\<lambda>c. c\<lparr>addr_size_32 := \<not> code_size_32 c\<rparr>)
      else None)"

text \<open>
  The prefix loop has no bound in the source; it ends at the first byte that is not a prefix.  Running
  out of fuel is \<open>None\<close>.
\<close>

fun fetch_opcode :: "nat \<Rightarrow> u8 option exec" where
  "fetch_opcode 0 = ret None"
| "fetch_opcode (Suc n) = do {
     b \<leftarrow> fetch_u8;
     (case prefix_effect b of None \<Rightarrow> ret (Some b) | Some f \<Rightarrow> do { cpu_upd f; fetch_opcode n })
   }"

section \<open>Test, exchange and move\<close>

definition op_test8 :: "outcome exec" where
  "op_test8 = do {
     (_, reg, rm) \<leftarrow> fetch_modrm;
     a \<leftarrow> read_rm8 rm; b \<leftarrow> r8 reg;
     nx (cpu_upd (\<lambda>c. flags_logic8 c (a AND b)))
   }"

definition op_test :: "outcome exec" where
  "op_test = do {
     (_, reg, rm) \<leftarrow> fetch_modrm;
     by_size (do { a \<leftarrow> read_rm32 rm; b \<leftarrow> r32 reg; nx (cpu_upd (\<lambda>c. flags_logic32 c (a AND b))) })
       (do { a \<leftarrow> read_rm16 rm; b \<leftarrow> r16 reg; nx (cpu_upd (\<lambda>c. flags_logic16 c (a AND b))) })
   }"

definition op_xchg8 :: "outcome exec" where
  "op_xchg8 = do {
     (_, reg, rm) \<leftarrow> fetch_modrm;
     a \<leftarrow> read_rm8 rm; b \<leftarrow> r8 reg;
     write_rm8 rm b;
     nx (w8 reg a)
   }"

definition op_xchg :: "outcome exec" where
  "op_xchg = do {
     (_, reg, rm) \<leftarrow> fetch_modrm;
     by_size (do { a \<leftarrow> read_rm32 rm; b \<leftarrow> r32 reg; write_rm32 rm b; nx (w32 reg a) })
       (do { a \<leftarrow> read_rm16 rm; b \<leftarrow> r16 reg; write_rm16 rm b; nx (w16 reg a) })
   }"

definition op_mov_rm8_r8 :: "outcome exec" where
  "op_mov_rm8_r8 = do { (_, reg, rm) \<leftarrow> fetch_modrm; v \<leftarrow> r8 reg; nx (write_rm8 rm v) }"

definition op_mov_rm_r :: "outcome exec" where
  "op_mov_rm_r = do {
     (_, reg, rm) \<leftarrow> fetch_modrm;
     by_size (do { v \<leftarrow> r32 reg; nx (write_rm32 rm v) }) (do { v \<leftarrow> r16 reg; nx (write_rm16 rm v) })
   }"

definition op_mov_r8_rm8 :: "outcome exec" where
  "op_mov_r8_rm8 = do { (_, reg, rm) \<leftarrow> fetch_modrm; v \<leftarrow> read_rm8 rm; nx (w8 reg v) }"

definition op_mov_r_rm :: "outcome exec" where
  "op_mov_r_rm = do {
     (_, reg, rm) \<leftarrow> fetch_modrm;
     by_size (do { v \<leftarrow> read_rm32 rm; nx (w32 reg v) }) (do { v \<leftarrow> read_rm16 rm; nx (w16 reg v) })
   }"

definition op_mov_rm_sreg :: "u8 \<Rightarrow> u16 \<Rightarrow> u32 \<Rightarrow> outcome exec" where
  "op_mov_rm_sreg opcode op_cs op_ip = do {
     (_, sreg_idx, rm) \<leftarrow> fetch_modrm;
     if 5 < sreg_idx then unimp opcode op_cs op_ip
     else do { v \<leftarrow> cpu_get (\<lambda>c. sregs c ! unat sreg_idx); nx (write_rm16 rm v) }
   }"

definition op_lea :: "u8 \<Rightarrow> u16 \<Rightarrow> u32 \<Rightarrow> outcome exec" where
  "op_lea opcode op_cs op_ip = do {
     (_, reg, rm) \<leftarrow> fetch_modrm;
     (case rm of
        Mem ea \<Rightarrow> by_size (nx (w32 reg (ea_off ea))) (nx (w16 reg (ucast (ea_off ea))))
      | Reg _ \<Rightarrow> unimp opcode op_cs op_ip)
   }"

definition op_mov_sreg_rm :: "u8 \<Rightarrow> u16 \<Rightarrow> u32 \<Rightarrow> outcome exec" where
  "op_mov_sreg_rm opcode op_cs op_ip = do {
     (_, sreg_idx, rm) \<leftarrow> fetch_modrm;
     if 5 < sreg_idx then unimp opcode op_cs op_ip
     else do {
       v \<leftarrow> read_rm16 rm;
       guarded (raise_gp_if_bad_selector v op_ip) (nx (write_sreg (unat sreg_idx) v))
     }
   }"

definition op_pop_rm :: "u8 \<Rightarrow> u16 \<Rightarrow> u32 \<Rightarrow> outcome exec" where
  "op_pop_rm opcode op_cs op_ip = do {
     (_, reg_ext, rm) \<leftarrow> fetch_modrm;
     if reg_ext \<noteq> 0 then unimp opcode op_cs op_ip
     else by_size (do { v \<leftarrow> pop32; nx (write_rm32 rm v) }) (do { v \<leftarrow> pop16; nx (write_rm16 rm v) })
   }"

definition op_xchg_ax :: "u8 \<Rightarrow> outcome exec" where
  "op_xchg_ax opcode =
     (let i = opcode - 0x90 in
      by_size (do {
        eax \<leftarrow> r32 (of_nat AX); other \<leftarrow> r32 i;
        w32 (of_nat AX) other; nx (w32 i eax) })
      (do {
        ax \<leftarrow> reg16 AX; other \<leftarrow> reg16 (unat i);
        set_reg16 AX other; nx (set_reg16 (unat i) ax) }))"

definition op_load_far :: "nat \<Rightarrow> u8 \<Rightarrow> u16 \<Rightarrow> u32 \<Rightarrow> outcome exec" where
  "op_load_far seg opcode op_cs op_ip = do {
     (_, reg, rm) \<leftarrow> fetch_modrm;
     (case rm of
        Reg _ \<Rightarrow> unimp opcode op_cs op_ip
      | Mem ea \<Rightarrow> do {
          l \<leftarrow> ea_linear ea;
          off_val \<leftarrow> ld16 l;
          l2 \<leftarrow> cpu_get (\<lambda>c. linear_seg c (ea_seg ea) (ea_off ea + 2));
          seg_val \<leftarrow> ld16 l2;
          guarded (raise_gp_if_bad_selector seg_val op_ip)
            (do { w16 reg off_val; nx (write_sreg seg seg_val) })
        })
   }"

section \<open>Groups 1 and 3 to 5\<close>

definition op_alu_rm8_imm8 :: "outcome exec" where
  "op_alu_rm8_imm8 = do {
     (_, op, rm) \<leftarrow> fetch_modrm;
     imm \<leftarrow> fetch_u8; a \<leftarrow> read_rm8 rm;
     nx (alu_store8 (write_rm8 rm) op a imm)
   }"

definition op_alu_rm_imm :: "outcome exec" where
  "op_alu_rm_imm = do {
     (_, op, rm) \<leftarrow> fetch_modrm;
     by_size (do { imm \<leftarrow> fetch_pair; a \<leftarrow> read_rm32 rm; nx (alu_store32 (write_rm32 rm) op a imm) })
       (do { imm \<leftarrow> fetch_u16; a \<leftarrow> read_rm16 rm; nx (alu_store16 (write_rm16 rm) op a imm) })
   }"

definition op_alu_rm_imm8s :: "outcome exec" where
  "op_alu_rm_imm8s = do {
     (_, op, rm) \<leftarrow> fetch_modrm;
     by_size (do { imm \<leftarrow> fetch_u8; a \<leftarrow> read_rm32 rm; nx (alu_store32 (write_rm32 rm) op a (scast imm)) })
       (do { imm \<leftarrow> fetch_u8; a \<leftarrow> read_rm16 rm; nx (alu_store16 (write_rm16 rm) op a (scast imm)) })
   }"

text \<open>Rust's \<^verbatim>\<open>checked_div\<close> and \<^verbatim>\<open>%\<close> on the two's-complement value range of \<open>w\<close> bits: truncating division,
  undefined where the quotient leaves the range.\<close>

definition quot :: "int \<Rightarrow> int \<Rightarrow> int" where "quot a b = sgn a * sgn b * (\<bar>a\<bar> div \<bar>b\<bar>)"
definition rem_int :: "int \<Rightarrow> int \<Rightarrow> int" where "rem_int a b = a - b * quot a b"
definition checked_div :: "nat \<Rightarrow> int \<Rightarrow> int \<Rightarrow> int option" where
  "checked_div w a b = (if b = 0 \<or> a = - (2 ^ (w - 1)) \<and> b = - 1 then None else Some (quot a b))"

definition mul_flags :: "bool \<Rightarrow> unit exec" where
  "mul_flags v = do { flag_to CF v; flag_to OF v }"

definition op_group3_8 :: "u8 \<Rightarrow> u16 \<Rightarrow> u32 \<Rightarrow> outcome exec" where
  "op_group3_8 opcode op_cs op_ip = do {
     (_, sub, rm) \<leftarrow> fetch_modrm;
     if sub = 0 \<or> sub = 1 then do {
       imm \<leftarrow> fetch_u8; v \<leftarrow> read_rm8 rm;
       nx (cpu_upd (\<lambda>c. flags_logic8 c (v AND imm)))
     }
     else if sub = 2 then do { v \<leftarrow> read_rm8 rm; nx (write_rm8 rm (NOT v)) }
     else if sub = 3 then do {
       v \<leftarrow> read_rm8 rm;
       let r = 0 - v;
       cpu_upd (\<lambda>c. flags_sub8 c 0 v 0 r);
       nx (write_rm8 rm r)
     }
     else if sub = 4 then do {
       v \<leftarrow> read_rm8 rm; al \<leftarrow> r8 0;
       let result = (ucast al :: u16) * ucast v;
       set_reg16 AX result;
       nx (mul_flags ((ucast (drop_bit 8 result) :: u8) \<noteq> 0))
     }
     else if sub = 5 then do {
       v \<leftarrow> read_rm8 rm; al \<leftarrow> r8 0;
       let result = (scast al :: u16) * scast v;
       set_reg16 AX result;
       nx (mul_flags ((scast (ucast result :: u8) :: u16) \<noteq> result))
     }
     else if sub = 6 then do {
       v \<leftarrow> read_rm8 rm;
       if v = 0 then de op_ip
       else do {
         ax \<leftarrow> reg16 AX;
         let q = ax div ucast v;
         let r = ax mod ucast v;
         if 0xFF < q then de op_ip
         else do { w8 0 (ucast q); nx (w8 4 (ucast r)) }
       }
     }
     else if sub = 7 then do {
       v \<leftarrow> read_rm8 rm;
       if v = 0 then de op_ip
       else do {
         ax \<leftarrow> reg16 AX;
         (case checked_div 16 (sint ax) (sint v) of
            None \<Rightarrow> de op_ip
          | Some q \<Rightarrow>
              if q < - 128 \<or> 127 < q then de op_ip
              else do { w8 0 (of_int q); nx (w8 4 (of_int (rem_int (sint ax) (sint v)))) })
       }
     }
     else unimp opcode op_cs op_ip
   }"

definition op_group3_32 :: "u8 \<Rightarrow> u16 \<Rightarrow> u32 \<Rightarrow> u8 \<Rightarrow> rm \<Rightarrow> outcome exec" where
  "op_group3_32 opcode op_cs op_ip sub rm =
     (if sub = 0 \<or> sub = 1 then do {
       imm \<leftarrow> fetch_pair; v \<leftarrow> read_rm32 rm;
       nx (cpu_upd (\<lambda>c. flags_logic32 c (v AND imm)))
     }
     else if sub = 2 then do { v \<leftarrow> read_rm32 rm; nx (write_rm32 rm (NOT v)) }
     else if sub = 3 then do {
       v \<leftarrow> read_rm32 rm;
       let r = 0 - v;
       cpu_upd (\<lambda>c. flags_sub32 c 0 v 0 r);
       nx (write_rm32 rm r)
     }
     else if sub = 4 then do {
       v \<leftarrow> read_rm32 rm; eax \<leftarrow> r32 0;
       let result = (ucast eax :: u64) * ucast v;
       w32 0 (ucast result);
       w32 2 (ucast (drop_bit 32 result));
       nx (mul_flags (drop_bit 32 result \<noteq> 0))
     }
     else if sub = 5 then do {
       v \<leftarrow> read_rm32 rm; eax \<leftarrow> r32 0;
       let result = (scast eax :: u64) * scast v;
       w32 0 (ucast result);
       w32 2 (ucast (drop_bit 32 result));
       nx (mul_flags ((scast (ucast result :: u32) :: u64) \<noteq> result))
     }
     else if sub = 6 then do {
       v \<leftarrow> read_rm32 rm;
       if v = 0 then de op_ip
       else do {
         hi \<leftarrow> r32 2; lo \<leftarrow> r32 0;
         let dividend = push_bit 32 (ucast hi :: u64) OR ucast lo;
         let q = dividend div ucast v;
         let r = dividend mod ucast v;
         if 0xFFFFFFFF < q then de op_ip
         else do { w32 0 (ucast q); nx (w32 2 (ucast r)) }
       }
     }
     else if sub = 7 then do {
       v \<leftarrow> read_rm32 rm;
       if v = 0 then de op_ip
       else do {
         hi \<leftarrow> r32 2; lo \<leftarrow> r32 0;
         let dividend = sint (push_bit 32 (ucast hi :: u64) OR ucast lo);
         (case checked_div 64 dividend (sint v) of
            None \<Rightarrow> de op_ip
          | Some q \<Rightarrow>
              if q < - (2 ^ 31) \<or> 2 ^ 31 - 1 < q then de op_ip
              else do { w32 0 (of_int q); nx (w32 2 (of_int (rem_int dividend (sint v)))) })
       }
     }
     else unimp opcode op_cs op_ip)"

definition op_group3_16 :: "u8 \<Rightarrow> u16 \<Rightarrow> u32 \<Rightarrow> u8 \<Rightarrow> rm \<Rightarrow> outcome exec" where
  "op_group3_16 opcode op_cs op_ip sub rm =
     (if sub = 0 \<or> sub = 1 then do {
       imm \<leftarrow> fetch_u16; v \<leftarrow> read_rm16 rm;
       nx (cpu_upd (\<lambda>c. flags_logic16 c (v AND imm)))
     }
     else if sub = 2 then do { v \<leftarrow> read_rm16 rm; nx (write_rm16 rm (NOT v)) }
     else if sub = 3 then do {
       v \<leftarrow> read_rm16 rm;
       let r = 0 - v;
       cpu_upd (\<lambda>c. flags_sub16 c 0 v 0 r);
       nx (write_rm16 rm r)
     }
     else if sub = 4 then do {
       v \<leftarrow> read_rm16 rm; ax \<leftarrow> reg16 AX;
       let result = (ucast ax :: u32) * ucast v;
       set_reg16 AX (ucast result);
       set_reg16 DX (ucast (drop_bit 16 result));
       nx (mul_flags ((ucast (drop_bit 16 result) :: u16) \<noteq> 0))
     }
     else if sub = 5 then do {
       v \<leftarrow> read_rm16 rm; ax \<leftarrow> reg16 AX;
       let result = (scast ax :: u32) * scast v;
       set_reg16 AX (ucast result);
       set_reg16 DX (ucast (drop_bit 16 result));
       nx (mul_flags ((scast (ucast result :: u16) :: u32) \<noteq> result))
     }
     else if sub = 6 then do {
       v \<leftarrow> read_rm16 rm;
       if v = 0 then de op_ip
       else do {
         hi \<leftarrow> reg16 DX; lo \<leftarrow> reg16 AX;
         let dividend = push_bit 16 (ucast hi :: u32) OR ucast lo;
         let q = dividend div ucast v;
         let r = dividend mod ucast v;
         if 0xFFFF < q then de op_ip
         else do { set_reg16 AX (ucast q); nx (set_reg16 DX (ucast r)) }
       }
     }
     else if sub = 7 then do {
       v \<leftarrow> read_rm16 rm;
       if v = 0 then de op_ip
       else do {
         hi \<leftarrow> reg16 DX; lo \<leftarrow> reg16 AX;
         let dividend = sint (push_bit 16 (ucast hi :: u32) OR ucast lo);
         (case checked_div 32 dividend (sint v) of
            None \<Rightarrow> de op_ip
          | Some q \<Rightarrow>
              if q < - (2 ^ 15) \<or> 2 ^ 15 - 1 < q then de op_ip
              else do { set_reg16 AX (of_int q); nx (set_reg16 DX (of_int (rem_int dividend (sint v)))) })
       }
     }
     else unimp opcode op_cs op_ip)"

definition op_group3 :: "u8 \<Rightarrow> u16 \<Rightarrow> u32 \<Rightarrow> outcome exec" where
  "op_group3 opcode op_cs op_ip = do {
     (_, sub, rm) \<leftarrow> fetch_modrm;
     by_size (op_group3_32 opcode op_cs op_ip sub rm) (op_group3_16 opcode op_cs op_ip sub rm)
   }"

definition op_group4 :: "u8 \<Rightarrow> u16 \<Rightarrow> u32 \<Rightarrow> outcome exec" where
  "op_group4 opcode op_cs op_ip = do {
     (_, sub, rm) \<leftarrow> fetch_modrm;
     cf \<leftarrow> flag_of CF;
     v \<leftarrow> read_rm8 rm;
     if sub = 0 then do {
       let r = v + 1;
       cpu_upd (\<lambda>c. flags_add8 c v 1 0 r);
       flag_to CF cf;
       nx (write_rm8 rm r)
     }
     else if sub = 1 then do {
       let r = v - 1;
       cpu_upd (\<lambda>c. flags_sub8 c v 1 0 r);
       flag_to CF cf;
       nx (write_rm8 rm r)
     }
     else unimp opcode op_cs op_ip
   }"

definition inc_rm :: "rm \<Rightarrow> outcome exec" where
  "inc_rm rm = do {
     cf \<leftarrow> flag_of CF;
     by_size (do {
       v \<leftarrow> read_rm32 rm;
       cpu_upd (\<lambda>c. flags_add32 c v 1 0 (v + 1)); flag_to CF cf; nx (write_rm32 rm (v + 1)) })
     (do {
       v \<leftarrow> read_rm16 rm;
       cpu_upd (\<lambda>c. flags_add16 c v 1 0 (v + 1)); flag_to CF cf; nx (write_rm16 rm (v + 1)) })
   }"

definition dec_rm :: "rm \<Rightarrow> outcome exec" where
  "dec_rm rm = do {
     cf \<leftarrow> flag_of CF;
     by_size (do {
       v \<leftarrow> read_rm32 rm;
       cpu_upd (\<lambda>c. flags_sub32 c v 1 0 (v - 1)); flag_to CF cf; nx (write_rm32 rm (v - 1)) })
     (do {
       v \<leftarrow> read_rm16 rm;
       cpu_upd (\<lambda>c. flags_sub16 c v 1 0 (v - 1)); flag_to CF cf; nx (write_rm16 rm (v - 1)) })
   }"

definition call_rm :: "rm \<Rightarrow> outcome exec" where
  "call_rm rm =
     by_size (do { target \<leftarrow> read_rm32 rm; ret_ip \<leftarrow> cpu_get ip; push32 ret_ip; nx (set_ip target) })
       (do { target \<leftarrow> read_rm16 rm; ret_ip \<leftarrow> cpu_get ip; push16 (ucast ret_ip); nx (set_ip (ucast target)) })"

definition far_pointer :: "eff_addr \<Rightarrow> (u32 \<times> u16) exec" where
  "far_pointer ea = do {
     base \<leftarrow> ea_linear ea;
     by_size (do {
       new_ip \<leftarrow> ld32 base;
       l2 \<leftarrow> cpu_get (\<lambda>c. linear_seg c (ea_seg ea) (ea_off ea + 4));
       new_cs \<leftarrow> ld16 l2;
       ret (new_ip, new_cs) })
     (do {
       new_ip \<leftarrow> ld16 base;
       l2 \<leftarrow> cpu_get (\<lambda>c. linear_seg c (ea_seg ea) (ea_off ea + 2));
       new_cs \<leftarrow> ld16 l2;
       ret (ucast new_ip, new_cs) })
   }"

definition push_far_frame :: "u16 \<Rightarrow> unit exec" where
  "push_far_frame cs =
     by_size (do { push32 (ucast cs); i \<leftarrow> cpu_get ip; push32 i })
       (do { push16 cs; i \<leftarrow> cpu_get ip; push16 (ucast i) })"

definition op_group5 :: "u8 \<Rightarrow> u16 \<Rightarrow> u32 \<Rightarrow> outcome exec" where
  "op_group5 opcode op_cs op_ip = do {
     (_, sub, rm) \<leftarrow> fetch_modrm;
     if sub = 0 then inc_rm rm
     else if sub = 1 then dec_rm rm
     else if sub = 2 then call_rm rm
     else if sub = 3 then
       (case rm of
          Reg _ \<Rightarrow> unimp opcode op_cs op_ip
        | Mem ea \<Rightarrow> do {
            cs \<leftarrow> cpu_get (\<lambda>c. sregs c ! CS);
            (new_ip, new_cs) \<leftarrow> far_pointer ea;
            push_far_frame cs;
            write_sreg CS new_cs;
            nx (set_ip new_ip)
          })
     else if sub = 4 then
       by_size (do { target \<leftarrow> read_rm32 rm; nx (set_ip target) })
         (do { target \<leftarrow> read_rm16 rm; nx (set_ip (ucast target)) })
     else if sub = 5 then
       (case rm of
          Reg _ \<Rightarrow> unimp opcode op_cs op_ip
        | Mem ea \<Rightarrow> do {
            (new_ip, new_cs) \<leftarrow> far_pointer ea;
            write_sreg CS new_cs;
            nx (set_ip new_ip)
          })
     else if sub = 6 then
       by_size (do { v \<leftarrow> read_rm32 rm; nx (push32 v) }) (do { v \<leftarrow> read_rm16 rm; nx (push16 v) })
     else unimp opcode op_cs op_ip
   }"

definition op_mov_rm8_imm8 :: "u8 \<Rightarrow> u16 \<Rightarrow> u32 \<Rightarrow> outcome exec" where
  "op_mov_rm8_imm8 opcode op_cs op_ip = do {
     (_, reg_field, rm) \<leftarrow> fetch_modrm;
     if reg_field \<noteq> 0 then unimp opcode op_cs op_ip
     else do { imm \<leftarrow> fetch_u8; nx (write_rm8 rm imm) }
   }"

definition op_mov_rm_imm :: "u8 \<Rightarrow> u16 \<Rightarrow> u32 \<Rightarrow> outcome exec" where
  "op_mov_rm_imm opcode op_cs op_ip = do {
     (_, reg_field, rm) \<leftarrow> fetch_modrm;
     if reg_field \<noteq> 0 then unimp opcode op_cs op_ip
     else by_size (do { imm \<leftarrow> fetch_pair; nx (write_rm32 rm imm) }) (do { imm \<leftarrow> fetch_u16; nx (write_rm16 rm imm) })
   }"

end
