(* ===== verification/CpuOps2.thy ===== *)
theory CpuOps2
  imports CpuOps
begin

unbundle bit_operations_syntax

text \<open>
  The remaining one-byte opcodes of \<^verbatim>\<open>Cpu::step\<close>: the stack, calls and returns, flags, interrupts and
  IRET, increments, absolute moves, port I/O and the decimal adjustments, in the order of the source.
\<close>

section \<open>Stack\<close>

definition op_pusha :: "outcome exec" where
  "op_pusha =
     by_size (do {
       esp \<leftarrow> r32 (of_nat SP);
       v0 \<leftarrow> r32 0; push32 v0;
       v1 \<leftarrow> r32 1; push32 v1;
       v2 \<leftarrow> r32 2; push32 v2;
       v3 \<leftarrow> r32 3; push32 v3;
       push32 esp;
       v5 \<leftarrow> r32 5; push32 v5;
       v6 \<leftarrow> r32 6; push32 v6;
       v7 \<leftarrow> r32 7; nx (push32 v7) })
     (do {
       sp \<leftarrow> reg16 SP;
       ax \<leftarrow> reg16 AX; push16 ax;
       cx \<leftarrow> reg16 CX; push16 cx;
       dx \<leftarrow> reg16 DX; push16 dx;
       bx \<leftarrow> reg16 BX; push16 bx;
       push16 sp;
       bp \<leftarrow> reg16 BP; push16 bp;
       si \<leftarrow> reg16 SI; push16 si;
       di \<leftarrow> reg16 DI; nx (push16 di) })"

definition op_popa :: "outcome exec" where
  "op_popa =
     by_size (do {
       edi \<leftarrow> pop32; w32 7 edi;
       esi \<leftarrow> pop32; w32 6 esi;
       ebp \<leftarrow> pop32; w32 5 ebp;
       _ \<leftarrow> pop32;
       ebx \<leftarrow> pop32; w32 3 ebx;
       edx \<leftarrow> pop32; w32 2 edx;
       ecx \<leftarrow> pop32; w32 1 ecx;
       eax \<leftarrow> pop32; nx (w32 0 eax) })
     (do {
       di \<leftarrow> pop16; set_reg16 DI di;
       si \<leftarrow> pop16; set_reg16 SI si;
       bp \<leftarrow> pop16; set_reg16 BP bp;
       _ \<leftarrow> pop16;
       bx \<leftarrow> pop16; set_reg16 BX bx;
       dx \<leftarrow> pop16; set_reg16 DX dx;
       cx \<leftarrow> pop16; set_reg16 CX cx;
       ax \<leftarrow> pop16; nx (set_reg16 AX ax) })"

definition op_arpl :: "outcome exec" where
  "op_arpl = do {
     (_, reg, rm) \<leftarrow> fetch_modrm;
     dst \<leftarrow> read_rm16 rm; src \<leftarrow> r16 reg;
     if dst AND 3 < src AND 3 then do {
       write_rm16 rm ((dst AND NOT 3) OR (src AND 3));
       nx (flag_to ZF True)
     }
     else nx (flag_to ZF False)
   }"

definition imul32 :: "u8 \<Rightarrow> u32 \<Rightarrow> u32 \<Rightarrow> outcome exec" where
  "imul32 reg a b = do {
     let product = (scast a :: u64) * scast b;
     w32 reg (ucast product);
     nx (mul_flags ((scast (ucast product :: u32) :: u64) \<noteq> product))
   }"

definition imul16 :: "u8 \<Rightarrow> u16 \<Rightarrow> u16 \<Rightarrow> outcome exec" where
  "imul16 reg a b = do {
     let product = (scast a :: u32) * scast b;
     w16 reg (ucast product);
     nx (mul_flags ((scast (ucast product :: u16) :: u32) \<noteq> product))
   }"

definition op_imul_imm :: "outcome exec" where
  "op_imul_imm = do {
     (_, reg, rm) \<leftarrow> fetch_modrm;
     by_size (do { imm \<leftarrow> fetch_pair; a \<leftarrow> read_rm32 rm; imul32 reg a imm })
       (do { imm \<leftarrow> fetch_u16; a \<leftarrow> read_rm16 rm; imul16 reg a imm })
   }"

definition op_imul_imm8 :: "outcome exec" where
  "op_imul_imm8 = do {
     (_, reg, rm) \<leftarrow> fetch_modrm;
     by_size (do { imm \<leftarrow> fetch_u8; a \<leftarrow> read_rm32 rm; imul32 reg a (scast imm) })
       (do { imm \<leftarrow> fetch_u8; a \<leftarrow> read_rm16 rm; imul16 reg a (scast imm) })
   }"

definition op_enter :: "u8 \<Rightarrow> u16 \<Rightarrow> u32 \<Rightarrow> outcome exec" where
  "op_enter opcode op_cs op_ip = do {
     frame_size \<leftarrow> fetch_u16;
     lv \<leftarrow> fetch_u8;
     if lv AND 0x1F \<noteq> 0 then unimp opcode op_cs op_ip
     else
       by_size (do {
         ebp \<leftarrow> r32 5;
         push32 ebp;
         frame \<leftarrow> cpu_get read_stack_ptr;
         w32 5 frame;
         nx (cpu_upd (\<lambda>c. write_stack_ptr c (frame - ucast frame_size))) })
       (do {
         bp \<leftarrow> reg16 BP;
         push16 bp;
         frame \<leftarrow> reg16 SP;
         set_reg16 BP frame;
         sp \<leftarrow> reg16 SP;
         nx (set_reg16 SP (sp - frame_size)) })
   }"

definition op_leave :: "outcome exec" where
  "op_leave =
     by_size (do {
       ebp \<leftarrow> r32 5;
       cpu_upd (\<lambda>c. write_stack_ptr c ebp);
       new_ebp \<leftarrow> pop32;
       nx (w32 5 new_ebp) })
     (do {
       bp \<leftarrow> reg16 BP;
       set_reg16 SP bp;
       v \<leftarrow> pop16;
       nx (set_reg16 BP v) })"

definition op_push_sreg :: "nat \<Rightarrow> outcome exec" where
  "op_push_sreg s = do {
     v \<leftarrow> cpu_get (\<lambda>c. sregs c ! s);
     by_size (nx (push32 (ucast v))) (nx (push16 v))
   }"

definition op_pop_sreg :: "nat \<Rightarrow> u32 \<Rightarrow> outcome exec" where
  "op_pop_sreg s op_ip = do {
     v \<leftarrow> by_size (do { d \<leftarrow> pop32; ret (ucast d) }) pop16;
     guarded (raise_gp_if_bad_selector v op_ip) (nx (write_sreg s v))
   }"

definition op_push_r :: "u8 \<Rightarrow> outcome exec" where
  "op_push_r opcode =
     (let i = opcode - 0x50 in by_size (do { v \<leftarrow> r32 i; nx (push32 v) }) (do { v \<leftarrow> r16 i; nx (push16 v) }))"

definition op_pop_r :: "u8 \<Rightarrow> outcome exec" where
  "op_pop_r opcode =
     (let i = opcode - 0x58 in by_size (do { v \<leftarrow> pop32; nx (w32 i v) }) (do { v \<leftarrow> pop16; nx (w16 i v) }))"

definition op_push_imm :: "outcome exec" where
  "op_push_imm = by_size (do { v \<leftarrow> fetch_pair; nx (push32 v) }) (do { v \<leftarrow> fetch_u16; nx (push16 v) })"

definition op_push_imm8 :: "outcome exec" where
  "op_push_imm8 =
     by_size (do { v \<leftarrow> fetch_u8; nx (push32 (scast v)) }) (do { v \<leftarrow> fetch_u8; nx (push16 (scast v)) })"

section \<open>Calls and returns\<close>

definition op_call_rel :: "outcome exec" where
  "op_call_rel =
     by_size (do { rel \<leftarrow> fetch_pair; ret_ip \<leftarrow> cpu_get ip; push32 ret_ip; nx (jump_rel rel) })
       (do { rel \<leftarrow> fetch_u16; ret_ip \<leftarrow> cpu_get ip; push16 (ucast ret_ip); nx (jump_rel (scast rel)) })"

definition fetch_far :: "(u32 \<times> u16) exec" where
  "fetch_far =
     by_size (do { off \<leftarrow> fetch_pair; sel \<leftarrow> fetch_u16; ret (off, sel) })
       (do { off \<leftarrow> fetch_u16; sel \<leftarrow> fetch_u16; ret (ucast off, sel) })"

definition op_call_far :: "outcome exec" where
  "op_call_far = do {
     (new_ip, new_cs) \<leftarrow> fetch_far;
     cs \<leftarrow> cpu_get (\<lambda>c. sregs c ! CS);
     push_far_frame cs;
     write_sreg CS new_cs;
     nx (set_ip new_ip)
   }"

definition op_jmp_far :: "outcome exec" where
  "op_jmp_far = do { (new_ip, new_cs) \<leftarrow> fetch_far; write_sreg CS new_cs; nx (set_ip new_ip) }"

definition pop_ip :: "unit exec" where
  "pop_ip = by_size (do { v \<leftarrow> pop32; set_ip v }) (do { v \<leftarrow> pop16; set_ip (ucast v) })"

definition release :: "u32 \<Rightarrow> unit exec" where
  "release extra = cpu_upd (\<lambda>c. write_stack_ptr c (read_stack_ptr c + extra))"

definition op_ret :: "outcome exec" where "op_ret = nx pop_ip"

definition op_ret_imm :: "outcome exec" where
  "op_ret_imm = do { extra \<leftarrow> fetch_u16; pop_ip; nx (release (ucast extra)) }"

definition pop_far :: "unit exec" where
  "pop_far =
     by_size (do { i \<leftarrow> pop32; set_ip i; cs \<leftarrow> pop32; write_sreg CS (ucast cs) })
       (do { i \<leftarrow> pop16; set_ip (ucast i); cs \<leftarrow> pop16; write_sreg CS cs })"

definition op_retf :: "outcome exec" where "op_retf = nx pop_far"

definition op_retf_imm :: "outcome exec" where
  "op_retf_imm = do { extra \<leftarrow> fetch_u16; pop_far; nx (release (ucast extra)) }"

section \<open>Flags and conversions\<close>

definition op_pushf :: "outcome exec" where
  "op_pushf =
     by_size (do { full \<leftarrow> cpu_get (\<lambda>c. join16 (flags c) (flags_high c)); nx (push32 full) })
       (do { fl \<leftarrow> cpu_get flags; nx (push16 fl) })"

definition popf_flags :: "cpu \<Rightarrow> u16 \<Rightarrow> u16" where
  "popf_flags c popped =
     (if cr0 c AND 1 \<noteq> 0 then
        (let cpl = sregs c ! CS AND 3; iopl = drop_bit 12 (flags c) AND 3;
             mask1 = (if 0 < cpl then 0xFFFF AND NOT 0x3000 else 0xFFFF);
             mask = (if iopl < cpl then mask1 AND NOT IF else mask1)
         in (popped AND mask) OR (flags c AND NOT mask))
      else popped)"

definition op_popf :: "outcome exec" where
  "op_popf = do {
     full \<leftarrow> by_size pop32 (do { w \<leftarrow> pop16; ret (ucast w) });
     by_size (cpu_upd (\<lambda>c. c\<lparr>flags_high := ucast (drop_bit 16 full AND 0x003F)\<rparr>)) (ret ());
     nx (cpu_upd (\<lambda>c. c\<lparr>flags := popf_flags c (ucast full)\<rparr>))
   }"

definition op_cbw :: "outcome exec" where
  "op_cbw = by_size (do { ax \<leftarrow> reg16 AX; nx (w32 0 (scast ax)) }) (do { al \<leftarrow> r8 0; nx (set_reg16 AX (scast al)) })"

definition op_cwd :: "outcome exec" where
  "op_cwd =
     by_size (do { eax \<leftarrow> r32 0; nx (w32 2 (if sint eax < 0 then 0xFFFFFFFF else 0)) })
       (do { ax \<leftarrow> reg16 AX; nx (set_reg16 DX (if sint ax < 0 then 0xFFFF else 0)) })"

definition ahf_mask :: u16 where "ahf_mask = (((CF OR PF) OR push_bit 4 1) OR ZF) OR SF"

definition op_sahf :: "outcome exec" where
  "op_sahf = do {
     ah \<leftarrow> r8 4;
     nx (cpu_upd (\<lambda>c. c\<lparr>flags := (flags c AND NOT ahf_mask) OR (ucast ah AND ahf_mask)\<rparr>))
   }"

definition op_lahf :: "outcome exec" where
  "op_lahf = do { ah \<leftarrow> cpu_get (\<lambda>c. ucast (flags c AND ahf_mask) OR 2); nx (w8 4 ah) }"

section \<open>Software interrupts and IRET\<close>

definition op_int3 :: "u32 \<Rightarrow> outcome exec" where
  "op_int3 op_ip = guarded (raise_gp_if_gate_too_privileged 3 op_ip) (nx (do_interrupt 3))"

text \<open>The host's BIOS handler, when there is one, gets first refusal of an INT.\<close>

type_synonym bios_hook = "(u8 \<Rightarrow> bool exec) option"

definition op_int :: "bios_hook \<Rightarrow> u32 \<Rightarrow> outcome exec" where
  "op_int hook op_ip = do {
     n \<leftarrow> fetch_u8;
     handled \<leftarrow> (case hook of Some h \<Rightarrow> h n | None \<Rightarrow> ret False);
     if handled then ret Return
     else guarded (raise_gp_if_gate_too_privileged n op_ip) (nx (do_interrupt n))
   }"

definition op_into :: "u32 \<Rightarrow> outcome exec" where
  "op_into op_ip = do {
     ov \<leftarrow> flag_of OF;
     if ov then guarded (raise_gp_if_gate_too_privileged 4 op_ip) (nx (do_interrupt 4)) else ret Next
   }"

definition iret32 :: "unit exec" where
  "iret32 = do {
     is_pe \<leftarrow> cpu_get (\<lambda>c. cr0 c AND 1 \<noteq> 0);
     cpl_before \<leftarrow> cpu_get (\<lambda>c. if is_pe then sregs c ! CS AND 3 else 0);
     new_ip \<leftarrow> pop32;
     cs32 \<leftarrow> pop32;
     new_eflags \<leftarrow> pop32;
     let new_cs = (ucast cs32 :: u16);
     let cpl_after = (if is_pe then new_cs AND 3 else 0);
     popped \<leftarrow> (if cpl_before < cpl_after then do { esp \<leftarrow> pop32; ss \<leftarrow> pop32; ret (Some (esp, ucast ss)) }
                 else ret None);
     set_ip new_ip;
     write_sreg CS new_cs;
     cpu_upd (\<lambda>c. c\<lparr>flags := ucast new_eflags\<rparr>);
     (case popped of Some (esp, ss) \<Rightarrow> do { write_sreg SS ss; w32 (of_nat SP) esp } | None \<Rightarrow> ret ())
   }"

definition iret16 :: "unit exec" where
  "iret16 = do {
     is_pe \<leftarrow> cpu_get (\<lambda>c. cr0 c AND 1 \<noteq> 0);
     cpl_before \<leftarrow> cpu_get (\<lambda>c. if is_pe then sregs c ! CS AND 3 else 0);
     new_ip \<leftarrow> pop16;
     new_cs \<leftarrow> pop16;
     new_flags \<leftarrow> pop16;
     let cpl_after = (if is_pe then new_cs AND 3 else 0);
     popped \<leftarrow> (if cpl_before < cpl_after then do { sp \<leftarrow> pop16; ss \<leftarrow> pop16; ret (Some (sp, ss)) }
                 else ret None);
     set_ip (ucast new_ip);
     write_sreg CS new_cs;
     cpu_upd (\<lambda>c. c\<lparr>flags := new_flags\<rparr>);
     (case popped of Some (sp, ss) \<Rightarrow> do { write_sreg SS ss; set_reg16 SP sp } | None \<Rightarrow> ret ())
   }"

definition op_iret :: "outcome exec" where "op_iret = nx (by_size iret32 iret16)"

section \<open>Increments, absolute moves, accumulator tests\<close>

definition op_inc_r :: "u8 \<Rightarrow> outcome exec" where
  "op_inc_r opcode = do {
     let i = opcode - 0x40;
     cf \<leftarrow> flag_of CF;
     by_size (do { a \<leftarrow> r32 i; cpu_upd (\<lambda>c. flags_add32 c a 1 0 (a + 1)); w32 i (a + 1) })
       (do { a \<leftarrow> r16 i; cpu_upd (\<lambda>c. flags_add16 c a 1 0 (a + 1)); w16 i (a + 1) });
     nx (flag_to CF cf)
   }"

definition op_dec_r :: "u8 \<Rightarrow> outcome exec" where
  "op_dec_r opcode = do {
     let i = opcode - 0x48;
     cf \<leftarrow> flag_of CF;
     by_size (do { a \<leftarrow> r32 i; cpu_upd (\<lambda>c. flags_sub32 c a 1 0 (a - 1)); w32 i (a - 1) })
       (do { a \<leftarrow> r16 i; cpu_upd (\<lambda>c. flags_sub16 c a 1 0 (a - 1)); w16 i (a - 1) });
     nx (flag_to CF cf)
   }"

definition moffs_linear :: "u32 exec" where
  "moffs_linear = do { off \<leftarrow> fetch_moffs; cpu_get (\<lambda>c. linear_seg c (string_src_seg c) off) }"

definition op_mov_al_moffs :: "outcome exec" where
  "op_mov_al_moffs = do { l \<leftarrow> moffs_linear; v \<leftarrow> ld8 l; nx (w8 0 v) }"

definition op_mov_ax_moffs :: "outcome exec" where
  "op_mov_ax_moffs = do {
     l \<leftarrow> moffs_linear;
     by_size (do { v \<leftarrow> ld32 l; nx (w32 0 v) }) (do { v \<leftarrow> ld16 l; nx (w16 0 v) })
   }"

definition op_mov_moffs_al :: "outcome exec" where
  "op_mov_moffs_al = do { l \<leftarrow> moffs_linear; al \<leftarrow> r8 0; nx (st8 l al) }"

definition op_mov_moffs_ax :: "outcome exec" where
  "op_mov_moffs_ax = do {
     l \<leftarrow> moffs_linear;
     by_size (do { v \<leftarrow> r32 0; nx (st32 l v) }) (do { v \<leftarrow> r16 0; nx (st16 l v) })
   }"

definition op_test_al_imm :: "outcome exec" where
  "op_test_al_imm = do { imm \<leftarrow> fetch_u8; al \<leftarrow> r8 0; nx (cpu_upd (\<lambda>c. flags_logic8 c (al AND imm))) }"

definition op_test_ax_imm :: "outcome exec" where
  "op_test_ax_imm =
     by_size (do { imm \<leftarrow> fetch_pair; v \<leftarrow> r32 0; nx (cpu_upd (\<lambda>c. flags_logic32 c (v AND imm))) })
       (do { imm \<leftarrow> fetch_u16; v \<leftarrow> r16 0; nx (cpu_upd (\<lambda>c. flags_logic16 c (v AND imm))) })"

section \<open>Port I/O\<close>

text \<open>The port comes from DX or from an immediate byte, before the privilege check.\<close>

definition port_dx :: "u16 exec" where "port_dx = reg16 DX"
definition port_imm :: "u16 exec" where "port_imm = do { b \<leftarrow> fetch_u8; ret (ucast b) }"

definition op_in8 :: "u16 exec \<Rightarrow> u32 \<Rightarrow> outcome exec" where
  "op_in8 get_port op_ip = do {
     port \<leftarrow> get_port;
     guarded (raise_gp_if_io_denied op_ip port 1) (do { v \<leftarrow> port_read port; nx (w8 0 v) })
   }"

definition op_out8 :: "u16 exec \<Rightarrow> u32 \<Rightarrow> outcome exec" where
  "op_out8 get_port op_ip = do {
     port \<leftarrow> get_port;
     guarded (raise_gp_if_io_denied op_ip port 1) (do { v \<leftarrow> r8 0; nx (port_write port v) })
   }"

definition op_in :: "u16 exec \<Rightarrow> u32 \<Rightarrow> outcome exec" where
  "op_in get_port op_ip = do {
     port \<leftarrow> get_port;
     width \<leftarrow> cpu_get (\<lambda>c. if op_size_32 c then 4 else 2);
     guarded (raise_gp_if_io_denied op_ip port width)
       (by_size (do { v \<leftarrow> port_read_u32 port; nx (w32 0 v) })
         (do { lo \<leftarrow> port_read port; hi \<leftarrow> port_read (port + 1);
               nx (set_reg16 AX (ucast lo OR push_bit 8 (ucast hi))) }))
   }"

definition op_out :: "u16 exec \<Rightarrow> u32 \<Rightarrow> outcome exec" where
  "op_out get_port op_ip = do {
     port \<leftarrow> get_port;
     width \<leftarrow> cpu_get (\<lambda>c. if op_size_32 c then 4 else 2);
     guarded (raise_gp_if_io_denied op_ip port width)
       (by_size (do { v \<leftarrow> r32 0; nx (port_write_u32 port v) })
         (do { ax \<leftarrow> reg16 AX; port_write port (ucast ax); nx (port_write (port + 1) (ucast (drop_bit 8 ax))) }))
   }"

section \<open>Table lookup and decimal adjustment\<close>

definition op_xlat :: "outcome exec" where
  "op_xlat = do {
     l \<leftarrow> cpu_get (\<lambda>c. linear_seg c (seg_or c DS) (ucast (regs c ! BX + ucast (read_r8 c 0))));
     v \<leftarrow> ld8 l;
     nx (w8 0 v)
   }"

definition op_daa :: "outcome exec" where
  "op_daa = do {
     old_al \<leftarrow> r8 0;
     old_cf \<leftarrow> flag_of CF;
     af \<leftarrow> flag_of (push_bit 4 1);
     let low = (9 < old_al AND 0x0F \<or> af);
     let al1 = (if low then old_al + 6 else old_al);
     let cf1 = (if low then al1 < old_al \<or> old_cf else old_cf);
     flag_to (push_bit 4 1) low;
     let high = (0x99 < old_al \<or> old_cf);
     let al = (if high then al1 + 0x60 else al1);
     w8 0 al;
     flag_to CF (if high then True else cf1);
     nx (cpu_upd (\<lambda>c. flags_zsp8 c al))
   }"

definition op_das :: "outcome exec" where
  "op_das = do {
     old_al \<leftarrow> r8 0;
     old_cf \<leftarrow> flag_of CF;
     af \<leftarrow> flag_of (push_bit 4 1);
     let low = (9 < old_al AND 0x0F \<or> af);
     let al1 = (if low then old_al - 6 else old_al);
     let cf1 = (if low then old_al < 6 \<or> old_cf else old_cf);
     flag_to (push_bit 4 1) low;
     let high = (0x99 < old_al \<or> old_cf);
     let al = (if high then al1 - 0x60 else al1);
     w8 0 al;
     flag_to CF (if high then True else cf1);
     nx (cpu_upd (\<lambda>c. flags_zsp8 c al))
   }"

definition op_aaa :: "outcome exec" where
  "op_aaa = do {
     al \<leftarrow> r8 0;
     af \<leftarrow> flag_of (push_bit 4 1);
     if 9 < al AND 0x0F \<or> af then do {
       ah \<leftarrow> r8 4;
       w8 0 ((al + 6) AND 0x0F);
       w8 4 (ah + 1);
       flag_to (push_bit 4 1) True;
       nx (flag_to CF True)
     }
     else do {
       w8 0 (al AND 0x0F);
       flag_to (push_bit 4 1) False;
       nx (flag_to CF False)
     }
   }"

definition op_aas :: "outcome exec" where
  "op_aas = do {
     al \<leftarrow> r8 0;
     af \<leftarrow> flag_of (push_bit 4 1);
     if 9 < al AND 0x0F \<or> af then do {
       ah \<leftarrow> r8 4;
       w8 0 ((al - 6) AND 0x0F);
       w8 4 (ah - 1);
       flag_to (push_bit 4 1) True;
       nx (flag_to CF True)
     }
     else do {
       w8 0 (al AND 0x0F);
       flag_to (push_bit 4 1) False;
       nx (flag_to CF False)
     }
   }"

definition op_aam :: "u32 \<Rightarrow> outcome exec" where
  "op_aam op_ip = do {
     base \<leftarrow> fetch_u8;
     if base = 0 then de op_ip
     else do {
       al \<leftarrow> r8 0;
       w8 4 (al div base);
       w8 0 (al mod base);
       nx (cpu_upd (\<lambda>c. flags_zsp8 c (al mod base)))
     }
   }"

definition op_aad :: "outcome exec" where
  "op_aad = do {
     base \<leftarrow> fetch_u8;
     al \<leftarrow> r8 0;
     ah \<leftarrow> r8 4;
     let new_al = ah * base + al;
     w8 0 new_al;
     w8 4 0;
     nx (cpu_upd (\<lambda>c. flags_zsp8 c new_al))
   }"

definition op_cmc :: "outcome exec" where
  "op_cmc = do { v \<leftarrow> flag_of CF; nx (flag_to CF (\<not> v)) }"

end
