(* ===== verification/CpuOps0F.thy ===== *)
theory CpuOps0F
  imports CpuOps2
begin

unbundle bit_operations_syntax

text \<open>
  The two-byte opcodes of \<^verbatim>\<open>Cpu::step\<close> (the \<^verbatim>\<open>0x0F\<close> arm of its \<^verbatim>\<open>match\<close>) that work on the integer and
  system registers: descriptor tables, control, debug and model-specific registers, SYSENTER, long
  conditional jumps, bit tests and scans, conditional moves, double shifts, CPUID, extending moves and
  the atomic read-modify-write instructions, with the free functions they call.
\<close>

section \<open>Groups 6 and 7\<close>

definition op_group6 :: "u8 \<Rightarrow> u16 \<Rightarrow> u32 \<Rightarrow> outcome exec" where
  "op_group6 op2 op_cs op_ip = do {
     (_, sub, rm) \<leftarrow> fetch_modrm;
     if sub = 0 then do { v \<leftarrow> cpu_get ldtr; nx (write_rm16 rm v) }
     else if sub = 1 then do { v \<leftarrow> cpu_get tr; nx (write_rm16 rm v) }
     else if sub = 2 then
       guarded (raise_gp_if_user op_ip)
         (do { v \<leftarrow> read_rm16 rm; nx (cpu_upd (\<lambda>c. c\<lparr>ldtr := v\<rparr>)) })
     else if sub = 3 then
       guarded (raise_gp_if_user op_ip)
         (do { v \<leftarrow> read_rm16 rm; nx (cpu_upd (\<lambda>c. c\<lparr>tr := v\<rparr>)) })
     else if sub = 4 then do {
       sel \<leftarrow> read_rm16 rm; ok \<leftarrow> selector_accessible sel False; nx (flag_to ZF ok) }
     else if sub = 5 then do {
       sel \<leftarrow> read_rm16 rm; ok \<leftarrow> selector_accessible sel True; nx (flag_to ZF ok) }
     else unimp op2 op_cs op_ip
   }"

definition lmsw_value :: "u32 \<Rightarrow> u16 \<Rightarrow> u32" where
  "lmsw_value cr v = ((cr AND NOT 0xF) OR (ucast v AND 0xF)) OR (cr AND 1)"

definition op_lmsw :: "u32 \<Rightarrow> rm \<Rightarrow> outcome exec" where
  "op_lmsw op_ip rm =
     guarded (raise_gp_if_user op_ip) (do {
       v \<leftarrow> read_rm16 rm;
       cpu_upd (\<lambda>c. c\<lparr>cr0 := lmsw_value (cr0 c) v\<rparr>);
       ret Return })"

definition write_tsc_pair :: "unit exec" where
  "write_tsc_pair = do {
     t \<leftarrow> cpu_get tsc;
     w32 0 (ucast t);
     w32 2 (ucast (drop_bit 32 t))
   }"

definition op_store_table :: "u8 \<Rightarrow> eff_addr \<Rightarrow> outcome exec" where
  "op_store_table sub ea = do {
     base_linear \<leftarrow> ea_linear ea;
     desc \<leftarrow> cpu_get (\<lambda>c. if sub = 0 then gdtr c else idtr c);
     st16 base_linear (dt_limit desc);
     st16 (base_linear + 2) (ucast (dt_base desc));
     nx (st16 (base_linear + 4) (ucast (drop_bit 16 (dt_base desc))))
   }"

definition op_load_table :: "u8 \<Rightarrow> u32 \<Rightarrow> eff_addr \<Rightarrow> outcome exec" where
  "op_load_table sub op_ip ea =
     guarded (raise_gp_if_user op_ip) (do {
       base_linear \<leftarrow> ea_linear ea;
       limit \<leftarrow> ld16 base_linear;
       base_lo \<leftarrow> ld16 (base_linear + 2);
       base_hi \<leftarrow> ld16 (base_linear + 4);
       let desc = \<lparr>dt_limit = limit, dt_base = join16 base_lo base_hi\<rparr>;
       nx (cpu_upd (\<lambda>c. if sub = 2 then c\<lparr>gdtr := desc\<rparr> else c\<lparr>idtr := desc\<rparr>)) })"

definition op_group7 :: "u8 \<Rightarrow> u16 \<Rightarrow> u32 \<Rightarrow> outcome exec" where
  "op_group7 op2 op_cs op_ip = do {
     (mode, sub, rm) \<leftarrow> fetch_modrm;
     if sub = 4 then do { v \<leftarrow> cpu_get (\<lambda>c. ucast (cr0 c)); write_rm16 rm v; ret Return }
     else if sub = 6 then op_lmsw op_ip rm
     else if mode = 3 \<and> sub = 7 \<and> rm = Reg 1 then do {
       write_tsc_pair;
       aux \<leftarrow> cpu_get tsc_aux;
       w32 1 aux;
       ret Return
     }
     else
       (case rm of
          Reg _ \<Rightarrow> ret (Fail (UnimplementedModRm op2 mode op_cs op_ip))
        | Mem ea \<Rightarrow>
            if sub = 0 \<or> sub = 1 then op_store_table sub ea
            else if sub = 2 \<or> sub = 3 then op_load_table sub op_ip ea
            else if sub = 7 then guarded (raise_gp_if_user op_ip) (nx (cpu_upd invalidate_fetch_tlb))
            else unimp op2 op_cs op_ip)
   }"

definition op_ud2 :: "u32 \<Rightarrow> outcome exec" where
  "op_ud2 op_ip = do { set_ip op_ip; nx (do_interrupt 6) }"

section \<open>Control and debug registers\<close>

definition op_mov_r_cr :: "u8 \<Rightarrow> u16 \<Rightarrow> u32 \<Rightarrow> outcome exec" where
  "op_mov_r_cr op2 op_cs op_ip =
     guarded (raise_gp_if_user op_ip) (do {
       modrm \<leftarrow> fetch_u8;
       let reg = drop_bit 3 modrm AND 7;
       let rm = modrm AND 7;
       if reg = 0 then do { v \<leftarrow> cpu_get cr0; nx (w32 rm v) }
       else if reg = 2 then do { v \<leftarrow> cpu_get cr2; nx (w32 rm v) }
       else if reg = 3 then do { v \<leftarrow> cpu_get cr3; nx (w32 rm v) }
       else if reg = 4 then do { v \<leftarrow> cpu_get cr4; nx (w32 rm v) }
       else unimp op2 op_cs op_ip })"

definition op_mov_r_dr :: "u32 \<Rightarrow> outcome exec" where
  "op_mov_r_dr op_ip =
     guarded (raise_gp_if_user op_ip) (do {
       modrm \<leftarrow> fetch_u8;
       v \<leftarrow> cpu_get (\<lambda>c. dr c ! unat (drop_bit 3 modrm AND 7));
       nx (w32 (modrm AND 7) v) })"

definition op_mov_cr_r :: "u8 \<Rightarrow> u16 \<Rightarrow> u32 \<Rightarrow> outcome exec" where
  "op_mov_cr_r op2 op_cs op_ip =
     guarded (raise_gp_if_user op_ip) (do {
       modrm \<leftarrow> fetch_u8;
       let reg = drop_bit 3 modrm AND 7;
       value \<leftarrow> r32 (modrm AND 7);
       if reg = 0 then nx (cpu_upd (\<lambda>c. invalidate_fetch_tlb (c\<lparr>cr0 := value\<rparr>)))
       else if reg = 2 then nx (cpu_upd (\<lambda>c. c\<lparr>cr2 := value\<rparr>))
       else if reg = 3 then nx (cpu_upd (\<lambda>c. invalidate_fetch_tlb (c\<lparr>cr3 := value\<rparr>)))
       else if reg = 4 then nx (cpu_upd (\<lambda>c. c\<lparr>cr4 := value\<rparr>))
       else unimp op2 op_cs op_ip })"

definition op_mov_dr_r :: "u32 \<Rightarrow> outcome exec" where
  "op_mov_dr_r op_ip =
     guarded (raise_gp_if_user op_ip) (do {
       modrm \<leftarrow> fetch_u8;
       v \<leftarrow> r32 (modrm AND 7);
       nx (cpu_upd (\<lambda>c. c\<lparr>dr := (dr c)[unat (drop_bit 3 modrm AND 7) := v]\<rparr>)) })"

section \<open>Hints, caches and time\<close>

definition op_hint :: "outcome exec" where
  "op_hint = do { _ \<leftarrow> fetch_modrm; ret Next }"

definition op_clts :: "u32 \<Rightarrow> outcome exec" where
  "op_clts op_ip =
     guarded (raise_gp_if_user op_ip) (nx (cpu_upd (\<lambda>c. c\<lparr>cr0 := cr0 c AND NOT (push_bit 3 1)\<rparr>)))"

definition op_invd :: "u32 \<Rightarrow> outcome exec" where
  "op_invd op_ip = guarded (raise_gp_if_user op_ip) (ret Next)"

definition op_rdtsc :: "outcome exec" where "op_rdtsc = nx write_tsc_pair"

definition op_rdpmc :: "u32 \<Rightarrow> outcome exec" where
  "op_rdpmc op_ip = do {
     denied \<leftarrow> cpu_get (\<lambda>c. cr0 c AND 1 \<noteq> 0 \<and> sregs c ! CS AND 3 \<noteq> 0 \<and> cr4 c AND push_bit 8 1 = 0);
     if denied then do { raise_gp op_ip 0; ret Return }
     else do { w32 0 0; nx (w32 2 0) }
   }"

section \<open>Model-specific registers\<close>

definition msr_value :: "cpu \<Rightarrow> u32 \<Rightarrow> u64 option" where
  "msr_value c msr =
     (if msr = 0x10 then Some (tsc c)
      else if msr = 0x1B then Some 0xFEE00000
      else if msr = 0x174 then Some (ucast (sysenter_cs c))
      else if msr = 0x175 then Some (ucast (sysenter_esp c))
      else if msr = 0x176 then Some (ucast (sysenter_eip c))
      else if msr = 0x17 then Some 0
      else if msr = 0x8B then Some 0
      else if msr = 0x1A0 then Some (misc_enable c)
      else if msr = 0x2FF then Some 0
      else if msr = 0xC0000103 then Some (ucast (tsc_aux c))
      else if msr = 0x3A then Some 1
      else if msr = 0x179 then Some 0
      else if msr = 0xC0000080 then Some (efer c)
      else None)"

definition op_rdmsr :: "u32 \<Rightarrow> outcome exec" where
  "op_rdmsr op_ip =
     guarded (raise_gp_if_user op_ip) (do {
       msr \<leftarrow> r32 1;
       value \<leftarrow> cpu_get (\<lambda>c. msr_value c msr);
       (case value of
          None \<Rightarrow> do { raise_gp op_ip 0; ret Return }
        | Some v \<Rightarrow> do { w32 0 (ucast v); nx (w32 2 (ucast (drop_bit 32 v))) }) })"

definition msr_update :: "u32 \<Rightarrow> u32 \<Rightarrow> u32 \<Rightarrow> (cpu \<Rightarrow> cpu) option" where
  "msr_update msr lo hi =
     (let wide = ucast lo OR push_bit 32 (ucast hi) in
      if msr = 0x10 then Some (\<lambda>c. c\<lparr>tsc := wide\<rparr>)
      else if msr = 0x174 then Some (\<lambda>c. c\<lparr>sysenter_cs := lo\<rparr>)
      else if msr = 0x175 then Some (\<lambda>c. c\<lparr>sysenter_esp := lo\<rparr>)
      else if msr = 0x176 then Some (\<lambda>c. c\<lparr>sysenter_eip := lo\<rparr>)
      else if msr = 0x1A0 then Some (\<lambda>c. c\<lparr>misc_enable := wide\<rparr>)
      else if msr = 0x8B then Some (\<lambda>c. c)
      else if msr = 0xC0000103 then Some (\<lambda>c. c\<lparr>tsc_aux := lo\<rparr>)
      else if msr = 0xC0000080 then Some (\<lambda>c. c\<lparr>efer := wide\<rparr>)
      else None)"

definition op_wrmsr :: "u32 \<Rightarrow> outcome exec" where
  "op_wrmsr op_ip =
     guarded (raise_gp_if_user op_ip) (do {
       msr \<leftarrow> r32 1;
       lo \<leftarrow> r32 0;
       hi \<leftarrow> r32 2;
       (case msr_update msr lo hi of
          None \<Rightarrow> do { raise_gp op_ip 0; ret Return }
        | Some f \<Rightarrow> nx (cpu_upd f)) })"

definition op_sysenter :: "outcome exec" where
  "op_sysenter = do {
     cs_sel \<leftarrow> cpu_get (\<lambda>c. ucast (sysenter_cs c AND 0xFFFC) :: u16);
     write_sreg CS cs_sel;
     write_sreg SS (cs_sel + 8);
     cpu_upd (\<lambda>c. c\<lparr>ip := sysenter_eip c\<rparr>);
     esp \<leftarrow> cpu_get sysenter_esp;
     nx (w32 (of_nat SP) esp)
   }"

definition op_sysexit :: "u32 \<Rightarrow> outcome exec" where
  "op_sysexit op_ip =
     guarded (raise_gp_if_user op_ip) (do {
       base \<leftarrow> cpu_get (\<lambda>c. ucast (sysenter_cs c AND 0xFFFC) :: u16);
       write_sreg CS ((base + 16) OR 3);
       write_sreg SS ((base + 24) OR 3);
       edx \<leftarrow> r32 2;
       set_ip edx;
       esp \<leftarrow> r32 1;
       nx (w32 (of_nat SP) esp) })"

section \<open>Conditions\<close>

definition op_jcc_rel :: "u8 \<Rightarrow> outcome exec" where
  "op_jcc_rel op2 = do {
     rel \<leftarrow> fetch_rel;
     taken \<leftarrow> cpu_get (\<lambda>c. eval_cond c (op2 AND 0x0F));
     nx (if taken then jump_rel rel else ret ())
   }"

definition op_cmovcc :: "u8 \<Rightarrow> outcome exec" where
  "op_cmovcc op2 = do {
     (_, reg, rm) \<leftarrow> fetch_modrm;
     cond \<leftarrow> cpu_get (\<lambda>c. eval_cond c (op2 AND 0x0F));
     by_size (do { v \<leftarrow> read_rm32 rm; nx (if cond then w32 reg v else ret ()) })
       (do { v \<leftarrow> read_rm16 rm; nx (if cond then w16 reg v else ret ()) })
   }"

definition op_setcc :: "u8 \<Rightarrow> outcome exec" where
  "op_setcc op2 = do {
     (_, _, rm) \<leftarrow> fetch_modrm;
     cond \<leftarrow> cpu_get (\<lambda>c. eval_cond c (op2 AND 0x0F));
     nx (write_rm8 rm (if cond then 1 else 0))
   }"

section \<open>Bit tests and scans\<close>

text \<open>The new value of the tested word: BT, BTS, BTR, BTC numbered 0 to 3.\<close>

definition bit_op :: "u8 \<Rightarrow> 'a::len word \<Rightarrow> 'a word \<Rightarrow> 'a word" where
  "bit_op k v bm =
     (if k = 0 then v else if k = 1 then v OR bm else if k = 2 then v AND NOT bm else v XOR bm)"

definition bt_kind :: "u8 \<Rightarrow> u8" where
  "bt_kind op2 = (if op2 = 0xA3 then 0 else if op2 = 0xAB then 1 else if op2 = 0xB3 then 2 else 3)"

definition op_bt :: "u8 \<Rightarrow> outcome exec" where
  "op_bt op2 = do {
     (_, reg, rm) \<leftarrow> fetch_modrm;
     let k = bt_kind op2;
     by_size (do {
       bit_idx \<leftarrow> r32 reg;
       let bm = (push_bit (unat (bit_idx AND 31)) 1 :: u32);
       (case rm of
          Reg _ \<Rightarrow> do {
            v \<leftarrow> read_rm32 rm;
            flag_to CF (v AND bm \<noteq> 0);
            nx (if k \<noteq> 0 then write_rm32 rm (bit_op k v bm) else ret ())
          }
        | Mem ea \<Rightarrow> do {
            base \<leftarrow> ea_linear ea;
            let addr = base + (signed_drop_bit 5 bit_idx) * 4;
            v \<leftarrow> ld32 addr;
            flag_to CF (v AND bm \<noteq> 0);
            nx (if k \<noteq> 0 then st32 addr (bit_op k v bm) else ret ())
          }) })
     (do {
       bit_idx \<leftarrow> r16 reg;
       let bm = (push_bit (unat (bit_idx AND 15)) 1 :: u16);
       (case rm of
          Reg _ \<Rightarrow> do {
            v \<leftarrow> read_rm16 rm;
            flag_to CF (v AND bm \<noteq> 0);
            nx (if k \<noteq> 0 then write_rm16 rm (bit_op k v bm) else ret ())
          }
        | Mem ea \<Rightarrow> do {
            base \<leftarrow> ea_linear ea;
            let addr = base + (scast (signed_drop_bit 4 bit_idx) :: u32) * 2;
            v \<leftarrow> ld16 addr;
            flag_to CF (v AND bm \<noteq> 0);
            nx (if k \<noteq> 0 then st16 addr (bit_op k v bm) else ret ())
          }) })
   }"

definition op_bt_imm :: "u8 \<Rightarrow> u16 \<Rightarrow> u32 \<Rightarrow> outcome exec" where
  "op_bt_imm op2 op_cs op_ip = do {
     (_, sub, rm) \<leftarrow> fetch_modrm;
     imm \<leftarrow> fetch_u8;
     if sub < 4 then unimp op2 op_cs op_ip
     else
       by_size (do {
         v \<leftarrow> read_rm32 rm;
         let bm = (push_bit (unat (imm AND 31)) 1 :: u32);
         flag_to CF (v AND bm \<noteq> 0);
         nx (if sub \<noteq> 4 then write_rm32 rm (bit_op (sub - 4) v bm) else ret ()) })
       (do {
         v \<leftarrow> read_rm16 rm;
         let bm = (push_bit (unat (imm AND 15)) 1 :: u16);
         flag_to CF (v AND bm \<noteq> 0);
         nx (if sub \<noteq> 4 then write_rm16 rm (bit_op (sub - 4) v bm) else ret ()) })
   }"

text \<open>The standard library's \<^verbatim>\<open>trailing_zeros\<close> and \<^verbatim>\<open>leading_zeros\<close>.\<close>

definition trailing_zeros :: "'a::len word \<Rightarrow> nat" where
  "trailing_zeros x = length (takeWhile (\<lambda>i. \<not> bit x i) [0..<LENGTH('a)])"

definition leading_zeros :: "'a::len word \<Rightarrow> nat" where
  "leading_zeros x = length (takeWhile (\<lambda>i. \<not> bit x i) (rev [0..<LENGTH('a)]))"

definition op_bsf :: "outcome exec" where
  "op_bsf = do {
     (_, reg, rm) \<leftarrow> fetch_modrm;
     by_size (do {
       v \<leftarrow> read_rm32 rm;
       if v = 0 then nx (flag_to ZF True)
       else do { flag_to ZF False; nx (w32 reg (of_nat (trailing_zeros v))) } })
     (do {
       v \<leftarrow> read_rm16 rm;
       if v = 0 then nx (flag_to ZF True)
       else do { flag_to ZF False; nx (w16 reg (of_nat (trailing_zeros v))) } })
   }"

definition op_bsr :: "outcome exec" where
  "op_bsr = do {
     (_, reg, rm) \<leftarrow> fetch_modrm;
     by_size (do {
       v \<leftarrow> read_rm32 rm;
       if v = 0 then nx (flag_to ZF True)
       else do { flag_to ZF False; nx (w32 reg (31 - of_nat (leading_zeros v))) } })
     (do {
       v \<leftarrow> read_rm16 rm;
       if v = 0 then nx (flag_to ZF True)
       else do { flag_to ZF False; nx (w16 reg (15 - of_nat (leading_zeros v))) } })
   }"

section \<open>Double shifts\<close>

definition shld32 :: "rm \<Rightarrow> u8 \<Rightarrow> u8 \<Rightarrow> unit exec" where
  "shld32 rm reg count =
     (if count = 0 then ret ()
      else do {
        dest \<leftarrow> read_rm32 rm;
        src \<leftarrow> r32 reg;
        let combined = push_bit 32 (ucast dest :: u64) OR ucast src;
        let shifted = push_bit (unat count mod 64) combined;
        let result = (ucast (drop_bit 32 shifted) :: u32);
        cpu_upd (\<lambda>c. flags_logic32 c result);
        flag_to CF (drop_bit (unat (32 - count)) dest AND 1 \<noteq> 0);
        write_rm32 rm result
      })"

definition shld16 :: "rm \<Rightarrow> u8 \<Rightarrow> u8 \<Rightarrow> unit exec" where
  "shld16 rm reg count =
     (if count = 0 then ret ()
      else do {
        dest \<leftarrow> read_rm16 rm;
        src \<leftarrow> r16 reg;
        let combined = push_bit 16 (ucast dest :: u32) OR ucast src;
        let shifted = push_bit (unat count mod 32) combined;
        let result = (ucast (drop_bit 16 shifted) :: u16);
        cpu_upd (\<lambda>c. flags_logic16 c result);
        flag_to CF (drop_bit (unat (16 - count)) dest AND 1 \<noteq> 0);
        write_rm16 rm result
      })"

definition shrd32 :: "rm \<Rightarrow> u8 \<Rightarrow> u8 \<Rightarrow> unit exec" where
  "shrd32 rm reg count =
     (if count = 0 then ret ()
      else do {
        dest \<leftarrow> read_rm32 rm;
        src \<leftarrow> r32 reg;
        let combined = push_bit 32 (ucast src :: u64) OR ucast dest;
        let shifted = drop_bit (unat count mod 64) combined;
        let result = (ucast shifted :: u32);
        cpu_upd (\<lambda>c. flags_logic32 c result);
        flag_to CF (drop_bit (unat (count - 1)) dest AND 1 \<noteq> 0);
        write_rm32 rm result
      })"

definition shrd16 :: "rm \<Rightarrow> u8 \<Rightarrow> u8 \<Rightarrow> unit exec" where
  "shrd16 rm reg count =
     (if count = 0 then ret ()
      else do {
        dest \<leftarrow> read_rm16 rm;
        src \<leftarrow> r16 reg;
        let combined = push_bit 16 (ucast src :: u32) OR ucast dest;
        let shifted = drop_bit (unat count mod 32) combined;
        let result = (ucast shifted :: u16);
        cpu_upd (\<lambda>c. flags_logic16 c result);
        flag_to CF (drop_bit (unat (count - 1)) dest AND 1 \<noteq> 0);
        write_rm16 rm result
      })"

definition op_shld :: "u8 \<Rightarrow> outcome exec" where
  "op_shld op2 = do {
     (_, reg, rm) \<leftarrow> fetch_modrm;
     raw \<leftarrow> (if op2 = 0xA4 then fetch_u8 else r8 1);
     let count = raw AND 0x1F;
     by_size (nx (shld32 rm reg count)) (nx (shld16 rm reg (count AND 0x0F)))
   }"

definition op_shrd :: "u8 \<Rightarrow> outcome exec" where
  "op_shrd op2 = do {
     (_, reg, rm) \<leftarrow> fetch_modrm;
     raw \<leftarrow> (if op2 = 0xAC then fetch_u8 else r8 1);
     let count = raw AND 0x1F;
     by_size (nx (shrd32 rm reg count)) (nx (shrd16 rm reg (count AND 0x0F)))
   }"

section \<open>CPUID\<close>

definition CPUID_BRAND :: string where
  "CPUID_BRAND = ''wwwvm Rust software-only x86 CPU                ''"

definition CPUID_LEAF1_EDX :: u32 where
  "CPUID_LEAF1_EDX = foldr (\<lambda>n acc. push_bit n 1 OR acc) [0, 2, 3, 4, 5, 7, 8, 9, 11, 13, 15, 19, 24, 25, 26] 0"

definition CPUID_LEAF1_EBX :: u32 where "CPUID_LEAF1_EBX = push_bit 16 1 OR push_bit 8 8"

definition dword_of_chars :: "string \<Rightarrow> nat \<Rightarrow> u32" where
  "dword_of_chars s i =
     ((of_char (s ! i) OR push_bit 8 (of_char (s ! (i + 1)))) OR push_bit 16 (of_char (s ! (i + 2))))
       OR push_bit 24 (of_char (s ! (i + 3)))"

definition brand_dword :: "nat \<Rightarrow> u32" where
  "brand_dword offset = dword_of_chars CPUID_BRAND offset"

text \<open>The answer of a leaf, in the order EAX, EBX, ECX, EDX.\<close>

definition cpuid_leaf :: "u32 \<Rightarrow> u32 \<times> u32 \<times> u32 \<times> u32" where
  "cpuid_leaf leaf =
     (if leaf = 0 then (2, dword_of_chars ''Genu'' 0, dword_of_chars ''ntel'' 0, dword_of_chars ''ineI'' 0)
      else if leaf = 1 then (0x000506E3, CPUID_LEAF1_EBX, 0, CPUID_LEAF1_EDX)
      else if leaf = 2 then (1, 0, 0, 0)
      else if leaf = 0x80000000 then (0x80000008, 0, 0, 0)
      else if leaf = 0x80000001 then (0, 0, 0, 0)
      else if 0x80000002 \<le> leaf \<and> leaf \<le> 0x80000004 then
        (let base = unat (leaf - 0x80000002) * 16 in
         (brand_dword base, brand_dword (base + 4), brand_dword (base + 8), brand_dword (base + 12)))
      else if leaf = 0x80000008 then (0x00002020, 0, 0, 0)
      else (0, 0, 0, 0))"

definition cpuid_dispatch :: "cpu \<Rightarrow> cpu" where
  "cpuid_dispatch c =
     (let (a, b, cx, d) = cpuid_leaf (read_r32 c 0) in
      write_r32 (write_r32 (write_r32 (write_r32 c 0 a) 3 b) 1 cx) 2 d)"

section \<open>Multiplication and extending moves\<close>

definition op_imul_r_rm :: "outcome exec" where
  "op_imul_r_rm = do {
     (_, reg, rm) \<leftarrow> fetch_modrm;
     by_size (do { a \<leftarrow> r32 reg; b \<leftarrow> read_rm32 rm; imul32 reg a b })
       (do { a \<leftarrow> r16 reg; b \<leftarrow> read_rm16 rm; imul16 reg a b })
   }"

definition op_movzx8 :: "outcome exec" where
  "op_movzx8 = do {
     (_, reg, rm) \<leftarrow> fetch_modrm;
     v \<leftarrow> read_rm8 rm;
     by_size (nx (w32 reg (ucast v))) (nx (w16 reg (ucast v)))
   }"

definition op_movzx16 :: "outcome exec" where
  "op_movzx16 = do {
     (_, reg, rm) \<leftarrow> fetch_modrm;
     v \<leftarrow> read_rm16 rm;
     by_size (nx (w32 reg (ucast v))) (nx (w16 reg v))
   }"

definition op_movsx8 :: "outcome exec" where
  "op_movsx8 = do {
     (_, reg, rm) \<leftarrow> fetch_modrm;
     v \<leftarrow> read_rm8 rm;
     by_size (nx (w32 reg (scast v))) (nx (w16 reg (scast v)))
   }"

definition op_movsx16 :: "outcome exec" where
  "op_movsx16 = do {
     (_, reg, rm) \<leftarrow> fetch_modrm;
     v \<leftarrow> read_rm16 rm;
     by_size (nx (w32 reg (scast v))) (nx (w16 reg v))
   }"

section \<open>Atomic read-modify-write\<close>

definition op_xadd8 :: "outcome exec" where
  "op_xadd8 = do {
     (_, reg, rm) \<leftarrow> fetch_modrm;
     dest \<leftarrow> read_rm8 rm; src \<leftarrow> r8 reg;
     let s = dest + src;
     cpu_upd (\<lambda>c. flags_add8 c dest src 0 s);
     w8 reg dest;
     nx (write_rm8 rm s)
   }"

definition op_xadd :: "outcome exec" where
  "op_xadd = do {
     (_, reg, rm) \<leftarrow> fetch_modrm;
     by_size (do {
       dest \<leftarrow> read_rm32 rm; src \<leftarrow> r32 reg;
       cpu_upd (\<lambda>c. flags_add32 c dest src 0 (dest + src));
       w32 reg dest;
       nx (write_rm32 rm (dest + src)) })
     (do {
       dest \<leftarrow> read_rm16 rm; src \<leftarrow> r16 reg;
       cpu_upd (\<lambda>c. flags_add16 c dest src 0 (dest + src));
       w16 reg dest;
       nx (write_rm16 rm (dest + src)) })
   }"

definition op_cmpxchg8b :: "u8 \<Rightarrow> u16 \<Rightarrow> u32 \<Rightarrow> outcome exec" where
  "op_cmpxchg8b op2 op_cs op_ip = do {
     (mode, reg, rm) \<leftarrow> fetch_modrm;
     (case rm of
        Reg _ \<Rightarrow> unimp op2 op_cs op_ip
      | Mem ea \<Rightarrow>
          if mode = 3 \<or> reg \<noteq> 1 then unimp op2 op_cs op_ip
          else do {
            addr \<leftarrow> ea_linear ea;
            mem_lo \<leftarrow> ld32 addr;
            mem_hi \<leftarrow> ld32 (addr + 4);
            expected_lo \<leftarrow> r32 0;
            expected_hi \<leftarrow> r32 2;
            if mem_lo = expected_lo \<and> mem_hi = expected_hi then do {
              new_lo \<leftarrow> r32 3;
              new_hi \<leftarrow> r32 1;
              st32 addr new_lo;
              st32 (addr + 4) new_hi;
              nx (flag_to ZF True)
            }
            else do {
              w32 0 mem_lo;
              w32 2 mem_hi;
              nx (flag_to ZF False)
            }
          })
   }"

definition swap_bytes :: "u32 \<Rightarrow> u32" where
  "swap_bytes v =
     ((push_bit 24 (v AND 0xFF) OR push_bit 8 (v AND 0xFF00)) OR drop_bit 8 (v AND 0xFF0000))
       OR drop_bit 24 v"

definition op_bswap :: "u8 \<Rightarrow> outcome exec" where
  "op_bswap op2 = do { v \<leftarrow> r32 (op2 - 0xC8); nx (w32 (op2 - 0xC8) (swap_bytes v)) }"

definition op_cmpxchg8 :: "outcome exec" where
  "op_cmpxchg8 = do {
     (_, reg, rm) \<leftarrow> fetch_modrm;
     dest \<leftarrow> read_rm8 rm; al \<leftarrow> r8 0;
     (if al = dest then do { src \<leftarrow> r8 reg; write_rm8 rm src; flag_to ZF True }
     else do { w8 0 dest; flag_to ZF False });
     nx (cpu_upd (\<lambda>c. flags_sub8 c al dest 0 (al - dest)))
   }"

definition op_cmpxchg :: "outcome exec" where
  "op_cmpxchg = do {
     (_, reg, rm) \<leftarrow> fetch_modrm;
     by_size (do {
       dest \<leftarrow> read_rm32 rm; eax \<leftarrow> r32 0;
       (if eax = dest then do { src \<leftarrow> r32 reg; write_rm32 rm src; flag_to ZF True }
       else do { w32 0 dest; flag_to ZF False });
       nx (cpu_upd (\<lambda>c. flags_sub32 c eax dest 0 (eax - dest))) })
     (do {
       dest \<leftarrow> read_rm16 rm; ax \<leftarrow> r16 0;
       (if ax = dest then do { src \<leftarrow> r16 reg; write_rm16 rm src; flag_to ZF True }
       else do { w16 0 dest; flag_to ZF False });
       nx (cpu_upd (\<lambda>c. flags_sub16 c ax dest 0 (ax - dest))) })
   }"

section \<open>The dispatch on the second byte\<close>

text \<open>
  The arms of the \<^verbatim>\<open>match\<close> on the second opcode byte.  The argument stands for the remaining arms, the
  MMX and SSE instructions and the FXSAVE group.
\<close>

definition two_byte :: "(u8 \<Rightarrow> u16 \<Rightarrow> u32 \<Rightarrow> outcome exec) \<Rightarrow> u16 \<Rightarrow> u32 \<Rightarrow> outcome exec" where
  "two_byte simd op_cs op_ip = do {
     op2 \<leftarrow> fetch_u8;
     if op2 = 0x00 then op_group6 op2 op_cs op_ip
     else if op2 = 0x01 then op_group7 op2 op_cs op_ip
     else if op2 = 0x0B then op_ud2 op_ip
     else if op2 = 0x20 then op_mov_r_cr op2 op_cs op_ip
     else if op2 = 0x21 then op_mov_r_dr op_ip
     else if op2 = 0x22 then op_mov_cr_r op2 op_cs op_ip
     else if op2 = 0x23 then op_mov_dr_r op_ip
     else if op2 = 0x18 \<or> op2 = 0x1F then op_hint
     else if op2 = 0x06 then op_clts op_ip
     else if op2 = 0x08 \<or> op2 = 0x09 then op_invd op_ip
     else if op2 = 0x31 then op_rdtsc
     else if op2 = 0x33 then op_rdpmc op_ip
     else if op2 = 0x32 then op_rdmsr op_ip
     else if op2 = 0x30 then op_wrmsr op_ip
     else if op2 = 0x34 then op_sysenter
     else if op2 = 0x35 then op_sysexit op_ip
     else if 0x80 \<le> op2 \<and> op2 \<le> 0x8F then op_jcc_rel op2
     else if op2 = 0xA3 \<or> op2 = 0xAB \<or> op2 = 0xB3 \<or> op2 = 0xBB then op_bt op2
     else if op2 = 0xBA then op_bt_imm op2 op_cs op_ip
     else if 0x40 \<le> op2 \<and> op2 \<le> 0x4F then op_cmovcc op2
     else if op2 = 0xA0 then op_push_sreg FS
     else if op2 = 0xA1 then op_pop_sreg FS op_ip
     else if op2 = 0xA8 then op_push_sreg GS
     else if op2 = 0xA9 then op_pop_sreg GS op_ip
     else if op2 = 0xA4 \<or> op2 = 0xA5 then op_shld op2
     else if op2 = 0xAC \<or> op2 = 0xAD then op_shrd op2
     else if op2 = 0xA2 then nx (cpu_upd cpuid_dispatch)
     else if op2 = 0xAF then op_imul_r_rm
     else if op2 = 0xB6 then op_movzx8
     else if op2 = 0xB7 then op_movzx16
     else if op2 = 0xBE then op_movsx8
     else if op2 = 0xBF then op_movsx16
     else if 0x90 \<le> op2 \<and> op2 \<le> 0x9F then op_setcc op2
     else if op2 = 0xC0 then op_xadd8
     else if op2 = 0xC1 then op_xadd
     else if op2 = 0xC7 then op_cmpxchg8b op2 op_cs op_ip
     else if 0xC8 \<le> op2 \<and> op2 \<le> 0xCF then op_bswap op2
     else if op2 = 0xBC then op_bsf
     else if op2 = 0xBD then op_bsr
     else if op2 = 0xB0 then op_cmpxchg8
     else if op2 = 0xB1 then op_cmpxchg
     else simd op2 op_cs op_ip
   }"

end
