(* ===== verification/CpuStep.thy ===== *)
theory CpuStep
  imports CpuOps0F
begin

unbundle bit_operations_syntax

text \<open>
  \<^verbatim>\<open>Cpu::step\<close> of \<^verbatim>\<open>crates/cpu/src/lib.rs\<close>: one turn of the machine.  A turn ticks the timers, latches the
  interrupt lines and serves the network card; delivers a pending page fault or an external interrupt;
  or decodes and runs one instruction and rolls the registers back when it faulted.  The decode is the
  composition of the opcode handlers of the preceding theories.  The floating-point and SIMD handlers
  and the host's BIOS hook are the fields of \<open>handlers\<close>, an argument of the step.
\<close>

record handlers =
  h_bios :: bios_hook
  h_simd :: "u8 \<Rightarrow> u16 \<Rightarrow> u32 \<Rightarrow> outcome exec"
  h_sse_scalar :: "bool \<Rightarrow> u8 \<Rightarrow> u16 \<Rightarrow> u32 \<Rightarrow> outcome exec"
  h_x87 :: "u8 \<Rightarrow> u16 \<Rightarrow> u32 \<Rightarrow> outcome exec"

section \<open>Timers, interrupt lines and the network card\<close>

definition frame_bytes :: "memory \<Rightarrow> u32 \<Rightarrow> u16 \<Rightarrow> u8 list" where
  "frame_bytes m addr sz = map (\<lambda>i. read_u8 m (addr + of_nat i)) [0..<unat sz]"

definition service_nic_tx :: "memory \<Rightarrow> iobus \<Rightarrow> iobus" where
  "service_nic_tx m b =
     (let (ds, b1) = take_nic_tx_descriptors b in
      mark_irq_dirty (foldl (\<lambda>b' (addr, sz). record_nic_tx_frame b' (frame_bytes m addr sz)) b1 ds))"

definition tick_devices :: "machine \<Rightarrow> machine" where
  "tick_devices s =
     (let m = tick_hpet_counter (tick_lapic_timer (m_mem s));
          b = refresh_irqs (m_io s);
          b' = (if nic_has_pending_tx b then service_nic_tx m b else b)
      in s\<lparr>m_mem := m, m_io := b'\<rparr>)"

definition advance_tsc :: "machine \<Rightarrow> machine" where
  "advance_tsc s = s\<lparr>m_cpu := (m_cpu s)\<lparr>tsc := tsc (m_cpu s) + 1\<rparr>\<rparr>"

text \<open>The vector an interruptible CPU takes next: the LAPIC queue first, then the PIC, which is acknowledged.\<close>

definition take_irq :: "machine \<Rightarrow> u8 option \<times> machine" where
  "take_irq s =
     (if \<not> has (m_cpu s) IF then (None, s)
      else
        (let (lv, m) = take_pending_lapic_irq (m_mem s) in
         case lv of
           Some v \<Rightarrow> (Some v, s\<lparr>m_mem := m\<rparr>)
         | None \<Rightarrow>
             (case pending_irq_vector (m_io s) of
                Some v \<Rightarrow> (Some v, s\<lparr>m_mem := m, m_io := ack_irq (m_io s)\<rparr>)
              | None \<Rightarrow> (None, s\<lparr>m_mem := m\<rparr>))))"

section \<open>Decoding\<close>

definition op_rep :: "handlers \<Rightarrow> nat \<Rightarrow> u8 \<Rightarrow> u16 \<Rightarrow> u32 \<Rightarrow> outcome option exec" where
  "op_rep h fuel opcode op_cs op_ip = do {
     let rep_zero = (opcode = 0xF3);
     nb \<leftarrow> fetch_opcode fuel;
     (case nb of
        None \<Rightarrow> ret None
      | Some inner \<Rightarrow>
          if inner = 0x0F then do {
            op2 \<leftarrow> fetch_u8;
            r \<leftarrow> h_sse_scalar h rep_zero op2 op_cs op_ip;
            ret (Some r)
          }
          else if inner = 0x90 then ret (Some Next)
          else if (0xA4 \<le> inner \<and> inner \<le> 0xA7) \<or> (0xAA \<le> inner \<and> inner \<le> 0xAF) \<or> (0x6C \<le> inner \<and> inner \<le> 0x6F)
          then do {
            r \<leftarrow> rep_loop rep_zero inner op_cs op_ip;
            ret (case r of None \<Rightarrow> None | Some None \<Rightarrow> Some Next | Some (Some e) \<Rightarrow> Some (Fail e))
          }
          else do { set_ip (op_ip + 1); ret (Some Next) })
   }"

definition is_alu_opcode :: "u8 \<Rightarrow> bool" where
  "is_alu_opcode b = (b < 0x40 \<and> b AND 7 < 6)"

text \<open>Opcodes below \<open>0x80\<close>.\<close>

definition exec_low :: "handlers \<Rightarrow> u8 \<Rightarrow> u16 \<Rightarrow> u32 \<Rightarrow> outcome exec" where
  "exec_low h opcode op_cs op_ip =
     (if is_alu_opcode opcode then alu_dispatch opcode
      else if opcode = 0x06 then op_push_sreg ES
      else if opcode = 0x0E then op_push_sreg CS
      else if opcode = 0x16 then op_push_sreg SS
      else if opcode = 0x1E then op_push_sreg DS
      else if opcode = 0x07 then op_pop_sreg ES op_ip
      else if opcode = 0x17 then op_pop_sreg SS op_ip
      else if opcode = 0x1F then op_pop_sreg DS op_ip
      else if opcode = 0x0F then two_byte (h_simd h) op_cs op_ip
      else if opcode = 0x27 then op_daa
      else if opcode = 0x2F then op_das
      else if opcode = 0x37 then op_aaa
      else if opcode = 0x3F then op_aas
      else if 0x40 \<le> opcode \<and> opcode \<le> 0x47 then op_inc_r opcode
      else if 0x48 \<le> opcode \<and> opcode \<le> 0x4F then op_dec_r opcode
      else if 0x50 \<le> opcode \<and> opcode \<le> 0x57 then op_push_r opcode
      else if 0x58 \<le> opcode \<and> opcode \<le> 0x5F then op_pop_r opcode
      else if opcode = 0x60 then op_pusha
      else if opcode = 0x61 then op_popa
      else if opcode = 0x63 then op_arpl
      else if opcode = 0x68 then op_push_imm
      else if opcode = 0x69 then op_imul_imm
      else if opcode = 0x6A then op_push_imm8
      else if opcode = 0x6B then op_imul_imm8
      else if 0x6C \<le> opcode \<and> opcode \<le> 0x6F then nx (step_string_io opcode)
      else if 0x70 \<le> opcode \<and> opcode \<le> 0x7F then op_jcc_rel8 opcode
      else unimp opcode op_cs op_ip)"

text \<open>Opcodes \<open>0x80\<close> to \<open>0xBF\<close>.\<close>

definition exec_mid :: "u8 \<Rightarrow> u16 \<Rightarrow> u32 \<Rightarrow> outcome exec" where
  "exec_mid opcode op_cs op_ip =
     (if opcode = 0x80 then op_alu_rm8_imm8
      else if opcode = 0x81 then op_alu_rm_imm
      else if opcode = 0x83 then op_alu_rm_imm8s
      else if opcode = 0x84 then op_test8
      else if opcode = 0x85 then op_test
      else if opcode = 0x86 then op_xchg8
      else if opcode = 0x87 then op_xchg
      else if opcode = 0x88 then op_mov_rm8_r8
      else if opcode = 0x89 then op_mov_rm_r
      else if opcode = 0x8A then op_mov_r8_rm8
      else if opcode = 0x8B then op_mov_r_rm
      else if opcode = 0x8C then op_mov_rm_sreg opcode op_cs op_ip
      else if opcode = 0x8D then op_lea opcode op_cs op_ip
      else if opcode = 0x8E then op_mov_sreg_rm opcode op_cs op_ip
      else if opcode = 0x8F then op_pop_rm opcode op_cs op_ip
      else if opcode = 0x90 then ret Next
      else if 0x91 \<le> opcode \<and> opcode \<le> 0x97 then op_xchg_ax opcode
      else if opcode = 0x98 then op_cbw
      else if opcode = 0x99 then op_cwd
      else if opcode = 0x9A then op_call_far
      else if opcode = 0x9B then ret Next
      else if opcode = 0x9C then op_pushf
      else if opcode = 0x9D then op_popf
      else if opcode = 0x9E then op_sahf
      else if opcode = 0x9F then op_lahf
      else if opcode = 0xA0 then op_mov_al_moffs
      else if opcode = 0xA1 then op_mov_ax_moffs
      else if opcode = 0xA2 then op_mov_moffs_al
      else if opcode = 0xA3 then op_mov_moffs_ax
      else if opcode = 0xA8 then op_test_al_imm
      else if opcode = 0xA9 then op_test_ax_imm
      else if 0xA4 \<le> opcode \<and> opcode \<le> 0xAF then op_string opcode
      else if 0xB0 \<le> opcode \<and> opcode \<le> 0xB7 then op_mov_r8_imm opcode
      else if 0xB8 \<le> opcode \<and> opcode \<le> 0xBF then op_mov_r_imm opcode
      else unimp opcode op_cs op_ip)"

text \<open>Opcodes from \<open>0xC0\<close>, the REP prefixes excepted.\<close>

definition exec_high :: "handlers \<Rightarrow> u8 \<Rightarrow> u16 \<Rightarrow> u32 \<Rightarrow> outcome exec" where
  "exec_high h opcode op_cs op_ip =
     (if opcode \<in> {0xC0, 0xC1, 0xD0, 0xD1, 0xD2, 0xD3} then op_shift opcode
      else if opcode = 0xC2 then op_ret_imm
      else if opcode = 0xC3 then op_ret
      else if opcode = 0xC4 then op_load_far ES opcode op_cs op_ip
      else if opcode = 0xC5 then op_load_far DS opcode op_cs op_ip
      else if opcode = 0xC6 then op_mov_rm8_imm8 opcode op_cs op_ip
      else if opcode = 0xC7 then op_mov_rm_imm opcode op_cs op_ip
      else if opcode = 0xC8 then op_enter opcode op_cs op_ip
      else if opcode = 0xC9 then op_leave
      else if opcode = 0xCA then op_retf_imm
      else if opcode = 0xCB then op_retf
      else if opcode = 0xCC then op_int3 op_ip
      else if opcode = 0xCD then op_int (h_bios h) op_ip
      else if opcode = 0xCE then op_into op_ip
      else if opcode = 0xCF then op_iret
      else if opcode = 0xD4 then op_aam op_ip
      else if opcode = 0xD5 then op_aad
      else if opcode = 0xD7 then op_xlat
      else if 0xD8 \<le> opcode \<and> opcode \<le> 0xDF then h_x87 h opcode op_cs op_ip
      else if 0xE0 \<le> opcode \<and> opcode \<le> 0xE2 then op_loop opcode
      else if opcode = 0xE3 then op_jcxz
      else if opcode = 0xE4 then op_in8 port_imm op_ip
      else if opcode = 0xE5 then op_in port_imm op_ip
      else if opcode = 0xE6 then op_out8 port_imm op_ip
      else if opcode = 0xE7 then op_out port_imm op_ip
      else if opcode = 0xE8 then op_call_rel
      else if opcode = 0xE9 then op_jmp_rel
      else if opcode = 0xEA then op_jmp_far
      else if opcode = 0xEB then op_jmp_rel8
      else if opcode = 0xEC then op_in8 port_dx op_ip
      else if opcode = 0xED then op_in port_dx op_ip
      else if opcode = 0xEE then op_out8 port_dx op_ip
      else if opcode = 0xEF then op_out port_dx op_ip
      else if opcode = 0xF0 then ret Next
      else if opcode = 0xF4 then op_hlt op_ip
      else if opcode = 0xF5 then op_cmc
      else if opcode = 0xF6 then op_group3_8 opcode op_cs op_ip
      else if opcode = 0xF7 then op_group3 opcode op_cs op_ip
      else if opcode = 0xF8 then nx (flag_to CF False)
      else if opcode = 0xF9 then nx (flag_to CF True)
      else if opcode = 0xFA then op_cli op_ip
      else if opcode = 0xFB then op_sti op_ip
      else if opcode = 0xFC then nx (flag_to DF False)
      else if opcode = 0xFD then nx (flag_to DF True)
      else if opcode = 0xFE then op_group4 opcode op_cs op_ip
      else if opcode = 0xFF then op_group5 opcode op_cs op_ip
      else unimp opcode op_cs op_ip)"

definition exec_opcode :: "handlers \<Rightarrow> nat \<Rightarrow> u8 \<Rightarrow> u16 \<Rightarrow> u32 \<Rightarrow> outcome option exec" where
  "exec_opcode h fuel opcode op_cs op_ip =
     (if opcode = 0xF2 \<or> opcode = 0xF3 then op_rep h fuel opcode op_cs op_ip
      else do {
        r \<leftarrow> (if opcode < 0x80 then exec_low h opcode op_cs op_ip
               else if opcode < 0xC0 then exec_mid opcode op_cs op_ip
               else exec_high h opcode op_cs op_ip);
        ret (Some r)
      })"

section \<open>Rollback\<close>

definition self_managed :: "u8 \<Rightarrow> bool" where
  "self_managed opcode = (opcode \<in> {0xA4, 0xA5, 0xA6, 0xA7, 0xAA, 0xAB, 0xAC, 0xAD, 0xAE, 0xAF, 0xF2, 0xF3})"

definition snapshots_fp :: "u8 \<Rightarrow> bool" where
  "snapshots_fp opcode =
     ((0xD8 \<le> opcode \<and> opcode \<le> 0xDF) \<or> opcode = 0x0F \<or> opcode = 0xF2 \<or> opcode = 0xF3)"

definition roll_back :: "cpu \<Rightarrow> u8 \<Rightarrow> cpu \<Rightarrow> cpu" where
  "roll_back snap opcode c =
     (if pending_fault c = None then c
      else
        (let c1 = (if self_managed opcode then c
                   else c\<lparr>regs := regs snap, regs_high := regs_high snap,
                          flags := flags snap, flags_high := flags_high snap\<rparr>)
         in if snapshots_fp opcode
            then c1\<lparr>fpu_top := fpu_top snap, fpu_sw := fpu_sw snap, fpu_cw := fpu_cw snap,
                    fpu_st := fpu_st snap, xmm := xmm snap, mmx := mmx snap\<rparr>
            else c1))"

section \<open>The step\<close>

datatype step_result = Done | Error cpu_error | OutOfFuel

definition begin_instruction :: "cpu \<Rightarrow> cpu" where
  "begin_instruction c =
     c\<lparr>seg_override := None, op_size_32 := code_size_32 c, addr_size_32 := code_size_32 c, last_op_ip := ip c\<rparr>"

text \<open>The end of \<^verbatim>\<open>step\<close>: an arm that falls through is followed by the rollback.\<close>

definition finish :: "cpu \<Rightarrow> u8 \<Rightarrow> outcome option \<Rightarrow> step_result exec" where
  "finish snap opcode r =
     (case r of
        None \<Rightarrow> ret OutOfFuel
      | Some (Fail e) \<Rightarrow> ret (Error e)
      | Some Return \<Rightarrow> ret Done
      | Some Next \<Rightarrow> do { cpu_upd (roll_back snap opcode); ret Done })"

text \<open>
  One instruction.  The snapshots hold the values at the start: the prefixes change neither the general
  registers and flags nor the floating-point state.
\<close>

definition exec_instruction :: "handlers \<Rightarrow> nat \<Rightarrow> step_result exec" where
  "exec_instruction h fuel = do {
     cpu_upd begin_instruction;
     snap \<leftarrow> cpu_get id;
     let op_cs = sregs snap ! CS;
     let op_ip = ip snap;
     b \<leftarrow> fetch_opcode fuel;
     (case b of
        None \<Rightarrow> ret OutOfFuel
      | Some opcode \<Rightarrow> do {
          r \<leftarrow> exec_opcode h fuel opcode op_cs op_ip;
          finish snap opcode r
        })
   }"

definition machine_upd :: "(machine \<Rightarrow> machine) \<Rightarrow> unit exec" where
  "machine_upd f = State (\<lambda>s. ((), f s))"

definition machine_run :: "(machine \<Rightarrow> 'a \<times> machine) \<Rightarrow> 'a exec" where
  "machine_run f = State f"

lemma run_machine [run_simps]: "run_state (machine_upd f) s = ((), f s)" "run_state (machine_run g) s = g s"
  by (simp_all add: machine_upd_def machine_run_def)

definition step_halted :: "step_result exec" where
  "step_halted = do {
     machine_upd tick_devices;
     machine_upd advance_tsc;
     v \<leftarrow> machine_run take_irq;
     (case v of
        None \<Rightarrow> ret Done
      | Some vec \<Rightarrow> do { cpu_upd (\<lambda>c. c\<lparr>halted := False\<rparr>); do_interrupt vec; ret Done })
   }"

definition step_running :: "handlers \<Rightarrow> nat \<Rightarrow> step_result exec" where
  "step_running h fuel = do {
     machine_upd advance_tsc;
     fault \<leftarrow> cpu_run take_pending_fault;
     (case fault of
        Some pf \<Rightarrow> do {
          cpu_upd (\<lambda>c. c\<lparr>cr2 := pf_addr pf, ip := last_op_ip c\<rparr>);
          do_interrupt_with_error 14 (Some (pf_error_code pf));
          ret Done
        }
      | None \<Rightarrow> do {
          machine_upd tick_devices;
          v \<leftarrow> machine_run take_irq;
          (case v of
             Some vec \<Rightarrow> do { do_interrupt vec; ret Done }
           | None \<Rightarrow> exec_instruction h fuel)
        })
   }"

definition cpu_step :: "handlers \<Rightarrow> nat \<Rightarrow> step_result exec" where
  "cpu_step h fuel = do {
     asleep \<leftarrow> cpu_get halted;
     if asleep then step_halted else step_running h fuel
   }"

end
