(* ===== verification/CpuFrame.thy ===== *)
theory CpuFrame
  imports CpuStep
begin

unbundle bit_operations_syntax

text \<open>
  What an instruction may change.  A \<^emph>\<open>frame relation\<close> relates the machine before and after an action;
  the locales below collect what such a relation has to allow, and show once for every handler that it
  stays within it.  Two relations satisfy the larger locale: the well-formedness of the machine is
  kept, and the system registers are kept, the latter for the unprivileged handlers only.
\<close>

named_theorems frame_simps "what an operation keeps of the CPU"
named_theorems frame_intro "introduction rules for frames"

section \<open>Frames\<close>

definition frames :: "(machine \<Rightarrow> machine \<Rightarrow> bool) \<Rightarrow> 'a exec \<Rightarrow> bool" where
  "frames R a \<longleftrightarrow> (\<forall>s. R s (snd (run_state a s)))"

text \<open>The registers only ring 0 may change, and the address of the instruction in progress.\<close>

definition sys_regs :: "cpu \<Rightarrow> (u32 \<times> u32 \<times> u32 \<times> u32) \<times> (descriptor_table \<times> descriptor_table \<times> u16 \<times> u16) \<times>
    (u32 list \<times> u64 \<times> u32 \<times> u32 \<times> u32 \<times> u64 \<times> u32 \<times> u64) \<times> u32" where
  "sys_regs c = ((cr0 c, cr2 c, cr3 c, cr4 c), (gdtr c, idtr c, ldtr c, tr c),
     (dr c, tsc c, sysenter_cs c, sysenter_esp c, sysenter_eip c, misc_enable c, tsc_aux c, efer c), last_op_ip c)"

definition mmu_frame :: "cpu \<Rightarrow> cpu \<Rightarrow> bool" where
  "mmu_frame c c' \<longleftrightarrow> mmu_only c c' \<and> length (read_tlb c') = length (read_tlb c) \<and> length (write_tlb c') = length (write_tlb c)"

definition benign :: "cpu \<Rightarrow> cpu \<Rightarrow> bool" where
  "benign c c' \<longleftrightarrow> sys_regs c' = sys_regs c \<and> (cpu_wf c \<longrightarrow> cpu_wf c')"

definition mem_frame :: "memory \<Rightarrow> memory \<Rightarrow> bool" where
  "mem_frame m m' \<longleftrightarrow> mem_size m' = mem_size m \<and> (mem_wf m \<longrightarrow> mem_wf m')"

definition io_frame :: "iobus \<Rightarrow> iobus \<Rightarrow> bool" where "io_frame b b' \<longleftrightarrow> (bus_wf b \<longrightarrow> bus_wf b')"

locale frame_rel =
  fixes R :: "machine \<Rightarrow> machine \<Rightarrow> bool"
  assumes R_refl: "R s s" and R_trans: "R s t \<Longrightarrow> R t u \<Longrightarrow> R s u"
begin

lemma fr_bind [frame_intro]: "frames R a \<Longrightarrow> (\<And>x. frames R (b x)) \<Longrightarrow> frames R (State_Monad.bind a b)"
  unfolding frames_def State_Monad.bind_def by (auto simp: case_prod_beta intro: R_trans)

lemma fr_ret [frame_intro]: "frames R (ret x)"
  by (simp add: frames_def State_Monad.return_def R_refl)

lemma fr_get [frame_intro]: "frames R (cpu_get f)"
  by (simp add: frames_def cpu_get_def R_refl)

lemma fr_let [frame_intro]: "frames R (b v) \<Longrightarrow> frames R (Let v b)" by simp

lemma fr_if [frame_intro]: "(p \<Longrightarrow> frames R a) \<Longrightarrow> (\<not> p \<Longrightarrow> frames R b) \<Longrightarrow> frames R (if p then a else b)" by simp

lemma fr_case_prod [frame_intro]: "(\<And>x y. frames R (f x y)) \<Longrightarrow> frames R (case_prod f p)" by (cases p) simp

lemma fr_case_option [frame_intro]: "frames R a \<Longrightarrow> (\<And>x. frames R (f x)) \<Longrightarrow> frames R (case_option a f v)"
  by (cases v) simp_all

lemma fr_case_rm [frame_intro]: "(\<And>i. frames R (f i)) \<Longrightarrow> (\<And>e. frames R (g e)) \<Longrightarrow> frames R (case_rm f g v)"
  by (cases v) simp_all

lemma fr_case_sum [frame_intro]: "(\<And>i. frames R (f i)) \<Longrightarrow> (\<And>e. frames R (g e)) \<Longrightarrow> frames R (case_sum f g v)"
  by (cases v) simp_all

lemma fr_by_size [frame_intro]: "frames R a \<Longrightarrow> frames R b \<Longrightarrow> frames R (by_size a b)"
  unfolding by_size_def by (intro frame_intro)

lemma fr_nx [frame_intro]: "frames R a \<Longrightarrow> frames R (nx a)"
  unfolding nx_def by (intro frame_intro)

lemma fr_guarded [frame_intro]: "frames R g \<Longrightarrow> frames R a \<Longrightarrow> frames R (guarded g a)"
  unfolding guarded_def by (intro frame_intro)

end

section \<open>Fetches and reads\<close>

locale fetch_frame = frame_rel +
  assumes R_mmu: "mmu_frame (m_cpu s) c \<Longrightarrow> R s (s\<lparr>m_cpu := c\<rparr>)"
    and R_ip: "R s (s\<lparr>m_cpu := (m_cpu s)\<lparr>ip := v\<rparr>\<rparr>)"

lemma mmu_frame_refl [simp]: "mmu_frame c c" by (simp add: mmu_frame_def)

lemma mmu_frame_trans: "mmu_frame a b \<Longrightarrow> mmu_frame b c \<Longrightarrow> mmu_frame a c"
  by (auto simp: mmu_frame_def intro: mmu_only_trans)

lemma mmu_frame_updates [simp]:
  "mmu_frame c (c\<lparr>read_tlb := (read_tlb c)[i := e]\<rparr>)" "mmu_frame c (c\<lparr>write_tlb := (write_tlb c)[i := e]\<rparr>)"
  "mmu_frame c (c\<lparr>fetch_tlb := e\<rparr>)" "mmu_frame c (raise_fault c l ec)"
  using mmu_updates by (simp_all add: mmu_frame_def)

lemma translate_inner_frame: "mmu_frame c (snd (translate_inner c m l a))"
  unfolding translate_inner_def Let_def by simp

lemma mmu_frame_lets:
  "mmu_frame c c1 \<Longrightarrow> mmu_frame c (c1\<lparr>read_tlb := (read_tlb c1)[i := e]\<rparr>)"
  "mmu_frame c c1 \<Longrightarrow> mmu_frame c (c1\<lparr>write_tlb := (write_tlb c1)[i := e]\<rparr>)"
  "mmu_frame c c1 \<Longrightarrow> mmu_frame c (c1\<lparr>fetch_tlb := e'\<rparr>)"
  by (auto intro: mmu_frame_trans)

lemma translate_frame [simp]:
  "mmu_frame c (snd (translate c m l))" "mmu_frame c (snd (translate_write c m l))" "mmu_frame c (snd (translate_fetch c m l))"
  using translate_inner_frame [of c m l]
  unfolding translate_def translate_write_def translate_fetch_def Let_def
  by (auto simp: case_prod_beta mmu_frame_lets split: option.split)


lemma mem_read_frame [simp]:
  "mmu_frame c (snd (mem_read_u8 c m l))" "mmu_frame c (snd (mem_read_u16 c m l))" "mmu_frame c (snd (mem_read_u32 c m l))"
  "mmu_frame c (snd (mem_fetch_u8 c m l))"
proof -
  show 8: "mmu_frame c (snd (mem_read_u8 c m l))" for c l by (simp add: mem_read_u8_def case_prod_beta)
  show 16: "mmu_frame c (snd (mem_read_u16 c m l))" for c l
    unfolding mem_read_u16_def Let_def by (simp add: case_prod_beta mmu_frame_trans [OF 8 8])
  show "mmu_frame c (snd (mem_read_u32 c m l))"
    unfolding mem_read_u32_def Let_def by (simp add: case_prod_beta mmu_frame_trans [OF 16 16])
  show "mmu_frame c (snd (mem_fetch_u8 c m l))" by (simp add: mem_fetch_u8_def case_prod_beta)
qed

context fetch_frame begin

lemma fr_load [frame_intro]: "(\<And>c m. mmu_frame c (snd (f c m))) \<Longrightarrow> frames R (mem_load f)"
  by (auto simp: frames_def mem_load_def case_prod_beta intro: R_mmu)

lemma fr_ip [frame_intro]: "frames R (cpu_upd (\<lambda>c. c\<lparr>ip := f c\<rparr>))"
  by (simp add: frames_def cpu_upd_def R_ip)

lemma fr_fetch_u8 [frame_intro]: "frames R fetch_u8"
  unfolding fetch_u8_def by (intro frame_intro) simp

lemma fr_fetch_u16 [frame_intro]: "frames R fetch_u16"
  unfolding fetch_u16_def by (intro frame_intro) simp_all

lemma fr_fetch_pair [frame_intro]: "frames R fetch_pair"
  unfolding fetch_pair_def by (intro frame_intro)

lemma fr_fetch_moffs [frame_intro]: "frames R fetch_moffs"
  unfolding fetch_moffs_def by (intro frame_intro)

lemma fr_compute_ea [frame_intro]: "frames R (compute_ea mode rm)"
  unfolding compute_ea_def by (intro frame_intro)

lemma fr_sib_base [frame_intro]: "frames R (sib_base mode)"
  unfolding sib_base_def by (intro frame_intro)

lemma fr_compute_ea_32 [frame_intro]: "frames R (compute_ea_32 mode rm)"
  unfolding compute_ea_32_def by (intro frame_intro)

lemma fr_fetch_modrm [frame_intro]: "frames R fetch_modrm"
  unfolding fetch_modrm_def by (intro frame_intro)

lemma fr_ea_linear [frame_intro]: "frames R (ea_linear ea)"
  unfolding ea_linear_def by (intro frame_intro)

lemma fr_ld [frame_intro]: "frames R (ld8 l)" "frames R (ld16 l)" "frames R (ld32 l)"
  by (intro frame_intro, simp)+

lemma fr_read_rm [frame_intro]: "frames R (read_rm8 rm)" "frames R (read_rm16 rm)" "frames R (read_rm32 rm)"
  unfolding read_rm8_def read_rm16_def read_rm32_def by (intro frame_intro)+

lemma fr_selector_accessible [frame_intro]: "frames R (selector_accessible sel w)"
  unfolding selector_accessible_def by (intro frame_intro)

lemma fr_tss_base [frame_intro]: "frames R tss_base"
  unfolding tss_base_def by (intro frame_intro)

lemma fr_tss_limit [frame_intro]: "frames R tss_limit"
  unfolding tss_limit_def by (intro frame_intro)

lemma fr_io_bitmap_clear [frame_intro]: "frames R (io_bitmap_clear n base limit map_base p)"
  by (induction n arbitrary: p) (auto intro!: frame_intro)

lemma fr_io_access_permitted [frame_intro]: "frames R (io_access_permitted port width)"
  unfolding io_access_permitted_def by (intro frame_intro)

lemma fr_fetch_rel [frame_intro]: "frames R fetch_rel"
  unfolding fetch_rel_def by (intro frame_intro)

lemma fr_fetch_far [frame_intro]: "frames R fetch_far"
  unfolding fetch_far_def by (intro frame_intro)

lemma fr_far_pointer [frame_intro]: "frames R (far_pointer ea)"
  unfolding far_pointer_def by (intro frame_intro)

lemma fr_jump_rel [frame_intro]: "frames R (jump_rel rel)"
  unfolding jump_rel_def by (intro frame_intro)

lemma fr_interrupt_gate [frame_intro]: "frames R (interrupt_gate n)"
  unfolding interrupt_gate_def by (intro frame_intro)

end


section \<open>Operations on the CPU\<close>

lemma benign_refl [simp]: "benign c c" by (simp add: benign_def)

lemma benignI: "sys_regs c' = sys_regs c \<Longrightarrow> cpu_wf c' = cpu_wf c \<Longrightarrow> benign c c'" by (simp add: benign_def)

lemma mmu_benign: "mmu_frame c c' \<Longrightarrow> benign c c'"
  by (auto simp: mmu_frame_def mmu_only_def benign_def sys_regs_def cpu_wf_def)

lemma sys_regs_updates [frame_simps]:
  "sys_regs (c\<lparr>regs := xs\<rparr>) = sys_regs c" "sys_regs (c\<lparr>regs_high := xs\<rparr>) = sys_regs c"
  "sys_regs (c\<lparr>sregs := xs\<rparr>) = sys_regs c" "sys_regs (c\<lparr>ip := i\<rparr>) = sys_regs c"
  "sys_regs (c\<lparr>flags := f\<rparr>) = sys_regs c" "sys_regs (c\<lparr>flags_high := f\<rparr>) = sys_regs c"
  "sys_regs (c\<lparr>halted := b\<rparr>) = sys_regs c" "sys_regs (c\<lparr>seg_override := so\<rparr>) = sys_regs c"
  "sys_regs (c\<lparr>op_size_32 := b\<rparr>) = sys_regs c" "sys_regs (c\<lparr>addr_size_32 := b\<rparr>) = sys_regs c"
  "sys_regs (c\<lparr>stack_size_32 := b\<rparr>) = sys_regs c" "sys_regs (c\<lparr>code_size_32 := b\<rparr>) = sys_regs c"
  "sys_regs (c\<lparr>a20 := b\<rparr>) = sys_regs c" "sys_regs (c\<lparr>seg_cache := sc\<rparr>) = sys_regs c"
  "sys_regs (invalidate_fetch_tlb c) = sys_regs c"
  by (simp_all add: sys_regs_def invalidate_fetch_tlb_def)

lemma cpu_wf_updates [frame_simps]:
  "cpu_wf (c\<lparr>regs := (regs c)[i := v]\<rparr>) = cpu_wf c" "cpu_wf (c\<lparr>regs_high := (regs_high c)[i := v]\<rparr>) = cpu_wf c"
  "cpu_wf (c\<lparr>regs := (regs c)[i := v], regs_high := (regs_high c)[i := w]\<rparr>) = cpu_wf c"
  "cpu_wf (c\<lparr>sregs := (sregs c)[i := v]\<rparr>) = cpu_wf c" "cpu_wf (c\<lparr>ip := i'\<rparr>) = cpu_wf c"
  "cpu_wf (c\<lparr>flags := f\<rparr>) = cpu_wf c" "cpu_wf (c\<lparr>flags_high := f\<rparr>) = cpu_wf c"
  "cpu_wf (c\<lparr>halted := b\<rparr>) = cpu_wf c" "cpu_wf (c\<lparr>seg_override := so\<rparr>) = cpu_wf c"
  "cpu_wf (c\<lparr>op_size_32 := b\<rparr>) = cpu_wf c" "cpu_wf (c\<lparr>addr_size_32 := b\<rparr>) = cpu_wf c"
  "cpu_wf (c\<lparr>stack_size_32 := b\<rparr>) = cpu_wf c" "cpu_wf (c\<lparr>code_size_32 := b\<rparr>) = cpu_wf c"
  "cpu_wf (c\<lparr>a20 := b\<rparr>) = cpu_wf c" "cpu_wf (c\<lparr>seg_cache := (seg_cache c)[i := e]\<rparr>) = cpu_wf c"
  "cpu_wf (c\<lparr>last_op_ip := i'\<rparr>) = cpu_wf c" "cpu_wf (invalidate_fetch_tlb c) = cpu_wf c"
  by (simp_all add: cpu_wf_def invalidate_fetch_tlb_def)

lemma cpu_wf_system [frame_simps]:
  "cpu_wf (c\<lparr>cr0 := v\<rparr>) = cpu_wf c" "cpu_wf (c\<lparr>cr2 := v\<rparr>) = cpu_wf c" "cpu_wf (c\<lparr>cr3 := v\<rparr>) = cpu_wf c"
  "cpu_wf (c\<lparr>cr4 := v\<rparr>) = cpu_wf c" "cpu_wf (c\<lparr>ldtr := w\<rparr>) = cpu_wf c" "cpu_wf (c\<lparr>tr := w\<rparr>) = cpu_wf c"
  "cpu_wf (c\<lparr>gdtr := d\<rparr>) = cpu_wf c" "cpu_wf (c\<lparr>idtr := d\<rparr>) = cpu_wf c" "cpu_wf (c\<lparr>dr := (dr c)[i := v]\<rparr>) = cpu_wf c"
  "cpu_wf (c\<lparr>tsc := t\<rparr>) = cpu_wf c"
  by (simp_all add: cpu_wf_def)

lemma op_ip_frame [frame_simps]:
  "last_op_ip (set_flag c f b) = last_op_ip c" "last_op_ip (invalidate_fetch_tlb c) = last_op_ip c"
  by (simp_all add: set_flag_def invalidate_fetch_tlb_def)

lemma register_frame [frame_simps]:
  "sys_regs (write_r8 c i v8) = sys_regs c" "cpu_wf (write_r8 c i v8) = cpu_wf c"
  "sys_regs (write_r16 c i v16) = sys_regs c" "cpu_wf (write_r16 c i v16) = cpu_wf c"
  "sys_regs (write_r32 c i v32) = sys_regs c" "cpu_wf (write_r32 c i v32) = cpu_wf c"
  "sys_regs (write_stack_ptr c v32) = sys_regs c" "cpu_wf (write_stack_ptr c v32) = cpu_wf c"
  "sys_regs (set_flag c f b) = sys_regs c" "cpu_wf (set_flag c f b) = cpu_wf c"
  by (simp_all add: frame_simps write_r8_def write_r16_def write_r32_def write_stack_ptr_def set_flag_def Let_def)

lemma flags_frame [frame_simps]:
  "sys_regs (flags_logic8 c r) = sys_regs c" "cpu_wf (flags_logic8 c r) = cpu_wf c"
  "sys_regs (flags_add8 c a b k r) = sys_regs c" "cpu_wf (flags_add8 c a b k r) = cpu_wf c"
  "sys_regs (flags_sub8 c a b k r) = sys_regs c" "cpu_wf (flags_sub8 c a b k r) = cpu_wf c"
  "sys_regs (flags_zsp8 c r) = sys_regs c" "cpu_wf (flags_zsp8 c r) = cpu_wf c"
  "sys_regs (flags_logic16 c r') = sys_regs c" "cpu_wf (flags_logic16 c r') = cpu_wf c"
  "sys_regs (flags_add16 c a' b' k' r') = sys_regs c" "cpu_wf (flags_add16 c a' b' k' r') = cpu_wf c"
  "sys_regs (flags_sub16 c a' b' k' r') = sys_regs c" "cpu_wf (flags_sub16 c a' b' k' r') = cpu_wf c"
  "sys_regs (flags_zsp16 c r') = sys_regs c" "cpu_wf (flags_zsp16 c r') = cpu_wf c"
  "sys_regs (flags_logic32 c r'') = sys_regs c" "cpu_wf (flags_logic32 c r'') = cpu_wf c"
  "sys_regs (flags_add32 c a'' b'' k'' r'') = sys_regs c" "cpu_wf (flags_add32 c a'' b'' k'' r'') = cpu_wf c"
  "sys_regs (flags_sub32 c a'' b'' k'' r'') = sys_regs c" "cpu_wf (flags_sub32 c a'' b'' k'' r'') = cpu_wf c"
  "sys_regs (flags_zsp32 c r'') = sys_regs c" "cpu_wf (flags_zsp32 c r'') = cpu_wf c"
  by (simp_all only: flags_logic8_def flags_add8_def flags_sub8_def flags_zsp8_def flags_logic16_def flags_add16_def
      flags_sub16_def flags_zsp16_def flags_logic32_def flags_add32_def flags_sub32_def flags_zsp32_def Let_def frame_simps)

lemma alu_frame [frame_simps]:
  "sys_regs (snd (alu_apply8 c op a b)) = sys_regs c" "cpu_wf (snd (alu_apply8 c op a b)) = cpu_wf c"
  "sys_regs (snd (alu_apply16 c op a' b')) = sys_regs c" "cpu_wf (snd (alu_apply16 c op a' b')) = cpu_wf c"
  "sys_regs (snd (alu_apply32 c op a'' b'')) = sys_regs c" "cpu_wf (snd (alu_apply32 c op a'' b'')) = cpu_wf c"
  unfolding alu_apply8_def alu_apply16_def alu_apply32_def Let_def by (simp_all add: frame_simps)


lemmas branch_simps = if_distrib [of snd] if_distrib [of sys_regs] if_distrib [of cpu_wf] snd_conv case_prod_beta if_cancel Let_def

lemma shift_frame [frame_simps]:
  "sys_regs (snd (shift_apply8 c op v k)) = sys_regs c" "cpu_wf (snd (shift_apply8 c op v k)) = cpu_wf c"
  "sys_regs (snd (shift_apply16 c op v' k)) = sys_regs c" "cpu_wf (snd (shift_apply16 c op v' k)) = cpu_wf c"
  "sys_regs (snd (shift_apply32 c op v'' k)) = sys_regs c" "cpu_wf (snd (shift_apply32 c op v'' k)) = cpu_wf c"
  by (simp_all only: shift_apply8_def shift_apply16_def shift_apply32_def branch_simps frame_simps)

lemma string_frame [frame_simps]:
  "sys_regs (advance_si_for_string d c) = sys_regs c" "cpu_wf (advance_si_for_string d c) = cpu_wf c"
  "sys_regs (advance_di_for_string d c) = sys_regs c" "cpu_wf (advance_di_for_string d c) = cpu_wf c"
  "sys_regs (rep_decrement c) = sys_regs c" "cpu_wf (rep_decrement c) = cpu_wf c"
  "sys_regs (string_rollback esi edi fl c) = sys_regs c" "cpu_wf (string_rollback esi edi fl c) = cpu_wf c"
  by (simp_all add: frame_simps advance_si_for_string_def advance_di_for_string_def rep_decrement_def string_rollback_def)

lemma cpuid_frame [frame_simps]: "sys_regs (cpuid_dispatch c) = sys_regs c" "cpu_wf (cpuid_dispatch c) = cpu_wf c"
  by (simp_all add: frame_simps cpuid_dispatch_def case_prod_beta)

lemma prefix_frame: "prefix_effect b = Some f \<Longrightarrow> benign c (f c)"
  by (auto simp: prefix_effect_def benign_def frame_simps split: if_splits)

section \<open>Stores and ports\<close>

lemma mem_frame_refl [simp]: "mem_frame m m" by (simp add: mem_frame_def)

lemma mem_frame_trans: "mem_frame a b \<Longrightarrow> mem_frame b c \<Longrightarrow> mem_frame a c" by (auto simp: mem_frame_def)

lemma write_seq_frame [simp]: "mem_frame m (write_u8 m a v)" "mem_frame m (write_u8_seq m a bs)" "mem_frame m (fst (write_ram_bulk m a bs))"
  by (simp_all add: mem_frame_def mem_size_def write_u8_seq_frame write_ram_bulk_frame)

lemma mem_write_frame [simp]:
  "mmu_frame c (fst (mem_write_u8 c m l v))" "mem_frame m (snd (mem_write_u8 c m l v))"
  "mmu_frame c (fst (mem_write_bytes c m l bs))" "mem_frame m (snd (mem_write_bytes c m l bs))"
  "mmu_frame c (fst (mem_write_aligned c m l bs))" "mem_frame m (snd (mem_write_aligned c m l bs))"
proof -
  show 8: "mmu_frame c (fst (mem_write_u8 c m l v))" "mem_frame m (snd (mem_write_u8 c m l v))" for c m l v
    by (simp_all add: mem_write_u8_def case_prod_beta Let_def)
  show b: "mmu_frame c (fst (mem_write_bytes c m l bs))" "mem_frame m (snd (mem_write_bytes c m l bs))"
  proof (induction bs arbitrary: c m l)
    case (Cons x bs)
    {
      case 1
      show ?case using mmu_frame_trans [OF 8(1) Cons(1)] by (simp add: case_prod_beta)
    next
      case 2
      show ?case using mem_frame_trans [OF 8(2) Cons(2)] by (simp add: case_prod_beta)
    }
  qed simp_all
  show "mmu_frame c (fst (mem_write_aligned c m l bs))" "mem_frame m (snd (mem_write_aligned c m l bs))"
    using b write_seq_frame(3) mem_frame_trans [OF write_seq_frame(3) write_seq_frame(2)]
    by (simp_all add: mem_write_aligned_def Let_def case_prod_beta)
qed

locale exec_frame = frame_rel +
  assumes R_cpu: "benign (m_cpu s) c \<Longrightarrow> R s (s\<lparr>m_cpu := c\<rparr>)"
    and R_mem: "mem_frame (m_mem s) m \<Longrightarrow> R s (s\<lparr>m_mem := m\<rparr>)"
    and R_io: "io_frame (m_io s) b \<Longrightarrow> R s (s\<lparr>m_io := b\<rparr>)"

sublocale exec_frame \<subseteq> fetch_frame R
proof
  show "R s (s\<lparr>m_cpu := c\<rparr>)" if "mmu_frame (m_cpu s) c" for s c using that by (intro R_cpu mmu_benign)
  show "R s (s\<lparr>m_cpu := (m_cpu s)\<lparr>ip := v\<rparr>\<rparr>)" for s v by (rule R_cpu) (simp add: benignI frame_simps)
qed

context exec_frame begin

lemma fr_upd [frame_intro]: "(\<And>c. benign c (f c)) \<Longrightarrow> frames R (cpu_upd f)"
  by (simp add: frames_def cpu_upd_def R_cpu)

lemma fr_run [frame_intro]: "(\<And>c. benign c (snd (f c))) \<Longrightarrow> frames R (cpu_run f)"
  by (simp add: frames_def cpu_run_def case_prod_beta R_cpu)

lemma fr_store: "(\<And>c m. mmu_frame c (fst (f c m))) \<Longrightarrow> (\<And>c m. mem_frame m (snd (f c m))) \<Longrightarrow> frames R (mem_store f)"
proof -
  assume f: "\<And>c m. mmu_frame c (fst (f c m))" "\<And>c m. mem_frame m (snd (f c m))"
  have "R s (s\<lparr>m_cpu := c, m_mem := m\<rparr>)" if "mmu_frame (m_cpu s) c" "mem_frame (m_mem s) m" for s c m
    using R_trans [OF R_mmu [OF that(1)], of "s\<lparr>m_cpu := c, m_mem := m\<rparr>"] R_mem [of "s\<lparr>m_cpu := c\<rparr>" m] that(2) by simp
  then show ?thesis using f by (simp add: frames_def mem_store_def case_prod_beta)
qed

lemma fr_st [frame_intro]: "frames R (st8 l v8)" "frames R (st16 l v16)" "frames R (st32 l v32)"
  by (rule fr_store; simp add: mem_write_u16_def mem_write_u32_def)+

lemma fr_io: "(\<And>b. io_frame b (snd (f b))) \<Longrightarrow> frames R (io_run f)"
  by (simp add: frames_def io_run_def case_prod_beta R_io)

lemma fr_port [frame_intro]: "frames R (port_read p)" "frames R (port_write p v)"
  unfolding port_read_def port_write_def
  by (intro frame_intro fr_io; simp add: io_frame_def bus_read_wf bus_write_wf benignI frame_simps)+

lemma fr_port32 [frame_intro]: "frames R (port_read_u32 p)" "frames R (port_write_u32 p w)"
  unfolding port_read_u32_def port_write_u32_def by (intro frame_intro)+

end

section \<open>The unprivileged handlers\<close>

context exec_frame begin

lemma fr_operands [frame_intro]:
  "frames R (write_rm8 rm v1)" "frames R (write_rm16 rm v2)" "frames R (write_rm32 rm v3)"
  unfolding write_rm8_def write_rm16_def write_rm32_def
  by (intro frame_intro; simp add: benignI frame_simps)+

lemma fr_stack [frame_intro]:
  "frames R (push16 v1)" "frames R pop16" "frames R (push32 v3)" "frames R pop32"
  unfolding push16_def pop16_def push32_def pop32_def
  by (intro frame_intro; simp add: benignI frame_simps)+

lemma load_segment_benign:
  "benign c (let c1 = c\<lparr>seg_cache := (seg_cache c)[i := e]\<rparr>;
                 c2 = (if p then invalidate_fetch_tlb (c1\<lparr>code_size_32 := b\<rparr>) else c1)
             in if q then c2\<lparr>stack_size_32 := b'\<rparr> else c2)"
  unfolding Let_def benign_def by (simp add: frame_simps)

lemma fr_write_sreg [frame_intro]: "frames R (write_sreg idx v)"
  unfolding write_sreg_def by (intro frame_intro load_segment_benign) (simp add: benignI frame_simps)

lemma fr_switch_stack [frame_intro]:
  "frames R switch_stack"
  unfolding switch_stack_def
  by (intro frame_intro; simp add: benignI frame_simps)

lemma fr_interrupt [frame_intro]:
  "frames R (do_interrupt_with_error n error_code)"
  unfolding do_interrupt_with_error_def
  by (intro frame_intro; simp add: benignI frame_simps)

lemma fr_int [frame_intro]:
  "frames R (do_interrupt n)"
  unfolding do_interrupt_def
  by (intro frame_intro; simp add: benignI frame_simps)

lemma fr_raise [frame_intro]:
  "frames R (raise_de op_ip)" "frames R (raise_gp op_ip ec)"
  unfolding raise_de_def raise_gp_def
  by (intro frame_intro; simp add: benignI frame_simps)+

lemma fr_checks [frame_intro]:
  "frames R (raise_gp_if_bad_selector selector op_ip)" "frames R (raise_gp_if_gate_too_privileged vector op_ip)"
  "frames R (raise_gp_if_user op_ip)" "frames R (raise_gp_if_below_iopl op_ip)"
  "frames R (raise_gp_if_io_denied op_ip port width)"
  unfolding raise_gp_if_bad_selector_def raise_gp_if_gate_too_privileged_def raise_gp_if_user_def
    raise_gp_if_below_iopl_def raise_gp_if_io_denied_def
  by (intro frame_intro; simp add: benignI frame_simps)+

lemma fr_strings [frame_intro]:
  "frames R step_movsb" "frames R step_movsw" "frames R step_movsd" "frames R step_stosb" "frames R step_stosw"
  "frames R step_stosd" "frames R step_lodsb" "frames R step_lodsw" "frames R step_lodsd" "frames R step_scasb"
  "frames R step_scasw" "frames R step_scasd" "frames R step_cmpsb" "frames R step_cmpsw" "frames R step_cmpsd"
  unfolding step_movsb_def step_movsw_def step_movsd_def step_stosb_def step_stosw_def step_stosd_def step_lodsb_def
    step_lodsw_def step_lodsd_def step_scasb_def step_scasw_def step_scasd_def step_cmpsb_def step_cmpsw_def
    step_cmpsd_def
  by (intro frame_intro; simp add: benignI frame_simps)+

lemma fr_step_string [frame_intro]:
  "frames R (step_string inner)" "frames R (step_string_io inner)"
  unfolding step_string_def step_string_io_def
  by (intro frame_intro; simp add: benignI frame_simps)+

lemma fr_rep_body [frame_intro]:
  "frames R (rep_body rep_zero inner op_cs op_ip)"
  unfolding rep_body_def
  by (intro frame_intro; simp add: benignI frame_simps)

lemma fr_rep_rounds [frame_intro]: "frames R (rep_rounds n z inner op_cs op_ip)"
proof (induction n)
  case (Suc n)
  have "frames R (case r of RepStop \<Rightarrow> ret (Some None) | RepFail e \<Rightarrow> ret (Some (Some e))
     | RepAgain \<Rightarrow> rep_rounds n z inner op_cs op_ip)" for r
    using Suc by (cases r) (simp_all add: frame_intro)
  then show ?case by (auto intro!: frame_intro)
qed (simp add: frame_intro)

lemma fr_rep_loop [frame_intro]: "frames R (rep_loop z inner op_cs op_ip)"
  unfolding rep_loop_def by (intro frame_intro)

lemma fr_prefix: "frames R (case prefix_effect b of None \<Rightarrow> ret (Some b) | Some f \<Rightarrow> do { cpu_upd f; a })" if "frames R a"
  using that by (cases "prefix_effect b") (auto intro!: frame_intro prefix_frame)

lemma fr_fetch_opcode [frame_intro]: "frames R (fetch_opcode n)"
  by (induction n) (simp_all add: frame_intro fr_prefix)

lemma fr_helpers [frame_intro]:
  "frames R (de op_ip)" "frames R (mul_flags v2)" "frames R (push_far_frame cs)" "frames R (release extra)"
  "frames R pop_ip" "frames R pop_far" "frames R moffs_linear" "frames R port_dx" "frames R port_imm"
  "frames R write_tsc_pair"
  unfolding de_def mul_flags_def push_far_frame_def release_def pop_ip_def pop_far_def moffs_linear_def port_dx_def
    port_imm_def write_tsc_pair_def
  by (intro frame_intro; simp add: benignI frame_simps)+

lemma fr_alu_store [frame_intro]:
  "(\<And>r. frames R (st8' r)) \<Longrightarrow> frames R (alu_store8 st8' op a b)" "(\<And>r. frames R (st16' r)) \<Longrightarrow> frames R (alu_store16 st16' op a' b')"
  "(\<And>r. frames R (st32' r)) \<Longrightarrow> frames R (alu_store32 st32' op a'' b'')"
  unfolding alu_store8_def alu_store16_def alu_store32_def
  by (intro frame_intro; simp add: benignI frame_simps)+

lemma fr_alu_ops [frame_intro]:
  "frames R (alu_dispatch opcode)" "frames R op_alu_rm8_imm8" "frames R op_alu_rm_imm" "frames R op_alu_rm_imm8s"
  "frames R (op_shift opcode)" "frames R op_test8" "frames R op_test" "frames R op_test_al_imm"
  "frames R op_test_ax_imm" "frames R (op_group4 opcode op_cs op_ip)" "frames R (inc_rm rm)"
  "frames R (dec_rm rm)" "frames R (op_inc_r opcode)" "frames R (op_dec_r opcode)"
  unfolding alu_dispatch_def op_alu_rm8_imm8_def op_alu_rm_imm_def op_alu_rm_imm8s_def op_shift_def op_test8_def
    op_test_def op_test_al_imm_def op_test_ax_imm_def op_group4_def inc_rm_def dec_rm_def op_inc_r_def
    op_dec_r_def
  by (intro frame_intro; simp add: benignI frame_simps)+

lemma fr_moves [frame_intro]:
  "frames R (op_mov_r8_imm opcode)" "frames R (op_mov_r_imm opcode)" "frames R op_mov_rm8_r8"
  "frames R op_mov_rm_r" "frames R op_mov_r8_rm8" "frames R op_mov_r_rm"
  "frames R (op_mov_rm_sreg opcode op_cs op_ip)" "frames R (op_lea opcode op_cs op_ip)"
  "frames R (op_mov_sreg_rm opcode op_cs op_ip)" "frames R op_xchg8" "frames R op_xchg"
  "frames R (op_xchg_ax opcode)" "frames R (op_load_far seg opcode op_cs op_ip)"
  "frames R (op_mov_rm8_imm8 opcode op_cs op_ip)" "frames R (op_mov_rm_imm opcode op_cs op_ip)"
  "frames R op_mov_al_moffs" "frames R op_mov_ax_moffs" "frames R op_mov_moffs_al" "frames R op_mov_moffs_ax"
  "frames R op_xlat" "frames R (op_string opcode)"
  unfolding op_mov_r8_imm_def op_mov_r_imm_def op_mov_rm8_r8_def op_mov_rm_r_def op_mov_r8_rm8_def op_mov_r_rm_def
    op_mov_rm_sreg_def op_lea_def op_mov_sreg_rm_def op_xchg8_def op_xchg_def op_xchg_ax_def op_load_far_def
    op_mov_rm8_imm8_def op_mov_rm_imm_def op_mov_al_moffs_def op_mov_ax_moffs_def op_mov_moffs_al_def
    op_mov_moffs_ax_def op_xlat_def op_string_def
  by (intro frame_intro; simp add: benignI frame_simps)+

lemma fr_jumps [frame_intro]:
  "frames R op_jmp_rel8" "frames R op_jmp_rel" "frames R (op_jcc_rel8 opcode)" "frames R (op_loop opcode)"
  "frames R op_jcxz" "frames R (call_rm rm)" "frames R op_call_rel" "frames R op_call_far" "frames R op_jmp_far"
  "frames R op_ret" "frames R op_ret_imm" "frames R op_retf" "frames R op_retf_imm"
  unfolding op_jmp_rel8_def op_jmp_rel_def op_jcc_rel8_def op_loop_def op_jcxz_def call_rm_def op_call_rel_def
    op_call_far_def op_jmp_far_def op_ret_def op_ret_imm_def op_retf_def op_retf_imm_def
  by (intro frame_intro; simp add: benignI frame_simps)+

lemma fr_group3 [frame_intro]:
  "frames R (op_group3_8 opcode op_cs op_ip)" "frames R (op_group3_32 opcode op_cs op_ip sub rm)"
  "frames R (op_group3_16 opcode op_cs op_ip sub rm)"
  unfolding op_group3_8_def op_group3_32_def op_group3_16_def
  by (intro frame_intro; simp add: benignI frame_simps)+

lemma fr_groups [frame_intro]:
  "frames R (op_group3 opcode op_cs op_ip)" "frames R (op_group5 opcode op_cs op_ip)"
  unfolding op_group3_def op_group5_def
  by (intro frame_intro; simp add: benignI frame_simps)+

lemma fr_stack_ops [frame_intro]:
  "frames R op_pusha" "frames R op_popa" "frames R (op_enter opcode op_cs op_ip)" "frames R op_leave"
  "frames R (op_push_sreg s)" "frames R (op_pop_sreg s op_ip)" "frames R (op_push_r opcode)"
  "frames R (op_pop_r opcode)" "frames R op_push_imm" "frames R op_push_imm8"
  "frames R (op_pop_rm opcode op_cs op_ip)"
  unfolding op_pusha_def op_popa_def op_enter_def op_leave_def op_push_sreg_def op_pop_sreg_def op_push_r_def
    op_pop_r_def op_push_imm_def op_push_imm8_def op_pop_rm_def
  by (intro frame_intro; simp add: benignI frame_simps)+

lemma fr_imul [frame_intro]:
  "frames R (imul32 reg a1 b1)" "frames R (imul16 reg a2 b2)"
  unfolding imul32_def imul16_def
  by (intro frame_intro; simp add: benignI frame_simps)+

lemma fr_multiply [frame_intro]:
  "frames R op_imul_imm" "frames R op_imul_imm8" "frames R op_imul_r_rm" "frames R op_arpl" "frames R op_daa"
  "frames R op_das" "frames R op_aaa" "frames R op_aas" "frames R (op_aam op_ip)" "frames R op_aad"
  unfolding op_imul_imm_def op_imul_imm8_def op_imul_r_rm_def op_arpl_def op_daa_def op_das_def op_aaa_def op_aas_def
    op_aam_def op_aad_def
  by (intro frame_intro; simp add: benignI frame_simps)+

lemma fr_flag_ops [frame_intro]:
  "frames R (op_hlt op_ip)" "frames R (op_cli op_ip)" "frames R (op_sti op_ip)" "frames R op_pushf"
  "frames R op_popf" "frames R op_cbw" "frames R op_cwd" "frames R op_sahf" "frames R op_lahf" "frames R op_cmc"
  unfolding op_hlt_def op_cli_def op_sti_def op_pushf_def op_popf_def op_cbw_def op_cwd_def op_sahf_def op_lahf_def
    op_cmc_def
  by (intro frame_intro; simp add: benignI frame_simps)+

lemma fr_iret [frame_intro]:
  "frames R iret32" "frames R iret16"
  unfolding iret32_def iret16_def
  by (intro frame_intro; simp add: benignI frame_simps)+

lemma fr_interrupts [frame_intro]:
  "frames R (op_int3 op_ip)" "frames R (op_into op_ip)" "frames R op_iret" "frames R (op_ud2 op_ip)"
  unfolding op_int3_def op_into_def op_iret_def op_ud2_def
  by (intro frame_intro; simp add: benignI frame_simps)+

lemma fr_system_reads [frame_intro]:
  "frames R (op_store_table sub ea)" "frames R (op_mov_r_cr op2 op_cs op_ip)" "frames R (op_mov_r_dr op_ip)"
  "frames R op_hint" "frames R (op_invd op_ip)" "frames R op_rdtsc" "frames R (op_rdpmc op_ip)"
  "frames R (op_rdmsr op_ip)" "frames R op_sysenter" "frames R (op_sysexit op_ip)"
  unfolding op_store_table_def op_mov_r_cr_def op_mov_r_dr_def op_hint_def op_invd_def op_rdtsc_def op_rdpmc_def
    op_rdmsr_def op_sysenter_def op_sysexit_def
  by (intro frame_intro; simp add: benignI frame_simps)+

lemma fr_conditions [frame_intro]:
  "frames R (op_jcc_rel op2)" "frames R (op_cmovcc op2)" "frames R (op_setcc op2)"
  unfolding op_jcc_rel_def op_cmovcc_def op_setcc_def
  by (intro frame_intro; simp add: benignI frame_simps)+

lemma fr_bits [frame_intro]:
  "frames R (op_bt op2)" "frames R (op_bt_imm op2 op_cs op_ip)" "frames R op_bsf" "frames R op_bsr"
  unfolding op_bt_def op_bt_imm_def op_bsf_def op_bsr_def
  by (intro frame_intro; simp add: benignI frame_simps)+

lemma fr_double [frame_intro]:
  "frames R (shld32 rm reg count)" "frames R (shld16 rm reg count)" "frames R (shrd32 rm reg count)"
  "frames R (shrd16 rm reg count)"
  unfolding shld32_def shld16_def shrd32_def shrd16_def
  by (intro frame_intro; simp add: benignI frame_simps)+

lemma fr_extend [frame_intro]:
  "frames R (op_shld op2)" "frames R (op_shrd op2)" "frames R op_movzx8" "frames R op_movzx16"
  "frames R op_movsx8" "frames R op_movsx16"
  unfolding op_shld_def op_shrd_def op_movzx8_def op_movzx16_def op_movsx8_def op_movsx16_def
  by (intro frame_intro; simp add: benignI frame_simps)+

lemma fr_atomic [frame_intro]:
  "frames R op_xadd8" "frames R op_xadd" "frames R (op_cmpxchg8b op2 op_cs op_ip)" "frames R (op_bswap op2)"
  "frames R op_cmpxchg8" "frames R op_cmpxchg"
  unfolding op_xadd8_def op_xadd_def op_cmpxchg8b_def op_bswap_def op_cmpxchg8_def op_cmpxchg_def
  by (intro frame_intro; simp add: benignI frame_simps)+

lemma fr_port_ops [frame_intro]:
  assumes "frames R p"
  shows "frames R (op_in8 p op_ip)" "frames R (op_out8 p op_ip)" "frames R (op_in p op_ip)" "frames R (op_out p op_ip)"
  unfolding op_in8_def op_out8_def op_in_def op_out_def
  by (intro frame_intro assms; simp add: benignI frame_simps)+

lemma fr_op_int: "(\<And>hk n. hook = Some hk \<Longrightarrow> frames R (hk n)) \<Longrightarrow> frames R (op_int hook op_ip)"
  unfolding op_int_def by (cases hook) (auto intro!: frame_intro)

end


section \<open>Privileged handlers and the decoder\<close>

definition handlers_frame :: "(machine \<Rightarrow> machine \<Rightarrow> bool) \<Rightarrow> handlers \<Rightarrow> bool" where
  "handlers_frame R h \<longleftrightarrow>
     (\<forall>hk n. h_bios h = Some hk \<longrightarrow> frames R (hk n)) \<and> (\<forall>b cs i. frames R (h_simd h b cs i)) \<and>
     (\<forall>z b cs i. frames R (h_sse_scalar h z b cs i)) \<and> (\<forall>b cs i. frames R (h_x87 h b cs i))"

context exec_frame begin

lemma fr_op_rep [frame_intro]: "handlers_frame R h \<Longrightarrow> frames R (op_rep h fuel opcode op_cs op_ip)"
  unfolding op_rep_def Let_def by (intro frame_intro) (simp add: handlers_frame_def)

lemma fr_exec_mid [frame_intro]: "frames R (exec_mid opcode op_cs op_ip)"
  unfolding exec_mid_def by (intro frame_intro)

lemma fr_exec_high [frame_intro]: "handlers_frame R h \<Longrightarrow> frames R (exec_high h opcode op_cs op_ip)"
  unfolding exec_high_def
  by (intro frame_intro fr_op_int; simp add: handlers_frame_def benignI frame_simps)

end

text \<open>A relation that also allows any change of the system registers.\<close>

locale system_frame = exec_frame +
  assumes R_system: "(cpu_wf (m_cpu s) \<longrightarrow> cpu_wf c) \<Longrightarrow> last_op_ip c = last_op_ip (m_cpu s) \<Longrightarrow> R s (s\<lparr>m_cpu := c\<rparr>)"
begin

lemma fr_system [frame_intro]:
  "(\<And>c. cpu_wf c \<Longrightarrow> cpu_wf (f c)) \<Longrightarrow> (\<And>c. last_op_ip (f c) = last_op_ip c) \<Longrightarrow> frames R (cpu_upd f)"
  by (simp add: frames_def cpu_upd_def R_system)

lemma fr_msr_update: "frames R (case msr_update msr lo hi of None \<Rightarrow> a | Some f \<Rightarrow> nx (cpu_upd f))" if "frames R a"
proof (cases "msr_update msr lo hi")
  case (Some f)
  then have "cpu_wf (f c) = cpu_wf c" "last_op_ip (f c) = last_op_ip c" for c
    by (auto simp: msr_update_def cpu_wf_def Let_def split: if_splits)
  then show ?thesis using Some by (simp add: fr_nx fr_system)
qed (simp add: that)

lemma fr_privileged [frame_intro]:
  "frames R (op_group6 op2 op_cs op_ip)" "frames R (op_lmsw op_ip rm)" "frames R (op_load_table sub op_ip ea)"
  "frames R (op_mov_cr_r op2 op_cs op_ip)" "frames R (op_mov_dr_r op_ip)" "frames R (op_clts op_ip)" "frames R (op_wrmsr op_ip)"
  unfolding op_group6_def op_lmsw_def op_load_table_def op_mov_cr_r_def op_mov_dr_r_def op_clts_def op_wrmsr_def
  by (intro fr_msr_update fr_system frame_intro; simp add: frame_simps)+

lemma fr_group7 [frame_intro]: "frames R (op_group7 op2 op_cs op_ip)"
  unfolding op_group7_def by (intro frame_intro; simp add: frame_simps benignI)

lemma fr_two_byte [frame_intro]: "(\<And>b cs i. frames R (simd b cs i)) \<Longrightarrow> frames R (two_byte simd op_cs op_ip)"
  unfolding two_byte_def by (intro frame_intro; simp add: frame_simps benignI)

lemma fr_exec_low [frame_intro]: "handlers_frame R h \<Longrightarrow> frames R (exec_low h opcode op_cs op_ip)"
  unfolding exec_low_def by (intro frame_intro; simp add: handlers_frame_def)

lemma fr_exec_opcode [frame_intro]: "handlers_frame R h \<Longrightarrow> frames R (exec_opcode h fuel opcode op_cs op_ip)"
  unfolding exec_opcode_def by (intro frame_intro)

end


section \<open>User mode\<close>

definition user :: "machine \<Rightarrow> bool" where
  "user s \<longleftrightarrow> cr0 (m_cpu s) AND 1 \<noteq> 0 \<and> 0 < cpl (m_cpu s)"

definition user_frames :: "(machine \<Rightarrow> machine \<Rightarrow> bool) \<Rightarrow> 'a exec \<Rightarrow> bool" where
  "user_frames R a \<longleftrightarrow> (\<forall>s. user s \<longrightarrow> R s (snd (run_state a s)))"

lemma user_updates:
  "user (s\<lparr>m_cpu := (m_cpu s)\<lparr>ip := v\<rparr>\<rparr>) = user s" "mmu_only (m_cpu s) c \<Longrightarrow> user (s\<lparr>m_cpu := c\<rparr>) = user s"
  by (simp_all add: user_def cpl_def mmu_only_fields)

interpretation ring_kept: fetch_frame "\<lambda>s t. user t = user s"
  by unfold_locales (simp_all add: user_updates mmu_frame_def)

lemma prefix_ring: "prefix_effect b = Some f \<Longrightarrow> cr0 (f c) = cr0 c \<and> sregs (f c) = sregs c"
  by (auto simp: prefix_effect_def split: if_splits)

lemma fetch_opcode_ring: "frames (\<lambda>s t. user t = user s) (fetch_opcode n)"
proof (induction n)
  case (Suc n)
  have "frames (\<lambda>s t. user t = user s)
      (case prefix_effect b of None \<Rightarrow> ret (Some b) | Some f \<Rightarrow> do { cpu_upd f; fetch_opcode n })" for b
  proof (cases "prefix_effect b")
    case (Some f)
    then have "frames (\<lambda>s t. user t = user s) (cpu_upd f)"
      using prefix_ring by (simp add: frames_def cpu_upd_def user_def cpl_def)
    then show ?thesis using Some Suc by (simp add: ring_kept.fr_bind)
  qed (simp add: ring_kept.fr_ret)
  then show ?case by (simp add: ring_kept.fr_bind ring_kept.fr_fetch_u8)
qed (simp add: ring_kept.fr_ret)

context exec_frame begin

lemma us_lift: "frames R a \<Longrightarrow> user_frames R a"
  by (simp add: frames_def user_frames_def)

lemma us_keep:
  assumes "frames R a" "frames (\<lambda>s t. user t = user s) a" "\<And>x. user_frames R (b x)"
  shows "user_frames R (State_Monad.bind a b)"
  using assms unfolding frames_def user_frames_def State_Monad.bind_def by (auto simp: case_prod_beta intro: R_trans)

lemma us_then: "user_frames R a \<Longrightarrow> (\<And>x. frames R (b x)) \<Longrightarrow> user_frames R (State_Monad.bind a b)"
  unfolding frames_def user_frames_def State_Monad.bind_def by (auto simp: case_prod_beta intro: R_trans)

lemma us_modrm: "(\<And>x. user_frames R (b x)) \<Longrightarrow> user_frames R (State_Monad.bind fetch_modrm b)"
  by (rule us_keep) (rule frame_intro ring_kept.fr_fetch_modrm)+

lemma us_fetch_u8: "(\<And>x. user_frames R (b x)) \<Longrightarrow> user_frames R (State_Monad.bind fetch_u8 b)"
  by (rule us_keep) (rule frame_intro ring_kept.fr_fetch_u8)+

lemma us_if: "user_frames R a \<Longrightarrow> user_frames R b \<Longrightarrow> user_frames R (if p then a else b)" by simp

lemma us_case_prod: "(\<And>x y. user_frames R (f x y)) \<Longrightarrow> user_frames R (case_prod f p)" by (cases p) simp

lemma us_case_rm: "(\<And>i. user_frames R (f i)) \<Longrightarrow> (\<And>e. user_frames R (g e)) \<Longrightarrow> user_frames R (case_rm f g v)"
  by (cases v) simp_all

text \<open>What a privilege check guards does not run in user mode.\<close>

lemma us_guarded: "user_frames R (guarded (raise_gp_if_user op_ip) a)"
proof -
  have "run_state (guarded (raise_gp_if_user op_ip) a) s = run_state (do { raise_gp op_ip 0; ret Return }) s" if "user s" for s
    using that by (simp add: guarded_def raise_gp_if_user_def cpu_get_def user_def State_Monad.bind_def State_Monad.return_def
        case_prod_beta)
  moreover have "frames R (do { raise_gp op_ip 0; ret Return })" by (intro frame_intro)
  ultimately show ?thesis by (simp add: user_frames_def frames_def)
qed

lemmas us_intro = us_modrm us_fetch_u8 us_if us_case_prod us_case_rm us_guarded

lemma us_privileged:
  "user_frames R (op_group6 op2 op_cs op_ip)" "user_frames R (op_mov_cr_r op2 op_cs op_ip)" "user_frames R (op_mov_dr_r op_ip)"
  "user_frames R (op_clts op_ip)" "user_frames R (op_wrmsr op_ip)"
  unfolding op_group6_def op_mov_cr_r_def op_mov_dr_r_def op_clts_def op_wrmsr_def
  by (intro us_intro; rule us_lift; intro frame_intro; simp add: benignI frame_simps)+

lemma us_group7: "user_frames R (op_group7 op2 op_cs op_ip)"
  unfolding op_group7_def op_lmsw_def op_load_table_def
  by (intro us_intro; rule us_lift; intro frame_intro; simp add: benignI frame_simps)

lemma us_two_byte: "(\<And>b cs i. frames R (simd b cs i)) \<Longrightarrow> user_frames R (two_byte simd op_cs op_ip)"
  unfolding two_byte_def
  by (intro us_fetch_u8 us_if us_privileged us_group7; rule us_lift; (intro frame_intro)?; simp add: benignI frame_simps)

lemma us_exec_low: "handlers_frame R h \<Longrightarrow> user_frames R (exec_low h opcode op_cs op_ip)"
  unfolding exec_low_def
  by (intro us_if us_two_byte; (rule us_lift)?; (intro frame_intro)?; simp add: handlers_frame_def)

lemma us_exec_opcode:
  assumes "handlers_frame R h"
  shows "user_frames R (exec_opcode h fuel opcode op_cs op_ip)"
proof -
  have low: "user_frames R (if opcode < 0x80 then exec_low h opcode op_cs op_ip
      else if opcode < 0xC0 then exec_mid opcode op_cs op_ip else exec_high h opcode op_cs op_ip)"
    using us_exec_low [OF assms] us_lift [OF fr_exec_mid] us_lift [OF fr_exec_high [OF assms]] by (intro us_if)
  show ?thesis unfolding exec_opcode_def
    by (intro us_if us_then [OF low] us_lift fr_op_rep assms frame_intro)
qed

end


section \<open>The two relations\<close>

definition machine_wf :: "machine \<Rightarrow> bool" where
  "machine_wf s \<longleftrightarrow> cpu_wf (m_cpu s) \<and> mem_wf (m_mem s) \<and> mem_size (m_mem s) \<le> 2 ^ 32 \<and> bus_wf (m_io s)"

abbreviation keeps_sys :: "machine \<Rightarrow> machine \<Rightarrow> bool" where "keeps_sys s t \<equiv> sys_regs (m_cpu t) = sys_regs (m_cpu s)"
abbreviation keeps_op_ip :: "machine \<Rightarrow> machine \<Rightarrow> bool" where
  "keeps_op_ip s t \<equiv> last_op_ip (m_cpu t) = last_op_ip (m_cpu s)"
abbreviation keeps_wf :: "machine \<Rightarrow> machine \<Rightarrow> bool" where "keeps_wf s t \<equiv> machine_wf s \<longrightarrow> machine_wf t"

interpretation sys_kept: exec_frame keeps_sys
  by unfold_locales (simp_all add: benign_def)

interpretation wf_kept: system_frame keeps_wf
  by unfold_locales (auto simp: machine_wf_def benign_def mem_frame_def io_frame_def)

interpretation op_ip_kept: system_frame keeps_op_ip
  by unfold_locales (simp_all add: benign_def sys_regs_def)

lemma begin_frame [frame_simps]:
  "sys_regs (begin_instruction c) = sys_regs (c\<lparr>last_op_ip := ip c\<rparr>)" "cpu_wf (begin_instruction c) = cpu_wf c"
  by (simp_all add: begin_instruction_def frame_simps sys_regs_def)

lemma begin_ring: "user (s\<lparr>m_cpu := begin_instruction (m_cpu s)\<rparr>) = user s"
  by (simp add: user_def cpl_def begin_instruction_def)

lemma roll_back_sys: "sys_regs (roll_back snap opcode c) = sys_regs c"
  by (simp add: roll_back_def sys_regs_def Let_def)

lemma roll_back_wf: "cpu_wf snap \<Longrightarrow> cpu_wf c \<Longrightarrow> cpu_wf (roll_back snap opcode c)"
  by (simp add: roll_back_def cpu_wf_def Let_def)

lemma run_finish:
  "run_state (finish snap opcode r) s =
     (case r of None \<Rightarrow> (OutOfFuel, s) | Some (Fail e) \<Rightarrow> (Error e, s) | Some Return \<Rightarrow> (Done, s)
      | Some Next \<Rightarrow> (Done, s\<lparr>m_cpu := roll_back snap opcode (m_cpu s)\<rparr>))"
  by (simp add: finish_def run_simps split: option.split outcome.split)

lemma run_exec_instruction:
  "run_state (exec_instruction h fuel) s =
     (let s1 = s\<lparr>m_cpu := begin_instruction (m_cpu s)\<rparr>;
          (b, s2) = run_state (fetch_opcode fuel) s1 in
      case b of None \<Rightarrow> (OutOfFuel, s2)
      | Some opcode \<Rightarrow>
          (let (r, s3) = run_state (exec_opcode h fuel opcode (sregs (m_cpu s1) ! CS) (ip (m_cpu s1))) s2
           in run_state (finish (m_cpu s1) opcode r) s3))"
  unfolding exec_instruction_def Let_def
  by (simp add: run_simps case_prod_beta split: option.split)

lemma exec_instruction_sys:
  assumes "handlers_frame keeps_sys h" "user s"
  shows "sys_regs (m_cpu (snd (run_state (exec_instruction h fuel) s))) = sys_regs ((m_cpu s)\<lparr>last_op_ip := ip (m_cpu s)\<rparr>)"
proof -
  define s1 where "s1 = s\<lparr>m_cpu := begin_instruction (m_cpu s)\<rparr>"
  obtain b s2 where 2: "run_state (fetch_opcode fuel) s1 = (b, s2)" by fastforce
  have s12: "user s1" "sys_regs (m_cpu s1) = sys_regs ((m_cpu s)\<lparr>last_op_ip := ip (m_cpu s)\<rparr>)" using assms(2) by (simp_all add: s1_def begin_ring frame_simps)
  then have u: "user s2" "sys_regs (m_cpu s2) = sys_regs ((m_cpu s)\<lparr>last_op_ip := ip (m_cpu s)\<rparr>)"
    using fetch_opcode_ring [of fuel] sys_kept.fr_fetch_opcode [of fuel] 2 by (auto simp: frames_def dest!: spec [of _ s1])
  show ?thesis
  proof (cases b)
    case (Some opcode)
    obtain r s3 where 3: "run_state (exec_opcode h fuel opcode (sregs (m_cpu s1) ! CS) (ip (m_cpu s1))) s2 = (r, s3)" by fastforce
    then have "keeps_sys s2 s3"
      using sys_kept.us_exec_opcode [OF assms(1), of fuel opcode "sregs (m_cpu s1) ! CS" "ip (m_cpu s1)"] u(1)
      by (auto simp: user_frames_def dest!: spec [of _ s2])
    then have "sys_regs (m_cpu (snd (run_state (finish (m_cpu s1) opcode r) s3))) = sys_regs ((m_cpu s)\<lparr>last_op_ip := ip (m_cpu s)\<rparr>)"
      using u(2) by (simp add: run_finish roll_back_sys split: option.split outcome.split)
    then show ?thesis using 2 3 Some by (simp add: run_exec_instruction Let_def s1_def)
  qed (use 2 u(2) in \<open>simp add: run_exec_instruction Let_def s1_def\<close>)
qed

lemma exec_instruction_wf:
  assumes "handlers_frame keeps_wf h" "machine_wf s"
  shows "machine_wf (snd (run_state (exec_instruction h fuel) s))"
proof -
  define s1 where "s1 = s\<lparr>m_cpu := begin_instruction (m_cpu s)\<rparr>"
  obtain b s2 where 2: "run_state (fetch_opcode fuel) s1 = (b, s2)" by fastforce
  have w1: "machine_wf s1" using assms(2) by (simp add: s1_def machine_wf_def frame_simps)
  then have w2: "machine_wf s2" using wf_kept.fr_fetch_opcode [of fuel] 2 by (auto simp: frames_def dest!: spec [of _ s1])
  show ?thesis
  proof (cases b)
    case (Some opcode)
    obtain r s3 where 3: "run_state (exec_opcode h fuel opcode (sregs (m_cpu s1) ! CS) (ip (m_cpu s1))) s2 = (r, s3)" by fastforce
    then have "machine_wf s3"
      using wf_kept.fr_exec_opcode [OF assms(1), of fuel opcode "sregs (m_cpu s1) ! CS" "ip (m_cpu s1)"] w2
      by (auto simp: frames_def dest!: spec [of _ s2])
    then have "machine_wf (snd (run_state (finish (m_cpu s1) opcode r) s3))"
      using w1 by (auto simp: run_finish machine_wf_def roll_back_wf split: option.split outcome.split)
    then show ?thesis using 2 3 Some by (simp add: run_exec_instruction Let_def s1_def)
  qed (use 2 w2 in \<open>simp add: run_exec_instruction Let_def s1_def\<close>)
qed


section \<open>Whole steps\<close>

lemma record_frames_wf:
  "bus_wf b \<Longrightarrow> bus_wf (foldl (\<lambda>b' (addr, sz). record_nic_tx_frame b' (frame_bytes m addr sz)) b ds)"
  by (induction ds arbitrary: b) (auto simp: record_nic_tx_frame_wf)

lemma service_nic_tx_wf: "bus_wf b \<Longrightarrow> bus_wf (service_nic_tx m b)"
  by (simp add: service_nic_tx_def take_nic_tx_descriptors_def mark_irq_dirty_def case_prod_unfold Let_def
      record_frames_wf [unfolded case_prod_unfold] bus_wf_device dev_ok bus_wfD)

lemma tick_devices_wf: "machine_wf s \<Longrightarrow> machine_wf (tick_devices s)"
  by (simp add: machine_wf_def tick_devices_def Let_def tick_hpet_counter_wf tick_lapic_timer_wf refresh_irqs_wf service_nic_tx_wf
      mem_size_def)

lemma advance_tsc_wf: "machine_wf (advance_tsc s) = machine_wf s"
  by (simp add: machine_wf_def advance_tsc_def frame_simps)

lemma take_irq_wf: "machine_wf s \<Longrightarrow> machine_wf (snd (take_irq s))"
  by (auto simp: machine_wf_def take_irq_def take_pending_lapic_irq_def ack_irq_wf mem_size_def mem_wf_def split: option.split)

lemma interrupt_wf: "machine_wf s \<Longrightarrow> machine_wf (snd (run_state (do_interrupt_with_error n ec) s))"
  "machine_wf s \<Longrightarrow> machine_wf (snd (run_state (do_interrupt n) s))"
  using wf_kept.fr_interrupt [of n ec] wf_kept.fr_int [of n] by (auto simp: frames_def)

lemma step_halted_wf: "machine_wf s \<Longrightarrow> machine_wf (snd (run_state step_halted s))"
proof -
  assume w: "machine_wf s"
  obtain v s1 where t: "take_irq (advance_tsc (tick_devices s)) = (v, s1)" by fastforce
  then have w1: "machine_wf s1"
    using take_irq_wf [of "advance_tsc (tick_devices s)"] w by (simp add: advance_tsc_wf tick_devices_wf)
  then have "machine_wf (s1\<lparr>m_cpu := (m_cpu s1)\<lparr>halted := False\<rparr>\<rparr>)" by (simp add: machine_wf_def frame_simps)
  then show ?thesis using w1 t by (cases v) (simp_all add: step_halted_def run_simps interrupt_wf case_prod_beta)
qed

lemma step_running_wf:
  assumes "handlers_frame keeps_wf h" "machine_wf s"
  shows "machine_wf (snd (run_state (step_running h fuel) s))"
proof (cases "pending_fault (m_cpu (advance_tsc s))")
  case None
  define s1 where "s1 = tick_devices ((advance_tsc s)\<lparr>m_cpu := (m_cpu (advance_tsc s))\<lparr>pending_fault := None\<rparr>\<rparr>)"
  have w1: "machine_wf s1"
    using assms(2) advance_tsc_wf [of s] unfolding s1_def by (intro tick_devices_wf) (simp add: machine_wf_def cpu_wf_def)
  obtain v s2 where t: "take_irq s1 = (v, s2)" by fastforce
  then have "machine_wf s2" using take_irq_wf [OF w1] by simp
  then show ?thesis using None t exec_instruction_wf [OF assms(1)]
    by (cases v) (simp_all add: step_running_def run_simps take_pending_fault_def s1_def [symmetric] interrupt_wf case_prod_beta)
next
  case (Some pf)
  have "machine_wf ((advance_tsc s)\<lparr>m_cpu := (m_cpu (advance_tsc s))\<lparr>pending_fault := None, cr2 := pf_addr pf,
      ip := last_op_ip (m_cpu (advance_tsc s))\<rparr>\<rparr>)"
    using assms(2) advance_tsc_wf [of s] by (simp add: machine_wf_def cpu_wf_def)
  from interrupt_wf(1) [OF this] Some show ?thesis
    by (simp add: step_running_def run_simps take_pending_fault_def case_prod_beta)
qed

lemma cpu_step_wf:
  "handlers_frame keeps_wf h \<Longrightarrow> machine_wf s \<Longrightarrow> machine_wf (snd (run_state (cpu_step h fuel) s))"
  by (simp add: cpu_step_def run_simps step_halted_wf step_running_wf)

text \<open>The machines a run of the emulator goes through, and the host's changes of its devices.\<close>

inductive machine_reachable :: "handlers \<Rightarrow> machine \<Rightarrow> bool" for h where
  mr_boot: "n \<le> 2 ^ 32 \<Longrightarrow> machine_reachable h \<lparr>m_cpu = reset_to_boot cpu_new, m_mem = mem_new w n, m_io = bus_new\<rparr>"
| mr_step: "machine_reachable h s \<Longrightarrow> run_state (cpu_step h fuel) s = (r, t) \<Longrightarrow> machine_reachable h t"
| mr_key: "machine_reachable h s \<Longrightarrow>
    machine_reachable h (s\<lparr>m_io := (m_io s)\<lparr>bus_kbd := push_scancode (bus_kbd (m_io s)) sc\<rparr>\<rparr>)"
| mr_serial: "machine_reachable h s \<Longrightarrow>
    machine_reachable h (s\<lparr>m_io := (m_io s)\<lparr>bus_uart := uart_push_rx (bus_uart (m_io s)) bs\<rparr>\<rparr>)"
| mr_frame: "machine_reachable h s \<Longrightarrow>
    machine_reachable h (s\<lparr>m_io := (m_io s)\<lparr>bus_nic := snd (accept_rx (bus_nic (m_io s)) f)\<rparr>\<rparr>)"
| mr_load: "machine_reachable h s \<Longrightarrow> machine_reachable h (s\<lparr>m_mem := write_u8 (m_mem s) a v\<rparr>)"

section \<open>Properties\<close>

text \<open>
  Every machine the emulator reaches is well formed: from the reset state on, whatever the guest
  executes (privileged, faulting and unimplemented instructions, interrupts, port accesses) and the
  host injects or loads, all register files, caches and device arrays keep the sizes that the code
  indexes them with, RAM stays within the 32-bit space, and the devices keep their invariants.  The
  handlers of the instructions outside the model are assumed to keep well-formedness.
\<close>

theorem machine_reachable_wf:
  assumes "machine_reachable h s" and "handlers_frame keeps_wf h"
  shows "machine_wf s"
  using assms(1)
proof (induction rule: machine_reachable.induct)
  case (mr_boot n w)
  then show ?case using cpu_wf_new(2) by (simp add: machine_wf_def bus_new_wf boot_mmu)
next
  case (mr_step s fuel r t)
  then show ?case using cpu_step_wf [OF assms(2), of s fuel] by simp
next
  case (mr_load s a v)
  then show ?case by (simp add: machine_wf_def mem_size_def)
qed (simp_all add: machine_wf_def bus_wf_device dev_ok bus_wfD)

definition no_handlers :: handlers where
  "no_handlers = \<lparr>h_bios = None, h_simd = unimp, h_sse_scalar = \<lambda>_. unimp, h_x87 = unimp\<rparr>"

lemma no_handlers_frame: "handlers_frame keeps_wf no_handlers" "handlers_frame keeps_sys no_handlers"
  by (simp_all add: handlers_frame_def no_handlers_def wf_kept.fr_ret sys_kept.fr_ret)

theorem machine_reachable_wf_witness:
  "machine_wf (snd (run_state (cpu_step no_handlers 16) \<lparr>m_cpu = reset_to_boot cpu_new, m_mem = mem_new None 65536, m_io = bus_new\<rparr>))"
  by (rule machine_reachable_wf [OF _ no_handlers_frame(1)])
    (rule mr_step [OF mr_boot prod.collapse [symmetric]], simp)



end
