(* ===== verification/CpuFlow.thy ===== *)
theory CpuFlow
  imports CpuFrame
begin

unbundle bit_operations_syntax

text \<open>
  Control flow of the CPU.  With paging off and A20 open the memory actions are plain accesses; on
  that footing: the stack, interrupt entry and IRET, the REP loop, and what HLT waits for.
\<close>

section \<open>Unpaged memory\<close>

definition flat :: "machine \<Rightarrow> bool" where
  "flat s \<longleftrightarrow> \<not> paging_on (m_cpu s) \<and> a20 (m_cpu s) \<and> pending_fault (m_cpu s) = None \<and> mem_size (m_mem s) \<le> 2 ^ 32"

lemma flat_translate:
  assumes "\<not> paging_on c" "a20 c"
  shows "translate c m l = (l, c)" "translate_write c m l = (l, c)" "translate_fetch c m l = (l, c)"
  using assms by (simp_all add: translate_def translate_write_def translate_fetch_def flag_masks paging_on_def)

lemma flat_reads:
  assumes "\<not> paging_on c" "a20 c" "pending_fault c = None" "mem_size m \<le> 2 ^ 32"
  shows "mem_read_u8 c m l = (read_u8 m l, c)" "mem_read_u16 c m l = (read_u16 m l, c)" "mem_read_u32 c m l = (read_u32 m l, c)"
proof -
  show 8: "mem_read_u8 c m l = (read_u8 m l, c)" for l using assms by (simp add: mem_read_u8_def flat_translate)
  show 16: "mem_read_u16 c m l = (read_u16 m l, c)" for l
    using assms ram_u16 [OF assms(4), of l] by (simp add: mem_read_u16_def flat_translate 8 read_u16_le of_le16_def)
  have split: "read_u32 m l = ucast (read_u16 m l) OR push_bit 16 (ucast (read_u16 m (l + 2)))"
    by (simp add: read_u32_def Let_def)
  show "mem_read_u32 c m l = (read_u32 m l, c)"
    using assms ram_u32 [OF assms(4), of l] by (simp add: mem_read_u32_def flat_translate 16 split) (simp add: read_u32_le split [symmetric])
qed

lemma flat_bytes:
  assumes "\<not> paging_on c" "a20 c" "pending_fault c = None"
  shows "mem_write_bytes c m l bs = (c, write_u8_seq m l bs)"
  using assms by (induction bs arbitrary: m l) (simp_all add: mem_write_u8_def flat_translate)

lemma flat_write:
  assumes "\<not> paging_on c" "a20 c" "pending_fault c = None" "mem_size m \<le> 2 ^ 32"
  shows "mem_write_aligned c m l bs = (c, write_u8_seq m l bs)"
  using assms by (simp add: mem_write_aligned_def flat_translate flat_bytes write_ram_bulk_eq Let_def)

lemma flat_loads [run_simps]:
  assumes "flat s"
  shows "run_state (ld8 l) s = (read_u8 (m_mem s) l, s)" "run_state (ld16 l) s = (read_u16 (m_mem s) l, s)"
    "run_state (ld32 l) s = (read_u32 (m_mem s) l, s)"
  using assms by (simp_all add: flat_def run_memory flat_reads)

lemma flat_stores [run_simps]:
  assumes "flat s"
  shows "run_state (st8 l v8) s = ((), s\<lparr>m_mem := write_u8 (m_mem s) l v8\<rparr>)"
    "run_state (st16 l v16) s = ((), s\<lparr>m_mem := write_u16 (m_mem s) l v16\<rparr>)"
  using assms by (simp_all add: flat_def run_memory mem_write_u8_def mem_write_u16_def flat_translate flat_write write_u16_def le16_def Let_def)

lemma flat_cong:
  assumes "flat s" "cr0 c = cr0 (m_cpu s)" "a20 c = a20 (m_cpu s)" "pending_fault c = None" "mem_size m = mem_size (m_mem s)"
  shows "flat (s\<lparr>m_cpu := c, m_mem := m\<rparr>)" "flat (s\<lparr>m_cpu := c\<rparr>)"
  using assms by (simp_all add: flat_def paging_on_def)

section \<open>The sixteen-bit stack\<close>

text \<open>Where the top of the stack lies, as the linear address SS:SP.\<close>

definition stack_top :: "cpu \<Rightarrow> u32" where
  "stack_top c = sc_base (seg_cache c ! SS) + ucast (regs c ! SP)"

lemma ucast_back: "ucast (ucast v :: u32) = (v :: u16)"
  by (rule bit_word_eqI) (auto simp: bit_simps)

lemma ucast_sub:
  assumes "w \<le> unat (v :: u16)"
  shows "(ucast v :: u32) - of_nat w = ucast (v - of_nat w)"
proof -
  have n: "unat (of_nat w :: u16) = w" "unat (of_nat w :: u32) = w" using assms unat_bounds(2) [of v] by (simp_all add: unat_of_nat)
  have l: "of_nat w \<le> v" "of_nat w \<le> (ucast v :: u32)" using assms n by (simp_all add: word_le_nat_alt unat_ucast_wider(3))
  show ?thesis by (simp add: word_unat_eq_iff unat_sub [OF l(1)] unat_sub [OF l(2)] unat_ucast_wider(3) n)
qed

lemma ucast_add: "ucast ((ucast v :: u32) + of_nat w) = (v + of_nat w :: u16)"
  by (simp add: word_unat_eq_iff unsigned_ucast_eq take_bit_eq_mod unat_word_ariths unat_of_nat unat_ucast_wider mod_mod_cancel mod_simps)

lemma flat_push16 [run_simps]:
  assumes "flat s" "\<not> stack_size_32 (m_cpu s)" "2 \<le> unat (regs (m_cpu s) ! SP)"
  shows "run_state (push16 v) s =
    ((), s\<lparr>m_cpu := (m_cpu s)\<lparr>regs := (regs (m_cpu s))[SP := regs (m_cpu s) ! SP - 2]\<rparr>,
           m_mem := write_u16 (m_mem s) (stack_top (m_cpu s) - 2) v\<rparr>)"
proof -
  have "(ucast (regs (m_cpu s) ! SP) :: u32) - 2 = ucast (regs (m_cpu s) ! SP - 2)" using ucast_sub [of 2] assms(3) by simp
  then have "linear_seg (m_cpu s) SS (ucast (regs (m_cpu s) ! SP - 2)) = stack_top (m_cpu s) - 2"
    "read_stack_ptr (m_cpu s) - 2 = ucast (regs (m_cpu s) ! SP - 2)"
    using assms(2) by (simp_all add: linear_seg_def stack_top_def read_stack_ptr_def add_diff_eq [symmetric])
  moreover have "pending_fault (m_cpu s) = None" using assms(1) by (simp add: flat_def)
  ultimately show ?thesis using assms
    by (simp add: push16_def run_bind run_basic flat_stores write_stack_ptr_def ucast_back)
qed

lemma flat_pop16 [run_simps]:
  assumes "flat s" "\<not> stack_size_32 (m_cpu s)"
  shows "run_state pop16 s =
    (read_u16 (m_mem s) (stack_top (m_cpu s)), s\<lparr>m_cpu := (m_cpu s)\<lparr>regs := (regs (m_cpu s))[SP := regs (m_cpu s) ! SP + 2]\<rparr>\<rparr>)"
proof -
  have "ucast (ucast v + 2 :: u32) = (v + 2 :: u16)" for v :: u16
    using ucast_add [of v 2] by simp
  then show ?thesis using assms
    by (simp add: pop16_def run_bind run_basic flat_loads read_stack_ptr_def write_stack_ptr_def linear_seg_def stack_top_def)
qed


section \<open>Interrupt entry and IRET in real mode\<close>

definition load_cs :: "u16 \<Rightarrow> cpu \<Rightarrow> cpu" where
  "load_cs v c = invalidate_fetch_tlb
     (c\<lparr>sregs := (sregs c)[CS := v],
        seg_cache := (seg_cache c)[CS := \<lparr>sc_base = push_bit 4 (ucast v), sc_limit = 0xFFFF, sc_access = 0x93\<rparr>],
        code_size_32 := False\<rparr>)"

lemma write_cs_real: "cr0 (m_cpu s) AND 1 = 0 \<Longrightarrow> run_state (write_sreg CS v) s = ((), s\<lparr>m_cpu := load_cs v (m_cpu s)\<rparr>)"
  by (simp add: write_sreg_def run_simps load_cs_def CS_def SS_def Let_def)

text \<open>The three words an interrupt pushes below the top of the stack.\<close>

definition int_frame :: "memory \<Rightarrow> u32 \<Rightarrow> u16 \<Rightarrow> u16 \<Rightarrow> u16 \<Rightarrow> memory" where
  "int_frame m t fl cs i = write_u16 (write_u16 (write_u16 m (t - 2) fl) (t - 4) cs) (t - 6) i"

lemma flat_size [simp]: "mem_size (write_u16 m a v) = mem_size m" by (simp add: mem_size_def)

lemma flat_step:
  assumes "flat s"
  shows "flat (s\<lparr>m_cpu := (m_cpu s)\<lparr>regs := r\<rparr>\<rparr>)" "flat (s\<lparr>m_cpu := (m_cpu s)\<lparr>regs := r\<rparr>, m_mem := write_u16 (m_mem s) a v\<rparr>)"
  using assms by (simp_all add: flat_def paging_on_def)

lemma push_frame:
  assumes "flat s" "\<not> stack_size_32 (m_cpu s)" "6 \<le> unat (regs (m_cpu s) ! SP)" "length (regs (m_cpu s)) = 8"
  shows "ip (m_cpu (snd (run_state (push16 b) (snd (run_state (push16 a) s))))) = ip (m_cpu s)"
    "run_state (push16 (ucast (ip (m_cpu s)))) (snd (run_state (push16 b) (snd (run_state (push16 a) s)))) =
    ((), s\<lparr>m_cpu := (m_cpu s)\<lparr>regs := (regs (m_cpu s))[SP := regs (m_cpu s) ! SP - 6]\<rparr>,
           m_mem := int_frame (m_mem s) (stack_top (m_cpu s)) a b (ucast (ip (m_cpu s)))\<rparr>)"
proof -
  let ?c = "m_cpu s" and ?sp = "regs (m_cpu s) ! SP"
  define s1 where "s1 = s\<lparr>m_cpu := ?c\<lparr>regs := (regs ?c)[SP := ?sp - 2]\<rparr>, m_mem := write_u16 (m_mem s) (stack_top ?c - 2) a\<rparr>"
  define s2 where "s2 = s1\<lparr>m_cpu := (m_cpu s1)\<lparr>regs := (regs (m_cpu s1))[SP := regs (m_cpu s1) ! SP - 2]\<rparr>,
      m_mem := write_u16 (m_mem s1) (stack_top (m_cpu s1) - 2) b\<rparr>"
  have n: "unat (?sp - 2) = unat ?sp - 2" "unat (?sp - 4) = unat ?sp - 4" using assms(3)
    by (simp_all add: unat_sub word_le_nat_alt)
  have sp: "SP < 8" by (simp add: SP_def)
  have f1: "flat s1" and f2: "flat s2" using assms(1) by (simp_all add: s1_def s2_def flat_def paging_on_def)
  have r: "regs (m_cpu s1) ! SP = ?sp - 2" "regs (m_cpu s2) ! SP = ?sp - 4" "\<not> stack_size_32 (m_cpu s1)" "\<not> stack_size_32 (m_cpu s2)"
    "seg_cache (m_cpu s1) = seg_cache ?c" "seg_cache (m_cpu s2) = seg_cache ?c" "ip (m_cpu s2) = ip ?c"
    using assms(2,4) sp by (simp_all add: s1_def s2_def)
  have t: "stack_top (m_cpu s1) = stack_top ?c - 2" "stack_top (m_cpu s2) = stack_top ?c - 4"
    using ucast_sub [of 2 ?sp] ucast_sub [of 4 ?sp] assms(3) by (simp_all add: stack_top_def r add_diff_eq)
  have 1: "run_state (push16 a) s = ((), s1)" using assms by (simp add: flat_push16 s1_def)
  have 2: "run_state (push16 b) s1 = ((), s2)" using f1 r n assms(3) by (simp add: flat_push16 s2_def)
  show "ip (m_cpu (snd (run_state (push16 b) (snd (run_state (push16 a) s))))) = ip (m_cpu s)" by (simp add: 1 2 r)
  show "run_state (push16 (ucast (ip ?c))) (snd (run_state (push16 b) (snd (run_state (push16 a) s)))) =
    ((), s\<lparr>m_cpu := ?c\<lparr>regs := (regs ?c)[SP := ?sp - 6]\<rparr>,
           m_mem := int_frame (m_mem s) (stack_top ?c) a b (ucast (ip ?c))\<rparr>)"
    using f2 r n assms(3,4) sp t by (simp add: 1 2 flat_push16) (simp add: s1_def s2_def int_frame_def)
qed

lemma real_interrupt:
  assumes "flat s" "cr0 (m_cpu s) AND 1 = 0" "\<not> stack_size_32 (m_cpu s)" "6 \<le> unat (regs (m_cpu s) ! SP)" "length (regs (m_cpu s)) = 8"
  shows "snd (run_state (do_interrupt n) s) =
    s\<lparr>m_cpu := (load_cs (read_u16 (m_mem s) (ucast n * 4 + 2))
         (set_flag ((m_cpu s)\<lparr>regs := (regs (m_cpu s))[SP := regs (m_cpu s) ! SP - 6]\<rparr>) IF False))
           \<lparr>ip := ucast (read_u16 (m_mem s) (ucast n * 4))\<rparr>,
      m_mem := int_frame (m_mem s) (stack_top (m_cpu s)) (flags (m_cpu s)) (sregs (m_cpu s) ! CS) (ucast (ip (m_cpu s)))\<rparr>"
proof -
  have g: "run_state (interrupt_gate n) s =
      ((read_u16 (m_mem s) (ucast n * 4 + 2), ucast (read_u16 (m_mem s) (ucast n * 4)), False, False), s)"
    using assms(1,2) by (simp add: interrupt_gate_def run_bind run_basic flat_loads Let_def)
  note p = push_frame [OF assms(1,3,4,5), of "sregs (m_cpu s) ! CS" "flags (m_cpu s)"]
  show ?thesis using assms(2)
    by (simp add: do_interrupt_def do_interrupt_with_error_def run_bind run_basic g p write_cs_real set_flag_def case_prod_beta)
qed


lemma ucast_add_small:
  assumes "unat (v :: u16) + w < 65536"
  shows "(ucast (v + of_nat w) :: u32) = ucast v + of_nat w"
  using assms by (simp add: word_unat_eq_iff unat_ucast_wider unat_word_ariths unat_of_nat)

lemma pop_frame:
  assumes "flat s" "\<not> stack_size_32 (m_cpu s)" "unat (regs (m_cpu s) ! SP) + 6 \<le> 65536" "length (regs (m_cpu s)) = 8"
  defines "s1 \<equiv> snd (run_state pop16 s)"
  defines "s2 \<equiv> snd (run_state pop16 s1)"
  shows "fst (run_state pop16 s) = read_u16 (m_mem s) (stack_top (m_cpu s))"
    "fst (run_state pop16 s1) = read_u16 (m_mem s) (stack_top (m_cpu s) + 2)"
    "run_state pop16 s2 = (read_u16 (m_mem s) (stack_top (m_cpu s) + 4),
       s\<lparr>m_cpu := (m_cpu s)\<lparr>regs := (regs (m_cpu s))[SP := regs (m_cpu s) ! SP + 6]\<rparr>\<rparr>)"
proof -
  let ?c = "m_cpu s" and ?sp = "regs (m_cpu s) ! SP"
  have sp: "SP < 8" by (simp add: SP_def)
  have s1: "s1 = s\<lparr>m_cpu := ?c\<lparr>regs := (regs ?c)[SP := ?sp + 2]\<rparr>\<rparr>" using assms(1,2) by (simp add: s1_def flat_pop16)
  then have f1: "flat s1" "\<not> stack_size_32 (m_cpu s1)" using assms(1,2) by (simp_all add: flat_step(1))
  then have s2: "s2 = s\<lparr>m_cpu := ?c\<lparr>regs := (regs ?c)[SP := ?sp + 4]\<rparr>\<rparr>"
    using assms(2,4) sp unfolding s2_def by (simp add: flat_pop16) (simp add: s1 add.commute)
  then have f2: "flat s2" "\<not> stack_size_32 (m_cpu s2)" using assms(1,2) by (simp_all add: flat_step(1))
  show "fst (run_state pop16 s) = read_u16 (m_mem s) (stack_top ?c)" using assms(1,2) by (simp add: flat_pop16)
  show "fst (run_state pop16 s1) = read_u16 (m_mem s) (stack_top ?c + 2)"
    using f1 assms(2,3,4) sp ucast_add_small [of ?sp 2] by (simp add: flat_pop16) (simp add: s1 stack_top_def add.assoc)
  show "run_state pop16 s2 = (read_u16 (m_mem s) (stack_top ?c + 4), s\<lparr>m_cpu := ?c\<lparr>regs := (regs ?c)[SP := ?sp + 6]\<rparr>\<rparr>)"
    using f2 assms(2,3,4) sp ucast_add_small [of ?sp 4] by (simp add: flat_pop16) (simp add: s2 stack_top_def add.assoc)
qed

lemma real_iret:
  assumes "flat s" "cr0 (m_cpu s) AND 1 = 0" "\<not> stack_size_32 (m_cpu s)" "unat (regs (m_cpu s) ! SP) + 6 \<le> 65536"
    "length (regs (m_cpu s)) = 8"
  shows "snd (run_state iret16 s) =
    s\<lparr>m_cpu := (load_cs (read_u16 (m_mem s) (stack_top (m_cpu s) + 2))
         ((m_cpu s)\<lparr>regs := (regs (m_cpu s))[SP := regs (m_cpu s) ! SP + 6], ip := ucast (read_u16 (m_mem s) (stack_top (m_cpu s)))\<rparr>))
           \<lparr>flags := read_u16 (m_mem s) (stack_top (m_cpu s) + 4)\<rparr>\<rparr>"
  using assms(2) pop_frame [OF assms(1,3,4,5)] by (simp add: iret16_def run_bind run_basic write_cs_real case_prod_beta)

lemma int_frame_reads:
  assumes "unat t \<le> length (mem_bytes m)" "6 \<le> unat t"
  shows "read_u16 (int_frame m t fl cs i) (t - 6) = i" "read_u16 (int_frame m t fl cs i) (t - 4) = cs"
    "read_u16 (int_frame m t fl cs i) (t - 2) = fl"
    "b \<notin> {t - 6, t - 5, t - 4, t - 3, t - 2, t - 1} \<Longrightarrow> read_u8 (int_frame m t fl cs i) b = read_u8 m b"
proof -
  define x where "x = t - 6"
  have x: "unat x + 6 \<le> length (mem_bytes m)" using assms by (simp add: x_def unat_sub word_le_nat_alt)
  have a: "t - 4 = x + 2" "t - 2 = x + 4" "t - 6 = x" "t - 5 = x + 1" "t - 3 = x + 3" "t - 1 = x + 5" by (simp_all add: x_def)
  have r: "in_ram m x" "in_ram m (x + 1)" "in_ram m (x + 2)" "in_ram m (x + 3)" "in_ram m (x + 4)" "in_ram m (x + 5)"
    using in_ram_offset [OF x, of 0] in_ram_offset [OF x, of 1] in_ram_offset [OF x, of 2] in_ram_offset [OF x, of 3]
      in_ram_offset [OF x, of 4] in_ram_offset [OF x, of 5] by simp_all
  have rd: "read_u8 (int_frame m t fl cs i) b =
      (if b = x then ucast i else if b = x + 1 then ucast (drop_bit 8 i)
       else if b = x + 2 then ucast cs else if b = x + 3 then ucast (drop_bit 8 cs)
       else if b = x + 4 then ucast fl else if b = x + 5 then ucast (drop_bit 8 fl) else read_u8 m b)" for b
    using r by (simp add: int_frame_def a write_u16_def Let_def add.assoc ram.rd_wr ram.plain_wr)
  show "read_u16 (int_frame m t fl cs i) (t - 6) = i" "read_u16 (int_frame m t fl cs i) (t - 4) = cs"
    "read_u16 (int_frame m t fl cs i) (t - 2) = fl" by (simp_all add: read_u16_le rd a add.assoc)
  show "b \<notin> {t - 6, t - 5, t - 4, t - 3, t - 2, t - 1} \<Longrightarrow> read_u8 (int_frame m t fl cs i) b = read_u8 m b" by (simp add: rd a)
qed


text \<open>
  C10: Real-mode interrupt entry and IRET are inverse.  Entering interrupt \<open>n\<close> loads CS:IP from the
  vector table and clears IF; the IRET that follows resumes the interrupted code with its registers,
  its stack pointer, its segment selectors, its flags (IF included) and its instruction pointer (the
  low 16 bits a real-mode frame holds), and only the six bytes below the top of the stack have
  changed.  The stack must hold the frame without wrapping: at SP below 6 the code stores outside
  the segment.
\<close>

theorem interrupt_iret_roundtrip:
  fixes n :: u8
  assumes "machine_wf s" "flat s" "cr0 (m_cpu s) AND 1 = 0" "\<not> stack_size_32 (m_cpu s)"
    and "6 \<le> unat (regs (m_cpu s) ! SP)" "unat (sc_base (seg_cache (m_cpu s) ! SS)) + unat (regs (m_cpu s) ! SP) < mem_size (m_mem s)"
  defines "c \<equiv> m_cpu s" and "s1 \<equiv> snd (run_state (do_interrupt n) s)"
  defines "c2 \<equiv> m_cpu (snd (run_state iret16 s1))"
  shows "(ip (m_cpu s1) = ucast (read_u16 (m_mem s) (ucast n * 4)) \<and> sregs (m_cpu s1) ! CS = read_u16 (m_mem s) (ucast n * 4 + 2) \<and>
      \<not> has (m_cpu s1) IF) \<and>
    regs c2 = regs c \<and> regs_high c2 = regs_high c \<and> sregs c2 = sregs c \<and> flags c2 = flags c \<and> ip c2 = take_bit 16 (ip c) \<and>
    sc_base (seg_cache c2 ! CS) = push_bit 4 (ucast (sregs c ! CS)) \<and>
    m_io (snd (run_state iret16 s1)) = m_io s \<and>
    (\<forall>b. b \<notin> {stack_top c - 6, stack_top c - 5, stack_top c - 4, stack_top c - 3, stack_top c - 2, stack_top c - 1} \<longrightarrow>
       read_u8 (m_mem (snd (run_state iret16 s1))) b = read_u8 (m_mem s) b)"
proof -
  let ?sp = "regs c ! SP"
  have len: "length (regs c) = 8" "length (sregs c) = 6" "length (seg_cache c) = 6" using assms(1) by (simp_all add: c_def machine_wf_def cpu_wf_def)
  have sp: "SP < 8" "CS < 6" "SS < 6" "SS \<noteq> CS" by (simp_all add: SP_def CS_def SS_def)
  define m1 where "m1 = int_frame (m_mem s) (stack_top c) (flags c) (sregs c ! CS) (ucast (ip c))"
  have s1: "s1 = s\<lparr>m_cpu := (load_cs (read_u16 (m_mem s) (ucast n * 4 + 2)) (set_flag (c\<lparr>regs := (regs c)[SP := ?sp - 6]\<rparr>) IF False))
      \<lparr>ip := ucast (read_u16 (m_mem s) (ucast n * 4))\<rparr>, m_mem := m1\<rparr>"
    unfolding s1_def m1_def c_def using assms(2-5) len by (intro real_interrupt) (simp_all add: c_def)
  have top: "unat (stack_top c) = unat (sc_base (seg_cache c ! SS)) + unat ?sp"
    using assms(2,6) unat_offset [of "sc_base (seg_cache c ! SS)" "unat ?sp"] by (simp add: stack_top_def c_def flat_def)
  have sub: "unat (?sp - 6) = unat ?sp - 6" using assms(5) by (simp add: c_def unat_sub word_le_nat_alt)
  have st: "stack_top (m_cpu s1) = stack_top c - 6"
    using ucast_sub [of 6 ?sp] assms(5) len sp by (simp add: s1 stack_top_def load_cs_def set_flag_def invalidate_fetch_tlb_def c_def add_diff_eq)
  note rd = int_frame_reads [where t = "stack_top c" and m = "m_mem s" and fl = "flags c" and cs = "sregs c ! CS" and i = "ucast (ip c)"]
  have rds: "read_u16 m1 (stack_top c - 6) = ucast (ip c)" "read_u16 m1 (stack_top c - 4) = sregs c ! CS"
    "read_u16 m1 (stack_top c - 2) = flags c"
    using rd assms(5,6) top unfolding m1_def by (simp_all add: c_def mem_size_def)
  have f1: "flat s1" "cr0 (m_cpu s1) AND 1 = 0" "\<not> stack_size_32 (m_cpu s1)" "length (regs (m_cpu s1)) = 8"
    "unat (regs (m_cpu s1) ! SP) + 6 \<le> 65536"
    using assms(2,3,4) len sp sub unat_bounds(2) [of ?sp]
    by (simp_all add: s1 flat_def paging_on_def load_cs_def set_flag_def invalidate_fetch_tlb_def c_def m1_def int_frame_def)
  have s2: "snd (run_state iret16 s1) = s1\<lparr>m_cpu := (load_cs (sregs c ! CS)
       ((m_cpu s1)\<lparr>regs := (regs (m_cpu s1))[SP := regs (m_cpu s1) ! SP + 6], ip := ucast (ucast (ip c) :: u16)\<rparr>))\<lparr>flags := flags c\<rparr>\<rparr>"
    using real_iret [OF f1(1,2,3,5,4)] by (simp add: st rds) (simp add: s1 rds)
  have io: "read_u8 m1 b = read_u8 (m_mem s) b"
    if "b \<notin> {stack_top c - 6, stack_top c - 5, stack_top c - 4, stack_top c - 3, stack_top c - 2, stack_top c - 1}" for b
    using rd(4) [OF _ _ that] assms(5,6) top unfolding m1_def by (simp add: c_def mem_size_def)
  have i16: "ucast (ucast (ip c) :: u16) = take_bit 16 (ip c)" by (rule bit_word_eqI) (auto simp: bit_simps)
  have "(flags c AND NOT IF) AND IF = 0" by (rule bit_word_eqI) (auto simp: bit_simps)
  then show ?thesis unfolding c2_def s2
    using io i16 len sp by (simp add: s1 load_cs_def set_flag_def invalidate_fetch_tlb_def has_def)
qed


definition boot_machine :: machine where
  "boot_machine = \<lparr>m_cpu = reset_to_boot cpu_new, m_mem = mem_new None 65536, m_io = bus_new\<rparr>"

lemma boot_facts:
  "machine_wf boot_machine" "flat boot_machine" "cr0 (m_cpu boot_machine) = 0" "\<not> stack_size_32 (m_cpu boot_machine)"
  "regs (m_cpu boot_machine) ! SP = 0x7C00" "sc_base (seg_cache (m_cpu boot_machine) ! SS) = 0" "mem_size (m_mem boot_machine) = 65536"
  "ip (m_cpu boot_machine) = 0x7C00" "flags (m_cpu boot_machine) = 0"
proof -
  show "machine_wf boot_machine" using cpu_wf_new(2) by (simp add: boot_machine_def machine_wf_def bus_new_wf boot_mmu)
qed (simp_all add: boot_machine_def flat_def paging_on_def reset_to_boot_def boot_mmu SP_def SS_def)

theorem interrupt_iret_roundtrip_witness:
  "ip (m_cpu (snd (run_state iret16 (snd (run_state (do_interrupt 8) boot_machine))))) = 0x7C00"
  using interrupt_iret_roundtrip [of boot_machine 8] by (simp add: boot_facts)


text \<open>
  With an empty sixteen-bit stack pointer the store and the later load miss each other: PUSH at SP = 0
  writes two bytes below the segment's base, while SP becomes 0xFFFE.
\<close>

theorem push16_leaves_segment:
  assumes "flat s" "\<not> stack_size_32 (m_cpu s)" "regs (m_cpu s) ! SP = 0" "length (regs (m_cpu s)) = 8"
  shows "m_mem (snd (run_state (push16 v) s)) = write_u16 (m_mem s) (sc_base (seg_cache (m_cpu s) ! SS) - 2) v \<and>
    stack_top (m_cpu (snd (run_state (push16 v) s))) = sc_base (seg_cache (m_cpu s) ! SS) + 0xFFFE"
proof -
  have "pending_fault (m_cpu s) = None" using assms(1) by (simp add: flat_def)
  then show ?thesis using assms
    by (simp add: push16_def run_bind run_basic flat_stores read_stack_ptr_def write_stack_ptr_def linear_seg_def stack_top_def
        SP_def case_prod_beta)
qed

section \<open>The REP loop\<close>

lemma indices [simp]: "(of_nat CX :: u8) = 1" "(of_nat SI :: u8) = 6" "(of_nat DI :: u8) = 7" "(of_nat SP :: u8) = 4"
  by (simp_all add: CX_def SI_def DI_def SP_def)

lemma rep_count_updates:
  "rep_count (advance_si_for_string d c) = rep_count c" "rep_count (advance_di_for_string d c) = rep_count c"
  "rep_count (write_r8 c 0 v8) = rep_count c" "rep_count (write_r32 c 0 v32) = rep_count c"
  "rep_count (c\<lparr>regs := (regs c)[AX := v16]\<rparr>) = rep_count c" "rep_count (c\<lparr>a20 := b\<rparr>) = rep_count c"
  by (simp_all add: rep_count_def advance_si_for_string_def advance_di_for_string_def write_r8_def write_r32_def read_r32_def Let_def
      CX_def SI_def DI_def AX_def)

lemma rep_count_flags:
  "rep_count (set_flag c f b) = rep_count c" "rep_count (flags_sub8 c x8 y8 k8 z8) = rep_count c"
  "rep_count (flags_sub16 c x16 y16 k16 z16) = rep_count c" "rep_count (flags_sub32 c x32 y32 k32 z32) = rep_count c"
proof -
  show 1: "rep_count (set_flag c f b) = rep_count c" for c f b by (simp add: set_flag_def rep_count_def read_r32_def)
  show "rep_count (flags_sub8 c x8 y8 k8 z8) = rep_count c" "rep_count (flags_sub16 c x16 y16 k16 z16) = rep_count c"
    "rep_count (flags_sub32 c x32 y32 k32 z32) = rep_count c"
    by (simp_all only: flags_sub8_def flags_sub16_def flags_sub32_def flags_zsp8_def flags_zsp16_def flags_zsp32_def Let_def 1)
qed

lemma rep_count_mmu: "mmu_frame c c' \<Longrightarrow> rep_count c' = rep_count c"
  by (auto simp: mmu_frame_def mmu_only_def rep_count_def read_r32_def)

abbreviation keeps_count :: "machine \<Rightarrow> machine \<Rightarrow> bool" where "keeps_count s t \<equiv> rep_count (m_cpu t) = rep_count (m_cpu s)"

interpretation count_kept: fetch_frame keeps_count
  by unfold_locales (simp_all add: rep_count_mmu, simp_all add: rep_count_def read_r32_def)

lemma count_upd: "(\<And>c. rep_count (f c) = rep_count c) \<Longrightarrow> frames keeps_count (cpu_upd f)"
  by (simp add: frames_def run_basic)

lemma count_store: "frames keeps_count (st8 l v8)" "frames keeps_count (st16 l v16)" "frames keeps_count (st32 l v32)"
  by (simp_all add: frames_def run_memory mem_write_u16_def mem_write_u32_def rep_count_mmu)

lemma count_port: "frames keeps_count (port_read p)" "frames keeps_count (port_write p v)"
  unfolding port_read_def port_write_def by (simp_all add: frames_def run_basic run_memory rep_count_updates)

lemma count_port32: "frames keeps_count (port_read_u32 p)" "frames keeps_count (port_write_u32 p w)"
  unfolding port_read_u32_def port_write_u32_def by (intro frame_intro count_port)+

lemmas count_rules = count_upd count_store count_port count_port32 frame_intro

lemma count_elements:
  "frames keeps_count step_movsb" "frames keeps_count step_movsw" "frames keeps_count step_movsd"
  "frames keeps_count step_stosb" "frames keeps_count step_stosw" "frames keeps_count step_stosd"
  "frames keeps_count step_lodsb" "frames keeps_count step_lodsw" "frames keeps_count step_lodsd"
  "frames keeps_count step_scasb" "frames keeps_count step_scasw" "frames keeps_count step_scasd"
  "frames keeps_count step_cmpsb" "frames keeps_count step_cmpsw" "frames keeps_count step_cmpsd"
  unfolding step_movsb_def step_movsw_def step_movsd_def step_stosb_def step_stosw_def step_stosd_def step_lodsb_def
    step_lodsw_def step_lodsd_def step_scasb_def step_scasw_def step_scasd_def step_cmpsb_def step_cmpsw_def step_cmpsd_def
  by (intro count_rules; simp add: rep_count_updates rep_count_flags)+

lemma count_strings: "frames keeps_count (step_string inner)" "frames keeps_count (step_string_io inner)"
  unfolding step_string_def step_string_io_def
  by (intro count_elements count_rules; simp add: rep_count_updates)+

lemma rep_decrement_count:
  assumes "cpu_wf c" "rep_count c \<noteq> 0"
  shows "rep_count (rep_decrement c) = rep_count c - 1"
proof (cases "addr_size_32 c")
  case True
  have "length (regs c) = 8" "length (regs_high c) = 8" using assms(1) by (simp_all add: cpu_wf_def)
  then show ?thesis using True join_halves [of "read_r32 c 1 - 1"]
    by (simp add: rep_count_def rep_decrement_def write_r32_def Let_def) (simp add: read_r32_def)
next
  case False
  have "length (regs c) = 8" using assms(1) by (simp add: cpu_wf_def)
  moreover have "1 \<le> unat (regs c ! CX)" using assms(2) False by (cases "regs c ! CX = 0") (simp_all add: rep_count_def unat_gt_0 Suc_le_eq)
  ultimately show ?thesis using False ucast_sub [of 1 "regs c ! CX"] by (simp add: rep_count_def rep_decrement_def CX_def)
qed

text \<open>The part of a round that handles one element.\<close>

definition rep_element :: "u8 \<Rightarrow> bool exec" where
  "rep_element inner = (if 0x6C \<le> inner \<and> inner \<le> 0x6F then do { step_string_io inner; ret True } else step_string inner)"

lemma rep_element_frames: "frames keeps_count (rep_element inner)" "frames keeps_wf (rep_element inner)"
  unfolding rep_element_def by (intro frame_intro count_strings)+

lemma run_rep_body:
  assumes "run_state (rep_element inner) s = (ok, s1)"
  shows "run_state (rep_body z inner op_cs op_ip) s =
    (if \<not> ok then (RepFail (Unimplemented inner op_cs op_ip), s1)
     else if pending_fault (m_cpu s1) \<noteq> None then
       (RepStop, s1\<lparr>m_cpu := string_rollback (read_r32 (m_cpu s) 6) (read_r32 (m_cpu s) 7) (flags (m_cpu s)) (m_cpu s1)\<rparr>)
     else (if inner \<in> {0xA6, 0xA7, 0xAE, 0xAF} \<and> (z \<longleftrightarrow> \<not> has (rep_decrement (m_cpu s1)) ZF) then RepStop else RepAgain,
       s1\<lparr>m_cpu := rep_decrement (m_cpu s1)\<rparr>))"
  using assms unfolding rep_body_def rep_element_def Let_def by (simp add: run_bind run_basic case_prod_beta)

lemma rep_body_again:
  assumes "run_state (rep_body z inner op_cs op_ip) s = (RepAgain, t)" "machine_wf s" "rep_count (m_cpu s) \<noteq> 0"
  shows "machine_wf t" "rep_count (m_cpu t) = rep_count (m_cpu s) - 1"
proof -
  obtain ok s1 where e: "run_state (rep_element inner) s = (ok, s1)" by fastforce
  have 1: "machine_wf s1" "rep_count (m_cpu s1) = rep_count (m_cpu s)"
    using rep_element_frames [of inner] e assms(2) by (auto simp: frames_def dest!: spec [of _ s])
  have t: "t = s1\<lparr>m_cpu := rep_decrement (m_cpu s1)\<rparr>"
    using assms(1) unfolding run_rep_body [OF e] by (auto split: if_splits)
  show "machine_wf t" using 1(1) by (simp add: t machine_wf_def frame_simps)
  show "rep_count (m_cpu t) = rep_count (m_cpu s) - 1"
    using rep_decrement_count [of "m_cpu s1"] 1 assms(3) by (simp add: t machine_wf_def)
qed

lemma rep_rounds_total:
  "machine_wf s \<Longrightarrow> unat (rep_count (m_cpu s)) < n \<Longrightarrow> fst (run_state (rep_rounds n z inner op_cs op_ip) s) \<noteq> None"
proof (induction n arbitrary: s)
  case (Suc n)
  obtain r t where b: "run_state (rep_body z inner op_cs op_ip) s = (r, t)" by fastforce
  show ?case
  proof (cases "rep_count (m_cpu s) = 0")
    case False
    show ?thesis
    proof (cases r)
      case RepAgain
      then have "machine_wf t" "rep_count (m_cpu t) = rep_count (m_cpu s) - 1"
        using rep_body_again [of z inner op_cs op_ip s t] b Suc.prems False by auto
      moreover have "unat (rep_count (m_cpu s) - 1) < n"
        using Suc.prems(2) False unat_minus_one [of "rep_count (m_cpu s)"] unat_gt_0 [of "rep_count (m_cpu s)"] by linarith
      ultimately show ?thesis using Suc.IH [of t] b RepAgain False by (simp add: run_bind run_basic case_prod_beta)
    qed (use b False in \<open>simp_all add: run_bind run_basic case_prod_beta\<close>)
  qed (simp add: run_bind run_basic case_prod_beta)
qed simp


text \<open>
  C11: Every REP instruction ends.  For each string and port-string opcode and either REP prefix, from any
  well-formed machine, the loop stops within the number of rounds the count register holds at entry
  (the round that finds it zero included), whatever memory, page tables and devices do in between.
\<close>

theorem rep_terminates:
  assumes "machine_wf s"
  shows "\<exists>r t. run_state (rep_loop rep_zero inner op_cs op_ip) s = (Some r, t)"
proof -
  have "fst (run_state (rep_rounds (Suc (unat (rep_count (m_cpu s)))) rep_zero inner op_cs op_ip) s) \<noteq> None"
    using rep_rounds_total [OF assms] by blast
  then show ?thesis
    by (cases "run_state (rep_rounds (Suc (unat (rep_count (m_cpu s)))) rep_zero inner op_cs op_ip) s")
      (auto simp: rep_loop_def run_bind run_basic simp del: rep_rounds.simps)
qed

theorem rep_terminates_witness:
  "\<exists>r t. run_state (rep_loop True 0xA6 0 0x7C00) (boot_machine\<lparr>m_cpu := write_r32 (m_cpu boot_machine) 1 3\<rparr>) = (Some r, t)"
  by (rule rep_terminates) (use boot_facts(1) in \<open>simp add: machine_wf_def frame_simps\<close>)

section \<open>REP MOVSB\<close>

text \<open>The ascending copy, byte by byte.\<close>

fun copy_up :: "memory \<Rightarrow> u32 \<Rightarrow> u32 \<Rightarrow> nat \<Rightarrow> memory" where
  "copy_up m src dst 0 = m"
| "copy_up m src dst (Suc n) = copy_up (write_u8 m dst (read_u8 m src)) (src + 1) (dst + 1) n"

definition ascending32 :: "cpu \<Rightarrow> bool" where "ascending32 c \<longleftrightarrow> addr_size_32 c \<and> \<not> has c DF"

definition movsb_next :: "cpu \<Rightarrow> cpu" where
  "movsb_next c = rep_decrement (advance_di_for_string 1 (advance_si_for_string 1 c))"

lemma movsb_next_facts:
  assumes "cpu_wf c" "ascending32 c"
  shows "ascending32 (movsb_next c)" "string_src (movsb_next c) = string_src c + 1" "string_dst (movsb_next c) = string_dst c + 1"
    "paging_on (movsb_next c) = paging_on c" "a20 (movsb_next c) = a20 c" "pending_fault (movsb_next c) = pending_fault c"
    "flags (movsb_next c) = flags c"
proof -
  have len: "length (regs c) = 8" "length (regs_high c) = 8" using assms(1) by (simp_all add: cpu_wf_def)
  have r: "read_r32 (write_r32 (write_r32 (write_r32 c 6 x) 7 y) 1 z) 6 = x" "read_r32 (write_r32 (write_r32 (write_r32 c 6 x) 7 y) 1 z) 7 = y"
    "read_r32 (write_r32 c 6 x) 7 = read_r32 c 7" for x y z
    using len join_halves by (simp_all add: read_r32_def write_r32_def Let_def)
  have n: "movsb_next c = write_r32 (write_r32 (write_r32 c 6 (read_r32 c 6 + 1)) 7 (read_r32 c 7 + 1)) 1
      (read_r32 (write_r32 (write_r32 c 6 (read_r32 c 6 + 1)) 7 (read_r32 c 7 + 1)) 1 - 1)"
    using assms(2) r(3) by (simp add: movsb_next_def rep_decrement_def advance_di_for_string_def advance_si_for_string_def ascending32_def
        write_r32_def Let_def)
  have f: "addr_size_32 (movsb_next c) = addr_size_32 c" "flags (movsb_next c) = flags c" "seg_cache (movsb_next c) = seg_cache c"
    "seg_override (movsb_next c) = seg_override c" "cr0 (movsb_next c) = cr0 c" "a20 (movsb_next c) = a20 c"
    "pending_fault (movsb_next c) = pending_fault c"
    by (simp_all add: n write_r32_def Let_def)
  then show "ascending32 (movsb_next c)" "paging_on (movsb_next c) = paging_on c" "a20 (movsb_next c) = a20 c"
    "pending_fault (movsb_next c) = pending_fault c" "flags (movsb_next c) = flags c"
    using assms(2) by (simp_all add: ascending32_def has_def paging_on_def)
  have i: "read_r32 (movsb_next c) 6 = read_r32 c 6 + 1" "read_r32 (movsb_next c) 7 = read_r32 c 7 + 1" by (simp_all only: n r)
  show "string_src (movsb_next c) = string_src c + 1" "string_dst (movsb_next c) = string_dst c + 1"
    using assms(2) f i by (simp_all add: string_src_def string_dst_def linear_seg_def string_src_seg_def seg_or_def read_si_for_string_def
        read_di_for_string_def ascending32_def add.assoc)
qed

lemma movsb_round:
  assumes "flat s" "ascending32 (m_cpu s)"
  shows "run_state (rep_body z 0xA4 op_cs op_ip) s =
    (RepAgain, s\<lparr>m_cpu := movsb_next (m_cpu s),
       m_mem := write_u8 (m_mem s) (string_dst (m_cpu s)) (read_u8 (m_mem s) (string_src (m_cpu s)))\<rparr>)"
proof -
  define t where "t = s\<lparr>m_cpu := advance_di_for_string 1 (advance_si_for_string 1 (m_cpu s)),
     m_mem := write_u8 (m_mem s) (string_dst (m_cpu s)) (read_u8 (m_mem s) (string_src (m_cpu s)))\<rparr>"
  have e: "run_state (rep_element 0xA4) s = (True, t)"
    using assms by (simp add: rep_element_def step_string_def step_movsb_def run_bind run_basic flat_loads flat_stores case_prod_beta
        string_delta_n_u32_def ascending32_def t_def)
  have "pending_fault (m_cpu t) = None"
    using assms(1) by (simp add: t_def flat_def advance_di_for_string_def advance_si_for_string_def write_r32_def Let_def)
  then show ?thesis by (simp add: run_rep_body [OF e]) (simp add: t_def movsb_next_def)
qed


lemma movsb_rounds:
  assumes "machine_wf s" "flat s" "ascending32 (m_cpu s)" "unat (rep_count (m_cpu s)) < n"
  shows "\<exists>t. run_state (rep_rounds n z 0xA4 op_cs op_ip) s = (Some None, t) \<and>
    m_mem t = copy_up (m_mem s) (string_src (m_cpu s)) (string_dst (m_cpu s)) (unat (rep_count (m_cpu s))) \<and>
    rep_count (m_cpu t) = 0 \<and> string_src (m_cpu t) = string_src (m_cpu s) + rep_count (m_cpu s) \<and>
    string_dst (m_cpu t) = string_dst (m_cpu s) + rep_count (m_cpu s) \<and> flags (m_cpu t) = flags (m_cpu s) \<and> m_io t = m_io s"
  using assms
proof (induction n arbitrary: s)
  case (Suc n)
  let ?c = "m_cpu s"
  show ?case
  proof (cases "rep_count ?c = 0")
    case True
    then show ?thesis by (simp add: run_bind run_basic case_prod_beta)
  next
    case False
    define t where "t = s\<lparr>m_cpu := movsb_next ?c, m_mem := write_u8 (m_mem s) (string_dst ?c) (read_u8 (m_mem s) (string_src ?c))\<rparr>"
    have b: "run_state (rep_body z 0xA4 op_cs op_ip) s = (RepAgain, t)" using movsb_round [OF Suc.prems(2,3)] by (simp add: t_def)
    have w: "machine_wf t" "rep_count (m_cpu t) = rep_count ?c - 1" using rep_body_again [OF b Suc.prems(1) False] by auto
    have c: "cpu_wf ?c" using Suc.prems(1) by (simp add: machine_wf_def)
    have f: "flat t" "ascending32 (m_cpu t)"
      using Suc.prems(2,3) movsb_next_facts [OF c Suc.prems(3)] by (simp_all add: t_def flat_def mem_size_def)
    obtain k where k: "unat (rep_count ?c) = Suc k" using False by (metis unat_eq_zero not0_implies_Suc)
    then have k': "unat (rep_count (m_cpu t)) = k" using unat_minus_one [OF False] w(2) by simp
    have run: "run_state (rep_rounds (Suc n) z 0xA4 op_cs op_ip) s = run_state (rep_rounds n z 0xA4 op_cs op_ip) t"
      using b False by (simp add: run_bind run_basic case_prod_beta)
    obtain u where u: "run_state (rep_rounds n z 0xA4 op_cs op_ip) t = (Some None, u)"
      "m_mem u = copy_up (m_mem t) (string_src (m_cpu t)) (string_dst (m_cpu t)) k" "rep_count (m_cpu u) = 0"
      "string_src (m_cpu u) = string_src (m_cpu t) + rep_count (m_cpu t)"
      "string_dst (m_cpu u) = string_dst (m_cpu t) + rep_count (m_cpu t)" "flags (m_cpu u) = flags (m_cpu t)" "m_io u = m_io t"
      using Suc.IH [OF w(1) f] Suc.prems(4) k k' by auto
    show ?thesis unfolding run
      using u movsb_next_facts [OF c Suc.prems(3)] w(2) by (simp add: k) (simp add: t_def)
  qed
qed simp

lemma copy_up_reads:
  fixes s d b :: u32
  assumes "n < 2 ^ 32" "\<And>k. k < n \<Longrightarrow> in_ram m (d + of_nat k)" "\<And>k. k < n \<Longrightarrow> n \<le> unat (s + of_nat k - d)"
  shows "read_u8 (copy_up m s d n) b = (if unat (b - d) < n then read_u8 m (s + (b - d)) else read_u8 m b)"
  using assms
proof (induction n arbitrary: m s d)
  case (Suc n)
  define m1 where "m1 = write_u8 m d (read_u8 m s)"
  have ram: "in_ram m d" using Suc.prems(2) [of 0] by simp
  have rd: "read_u8 m1 x = (if x = d then read_u8 m s else read_u8 m x)" for x by (simp add: m1_def ram.rd_wr [OF ram])
  have IH: "read_u8 (copy_up m1 (s + 1) (d + 1) n) b =
      (if unat (b - (d + 1)) < n then read_u8 m1 (s + 1 + (b - (d + 1))) else read_u8 m1 b)"
  proof (rule Suc.IH)
    show "in_ram m1 (d + 1 + of_nat k)" if "k < n" for k
      using Suc.prems(2) [of "Suc k"] that by (simp add: m1_def ram.plain_wr [OF ram] add.assoc)
    show "n \<le> unat (s + 1 + of_nat k - (d + 1))" if "k < n" for k
      using Suc.prems(3) [of k] that by (simp add: algebra_simps)
  qed (use Suc.prems(1) in simp)
  show ?case
  proof (cases "b = d")
    case True
    then show ?thesis using IH Suc.prems(1) by (simp add: m1_def [symmetric] rd)
  next
    case False
    then have u: "unat (b - (d + 1)) = unat (b - d) - 1" "unat (b - d) \<noteq> 0"
      using unat_minus_one [of "b - d"] by (simp_all add: diff_diff_eq [symmetric] unat_eq_zero)
    have "s + (b - d) \<noteq> d" if "unat (b - d) < Suc n" using Suc.prems(3) [OF that] by auto
    then show ?thesis using IH False u by (auto simp: m1_def [symmetric] rd)
  qed
qed simp

text \<open>
  C12: REP MOVSB copies.  With 32-bit addresses, the direction flag clear and paging off, REP MOVSB ends
  normally with every destination byte equal to the source byte before the instruction, every other
  byte of memory unchanged, the count register zero, both index registers past their ranges and the
  flags as before, provided that the destination lies in RAM and no source byte lies in it.
\<close>

theorem rep_movsb_copies:
  fixes z :: bool
  assumes "machine_wf s" "flat s" "ascending32 (m_cpu s)"
  defines "n \<equiv> unat (rep_count (m_cpu s))" and "src \<equiv> string_src (m_cpu s)" and "dst \<equiv> string_dst (m_cpu s)"
  assumes "\<And>k. k < n \<Longrightarrow> in_ram (m_mem s) (dst + of_nat k)" "\<And>k. k < n \<Longrightarrow> n \<le> unat (src + of_nat k - dst)"
  shows "\<exists>t. run_state (rep_loop z 0xA4 op_cs op_ip) s = (Some None, t) \<and>
    (\<forall>b. read_u8 (m_mem t) b = (if unat (b - dst) < n then read_u8 (m_mem s) (src + (b - dst)) else read_u8 (m_mem s) b)) \<and>
    rep_count (m_cpu t) = 0 \<and> string_src (m_cpu t) = src + of_nat n \<and> string_dst (m_cpu t) = dst + of_nat n \<and>
    flags (m_cpu t) = flags (m_cpu s) \<and> m_io t = m_io s"
proof -
  obtain t where t: "run_state (rep_rounds (Suc n) z 0xA4 op_cs op_ip) s = (Some None, t)" "m_mem t = copy_up (m_mem s) src dst n"
    "rep_count (m_cpu t) = 0" "string_src (m_cpu t) = src + of_nat n" "string_dst (m_cpu t) = dst + of_nat n"
    "flags (m_cpu t) = flags (m_cpu s)" "m_io t = m_io s"
    using movsb_rounds [OF assms(1-3), of "Suc n" z op_cs op_ip] by (auto simp: n_def src_def dst_def simp del: rep_rounds.simps)
  have n: "n < 2 ^ 32" using unat_bounds(3) [of "rep_count (m_cpu s)"] by (simp add: n_def)
  have "read_u8 (m_mem t) b = (if unat (b - dst) < n then read_u8 (m_mem s) (src + (b - dst)) else read_u8 (m_mem s) b)" for b
    unfolding t(2) using n assms(7,8) by (rule copy_up_reads)
  then show ?thesis using t by (simp add: rep_loop_def run_bind run_basic n_def [symmetric] del: rep_rounds.simps)
qed

lemma boot_copy_facts:
  defines "c \<equiv> write_r32 (write_r32 (write_r32 ((m_cpu boot_machine)\<lparr>addr_size_32 := True\<rparr>) 1 3) 6 0x100) 7 0x200"
  shows "machine_wf (boot_machine\<lparr>m_cpu := c\<rparr>)" "flat (boot_machine\<lparr>m_cpu := c\<rparr>)" "ascending32 c" "rep_count c = 3"
    "string_src c = 0x100" "string_dst c = 0x200"
proof -
  show "machine_wf (boot_machine\<lparr>m_cpu := c\<rparr>)" using boot_facts(1) by (simp add: c_def machine_wf_def frame_simps)
qed (simp_all add: c_def boot_machine_def reset_to_boot_def write_r32_def flat_def paging_on_def boot_mmu ascending32_def has_def
    rep_count_def read_r32_def string_src_def string_dst_def linear_seg_def string_src_seg_def seg_or_def read_si_for_string_def
    read_di_for_string_def DS_def ES_def)

theorem rep_movsb_copies_witness:
  "\<exists>t. run_state (rep_loop True 0xA4 0 0x7C00) (boot_machine\<lparr>m_cpu :=
      write_r32 (write_r32 (write_r32 ((m_cpu boot_machine)\<lparr>addr_size_32 := True\<rparr>) 1 3) 6 0x100) 7 0x200\<rparr>) = (Some None, t) \<and>
    read_u8 (m_mem t) 0x202 = read_u8 (m_mem boot_machine) 0x102"
proof -
  let ?s = "boot_machine\<lparr>m_cpu := write_r32 (write_r32 (write_r32 ((m_cpu boot_machine)\<lparr>addr_size_32 := True\<rparr>) 1 3) 6 0x100) 7 0x200\<rparr>"
  have c: "rep_count (m_cpu ?s) = 3" "string_src (m_cpu ?s) = 0x100" "string_dst (m_cpu ?s) = 0x200" "ascending32 (m_cpu ?s)"
    using boot_copy_facts by simp_all
  have k: "k = 0 \<or> k = 1 \<or> k = 2" if "k < unat (3 :: u32)" for k :: nat using that by auto
  have p: "in_ram (m_mem ?s) (0x200 + of_nat k)" "unat (3 :: u32) \<le> unat (0x100 + of_nat k - 0x200 :: u32)" if "k < unat (3 :: u32)" for k
    using k [OF that] boot_facts(7) by (auto simp: in_ram_def mem_size_def)
  obtain t where t: "run_state (rep_loop True 0xA4 0 0x7C00) ?s = (Some None, t)"
    "\<forall>b. read_u8 (m_mem t) b = (if unat (b - 0x200) < unat (3 :: u32) then read_u8 (m_mem ?s) (0x100 + (b - 0x200)) else read_u8 (m_mem ?s) b)"
    using rep_movsb_copies [of ?s True 0 "0x7C00", OF boot_copy_facts(1,2) c(4), unfolded c, OF p] by blast
  have "read_u8 (m_mem t) 0x202 = read_u8 (m_mem ?s) 0x102" using spec [OF t(2), of "0x202"] by simp
  then show ?thesis using t(1) by auto
qed


section \<open>HLT\<close>

abbreviation keeps_halt :: "machine \<Rightarrow> machine \<Rightarrow> bool" where "keeps_halt s t \<equiv> halted (m_cpu t) = halted (m_cpu s)"

lemma halt_mmu: "mmu_frame c c' \<Longrightarrow> halted c' = halted c"
  by (auto simp: mmu_frame_def mmu_only_def)

interpretation halt_kept: fetch_frame keeps_halt
  by unfold_locales (simp_all add: halt_mmu)

lemma halt_upd: "(\<And>c. halted (f c) = halted c) \<Longrightarrow> frames keeps_halt (cpu_upd f)"
  by (simp add: frames_def run_basic)

lemma halt_store: "frames keeps_halt (st8 l v8)" "frames keeps_halt (st16 l v16)" "frames keeps_halt (st32 l v32)"
  by (simp_all add: frames_def run_memory mem_write_u16_def mem_write_u32_def halt_mmu)

lemma halt_updates [simp]:
  "halted (write_r32 c i v) = halted c" "halted (write_stack_ptr c v) = halted c" "halted (set_flag c f b) = halted c"
  "halted (invalidate_fetch_tlb c) = halted c"
  by (simp_all add: write_r32_def write_stack_ptr_def set_flag_def invalidate_fetch_tlb_def Let_def)

lemma halt_push: "frames keeps_halt (push16 v)" "frames keeps_halt (push32 w)"
  unfolding push16_def push32_def by (intro halt_upd halt_store frame_intro; simp)+

lemma halt_write_sreg: "frames keeps_halt (write_sreg i v)"
  unfolding write_sreg_def by (intro halt_upd frame_intro; simp add: Let_def)

lemma halt_switch: "frames keeps_halt switch_stack"
  unfolding switch_stack_def by (intro halt_upd halt_write_sreg frame_intro; simp)

lemma halt_interrupt: "frames keeps_halt (do_interrupt n)"
  unfolding do_interrupt_def do_interrupt_with_error_def
  by (intro halt_upd halt_write_sreg halt_push halt_switch frame_intro; simp)

definition irq_waiting :: "machine \<Rightarrow> bool" where
  "irq_waiting s \<longleftrightarrow> has (m_cpu s) IF \<and> (pending_lapic_irq (m_mem s) \<noteq> None \<or> pending_irq_vector (m_io s) \<noteq> None)"

lemma take_irq_waiting: "fst (take_irq s) = None \<longleftrightarrow> \<not> irq_waiting s" "m_cpu (snd (take_irq s)) = m_cpu s"
  by (auto simp: take_irq_def irq_waiting_def take_pending_lapic_irq_def split: option.splits)

text \<open>
  C16: HLT waits for an interrupt and no longer.  A halted CPU ticks its timers and devices, advances the
  time-stamp counter and stays exactly as it is as long as no interrupt is waiting or IF is clear;
  in the first step that finds IF set and a vector queued by the local APIC or raised by the PIC it
  wakes.
\<close>

theorem halt_wakes:
  assumes "halted (m_cpu s)"
  shows "fst (run_state (cpu_step h fuel) s) = Done \<and>
    (\<not> irq_waiting (tick_devices s) \<longrightarrow> m_cpu (snd (run_state (cpu_step h fuel) s)) = (m_cpu s)\<lparr>tsc := tsc (m_cpu s) + 1\<rparr>) \<and>
    (irq_waiting (tick_devices s) \<longrightarrow> \<not> halted (m_cpu (snd (run_state (cpu_step h fuel) s))))"
proof -
  define s1 where "s1 = advance_tsc (tick_devices s)"
  obtain v s2 where t: "take_irq s1 = (v, s2)" by fastforce
  have w: "irq_waiting s1 = irq_waiting (tick_devices s)" by (simp add: s1_def advance_tsc_def irq_waiting_def has_def)
  have c: "m_cpu s2 = (m_cpu s)\<lparr>tsc := tsc (m_cpu s) + 1\<rparr>"
    using take_irq_waiting(2) [of s1] t by (simp add: s1_def advance_tsc_def tick_devices_def Let_def)
  have n: "v = None \<longleftrightarrow> \<not> irq_waiting (tick_devices s)" using take_irq_waiting(1) [of s1] t w by simp
  have "\<not> halted (m_cpu (snd (run_state (do_interrupt vec) (s2\<lparr>m_cpu := (m_cpu s2)\<lparr>halted := False\<rparr>\<rparr>))))" for vec
    using halt_interrupt [of vec] by (simp add: frames_def)
  then show ?thesis using assms t c n
    by (cases v) (auto simp: cpu_step_def step_halted_def run_simps case_prod_beta s1_def [symmetric])
qed

theorem halt_wakes_witness:
  "fst (run_state (cpu_step no_handlers 16) (boot_machine\<lparr>m_cpu := cpu_new\<lparr>halted := True\<rparr>\<rparr>)) = Done"
  using halt_wakes [of "boot_machine\<lparr>m_cpu := cpu_new\<lparr>halted := True\<rparr>\<rparr>" no_handlers 16] by simp

section \<open>Faulting instructions\<close>

lemma fetch_opcode_op_ip: "frames keeps_op_ip (fetch_opcode n)"
  by (rule op_ip_kept.fr_fetch_opcode)



definition fault_machine :: machine where
  "fault_machine = \<lparr>m_cpu = cpu_new\<lparr>cr0 := 0x80000001, ip := 0x1234\<rparr>, m_mem = (mem_new None 8)\<lparr>mem_bytes := [0x90, 0, 0, 0, 0, 0, 0, 0]\<rparr>,
     m_io = bus_new\<rparr>"

lemma fault_machine_fetch:
  "run_state (fetch_opcode 1) (fault_machine\<lparr>m_cpu := begin_instruction (m_cpu fault_machine)\<rparr>) =
    (Some 0x90, fault_machine\<lparr>m_cpu := (begin_instruction (m_cpu fault_machine))
       \<lparr>ip := 0x1235, pending_fault := Some \<lparr>pf_addr = 0x1234, pf_error_code = 0x10\<rparr>\<rparr>\<rparr>)"
proof -
  let ?c = "(begin_instruction (m_cpu fault_machine))\<lparr>ip := 0x1235\<rparr>"
  have w: "read_u32 (m_mem fault_machine) 0 = 0x90"
    by (simp add: fault_machine_def read_u32_le read_u8_def of_le32_def)
  have t: "translate_inner ?c (m_mem fault_machine) 0x1234 Fetch = (0, ?c\<lparr>pending_fault := Some \<lparr>pf_addr = 0x1234, pf_error_code = 0x10\<rparr>\<rparr>)"
    using w by (simp add: translate_inner_def raise_fault_def fault_machine_def begin_instruction_def cpu_new_def CS_def)
  have "fst (mem_fetch_u8 ?c (m_mem fault_machine) 0x1234) = 0x90"
    "snd (mem_fetch_u8 ?c (m_mem fault_machine) 0x1234) = ?c\<lparr>pending_fault := Some \<lparr>pf_addr = 0x1234, pf_error_code = 0x10\<rparr>\<rparr>"
    using t by (simp_all add: mem_fetch_u8_def translate_fetch_def fault_machine_def begin_instruction_def cpu_new_def read_code_u8_def)
  moreover have "linear_seg (begin_instruction (m_cpu fault_machine)) CS (ip (begin_instruction (m_cpu fault_machine))) = 0x1234"
    "ip (begin_instruction (m_cpu fault_machine)) = 0x1234"
    by (simp_all add: fault_machine_def begin_instruction_def cpu_new_def linear_seg_def CS_def)
  ultimately show ?thesis by (simp add: fetch_u8_def run_bind run_basic run_memory prefix_effect_def case_prod_beta)
qed


end
