(* ===== verification/NetText.thy ===== *)
theory NetText
  imports Prelude
begin

unbundle bit_operations_syntax

text \<open>
  What the network crate uses of Rust's strings, integers and IPv4 addresses.  A \<^verbatim>\<open>String\<close> is the list
  of its Unicode scalar values; \<^verbatim>\<open>std::str::from_utf8\<close> decodes it from bytes.  Network byte order
  is \<^verbatim>\<open>to_be_bytes\<close> and \<^verbatim>\<open>from_be_bytes\<close>.
\<close>

section \<open>Strings\<close>

type_synonym ustring = "nat list"

named_theorems text_simps

text \<open>\<^verbatim>\<open>str::split\<close> on a set of separators, \<^verbatim>\<open>str::trim\<close> and \<^verbatim>\<open>str::rsplit_once\<close>.\<close>

fun split_on :: "('a \<Rightarrow> bool) \<Rightarrow> 'a list \<Rightarrow> 'a list list" where
  "split_on P [] = [[]]"
| "split_on P (c # cs) =
     (if P c then [] # split_on P cs
      else (case split_on P cs of [] \<Rightarrow> [[c]] | w # ws \<Rightarrow> (c # w) # ws))"

definition white_space :: "nat \<Rightarrow> bool" where
  "white_space c \<longleftrightarrow> 9 \<le> c \<and> c \<le> 13 \<or> c = 32 \<or> c = 0x85 \<or> c = 0xA0 \<or> c = 0x1680 \<or> 0x2000 \<le> c \<and> c \<le> 0x200A \<or>
     c = 0x2028 \<or> c = 0x2029 \<or> c = 0x202F \<or> c = 0x205F \<or> c = 0x3000"

definition trim :: "ustring \<Rightarrow> ustring" where
  "trim s = rev (dropWhile white_space (rev (dropWhile white_space s)))"

definition rsplit_once :: "'a \<Rightarrow> 'a list \<Rightarrow> ('a list \<times> 'a list) option" where
  "rsplit_once c s =
     (if c \<in> set s
      then (let p = takeWhile (\<lambda>x. x \<noteq> c) (rev s) in Some (take (length s - Suc (length p)) s, rev p))
      else None)"

definition ascii_lower :: "nat \<Rightarrow> nat" where
  "ascii_lower c = (if 65 \<le> c \<and> c \<le> 90 then c + 32 else c)"

definition to_ascii_lowercase :: "ustring \<Rightarrow> ustring" where
  "to_ascii_lowercase s = map ascii_lower s"

definition eq_ignore_ascii_case :: "ustring \<Rightarrow> ustring \<Rightarrow> bool" where
  "eq_ignore_ascii_case a b \<longleftrightarrow> to_ascii_lowercase a = to_ascii_lowercase b"

text \<open>\<^verbatim>\<open>u16::from_str\<close>: an optional plus sign, then at least one digit, with overflow refused.\<close>

fun u16_digits :: "nat \<Rightarrow> ustring \<Rightarrow> nat option" where
  "u16_digits acc [] = Some acc"
| "u16_digits acc (c # cs) =
     (if 48 \<le> c \<and> c \<le> 57 \<and> acc * 10 + (c - 48) < 65536 then u16_digits (acc * 10 + (c - 48)) cs else None)"

definition parse_u16 :: "ustring \<Rightarrow> u16 option" where
  "parse_u16 s =
     (let ds = (case s of c # cs \<Rightarrow> if c = 43 then cs else s | [] \<Rightarrow> [])
      in if ds = [] then None else map_option of_nat (u16_digits 0 ds))"

text \<open>\<^verbatim>\<open>[String]::join\<close>.\<close>

fun join :: "'a list \<Rightarrow> 'a list list \<Rightarrow> 'a list" where
  "join sep [] = []"
| "join sep [w] = w"
| "join sep (w # v # ws) = w @ sep @ join sep (v # ws)"

lemma split_on_none [text_simps]: "(\<forall>c \<in> set w. \<not> P c) \<Longrightarrow> split_on P w = [w]"
  by (induction w) simp_all

lemma split_on_append [text_simps]: "(\<forall>c \<in> set w. \<not> P c) \<Longrightarrow> P c \<Longrightarrow> split_on P (w @ c # cs) = w # split_on P cs"
  by (induction w) simp_all

lemma split_on_join:
  assumes "\<forall>w \<in> set ws. \<forall>c \<in> set w. \<not> P c" "P sep" "ws \<noteq> []"
  shows "split_on P (join [sep] ws) = ws"
  using assms by (induction "[sep]" ws rule: join.induct) (simp_all add: text_simps)

lemma split_on_seps: "\<forall>w \<in> set (split_on P s). \<forall>c \<in> set w. c \<in> set s \<and> \<not> P c"
  by (induction s) (auto split: list.splits)

lemma trim_id [text_simps]:
  assumes "s \<noteq> []" "\<not> white_space (hd s)" "\<not> white_space (last s)"
  shows "trim s = s"
proof -
  have "dropWhile white_space s = s" using assms(1,2) by (cases s) simp_all
  moreover have "dropWhile white_space (rev s) = rev s" using assms(1,3) by (cases s rule: rev_cases) simp_all
  ultimately show ?thesis by (simp add: trim_def)
qed

lemma trim_blank: "\<forall>c \<in> set s. white_space c \<Longrightarrow> trim s = []"
  by (simp add: trim_def dropWhile_eq_Nil_conv [THEN iffD2])

lemma rsplit_once_at [text_simps]:
  assumes "c \<notin> set p"
  shows "rsplit_once c (h @ c # p) = Some (h, p)"
proof -
  have "takeWhile (\<lambda>x. x \<noteq> c) (rev p @ c # rev h) = rev p" using assms by (simp add: takeWhile_append)
  then show ?thesis by (simp add: rsplit_once_def)
qed

lemma rsplit_once_none [text_simps]: "c \<notin> set s \<Longrightarrow> rsplit_once c s = None"
  by (simp add: rsplit_once_def)

lemma lower_idem [simp]: "to_ascii_lowercase (to_ascii_lowercase s) = to_ascii_lowercase s"
  by (simp add: to_ascii_lowercase_def ascii_lower_def)

lemma eq_ignore_lower [simp]:
  "eq_ignore_ascii_case a (to_ascii_lowercase b) = eq_ignore_ascii_case a b"
  "eq_ignore_ascii_case (to_ascii_lowercase a) b = eq_ignore_ascii_case a b"
  "eq_ignore_ascii_case a a"
  by (simp_all add: eq_ignore_ascii_case_def)

section \<open>Decimal numbers\<close>

fun decimal :: "nat \<Rightarrow> ustring" where
  "decimal n = (if n < 10 then [48 + n] else decimal (n div 10) @ [48 + n mod 10])"

declare decimal.simps [simp del]

lemma u16_digits_append: "u16_digits a (xs @ ys) = (case u16_digits a xs of Some b \<Rightarrow> u16_digits b ys | None \<Rightarrow> None)"
  by (induction xs arbitrary: a) auto

lemma u16_digits_decimal: "n < 65536 \<Longrightarrow> u16_digits 0 (decimal n) = Some n"
proof (induction n rule: decimal.induct)
  case (1 n)
  then show ?case by (subst decimal.simps) (auto simp: u16_digits_append)
qed

lemma decimal_digits: "\<forall>c \<in> set (decimal n). 48 \<le> c \<and> c \<le> 57"
proof (induction n rule: decimal.induct)
  case (1 n)
  then show ?case by (subst decimal.simps) (auto split: if_splits)
qed

lemma decimal_Nil [simp]: "decimal n \<noteq> []"
  by (subst decimal.simps) simp

lemma parse_u16_decimal [text_simps]: "parse_u16 (decimal (unat p)) = Some p"
proof -
  obtain d ds where d: "decimal (unat p) = d # ds" by (cases "decimal (unat p)") simp_all
  have "d \<noteq> 43" using decimal_digits [of "unat p"] d by auto
  moreover have "u16_digits 0 (d # ds) = Some (unat p)" using u16_digits_decimal [of "unat p"] unat_bounds(2) [of p] d by simp
  ultimately show ?thesis by (simp add: parse_u16_def d del: u16_digits.simps)
qed

section \<open>UTF-8\<close>

text \<open>
  \<^verbatim>\<open>std::str::from_utf8\<close>: shortest forms only, no surrogates, nothing above U+10FFFF.
\<close>

definition cont :: "u8 \<Rightarrow> bool" where "cont b \<longleftrightarrow> 0x80 \<le> b \<and> b \<le> 0xBF"

definition low6 :: "u8 \<Rightarrow> nat" where "low6 b = unat (b AND 0x3F)"

fun from_utf8 :: "bytes \<Rightarrow> ustring option" where
  "from_utf8 [] = Some []"
| "from_utf8 (a # bs) =
     (if a < 0x80 then map_option ((#) (unat a)) (from_utf8 bs)
      else if 0xC2 \<le> a \<and> a \<le> 0xDF then
        (case bs of
           b # r \<Rightarrow> if cont b then map_option ((#) (unat (a AND 0x1F) * 64 + low6 b)) (from_utf8 r) else None
         | _ \<Rightarrow> None)
      else if 0xE0 \<le> a \<and> a \<le> 0xEF then
        (case bs of
           b # c # r \<Rightarrow>
             if cont b \<and> cont c \<and> (a = 0xE0 \<longrightarrow> 0xA0 \<le> b) \<and> (a = 0xED \<longrightarrow> b \<le> 0x9F)
             then map_option ((#) (unat (a AND 0x0F) * 4096 + low6 b * 64 + low6 c)) (from_utf8 r) else None
         | _ \<Rightarrow> None)
      else if 0xF0 \<le> a \<and> a \<le> 0xF4 then
        (case bs of
           b # c # d # r \<Rightarrow>
             if cont b \<and> cont c \<and> cont d \<and> (a = 0xF0 \<longrightarrow> 0x90 \<le> b) \<and> (a = 0xF4 \<longrightarrow> b \<le> 0x8F)
             then map_option ((#) (unat (a AND 0x07) * 262144 + low6 b * 4096 + low6 c * 64 + low6 d)) (from_utf8 r)
             else None
         | _ \<Rightarrow> None)
      else None)"

lemma from_utf8_ascii [text_simps]: "\<forall>b \<in> set bs. b < 0x80 \<Longrightarrow> from_utf8 bs = Some (map unat bs)"
  by (induction bs) simp_all

lemma from_utf8_length: "from_utf8 bs = Some s \<Longrightarrow> length s \<le> length bs"
proof (induction bs arbitrary: s rule: length_induct)
  case (1 bs)
  have step: "length (x # t) \<le> length bs" if "from_utf8 r = Some t" "length r < length bs" for r t and x :: nat
    using 1(1) that by fastforce
  show ?case
  proof (cases bs)
    case (Cons a cs)
    obtain r t x where "from_utf8 r = Some t" "length r < length bs" "s = x # t"
      using 1(2) Cons by (simp split: if_split_asm list.split_asm) fastforce+
    then show ?thesis using step by blast
  qed (use 1(2) in simp)
qed

section \<open>Network byte order\<close>

definition be16 :: "u16 \<Rightarrow> bytes" where
  "be16 w = [ucast (drop_bit 8 w), ucast w]"

definition of_be16 :: "u8 \<Rightarrow> u8 \<Rightarrow> u16" where
  "of_be16 a b = of_le16 b a"

definition be32 :: "u32 \<Rightarrow> bytes" where
  "be32 w = [ucast (drop_bit 24 w), ucast (drop_bit 16 w), ucast (drop_bit 8 w), ucast w]"

definition getb16 :: "bytes \<Rightarrow> nat \<Rightarrow> u16" where
  "getb16 bs i = of_be16 (bs ! i) (bs ! Suc i)"

lemma of_be16_be16 [simp]: "of_be16 (ucast (drop_bit 8 w)) (ucast w) = w"
  by (simp add: of_be16_def)

lemma be16_of_be16 [simp]: "be16 (of_be16 a b) = [a, b]"
  by (simp add: be16_def of_be16_def)

lemma length_be [simp]: "length (be16 w) = 2" "length (be32 v) = 4"
  by (simp_all add: be16_def be32_def)

lemma unat_drop_bit: "unat (drop_bit k x) = unat x div 2 ^ k" for x :: "'a::len word"
  by (simp add: unat_drop_bit_eq) (simp add: drop_bit_eq_div)

lemma unat_of_be16: "unat (of_be16 a b) = unat a * 256 + unat b"
proof -
  have "of_be16 a b = push_bit 8 (ucast a) + ucast b"
    unfolding of_be16_def of_le16_def
    by (subst disjunctive_add [symmetric]) (auto simp: bit_simps add.commute dest: bit_u8_high)
  also have "unat \<dots> = unat a * 256 + unat b"
    using unat_bounds(1) [of a] unat_bounds(1) [of b]
    by (simp add: unat_word_ariths push_bit_eq_mult unat_ucast_wider)
  finally show ?thesis .
qed

section \<open>IPv4 addresses\<close>

type_synonym ipv4 = "u8 \<times> u8 \<times> u8 \<times> u8"

fun octets :: "ipv4 \<Rightarrow> bytes" where "octets (a, b, c, d) = [a, b, c, d]"

fun addr32 :: "ipv4 \<Rightarrow> u32" where "addr32 (a, b, c, d) = of_le32 d c b a"

text \<open>Membership in a CIDR block.\<close>

definition in_block :: "ipv4 \<Rightarrow> ipv4 \<times> nat \<Rightarrow> bool" where
  "in_block ip blk = (drop_bit (32 - snd blk) (addr32 ip) = drop_bit (32 - snd blk) (addr32 (fst blk)))"

fun is_loopback :: "ipv4 \<Rightarrow> bool" where "is_loopback (a, b, c, d) = (a = 127)"
fun is_private :: "ipv4 \<Rightarrow> bool" where
  "is_private (a, b, c, d) = (a = 10 \<or> a = 172 \<and> 16 \<le> b \<and> b \<le> 31 \<or> a = 192 \<and> b = 168)"
fun is_link_local :: "ipv4 \<Rightarrow> bool" where "is_link_local (a, b, c, d) = (a = 169 \<and> b = 254)"
fun is_multicast :: "ipv4 \<Rightarrow> bool" where "is_multicast (a, b, c, d) = (224 \<le> a \<and> a \<le> 239)"
fun is_broadcast :: "ipv4 \<Rightarrow> bool" where "is_broadcast (a, b, c, d) = (a = 255 \<and> b = 255 \<and> c = 255 \<and> d = 255)"
fun is_unspecified :: "ipv4 \<Rightarrow> bool" where "is_unspecified (a, b, c, d) = (a = 0 \<and> b = 0 \<and> c = 0 \<and> d = 0)"

lemma length_octets [simp]: "length (octets ip) = 4"
  by (cases ip) simp

lemma octets_inject [simp]: "octets x = octets y \<longleftrightarrow> x = y"
  by (cases x; cases y) simp

end
