(* ===== verification/NetSwitch.thy ===== *)
theory NetSwitch
  imports NetText
begin

unbundle bit_operations_syntax

text \<open>
  The learning Ethernet switch that joins several machines into one LAN, and the hub that drives it
  over their network cards (\<^verbatim>\<open>crates/net/src/switch.rs\<close>).  The forwarding table is a partial map from
  hardware addresses to ports.  A port's two operations (\<^verbatim>\<open>L2Port::drain_tx\<close> and
  \<^verbatim>\<open>L2Port::inject_rx\<close>) are arguments of the hub.  The lemmas relate the table to the traffic seen,
  bound it, and say which ports each frame reaches.
\<close>

section \<open>The switch\<close>

datatype forward = Unicast nat | Flood | Drop

record switch =
  mac_table :: "bytes \<rightharpoonup> nat"
  table_cap :: nat

definition is_group :: "bytes \<Rightarrow> bool" where
  "is_group mac \<longleftrightarrow> (mac ! 0) AND 1 = 1"

definition switch_new :: switch where
  "switch_new = \<lparr>mac_table = Map.empty, table_cap = 1024\<rparr>"

definition learn :: "switch \<Rightarrow> bytes \<Rightarrow> nat \<Rightarrow> switch" where
  "learn sw src in_port =
     (if \<not> is_group src \<and> (card (dom (mac_table sw)) < table_cap sw \<or> mac_table sw src \<noteq> None)
      then sw\<lparr>mac_table := (mac_table sw)(src \<mapsto> in_port)\<rparr> else sw)"

definition route :: "switch \<Rightarrow> nat \<Rightarrow> bytes \<Rightarrow> forward \<times> switch" where
  "route sw in_port frame =
     (if length frame < 14 then (Drop, sw)
      else
        (let dst = take 6 frame; src = take 6 (drop 6 frame); sw1 = learn sw src in_port
         in (if is_group dst then Flood
             else case mac_table sw1 dst of
               Some p \<Rightarrow> if p = in_port then Drop else Unicast p
             | None \<Rightarrow> Flood, sw1)))"

definition egress :: "switch \<Rightarrow> nat \<Rightarrow> bytes \<Rightarrow> nat \<Rightarrow> nat list \<times> switch" where
  "egress sw in_port frame num_ports =
     (case route sw in_port frame of
        (Drop, sw1) \<Rightarrow> ([], sw1)
      | (Unicast p, sw1) \<Rightarrow> (if p < num_ports then [p] else [], sw1)
      | (Flood, sw1) \<Rightarrow> (filter (\<lambda>p. p \<noteq> in_port) [0..<num_ports], sw1))"

definition forget_port :: "switch \<Rightarrow> nat \<Rightarrow> switch" where
  "forget_port sw port = sw\<lparr>mac_table := (\<lambda>m. if mac_table sw m = Some port then None else mac_table sw m)\<rparr>"

definition learned :: "switch \<Rightarrow> nat" where
  "learned sw = card (dom (mac_table sw))"

section \<open>The hub\<close>

fun route_frames :: "nat \<Rightarrow> nat \<Rightarrow> switch \<Rightarrow> bytes list \<Rightarrow> (nat \<times> bytes) list \<times> switch" where
  "route_frames i n sw [] = ([], sw)"
| "route_frames i n sw (f # fs) =
     (let (egs, sw1) = egress sw i f n; (ds, sw2) = route_frames i n sw1 fs
      in (map (\<lambda>eg. (eg, f)) egs @ ds, sw2))"

fun drain_ports :: "('p \<Rightarrow> bytes list \<times> 'p) \<Rightarrow> nat \<Rightarrow> nat \<Rightarrow> switch \<Rightarrow> 'p list \<Rightarrow> (nat \<times> bytes) list \<times> switch \<times> 'p list" where
  "drain_ports drain_tx n i sw [] = ([], sw, [])"
| "drain_ports drain_tx n i sw (p # ps) =
     (let (fs, p') = drain_tx p; (ds, sw1) = route_frames i n sw fs;
          (ds', sw2, ps') = drain_ports drain_tx n (Suc i) sw1 ps
      in (ds @ ds', sw2, p' # ps'))"

fun deliver :: "('p \<Rightarrow> bytes \<Rightarrow> bool \<times> 'p) \<Rightarrow> 'p list \<Rightarrow> (nat \<times> bytes) list \<Rightarrow> 'p list" where
  "deliver inject_rx ps [] = ps"
| "deliver inject_rx ps ((port, frame) # ds) = deliver inject_rx (ps[port := snd (inject_rx (ps ! port) frame)]) ds"

definition pump :: "('p \<Rightarrow> bytes list \<times> 'p) \<Rightarrow> ('p \<Rightarrow> bytes \<Rightarrow> bool \<times> 'p) \<Rightarrow> switch \<Rightarrow> 'p list \<Rightarrow> switch \<times> 'p list" where
  "pump drain_tx inject_rx sw ports =
     (let (deliveries, sw1, ports1) = drain_ports drain_tx (length ports) 0 sw ports
      in (sw1, deliver inject_rx ports1 deliveries))"

section \<open>What the table knows\<close>

definition source_of :: "bytes \<Rightarrow> bytes" where "source_of fr = take 6 (drop 6 fr)"

definition teaches :: "bytes \<Rightarrow> bool" where
  "teaches fr \<longleftrightarrow> 14 \<le> length fr \<and> \<not> is_group (source_of fr)"

text \<open>The specification: the port on which an address was last seen as a source.\<close>

fun last_seen :: "(nat \<times> bytes) list \<Rightarrow> bytes \<rightharpoonup> nat" where
  "last_seen [] = Map.empty"
| "last_seen ((p, fr) # tr) = (if teaches fr then (last_seen tr)(source_of fr \<mapsto> p) else last_seen tr)"

text \<open>A switch that has seen the traffic, most recent frame first.\<close>

fun after :: "(nat \<times> bytes) list \<Rightarrow> switch" where
  "after [] = switch_new"
| "after ((p, fr) # tr) = snd (route (after tr) p fr)"

lemma route_table: "snd (route sw p fr) = (if 14 \<le> length fr then learn sw (source_of fr) p else sw)"
  by (simp add: route_def source_of_def Let_def)

lemma learn_frame: "table_cap (learn sw m p) = table_cap sw"
  by (simp add: learn_def)

lemma learn_bounded:
  assumes "finite (dom (mac_table sw))" "card (dom (mac_table sw)) \<le> table_cap sw"
  shows "finite (dom (mac_table (learn sw m p)))" "card (dom (mac_table (learn sw m p))) \<le> table_cap sw"
  using assms by (auto simp: learn_def card_insert_if insert_absorb domI)

lemma after_cap: "table_cap (after tr) = 1024"
  by (induction tr rule: after.induct) (simp_all add: switch_new_def route_table learn_frame)

lemma after_bounded: "finite (dom (mac_table (after tr))) \<and> card (dom (mac_table (after tr))) \<le> 1024"
proof (induction tr rule: after.induct)
  case (2 p fr tr)
  then show ?case using learn_bounded [of "after tr"] by (simp add: route_table after_cap)
qed (simp add: switch_new_def)

lemma last_seen_finite: "finite (dom (last_seen tr))"
  by (induction tr rule: last_seen.induct) simp_all

lemma last_seen_mono: "card (dom (last_seen tr)) \<le> card (dom (last_seen (x # tr)))"
  by (cases x) (auto intro!: card_mono simp: last_seen_finite)

lemma after_learns: "card (dom (last_seen tr)) \<le> 1024 \<Longrightarrow> mac_table (after tr) = last_seen tr"
proof (induction tr rule: after.induct)
  case (2 p fr tr)
  have IH: "mac_table (after tr) = last_seen tr" using 2 last_seen_mono [of tr "(p, fr)"] by simp
  have "card (dom (last_seen tr)) < 1024 \<or> last_seen tr (source_of fr) \<noteq> None" if "teaches fr"
  proof (rule ccontr)
    assume "\<not> (card (dom (last_seen tr)) < 1024 \<or> last_seen tr (source_of fr) \<noteq> None)"
    then have "card (insert (source_of fr) (dom (last_seen tr))) > 1024"
      by (simp add: card_insert_if last_seen_finite domIff)
    moreover have "dom (last_seen ((p, fr) # tr)) = insert (source_of fr) (dom (last_seen tr))" using that by auto
    ultimately show False using 2(2) by (simp only:)
  qed
  then show ?case using IH by (auto simp: route_table learn_def after_cap teaches_def)
qed (simp add: switch_new_def)

lemma egress_ports: "set (fst (egress sw p fr n)) \<subseteq> {0..<n} - {p} \<and> distinct (fst (egress sw p fr n))"
  by (auto simp: egress_def route_def Let_def split: forward.splits prod.splits if_splits option.splits)

text \<open>
  C15: The switch implements its specification, the port each address was last seen on.  Whatever frames
  arrive on whatever ports, the table never exceeds 1024 entries, and a frame is never sent back to its
  ingress port nor to a port that does not exist, nor twice to one port.  While at most 1024 addresses
  have been seen: a frame for an address last seen on another port goes exactly there, one for an
  address last seen on its own port (its own source included) goes nowhere, and a frame for an unseen
  address or a group goes to every other port.
\<close>

theorem switch_refines:
  fixes tr :: "(nat \<times> bytes) list" and p n :: nat
  assumes "14 \<le> length fr"
  defines "dst \<equiv> take 6 fr" and "out \<equiv> fst (egress (after tr) p fr n)" and "seen \<equiv> last_seen ((p, fr) # tr)"
  shows "card (dom (mac_table (after tr))) \<le> 1024 \<and> set out \<subseteq> {0..<n} - {p} \<and> distinct out \<and>
    (card (dom seen) \<le> 1024 \<longrightarrow>
       set out = (if is_group dst then {0..<n} - {p}
                  else case seen dst of Some k \<Rightarrow> {k} \<inter> ({0..<n} - {p}) | None \<Rightarrow> {0..<n} - {p}))"
proof -
  have "set out = (if is_group dst then {0..<n} - {p}
      else case seen dst of Some k \<Rightarrow> {k} \<inter> ({0..<n} - {p}) | None \<Rightarrow> {0..<n} - {p})" if "card (dom seen) \<le> 1024"
  proof -
    have "mac_table (snd (route (after tr) p fr)) = seen"
      using after_learns [of "(p, fr) # tr"] that by (simp add: seen_def)
    then have "mac_table (learn (after tr) (source_of fr) p) = seen" using assms(1) by (simp add: route_table)
    then show ?thesis using assms(1)
      by (auto simp: out_def egress_def route_def Let_def source_of_def dst_def split: option.splits)
  qed
  then show ?thesis using after_bounded [of tr] egress_ports [of "after tr" p fr n] by (simp add: out_def)
qed

theorem switch_refines_witness:
  "set (fst (egress (after [(2, replicate 6 0xFF @ [2, 0, 0, 0, 0, 9] @ [8, 0])]) 0 ([2, 0, 0, 0, 0, 9] @ [2, 0, 0, 0, 0, 7] @ [8, 0]) 3)) = {2}"
proof -
  let ?fr = "[2, 0, 0, 0, 0, 9] @ [2, 0, 0, 0, 0, 7] @ [8, 0 :: u8]" and ?b = "replicate 6 0xFF @ [2, 0, 0, 0, 0, 9] @ [8, 0 :: u8]"
  have t: "teaches ?fr" "teaches ?b" "source_of ?fr = [2, 0, 0, 0, 0, 7]" "source_of ?b = [2, 0, 0, 0, 0, 9]"
    by (simp_all add: teaches_def source_of_def is_group_def)
  have s: "last_seen [(0, ?fr), (2, ?b)] = [[2, 0, 0, 0, 0, 9] \<mapsto> 2, [2, 0, 0, 0, 0, 7] \<mapsto> 0]"
    using t by (simp del: append.simps)
  show ?thesis using switch_refines [of ?fr "[(2, ?b)]" 0 3] unfolding s by (simp add: is_group_def)
qed

section \<open>What the hub delivers\<close>

definition frames_for :: "nat \<Rightarrow> (nat \<times> bytes) list \<Rightarrow> bytes list" where
  "frames_for k ds = map snd (filter (\<lambda>d. fst d = k) ds)"

lemma frames_for_simps [simp]:
  "frames_for k [] = []" "frames_for k (d # ds) = (if fst d = k then snd d # frames_for k ds else frames_for k ds)"
  "frames_for k (ds @ es) = frames_for k ds @ frames_for k es"
  by (simp_all add: frames_for_def)

lemma deliver_nth:
  assumes "\<forall>d \<in> set ds. fst d < length ps"
  shows "length (deliver inject ps ds) = length ps \<and>
    (k < length ps \<longrightarrow> deliver inject ps ds ! k = foldl (\<lambda>p f. snd (inject p f)) (ps ! k) (frames_for k ds))"
  using assms by (induction inject ps ds rule: deliver.induct) (auto simp: nth_list_update)

text \<open>The routing decisions of one round, without the ports.\<close>

fun decisions :: "nat \<Rightarrow> switch \<Rightarrow> (nat \<times> bytes) list \<Rightarrow> (nat \<times> bytes) list \<times> switch" where
  "decisions n sw [] = ([], sw)"
| "decisions n sw ((i, f) # tr) =
     (let (egs, sw1) = egress sw i f n; (ds, sw2) = decisions n sw1 tr in (map (\<lambda>eg. (eg, f)) egs @ ds, sw2))"

lemma decisions_append:
  "decisions n sw (xs @ ys) = (let (ds, sw1) = decisions n sw xs; (es, sw2) = decisions n sw1 ys in (ds @ es, sw2))"
  by (induction n sw xs rule: decisions.induct) (simp_all add: Let_def split: prod.splits)

lemma route_frames_decisions: "route_frames i n sw fs = decisions n sw (map (Pair i) fs)"
  by (induction i n sw fs rule: route_frames.induct) (simp_all add: Let_def split: prod.splits)

text \<open>The frames of a round in the order the hub takes them: port by port.\<close>

definition offered :: "('p \<Rightarrow> bytes list \<times> 'p) \<Rightarrow> nat \<Rightarrow> 'p list \<Rightarrow> (nat \<times> bytes) list" where
  "offered drain i ps = concat (map (\<lambda>(k, p). map (Pair k) (fst (drain p))) (enumerate i ps))"

lemma drain_ports_decisions:
  "drain_ports drain n i sw ps =
     (fst (decisions n sw (offered drain i ps)), snd (decisions n sw (offered drain i ps)), map (\<lambda>p. snd (drain p)) ps)"
proof (induction drain n i sw ps rule: drain_ports.induct)
  case (2 drain n i sw p ps)
  then show ?case
    by (simp add: offered_def decisions_append route_frames_decisions Let_def split: prod.splits)
qed (simp add: offered_def)

lemma decisions_ports: "d \<in> set (fst (decisions n sw tr)) \<Longrightarrow> fst d < n"
proof (induction n sw tr rule: decisions.induct)
  case (2 n sw i f tr)
  then show ?case using egress_ports [of sw i f n] by (auto simp: Let_def split: prod.splits)
qed simp

text \<open>
  One round of the hub.  Every port is drained once; each drained frame is routed in port order by
  the switch as it stands then; and each port is handed, in that order, exactly the frames routed to it,
  after all draining.  No delivery misses the port array.
\<close>

theorem hub_round:
  fixes sw :: switch and ports :: "'p list" and drain_tx :: "'p \<Rightarrow> bytes list \<times> 'p"
  defines "ds \<equiv> fst (decisions (length ports) sw (offered drain_tx 0 ports))"
  shows "fst (pump drain_tx inject_rx sw ports) = snd (decisions (length ports) sw (offered drain_tx 0 ports)) \<and>
    length (snd (pump drain_tx inject_rx sw ports)) = length ports \<and>
    list_all (\<lambda>d. fst d < length ports) ds \<and>
    (\<forall>k < length ports. snd (pump drain_tx inject_rx sw ports) ! k =
       foldl (\<lambda>p f. snd (inject_rx p f)) (snd (drain_tx (ports ! k))) (frames_for k ds))"
proof -
  have d: "\<forall>d \<in> set ds. fst d < length (map (\<lambda>p. snd (drain_tx p)) ports)" using decisions_ports by (auto simp: ds_def)
  have p: "pump drain_tx inject_rx sw ports =
    (snd (decisions (length ports) sw (offered drain_tx 0 ports)), deliver inject_rx (map (\<lambda>p. snd (drain_tx p)) ports) ds)"
    by (simp add: pump_def drain_ports_decisions ds_def)
  show ?thesis using deliver_nth [OF d, of inject_rx] d unfolding p by (simp add: list_all_iff)
qed

theorem hub_round_witness:
  "snd (pump (\<lambda>(t, r). (t, ([], r))) (\<lambda>(t, r) f. (True, (t, r @ [f]))) switch_new [([replicate 14 0xFF], []), ([], [])]) ! 1 =
   ([], [replicate 14 (0xFF :: u8)])"
proof -
  let ?ports = "[([replicate 14 0xFF], []), ([], [])] :: (bytes list \<times> bytes list) list"
  have "fst (decisions 2 switch_new (offered (\<lambda>(t, r). (t, ([], r))) 0 ?ports)) = [(1, replicate 14 0xFF)]"
    by (simp add: offered_def egress_def route_def learn_def is_group_def upt_rec)
  then show ?thesis
    using hub_round [where sw = switch_new and ports = ?ports and drain_tx = "\<lambda>(t, r). (t, ([], r))" and inject_rx = "\<lambda>(t, r) f. (True, (t, r @ [f]))"]
    by (simp add: numeral_2_eq_2)
qed

end
