(* ===== verification/NetAllow.thy ===== *)
theory NetAllow
  imports NetText
begin

unbundle bit_operations_syntax

text \<open>
  The connection policy of the bridge (\<^verbatim>\<open>crates/net/src/allow.rs\<close>): the allowlist, its text form and
  its decisions, and the test for globally routable addresses.  The lemmas give the policy by address
  block, the round trip of the text form, the agreement of the host-only test with the host-and-port
  test, and what an entry with an unreadable port permits.
\<close>

section \<open>Routable addresses\<close>

definition is_globally_routable :: "ipv4 \<Rightarrow> bool" where
  "is_globally_routable ip =
     (let o0 = octets ip ! 0; o1 = octets ip ! 1 in
      \<not> (is_loopback ip \<or> is_private ip \<or> is_link_local ip \<or> is_multicast ip \<or> is_broadcast ip \<or> is_unspecified ip \<or>
         o0 = 0 \<or> (o0 = 100 \<and> 64 \<le> o1 \<and> o1 \<le> 127) \<or> 240 \<le> o0))"

section \<open>The allowlist\<close>

datatype allow_entry = Anything | Host (entry_host: ustring) (entry_port: "u16 option")

record allowlist =
  entries :: "allow_entry list"

definition parse_entry :: "ustring \<Rightarrow> allow_entry" where
  "parse_entry raw =
     (let s = trim raw in
      if s = [42] then Anything
      else case rsplit_once 58 s of
        Some (h, p) \<Rightarrow> Host h (if p = [42] then None else parse_u16 p)
      | None \<Rightarrow> Host s None)"

definition separator :: "nat \<Rightarrow> bool" where "separator c \<longleftrightarrow> c = 44 \<or> c = 10"

definition allow_parse :: "ustring \<Rightarrow> allowlist" where
  "allow_parse raw = \<lparr>entries = map parse_entry (filter (\<lambda>s. trim s \<noteq> []) (split_on separator raw))\<rparr>"

definition allow_from_env :: "ustring option \<Rightarrow> allowlist" where
  "allow_from_env var = allow_parse (case var of Some v \<Rightarrow> v | None \<Rightarrow> [])"

definition allow_is_empty :: "allowlist \<Rightarrow> bool" where
  "allow_is_empty al = (entries al = [])"

definition allows_anything :: "allowlist \<Rightarrow> bool" where
  "allows_anything al = list_ex (\<lambda>e. e = Anything) (entries al)"

fun entry_permits :: "ustring \<Rightarrow> u16 \<Rightarrow> allow_entry \<Rightarrow> bool" where
  "entry_permits host port Anything = True"
| "entry_permits host port (Host h p) =
     (eq_ignore_ascii_case h host \<and> (case p of None \<Rightarrow> True | Some pp \<Rightarrow> pp = port))"

definition permits :: "allowlist \<Rightarrow> ustring \<Rightarrow> u16 \<Rightarrow> bool" where
  "permits al host port = list_ex (entry_permits host port) (entries al)"

fun entry_permits_host :: "ustring \<Rightarrow> allow_entry \<Rightarrow> bool" where
  "entry_permits_host host Anything = True"
| "entry_permits_host host (Host h p) = eq_ignore_ascii_case h host"

definition permits_host :: "allowlist \<Rightarrow> ustring \<Rightarrow> bool" where
  "permits_host al host = list_ex (entry_permits_host host) (entries al)"

fun add_name :: "ustring list \<Rightarrow> allow_entry \<Rightarrow> ustring list" where
  "add_name names Anything = names"
| "add_name names (Host h p) =
     (let lc = to_ascii_lowercase h in if lc \<in> set names then names else names @ [lc])"

definition allow_hosts :: "allowlist \<Rightarrow> ustring list" where
  "allow_hosts al = foldl add_name [] (entries al)"

section \<open>The policy by address block\<close>

text \<open>The blocks the policy refuses.\<close>

definition refused_blocks :: "(ipv4 \<times> nat) list" where
  "refused_blocks =
     [((0, 0, 0, 0), 8), ((10, 0, 0, 0), 8), ((100, 64, 0, 0), 10), ((127, 0, 0, 0), 8), ((169, 254, 0, 0), 16),
      ((172, 16, 0, 0), 12), ((192, 168, 0, 0), 16), ((224, 0, 0, 0), 4), ((240, 0, 0, 0), 4)]"

lemma addr32_high:
  "drop_bit 24 (addr32 (a, b, c, d)) = ucast a"
  "drop_bit 16 (addr32 (a, b, c, d)) = ucast (of_be16 a b)"
  by (rule bit_word_eqI, auto simp: of_le32_def of_be16_def of_le16_def bit_simps dest: bit_u8_high)+

lemma block_octet:
  assumes "n \<le> 8"
  shows "in_block (a, b, c, d) ((a', b', c', d'), n) \<longleftrightarrow> unat a div 2 ^ (8 - n) = unat a' div 2 ^ (8 - n)"
proof -
  have e: "drop_bit (32 - n) x = drop_bit (8 - n) (drop_bit 24 x)" for x :: u32 using assms by (simp add: add.commute)
  have u: "drop_bit (8 - n) (ucast x :: u32) = ucast (drop_bit (8 - n) x)" for x :: u8
    by (rule bit_word_eqI) (auto simp: bit_simps dest: bit_u8_high)
  show ?thesis
    by (simp add: in_block_def e addr32_high(1) u del: addr32.simps drop_bit_drop_bit)
      (simp add: word_unat_eq_iff unat_ucast_wider unat_drop_bit)
qed

lemma pair_div:
  assumes "k \<le> 8" "y < 256" "y' < (256 :: nat)"
  shows "(x * 256 + y) div 2 ^ k = (x' * 256 + y') div 2 ^ k \<longleftrightarrow> x = x' \<and> y div 2 ^ k = y' div 2 ^ k"
proof -
  define q :: nat where "q = 2 ^ (8 - k)"
  have q: "256 = q * 2 ^ k" "0 < q" using assms(1) by (simp_all add: q_def power_add [symmetric])
  have d: "(z * 256 + w) div 2 ^ k = z * q + w div 2 ^ k" for z w by (simp add: q(1) mult.assoc [symmetric])
  have b: "y div 2 ^ k < q" "y' div 2 ^ k < q" using assms(2,3) by (simp_all add: q(1) div_less_iff_less_mult)
  have "x = x' \<and> y div 2 ^ k = y' div 2 ^ k" if "x * q + y div 2 ^ k = x' * q + y' div 2 ^ k"
    using arg_cong [OF that, of "\<lambda>n. n div q"] arg_cong [OF that, of "\<lambda>n. n mod q"] b q(2) by simp
  then show ?thesis unfolding d by auto
qed

lemma block_pair:
  assumes "8 \<le> n" "n \<le> 16"
  shows "in_block (a, b, c, d) ((a', b', c', d'), n) \<longleftrightarrow> a = a' \<and> unat b div 2 ^ (16 - n) = unat b' div 2 ^ (16 - n)"
proof -
  have e: "drop_bit (32 - n) x = drop_bit (16 - n) (drop_bit 16 x)" for x :: u32 using assms by (simp add: add.commute)
  have u: "drop_bit (16 - n) (ucast x :: u32) = ucast (drop_bit (16 - n) x)" for x :: u16
    by (rule bit_word_eqI) (auto simp: bit_simps dest: bit_imp_le_length)
  have "in_block (a, b, c, d) ((a', b', c', d'), n) \<longleftrightarrow>
    (unat a * 256 + unat b) div 2 ^ (16 - n) = (unat a' * 256 + unat b') div 2 ^ (16 - n)"
    by (simp add: in_block_def e addr32_high(2) u del: addr32.simps drop_bit_drop_bit)
      (simp add: word_unat_eq_iff unat_ucast_wider unat_drop_bit unat_of_be16)
  also have "\<dots> \<longleftrightarrow> a = a' \<and> unat b div 2 ^ (16 - n) = unat b' div 2 ^ (16 - n)"
    using assms unat_bounds(1) by (simp add: pair_div word_unat_eq_iff)
  finally show ?thesis .
qed

lemma div_range: "n div k = m \<longleftrightarrow> m * k \<le> n \<and> n < m * k + k" if "0 < k" for n k m :: nat
  using that div_nat_eqI [of k m n] div_times_less_eq_dividend [of n k] dividend_less_div_times [of k n] by (auto simp: mult.commute)

text \<open>
  An address is globally routable exactly when it lies in none of the refused blocks 0/8, 10/8,
  100.64/10, 127/8, 169.254/16, 172.16/12, 192.168/16, 224/4 and 240/4, compared as prefixes of the
  32-bit address.
\<close>

theorem routable_blocks: "is_globally_routable ip = (\<not> list_ex (in_block ip) refused_blocks)"
proof (cases ip)
  case (fields a b c d)
  have u: "unat a < 256" "unat b < 256" using unat_bounds(1) by simp_all
  note b = block_octet block_pair div_range word_le_nat_alt
  have blk: "in_block ip ((0, 0, 0, 0), 8) \<longleftrightarrow> a = 0" "in_block ip ((10, 0, 0, 0), 8) \<longleftrightarrow> a = 10"
    "in_block ip ((100, 64, 0, 0), 10) \<longleftrightarrow> a = 100 \<and> 64 \<le> b \<and> b \<le> 127" "in_block ip ((127, 0, 0, 0), 8) \<longleftrightarrow> a = 127"
    "in_block ip ((169, 254, 0, 0), 16) \<longleftrightarrow> a = 169 \<and> b = 254"
    "in_block ip ((172, 16, 0, 0), 12) \<longleftrightarrow> a = 172 \<and> 16 \<le> b \<and> b \<le> 31"
    "in_block ip ((192, 168, 0, 0), 16) \<longleftrightarrow> a = 192 \<and> b = 168"
    "in_block ip ((224, 0, 0, 0), 4) \<longleftrightarrow> 224 \<le> a \<and> a \<le> 239" "in_block ip ((240, 0, 0, 0), 4) \<longleftrightarrow> 240 \<le> a"
    unfolding fields using u by (auto simp: b word_unat_eq_iff)
  show ?thesis unfolding refused_blocks_def list_ex_Cons_iff list_ex_Nil_iff blk
    by (simp add: fields is_globally_routable_def Let_def) auto
qed

section \<open>Text form\<close>

text \<open>How an entry is written, and which hosts survive being written.\<close>

fun entry_text :: "allow_entry \<Rightarrow> ustring" where
  "entry_text Anything = [42]"
| "entry_text (Host h (Some p)) = h @ [58] @ decimal (unat p)"
| "entry_text (Host h None) = h @ [58, 42]"

definition plain_host :: "ustring \<Rightarrow> bool" where
  "plain_host h \<longleftrightarrow> h \<noteq> [] \<and> (\<forall>c \<in> set h. \<not> separator c) \<and> \<not> white_space (hd h)"

fun plain_entry :: "allow_entry \<Rightarrow> bool" where
  "plain_entry Anything = True"
| "plain_entry (Host h p) = plain_host h"

lemma digit_plain: "48 \<le> c \<Longrightarrow> c \<le> 57 \<Longrightarrow> \<not> separator c \<and> \<not> white_space c \<and> c \<noteq> 58"
  by (simp add: separator_def white_space_def)

lemma decimal_plain:
  "\<forall>c \<in> set (decimal n). \<not> separator c \<and> \<not> white_space c" "58 \<notin> set (decimal n)" "42 \<notin> set (decimal n)"
  using decimal_digits [of n] digit_plain by fastforce+

lemma entry_text_trim: "plain_entry e \<Longrightarrow> trim (entry_text e) = entry_text e \<and> entry_text e \<noteq> []"
proof (cases e rule: entry_text.cases)
  case (2 h p)
  assume "plain_entry e"
  moreover have "\<not> white_space (last (decimal (unat p)))" using decimal_plain(1) [of "unat p"] by simp
  ultimately show ?thesis using 2 by (intro conjI trim_id) (simp_all add: plain_host_def)
next
  case (3 h)
  assume "plain_entry e"
  then show ?thesis using 3 by (intro conjI trim_id) (simp_all add: plain_host_def white_space_def)
qed (simp add: trim_id white_space_def)

lemma entry_text_seps: "plain_entry e \<Longrightarrow> \<forall>c \<in> set (entry_text e). \<not> separator c"
proof (cases e rule: entry_text.cases)
  case (2 h p)
  assume "plain_entry e"
  then show ?thesis using 2 decimal_plain(1) [of "unat p"] by (auto simp: plain_host_def separator_def)
qed (auto simp: plain_host_def separator_def)

lemma parse_entry_text: "plain_entry e \<Longrightarrow> parse_entry (entry_text e) = e"
proof (cases e rule: entry_text.cases)
  case (2 h p)
  assume "plain_entry e"
  moreover have "decimal (unat p) \<noteq> [42]" using decimal_plain(3) [of "unat p"] by auto
  moreover have "h @ 58 # decimal (unat p) \<noteq> [42]" by (cases h) simp_all
  ultimately show ?thesis
    using 2 entry_text_trim [of e] decimal_plain(2) [of "unat p"] by (simp add: parse_entry_def Let_def text_simps)
next
  case (3 h)
  assume "plain_entry e"
  moreover have "h @ [58, 42] \<noteq> [42]" by (cases h) simp_all
  ultimately show ?thesis
    using 3 entry_text_trim [of e] rsplit_once_at [of 58 "[42]" h] by (simp add: parse_entry_def Let_def)
qed (simp add: parse_entry_def trim_id white_space_def)

text \<open>
  The text form of an allowlist is faithful.  Writing entries as \<^verbatim>\<open>*\<close>, \<^verbatim>\<open>host:port\<close> and \<^verbatim>\<open>host:*\<close>,
  separated by commas, and parsing the text gives the entries back; a text with nothing but white
  space between its separators parses to the empty list, which permits no host and no port.
\<close>

theorem allow_text_roundtrip:
  "(\<forall>es. es \<noteq> [] \<and> list_all plain_entry es \<longrightarrow> entries (allow_parse (join [44] (map entry_text es))) = es) \<and>
   (\<forall>raw h p. (\<forall>c \<in> set raw. separator c \<or> white_space c) \<longrightarrow>
      allow_is_empty (allow_parse raw) \<and> \<not> permits (allow_parse raw) h p \<and> \<not> permits_host (allow_parse raw) h)"
proof (intro conjI allI impI)
  fix es assume es: "es \<noteq> [] \<and> list_all plain_entry es"
  then have "split_on separator (join [44] (map entry_text es)) = map entry_text es"
    using entry_text_seps by (intro split_on_join) (auto simp: list_all_iff, simp add: separator_def)
  moreover have "filter (\<lambda>s. trim s \<noteq> []) (map entry_text es) = map entry_text es"
    using es entry_text_trim by (auto simp: filter_id_conv list_all_iff)
  ultimately show "entries (allow_parse (join [44] (map entry_text es))) = es"
    using es by (simp add: allow_parse_def comp_def list_all_iff map_idI parse_entry_text)
next
  fix raw :: ustring and h p assume raw: "\<forall>c \<in> set raw. separator c \<or> white_space c"
  have "trim w = []" if "w \<in> set (split_on separator raw)" for w
    using split_on_seps [of separator raw] that raw by (intro trim_blank) blast
  then have e: "entries (allow_parse raw) = []" by (simp add: allow_parse_def)
  show "allow_is_empty (allow_parse raw)" "\<not> permits (allow_parse raw) h p" "\<not> permits_host (allow_parse raw) h"
    by (simp_all add: e allow_is_empty_def permits_def permits_host_def)
qed

theorem allow_text_roundtrip_witness:
  "entries (allow_parse (join [44] (map entry_text [Host [97, 46, 98] (Some 80), Anything]))) = [Host [97, 46, 98] (Some 80), Anything] \<and>
   \<not> permits (allow_parse [32, 44, 10]) [97] 80"
proof -
  note r = conjunct1 [OF allow_text_roundtrip, rule_format] conjunct2 [OF allow_text_roundtrip, rule_format, THEN conjunct2, THEN conjunct1]
  show ?thesis by (intro conjI r) (auto simp: plain_host_def separator_def white_space_def)
qed

section \<open>Decisions\<close>

lemma permits_host_iff: "permits_host al h \<longleftrightarrow> (\<exists>p. permits al h p)"
proof -
  have "entry_permits_host h e \<longleftrightarrow> (\<exists>p. entry_permits h p e)" for e
    by (cases e) (auto split: option.split intro: exI [of _ "the (entry_port e)"])
  then show ?thesis by (auto simp: permits_host_def permits_def list_ex_iff)
qed

lemma permits_case: "eq_ignore_ascii_case a b \<Longrightarrow> permits al a p = permits al b p"
proof -
  assume "eq_ignore_ascii_case a b"
  then have "entry_permits a p e = entry_permits b p e" for e
    by (cases e) (simp_all add: eq_ignore_ascii_case_def)
  then show ?thesis by (simp add: permits_def list_ex_iff)
qed

lemma add_names: "set (foldl add_name ns es) = set ns \<union> {to_ascii_lowercase h | h p. Host h p \<in> set es}"
proof (induction es arbitrary: ns)
  case (Cons e es)
  then show ?case by (cases e) (auto simp: Let_def)
qed simp

lemma add_names_distinct: "distinct ns \<Longrightarrow> distinct (foldl add_name ns es)"
proof (induction es arbitrary: ns)
  case (Cons e es)
  then show ?case by (cases e) (simp_all add: Let_def)
qed simp

text \<open>
  The decisions of the allowlist.  The host-only test used before resolving a name accepts exactly
  the names for which some port is permitted; case does not matter; the list of hosts to resolve in
  advance has no duplicates and holds exactly the lower-cased named hosts, each of which passes the
  host-only test.
\<close>

theorem allow_decisions:
  "(permits_host al h \<longleftrightarrow> (\<exists>p. permits al h p)) \<and>
   permits al (to_ascii_lowercase h) port = permits al h port \<and>
   distinct (allow_hosts al) \<and>
   set (allow_hosts al) = {to_ascii_lowercase n | n p. Host n p \<in> set (entries al)} \<and>
   list_all (permits_host al) (allow_hosts al)"
proof (intro conjI)
  show s: "set (allow_hosts al) = {to_ascii_lowercase n | n p. Host n p \<in> set (entries al)}"
    by (simp add: allow_hosts_def add_names)
  have "permits_host al (to_ascii_lowercase n)" if "Host n p \<in> set (entries al)" for n p
    unfolding permits_host_def list_ex_iff using that by (intro bexI [of _ "Host n p"]) simp_all
  then show "list_all (permits_host al) (allow_hosts al)" by (auto simp: list_all_iff s)
  show "distinct (allow_hosts al)" by (simp add: allow_hosts_def add_names_distinct)
  show "permits al (to_ascii_lowercase h) port = permits al h port" by (intro permits_case) simp
qed (rule permits_host_iff)

text \<open>
  An entry whose port cannot be read opens the host on every port: the parse error becomes the
  value that stands for any port.  So \<^verbatim>\<open>host:99999\<close> or a mistyped \<^verbatim>\<open>host:8o80\<close> permits more than
  \<^verbatim>\<open>host:80\<close> does.
\<close>

theorem bad_port_opens_host:
  assumes "h \<noteq> []" "\<not> white_space (hd h)" "p \<noteq> []" "\<not> white_space (last p)"
    and "\<forall>c \<in> set (h @ p). \<not> separator c" "58 \<notin> set p" "parse_u16 p = None"
  shows "permits (allow_parse (h @ [58] @ p)) h port"
proof -
  let ?s = "h @ 58 # p"
  have t: "trim ?s = ?s" using assms(1-4) by (intro trim_id) simp_all
  have "split_on separator ?s = [?s]" using assms(5) by (intro split_on_none) (auto simp: separator_def)
  moreover have "?s \<noteq> [42]" by (cases h) simp_all
  ultimately have "entries (allow_parse ?s) = [Host h None]"
    using t assms(6,7) by (simp add: allow_parse_def parse_entry_def Let_def text_simps)
  then show ?thesis by (simp add: permits_def)
qed

theorem bad_port_opens_host_witness:
  "permits (allow_parse ([104] @ [58] @ [57, 57, 57, 57, 57])) [104] 22"
  by (rule bad_port_opens_host) (simp_all add: white_space_def separator_def parse_u16_def)

end
