(* ===== verification/NetDns.thy ===== *)
theory NetDns
  imports NetText
begin

unbundle bit_operations_syntax

text \<open>
  The internet checksum (\<^verbatim>\<open>crates/net/src/util.rs\<close>) and the DNS message codec
  (\<^verbatim>\<open>crates/net/src/dns.rs\<close>).  The name parser follows compression pointers, so its loop is a
  recursion whose measure counts the jumps and the name bytes it may still take.  The lemmas show that
  a message carrying its checksum sums to zero, that parsed names are bounded, that the queries of a
  resolver parse to what was asked, and that the answers decode to what was sent.
\<close>

section \<open>The internet checksum\<close>

fun sum_words :: "u32 \<Rightarrow> bytes \<Rightarrow> u32" where
  "sum_words acc (a # b # r) = sum_words (acc + ucast (of_be16 a b)) r"
| "sum_words acc [a] = acc + push_bit 8 (ucast a)"
| "sum_words acc [] = acc"

lemma unat_fold_step: "unat ((s AND 0xFFFF) + drop_bit 16 s) = unat s mod 65536 + unat s div 65536" for s :: u32
proof -
  have a: "unat (s AND 0xFFFF) = unat s mod 65536"
    using unsigned_take_bit_eq [of 16 s, where ?'a = nat] take_bit_eq_mod [of 16 "unat s"] by (simp add: take_bit_eq_mask mask_numeral)
  have "unat s div 65536 < 65536" using unat_bounds(3) [of s] by (simp add: div_less_iff_less_mult)
  then show ?thesis by (simp add: unat_word_ariths a unat_drop_bit)
qed

function fold_carry :: "u32 \<Rightarrow> u32" where
  "fold_carry s = (if drop_bit 16 s \<noteq> 0 then fold_carry ((s AND 0xFFFF) + drop_bit 16 s) else s)"
  by pat_completeness auto
termination
proof (relation "measure unat")
  fix s :: u32 assume "drop_bit 16 s \<noteq> 0"
  then have "1 \<le> unat s div 65536" using unat_drop_bit [of 16 s] by (simp add: word_unat_eq_iff)
  then have "unat s mod 65536 + unat s div 65536 < unat s"
    using div_mult_mod_eq [of "unat s" 65536] by linarith
  then show "((s AND 0xFFFF) + drop_bit 16 s, s) \<in> measure unat" by (simp add: unat_fold_step)
qed simp

definition internet_checksum :: "bytes \<Rightarrow> u16" where
  "internet_checksum data = NOT (ucast (fold_carry (sum_words 0 data)))"

section \<open>DNS messages\<close>

definition QTYPE_A :: u16 where "QTYPE_A = 1"
definition QTYPE_AAAA :: u16 where "QTYPE_AAAA = 28"
definition QCLASS_IN :: u16 where "QCLASS_IN = 1"
definition MAX_NAME_LEN :: nat where "MAX_NAME_LEN = 255"

record dns_query =
  q_id :: u16
  recursion_desired :: bool
  q_name :: ustring
  q_type :: u16
  q_class :: u16
  question_wire :: bytes

datatype dns_answer = Addrs "ipv4 list" | NxDomain

function parse_name_loop :: "bytes \<Rightarrow> nat \<Rightarrow> nat option \<Rightarrow> nat \<Rightarrow> nat \<Rightarrow> ustring list \<Rightarrow> (ustring \<times> nat) option" where
  "parse_name_loop buf pos after jumps tot labels =
     (if \<not> pos < length buf then None
      else if (buf ! pos) AND 0xC0 = 0xC0 then
        (if \<not> pos + 1 < length buf then None
         else if 16 < jumps + 1 then None
         else parse_name_loop buf (unat ((buf ! pos) AND 0x3F) * 256 + unat (buf ! (pos + 1)))
                (Some (case after of None \<Rightarrow> pos + 2 | Some a \<Rightarrow> a)) (jumps + 1) tot labels)
      else if (buf ! pos) AND 0xC0 \<noteq> 0 then None
      else if buf ! pos = 0 then Some (join [46] labels, case after of None \<Rightarrow> pos + 1 | Some a \<Rightarrow> a)
      else if length buf < pos + 1 + unat (buf ! pos) then None
      else if MAX_NAME_LEN < tot + (unat (buf ! pos) + 1) then None
      else case from_utf8 (take (unat (buf ! pos)) (drop (pos + 1) buf)) of
        None \<Rightarrow> None
      | Some l \<Rightarrow> parse_name_loop buf (pos + 1 + unat (buf ! pos)) after jumps (tot + (unat (buf ! pos) + 1))
                   (labels @ [to_ascii_lowercase l]))"
  by pat_completeness auto

termination
  by (relation "measure (\<lambda>(buf, pos, after, jumps, tot, labels). (17 - jumps) + (256 - tot))")
    (auto simp: MAX_NAME_LEN_def)

declare parse_name_loop.simps [simp del] fold_carry.simps [simp del]

definition parse_name :: "bytes \<Rightarrow> nat \<Rightarrow> (ustring \<times> nat) option" where
  "parse_name buf start = parse_name_loop buf start None 0 0 []"

definition parse_query :: "bytes \<Rightarrow> dns_query option" where
  "parse_query payload =
     (if length payload < 12 then None
      else
        (let flags = getb16 payload 2 in
         if flags AND 0x8000 \<noteq> 0 then None
         else if (drop_bit 11 flags) AND 0xF \<noteq> 0 then None
         else if getb16 payload 4 \<noteq> 1 then None
         else
           (case parse_name payload 12 of
              None \<Rightarrow> None
            | Some (name, after_name) \<Rightarrow>
                if length payload < after_name + 4 then None
                else Some \<lparr>q_id = getb16 payload 0, recursion_desired = (flags AND 0x0100 \<noteq> 0), q_name = name,
                  q_type = getb16 payload after_name, q_class = getb16 payload (after_name + 2),
                  question_wire = drop 12 (take (after_name + 4) payload)\<rparr>)))"

definition answer_rr :: "ipv4 \<Rightarrow> bytes" where
  "answer_rr ip = [0xC0, 0x0C] @ be16 QTYPE_A @ be16 QCLASS_IN @ be32 60 @ be16 4 @ octets ip"

definition build_response :: "dns_query \<Rightarrow> dns_answer \<Rightarrow> bytes" where
  "build_response query answer =
     (let (rcode, addrs) = (case answer of Addrs a \<Rightarrow> (0 :: u16, a) | NxDomain \<Rightarrow> (3, []));
          ancount = of_nat (length addrs) :: u16;
          flags0 = 0x8000 OR 0x0400 OR 0x0080 :: u16;
          flags1 = (if recursion_desired query then flags0 OR 0x0100 else flags0);
          flags = flags1 OR (rcode AND 0x000F)
      in be16 (q_id query) @ be16 flags @ be16 1 @ be16 ancount @ be16 0 @ be16 0 @ question_wire query @
         concat (map answer_rr addrs))"

section \<open>The checksum is exact\<close>

text \<open>The one's-complement sum over the naturals.\<close>

fun word_total :: "bytes \<Rightarrow> nat" where
  "word_total (a # b # r) = unat (of_be16 a b) + word_total r"
| "word_total [a] = unat a * 256"
| "word_total [] = 0"

lemma word_total_append: "even (length xs) \<Longrightarrow> word_total (xs @ ys) = word_total xs + word_total ys"
  by (induction xs rule: word_total.induct) simp_all

lemma word_total_bound: "word_total xs \<le> 65535 * ((length xs + 1) div 2)"
proof (induction xs rule: word_total.induct)
  case (1 a b r)
  then show ?case using unat_bounds(2) [of "of_be16 a b"] by simp
next
  case (2 a)
  then show ?case using unat_bounds(1) [of a] by simp
qed simp

lemma sum_words_total: "unat (sum_words acc xs) = (unat acc + word_total xs) mod 2 ^ 32"
proof (induction acc xs rule: sum_words.induct)
  case (1 acc a b r)
  then show ?case by (simp add: unat_word_ariths unat_ucast_wider mod_simps add.assoc)
next
  case (2 acc a)
  then show ?case
    using unat_bounds(1) [of a] by (simp add: unat_word_ariths push_bit_eq_mult unat_ucast_wider mult.commute)
qed (simp add: unat_bounds(3) [simplified])

lemma fold_carry_value: "unat (fold_carry s) = (if unat s = 0 then 0 else (unat s - 1) mod 65535 + 1)"
proof (induction s rule: fold_carry.induct)
  case (1 s)
  let ?n = "unat s"
  show ?case
  proof (cases "drop_bit 16 s = 0")
    case True
    then have "?n div 65536 = 0" using unat_drop_bit [of 16 s] by simp
    then have "?n < 65536" by (simp add: div_eq_0_iff)
    then show ?thesis using True by (subst fold_carry.simps) (auto simp: word_unat_eq_iff)
  next
    case False
    then have q: "1 \<le> ?n div 65536" using unat_drop_bit [of 16 s] by (simp add: word_unat_eq_iff)
    let ?m = "?n mod 65536 + ?n div 65536"
    have "?n - 1 = ?m - 1 + 65535 * (?n div 65536)" using q div_mult_mod_eq [of ?n 65536] by linarith
    then have "(?n - 1) mod 65535 = (?m - 1) mod 65535" by simp
    moreover have "unat (fold_carry s) = (if ?m = 0 then 0 else (?m - 1) mod 65535 + 1)"
      using 1 [OF False] False by (subst fold_carry.simps) (simp only: unat_fold_step if_True simp_thms)
    moreover have "?m \<noteq> 0" "?n \<noteq> 0" using q by auto
    ultimately show ?thesis by simp
  qed
qed

lemma checksum_value:
  assumes "length xs < 131071"
  shows "unat (internet_checksum xs) = (if word_total xs = 0 then 65535 else 65534 - (word_total xs - 1) mod 65535)"
proof -
  have "word_total xs < 2 ^ 32" using word_total_bound [of xs] assms by simp
  then have s: "unat (sum_words 0 xs) = word_total xs" by (simp add: sum_words_total)
  let ?f = "fold_carry (sum_words 0 xs)"
  have f: "unat ?f = (if word_total xs = 0 then 0 else (word_total xs - 1) mod 65535 + 1)" by (simp add: fold_carry_value s)
  then have "unat ?f < 65536" using mod_less_divisor [of 65535 "word_total xs - 1"] by simp
  then have "unat (ucast ?f :: u16) = unat ?f" by (simp add: unsigned_ucast_eq take_bit_eq_mod)
  moreover have "unat (NOT x) = 65535 - unat x" for x :: u16
    using unat_sub [of x "- 1"] by (simp add: not_eq_complement minus_diff_commute [of x 1] unsigned_minus_1_eq_mask mask_eq_exp_minus_1)
  ultimately show ?thesis by (simp add: internet_checksum_def f)
qed

lemma checksum_zero_iff:
  assumes "length ys < 131071"
  shows "internet_checksum ys = 0 \<longleftrightarrow> word_total ys \<noteq> 0 \<and> 65535 dvd word_total ys"
proof (cases "word_total ys")
  case (Suc n)
  have "65535 dvd Suc n \<longleftrightarrow> n mod 65535 = 65534" by (simp add: dvd_eq_mod_eq_0 mod_Suc)
  moreover have "n mod 65535 \<le> 65534" using mod_less_divisor [of 65535 n] by simp
  ultimately show ?thesis using checksum_value [OF assms] Suc by (auto simp: word_unat_eq_iff)
qed (use checksum_value [OF assms] in \<open>simp add: word_unat_eq_iff\<close>)

lemma checksum_fill:
  assumes "length pre + length post < 131069" "even (length pre)"
  shows "internet_checksum (pre @ be16 (internet_checksum (pre @ [0, 0] @ post)) @ post) = 0"
proof -
  let ?t = "word_total pre + word_total post" and ?ck = "internet_checksum (pre @ [0, 0] @ post)"
  have t0: "word_total (pre @ [0, 0] @ post) = ?t" using assms(2) by (simp add: word_total_append unat_of_be16)
  have t1: "word_total (pre @ be16 ?ck @ post) = ?t + unat ?ck" using assms(2) by (simp add: word_total_append be16_def)
  have ck: "unat ?ck = (if ?t = 0 then 65535 else 65534 - (?t - 1) mod 65535)"
    using checksum_value [of "pre @ [0, 0] @ post"] assms(1) unfolding t0 by simp
  have "?t + unat ?ck \<noteq> 0 \<and> 65535 dvd ?t + unat ?ck"
  proof (cases "?t")
    case (Suc n)
    have "n mod 65535 \<le> 65534" using mod_less_divisor [of 65535 n] by simp
    moreover have "unat ?ck = 65534 - n mod 65535" using ck Suc by simp
    ultimately have "?t + unat ?ck = 65535 * (n div 65535) + 65535" using Suc div_mult_mod_eq [of n 65535] by linarith
    then show ?thesis by (simp only:) simp
  qed (use ck in simp)
  then show ?thesis using checksum_zero_iff [of "pre @ be16 ?ck @ post"] t1 assms(1) by simp
qed

text \<open>
  The internet checksum is the RFC 1071 checksum.  A message is accepted (sums to zero) exactly
  when its big-endian words have a non-zero total divisible by 65535; and storing the checksum computed
  with a zeroed field, at any even offset, makes the message acceptable.  The length bound keeps the
  32-bit accumulator from wrapping.
\<close>

theorem checksum_valid:
  assumes "length xs < 131071" "length pre + length post < 131069" "even (length pre)"
  shows "(internet_checksum xs = 0 \<longleftrightarrow> word_total xs \<noteq> 0 \<and> 65535 dvd word_total xs) \<and>
    internet_checksum (pre @ be16 (internet_checksum (pre @ [0, 0] @ post)) @ post) = 0"
  using checksum_zero_iff [OF assms(1)] checksum_fill [OF assms(2,3)] by (rule conjI)

theorem checksum_valid_witness:
  "internet_checksum ([0x45, 0x00] @ be16 (internet_checksum ([0x45, 0x00] @ [0, 0] @ [0x11])) @ [0x11]) = 0 \<and>
   (internet_checksum [0xFF, 0xFF] = 0 \<longleftrightarrow> word_total [0xFF, 0xFF] \<noteq> 0 \<and> 65535 dvd word_total [0xFF, 0xFF])"
  using checksum_valid [of "[0xFF, 0xFF]" "[0x45, 0x00]" "[0x11]"] by simp

section \<open>Parsed names are bounded\<close>

definition wire_len :: "ustring list \<Rightarrow> nat" where
  "wire_len ls = sum_list (map (\<lambda>l. length l + 1) ls)"

lemma length_join: "length (join [46] ls) \<le> wire_len ls - 1"
  by (induction "[46 :: nat]" ls rule: join.induct) (simp_all add: wire_len_def)

lemma lower_join: "\<forall>l \<in> set ls. to_ascii_lowercase l = l \<Longrightarrow> to_ascii_lowercase (join [46] ls) = join [46] ls"
  by (induction "[46 :: nat]" ls rule: join.induct) (simp_all add: to_ascii_lowercase_def ascii_lower_def)

lemma parse_name_loop_bounds:
  assumes "parse_name_loop buf pos after jumps tot labels = Some (name, e)" "wire_len labels \<le> tot" "tot \<le> 255"
    and "\<forall>l \<in> set labels. to_ascii_lowercase l = l"
  shows "length name \<le> 254 \<and> to_ascii_lowercase name = name \<and>
    (case after of Some a \<Rightarrow> e = a | None \<Rightarrow> pos < e \<and> e \<le> length buf)"
  using assms
proof (induction buf pos after jumps tot labels rule: parse_name_loop.induct)
  case (1 buf pos after jumps tot labels)
  have pos: "pos < length buf" using 1(3) by (subst (asm) parse_name_loop.simps) (simp split: if_splits)
  consider (jump) "(buf ! pos) AND 0xC0 = 0xC0" | (root) "buf ! pos = 0" | (label) "(buf ! pos) AND 0xC0 = 0" "buf ! pos \<noteq> 0"
    using 1(3) by (subst (asm) parse_name_loop.simps) (auto split: if_splits)
  then show ?case
  proof cases
    case jump
    then have j: "pos + 1 < length buf" "\<not> 16 < jumps + 1"
      "parse_name_loop buf (unat ((buf ! pos) AND 0x3F) * 256 + unat (buf ! (pos + 1)))
         (Some (case after of None \<Rightarrow> pos + 2 | Some a \<Rightarrow> a)) (jumps + 1) tot labels = Some (name, e)"
      using 1(3) pos by (subst (asm) parse_name_loop.simps; simp split: if_splits)+
    show ?thesis using 1(1) [OF _ jump _ _ j(3) 1(4-6)] pos j(1,2) by (auto split: option.splits)
  next
    case root
    then have "name = join [46] labels" "e = (case after of None \<Rightarrow> pos + 1 | Some a \<Rightarrow> a)"
      using 1(3) pos by (subst (asm) parse_name_loop.simps; simp)+
    then show ?thesis using length_join [of labels] lower_join 1(4-6) pos by (simp split: option.splits)
  next
    case label
    let ?n = "unat (buf ! pos)"
    have np: "(buf ! pos) AND 0xC0 \<noteq> 0xC0" using label(1) by simp
    from label np 1(3) pos obtain l where
      l: "\<not> length buf < pos + 1 + ?n" "\<not> MAX_NAME_LEN < tot + (?n + 1)" "from_utf8 (take ?n (drop (pos + 1) buf)) = Some l"
      "parse_name_loop buf (pos + 1 + ?n) after jumps (tot + (?n + 1)) (labels @ [to_ascii_lowercase l]) = Some (name, e)"
      by (subst (asm) parse_name_loop.simps) (simp split: if_splits option.splits)
    have "length l \<le> ?n" using from_utf8_length [OF l(3)] by simp
    then have w: "wire_len (labels @ [to_ascii_lowercase l]) \<le> tot + (?n + 1)" "tot + (?n + 1) \<le> 255"
      "\<forall>x \<in> set (labels @ [to_ascii_lowercase l]). to_ascii_lowercase x = x"
      using 1(4,6) l(2) by (simp_all add: wire_len_def MAX_NAME_LEN_def) (simp_all add: to_ascii_lowercase_def)
    have "\<not> \<not> pos < length buf" using pos by simp
    from 1(2) [OF this np _ label(2) l(1,2,3,4) w] label(1) show ?thesis by (auto split: option.splits)
  qed
qed

text \<open>
  C30: The query parser is total and safe on every packet.  Its name loop ends (sixteen jumps, 255 name
  bytes); when it accepts, the packet is a standard query of one question, the name has at most 254
  characters and no capital letters, and the echoed question is the packet's bytes from offset 12 up to
  and including type and class, at least five of them and never past the end.
\<close>

theorem dns_query_safe:
  assumes "parse_query payload = Some q"
  shows "12 \<le> length payload \<and> \<not> bit (getb16 payload 2) 15 \<and> getb16 payload 4 = 1 \<and>
    length (q_name q) \<le> 254 \<and> to_ascii_lowercase (q_name q) = q_name q \<and>
    (\<exists>n. 5 \<le> n \<and> 12 + n \<le> length payload \<and> question_wire q = take n (drop 12 payload) \<and>
       q_type q = getb16 payload (12 + n - 4) \<and> q_class q = getb16 payload (12 + n - 2))"
proof -
  from assms obtain name a where p: "12 \<le> length payload" "(getb16 payload 2) AND 0x8000 = 0" "getb16 payload 4 = 1"
    "parse_name payload 12 = Some (name, a)" "a + 4 \<le> length payload" "q_name q = name"
    "question_wire q = drop 12 (take (a + 4) payload)" "q_type q = getb16 payload a" "q_class q = getb16 payload (a + 2)"
    by (auto simp: parse_query_def Let_def split: if_splits option.splits)
  have b: "length name \<le> 254 \<and> to_ascii_lowercase name = name \<and> 12 < a"
    using parse_name_loop_bounds [OF p(4) [unfolded parse_name_def]] by (simp add: wire_len_def)
  have w: "drop 12 (take (a + 4) payload) = take (a - 8) (drop 12 payload)" using b by (simp add: drop_take)
  have "\<not> bit (getb16 payload 2) 15" using p(2) and_mask_bit [of "getb16 payload 2" 15] by simp
  moreover have "12 + (a - 8) - 4 = a" "12 + (a - 8) - 2 = a + 2" "12 + (a - 8) = a + 4" "5 \<le> a - 8" using b by linarith+
  ultimately show ?thesis using p b w by (intro conjI exI [of _ "a - 8"]) (simp_all only:, simp_all)
qed

section \<open>Round trips\<close>

text \<open>The query a resolver sends, and how it reads the reply.\<close>

definition name_wire :: "bytes list \<Rightarrow> bytes" where
  "name_wire labels = concat (map (\<lambda>l. of_nat (length l) # l) labels) @ [0]"

definition query_wire :: "bytes list \<Rightarrow> u16 \<Rightarrow> u16 \<Rightarrow> bytes" where
  "query_wire labels qt qc = name_wire labels @ be16 qt @ be16 qc"

definition query_message :: "u16 \<Rightarrow> bool \<Rightarrow> bytes list \<Rightarrow> u16 \<Rightarrow> u16 \<Rightarrow> bytes" where
  "query_message i rd labels qt qc =
     be16 i @ be16 (if rd then 0x0100 else 0) @ be16 1 @ be16 0 @ be16 0 @ be16 0 @ query_wire labels qt qc"

definition label_ok :: "bytes \<Rightarrow> bool" where
  "label_ok l \<longleftrightarrow> l \<noteq> [] \<and> length l \<le> 63 \<and> (\<forall>b \<in> set l. b < 0x80)"

definition asked_name :: "bytes list \<Rightarrow> ustring" where
  "asked_name labels = join [46] (map (\<lambda>l. to_ascii_lowercase (map unat l)) labels)"

lemma label_len_word:
  assumes "label_ok l"
  shows "unat (of_nat (length l) :: u8) = length l" "(of_nat (length l) :: u8) AND 0xC0 = 0" "(of_nat (length l) :: u8) \<noteq> 0"
proof -
  show u: "unat (of_nat (length l) :: u8) = length l" using assms by (simp add: label_ok_def unat_of_nat)
  show "(of_nat (length l) :: u8) \<noteq> 0" using u assms by (auto simp: label_ok_def word_unat_eq_iff)
  have "\<not> bit (of_nat (length l) :: u8) n" if "6 \<le> n" for n
    using not_bit_above [of "of_nat (length l) :: u8" 6 n] that u assms by (simp add: label_ok_def)
  moreover have "bit (0xC0 :: u8) n \<Longrightarrow> 6 \<le> n" for n
    by (subgoal_tac "(0xC0 :: u8) = push_bit 6 3") (simp only: bit_push_bit_iff, simp_all)
  ultimately show "(of_nat (length l) :: u8) AND 0xC0 = 0" by (intro bit_word_eqI) (auto simp: bit_simps)
qed

lemma parse_name_loop_wire:
  assumes "list_all label_ok labels" "tot + wire_len (map (map unat) labels) \<le> 255"
  shows "parse_name_loop (pre @ name_wire labels @ post) (length pre) None jumps tot done =
    Some (join [46] (done @ map (\<lambda>l. to_ascii_lowercase (map unat l)) labels), length pre + length (name_wire labels))"
  using assms
proof (induction labels arbitrary: pre tot "done")
  case Nil
  then show ?case by (subst parse_name_loop.simps) (simp add: name_wire_def)
next
  case (Cons l ls)
  let ?buf = "pre @ name_wire (l # ls) @ post"
  have w: "name_wire (l # ls) = of_nat (length l) # l @ name_wire ls" by (simp add: name_wire_def)
  have b: "?buf ! length pre = of_nat (length l)" "take (length l) (drop (length pre + 1) ?buf) = l"
    "?buf = (pre @ of_nat (length l) # l) @ name_wire ls @ post" "length ?buf = length pre + 1 + length l + length (name_wire ls) + length post"
    by (simp_all add: w)
  have l: "label_ok l" and t: "tot + (length l + 1) \<le> 255"
    "tot + (length l + 1) + wire_len (map (map unat) ls) \<le> 255" using Cons(2,3) by (simp_all add: wire_len_def)
  note n = label_len_word [OF l]
  have u: "from_utf8 l = Some (map unat l)" using l by (intro from_utf8_ascii) (simp add: label_ok_def)
  have IH: "parse_name_loop ?buf (length pre + 1 + length l) None jumps (tot + (length l + 1)) (done @ [to_ascii_lowercase (map unat l)]) =
    Some (join [46] ((done @ [to_ascii_lowercase (map unat l)]) @ map (\<lambda>l. to_ascii_lowercase (map unat l)) ls),
      length pre + 1 + length l + length (name_wire ls))"
    using Cons.IH [of "tot + (length l + 1)" "pre @ of_nat (length l) # l" "done @ [to_ascii_lowercase (map unat l)]"] Cons(2) t(2)
    unfolding b(3) by simp
  have "parse_name_loop ?buf (length pre) None jumps tot done =
    parse_name_loop ?buf (length pre + 1 + length l) None jumps (tot + (length l + 1)) (done @ [to_ascii_lowercase (map unat l)])"
    using t(1) by (subst parse_name_loop.simps) (simp only: b(1,2,4) n u, simp add: MAX_NAME_LEN_def)
  then show ?case using IH by (simp add: w)
qed

record reply =
  r_id :: u16
  r_code :: u16
  r_name :: ustring
  r_addrs :: "ipv4 list"

fun decode_rrs :: "nat \<Rightarrow> bytes \<Rightarrow> ipv4 list option" where
  "decode_rrs 0 bs = (if bs = [] then Some [] else None)"
| "decode_rrs (Suc n) bs =
     (if 16 \<le> length bs \<and> take 12 bs = [0xC0, 0x0C] @ be16 1 @ be16 1 @ be32 60 @ be16 4
      then map_option ((#) (bs ! 12, bs ! 13, bs ! 14, bs ! 15)) (decode_rrs n (drop 16 bs)) else None)"

definition decode_reply :: "bytes \<Rightarrow> reply option" where
  "decode_reply bs =
     (if length bs < 12 \<or> \<not> bit (getb16 bs 2) 15 \<or> getb16 bs 4 \<noteq> 1 then None
      else (case parse_name bs 12 of
        None \<Rightarrow> None
      | Some (name, e) \<Rightarrow>
          map_option (\<lambda>ips. \<lparr>r_id = getb16 bs 0, r_code = getb16 bs 2 AND 0xF, r_name = name, r_addrs = ips\<rparr>)
            (decode_rrs (unat (getb16 bs 6)) (drop (e + 4) bs))))"

lemma decode_rrs_answers: "decode_rrs (length ips) (concat (map answer_rr ips)) = Some ips"
proof (induction ips)
  case (Cons ip ips)
  then show ?case by (cases ip) (simp add: answer_rr_def be16_def be32_def QTYPE_A_def QCLASS_IN_def numeral_eq_Suc)
qed simp

lemma getb16_at: "length pre = i \<Longrightarrow> getb16 (pre @ be16 w @ post) i = w"
  by (simp add: getb16_def nth_append be16_def)

lemma header_fields:
  fixes rest :: bytes and a b c d e f :: u16
  defines "m \<equiv> be16 a @ be16 b @ be16 c @ be16 d @ be16 e @ be16 f @ rest"
  shows "getb16 m 0 = a" "getb16 m 2 = b" "getb16 m 4 = c" "getb16 m 6 = d" "12 \<le> length m" "drop 12 m = rest"
  by (simp_all add: m_def getb16_def be16_def)

definition labels_ok :: "bytes list \<Rightarrow> bool" where
  "labels_ok labels \<longleftrightarrow> list_all label_ok labels \<and> wire_len (map (map unat) labels) \<le> 255"

lemma parse_name_after_header:
  fixes rest :: bytes
  assumes "labels_ok labels"
  shows "parse_name (be16 a @ be16 b @ be16 c @ be16 d @ be16 e @ be16 f @ name_wire labels @ rest) 12 =
    Some (asked_name labels, 12 + length (name_wire labels))"
  using parse_name_loop_wire [of labels 0 "be16 a @ be16 b @ be16 c @ be16 d @ be16 e @ be16 f" rest 0 "[]"] assms
  by (simp add: parse_name_def labels_ok_def asked_name_def)

lemma parse_query_message:
  assumes "labels_ok labels"
  shows "parse_query (query_message i rd labels qt qc) =
    Some \<lparr>q_id = i, recursion_desired = rd, q_name = asked_name labels, q_type = qt, q_class = qc,
          question_wire = query_wire labels qt qc\<rparr>"
proof -
  let ?m = "query_message i rd labels qt qc" and ?e = "12 + length (name_wire labels)"
  let ?h = "be16 i @ be16 (if rd then 0x0100 else 0) @ be16 1 @ be16 0 @ be16 0 @ be16 0"
  have m: "?m = be16 i @ be16 (if rd then 0x0100 else 0) @ be16 1 @ be16 0 @ be16 0 @ be16 0 @ name_wire labels @ be16 qt @ be16 qc"
    by (simp add: query_message_def query_wire_def)
  note f = header_fields [of i "if rd then 0x0100 else 0" 1 0 0 0 "name_wire labels @ be16 qt @ be16 qc", folded m]
  have n: "parse_name ?m 12 = Some (asked_name labels, ?e)" unfolding m by (rule parse_name_after_header [OF assms])
  have "getb16 ?m ?e = qt" using getb16_at [of "?h @ name_wire labels" ?e qt "be16 qc"] by (simp add: m)
  moreover have "getb16 ?m (?e + 2) = qc" using getb16_at [of "?h @ name_wire labels @ be16 qt" "?e + 2" qc "[]"] by (simp add: m)
  moreover have "length ?m = ?e + 4" by (simp add: m)
  ultimately show ?thesis using f n by (simp add: parse_query_def query_wire_def Let_def)
qed

lemma wire_length: "length (name_wire labels) = wire_len (map (map unat) labels) + 1"
  by (induction labels) (simp_all add: name_wire_def wire_len_def)

lemma reply_message:
  assumes "labels_ok labels" "bit fl 15" "length as < 65536"
  shows "decode_reply (be16 i @ be16 fl @ be16 1 @ be16 (of_nat (length as)) @ be16 0 @ be16 0 @ query_wire labels qt qc @
      concat (map answer_rr as)) = Some \<lparr>r_id = i, r_code = fl AND 0xF, r_name = asked_name labels, r_addrs = as\<rparr>"
proof -
  let ?r = "be16 qt @ be16 qc @ concat (map answer_rr as)"
  let ?m = "be16 i @ be16 fl @ be16 1 @ be16 (of_nat (length as)) @ be16 0 @ be16 0 @ name_wire labels @ ?r"
  note f = header_fields [of i fl 1 "of_nat (length as)" 0 0 "name_wire labels @ ?r"]
  have n: "parse_name ?m 12 = Some (asked_name labels, 12 + length (name_wire labels))" by (rule parse_name_after_header [OF assms(1)])
  have "drop (12 + length (name_wire labels) + 4) ?m = concat (map answer_rr as)" by simp
  moreover have "unat (of_nat (length as) :: u16) = length as" using assms(3) by (simp add: unat_of_nat)
  ultimately have "decode_reply ?m = Some \<lparr>r_id = i, r_code = fl AND 0xF, r_name = asked_name labels, r_addrs = as\<rparr>"
    using f n assms(2) decode_rrs_answers [of as] by (simp add: decode_reply_def)
  then show ?thesis by (simp add: query_wire_def)
qed

lemma reply_decodes:
  fixes i qt qc :: u16 and rd :: bool
  assumes "labels_ok labels" "length ips < 65536"
  defines "q \<equiv> \<lparr>q_id = i, recursion_desired = rd, q_name = asked_name labels, q_type = qt, q_class = qc,
          question_wire = query_wire labels qt qc\<rparr>"
  shows "decode_reply (build_response q (Addrs ips)) = Some \<lparr>r_id = i, r_code = 0, r_name = asked_name labels, r_addrs = ips\<rparr>"
    "decode_reply (build_response q NxDomain) = Some \<lparr>r_id = i, r_code = 3, r_name = asked_name labels, r_addrs = []\<rparr>"
proof -
  have hb: "bit (0x8580 :: u16) 15" "bit (0x8480 :: u16) 15" "bit (0x8583 :: u16) 15" "bit (0x8483 :: u16) 15"
    by (simp_all add: and_mask_bit [symmetric])
  show "decode_reply (build_response q (Addrs ips)) = Some \<lparr>r_id = i, r_code = 0, r_name = asked_name labels, r_addrs = ips\<rparr>"
    using reply_message [OF assms(1), of "if rd then 0x8580 else 0x8480" ips] assms(2) hb
    by (cases rd) (simp_all add: build_response_def q_def)
  show "decode_reply (build_response q NxDomain) = Some \<lparr>r_id = i, r_code = 3, r_name = asked_name labels, r_addrs = []\<rparr>"
    using reply_message [OF assms(1), of "if rd then 0x8583 else 0x8483" "[]"] hb
    by (cases rd) (simp_all add: build_response_def q_def)
qed

text \<open>
  DNS round trip.  The query a resolver builds for labels of 1 to 63 ASCII bytes (255 in all) parses
  to its id, recursion bit, lower-cased name, type and class; and from the response built for that query
  the resolver decodes its id, the name it asked, the response code and exactly the addresses given.
\<close>

theorem dns_roundtrip:
  assumes "labels_ok labels" "length ips < 65536"
  shows "\<exists>q. parse_query (query_message i rd labels qt qc) = Some q \<and>
    q_id q = i \<and> recursion_desired q = rd \<and> q_name q = asked_name labels \<and> q_type q = qt \<and> q_class q = qc \<and>
    decode_reply (build_response q (Addrs ips)) = Some \<lparr>r_id = i, r_code = 0, r_name = asked_name labels, r_addrs = ips\<rparr> \<and>
    decode_reply (build_response q NxDomain) = Some \<lparr>r_id = i, r_code = 3, r_name = asked_name labels, r_addrs = []\<rparr>"
  using parse_query_message [OF assms(1)] reply_decodes [OF assms] by simp

theorem dns_roundtrip_witness:
  "\<exists>q. parse_query (query_message 7 True [[0x41, 0x62], [0x63]] 1 1) = Some q \<and> q_name q = [97, 98, 46, 99] \<and>
     decode_reply (build_response q (Addrs [(1, 2, 3, 4)])) = Some \<lparr>r_id = 7, r_code = 0, r_name = [97, 98, 46, 99], r_addrs = [(1, 2, 3, 4)]\<rparr>"
proof -
  have "labels_ok [[0x41, 0x62], [0x63]]" by (simp add: labels_ok_def label_ok_def wire_len_def)
  moreover have "asked_name [[0x41, 0x62], [0x63]] = [97, 98, 46, 99]"
    by (simp add: asked_name_def to_ascii_lowercase_def ascii_lower_def)
  ultimately show ?thesis using dns_roundtrip [of "[[0x41, 0x62], [0x63]]" "[(1, 2, 3, 4)]" 7 True 1 1] by auto
qed

text \<open>The safety theorem at that query.\<close>

theorem dns_query_safe_witness:
  "\<exists>q. parse_query (query_message 7 True [[0x41, 0x62]] 1 1) = Some q \<and> length (q_name q) \<le> 254"
proof -
  have "labels_ok [[0x41, 0x62]]" by (simp add: labels_ok_def label_ok_def wire_len_def)
  then obtain q where q: "parse_query (query_message 7 True [[0x41, 0x62]] 1 1) = Some q" using parse_query_message by blast
  show ?thesis using q dns_query_safe [OF q] by blast
qed

end
