(* ===== verification/NetForward.thy ===== *)
theory NetForward
  imports NetAllow NetDns
begin

unbundle bit_operations_syntax

text \<open>
  The DNS forwarder of the gateway (\<^verbatim>\<open>crates/net/src/forwarder.rs\<close>): the name cache with its address
  index, the queue of names to resolve, the answer policy, and the UDP/IPv4/Ethernet framing.  A
  \<^verbatim>\<open>HashMap\<close> is a partial map and a \<^verbatim>\<open>HashSet\<close> a set, since neither has an order the code relies on.
  The invariant over every sequence of calls is that only addresses the policy allows are in the cache.
\<close>

section \<open>State\<close>

definition ETH_IPV4 :: bytes where "ETH_IPV4 = [0x08, 0x00]"
definition IP_PROTO_UDP :: u8 where "IP_PROTO_UDP = 17"
definition DNS_PORT :: u16 where "DNS_PORT = 53"
definition MAX_PENDING :: nat where "MAX_PENDING = 256"

record dns_query_frame =
  guest_mac :: bytes
  guest_ip :: bytes
  src_port :: u16
  payload :: bytes

record forwarder =
  gw_ip :: ipv4
  gw_mac :: bytes
  fw_allow :: allowlist
  by_name :: "ustring \<rightharpoonup> ipv4 list"
  by_ip :: "ipv4 \<rightharpoonup> ustring"
  pending_names :: "ustring set"

definition forwarder_new :: "ipv4 \<Rightarrow> bytes \<Rightarrow> allowlist \<Rightarrow> forwarder" where
  "forwarder_new ip mac al =
     \<lparr>gw_ip = ip, gw_mac = mac, fw_allow = al, by_name = Map.empty, by_ip = Map.empty, pending_names = {}\<rparr>"

section \<open>The cache\<close>

definition take_pending :: "forwarder \<Rightarrow> ustring set \<times> forwarder" where
  "take_pending f = (pending_names f, f\<lparr>pending_names := {}\<rparr>)"

definition is_routable :: "forwarder \<Rightarrow> ipv4 \<Rightarrow> bool" where
  "is_routable f ip \<longleftrightarrow> is_globally_routable ip \<and> ip \<noteq> gw_ip f"

definition cache_resolution :: "forwarder \<Rightarrow> ustring \<Rightarrow> ipv4 list \<Rightarrow> nat \<times> forwarder" where
  "cache_resolution f name addrs =
     (if \<not> permits_host (fw_allow f) name then (0, f)
      else
        (let lc = to_ascii_lowercase name;
             kept = filter (is_routable f) addrs;
             f1 = f\<lparr>by_ip := foldl (\<lambda>m ip. m(ip \<mapsto> lc)) (by_ip f) kept\<rparr>;
             f2 = (if kept \<noteq> []
                   then f1\<lparr>by_name := (by_name f1)(lc \<mapsto> (case by_name f1 lc of Some l \<Rightarrow> l | None \<Rightarrow> []) @ kept)\<rparr>
                   else f1)
         in (length kept, f2)))"

definition name_for_ip :: "forwarder \<Rightarrow> ipv4 \<Rightarrow> ustring option" where
  "name_for_ip f ip = by_ip f ip"

definition connection_permitted :: "forwarder \<Rightarrow> ipv4 \<Rightarrow> u16 \<Rightarrow> ustring option" where
  "connection_permitted f ip port =
     (case by_ip f ip of
        None \<Rightarrow> None
      | Some name \<Rightarrow> if permits (fw_allow f) name port then Some name else None)"

section \<open>Answering queries\<close>

definition respond_to_query :: "forwarder \<Rightarrow> bytes \<Rightarrow> bytes option \<times> forwarder" where
  "respond_to_query f pl =
     (case parse_query pl of
        None \<Rightarrow> (None, f)
      | Some query \<Rightarrow>
          if q_type query = QTYPE_AAAA then (Some (build_response query (Addrs [])), f)
          else if q_type query = QTYPE_A then
            (case by_name f (q_name query) of
               Some (a # as) \<Rightarrow> (Some (build_response query (Addrs (a # as))), f)
             | _ \<Rightarrow>
                 if permits_host (fw_allow f) (q_name query) then
                   (None, if card (pending_names f) < MAX_PENDING \<or> q_name query \<in> pending_names f
                          then f\<lparr>pending_names := insert (q_name query) (pending_names f)\<rparr> else f)
                 else (Some (build_response query NxDomain), f))
          else (Some (build_response query NxDomain), f))"

section \<open>Framing\<close>

definition parse_dns_query_frame :: "forwarder \<Rightarrow> bytes \<Rightarrow> dns_query_frame option" where
  "parse_dns_query_frame f frame =
     (if length frame < 14 + 20 + 8 \<or> take 2 (drop 12 frame) \<noteq> ETH_IPV4 then None
      else
        (let ip = 14; ihl = unat ((frame ! ip) AND 0x0F) * 4 in
         if ihl < 20 \<or> length frame < ip + ihl + 8 then None
         else if frame ! (ip + 9) \<noteq> IP_PROTO_UDP \<or> take 4 (drop (ip + 16) frame) \<noteq> octets (gw_ip f) then None
         else
           (let udp = ip + ihl in
            if getb16 frame (udp + 2) \<noteq> DNS_PORT then None
            else
              (let udp_len = unat (getb16 frame (udp + 4)) in
               if udp_len < 8 \<or> length frame < udp + udp_len then None
               else Some \<lparr>guest_mac = take 6 (drop 6 frame), guest_ip = take 4 (drop (ip + 12) frame),
                      src_port = getb16 frame udp, payload = drop (udp + 8) (take (udp + udp_len) frame)\<rparr>))))"

definition build_udp_frame :: "forwarder \<Rightarrow> bytes \<Rightarrow> bytes \<Rightarrow> u16 \<Rightarrow> bytes \<Rightarrow> bytes" where
  "build_udp_frame f mac ip port dns_resp =
     (let udp_len = 8 + length dns_resp;
          total_len = 20 + udp_len;
          eth = mac @ gw_mac f @ ETH_IPV4;
          header = [0x45, 0x00] @ be16 (of_nat total_len) @ [0x00, 0x00, 0x00, 0x00] @ [64, IP_PROTO_UDP, 0, 0] @
                   octets (gw_ip f) @ ip;
          f0 = eth @ header;
          ck = internet_checksum (take 20 (drop (length eth) f0));
          f1 = put f0 (length eth + 10) (be16 ck)
      in f1 @ be16 DNS_PORT @ be16 port @ be16 (of_nat udp_len) @ [0x00, 0x00] @ dns_resp)"

definition handle_frame :: "forwarder \<Rightarrow> bytes \<Rightarrow> bytes option \<times> forwarder" where
  "handle_frame f frame =
     (case parse_dns_query_frame f frame of
        None \<Rightarrow> (None, f)
      | Some q \<Rightarrow>
          (case respond_to_query f (payload q) of
             (None, f') \<Rightarrow> (None, f')
           | (Some resp, f') \<Rightarrow> (Some (build_udp_frame f' (guest_mac q) (guest_ip q) (src_port q) resp), f')))"

section \<open>What the cache holds\<close>

definition fw_ok :: "forwarder \<Rightarrow> bool" where
  "fw_ok f \<longleftrightarrow>
     (\<forall>ip n. by_ip f ip = Some n \<longrightarrow> is_routable f ip \<and> permits_host (fw_allow f) n) \<and>
     (\<forall>n ips. by_name f n = Some ips \<longrightarrow>
        ips \<noteq> [] \<and> permits_host (fw_allow f) n \<and> (\<forall>ip \<in> set ips. is_routable f ip \<and> by_ip f ip \<noteq> None)) \<and>
     finite (pending_names f) \<and> card (pending_names f) \<le> MAX_PENDING \<and>
     (\<forall>n \<in> pending_names f. permits_host (fw_allow f) n)"

definition same_config :: "forwarder \<Rightarrow> forwarder \<Rightarrow> bool" where
  "same_config f f' \<longleftrightarrow> gw_ip f' = gw_ip f \<and> gw_mac f' = gw_mac f \<and> fw_allow f' = fw_allow f"

lemma fw_ok_ip: "fw_ok f \<Longrightarrow> by_ip f ip = Some n \<Longrightarrow> is_routable f ip \<and> permits_host (fw_allow f) n"
  unfolding fw_ok_def by blast

lemma fw_ok_name:
  assumes "fw_ok f" "by_name f n = Some ips"
  shows "ips \<noteq> []" "permits_host (fw_allow f) n" "ip \<in> set ips \<Longrightarrow> is_routable f ip \<and> by_ip f ip \<noteq> None"
  using assms unfolding fw_ok_def by blast+

lemma index_addrs: "foldl (\<lambda>m ip. m(ip \<mapsto> n)) m ips x = (if x \<in> set ips then Some n else m x)"
  by (induction ips arbitrary: m) auto

lemma permits_host_lower [simp]: "permits_host al (to_ascii_lowercase n) = permits_host al n"
  by (simp add: permits_host_iff permits_case [of "to_ascii_lowercase n" n])

lemma cache_resolution_config: "same_config f (snd (cache_resolution f name addrs))"
  by (simp add: cache_resolution_def same_config_def Let_def)

lemma cache_resolution_ok:
  assumes "fw_ok f"
  shows "fw_ok (snd (cache_resolution f name addrs))"
proof (cases "permits_host (fw_allow f) name")
  case True
  let ?f = "snd (cache_resolution f name addrs)" and ?lc = "to_ascii_lowercase name" and ?kept = "filter (is_routable f) addrs"
  define old where "old = (case by_name f ?lc of Some l \<Rightarrow> l | None \<Rightarrow> [])"
  have o: "is_routable f ip" "by_ip f ip \<noteq> None" if "ip \<in> set old" for ip
    using that fw_ok_name(3) [OF assms, of ?lc _ ip] by (cases "by_name f ?lc"; simp add: old_def)+
  have r: "is_routable ?f ip = is_routable f ip" for ip
    using cache_resolution_config [of f name addrs] by (simp add: is_routable_def same_config_def)
  have a: "fw_allow ?f = fw_allow f" "pending_names ?f = pending_names f"
    "by_ip ?f = (\<lambda>x. if x \<in> set ?kept then Some ?lc else by_ip f x)"
    "by_name ?f = (if ?kept = [] then by_name f else (by_name f)(?lc \<mapsto> old @ ?kept))"
    using True by (auto simp: cache_resolution_def Let_def index_addrs fun_eq_iff filter_empty_conv old_def)
  have p: "finite (pending_names f) \<and> card (pending_names f) \<le> MAX_PENDING \<and> (\<forall>n \<in> pending_names f. permits_host (fw_allow f) n)"
    using assms by (simp add: fw_ok_def)
  show ?thesis unfolding fw_ok_def a r
  proof (intro conjI allI impI)
    fix n ips assume "(if ?kept = [] then by_name f else (by_name f)(?lc \<mapsto> old @ ?kept)) n = Some ips"
    then have e: "by_name f n = Some ips \<or> n = ?lc \<and> ips = old @ ?kept \<and> ?kept \<noteq> []" by (auto split: if_splits)
    show "ips \<noteq> []" "permits_host (fw_allow f) n"
      using e True fw_ok_name(1,2) [OF assms, of n ips] by auto
    show "\<forall>ip \<in> set ips. is_routable f ip \<and> (if ip \<in> set ?kept then Some ?lc else by_ip f ip) \<noteq> None"
    proof
      fix ip assume "ip \<in> set ips"
      then have "ip \<in> set old \<or> ip \<in> set ?kept \<or> by_name f n = Some ips" using e by auto
      then show "is_routable f ip \<and> (if ip \<in> set ?kept then Some ?lc else by_ip f ip) \<noteq> None"
        using o [of ip] fw_ok_name(3) [OF assms, of n ips ip] \<open>ip \<in> set ips\<close> by auto
    qed
  qed (use p True fw_ok_ip [OF assms] in \<open>auto split: if_splits simp del: split_paired_All\<close>)
qed (use assms in \<open>simp add: cache_resolution_def\<close>)

lemma respond_config: "same_config f (snd (respond_to_query f pl))"
  by (auto simp: respond_to_query_def same_config_def split: option.splits list.splits)

lemma respond_ok:
  assumes "fw_ok f"
  shows "fw_ok (snd (respond_to_query f pl))"
proof -
  have "fw_ok (f\<lparr>pending_names := insert n (pending_names f)\<rparr>)"
    if "permits_host (fw_allow f) n" "card (pending_names f) < MAX_PENDING \<or> n \<in> pending_names f" for n
    using assms that by (auto simp: fw_ok_def is_routable_def card_insert_if insert_absorb)
  then show ?thesis using assms by (auto simp: respond_to_query_def split: option.splits list.splits)
qed

lemma handle_frame_respond:
  "handle_frame f frame = (case parse_dns_query_frame f frame of None \<Rightarrow> (None, f)
     | Some q \<Rightarrow> (map_option (build_udp_frame (snd (respond_to_query f (payload q))) (guest_mac q) (guest_ip q) (src_port q))
                  (fst (respond_to_query f (payload q))), snd (respond_to_query f (payload q))))"
  by (auto simp: handle_frame_def split: option.splits prod.splits)

text \<open>Every state of a forwarder in use: resolutions arrive, pending names are taken, frames and queries answered.\<close>

inductive fw_reachable :: "ipv4 \<Rightarrow> allowlist \<Rightarrow> forwarder \<Rightarrow> bool" for gw :: ipv4 and al :: allowlist where
  fw_start: "fw_reachable gw al (forwarder_new gw mac al)"
| fw_cache: "fw_reachable gw al f \<Longrightarrow> fw_reachable gw al (snd (cache_resolution f name addrs))"
| fw_take: "fw_reachable gw al f \<Longrightarrow> fw_reachable gw al (snd (take_pending f))"
| fw_query: "fw_reachable gw al f \<Longrightarrow> fw_reachable gw al (snd (respond_to_query f pl))"
| fw_frame: "fw_reachable gw al f \<Longrightarrow> fw_reachable gw al (snd (handle_frame f frame))"

lemma take_pending_ok: "fw_ok f \<Longrightarrow> fw_ok (snd (take_pending f))"
  unfolding fw_ok_def take_pending_def by (simp add: is_routable_def)

lemma fw_reachable_ok: "fw_reachable gw al f \<Longrightarrow> fw_ok f \<and> gw_ip f = gw \<and> fw_allow f = al"
proof (induction rule: fw_reachable.induct)
  case (fw_cache f name addrs)
  then show ?case using cache_resolution_ok cache_resolution_config [of f name addrs] by (simp add: same_config_def)
next
  case (fw_query f pl)
  then show ?case using respond_ok respond_config [of f pl] by (simp add: same_config_def)
next
  case (fw_frame f frame)
  then show ?case using respond_ok respond_config [of f] by (auto simp: handle_frame_respond same_config_def split: option.splits)
next
  case (fw_take f)
  then show ?case using take_pending_ok by (simp add: take_pending_def)
qed (simp add: fw_ok_def forwarder_new_def)


definition sample_allow :: allowlist where "sample_allow = \<lparr>entries = [Host [97] (Some 443)]\<rparr>"

definition sample_fw :: forwarder where
  "sample_fw = snd (cache_resolution (forwarder_new (10, 0, 2, 2) [2, 0, 0, 0, 0, 1] sample_allow) [97] [(93, 184, 216, 34), (10, 0, 0, 5)])"

lemma sample_fw_facts: "fw_reachable (10, 0, 2, 2) sample_allow sample_fw"
  "connection_permitted sample_fw (93, 184, 216, 34) 443 = Some [97]" "connection_permitted sample_fw (10, 0, 0, 5) 443 = None"
  by (auto simp: sample_fw_def intro: fw_start fw_cache)
    (simp_all add: cache_resolution_def sample_allow_def forwarder_new_def permits_host_def permits_def connection_permitted_def
      is_routable_def is_globally_routable_def to_ascii_lowercase_def ascii_lower_def eq_ignore_ascii_case_def Let_def)


section \<open>Reply frames\<close>

definition mac_ok :: "forwarder \<Rightarrow> bool" where "mac_ok f \<longleftrightarrow> length (gw_mac f) = 6"

lemma built_frame:
  assumes "mac_ok f" "length mac = 6" "length ip = 4"
  shows "\<exists>ck. build_udp_frame f mac ip port resp =
      mac @ gw_mac f @ [0x08, 0x00] @
      ([0x45, 0x00] @ be16 (of_nat (28 + length resp)) @ [0, 0, 0, 0, 64, 17]) @ be16 ck @ (octets (gw_ip f) @ ip) @
      be16 53 @ be16 port @ be16 (of_nat (8 + length resp)) @ [0, 0] @ resp \<and>
    internet_checksum (([0x45, 0x00] @ be16 (of_nat (28 + length resp)) @ [0, 0, 0, 0, 64, 17]) @ be16 ck @ (octets (gw_ip f) @ ip)) = 0"
proof -
  let ?eth = "mac @ gw_mac f @ [0x08, 0x00]"
  let ?pre = "[0x45, 0x00] @ be16 (of_nat (28 + length resp)) @ [0, 0, 0, 0, 64, 17]" and ?post = "octets (gw_ip f) @ ip"
  define ck where "ck = internet_checksum (?pre @ [0, 0] @ ?post)"
  have l: "length ?eth = 14" "length ?pre = 10" "length ?post = 8" using assms by (simp_all add: mac_ok_def)
  have h: "take 20 (drop (length ?eth) (?eth @ ?pre @ [0, 0] @ ?post)) = ?pre @ [0, 0] @ ?post" using l by simp
  have p: "put (?eth @ ?pre @ [0, 0] @ ?post) (length ?eth + 10) (be16 ck) = ?eth @ ?pre @ be16 ck @ ?post"
    using l by (simp add: put_def)
  have "build_udp_frame f mac ip port resp =
    ?eth @ ?pre @ be16 ck @ ?post @ be16 53 @ be16 port @ be16 (of_nat (8 + length resp)) @ [0, 0] @ resp"
    using h p by (simp add: build_udp_frame_def Let_def ETH_IPV4_def IP_PROTO_UDP_def DNS_PORT_def ck_def)
  moreover have "internet_checksum (?pre @ be16 ck @ ?post) = 0"
    using checksum_fill [of ?pre ?post] l unfolding ck_def by simp
  ultimately show ?thesis by (intro exI [of _ ck]) simp
qed

lemma reply_frame_fields:
  assumes fr: "fr = mac @ gmac @ [0x08, 0x00] @ ([0x45, 0x00] @ be16 (of_nat (28 + length resp)) @ [0, 0, 0, 0, 64, 17]) @ be16 ck @ (gip @ ip) @
      be16 53 @ be16 port @ be16 (of_nat (8 + length resp)) @ [0, 0] @ resp"
    and l: "length mac = 6" "length gmac = 6" "length ip = 4" "28 + length resp < 65536" "length gip = 4"
  shows "take 6 fr = mac" "take 2 (drop 12 fr) = [0x08, 0x00]" "length fr = 42 + length resp"
    "take 20 (drop 14 fr) = ([0x45, 0x00] @ be16 (of_nat (28 + length resp)) @ [0, 0, 0, 0, 64, 17]) @ be16 ck @ (gip @ ip)"
    "unat (getb16 fr 16) = length fr - 14" "take 4 (drop 30 fr) = ip" "getb16 fr 34 = DNS_PORT" "getb16 fr 36 = port"
    "unat (getb16 fr 38) = length fr - 34" "drop 42 fr = resp"
proof -
  let ?n = "of_nat (28 + length resp) :: u16" and ?u = "of_nat (8 + length resp) :: u16"
  let ?eth = "mac @ gmac @ [0x08, 0x00]" and ?hdr = "([0x45, 0x00] @ be16 (of_nat (28 + length resp)) @ [0, 0, 0, 0, 64, 17]) @ be16 ck @ (gip @ ip)"
  have e: "length ?eth = 14" "length ?hdr = 20" using l by simp_all
  have f: "fr = ?eth @ ?hdr @ be16 53 @ be16 port @ be16 ?u @ [0, 0] @ resp" by (simp add: fr)
  show "take 6 fr = mac" "take 2 (drop 12 fr) = [0x08, 0x00]" "take 4 (drop 30 fr) = ip" using l by (simp_all add: fr be16_def)
  show len: "length fr = 42 + length resp" using e by (simp add: f)
  show "take 20 (drop 14 fr) = ?hdr" using e unfolding f by simp
  have n: "unat ?n = 28 + length resp" "unat ?u = 8 + length resp" using l(4) by (simp_all only: unat_of_nat) simp_all
  have "getb16 fr 16 = ?n" using getb16_at [of "?eth @ [0x45, 0x00]" 16 ?n] l by (simp add: fr)
  then show "unat (getb16 fr 16) = length fr - 14" using n len by simp
  show "getb16 fr 34 = DNS_PORT" "getb16 fr 36 = port"
    using getb16_at [of "?eth @ ?hdr" 34 53 "be16 port @ be16 ?u @ [0, 0] @ resp"] getb16_at [of "?eth @ ?hdr @ be16 53" 36 port "be16 ?u @ [0, 0] @ resp"] e
    by (simp_all add: f DNS_PORT_def)
  have "getb16 fr 38 = ?u" using getb16_at [of "?eth @ ?hdr @ be16 53 @ be16 port" 38 ?u "[0, 0] @ resp"] e by (simp add: f)
  then show "unat (getb16 fr 38) = length fr - 34" using n len by simp
  show "drop 42 fr = resp" using e unfolding f by simp
qed

text \<open>The frame a guest sends with a UDP payload for the gateway's DNS port; the \<open>ident\<close> bytes are its own.\<close>

definition guest_frame :: "forwarder \<Rightarrow> bytes \<Rightarrow> bytes \<Rightarrow> bytes \<Rightarrow> u16 \<Rightarrow> u16 \<Rightarrow> bytes \<Rightarrow> bytes" where
  "guest_frame f mac ip ident hck port pl =
     gw_mac f @ mac @ [0x08, 0x00] @ [0x45] @ ident @ [64, 17] @ be16 hck @ ip @ octets (gw_ip f) @
     be16 port @ be16 53 @ be16 (of_nat (8 + length pl)) @ [0, 0] @ pl"

lemma parse_guest_frame:
  assumes "mac_ok f" "length mac = 6" "length ip = 4" "length ident = 7" "8 + length pl < 65536"
  shows "parse_dns_query_frame f (guest_frame f mac ip ident hck port pl) =
    Some \<lparr>guest_mac = mac, guest_ip = ip, src_port = port, payload = pl\<rparr>"
proof -
  let ?fr = "guest_frame f mac ip ident hck port pl"
  let ?eth = "gw_mac f @ mac @ [0x08, 0x00]" and ?tail = "be16 port @ be16 53 @ be16 (of_nat (8 + length pl)) @ [0, 0] @ pl"
  let ?ip = "[0x45] @ ident @ [64, 17] @ be16 hck @ ip @ octets (gw_ip f)"
  have l: "length (gw_mac f) = 6" "length ?eth = 14" "length ?ip = 20" "length (?eth @ ?ip) = 34" using assms by (simp_all add: mac_ok_def)
  have fr: "?fr = (?eth @ ?ip) @ ?tail" "?fr = ?eth @ ?ip @ ?tail" by (simp_all add: guest_frame_def)
  have len: "length ?fr = 42 + length pl" using l(4) by (simp add: fr(1))
  have a: "take 2 (drop 12 ?fr) = [0x08, 0x00]" "take 6 (drop 6 ?fr) = mac"
    using l(1) assms(2) by (simp_all add: fr(2))
  have b: "?fr ! 14 = 0x45" "?fr ! 23 = 17" "take 4 (drop 30 ?fr) = octets (gw_ip f)" "take 4 (drop 26 ?fr) = ip"
    using l(1) assms(2-4) by (simp_all add: fr(2) nth_append be16_def)
  have u: "unat (of_nat (8 + length pl) :: u16) = 8 + length pl" using assms(5) by (simp only: unat_of_nat) simp
  have c: "getb16 ?fr 34 = port" "getb16 ?fr 36 = 53" "getb16 ?fr 38 = of_nat (8 + length pl)"
    using getb16_at [of "?eth @ ?ip" 34 port "be16 53 @ be16 (of_nat (8 + length pl)) @ [0, 0] @ pl"]
      getb16_at [of "?eth @ ?ip @ be16 port" 36 53 "be16 (of_nat (8 + length pl)) @ [0, 0] @ pl"]
      getb16_at [of "?eth @ ?ip @ be16 port @ be16 53" 38 "of_nat (8 + length pl)" "[0, 0] @ pl"] l
    by (simp_all add: fr(2))
  have d: "drop 42 (take (34 + (8 + length pl)) ?fr) = pl" using len l(1) assms(2-4) by (simp only: take_all) (simp add: fr(2))
  show ?thesis
    using a b c d u len by (simp add: parse_dns_query_frame_def Let_def ETH_IPV4_def IP_PROTO_UDP_def DNS_PORT_def)
qed

lemma respond_cached:
  assumes "labels_ok labels" "by_name f (asked_name labels) = Some ips" "ips \<noteq> []"
  shows "respond_to_query f (query_message i rd labels QTYPE_A qc) =
    (Some (build_response \<lparr>q_id = i, recursion_desired = rd, q_name = asked_name labels, q_type = QTYPE_A, q_class = qc,
       question_wire = query_wire labels QTYPE_A qc\<rparr> (Addrs ips)), f)"
  using assms by (cases ips) (simp_all add: respond_to_query_def parse_query_message QTYPE_A_def QTYPE_AAAA_def)

lemma length_response: "length (build_response q (Addrs ips)) = 12 + length (question_wire q) + 16 * length ips"
proof -
  have "length (concat (map answer_rr ips)) = 16 * length ips" by (induction ips) (simp_all add: answer_rr_def)
  then show ?thesis by (simp add: build_response_def Let_def)
qed

text \<open>
  C14: A name lookup end to end.  The Ethernet frame in which a guest asks the gateway for a cached name
  is answered in the same call by one frame that goes to the guest's hardware address and UDP port, has a
  valid IPv4 header checksum and the right lengths, and whose payload the guest's resolver decodes to the
  id it sent, the name it asked and exactly the cached addresses.
\<close>

theorem dns_lookup_end_to_end:
  fixes i qc port hck :: u16 and rd :: bool
  assumes "mac_ok f" "length mac = 6" "length ip = 4" "length ident = 7" "labels_ok labels"
    and "by_name f (asked_name labels) = Some ips" "ips \<noteq> []" "length ips < 1000"
  defines "reply \<equiv> fst (handle_frame f (guest_frame f mac ip ident hck port (query_message i rd labels QTYPE_A qc)))"
  shows "\<exists>fr. reply = Some fr \<and> take 6 fr = mac \<and> take 2 (drop 12 fr) = [0x08, 0x00] \<and>
    internet_checksum (take 20 (drop 14 fr)) = 0 \<and> unat (getb16 fr 16) = length fr - 14 \<and> take 4 (drop 30 fr) = ip \<and>
    getb16 fr 34 = DNS_PORT \<and> getb16 fr 36 = port \<and> unat (getb16 fr 38) = length fr - 34 \<and>
    decode_reply (drop 42 fr) = Some \<lparr>r_id = i, r_code = 0, r_name = asked_name labels, r_addrs = ips\<rparr>"
proof -
  let ?pl = "query_message i rd labels QTYPE_A qc" and ?w = "query_wire labels QTYPE_A qc"
  define q where "q = \<lparr>q_id = i, recursion_desired = rd, q_name = asked_name labels, q_type = QTYPE_A, q_class = qc, question_wire = ?w\<rparr>"
  define resp where "resp = build_response q (Addrs ips)"
  have w: "length ?w \<le> 300" using assms(5) wire_length [of labels] by (simp add: labels_ok_def query_wire_def)
  have r: "length resp = 12 + length ?w + 16 * length ips" by (simp add: resp_def length_response q_def)
  have small: "28 + length resp < 65536" using r w assms(8) by simp
  have pl: "8 + length ?pl < 65536" using w by (simp add: query_message_def)
  have p: "respond_to_query f ?pl = (Some resp, f)" using respond_cached [OF assms(5-7)] by (simp add: resp_def q_def)
  have "reply = Some (build_udp_frame f mac ip port resp)"
    unfolding reply_def using parse_guest_frame [OF assms(1-4) pl] p by (simp add: handle_frame_def)
  moreover obtain ck where b: "build_udp_frame f mac ip port resp =
      mac @ gw_mac f @ [0x08, 0x00] @ ([0x45, 0x00] @ be16 (of_nat (28 + length resp)) @ [0, 0, 0, 0, 64, 17]) @ be16 ck @ (octets (gw_ip f) @ ip) @
      be16 53 @ be16 port @ be16 (of_nat (8 + length resp)) @ [0, 0] @ resp"
    "internet_checksum (([0x45, 0x00] @ be16 (of_nat (28 + length resp)) @ [0, 0, 0, 0, 64, 17]) @ be16 ck @ (octets (gw_ip f) @ ip)) = 0"
    using built_frame [OF assms(1-3)] by blast
  moreover have "decode_reply resp = Some \<lparr>r_id = i, r_code = 0, r_name = asked_name labels, r_addrs = ips\<rparr>"
    using reply_decodes [OF assms(5), of ips i rd QTYPE_A qc] assms(8) by (simp add: resp_def q_def)
  ultimately show ?thesis
    using reply_frame_fields [OF b(1) assms(2) assms(1) [unfolded mac_ok_def] assms(3) small] b(2)
    by (intro exI [of _ "build_udp_frame f mac ip port resp"]) simp
qed

lemma sample_cached: "mac_ok sample_fw" "by_name sample_fw [97] = Some [(93, 184, 216, 34)]"
  by (simp_all add: mac_ok_def sample_fw_def cache_resolution_def sample_allow_def forwarder_new_def permits_host_def
      is_routable_def is_globally_routable_def to_ascii_lowercase_def ascii_lower_def eq_ignore_ascii_case_def Let_def)

theorem dns_lookup_end_to_end_witness:
  "\<exists>fr. fst (handle_frame sample_fw (guest_frame sample_fw [2, 0, 0, 0, 0, 9] [10, 0, 2, 15] (replicate 7 0) 0 4000
       (query_message 5 True [[0x61]] QTYPE_A 1))) = Some fr \<and> take 6 fr = [2, 0, 0, 0, 0, 9] \<and>
     decode_reply (drop 42 fr) = Some \<lparr>r_id = 5, r_code = 0, r_name = [97], r_addrs = [(93, 184, 216, 34)]\<rparr>"
proof -
  have n: "asked_name [[0x61]] = [97]" "labels_ok [[0x61]]"
    by (simp_all add: asked_name_def to_ascii_lowercase_def ascii_lower_def labels_ok_def label_ok_def wire_len_def)
  show ?thesis
    using dns_lookup_end_to_end [of sample_fw "[2, 0, 0, 0, 0, 9]" "[10, 0, 2, 15]" "replicate 7 0" "[[0x61]]" "[(93, 184, 216, 34)]" 0 4000 5 True 1]
      sample_cached n by auto
qed

end
