(* ===== verification/NetQueue.thy ===== *)
theory NetQueue
  imports NetText
begin

unbundle bit_operations_syntax

text \<open>
  The channels between the network stack and the outside (\<^verbatim>\<open>HostConn\<close> of \<^verbatim>\<open>crates/net/src/relay.rs\<close>
  over bounded \<^verbatim>\<open>std::sync::mpsc\<close> channels) and the connector that hands their far ends to an embedder
  as byte queues (\<^verbatim>\<open>crates/net/src/queue.rs\<close>).  Both sides hold ends of the same channels, so the
  channels live in a store of links that only grows; a \<^verbatim>\<open>HostConn\<close> and a connection of the
  connector name a link by its index.  The search for a free connection id may in principle run for
  ever, so it is a partial function; a lemma shows it ends whenever an id is free.
\<close>

section \<open>Bounded channels\<close>

record chan =
  chan_q :: "bytes list"
  chan_cap :: nat
  tx_alive :: bool
  rx_alive :: bool

datatype send_result = SendOk | SendFull | SendDisconnected
datatype recv_result = RecvOk bytes | RecvEmpty | RecvDisconnected

definition sync_channel :: "nat \<Rightarrow> chan" where
  "sync_channel depth = \<lparr>chan_q = [], chan_cap = depth, tx_alive = True, rx_alive = True\<rparr>"

definition try_send :: "chan \<Rightarrow> bytes \<Rightarrow> send_result \<times> chan" where
  "try_send c b =
     (if \<not> rx_alive c then (SendDisconnected, c)
      else if length (chan_q c) < chan_cap c then (SendOk, c\<lparr>chan_q := chan_q c @ [b]\<rparr>)
      else (SendFull, c))"

definition try_recv :: "chan \<Rightarrow> recv_result \<times> chan" where
  "try_recv c =
     (case chan_q c of
        b # r \<Rightarrow> (RecvOk b, c\<lparr>chan_q := r\<rparr>)
      | [] \<Rightarrow> (if tx_alive c then RecvEmpty else RecvDisconnected, c))"

text \<open>One relayed connection: guest to host, host to guest, and the flag the reaper sets.\<close>

record link =
  l_out :: chan
  l_in :: chan
  l_stop :: bool

record link_store =
  links :: "nat \<Rightarrow> link"
  link_count :: nat

definition upd_link :: "link_store \<Rightarrow> nat \<Rightarrow> (link \<Rightarrow> link) \<Rightarrow> link_store" where
  "upd_link ls n f = ls\<lparr>links := (links ls)(n := f (links ls n))\<rparr>"

definition new_link :: "link_store \<Rightarrow> link \<Rightarrow> link_store" where
  "new_link ls l = ls\<lparr>links := (links ls)(link_count ls := l), link_count := Suc (link_count ls)\<rparr>"

section \<open>The connector\<close>

definition OUT_DEPTH :: nat where "OUT_DEPTH = 16"
definition IN_DEPTH :: nat where "IN_DEPTH = 64"

record queue_conn =
  dst_ip :: ipv4
  dst_port :: u16
  qc_link :: nat
  write_closed :: bool
  wc_reported :: bool

record queue_state =
  next_id :: u32
  new_ids :: "u32 list"
  conns :: "u32 \<rightharpoonup> queue_conn"

definition queue_new :: queue_state where
  "queue_new = \<lparr>next_id = 0, new_ids = [], conns = Map.empty\<rparr>"

partial_function (option) free_id :: "(u32 \<Rightarrow> bool) \<Rightarrow> u32 \<Rightarrow> u32 option" where
  "free_id live i = (if live i then free_id live (i + 1) else Some i)"

definition queue_connect :: "queue_state \<Rightarrow> link_store \<Rightarrow> ipv4 \<Rightarrow> u16 \<Rightarrow> (nat \<times> queue_state \<times> link_store) option" where
  "queue_connect s ls ip port =
     (case free_id (\<lambda>i. conns s i \<noteq> None) (next_id s) of
        None \<Rightarrow> None
      | Some i \<Rightarrow>
          (let l = \<lparr>l_out = sync_channel OUT_DEPTH, l_in = sync_channel IN_DEPTH, l_stop = False\<rparr>;
               c = \<lparr>dst_ip = ip, dst_port = port, qc_link = link_count ls, write_closed = False, wc_reported = False\<rparr>
           in Some (link_count ls, s\<lparr>next_id := i + 1, new_ids := new_ids s @ [i], conns := (conns s)(i \<mapsto> c)\<rparr>, new_link ls l)))"

definition take_new :: "queue_state \<Rightarrow> (u32 \<times> ipv4 \<times> u16) list \<times> queue_state" where
  "take_new s =
     (List.map_filter (\<lambda>i. map_option (\<lambda>c. (i, dst_ip c, dst_port c)) (conns s i)) (new_ids s), s\<lparr>new_ids := []\<rparr>)"

function drain_chan :: "chan \<Rightarrow> bytes \<times> bool \<times> chan" where
  "drain_chan c =
     (case try_recv c of
        (RecvOk b, c1) \<Rightarrow> (let (out, d, c2) = drain_chan c1 in (b @ out, d, c2))
      | (RecvEmpty, c1) \<Rightarrow> ([], False, c1)
      | (RecvDisconnected, c1) \<Rightarrow> ([], True, c1))"
  by pat_completeness auto
termination
  by (relation "measure (\<lambda>c. length (chan_q c))") (auto simp: try_recv_def split: list.splits if_splits)

declare drain_chan.simps [simp del]

definition drain_outbound :: "queue_state \<Rightarrow> link_store \<Rightarrow> u32 \<Rightarrow> (bytes \<times> bool) \<times> queue_state \<times> link_store" where
  "drain_outbound s ls i =
     (case conns s i of
        None \<Rightarrow> (([], True), s, ls)
      | Some c \<Rightarrow>
          (let (out, disconnected, ch) = drain_chan (l_out (links ls (qc_link c)));
               ls1 = upd_link ls (qc_link c) (\<lambda>l. l\<lparr>l_out := ch\<rparr>);
               s1 = (if disconnected then s\<lparr>conns := (conns s)(i \<mapsto> c\<lparr>write_closed := True\<rparr>)\<rparr> else s)
           in ((out, l_stop (links ls (qc_link c))), s1, ls1)))"

definition half_closed :: "link_store \<Rightarrow> queue_conn \<Rightarrow> bool" where
  "half_closed ls c \<longleftrightarrow> write_closed c \<and> \<not> wc_reported c \<and> \<not> l_stop (links ls (qc_link c))"

definition take_write_closed :: "queue_state \<Rightarrow> link_store \<Rightarrow> u32 set \<times> queue_state" where
  "take_write_closed s ls =
     ({i. case conns s i of Some c \<Rightarrow> half_closed ls c | None \<Rightarrow> False},
      s\<lparr>conns := (\<lambda>i. map_option (\<lambda>c. if half_closed ls c then c\<lparr>wc_reported := True\<rparr> else c) (conns s i))\<rparr>)"

definition push_inbound :: "queue_state \<Rightarrow> link_store \<Rightarrow> u32 \<Rightarrow> bytes \<Rightarrow> bool \<times> link_store" where
  "push_inbound s ls i bs =
     (case conns s i of
        None \<Rightarrow> (False, ls)
      | Some c \<Rightarrow>
          (case try_send (l_in (links ls (qc_link c))) bs of
             (SendOk, ch) \<Rightarrow> (True, upd_link ls (qc_link c) (\<lambda>l. l\<lparr>l_in := ch\<rparr>))
           | _ \<Rightarrow> (False, ls)))"

definition host_closed :: "queue_state \<Rightarrow> link_store \<Rightarrow> u32 \<Rightarrow> queue_state \<times> link_store" where
  "host_closed s ls i =
     (case conns s i of
        None \<Rightarrow> (s, ls)
      | Some c \<Rightarrow> (s\<lparr>conns := (conns s)(i := None)\<rparr>,
          upd_link ls (qc_link c) (\<lambda>l. l\<lparr>l_stop := True, l_in := (l_in l)\<lparr>tx_alive := False\<rparr>,
            l_out := (l_out l)\<lparr>rx_alive := False\<rparr>\<rparr>)))"

definition conn_count :: "queue_state \<Rightarrow> nat" where
  "conn_count s = card (dom (conns s))"

section \<open>Channels are queues\<close>

text \<open>Chunks and drains in any order: \<open>Inl\<close> offers a chunk, \<open>Inr\<close> drains; what was accepted and what came out.\<close>

fun run_pipe :: "('c \<Rightarrow> bytes \<Rightarrow> bool \<times> 'c) \<Rightarrow> ('c \<Rightarrow> bytes \<times> 'c) \<Rightarrow> 'c \<Rightarrow> (bytes + unit) list \<Rightarrow> bytes \<times> bytes \<times> 'c" where
  "run_pipe offer drain c [] = ([], [], c)"
| "run_pipe offer drain c (Inl b # ops) =
     (let (ok, c1) = offer c b; (taken, out, c2) = run_pipe offer drain c1 ops in ((if ok then b else []) @ taken, out, c2))"
| "run_pipe offer drain c (Inr u # ops) =
     (let (o1, c1) = drain c; (taken, out, c2) = run_pipe offer drain c1 ops in (taken, o1 @ out, c2))"

locale byte_pipe =
  fixes ok :: "'c \<Rightarrow> bool" and held :: "'c \<Rightarrow> bytes" and offer :: "'c \<Rightarrow> bytes \<Rightarrow> bool \<times> 'c" and drain :: "'c \<Rightarrow> bytes \<times> 'c"
  assumes offer_ok: "ok c \<Longrightarrow> offer c b = (r, c') \<Longrightarrow> ok c' \<and> held c' = held c @ (if r then b else [])"
    and drain_ok: "ok c \<Longrightarrow> drain c = (out, c') \<Longrightarrow> ok c' \<and> out = held c \<and> held c' = []"
begin

lemma pipe_fifo: "ok c \<Longrightarrow> run_pipe offer drain c ops = (taken, out, c') \<Longrightarrow> ok c' \<and> held c @ taken = out @ held c'"
proof (induction ops arbitrary: c taken out)
  case (Cons op ops)
  show ?case
  proof (cases op)
    case (Inl b)
    obtain r c1 where p: "offer c b = (r, c1)" by fastforce
    obtain t o2 c2 where q: "run_pipe offer drain c1 ops = (t, o2, c2)" by (metis prod_cases3)
    show ?thesis using Cons.prems Cons.IH [of c1 t o2] offer_ok [OF _ p] Inl p q by auto
  next
    case (Inr u)
    obtain o1 c1 where g: "drain c = (o1, c1)" by fastforce
    obtain t o2 c2 where q: "run_pipe offer drain c1 ops = (t, o2, c2)" by (metis prod_cases3)
    show ?thesis using Cons.prems Cons.IH [of c1 t o2] drain_ok [OF _ g] Inr g q by auto
  qed
qed simp

end

lemma drain_chan_value: "drain_chan c = (concat (chan_q c), \<not> tx_alive c, c\<lparr>chan_q := []\<rparr>)"
proof (induction c rule: drain_chan.induct)
  case (1 c)
  show ?case
  proof (cases "chan_q c")
    case Nil
    then show ?thesis by (subst drain_chan.simps) (simp add: try_recv_def)
  next
    case (Cons b r)
    then have t: "try_recv c = (RecvOk b, c\<lparr>chan_q := r\<rparr>)" by (simp add: try_recv_def)
    show ?thesis using 1 [OF t [symmetric] refl] t Cons by (subst drain_chan.simps) simp
  qed
qed

text \<open>
  The two directions of connection \<open>i\<close> over link \<open>n\<close>: the stack's side offers with \<^verbatim>\<open>to_host.try_send\<close>
  and the embedder drains, or the embedder pushes and the stack takes with \<^verbatim>\<open>from_host.try_recv\<close>.
\<close>

definition guest_send :: "nat \<Rightarrow> queue_state \<times> link_store \<Rightarrow> bytes \<Rightarrow> bool \<times> queue_state \<times> link_store" where
  "guest_send n = (\<lambda>(s, ls) b. let (r, ch) = try_send (l_out (links ls n)) b in (r = SendOk, s, upd_link ls n (\<lambda>l. l\<lparr>l_out := ch\<rparr>)))"

definition guest_take :: "nat \<Rightarrow> queue_state \<times> link_store \<Rightarrow> bytes \<times> queue_state \<times> link_store" where
  "guest_take n = (\<lambda>(s, ls). let (out, d, ch) = drain_chan (l_in (links ls n)) in (out, s, upd_link ls n (\<lambda>l. l\<lparr>l_in := ch\<rparr>)))"

definition host_drain :: "u32 \<Rightarrow> queue_state \<times> link_store \<Rightarrow> bytes \<times> queue_state \<times> link_store" where
  "host_drain i = (\<lambda>(s, ls). let ((out, closed), s1, ls1) = drain_outbound s ls i in (out, s1, ls1))"

definition host_push :: "u32 \<Rightarrow> queue_state \<times> link_store \<Rightarrow> bytes \<Rightarrow> bool \<times> queue_state \<times> link_store" where
  "host_push i = (\<lambda>(s, ls) b. let (r, ls1) = push_inbound s ls i b in (r, s, ls1))"

definition conn_live :: "u32 \<Rightarrow> nat \<Rightarrow> queue_state \<times> link_store \<Rightarrow> bool" where
  "conn_live i n = (\<lambda>(s, ls). n < link_count ls \<and> (case conns s i of Some c \<Rightarrow> qc_link c = n | None \<Rightarrow> False))"

definition out_held :: "nat \<Rightarrow> queue_state \<times> link_store \<Rightarrow> bytes" where "out_held n st = concat (chan_q (l_out (links (snd st) n)))"
definition in_held :: "nat \<Rightarrow> queue_state \<times> link_store \<Rightarrow> bytes" where "in_held n st = concat (chan_q (l_in (links (snd st) n)))"

lemmas pipe_defs = guest_send_def guest_take_def host_drain_def host_push_def conn_live_def out_held_def in_held_def
  drain_outbound_def push_inbound_def drain_chan_value try_send_def upd_link_def Let_def new_link_def

interpretation outbound: byte_pipe "conn_live i n" "out_held n" "guest_send n" "host_drain i" for i n
  by unfold_locales (auto simp: pipe_defs split: option.splits if_splits prod.splits)

interpretation inbound: byte_pipe "conn_live i n" "in_held n" "host_push i" "guest_take n" for i n
  by unfold_locales (auto simp: pipe_defs split: option.splits if_splits prod.splits)

text \<open>
  The connector's byte streams are in order and lossless.  For a live connection, whatever chunks
  the network stack and the embedder offer and whenever either side drains, the bytes accepted in each
  direction come out of the other end exactly once and in order, the rest still being in the channel; a
  chunk the bounded channel refuses is reported and leaves nothing behind.
\<close>

theorem queue_streams:
  assumes "conn_live i n st"
  shows "(run_pipe (guest_send n) (host_drain i) st ops = (taken, out, st1) \<longrightarrow> conn_live i n st1 \<and> out_held n st @ taken = out @ out_held n st1) \<and>
    (run_pipe (host_push i) (guest_take n) st ops = (taken, out, st2) \<longrightarrow> conn_live i n st2 \<and> in_held n st @ taken = out @ in_held n st2)"
  using outbound.pipe_fifo [OF assms] inbound.pipe_fifo [OF assms] by blast

section \<open>Connection ids\<close>

lemma free_id_finds:
  assumes "\<not> live j"
  shows "\<exists>k. free_id live i = Some k \<and> \<not> live k"
proof (induction "unat (j - i)" arbitrary: i)
  case 0
  then have "j - i = 0" using unsigned_eq_0_iff [of "j - i", where ?'a = nat] by simp
  then have "i = j" by simp
  then show ?case using assms by (subst free_id.simps) simp
next
  case (Suc d)
  show ?case
  proof (cases "live i")
    case True
    have "j - i \<noteq> 0" using Suc(2) by auto
    then have "unat (j - (i + 1)) = unat (j - i) - 1" using unat_minus_one [of "j - i"] by (simp add: diff_diff_eq)
    then have "d = unat (j - (i + 1))" using Suc(2) by simp
    then show ?thesis using Suc(1) True by (subst free_id.simps) simp
  qed (subst free_id.simps, simp)
qed

text \<open>
  Opening a connection ends and is fresh.  As long as one of the 2^32 ids is free, the connector
  returns: a link no other connection uses, empty in both directions, registered under an id that was
  free, with every live connection and its channels unchanged, and reported to the embedder with its
  destination.
\<close>

theorem queue_connect_fresh:
  assumes "conns s j = None" "\<And>i c. conns s i = Some c \<Longrightarrow> qc_link c < link_count ls"
  shows "\<exists>n s' ls' i. queue_connect s ls ip port = Some (n, s', ls') \<and> conns s i = None \<and> conn_live i n (s', ls') \<and>
    out_held n (s', ls') = [] \<and> in_held n (s', ls') = [] \<and> (i, ip, port) \<in> set (fst (take_new s')) \<and> (\<forall>k < link_count ls. links ls' k = links ls k) \<and>
    (\<forall>k c. conns s k = Some c \<longrightarrow> conns s' k = Some c \<and> qc_link c \<noteq> n)"
proof -
  obtain i where i: "free_id (\<lambda>i. conns s i \<noteq> None) (next_id s) = Some i" "conns s i = None"
    using free_id_finds [of "\<lambda>i. conns s i \<noteq> None" j "next_id s"] assms(1) by auto
  then show ?thesis using assms(2)
    by (fastforce simp: queue_connect_def conn_live_def out_held_def in_held_def sync_channel_def take_new_def map_filter_def new_link_def)
qed

definition no_links :: link_store where
  "no_links = \<lparr>links = (\<lambda>_. \<lparr>l_out = sync_channel 0, l_in = sync_channel 0, l_stop = True\<rparr>), link_count = 0\<rparr>"

theorem queue_connect_fresh_witness:
  "\<exists>n s' ls' i. queue_connect queue_new no_links (1, 2, 3, 4) 80 = Some (n, s', ls') \<and> conn_live i n (s', ls')"
  using queue_connect_fresh [of queue_new 0 no_links "(1, 2, 3, 4)" 80] by (auto simp: queue_new_def)

definition sample_queue :: "queue_state \<times> link_store" where
  "sample_queue =
     (queue_new\<lparr>conns := [7 \<mapsto> \<lparr>dst_ip = (1, 2, 3, 4), dst_port = 80, qc_link = 0, write_closed = False, wc_reported = False\<rparr>]\<rparr>,
      new_link no_links \<lparr>l_out = sync_channel 1, l_in = sync_channel 1, l_stop = False\<rparr>)"

theorem queue_streams_witness:
  "\<exists>st. run_pipe (guest_send 0) (host_drain 7) sample_queue [Inl [1, 2], Inl [3], Inr ()] = ([1, 2], [1, 2], st) \<and> conn_live 7 0 st"
proof -
  have l: "conn_live 7 0 sample_queue" by (simp add: conn_live_def sample_queue_def new_link_def no_links_def)
  obtain st where "run_pipe (guest_send 0) (host_drain 7) sample_queue [Inl [1, 2], Inl [3], Inr ()] = ([1, 2], [1, 2], st)"
    by (simp add: sample_queue_def pipe_defs sync_channel_def no_links_def)
  then show ?thesis using queue_streams [OF l, of "[Inl [1, 2], Inl [3], Inr ()]"] by blast
qed

end
