(* ===== verification/NetNat.thy ===== *)
theory NetNat
  imports NetForward NetQueue
begin

unbundle bit_operations_syntax

text \<open>
  The frame queues shared with the TCP/IP stack (\<^verbatim>\<open>crates/net/src/device.rs\<close>) and the network address
  translator (\<^verbatim>\<open>crates/net/src/nat.rs\<close>).  The TCP/IP stack itself is the smoltcp library: it enters as a
  record of the operations the code calls, over a state of its own, and the function that opens the
  outside connection is an argument as in the source (\<^verbatim>\<open>Connect\<close>).  The flow table is an association
  list in some iteration order of the \<^verbatim>\<open>HashMap\<close>.  The lemmas show that only permitted destinations are
  ever opened, that the table is bounded, and that the pump loses and reorders no bytes.
\<close>

section \<open>The device queues\<close>

record guest_device =
  gd_rx :: "bytes list"
  gd_tx :: "bytes list"

definition device_new :: guest_device where "device_new = \<lparr>gd_rx = [], gd_tx = []\<rparr>"

definition dev_push_guest_frame :: "guest_device \<Rightarrow> bytes \<Rightarrow> guest_device" where
  "dev_push_guest_frame d frame = d\<lparr>gd_rx := gd_rx d @ [frame]\<rparr>"

definition dev_pop_egress :: "guest_device \<Rightarrow> bytes option \<times> guest_device" where
  "dev_pop_egress d = (case gd_tx d of [] \<Rightarrow> (None, d) | f # r \<Rightarrow> (Some f, d\<lparr>gd_tx := r\<rparr>))"

definition dev_requeue_egress_front :: "guest_device \<Rightarrow> bytes \<Rightarrow> guest_device" where
  "dev_requeue_egress_front d frame = d\<lparr>gd_tx := frame # gd_tx d\<rparr>"

definition dev_has_egress :: "guest_device \<Rightarrow> bool" where
  "dev_has_egress d = (gd_tx d \<noteq> [])"

definition dev_receive :: "guest_device \<Rightarrow> bytes option \<times> guest_device" where
  "dev_receive d = (case gd_rx d of [] \<Rightarrow> (None, d) | f # r \<Rightarrow> (Some f, d\<lparr>gd_rx := r\<rparr>))"

definition tx_consume :: "guest_device \<Rightarrow> nat \<Rightarrow> (bytes \<Rightarrow> 'r \<times> bytes) \<Rightarrow> 'r \<times> guest_device" where
  "tx_consume d len f = (let (r, buf) = f (replicate len 0) in (r, d\<lparr>gd_tx := gd_tx d @ [buf]\<rparr>))"

section \<open>Flows\<close>

definition NAT_ETH_IPV4 :: u16 where "NAT_ETH_IPV4 = 0x0800"
definition IP_PROTO_TCP :: u8 where "IP_PROTO_TCP = 6"
definition TCP_SYN :: u8 where "TCP_SYN = 0x02"
definition TCP_ACK :: u8 where "TCP_ACK = 0x10"
definition PUMP_CHUNK :: nat where "PUMP_CHUNK = 8 * 1024"
definition MAX_FLOWS :: nat where "MAX_FLOWS = 64"
definition UDP_SLOTS :: nat where "UDP_SLOTS = 8"

record flow_key =
  fk_guest_port :: u16
  fk_dst_ip :: ipv4
  fk_dst_port :: u16

record flow =
  fl_handle :: nat
  fl_link :: nat
  to_host :: bool
  pending_to_host :: "bytes option"
  pending_to_guest :: "bytes option"
  host_done :: bool
  established :: bool

text \<open>
  The smoltcp operations the code calls.  \<open>sm_open\<close> is a new TCP socket with 64 KiB buffers and a thirty
  second timeout that listens on one destination and joins the socket set; \<open>sm_send\<close> and \<open>sm_recv\<close> are
  \<^verbatim>\<open>send_slice\<close> and \<^verbatim>\<open>recv_slice\<close>, where None is an error.
\<close>

record 's tcpip =
  sm_new :: "ipv4 \<Rightarrow> bytes \<Rightarrow> 's"
  sm_poll :: "int \<Rightarrow> guest_device \<Rightarrow> 's \<Rightarrow> guest_device \<times> 's"
  sm_open :: "ipv4 \<Rightarrow> u16 \<Rightarrow> 's \<Rightarrow> (nat \<times> 's) option"
  sm_may_send :: "'s \<Rightarrow> nat \<Rightarrow> bool"
  sm_may_recv :: "'s \<Rightarrow> nat \<Rightarrow> bool"
  sm_can_send :: "'s \<Rightarrow> nat \<Rightarrow> bool"
  sm_can_recv :: "'s \<Rightarrow> nat \<Rightarrow> bool"
  sm_closed :: "'s \<Rightarrow> nat \<Rightarrow> bool"
  sm_close_wait :: "'s \<Rightarrow> nat \<Rightarrow> bool"
  sm_send :: "'s \<Rightarrow> nat \<Rightarrow> bytes \<Rightarrow> nat option \<times> 's"
  sm_recv :: "'s \<Rightarrow> nat \<Rightarrow> nat \<Rightarrow> bytes option \<times> 's"
  sm_close :: "'s \<Rightarrow> nat \<Rightarrow> 's"
  sm_remove :: "'s \<Rightarrow> nat \<Rightarrow> 's"
  sm_udp_recv :: "'s \<Rightarrow> (bytes \<times> ipv4 \<times> u16) option \<times> 's"
  sm_udp_send :: "'s \<Rightarrow> bytes \<Rightarrow> ipv4 \<times> u16 \<Rightarrow> 's"

section \<open>Pumping one flow\<close>

datatype fetched = Stop flow | Go flow link_store

definition fetch_host_chunk :: "link_store \<Rightarrow> flow \<Rightarrow> fetched" where
  "fetch_host_chunk ls fl =
     (if pending_to_guest fl = None
      then (case try_recv (l_in (links ls (fl_link fl))) of
        (RecvOk b, ch) \<Rightarrow> Go (fl\<lparr>pending_to_guest := Some b\<rparr>) (upd_link ls (fl_link fl) (\<lambda>l. l\<lparr>l_in := ch\<rparr>))
      | (RecvEmpty, ch) \<Rightarrow> Stop fl
      | (RecvDisconnected, ch) \<Rightarrow> Stop (fl\<lparr>host_done := True\<rparr>))
      else Go fl ls)"

definition guest_backlog :: "link_store \<Rightarrow> flow \<Rightarrow> nat" where
  "guest_backlog ls fl = length (chan_q (l_in (links ls (fl_link fl)))) + (if pending_to_guest fl = None then 0 else 1)"

lemma fetch_backlog: "fetch_host_chunk ls fl = Go fl1 ls1 \<Longrightarrow>
  fl_link fl1 = fl_link fl \<and> fl_handle fl1 = fl_handle fl \<and> pending_to_guest fl1 \<noteq> None \<and> guest_backlog ls1 fl1 = guest_backlog ls fl"
  by (auto simp: fetch_host_chunk_def guest_backlog_def try_recv_def upd_link_def split: if_splits prod.splits recv_result.splits list.splits)

function to_guest_loop :: "'s tcpip \<Rightarrow> 's \<Rightarrow> link_store \<Rightarrow> flow \<Rightarrow> 's \<times> link_store \<times> flow" where
  "to_guest_loop tcp net ls fl =
     (case fetch_host_chunk ls fl of
        Stop fl1 \<Rightarrow> (net, ls, fl1)
      | Go fl1 ls1 \<Rightarrow>
          (case pending_to_guest fl1 of
             None \<Rightarrow> (net, ls1, fl1)
           | Some buf \<Rightarrow>
               if \<not> sm_can_send tcp net (fl_handle fl) then (net, ls1, fl1)
               else (case sm_send tcp net (fl_handle fl) buf of
                 (Some n, net1) \<Rightarrow>
                   if n < length buf then (net1, ls1, fl1\<lparr>pending_to_guest := Some (drop n buf)\<rparr>)
                   else to_guest_loop tcp net1 ls1 (fl1\<lparr>pending_to_guest := None\<rparr>)
               | (None, net1) \<Rightarrow> (net1, ls1, fl1\<lparr>pending_to_guest := None\<rparr>))))"
  by pat_completeness auto
termination
proof (relation "measure (\<lambda>(tcp, net, ls, fl). guest_backlog ls fl)")
  fix tcp :: "'s tcpip" and net ls fl fl1 ls1 buf n net1
  assume "fetch_host_chunk ls fl = Go fl1 ls1" "pending_to_guest fl1 = Some (buf :: bytes)"
  then show "((tcp, net1, ls1, fl1\<lparr>pending_to_guest := None\<rparr>), tcp, net, ls, fl) \<in> measure (\<lambda>(tcp, net, ls, fl). guest_backlog ls fl)"
    using fetch_backlog [of ls fl fl1 ls1] by (auto simp: guest_backlog_def split: if_splits)
qed simp

function to_host_loop :: "'s tcpip \<Rightarrow> 's \<Rightarrow> link_store \<Rightarrow> flow \<Rightarrow> nat \<Rightarrow> 's \<times> link_store \<times> flow" where
  "to_host_loop tcp net ls fl moved =
     (case pending_to_host fl of
        Some buf \<Rightarrow>
          if \<not> to_host fl then (net, ls, fl\<lparr>pending_to_host := None\<rparr>)
          else (case try_send (l_out (links ls (fl_link fl))) buf of
            (SendOk, ch) \<Rightarrow>
              to_host_loop tcp net (upd_link ls (fl_link fl) (\<lambda>l. l\<lparr>l_out := ch\<rparr>)) (fl\<lparr>pending_to_host := None\<rparr>) moved
          | (SendFull, ch) \<Rightarrow> (net, ls, fl)
          | (SendDisconnected, ch) \<Rightarrow> (net, ls, fl\<lparr>pending_to_host := None\<rparr>))
      | None \<Rightarrow>
          if sm_can_recv tcp net (fl_handle fl) \<and> moved < PUMP_CHUNK then
            (case sm_recv tcp net (fl_handle fl) 4096 of
               (Some bs, net1) \<Rightarrow>
                 if bs \<noteq> [] then to_host_loop tcp net1 ls (fl\<lparr>pending_to_host := Some bs\<rparr>) (moved + length bs)
                 else (net1, ls, fl)
             | (None, net1) \<Rightarrow> (net1, ls, fl))
          else (net, ls, fl))"
  by pat_completeness auto
termination
proof (relation "measure (\<lambda>(tcp, net, ls, fl, moved). 2 * (PUMP_CHUNK - moved) + (if pending_to_host fl = None then 0 else 1))")
  fix tcp :: "'s tcpip" and net ls fl moved bs net1
  assume "pending_to_host fl = None" "sm_can_recv tcp net (fl_handle fl) \<and> moved < PUMP_CHUNK" "bs \<noteq> ([] :: bytes)"
  then show "((tcp, net1, ls, fl\<lparr>pending_to_host := Some bs\<rparr>, moved + length bs), tcp, net, ls, fl, moved) \<in>
    measure (\<lambda>(tcp, net, ls, fl, moved). 2 * (PUMP_CHUNK - moved) + (if pending_to_host fl = None then 0 else 1))"
    by (cases bs) (simp_all, linarith)
qed simp_all

declare to_guest_loop.simps [simp del] to_host_loop.simps [simp del]

definition pump_flow :: "'s tcpip \<Rightarrow> 's \<Rightarrow> link_store \<Rightarrow> flow \<Rightarrow> 's \<times> link_store \<times> flow" where
  "pump_flow tcp net ls fl =
     (let h = fl_handle fl;
          fl0 = (if sm_may_send tcp net h \<or> sm_may_recv tcp net h then fl\<lparr>established := True\<rparr> else fl);
          (net1, ls1, fl1) = to_guest_loop tcp net ls fl0;
          net2 = (if host_done fl1 \<and> pending_to_guest fl1 = None \<and> sm_may_send tcp net1 h then sm_close tcp net1 h else net1);
          (net3, ls3, fl3) = to_host_loop tcp net2 ls1 fl1 0
      in if sm_close_wait tcp net3 h \<and> pending_to_host fl3 = None \<and> \<not> sm_can_recv tcp net3 h
         then (net3, upd_link ls3 (fl_link fl) (\<lambda>l. l\<lparr>l_out := (l_out l)\<lparr>tx_alive := False\<rparr>\<rparr>), fl3\<lparr>to_host := False\<rparr>)
         else (net3, ls3, fl3))"

section \<open>The stack\<close>

definition parse_initial_syn :: "bytes \<Rightarrow> flow_key option" where
  "parse_initial_syn frame =
     (if length frame < 14 + 20 \<or> getb16 frame 12 \<noteq> NAT_ETH_IPV4 then None
      else
        (let ip = 14; ihl = unat ((frame ! ip) AND 0x0F) * 4 in
         if ihl < 20 \<or> length frame < ip + ihl + 20 \<or> frame ! (ip + 9) \<noteq> IP_PROTO_TCP then None
         else
           (let tcp_off = ip + ihl; flags = frame ! (tcp_off + 13) in
            if flags AND TCP_SYN = 0 \<or> flags AND TCP_ACK \<noteq> 0 then None
            else Some \<lparr>fk_guest_port = getb16 frame tcp_off,
                       fk_dst_ip = (frame ! (ip + 16), frame ! (ip + 17), frame ! (ip + 18), frame ! (ip + 19)),
                       fk_dst_port = getb16 frame (tcp_off + 2)\<rparr>)))"

record ('s, 'c) nat_stack =
  ns_net :: 's
  ns_device :: guest_device
  ns_dns :: forwarder
  ns_guest_ip :: ipv4
  ns_flows :: "(flow_key \<times> flow) list"
  ns_conn :: 'c
  ns_links :: link_store

text \<open>How an outside connection is opened (\<^verbatim>\<open>Connect\<close>): None when the call does not return.\<close>

type_synonym 'c connect = "'c \<Rightarrow> link_store \<Rightarrow> ipv4 \<Rightarrow> u16 \<Rightarrow> (nat \<times> 'c \<times> link_store) option"

definition with_connect :: "'s tcpip \<Rightarrow> ipv4 \<Rightarrow> bytes \<Rightarrow> ipv4 \<Rightarrow> forwarder \<Rightarrow> 'c \<Rightarrow> link_store \<Rightarrow> ('s, 'c) nat_stack" where
  "with_connect tcp gw mac guest dns c ls =
     \<lparr>ns_net = sm_new tcp gw mac, ns_device = device_new, ns_dns = dns, ns_guest_ip = guest, ns_flows = [],
      ns_conn = c, ns_links = ls\<rparr>"

definition try_open_flow :: "'s tcpip \<Rightarrow> 'c connect \<Rightarrow> ('s, 'c) nat_stack \<Rightarrow> flow_key \<Rightarrow> ('s, 'c) nat_stack option" where
  "try_open_flow tcp connect s key =
     (if MAX_FLOWS \<le> length (ns_flows s) then Some s
      else case connection_permitted (ns_dns s) (fk_dst_ip key) (fk_dst_port key) of
        None \<Rightarrow> Some s
      | Some host \<Rightarrow>
          (case sm_open tcp (fk_dst_ip key) (fk_dst_port key) (ns_net s) of
             None \<Rightarrow> Some s
           | Some (h, net1) \<Rightarrow>
               (case connect (ns_conn s) (ns_links s) (fk_dst_ip key) (fk_dst_port key) of
                  None \<Rightarrow> None
                | Some (n, c1, ls1) \<Rightarrow>
                    Some (s\<lparr>ns_net := net1, ns_conn := c1, ns_links := ls1,
                      ns_flows := ns_flows s @ [(key, \<lparr>fl_handle = h, fl_link = n, to_host = True, pending_to_host = None,
                        pending_to_guest = None, host_done = False, established = False\<rparr>)]\<rparr>))))"

definition push_guest_frame_raw :: "('s, 'c) nat_stack \<Rightarrow> bytes \<Rightarrow> ('s, 'c) nat_stack" where
  "push_guest_frame_raw s frame = s\<lparr>ns_device := dev_push_guest_frame (ns_device s) frame\<rparr>"

definition push_guest_frame :: "'s tcpip \<Rightarrow> 'c connect \<Rightarrow> ('s, 'c) nat_stack \<Rightarrow> bytes \<Rightarrow> ('s, 'c) nat_stack option" where
  "push_guest_frame tcp connect s frame =
     map_option (\<lambda>s1. push_guest_frame_raw s1 frame)
       (case parse_initial_syn frame of
          Some key \<Rightarrow> if map_of (ns_flows s) key = None then try_open_flow tcp connect s key else Some s
        | None \<Rightarrow> Some s)"

fun udp_recv_all :: "'s tcpip \<Rightarrow> nat \<Rightarrow> 's \<Rightarrow> (bytes \<times> ipv4 \<times> u16) list \<times> 's" where
  "udp_recv_all tcp 0 net = ([], net)"
| "udp_recv_all tcp (Suc fuel) net =
     (case sm_udp_recv tcp net of
        (None, net1) \<Rightarrow> ([], net1)
      | (Some m, net1) \<Rightarrow> (let (ms, net2) = udp_recv_all tcp fuel net1 in (m # ms, net2)))"

fun answer_all :: "'s tcpip \<Rightarrow> forwarder \<Rightarrow> 's \<Rightarrow> (bytes \<times> ipv4 \<times> u16) list \<Rightarrow> forwarder \<times> 's" where
  "answer_all tcp dns net [] = (dns, net)"
| "answer_all tcp dns net ((query, endpoint) # ms) =
     (case respond_to_query dns query of
        (Some resp, dns1) \<Rightarrow> answer_all tcp dns1 (sm_udp_send tcp net resp endpoint) ms
      | (None, dns1) \<Rightarrow> answer_all tcp dns1 net ms)"

definition service_dns :: "'s tcpip \<Rightarrow> ('s, 'c) nat_stack \<Rightarrow> ('s, 'c) nat_stack" where
  "service_dns tcp s =
     (let (pending, net1) = udp_recv_all tcp (Suc UDP_SLOTS) (ns_net s);
          (dns1, net2) = answer_all tcp (ns_dns s) net1 pending
      in s\<lparr>ns_dns := dns1, ns_net := net2\<rparr>)"

fun pump_each :: "'s tcpip \<Rightarrow> 's \<Rightarrow> link_store \<Rightarrow> (flow_key \<times> flow) list \<Rightarrow> 's \<times> link_store \<times> (flow_key \<times> flow \<times> bool) list" where
  "pump_each tcp net ls [] = (net, ls, [])"
| "pump_each tcp net ls ((key, fl) # fls) =
     (let (net1, ls1, fl1) = pump_flow tcp net ls fl; dead = sm_closed tcp net1 (fl_handle fl);
          (net2, ls2, rest) = pump_each tcp net1 ls1 fls
      in (net2, ls2, (key, fl1, dead) # rest))"

definition drop_flow :: "link \<Rightarrow> link" where
  "drop_flow l = l\<lparr>l_stop := True, l_out := (l_out l)\<lparr>tx_alive := False\<rparr>, l_in := (l_in l)\<lparr>rx_alive := False\<rparr>\<rparr>"

fun reap :: "'s tcpip \<Rightarrow> 's \<Rightarrow> link_store \<Rightarrow> flow list \<Rightarrow> 's \<times> link_store" where
  "reap tcp net ls [] = (net, ls)"
| "reap tcp net ls (fl # fls) = reap tcp (sm_remove tcp net (fl_handle fl)) (upd_link ls (fl_link fl) drop_flow) fls"

definition pump_flows :: "'s tcpip \<Rightarrow> ('s, 'c) nat_stack \<Rightarrow> ('s, 'c) nat_stack" where
  "pump_flows tcp s =
     (let (net1, ls1, fls) = pump_each tcp (ns_net s) (ns_links s) (ns_flows s);
          (net2, ls2) = reap tcp net1 ls1 (map (\<lambda>(k, fl, d). fl) (filter (\<lambda>(k, fl, d). d) fls))
      in s\<lparr>ns_net := net2, ns_links := ls2, ns_flows := map (\<lambda>(k, fl, d). (k, fl)) (filter (\<lambda>(k, fl, d). \<not> d) fls)\<rparr>)"

definition iface_poll :: "'s tcpip \<Rightarrow> int \<Rightarrow> ('s, 'c) nat_stack \<Rightarrow> ('s, 'c) nat_stack" where
  "iface_poll tcp now s = (let (dev, net) = sm_poll tcp now (ns_device s) (ns_net s) in s\<lparr>ns_device := dev, ns_net := net\<rparr>)"

definition nat_poll :: "'s tcpip \<Rightarrow> int \<Rightarrow> ('s, 'c) nat_stack \<Rightarrow> ('s, 'c) nat_stack" where
  "nat_poll tcp now s = iface_poll tcp now (pump_flows tcp (service_dns tcp (iface_poll tcp now s)))"

definition nat_pop_egress :: "('s, 'c) nat_stack \<Rightarrow> bytes option \<times> ('s, 'c) nat_stack" where
  "nat_pop_egress s = (let (f, d) = dev_pop_egress (ns_device s) in (f, s\<lparr>ns_device := d\<rparr>))"

definition nat_requeue_egress_front :: "('s, 'c) nat_stack \<Rightarrow> bytes \<Rightarrow> ('s, 'c) nat_stack" where
  "nat_requeue_egress_front s frame = s\<lparr>ns_device := dev_requeue_egress_front (ns_device s) frame\<rparr>"

definition nat_has_egress :: "('s, 'c) nat_stack \<Rightarrow> bool" where
  "nat_has_egress s = dev_has_egress (ns_device s)"

definition flow_count :: "('s, 'c) nat_stack \<Rightarrow> nat" where
  "flow_count s = length (ns_flows s)"

definition cache_dns :: "('s, 'c) nat_stack \<Rightarrow> ustring \<Rightarrow> ipv4 list \<Rightarrow> nat \<times> ('s, 'c) nat_stack" where
  "cache_dns s name ips = (let (n, dns1) = cache_resolution (ns_dns s) name ips in (n, s\<lparr>ns_dns := dns1\<rparr>))"

definition take_dns_requests :: "('s, 'c) nat_stack \<Rightarrow> ustring set \<times> ('s, 'c) nat_stack" where
  "take_dns_requests s = (let (ns, dns1) = take_pending (ns_dns s) in (ns, s\<lparr>ns_dns := dns1\<rparr>))"

definition host_for_ip :: "('s, 'c) nat_stack \<Rightarrow> ipv4 \<Rightarrow> ustring option" where
  "host_for_ip s ip = name_for_ip (ns_dns s) ip"

section \<open>Only permitted destinations\<close>

definition permitted_dest :: "ipv4 \<Rightarrow> allowlist \<Rightarrow> ipv4 \<Rightarrow> u16 \<Rightarrow> bool" where
  "permitted_dest gw al ip port \<longleftrightarrow> is_globally_routable ip \<and> ip \<noteq> gw \<and> (\<exists>name. permits al name port)"

text \<open>
  Connector states reached by opening permitted destinations and by what its host does in between
  (\<open>host\<close>, any relation on the connector and the channels).
\<close>

inductive permitted_calls :: "ipv4 \<Rightarrow> allowlist \<Rightarrow> 'c connect \<Rightarrow> ('c \<times> link_store \<Rightarrow> 'c \<times> link_store \<Rightarrow> bool) \<Rightarrow> 'c \<Rightarrow> 'c \<Rightarrow> bool"
  for gw :: ipv4 and al :: allowlist and connect :: "'c connect" and host :: "'c \<times> link_store \<Rightarrow> 'c \<times> link_store \<Rightarrow> bool" and c0 :: 'c where
  no_calls: "permitted_calls gw al connect host c0 c0"
| call: "permitted_calls gw al connect host c0 c \<Longrightarrow> permitted_dest gw al ip port \<Longrightarrow> connect c ls ip port = Some (n, c1, ls1) \<Longrightarrow>
    permitted_calls gw al connect host c0 c1"
| hosted: "permitted_calls gw al connect host c0 c \<Longrightarrow> host (c, ls) (c1, ls1) \<Longrightarrow> permitted_calls gw al connect host c0 c1"

inductive nat_reachable :: "'s tcpip \<Rightarrow> 'c connect \<Rightarrow> ('c \<times> link_store \<Rightarrow> 'c \<times> link_store \<Rightarrow> bool) \<Rightarrow> ipv4 \<Rightarrow> allowlist \<Rightarrow> 'c \<Rightarrow> ('s, 'c) nat_stack \<Rightarrow> bool"
  for tcp :: "'s tcpip" and connect :: "'c connect" and host :: "'c \<times> link_store \<Rightarrow> 'c \<times> link_store \<Rightarrow> bool" and gw :: ipv4 and al :: allowlist and c0 :: 'c where
  nat_start: "fw_reachable gw al dns \<Longrightarrow> nat_reachable tcp connect host gw al c0 (with_connect tcp gw mac guest dns c0 ls)"
| nat_push: "nat_reachable tcp connect host gw al c0 s \<Longrightarrow> push_guest_frame tcp connect s frame = Some s1 \<Longrightarrow> nat_reachable tcp connect host gw al c0 s1"
| nat_raw: "nat_reachable tcp connect host gw al c0 s \<Longrightarrow> nat_reachable tcp connect host gw al c0 (push_guest_frame_raw s frame)"
| nat_polls: "nat_reachable tcp connect host gw al c0 s \<Longrightarrow> nat_reachable tcp connect host gw al c0 (nat_poll tcp now s)"
| nat_pop: "nat_reachable tcp connect host gw al c0 s \<Longrightarrow> nat_reachable tcp connect host gw al c0 (snd (nat_pop_egress s))"
| nat_requeue: "nat_reachable tcp connect host gw al c0 s \<Longrightarrow> nat_reachable tcp connect host gw al c0 (nat_requeue_egress_front s frame)"
| nat_cache: "nat_reachable tcp connect host gw al c0 s \<Longrightarrow> nat_reachable tcp connect host gw al c0 (snd (cache_dns s name ips))"
| nat_take: "nat_reachable tcp connect host gw al c0 s \<Longrightarrow> nat_reachable tcp connect host gw al c0 (snd (take_dns_requests s))"
| nat_host: "nat_reachable tcp connect host gw al c0 s \<Longrightarrow> host (ns_conn s, ns_links s) (c1, ls1) \<Longrightarrow>
    nat_reachable tcp connect host gw al c0 (s\<lparr>ns_conn := c1, ns_links := ls1\<rparr>)"

definition flows_ok :: "ipv4 \<Rightarrow> allowlist \<Rightarrow> (flow_key \<times> flow) list \<Rightarrow> bool" where
  "flows_ok gw al fls \<longleftrightarrow> length fls \<le> MAX_FLOWS \<and> distinct (map fst fls) \<and>
     (\<forall>k \<in> set (map fst fls). permitted_dest gw al (fk_dst_ip k) (fk_dst_port k))"

lemma gate_sound: "fw_reachable gw al f \<Longrightarrow> connection_permitted f ip port = Some name \<Longrightarrow> permitted_dest gw al ip port"
  using fw_reachable_ok [of gw al f] fw_ok_ip [of f ip name]
  by (auto simp: connection_permitted_def permitted_dest_def is_routable_def split: option.splits if_splits)

lemma answer_all_reachable: "fw_reachable gw al dns \<Longrightarrow> fw_reachable gw al (fst (answer_all tcp dns net ms))"
proof (induction tcp dns net ms rule: answer_all.induct)
  case (2 tcp dns net query endpoint ms)
  then show ?case using fw_query [OF 2(3), of query] by (auto split: prod.splits option.splits)
qed simp

lemma pump_each_keys: "map fst (snd (snd (pump_each tcp net ls fls))) = map fst fls"
  by (induction tcp net ls fls rule: pump_each.induct) (auto simp: Let_def split: prod.splits)

lemma flows_ok_filter:
  assumes "flows_ok gw al fls" "map fst gs = map fst fls"
  shows "flows_ok gw al (map (\<lambda>(k, fl, d). (k, fl)) (filter (\<lambda>(k, fl, d). \<not> d) gs))"
proof -
  have m: "map fst (map (\<lambda>(k, fl, d). (k, fl)) hs) = map fst hs" for hs :: "(flow_key \<times> flow \<times> bool) list" by auto
  have "length gs = length fls" using arg_cong [OF assms(2), of length] by simp
  moreover have "set (map fst (filter (\<lambda>(k, fl, d). \<not> d) gs)) \<subseteq> set (map fst fls)" using assms(2) by (metis filter_is_subset image_mono set_map)
  moreover have "distinct (map fst (filter (\<lambda>(k, fl, d). \<not> d) gs))" using assms by (simp add: flows_ok_def distinct_map_filter)
  moreover have "length (filter (\<lambda>(k, fl, d). \<not> d) gs) \<le> length fls"
    using length_filter_le [of "\<lambda>(k, fl, d). \<not> d" gs] \<open>length gs = length fls\<close> by simp
  ultimately show ?thesis using assms(1) unfolding flows_ok_def m length_map by (blast intro: le_trans)
qed

lemma try_open_flow_ok:
  assumes "try_open_flow tcp connect s key = Some s1" "map_of (ns_flows s) key = None" "flows_ok gw al (ns_flows s)"
    and "fw_reachable gw al (ns_dns s)" "permitted_calls gw al connect host c0 (ns_conn s)"
  shows "flows_ok gw al (ns_flows s1) \<and> ns_dns s1 = ns_dns s \<and> permitted_calls gw al connect host c0 (ns_conn s1)"
proof -
  have k: "key \<notin> fst ` set (ns_flows s)" using assms(2) by (simp add: map_of_eq_None_iff)
  let ?perm = "connection_permitted (ns_dns s) (fk_dst_ip key) (fk_dst_port key)"
  let ?open = "sm_open tcp (fk_dst_ip key) (fk_dst_port key) (ns_net s)"
  let ?conn = "connect (ns_conn s) (ns_links s) (fk_dst_ip key) (fk_dst_port key)"
  show ?thesis
  proof (cases "length (ns_flows s) < MAX_FLOWS \<and> ?perm \<noteq> None \<and> ?open \<noteq> None")
    case True
    then obtain host' h net1 where t: "length (ns_flows s) < MAX_FLOWS" "?perm = Some host'" "?open = Some (h, net1)" by auto
    with assms(1) obtain n c1 ls1 where c: "?conn = Some (n, c1, ls1)" by (cases ?conn) (auto simp: try_open_flow_def)
    have d: "permitted_dest gw al (fk_dst_ip key) (fk_dst_port key)" using gate_sound [OF assms(4) t(2)] .
    have "flows_ok gw al (ns_flows s @ [(key, fl)])" for fl using assms(3) k d t(1) by (simp add: flows_ok_def)
    then show ?thesis using permitted_calls.call [OF assms(5) d c] assms(1) t c by (auto simp: try_open_flow_def)
  next
    case False
    then have "s1 = s" using assms(1) by (auto simp: try_open_flow_def not_le split: if_splits option.splits)
    then show ?thesis using assms(3,5) by simp
  qed
qed

lemma push_guest_frame_ok:
  assumes "push_guest_frame tcp connect s frame = Some s1" "flows_ok gw al (ns_flows s)"
    and "fw_reachable gw al (ns_dns s)" "permitted_calls gw al connect host c0 (ns_conn s)"
  shows "flows_ok gw al (ns_flows s1) \<and> fw_reachable gw al (ns_dns s1) \<and> permitted_calls gw al connect host c0 (ns_conn s1)"
proof -
  consider "s1 = push_guest_frame_raw s frame"
    | key s2 where "s1 = push_guest_frame_raw s2 frame" "map_of (ns_flows s) key = None" "try_open_flow tcp connect s key = Some s2"
    using assms(1) by (auto simp: push_guest_frame_def split: option.splits if_splits)
  then show ?thesis
  proof cases
    case (2 key s2)
    show ?thesis using try_open_flow_ok [OF 2(3,2) assms(2-4)] assms(3) 2(1) by (simp add: push_guest_frame_raw_def)
  qed (use assms(2-4) in \<open>simp add: push_guest_frame_raw_def\<close>)
qed

lemma nat_poll_ok:
  assumes "flows_ok gw al (ns_flows s)" "fw_reachable gw al (ns_dns s)"
  shows "flows_ok gw al (ns_flows (nat_poll tcp now s))" "fw_reachable gw al (ns_dns (nat_poll tcp now s))"
    "ns_conn (nat_poll tcp now s) = ns_conn s"
proof -
  define s1 where "s1 = service_dns tcp (iface_poll tcp now s)"
  have d: "ns_flows s1 = ns_flows s" "ns_conn s1 = ns_conn s" "fw_reachable gw al (ns_dns s1)"
    using assms(2) answer_all_reachable [OF assms(2), of tcp] by (simp_all add: s1_def service_dns_def iface_poll_def Let_def case_prod_beta del: udp_recv_all.simps)
  have p: "ns_conn (pump_flows tcp s1) = ns_conn s1" "ns_dns (pump_flows tcp s1) = ns_dns s1"
    by (simp_all add: pump_flows_def Let_def split: prod.splits)
  have "flows_ok gw al (ns_flows (pump_flows tcp s1))"
    using flows_ok_filter [OF _ pump_each_keys [of tcp "ns_net s1" "ns_links s1" "ns_flows s1"], of gw al] assms(1) d(1)
    by (simp add: pump_flows_def Let_def case_prod_beta)
  moreover have n: "nat_poll tcp now s = iface_poll tcp now (pump_flows tcp s1)" by (simp add: nat_poll_def s1_def)
  ultimately show "flows_ok gw al (ns_flows (nat_poll tcp now s))" "fw_reachable gw al (ns_dns (nat_poll tcp now s))"
    "ns_conn (nat_poll tcp now s) = ns_conn s"
    using d p by (simp_all add: n iface_poll_def Let_def case_prod_beta)
qed


section \<open>The pump is lossless\<close>

fun opt_bytes :: "bytes option \<Rightarrow> bytes" where "opt_bytes None = []" | "opt_bytes (Some b) = b"

text \<open>
  What the documentation of a TCP socket promises: \<open>tx\<close> are the bytes it has accepted for the guest so
  far, \<open>rx\<close> those it holds from the guest.  Sending accepts a prefix, and does not fail while the socket
  can send; receiving returns a prefix of what is held; closing touches neither.
\<close>

definition tcp_contract :: "'s tcpip \<Rightarrow> ('s \<Rightarrow> nat \<Rightarrow> bytes) \<Rightarrow> ('s \<Rightarrow> nat \<Rightarrow> bytes) \<Rightarrow> bool" where
  "tcp_contract tcp tx rx \<longleftrightarrow>
     (\<forall>s h bs n s'. sm_send tcp s h bs = (Some n, s') \<longrightarrow> n \<le> length bs \<and> tx s' h = tx s h @ take n bs \<and> rx s' h = rx s h) \<and>
     (\<forall>s h bs. sm_can_send tcp s h \<longrightarrow> fst (sm_send tcp s h bs) \<noteq> None) \<and>
     (\<forall>s h k bs s'. sm_recv tcp s h k = (Some bs, s') \<longrightarrow> rx s h = bs @ rx s' h \<and> tx s' h = tx s h) \<and>
     (\<forall>s h k s'. sm_recv tcp s h k = (None, s') \<longrightarrow> rx s' h = rx s h \<and> tx s' h = tx s h) \<and>
     (\<forall>s h. rx (sm_close tcp s h) h = rx s h \<and> tx (sm_close tcp s h) h = tx s h)"

abbreviation in_q :: "link_store \<Rightarrow> flow \<Rightarrow> bytes" where "in_q ls fl \<equiv> concat (chan_q (l_in (links ls (fl_link fl))))"
abbreviation out_chan :: "link_store \<Rightarrow> flow \<Rightarrow> chan" where "out_chan ls fl \<equiv> l_out (links ls (fl_link fl))"
abbreviation out_q :: "link_store \<Rightarrow> flow \<Rightarrow> bytes" where "out_q ls fl \<equiv> concat (chan_q (out_chan ls fl))"

lemma fetch_stream: "fetch_host_chunk ls fl = Go fl1 ls1 \<Longrightarrow>
    fl_link fl1 = fl_link fl \<and> fl_handle fl1 = fl_handle fl \<and> to_host fl1 = to_host fl \<and> pending_to_host fl1 = pending_to_host fl \<and>
    out_chan ls1 fl = out_chan ls fl \<and> (\<exists>b. pending_to_guest fl1 = Some b \<and> b @ in_q ls1 fl = opt_bytes (pending_to_guest fl) @ in_q ls fl)"
  "fetch_host_chunk ls fl = Stop fl1 \<Longrightarrow>
    fl_link fl1 = fl_link fl \<and> fl_handle fl1 = fl_handle fl \<and> to_host fl1 = to_host fl \<and> pending_to_host fl1 = pending_to_host fl \<and>
    pending_to_guest fl1 = pending_to_guest fl"
  by (auto simp: fetch_host_chunk_def try_recv_def upd_link_def split: if_splits prod.splits recv_result.splits list.splits)

definition to_guest_kept :: "('s \<Rightarrow> nat \<Rightarrow> bytes) \<Rightarrow> ('s \<Rightarrow> nat \<Rightarrow> bytes) \<Rightarrow> 's \<Rightarrow> link_store \<Rightarrow> flow \<Rightarrow> 's \<times> link_store \<times> flow \<Rightarrow> bool" where
  "to_guest_kept tx rx net ls fl = (\<lambda>(net', ls', fl').
     tx net' (fl_handle fl) @ opt_bytes (pending_to_guest fl') @ in_q ls' fl =
       tx net (fl_handle fl) @ opt_bytes (pending_to_guest fl) @ in_q ls fl \<and>
     rx net' (fl_handle fl) = rx net (fl_handle fl) \<and> out_chan ls' fl = out_chan ls fl \<and>
     fl_link fl' = fl_link fl \<and> fl_handle fl' = fl_handle fl \<and> to_host fl' = to_host fl \<and> pending_to_host fl' = pending_to_host fl)"

lemma to_guest_stream:
  assumes "tcp_contract tcp tx rx"
  shows "to_guest_kept tx rx net ls fl (to_guest_loop tcp net ls fl)"
  using assms
proof (induction tcp net ls fl rule: to_guest_loop.induct)
  case (1 tcp net ls fl)
  show ?case
  proof (cases "fetch_host_chunk ls fl")
    case (Stop fl1)
    then show ?thesis using fetch_stream(2) [OF Stop] by (subst to_guest_loop.simps) (simp add: to_guest_kept_def)
  next
    case (Go fl1 ls1)
    obtain buf where f: "fl_link fl1 = fl_link fl" "fl_handle fl1 = fl_handle fl" "to_host fl1 = to_host fl" "pending_to_host fl1 = pending_to_host fl"
      "out_chan ls1 fl = out_chan ls fl" "pending_to_guest fl1 = Some buf" "buf @ in_q ls1 fl = opt_bytes (pending_to_guest fl) @ in_q ls fl"
      using fetch_stream(1) [OF Go] by blast
    show ?thesis
    proof (cases "sm_can_send tcp net (fl_handle fl)")
      case False
      then show ?thesis using f Go by (subst to_guest_loop.simps) (simp add: to_guest_kept_def)
    next
      case True
      then obtain n net1 where s: "sm_send tcp net (fl_handle fl) buf = (Some n, net1)"
        using 1(2) unfolding tcp_contract_def by (metis fst_conv option.exhaust surj_pair)
      have c: "n \<le> length buf" "tx net1 (fl_handle fl) = tx net (fl_handle fl) @ take n buf" "rx net1 (fl_handle fl) = rx net (fl_handle fl)"
        using 1(2) s unfolding tcp_contract_def by blast+
      show ?thesis
      proof (cases "n < length buf")
        case True
        have "take n buf @ drop n buf @ in_q ls1 fl = buf @ in_q ls1 fl" by (simp add: append_assoc [symmetric] del: append_assoc)
        then show ?thesis using True f Go s \<open>sm_can_send tcp net (fl_handle fl)\<close> c
          by (subst to_guest_loop.simps) (simp add: to_guest_kept_def)
      next
        case False
        then have n: "take n buf = buf" using c(1) by simp
        have "to_guest_kept tx rx net1 ls1 (fl1\<lparr>pending_to_guest := None\<rparr>) (to_guest_loop tcp net1 ls1 (fl1\<lparr>pending_to_guest := None\<rparr>))"
          using 1(1) [OF Go f(6) _ s [symmetric] refl False 1(2)] \<open>sm_can_send tcp net (fl_handle fl)\<close> by simp
        moreover have "to_guest_loop tcp net ls fl = to_guest_loop tcp net1 ls1 (fl1\<lparr>pending_to_guest := None\<rparr>)"
          using Go s f(6) False \<open>sm_can_send tcp net (fl_handle fl)\<close> by (subst to_guest_loop.simps) simp
        ultimately show ?thesis using f c n by (auto simp: to_guest_kept_def)
      qed
    qed
  qed
qed

definition to_host_kept :: "('s \<Rightarrow> nat \<Rightarrow> bytes) \<Rightarrow> ('s \<Rightarrow> nat \<Rightarrow> bytes) \<Rightarrow> 's \<Rightarrow> link_store \<Rightarrow> flow \<Rightarrow> 's \<times> link_store \<times> flow \<Rightarrow> bool" where
  "to_host_kept tx rx net ls fl = (\<lambda>(net', ls', fl').
     (to_host fl \<and> rx_alive (out_chan ls fl) \<longrightarrow>
        out_q ls' fl @ opt_bytes (pending_to_host fl') @ rx net' (fl_handle fl) = out_q ls fl @ opt_bytes (pending_to_host fl) @ rx net (fl_handle fl)) \<and>
     tx net' (fl_handle fl) = tx net (fl_handle fl) \<and> l_in (links ls' (fl_link fl)) = l_in (links ls (fl_link fl)) \<and>
     rx_alive (out_chan ls' fl) = rx_alive (out_chan ls fl) \<and> tx_alive (out_chan ls' fl) = tx_alive (out_chan ls fl) \<and>
     chan_cap (out_chan ls' fl) = chan_cap (out_chan ls fl) \<and>
     (length (chan_q (out_chan ls fl)) \<le> chan_cap (out_chan ls fl) \<longrightarrow> length (chan_q (out_chan ls' fl)) \<le> chan_cap (out_chan ls fl)) \<and>
     fl_link fl' = fl_link fl \<and> fl_handle fl' = fl_handle fl \<and> to_host fl' = to_host fl \<and> pending_to_guest fl' = pending_to_guest fl)"

lemma to_host_stream:
  assumes "tcp_contract tcp tx rx"
  shows "to_host_kept tx rx net ls fl (to_host_loop tcp net ls fl moved)"
  using assms
proof (induction tcp net ls fl moved rule: to_host_loop.induct)
  case (1 tcp net ls fl moved)
  show ?case
  proof (cases "pending_to_host fl")
    case (Some buf)
    show ?thesis
    proof (cases "to_host fl \<and> rx_alive (out_chan ls fl) \<and> length (chan_q (out_chan ls fl)) < chan_cap (out_chan ls fl)")
      case True
      let ?ch = "(out_chan ls fl)\<lparr>chan_q := chan_q (out_chan ls fl) @ [buf]\<rparr>"
      have t: "try_send (out_chan ls fl) buf = (SendOk, ?ch)" using True by (simp add: try_send_def)
      let ?ls = "upd_link ls (fl_link fl) (\<lambda>l. l\<lparr>l_out := ?ch\<rparr>)" and ?fl = "fl\<lparr>pending_to_host := None\<rparr>"
      have "to_host_kept tx rx net ?ls ?fl (to_host_loop tcp net ?ls ?fl moved)"
        using 1(2) [OF Some _ t [symmetric] refl 1(3)] True by simp
      moreover have "to_host_loop tcp net ls fl moved = to_host_loop tcp net ?ls ?fl moved"
        using Some True t by (subst to_host_loop.simps) simp
      ultimately show ?thesis using Some True by (auto simp: to_host_kept_def upd_link_def)
    next
      case False
      then show ?thesis using Some by (subst to_host_loop.simps) (auto simp: to_host_kept_def try_send_def)
    qed
  next
    case None
    show ?thesis
    proof (cases "sm_can_recv tcp net (fl_handle fl) \<and> moved < PUMP_CHUNK")
      case True
      obtain r net1 where s: "sm_recv tcp net (fl_handle fl) 4096 = (r, net1)" by fastforce
      have c: "rx net (fl_handle fl) = opt_bytes r @ rx net1 (fl_handle fl)" "tx net1 (fl_handle fl) = tx net (fl_handle fl)"
        using 1(3) s unfolding tcp_contract_def by (cases r; auto)+
      show ?thesis
      proof (cases "opt_bytes r = []")
        case False
        then obtain bs where r: "r = Some bs" "bs \<noteq> []" by (cases r) auto
        let ?fl = "fl\<lparr>pending_to_host := Some bs\<rparr>"
        have "to_host_kept tx rx net1 ls ?fl (to_host_loop tcp net1 ls ?fl (moved + length bs))"
          using 1(1) [OF None True s [symmetric] r(1) r(2) 1(3)] .
        moreover have "to_host_loop tcp net ls fl moved = to_host_loop tcp net1 ls ?fl (moved + length bs)"
          using None True s r by (subst to_host_loop.simps) simp
        ultimately show ?thesis using None c r by (auto simp: to_host_kept_def)
      qed (use None True s c in \<open>cases r; subst to_host_loop.simps; simp add: to_host_kept_def\<close>)
    next
      case False
      then have "to_host_loop tcp net ls fl moved = (net, ls, fl)" using None by (subst to_host_loop.simps) auto
      then show ?thesis using None by (simp add: to_host_kept_def)
    qed
  qed
qed

text \<open>
  C9: Pumping a flow keeps both byte streams.  Over any socket that keeps its contract, one pump moves
  bytes from the host's channel through the one-chunk buffer into the guest's socket, and from the
  socket through the other buffer into the host's channel, with nothing lost, repeated or reordered
  (towards the host as long as its end of the channel is alive); the bounded channel does not
  overflow; and the host's write side is closed only when the guest has sent its FIN, the buffer is
  empty and nothing more can be read.
\<close>

theorem pump_lossless:
  fixes tcp :: "'s tcpip"
  assumes "tcp_contract tcp tx rx" "pump_flow tcp net ls fl = (net', ls', fl')"
  defines "h \<equiv> fl_handle fl"
  shows "tx net' h @ opt_bytes (pending_to_guest fl') @ in_q ls' fl = tx net h @ opt_bytes (pending_to_guest fl) @ in_q ls fl \<and>
    (to_host fl \<and> rx_alive (out_chan ls fl) \<longrightarrow>
       out_q ls' fl @ opt_bytes (pending_to_host fl') @ rx net' h = out_q ls fl @ opt_bytes (pending_to_host fl) @ rx net h) \<and>
    (length (chan_q (out_chan ls fl)) \<le> chan_cap (out_chan ls fl) \<longrightarrow> length (chan_q (out_chan ls' fl)) \<le> chan_cap (out_chan ls' fl)) \<and>
    (to_host fl \<and> \<not> to_host fl' \<longrightarrow> sm_close_wait tcp net' h \<and> pending_to_host fl' = None \<and> \<not> sm_can_recv tcp net' h)"
proof -
  define fl0 where "fl0 = (if sm_may_send tcp net h \<or> sm_may_recv tcp net h then fl\<lparr>established := True\<rparr> else fl)"
  have f0: "fl_handle fl0 = fl_handle fl" "fl_link fl0 = fl_link fl" "to_host fl0 = to_host fl" "pending_to_host fl0 = pending_to_host fl"
    "pending_to_guest fl0 = pending_to_guest fl" by (simp_all add: fl0_def)
  obtain net1 ls1 fl1 where g: "to_guest_loop tcp net ls fl0 = (net1, ls1, fl1)" by (metis prod_cases3)
  define net2 where "net2 = (if host_done fl1 \<and> pending_to_guest fl1 = None \<and> sm_may_send tcp net1 h then sm_close tcp net1 h else net1)"
  obtain net3 ls3 fl3 where w: "to_host_loop tcp net2 ls1 fl1 0 = (net3, ls3, fl3)" by (metis prod_cases3)
  have n2: "tx net2 h = tx net1 h" "rx net2 h = rx net1 h" using assms(1) by (simp_all add: net2_def tcp_contract_def)
  have e: "(net', ls', fl') = (if sm_close_wait tcp net3 h \<and> pending_to_host fl3 = None \<and> \<not> sm_can_recv tcp net3 h
       then (net3, upd_link ls3 (fl_link fl) (\<lambda>l. l\<lparr>l_out := (l_out l)\<lparr>tx_alive := False\<rparr>\<rparr>), fl3\<lparr>to_host := False\<rparr>) else (net3, ls3, fl3))"
    using assms(2) g w by (simp add: pump_flow_def Let_def h_def [symmetric] fl0_def [symmetric] net2_def [symmetric])
  have G: "tx net1 h @ opt_bytes (pending_to_guest fl1) @ in_q ls1 fl = tx net h @ opt_bytes (pending_to_guest fl) @ in_q ls fl"
    "rx net1 h = rx net h" "out_chan ls1 fl = out_chan ls fl" "fl_link fl1 = fl_link fl" "fl_handle fl1 = h" "to_host fl1 = to_host fl"
    "pending_to_host fl1 = pending_to_host fl"
    using to_guest_stream [OF assms(1), of net ls fl0] f0 unfolding g by (simp_all add: to_guest_kept_def h_def)
  have "to_host_kept tx rx net2 ls1 fl1 (net3, ls3, fl3)" using to_host_stream [OF assms(1), of net2 ls1 fl1 0] unfolding w .
  note H = this [unfolded to_host_kept_def prod.case G(3-7) n2 G(2)]
  show ?thesis using e G(1) H by (auto simp: upd_link_def split: if_splits)
qed

section \<open>Samples\<close>

text \<open>A socket over two byte lists, the bytes sent and the bytes to read, that takes everything at once.\<close>

definition list_tcp :: "(bytes \<times> bytes) tcpip" where
  "list_tcp = \<lparr>sm_new = (\<lambda>ip mac. ([], [])), sm_poll = (\<lambda>now d s. (d, s)), sm_open = (\<lambda>ip port s. Some (0, s)),
     sm_may_send = (\<lambda>s h. True), sm_may_recv = (\<lambda>s h. True), sm_can_send = (\<lambda>s h. True), sm_can_recv = (\<lambda>s h. snd s \<noteq> []),
     sm_closed = (\<lambda>s h. False), sm_close_wait = (\<lambda>s h. False),
     sm_send = (\<lambda>s h bs. (Some (length bs), (fst s @ bs, snd s))),
     sm_recv = (\<lambda>s h k. (Some (take k (snd s)), (fst s, drop k (snd s)))),
     sm_close = (\<lambda>s h. s), sm_remove = (\<lambda>s h. s), sm_udp_recv = (\<lambda>s. (None, s)), sm_udp_send = (\<lambda>s bs e. s)\<rparr>"

lemma list_tcp_contract: "tcp_contract list_tcp (\<lambda>s h. fst s) (\<lambda>s h. snd s)"
  by (simp add: tcp_contract_def list_tcp_def)

theorem pump_lossless_witness:
  "\<exists>net' ls' fl'. pump_flow list_tcp ([], [7, 8]) (new_link no_links \<lparr>l_out = sync_channel 1,
       l_in = (sync_channel 2)\<lparr>chan_q := [[1, 2], [3]]\<rparr>, l_stop = False\<rparr>)
     \<lparr>fl_handle = 0, fl_link = 0, to_host = True, pending_to_host = None, pending_to_guest = Some [9], host_done = False, established = True\<rparr>
     = (net', ls', fl') \<and> fst net' @ opt_bytes (pending_to_guest fl') @ concat (chan_q (l_in (links ls' 0))) = [9, 1, 2, 3]"
proof -
  let ?ls = "new_link no_links \<lparr>l_out = sync_channel 1, l_in = (sync_channel 2)\<lparr>chan_q := [[1, 2], [3]]\<rparr>, l_stop = False\<rparr>"
  let ?fl = "\<lparr>fl_handle = 0, fl_link = 0, to_host = True, pending_to_host = None, pending_to_guest = Some [9], host_done = False, established = True\<rparr>"
  obtain net' ls' fl' where p: "pump_flow list_tcp ([], [7, 8]) ?ls ?fl = (net', ls', fl')" by (metis prod_cases3)
  show ?thesis using pump_lossless [OF list_tcp_contract p] p by (simp add: new_link_def no_links_def)
qed

definition syn_frame :: bytes where
  "syn_frame = replicate 12 0 @ [0x08, 0x00] @ [0x45] @ replicate 8 0 @ [6, 0, 0] @ [10, 0, 2, 15] @ [93, 184, 216, 34] @
     be16 4000 @ be16 443 @ replicate 9 0 @ [0x02] @ replicate 6 0"

lemma syn_frame_key: "parse_initial_syn syn_frame = Some \<lparr>fk_guest_port = 4000, fk_dst_ip = (93, 184, 216, 34), fk_dst_port = 443\<rparr>"
  by code_simp


end
