(* ===== verification/VmPaged.thy ===== *)
theory VmPaged
  imports Prelude
begin

text \<open>
  Content-addressed snapshots (module \<^verbatim>\<open>paged\<close> of \<^verbatim>\<open>crates/vm/src/lib.rs\<close>): a snapshot blob is split
  into its small part and the pages of its RAM region, each page named by its hash; a store keeps every
  page once; \<open>missing\<close> lists the pages a store lacks; \<open>reassemble\<close> builds the blob back.  The export
  buffer carries the same data in one piece for the browser.  The hash (\<^verbatim>\<open>blake3\<close>) is code of another
  crate and an argument of the definitions.  What the theorems ask of it is that a digest has 32 bytes
  and that the pages concerned do not collide.  A Rust panic is the outer \<open>None\<close>.
\<close>

section \<open>Splitting and reassembling\<close>

definition PAGE :: nat where "PAGE = 4096"

type_synonym digest = bytes
type_synonym page = "digest \<times> bytes"

record paged =
  pg_meta :: bytes
  pg_ram_off :: nat
  pg_ram_len :: nat
  pg_hashes :: "digest list"

text \<open>\<^verbatim>\<open>slice::chunks(n)\<close>, the last chunk shorter when \<open>n\<close> does not divide the length.\<close>

fun chunks :: "nat \<Rightarrow> 'a list \<Rightarrow> 'a list list" where
  "chunks n xs = (if xs = [] \<or> n = 0 then [] else take n xs # chunks n (drop n xs))"

declare chunks.simps [simp del]

definition split :: "(bytes \<Rightarrow> digest) \<Rightarrow> bytes \<Rightarrow> nat \<Rightarrow> nat \<Rightarrow> (paged \<times> page list) option" where
  "split blake3 blob ram_off ram_len =
     (if \<not> ram_off + ram_len \<le> length blob then None
      else let ram = take ram_len (drop ram_off blob);
               pages = map (\<lambda>chunk. (blake3 chunk, chunk)) (chunks PAGE ram);
               meta = take ram_off blob @ drop (ram_off + ram_len) blob
           in Some (\<lparr>pg_meta = meta, pg_ram_off = ram_off, pg_ram_len = ram_len, pg_hashes = map fst pages\<rparr>, pages))"

text \<open>The loop of \<^verbatim>\<open>missing\<close> over the hashes, with the set of those already listed.\<close>

fun missing_loop :: "digest set \<Rightarrow> digest set \<Rightarrow> digest list \<Rightarrow> digest list" where
  "missing_loop have_set seen [] = []"
| "missing_loop have_set seen (h # hs) =
     (if h \<notin> have_set \<and> h \<notin> seen then h # missing_loop have_set (insert h seen) hs
      else missing_loop have_set seen hs)"

definition missing :: "paged \<Rightarrow> digest set \<Rightarrow> digest list" where
  "missing p have_set = missing_loop have_set {} (pg_hashes p)"

text \<open>
  The page loop of \<^verbatim>\<open>reassemble\<close>: the bytes gathered so far and how many are still to come; the inner
  \<open>None\<close> is the \<^verbatim>\<open>None\<close> the function returns.
\<close>

fun gather :: "(digest \<Rightarrow> bytes option) \<Rightarrow> digest list \<Rightarrow> nat \<Rightarrow> bytes \<Rightarrow> (bytes \<times> nat) option" where
  "gather fetch [] remaining blob = Some (blob, remaining)"
| "gather fetch (h # hs) remaining blob =
     (case fetch h of
        None \<Rightarrow> None
      | Some page \<Rightarrow>
          let n = min remaining PAGE in
          if length page < n then None
          else gather fetch hs (remaining - n) (blob @ take n page))"

definition reassemble :: "paged \<Rightarrow> (digest \<Rightarrow> bytes option) \<Rightarrow> bytes option option" where
  "reassemble p fetch =
     (if length (pg_meta p) < pg_ram_off p then None
      else Some (case gather fetch (pg_hashes p) (pg_ram_len p) (take (pg_ram_off p) (pg_meta p)) of
             None \<Rightarrow> None
           | Some (blob, remaining) \<Rightarrow>
               if remaining \<noteq> 0 then None else Some (blob @ drop (pg_ram_off p) (pg_meta p))))"

section \<open>The export buffer\<close>

definition encode_export :: "(bytes \<Rightarrow> digest) \<Rightarrow> bytes \<Rightarrow> nat \<Rightarrow> nat \<Rightarrow> bytes option" where
  "encode_export blake3 blob ram_off ram_len =
     (case split blake3 blob ram_off ram_len of
        None \<Rightarrow> None
      | Some (p, _) \<Rightarrow>
          Some (le32 (of_nat (length (pg_meta p))) @ pg_meta p @ le32 (of_nat ram_off) @ le32 (of_nat ram_len) @
                le32 (of_nat (length (pg_hashes p))) @ concat (pg_hashes p) @ take ram_len (drop ram_off blob)))"

text \<open>\<^verbatim>\<open>buf.get(a..b)\<close>, and the four-byte length read at \<open>p\<close>.\<close>

definition get_range :: "bytes \<Rightarrow> nat \<Rightarrow> nat \<Rightarrow> bytes option" where
  "get_range buf a b = (if a \<le> b \<and> b \<le> length buf then Some (take (b - a) (drop a buf)) else None)"

definition rd :: "bytes \<Rightarrow> nat \<Rightarrow> nat option" where
  "rd buf p = (case get_range buf p (p + 4) of None \<Rightarrow> None | Some b \<Rightarrow> Some (unat (get32 b 0)))"

definition decode_export :: "bytes \<Rightarrow> bytes option" where
  "decode_export buf =
     Option.bind (rd buf 0) (\<lambda>meta_len.
     Option.bind (get_range buf 4 (4 + meta_len)) (\<lambda>meta.
     let p = 4 + meta_len in
     Option.bind (rd buf p) (\<lambda>ram_off.
     Option.bind (rd buf (p + 4)) (\<lambda>ram_len.
     Option.bind (rd buf (p + 8)) (\<lambda>n.
     let q = p + 12 + n * 32 in
     Option.bind (get_range buf q (q + ram_len)) (\<lambda>pages.
     if length meta < ram_off then None
     else Some (take ram_off meta @ pages @ drop ram_off meta)))))))"

section \<open>Lemmas\<close>

lemma concat_chunks: "0 < n \<Longrightarrow> concat (chunks n xs) = xs"
proof (induction n xs rule: chunks.induct)
  case (1 n xs)
  then show ?case by (subst chunks.simps) auto
qed

lemma chunks_nonempty: "c \<in> set (chunks n xs) \<Longrightarrow> c \<noteq> [] \<and> length c \<le> n"
proof (induction n xs rule: chunks.induct)
  case (1 n xs)
  show ?case
  proof (cases "xs = [] \<or> n = 0")
    case True
    with "1.prems" show ?thesis by (subst (asm) chunks.simps) simp
  next
    case False
    with "1.prems" have "c = take n xs \<or> c \<in> set (chunks n (drop n xs))"
      by (subst (asm) chunks.simps) simp
    with False "1.IH" [OF False] show ?thesis by auto
  qed
qed

lemma gather_chunks:
  assumes "\<forall>c \<in> set (chunks PAGE ram). fetch (blake3 c) = Some c"
  shows "gather fetch (map blake3 (chunks PAGE ram)) (length ram) acc = Some (acc @ ram, 0)"
  using assms
proof (induction PAGE ram arbitrary: acc rule: chunks.induct)
  case (1 ram)
  show ?case
  proof (cases "ram = []")
    case True
    then show ?thesis by (simp add: chunks.simps)
  next
    case False
    then have u: "chunks PAGE ram = take PAGE ram # chunks PAGE (drop PAGE ram)"
      by (subst chunks.simps) (simp add: PAGE_def)
    from "1.prems" have "\<forall>c \<in> set (chunks PAGE (drop PAGE ram)). fetch (blake3 c) = Some c"
      by (simp add: u)
    from "1.hyps" [OF _ this] False
    have "gather fetch (map blake3 (chunks PAGE (drop PAGE ram))) (length (drop PAGE ram)) (acc @ take PAGE ram)
        = Some ((acc @ take PAGE ram) @ drop PAGE ram, 0)"
      by (simp add: PAGE_def)
    moreover have "fetch (blake3 (take PAGE ram)) = Some (take PAGE ram)" using "1.prems" by (simp add: u)
    moreover have "chunks PAGE [] = ([] :: u8 list list)" by (simp add: chunks.simps)
    ultimately show ?thesis by (auto simp: u Let_def min_def)
  qed
qed

lemma split_Some:
  assumes "ram_off + ram_len \<le> length blob"
  defines "ram \<equiv> take ram_len (drop ram_off blob)"
  shows "split blake3 blob ram_off ram_len =
     Some (\<lparr>pg_meta = take ram_off blob @ drop (ram_off + ram_len) blob, pg_ram_off = ram_off, pg_ram_len = ram_len,
            pg_hashes = map blake3 (chunks PAGE ram)\<rparr>, map (\<lambda>c. (blake3 c, c)) (chunks PAGE ram))"
  using assms by (simp add: split_def Let_def comp_def)

lemma blob_parts:
  assumes "i + n \<le> length blob"
  shows "take i blob @ take n (drop i blob) @ drop (i + n) blob = blob"
  by (metis append_take_drop_id drop_drop add.commute)

text \<open>Any store that answers with the right page for this blob's hashes gives the blob back.\<close>

lemma reassemble_split:
  assumes "ram_off + ram_len \<le> length blob"
      and "\<forall>c \<in> set (chunks PAGE (take ram_len (drop ram_off blob))). fetch (blake3 c) = Some c"
      and "split blake3 blob ram_off ram_len = Some (p, pages)"
  shows "reassemble p fetch = Some (Some blob)"
proof -
  let ?ram = "take ram_len (drop ram_off blob)"
  have len: "length ?ram = ram_len" using assms(1) by simp
  from gather_chunks [of ?ram fetch blake3 "take ram_off blob"] assms(2)
  have "gather fetch (map blake3 (chunks PAGE ?ram)) ram_len (take ram_off blob) = Some (take ram_off blob @ ?ram, 0)"
    unfolding len by simp
  moreover from assms(1,3)
  have "p = \<lparr>pg_meta = take ram_off blob @ drop (ram_off + ram_len) blob, pg_ram_off = ram_off, pg_ram_len = ram_len,
            pg_hashes = map blake3 (chunks PAGE ?ram)\<rparr>" by (simp add: split_Some)
  ultimately show ?thesis using assms(1) blob_parts [OF assms(1)] by (simp add: reassemble_def)
qed

lemma missing_loop_set: "set (missing_loop H S hs) = set hs - H - S"
  by (induction hs arbitrary: S) auto

lemma missing_loop_distinct: "distinct (missing_loop H S hs)"
  by (induction hs arbitrary: S) (auto simp: missing_loop_set)


lemma get_range_take:
  "get_range (take k buf) a b = Some v \<Longrightarrow> get_range buf a b = Some v \<and> b \<le> k"
  by (auto simp: get_range_def drop_take min_def split: if_splits)

lemma rd_take: "rd (take k buf) p = Some v \<Longrightarrow> rd buf p = Some v"
  unfolding rd_def by (auto split: option.splits dest: get_range_take)

lemma rd_at: "length pre = p \<Longrightarrow> n < 2 ^ 32 \<Longrightarrow> rd (pre @ le32 (of_nat n) @ post) p = Some n"
  by (simp add: rd_def get_range_def take_drop_at get32_at [where pre = "[]" and post = "[]", simplified] unat_of_nat_u32)

lemma get_range_at: "length pre = a \<Longrightarrow> b = a + length xs \<Longrightarrow> get_range (pre @ xs @ post) a b = Some xs"
  by (simp add: get_range_def)

text \<open>The shape of an export buffer, and what decoding it and its prefixes gives.\<close>

definition export_frame :: "bytes \<Rightarrow> nat \<Rightarrow> bytes \<Rightarrow> digest list \<Rightarrow> bytes" where
  "export_frame meta off ram hs =
     le32 (of_nat (length meta)) @ meta @ le32 (of_nat off) @ le32 (of_nat (length ram)) @
     le32 (of_nat (length hs)) @ concat hs @ ram"

lemma length_concat_digests: "\<forall>h \<in> set hs. length h = 32 \<Longrightarrow> length (concat hs) = length hs * 32"
  by (induction hs) auto

lemma export_frame_reads:
  assumes "length meta < 2 ^ 32" "off < 2 ^ 32" "length ram < 2 ^ 32" "length hs < 2 ^ 32"
      and "\<forall>h \<in> set hs. length h = 32"
  defines "buf \<equiv> export_frame meta off ram hs"
  shows "rd buf 0 = Some (length meta)" "get_range buf 4 (4 + length meta) = Some meta"
    "rd buf (4 + length meta) = Some off" "rd buf (8 + length meta) = Some (length ram)"
    "rd buf (12 + length meta) = Some (length hs)"
    "get_range buf (16 + length meta + length hs * 32) (16 + length meta + length hs * 32 + length ram) = Some ram"
    "length buf = 16 + length meta + length hs * 32 + length ram"
proof -
  let ?m = "le32 (of_nat (length meta))" let ?o = "le32 (of_nat off)" let ?l = "le32 (of_nat (length ram))"
  let ?n = "le32 (of_nat (length hs))"
  note d = length_concat_digests [OF assms(5)]
  show "rd buf 0 = Some (length meta)"
    using rd_at [of "[]" 0 "length meta"] assms(1) by (simp add: buf_def export_frame_def)
  show "get_range buf 4 (4 + length meta) = Some meta"
    using get_range_at [of ?m 4 "4 + length meta" meta] by (simp add: buf_def export_frame_def)
  show "rd buf (4 + length meta) = Some off"
    using rd_at [of "?m @ meta" "4 + length meta" off] assms(2) by (simp add: buf_def export_frame_def)
  show "rd buf (8 + length meta) = Some (length ram)"
    using rd_at [of "?m @ meta @ ?o" "8 + length meta" "length ram"] assms(3) by (simp add: buf_def export_frame_def)
  show "rd buf (12 + length meta) = Some (length hs)"
    using rd_at [of "?m @ meta @ ?o @ ?l" "12 + length meta" "length hs"] assms(4) by (simp add: buf_def export_frame_def)
  show "get_range buf (16 + length meta + length hs * 32) (16 + length meta + length hs * 32 + length ram) = Some ram"
    using get_range_at [of "?m @ meta @ ?o @ ?l @ ?n @ concat hs" _ _ ram "[]"] d
    by (simp add: buf_def export_frame_def)
  show "length buf = 16 + length meta + length hs * 32 + length ram"
    using d by (simp add: buf_def export_frame_def)
qed

lemma decode_export_frame:
  assumes "length meta < 2 ^ 32" "off \<le> length meta" "length ram < 2 ^ 32" "length hs < 2 ^ 32"
      and "\<forall>h \<in> set hs. length h = 32"
  shows "decode_export (export_frame meta off ram hs) = Some (take off meta @ ram @ drop off meta)"
proof -
  have "off < 2 ^ 32" using assms(1,2) by simp
  note r = export_frame_reads [OF assms(1) this assms(3-5)]
  show ?thesis unfolding decode_export_def using assms(2) by (simp add: r Let_def)
qed

lemma decode_export_truncated:
  assumes "length meta < 2 ^ 32" "off < 2 ^ 32" "length ram < 2 ^ 32" "length hs < 2 ^ 32"
      and "\<forall>h \<in> set hs. length h = 32" and "k < length (export_frame meta off ram hs)"
  shows "decode_export (take k (export_frame meta off ram hs)) = None"
proof (rule ccontr)
  let ?b = "export_frame meta off ram hs"
  note r = export_frame_reads [OF assms(1-5)]
  assume "decode_export (take k ?b) \<noteq> None"
  then obtain w where "decode_export (take k ?b) = Some w" by blast
  then obtain ml l n v where
    s: "rd (take k ?b) 0 = Some ml" "rd (take k ?b) (4 + ml + 4) = Some l" "rd (take k ?b) (4 + ml + 8) = Some n"
      "get_range (take k ?b) (4 + ml + 12 + n * 32) (4 + ml + 12 + n * 32 + l) = Some v"
    unfolding decode_export_def Let_def bind_eq_Some_conv by blast
  have ml: "ml = length meta" using rd_take [OF s(1)] r(1) by simp
  have l: "l = length ram" using rd_take [OF s(2)] r(4) by (simp add: ml)
  have n: "n = length hs" using rd_take [OF s(3)] r(5) by (simp add: ml)
  from get_range_take [OF s(4)] have "length ?b \<le> k" using r(7) by (simp add: ml l n)
  with assms(6) show False by simp
qed

lemma length_chunks_le: "length (chunks n xs) \<le> length xs"
proof (induction n xs rule: chunks.induct)
  case (1 n xs)
  show ?case
  proof (cases "xs = [] \<or> n = 0")
    case True
    then show ?thesis by (subst chunks.simps) simp
  next
    case False
    with "1.IH" [OF False] have "length (chunks n (drop n xs)) \<le> length xs - n" by simp
    moreover from False have "0 < n" "0 < length xs" by auto
    ultimately have "length (chunks n (drop n xs)) < length xs" by linarith
    with False show ?thesis by (subst chunks.simps) simp
  qed
qed

section \<open>The content store\<close>

text \<open>
  A store filled with pages in order (\<^verbatim>\<open>pages.into_iter().collect()\<close> into a map: a later page with
  the same hash replaces an earlier one), and the pages of a snapshot that have to be uploaded.
\<close>

definition store_of :: "page list \<Rightarrow> digest \<Rightarrow> bytes option" where
  "store_of pages = map_of (rev pages)"

definition upload :: "paged \<Rightarrow> page list \<Rightarrow> digest set \<Rightarrow> page list" where
  "upload p pages have_set = filter (\<lambda>pg. fst pg \<in> set (missing p have_set)) pages"

lemma store_of_named:
  assumes "inj_on f A" "c \<in> A" "\<forall>pg \<in> set pages. \<exists>d \<in> A. pg = (f d, d)" "f c \<in> fst ` set pages"
  shows "store_of pages (f c) = Some c"
proof -
  from assms(4) obtain d where d: "map_of (rev pages) (f c) = Some d"
    by (metis (no_types, lifting) imageE map_of_eq_None_iff not_None_eq set_rev image_eqI)
  then have "(f c, d) \<in> set pages" using map_of_SomeD by fastforce
  with assms(1-3) have "d = c" by (fastforce dest: inj_onD)
  with d show ?thesis by (simp add: store_of_def)
qed

lemma split_pages:
  assumes "split blake3 blob off len = Some (p, pages)"
  shows "off + len \<le> length blob" "pages = map (\<lambda>c. (blake3 c, c)) (chunks PAGE (take len (drop off blob)))"
    "pg_hashes p = map fst pages"
  using assms by (auto simp: split_def Let_def split: if_splits)

text \<open>
  C35: Storing a derived snapshot by uploading only what is missing loses nothing.  Let the store hold the pages of a
  base snapshot, and let a derived snapshot add exactly those of its pages that \<open>missing\<close> reports.  Then
  both snapshots are rebuilt byte for byte from the one store, the report names no page twice and none the
  store had, as long as the hash does not collide on the pages of the two.
\<close>

theorem paged_incremental:
  assumes base: "split blake3 b0 off0 len0 = Some (p0, pages0)"
      and derived: "split blake3 b1 off1 len1 = Some (p1, pages1)"
      and inj: "inj_on blake3 (snd ` (set pages0 \<union> set pages1))"
  defines "have_set \<equiv> fst ` set pages0"
  defines "store \<equiv> store_of (pages0 @ upload p1 pages1 have_set)"
  shows "reassemble p0 store = Some (Some b0) \<and> reassemble p1 store = Some (Some b1) \<and>
     distinct (missing p1 have_set) \<and> set (missing p1 have_set) = fst ` set pages1 - have_set"
proof -
  note s0 = split_pages [OF base] and s1 = split_pages [OF derived]
  let ?A = "snd ` (set pages0 \<union> set pages1)" let ?all = "pages0 @ upload p1 pages1 have_set"
  have m: "set (missing p1 have_set) = fst ` set pages1 - have_set"
    using s1(3) by (simp add: missing_def missing_loop_set)
  have named: "\<forall>pg \<in> set ?all. \<exists>d \<in> ?A. pg = (blake3 d, d)"
    unfolding upload_def s0(2) s1(2) by force
  have f0: "\<forall>c \<in> snd ` set pages0. store (blake3 c) = Some c"
    unfolding store_def using s0(2) by (intro ballI store_of_named [OF inj _ named]) force+
  have f1: "\<forall>c \<in> snd ` set pages1. store (blake3 c) = Some c"
  proof
    fix c assume c: "c \<in> snd ` set pages1"
    with s1(2) have in1: "(blake3 c, c) \<in> set pages1" by auto
    have "blake3 c \<in> fst ` set ?all"
    proof (cases "blake3 c \<in> have_set")
      case True
      then show ?thesis by (simp add: have_set_def image_Un)
    next
      case False
      with in1 have "blake3 c \<in> fst ` set pages1 - have_set" by force
      with in1 have "(blake3 c, c) \<in> set (upload p1 pages1 have_set)" by (simp add: upload_def m)
      then show ?thesis by (force simp: image_Un)
    qed
    with c show "store (blake3 c) = Some c"
      unfolding store_def by (intro store_of_named [OF inj _ named]) blast+
  qed
  have "reassemble p0 store = Some (Some b0)"
    using f0 unfolding s0(2) by (intro reassemble_split [OF s0(1) _ base]) simp
  moreover have "reassemble p1 store = Some (Some b1)"
    using f1 unfolding s1(2) by (intro reassemble_split [OF s1(1) _ derived]) simp
  moreover have "distinct (missing p1 have_set)" by (simp add: missing_def missing_loop_distinct)
  ultimately show ?thesis using m by simp
qed

definition toy_hash :: "bytes \<Rightarrow> digest" where
  "toy_hash c = take 32 (c @ replicate 32 0)"

definition toy_base :: bytes where "toy_base = [77, 1, 2, 3, 88]"
definition toy_derived :: bytes where "toy_derived = [77, 1, 9, 3, 88]"

lemma toy_pages:
  "split toy_hash toy_base 1 3 =
     Some (\<lparr>pg_meta = [77, 88], pg_ram_off = 1, pg_ram_len = 3, pg_hashes = [toy_hash [1, 2, 3]]\<rparr>,
           [(toy_hash [1, 2, 3], [1, 2, 3])])"
  "split toy_hash toy_derived 1 3 =
     Some (\<lparr>pg_meta = [77, 88], pg_ram_off = 1, pg_ram_len = 3, pg_hashes = [toy_hash [1, 9, 3]]\<rparr>,
           [(toy_hash [1, 9, 3], [1, 9, 3])])"
  by (simp_all add: split_def Let_def toy_base_def toy_derived_def PAGE_def chunks.simps [of 4096])

theorem paged_incremental_witness:
  "\<exists>p0 p1 pages0 pages1. split toy_hash toy_base 1 3 = Some (p0, pages0) \<and>
     split toy_hash toy_derived 1 3 = Some (p1, pages1) \<and> inj_on toy_hash (snd ` (set pages0 \<union> set pages1)) \<and>
     reassemble p1 (store_of (pages0 @ upload p1 pages1 (fst ` set pages0))) = Some (Some toy_derived)"
proof -
  have i: "inj_on toy_hash (snd ` (set [(toy_hash [1, 2, 3], [1, 2, 3])] \<union> set [(toy_hash [1, 9, 3], [1, 9, 3])]))"
    by (simp add: toy_hash_def)
  from paged_incremental [OF toy_pages i] i toy_pages show ?thesis by blast
qed

text \<open>
  The export buffer is a faithful and self-checking encoding: for a blob whose RAM region lies inside it
  the encoder succeeds (no panic), decoding the buffer gives the blob back, and every proper prefix of the
  buffer, wherever the transfer was cut, is rejected.  Lengths are below 4 GiB, which is what the u32 fields can say.
\<close>

theorem export_roundtrip:
  assumes "off + len \<le> length blob" "length blob < 2 ^ 32" "\<And>c. length (blake3 c) = 32"
  shows "\<exists>buf. encode_export blake3 blob off len = Some buf \<and> decode_export buf = Some blob \<and>
     (\<forall>k < length buf. decode_export (take k buf) = None)"
proof -
  let ?ram = "take len (drop off blob)" let ?meta = "take off blob @ drop (off + len) blob"
  let ?hs = "map blake3 (chunks PAGE ?ram)"
  let ?buf = "export_frame ?meta off ?ram ?hs"
  have lr: "length ?ram = len" using assms(1) by simp
  then have e: "encode_export blake3 blob off len = Some ?buf"
    using assms(1) by (simp add: encode_export_def split_Some export_frame_def)
  have b: "length ?meta < 2 ^ 32" "off < 2 ^ 32" "length ?ram < 2 ^ 32" "length ?hs < 2 ^ 32" "\<forall>h \<in> set ?hs. length h = 32"
    using assms length_chunks_le [of PAGE ?ram] by auto
  have o: "off \<le> length ?meta" using assms(1) by simp
  have "decode_export ?buf = Some blob"
    using decode_export_frame [OF b(1) o b(3-5)] blob_parts [OF assms(1)] assms(1) by simp
  moreover have "\<forall>k < length ?buf. decode_export (take k ?buf) = None"
    using decode_export_truncated [OF b] by blast
  ultimately show ?thesis using e by blast
qed

theorem export_roundtrip_witness:
  "1 + 3 \<le> length toy_base \<and> length toy_base < 2 ^ 32 \<and> (\<forall>c. length (toy_hash c) = 32) \<and>
   (\<exists>buf. encode_export toy_hash toy_base 1 3 = Some buf \<and> decode_export buf = Some toy_base)"
proof -
  have t: "1 + 3 \<le> length toy_base" "length toy_base < 2 ^ 32" "\<And>c. length (toy_hash c) = 32"
    by (simp_all add: toy_base_def toy_hash_def)
  from export_roundtrip [of 1 3 toy_base toy_hash, OF t] t show ?thesis by blast
qed

end
