(* ===== verification/VmLoad.thy ===== *)
theory VmLoad
  imports Memory
begin

text \<open>
  The image loaders (\<^verbatim>\<open>crates/vm/src/elf.rs\<close>, \<^verbatim>\<open>crates/vm/src/bzimage.rs\<close> and the methods of \<^verbatim>\<open>Vm\<close> in
  \<^verbatim>\<open>crates/vm/src/lib.rs\<close> that place a kernel, its command line and its ramdisk in guest memory).  These
  methods touch nothing of the machine but its memory, so they are functions on it; a loader that fails
  half way returns the memory as it left it.  \<^verbatim>\<open>usize\<close> is \<open>nat\<close>: the sums the code forms from u32 fields
  do not reach \<open>2 ^ 64\<close>.
\<close>

section \<open>ELF\<close>

datatype elf_error =
    Elf_TooSmall | Elf_BadMagic | Elf_WrongClass u8 | Elf_WrongEndian u8 | Elf_WrongMachine u16
  | Elf_SegmentOutOfBounds nat u32 u32 | Elf_DestOutOfBounds nat u32 u32

definition PT_LOAD :: u32 where "PT_LOAD = 1"

text \<open>The fields of a program header the loader uses.\<close>

record segment =
  p_offset :: u32
  p_vaddr :: u32
  p_filesz :: u32
  p_memsz :: u32

text \<open>
  The checks of one turn of the loop: an error, nothing to load (the header is not \<^verbatim>\<open>PT_LOAD\<close>), or the
  segment to copy.  \<^verbatim>\<open>checked_add\<close> on two u32 values widened to usize cannot fail; on u32 it can.
\<close>

definition program_header :: "u32 \<Rightarrow> bytes \<Rightarrow> nat \<Rightarrow> nat \<Rightarrow> nat \<Rightarrow> elf_error + segment option" where
  "program_header ram_size bs e_phoff e_phentsize i =
     (let ph_off = e_phoff + i * e_phentsize in
      if ph_off + 32 > length bs then Inl (Elf_SegmentOutOfBounds i (of_nat ph_off) 32)
      else if get32 bs ph_off \<noteq> PT_LOAD then Inr None
      else
        let po = get32 bs (ph_off + 4); pv = get32 bs (ph_off + 8);
            pf = get32 bs (ph_off + 16); pm = get32 bs (ph_off + 20)
        in if unat po + unat pf > length bs then Inl (Elf_SegmentOutOfBounds i po pf)
           else if 2 ^ 32 \<le> unat pv + unat pm then Inl (Elf_DestOutOfBounds i pv pm)
           else if pv + pm > ram_size then Inl (Elf_DestOutOfBounds i pv pm)
           else Inr (Some \<lparr>p_offset = po, p_vaddr = pv, p_filesz = pf, p_memsz = pm\<rparr>))"

text \<open>Copy the bytes of the file, then zero the tail.\<close>

definition load_segment :: "bytes \<Rightarrow> memory \<Rightarrow> segment \<Rightarrow> memory" where
  "load_segment bs m s =
     (let m1 = write_slice m (p_vaddr s) (take (unat (p_filesz s)) (drop (unat (p_offset s)) bs))
      in foldl (\<lambda>m' k. write_u8 m' (p_vaddr s + of_nat k) 0) m1 [unat (p_filesz s)..<unat (p_memsz s)])"

fun load_segments :: "u32 \<Rightarrow> bytes \<Rightarrow> nat \<Rightarrow> nat \<Rightarrow> nat list \<Rightarrow> memory \<Rightarrow> memory \<times> (elf_error + unit)" where
  "load_segments ram_size bs e_phoff e_phentsize [] m = (m, Inr ())"
| "load_segments ram_size bs e_phoff e_phentsize (i # is) m =
     (case program_header ram_size bs e_phoff e_phentsize i of
        Inl e \<Rightarrow> (m, Inl e)
      | Inr None \<Rightarrow> load_segments ram_size bs e_phoff e_phentsize is m
      | Inr (Some s) \<Rightarrow> load_segments ram_size bs e_phoff e_phentsize is (load_segment bs m s))"

definition load_elf :: "memory \<Rightarrow> bytes \<Rightarrow> memory \<times> (elf_error + u32)" where
  "load_elf m bs =
     (if length bs < 52 then (m, Inl Elf_TooSmall)
      else if take 4 bs \<noteq> [0x7F, 0x45, 0x4C, 0x46] then (m, Inl Elf_BadMagic)
      else if bs ! 4 \<noteq> 1 then (m, Inl (Elf_WrongClass (bs ! 4)))
      else if bs ! 5 \<noteq> 1 then (m, Inl (Elf_WrongEndian (bs ! 5)))
      else if get16 bs 0x12 \<noteq> 3 then (m, Inl (Elf_WrongMachine (get16 bs 0x12)))
      else
        let e_entry = get32 bs 0x18; e_phoff = unat (get32 bs 0x1C);
            e_phentsize = unat (get16 bs 0x2A); e_phnum = unat (get16 bs 0x2C);
            ram_size = of_nat (mem_size m)
        in case load_segments ram_size bs e_phoff e_phentsize [0..<e_phnum] m of
             (m', Inl e) \<Rightarrow> (m', Inl e)
           | (m', Inr _) \<Rightarrow> (m', Inr e_entry))"

section \<open>bzImage\<close>

definition MIN_BZIMAGE_LEN :: nat where "MIN_BZIMAGE_LEN = 1024"
definition OFF_SETUP_SECTS :: nat where "OFF_SETUP_SECTS = 0x1F1"
definition OFF_BOOT_FLAG :: nat where "OFF_BOOT_FLAG = 0x1FE"
definition OFF_HEADER :: nat where "OFF_HEADER = 0x202"
definition OFF_VERSION :: nat where "OFF_VERSION = 0x206"
definition OFF_CODE32_START :: nat where "OFF_CODE32_START = 0x214"
definition OFF_RAMDISK_IMAGE :: nat where "OFF_RAMDISK_IMAGE = 0x218"
definition OFF_RAMDISK_SIZE :: nat where "OFF_RAMDISK_SIZE = 0x21C"
definition OFF_CMD_LINE_PTR :: nat where "OFF_CMD_LINE_PTR = 0x228"
definition OFF_RELOCATABLE_KERNEL :: nat where "OFF_RELOCATABLE_KERNEL = 0x234"
definition OFF_CMDLINE_SIZE :: nat where "OFF_CMDLINE_SIZE = 0x238"
definition OFF_PAYLOAD_OFFSET :: nat where "OFF_PAYLOAD_OFFSET = 0x248"
definition OFF_PAYLOAD_LENGTH :: nat where "OFF_PAYLOAD_LENGTH = 0x24C"
definition OFF_INIT_SIZE :: nat where "OFF_INIT_SIZE = 0x260"

lemmas bz_offsets = MIN_BZIMAGE_LEN_def OFF_SETUP_SECTS_def OFF_BOOT_FLAG_def OFF_HEADER_def OFF_VERSION_def
  OFF_CODE32_START_def OFF_RAMDISK_IMAGE_def OFF_RAMDISK_SIZE_def OFF_CMD_LINE_PTR_def OFF_RELOCATABLE_KERNEL_def
  OFF_CMDLINE_SIZE_def OFF_PAYLOAD_OFFSET_def OFF_PAYLOAD_LENGTH_def OFF_INIT_SIZE_def

record bzimage =
  bz_setup_sects :: u8
  bz_version :: u16
  bz_code32_start :: u32
  bz_ramdisk_image :: u32
  bz_ramdisk_size :: u32
  bz_payload_offset :: nat
  bz_relocatable_kernel :: u8
  bz_cmdline_size :: u32
  bz_compressed_offset :: u32
  bz_compressed_length :: u32
  bz_init_size :: u32

datatype bz_error =
    Bz_TooSmall nat | Bz_BadBootFlag u16 | Bz_BadHeaderMagic bytes | Bz_NotEnoughRam nat nat | Bz_SetupPastEnd nat nat

definition bz_parse :: "bytes \<Rightarrow> bz_error + bzimage" where
  "bz_parse bs =
     (if length bs < MIN_BZIMAGE_LEN then Inl (Bz_TooSmall (length bs))
      else if get16 bs OFF_BOOT_FLAG \<noteq> 0xAA55 then Inl (Bz_BadBootFlag (get16 bs OFF_BOOT_FLAG))
      else
        let magic = [bs ! OFF_HEADER, bs ! (OFF_HEADER + 1), bs ! (OFF_HEADER + 2), bs ! (OFF_HEADER + 3)] in
        if magic \<noteq> [0x48, 0x64, 0x72, 0x53] then Inl (Bz_BadHeaderMagic magic)
        else
          let raw = bs ! OFF_SETUP_SECTS; sects = (if raw = 0 then 4 else raw)
          in Inr \<lparr>bz_setup_sects = sects, bz_version = get16 bs OFF_VERSION,
                  bz_code32_start = get32 bs OFF_CODE32_START, bz_ramdisk_image = get32 bs OFF_RAMDISK_IMAGE,
                  bz_ramdisk_size = get32 bs OFF_RAMDISK_SIZE, bz_payload_offset = (unat sects + 1) * 512,
                  bz_relocatable_kernel = bs ! OFF_RELOCATABLE_KERNEL, bz_cmdline_size = get32 bs OFF_CMDLINE_SIZE,
                  bz_compressed_offset = get32 bs OFF_PAYLOAD_OFFSET, bz_compressed_length = get32 bs OFF_PAYLOAD_LENGTH,
                  bz_init_size = get32 bs OFF_INIT_SIZE\<rparr>)"

definition load_bzimage :: "memory \<Rightarrow> bytes \<Rightarrow> memory \<times> (bz_error + bzimage)" where
  "load_bzimage m bs =
     (case bz_parse bs of
        Inl e \<Rightarrow> (m, Inl e)
      | Inr bz \<Rightarrow>
          if bz_payload_offset bz > length bs then (m, Inl (Bz_SetupPastEnd (bz_payload_offset bz) (length bs)))
          else if bz_init_size bz \<noteq> 0 \<and> unat (bz_code32_start bz) + unat (bz_init_size bz) > mem_size m
          then (m, Inl (Bz_NotEnoughRam (unat (bz_code32_start bz) + unat (bz_init_size bz)) (mem_size m)))
          else
            let m1 = write_slice m 0x90000 (take (bz_payload_offset bz) bs);
                m2 = (if bz_payload_offset bz < length bs
                      then write_slice m1 (bz_code32_start bz) (drop (bz_payload_offset bz) bs) else m1)
            in (m2, Inr bz))"

definition set_kernel_cmdline :: "memory \<Rightarrow> bytes \<Rightarrow> memory" where
  "set_kernel_cmdline m cmdline =
     (let len = min (length cmdline) 2047;
          m1 = write_slice m 0x90800 (take len cmdline);
          m2 = write_u8 m1 (0x90800 + of_nat len) 0
      in write_u32 m2 (0x90000 + of_nat OFF_CMD_LINE_PTR) 0x90800)"

text \<open>\<^verbatim>\<open>(len + 0xFFF) & !0xFFF\<close> on usize.\<close>

definition page_round :: "nat \<Rightarrow> nat" where
  "page_round n = (n + 0xFFF) div 4096 * 4096"

definition set_ramdisk :: "memory \<Rightarrow> bytes \<Rightarrow> memory \<times> (bz_error + unit)" where
  "set_ramdisk m bs =
     (let aligned = page_round (length bs); ram_size = mem_size m in
      if aligned > ram_size then (m, Inl (Bz_NotEnoughRam aligned ram_size))
      else
        let start = of_nat (ram_size - aligned);
            m1 = write_slice m start bs;
            m2 = write_u32 m1 (0x90000 + of_nat OFF_RAMDISK_IMAGE) start;
            m3 = write_u32 m2 (0x90000 + of_nat OFF_RAMDISK_SIZE) (of_nat (length bs))
        in (write_u8 m3 (0x90000 + 0x210) 0xFF, Inr ()))"

section \<open>What a write leaves in RAM\<close>

lemma write_slice_mem:
  "write_slice m a bs = m\<lparr>mem_bytes := mem_bytes (write_slice m a bs)\<rparr>"
  by (simp add: write_slice_def Let_def)

lemma length_write_slice [simp]: "length (mem_bytes (write_slice m a bs)) = length (mem_bytes m)"
  by (simp add: write_slice_def Let_def)

lemma write_slice_nth:
  assumes "j < length (mem_bytes m)"
  shows "mem_bytes (write_slice m a bs) ! j =
     (if unat a \<le> j \<and> j < unat a + length bs then bs ! (j - unat a) else mem_bytes m ! j)"
proof -
  have "unat a < length (mem_bytes m) \<Longrightarrow> unat a + length (take (min (unat a + length bs) (length (mem_bytes m)) - unat a) bs)
      \<le> length (mem_bytes m)" by simp
  from put_nth [OF this] assms show ?thesis
    unfolding write_slice_def Let_def by auto
qed

lemma write_u8_ram:
  "unat a < length (mem_bytes m) \<Longrightarrow> write_u8 m a v = m\<lparr>mem_bytes := (mem_bytes m)[unat a := v]\<rparr>"
  by (simp add: write_u8_def Let_def)

text \<open>The zero-fill loop, over offsets that stay inside RAM.\<close>

lemma zero_fill:
  assumes "\<forall>k \<in> set ks. unat v + k < length (mem_bytes m)" "length (mem_bytes m) \<le> 2 ^ 32"
  shows "foldl (\<lambda>m' k. write_u8 m' (v + of_nat k) 0) m ks =
     m\<lparr>mem_bytes := map (\<lambda>j. if unat v \<le> j \<and> j - unat v \<in> set ks then 0 else mem_bytes m ! j) [0..<length (mem_bytes m)]\<rparr>"
  using assms
proof (induction ks arbitrary: m)
  case Nil
  then show ?case by (simp add: map_nth)
next
  case (Cons k ks)
  have u: "unat (v + of_nat k) = unat v + k" using Cons.prems by (intro unat_offset) auto
  let ?m = "m\<lparr>mem_bytes := (mem_bytes m)[unat v + k := 0]\<rparr>"
  have w: "write_u8 m (v + of_nat k) 0 = ?m" using Cons.prems u by (subst write_u8_ram) auto
  have "foldl (\<lambda>m' k. write_u8 m' (v + of_nat k) 0) ?m ks =
      ?m\<lparr>mem_bytes := map (\<lambda>j. if unat v \<le> j \<and> j - unat v \<in> set ks then 0 else mem_bytes ?m ! j) [0..<length (mem_bytes ?m)]\<rparr>"
    using Cons.prems by (intro Cons.IH) auto
  moreover have "map (\<lambda>j. if unat v \<le> j \<and> j - unat v \<in> set ks then 0 else mem_bytes ?m ! j) [0..<length (mem_bytes ?m)] =
      map (\<lambda>j. if unat v \<le> j \<and> j - unat v \<in> set (k # ks) then 0 else mem_bytes m ! j) [0..<length (mem_bytes m)]"
    by (rule map_cong) (auto simp: nth_list_update)
  ultimately show ?case by (simp add: w)
qed

section \<open>What the ELF loader leaves in RAM\<close>

text \<open>
  The reference: the byte at an address after one segment, and after a list of segments (the last one that
  covers the address decides).
\<close>

definition segment_byte :: "bytes \<Rightarrow> nat \<Rightarrow> u8 \<Rightarrow> segment \<Rightarrow> u8" where
  "segment_byte bs a old s =
     (let v = unat (p_vaddr s) in
      if v \<le> a \<and> a < v + unat (p_filesz s) then bs ! (unat (p_offset s) + (a - v))
      else if v \<le> a \<and> a < v + unat (p_memsz s) then 0 else old)"

definition elf_image :: "bytes \<Rightarrow> segment list \<Rightarrow> bytes \<Rightarrow> bytes" where
  "elf_image bs segs ram = map (\<lambda>a. foldl (segment_byte bs a) (ram ! a) segs) [0..<length ram]"

definition segment_fits :: "nat \<Rightarrow> bytes \<Rightarrow> segment \<Rightarrow> bool" where
  "segment_fits n bs s \<longleftrightarrow>
     unat (p_offset s) + unat (p_filesz s) \<le> length bs \<and> unat (p_vaddr s) + unat (p_memsz s) \<le> n"

lemma load_segment_image:
  assumes "segment_fits (length (mem_bytes m)) bs s" "length (mem_bytes m) < 2 ^ 32"
  shows "load_segment bs m s = m\<lparr>mem_bytes := elf_image bs [s] (mem_bytes m)\<rparr>"
proof -
  let ?d = "take (unat (p_filesz s)) (drop (unat (p_offset s)) bs)"
  let ?m = "write_slice m (p_vaddr s) ?d"
  have "load_segment bs m s = ?m\<lparr>mem_bytes := map (\<lambda>j. if unat (p_vaddr s) \<le> j \<and>
      j - unat (p_vaddr s) \<in> set [unat (p_filesz s)..<unat (p_memsz s)] then 0 else mem_bytes ?m ! j) [0..<length (mem_bytes ?m)]\<rparr>"
    unfolding load_segment_def Let_def using assms by (intro zero_fill) (auto simp: segment_fits_def)
  moreover have "map (\<lambda>j. if unat (p_vaddr s) \<le> j \<and>
      j - unat (p_vaddr s) \<in> set [unat (p_filesz s)..<unat (p_memsz s)] then 0 else mem_bytes ?m ! j) [0..<length (mem_bytes ?m)]
      = elf_image bs [s] (mem_bytes m)"
    unfolding elf_image_def
    using assms(1) by (intro map_cong) (auto simp: write_slice_nth segment_byte_def segment_fits_def Let_def)
  ultimately show ?thesis by (subst (asm) (2) write_slice_mem) simp
qed

lemma length_elf_image [simp]: "length (elf_image bs segs ram) = length ram"
  by (simp add: elf_image_def)

lemma elf_image_Nil [simp]: "elf_image bs [] ram = ram"
  by (simp add: elf_image_def map_nth)

lemma elf_image_Cons: "elf_image bs segs (elf_image bs [s] ram) = elf_image bs (s # segs) ram"
  by (simp add: elf_image_def)

lemma program_header_fits:
  assumes "program_header (of_nat n) bs off ent i = Inr (Some s)" "n < 2 ^ 32"
  shows "segment_fits n bs s"
proof -
  from assms(1) have "unat (p_offset s) + unat (p_filesz s) \<le> length bs" and
    l: "unat (p_vaddr s) + unat (p_memsz s) < 2 ^ 32" "p_vaddr s + p_memsz s \<le> of_nat n"
    by (auto simp: program_header_def Let_def not_less split: if_splits)
  moreover from l(1) have "unat (p_vaddr s + p_memsz s) = unat (p_vaddr s) + unat (p_memsz s)"
    by (subst unat_add_lem [THEN iffD1]) (auto simp: unat_word_ariths)
  ultimately show ?thesis
    using assms(2) by (simp add: segment_fits_def word_le_nat_alt unat_of_nat_u32)
qed

text \<open>The segments a run of program headers selects, and the first error among them.\<close>

fun loadable :: "(elf_error + segment option) list \<Rightarrow> segment list" where
  "loadable [] = []"
| "loadable (Inr (Some s) # hs) = s # loadable hs"
| "loadable (_ # hs) = loadable hs"

definition well_loaded :: "(elf_error + segment option) list \<Rightarrow> bool" where
  "well_loaded hs \<longleftrightarrow> (\<forall>h \<in> set hs. \<forall>e. h \<noteq> Inl e)"

lemma load_segments_ok:
  assumes "well_loaded (map (program_header (of_nat (length (mem_bytes m))) bs off ent) is)"
      and "length (mem_bytes m) < 2 ^ 32"
  shows "load_segments (of_nat (length (mem_bytes m))) bs off ent (is @ js) m =
     load_segments (of_nat (length (mem_bytes m))) bs off ent js (m\<lparr>mem_bytes := elf_image bs
       (loadable (map (program_header (of_nat (length (mem_bytes m))) bs off ent) is)) (mem_bytes m)\<rparr>)"
  using assms
proof (induction "is" arbitrary: m)
  case Nil
  then show ?case by simp
next
  case (Cons i "is")
  let ?h = "program_header (of_nat (length (mem_bytes m))) bs off ent"
  from Cons.prems(1) obtain r where r: "?h i = Inr r" by (cases "?h i") (auto simp: well_loaded_def)
  from Cons.prems(1) have w: "well_loaded (map ?h is)" by (simp add: well_loaded_def)
  show ?case
  proof (cases r)
    case None
    with r w Cons show ?thesis by simp
  next
    case (Some s)
    with r have "segment_fits (length (mem_bytes m)) bs s" using program_header_fits Cons.prems(2) by blast
    then have l: "load_segment bs m s = m\<lparr>mem_bytes := elf_image bs [s] (mem_bytes m)\<rparr>"
      using Cons.prems(2) by (rule load_segment_image)
    from Cons.IH [of "m\<lparr>mem_bytes := elf_image bs [s] (mem_bytes m)\<rparr>"] w Cons.prems(2)
    show ?thesis by (simp add: r Some l elf_image_Cons)
  qed
qed

lemma elf_accepts:
  assumes "52 \<le> length bs" "take 4 bs = [0x7F, 0x45, 0x4C, 0x46]" "bs ! 4 = 1" "bs ! 5 = 1" "get16 bs 0x12 = 3"
  shows "load_elf m bs =
     (case load_segments (of_nat (length (mem_bytes m))) bs (unat (get32 bs 0x1C)) (unat (get16 bs 0x2A))
             [0..<unat (get16 bs 0x2C)] m of
        (m', Inl e) \<Rightarrow> (m', Inl e) | (m', Inr _) \<Rightarrow> (m', Inr (get32 bs 0x18)))"
  using assms by (simp add: load_elf_def Let_def mem_size_def)

section \<open>Stores inside RAM\<close>

text \<open>Every store of the loaders that stays inside RAM is one \<open>put\<close>; \<open>lies_at\<close> says what a region holds.\<close>

definition lies_at :: "bytes \<Rightarrow> nat \<Rightarrow> bytes \<Rightarrow> bool" where
  "lies_at ram a bs \<longleftrightarrow> take (length bs) (drop a ram) = bs"

lemma lies_at_put: "i + length bs \<le> length xs \<Longrightarrow> lies_at (put xs i bs) i bs"
  by (simp add: lies_at_def put_def)

lemma take_drop_put_other:
  assumes "i + length bs \<le> length xs" "j + n \<le> i \<or> i + length bs \<le> j"
  shows "take n (drop j (put xs i bs)) = take n (drop j xs)"
  using assms by (intro nth_equalityI) (auto simp: put_nth)

lemma lies_at_put_other:
  "i + length bs \<le> length xs \<Longrightarrow> j + length cs \<le> i \<or> i + length bs \<le> j \<Longrightarrow>
     lies_at (put xs i bs) j cs = lies_at xs j cs"
  by (simp add: lies_at_def take_drop_put_other)

lemma put_Nil [simp]: "put xs i [] = xs"
  by (simp add: put_def)

lemma write_slice_put:
  assumes "unat a + length bs \<le> length (mem_bytes m)"
  shows "write_slice m a bs = m\<lparr>mem_bytes := put (mem_bytes m) (unat a) bs\<rparr>"
proof (cases "bs = []")
  case True
  then show ?thesis by (simp add: write_slice_def Let_def)
next
  case False
  with assms have "unat a < length (mem_bytes m)" by (cases bs) auto
  with assms show ?thesis by (simp add: write_slice_def Let_def min_def)
qed

lemma write_u32_put:
  assumes "unat a + 4 \<le> length (mem_bytes m)" "length (mem_bytes m) \<le> 2 ^ 32"
  shows "write_u32 m a v = m\<lparr>mem_bytes := put (mem_bytes m) (unat a) (le32 v)\<rparr>"
proof -
  have "write_u32 m a v = write_u8_seq m a (le32 v)"
    by (simp add: write_u32_cells le32_def add.assoc)
  then show ?thesis using assms by (simp add: write_u8_seq_put mem_size_def)
qed

lemma write_u16_put:
  assumes "unat a + 2 \<le> length (mem_bytes m)" "length (mem_bytes m) \<le> 2 ^ 32"
  shows "write_u16 m a v = m\<lparr>mem_bytes := put (mem_bytes m) (unat a) (le16 v)\<rparr>"
proof -
  have "write_u16 m a v = write_u8_seq m a (le16 v)"
    by (simp add: write_u16_cells le16_def)
  then show ?thesis using assms by (simp add: write_u8_seq_put mem_size_def)
qed

lemma write_u8_put:
  "unat a < length (mem_bytes m) \<Longrightarrow> write_u8 m a v = m\<lparr>mem_bytes := put (mem_bytes m) (unat a) [v]\<rparr>"
  by (simp add: write_u8_ram put_def upd_conv_take_nth_drop)

lemma put_put_adjacent:
  assumes "i + length bs + length cs \<le> length xs" "j = i + length bs"
  shows "put (put xs i bs) j cs = put xs i (bs @ cs)"
  using assms by (simp add: put_def ac_simps)

text \<open>The three steps of laying out a kernel, as stores.\<close>

lemma load_bzimage_layout:
  assumes "load_bzimage m bs = (m', Inr bz)"
      and "0x90000 + bz_payload_offset bz \<le> length (mem_bytes m)"
      and "unat (bz_code32_start bz) + (length bs - bz_payload_offset bz) \<le> length (mem_bytes m)"
  shows "m' = m\<lparr>mem_bytes := put (put (mem_bytes m) 0x90000 (take (bz_payload_offset bz) bs))
                (unat (bz_code32_start bz)) (drop (bz_payload_offset bz) bs)\<rparr>"
    "bz_parse bs = Inr bz" "512 < bz_payload_offset bz" "bz_payload_offset bz \<le> length bs"
proof -
  from assms(1) show p: "bz_parse bs = Inr bz" and l: "bz_payload_offset bz \<le> length bs"
    by (auto simp: load_bzimage_def Let_def split: sum.splits if_splits)
  from p show o: "512 < bz_payload_offset bz"
    by (auto simp: bz_parse_def Let_def unat_gt_0 split: if_splits)
  let ?s = "take (bz_payload_offset bz) bs"
  have "write_slice m 0x90000 ?s = m\<lparr>mem_bytes := put (mem_bytes m) 0x90000 ?s\<rparr>"
    using assms(2) l by (subst write_slice_put) auto
  moreover have "m' = (if bz_payload_offset bz < length bs
      then write_slice (write_slice m 0x90000 ?s) (bz_code32_start bz) (drop (bz_payload_offset bz) bs)
      else write_slice m 0x90000 ?s)"
    using assms(1) p by (auto simp: load_bzimage_def Let_def split: if_splits)
  ultimately show "m' = m\<lparr>mem_bytes := put (put (mem_bytes m) 0x90000 ?s)
                (unat (bz_code32_start bz)) (drop (bz_payload_offset bz) bs)\<rparr>"
    using assms(2,3) l by (simp add: write_slice_put)
qed

lemma set_kernel_cmdline_layout:
  assumes "0x91000 \<le> length (mem_bytes m)" "length (mem_bytes m) \<le> 2 ^ 32"
  shows "set_kernel_cmdline m cmd = m\<lparr>mem_bytes :=
     put (put (mem_bytes m) 0x90800 (take 2047 cmd @ [0])) 0x90228 (le32 0x90800)\<rparr>"
proof -
  let ?t = "take (min (length cmd) 2047) cmd" let ?l = "of_nat (min (length cmd) 2047) :: u32"
  have t: "?t = take 2047 cmd" by (simp add: min_def)
  have lt: "length ?t = min (length cmd) 2047" by simp
  have w: "write_slice m 0x90800 ?t = m\<lparr>mem_bytes := put (mem_bytes m) 0x90800 ?t\<rparr>"
    using assms(1) by (subst write_slice_put) auto
  have u: "unat (0x90800 + ?l) = 0x90800 + min (length cmd) 2047"
    using unat_offset [of "0x90800" "min (length cmd) 2047"] by simp
  have "write_u8 (write_slice m 0x90800 ?t) (0x90800 + ?l) 0 =
      m\<lparr>mem_bytes := put (mem_bytes m) 0x90800 (take 2047 cmd @ [0])\<rparr>"
    unfolding w using assms(1)
    by (subst write_u8_put) (auto simp: u put_put_adjacent t [symmetric] lt)
  then show ?thesis
    unfolding set_kernel_cmdline_def Let_def using assms
    by (simp add: write_u32_put OFF_CMD_LINE_PTR_def)
qed

lemma set_ramdisk_layout:
  assumes "set_ramdisk m rd = (m', Inr ())" "0x91000 \<le> length (mem_bytes m)" "length (mem_bytes m) \<le> 2 ^ 32"
      and "rd \<noteq> []"
  defines "start \<equiv> length (mem_bytes m) - page_round (length rd)"
  shows "m' = m\<lparr>mem_bytes := put (put (put (put (mem_bytes m) start rd) 0x90218 (le32 (of_nat start)))
                  0x9021C (le32 (of_nat (length rd)))) 0x90210 [0xFF]\<rparr>"
    "start + length rd \<le> length (mem_bytes m)"
proof -
  have pr: "length rd \<le> page_round (length rd)" 
    using div_mult_mod_eq [of "length rd + 0xFFF" 4096] mod_less_divisor [of 4096 "length rd + 0xFFF"]
    unfolding page_round_def by linarith
  have ok: "page_round (length rd) \<le> length (mem_bytes m)"
    using assms(1) by (auto simp: set_ramdisk_def Let_def mem_size_def split: if_splits)
  then show fits: "start + length rd \<le> length (mem_bytes m)" using pr by (simp add: start_def)
  have "start < 2 ^ 32" using assms(3,4) pr ok by (cases rd) (auto simp: start_def)
  then have u: "unat (of_nat start :: u32) = start" by (rule unat_of_nat_u32)
  have w: "write_slice m (of_nat start) rd = m\<lparr>mem_bytes := put (mem_bytes m) start rd\<rparr>"
    using fits by (subst write_slice_put) (simp_all add: u)
  show "m' = m\<lparr>mem_bytes := put (put (put (put (mem_bytes m) start rd) 0x90218 (le32 (of_nat start)))
                  0x9021C (le32 (of_nat (length rd)))) 0x90210 [0xFF]\<rparr>"
    using assms(1-3) ok fits
    by (simp add: set_ramdisk_def Let_def mem_size_def start_def [symmetric] w write_u32_put write_u8_put bz_offsets)
qed

text \<open>Patching the ramdisk fields (and the loader-owned bytes) of a header keeps the rest of what it parses to.\<close>

lemma bz_parse_patch:
  assumes "bz_parse bs = Inr bz" "1024 \<le> length hs"
      and same: "\<And>j. j < 0x210 \<Longrightarrow> hs ! j = bs ! j" "\<And>j. 0x211 \<le> j \<Longrightarrow> j < 0x218 \<Longrightarrow> hs ! j = bs ! j"
        "\<And>j. 0x22C \<le> j \<Longrightarrow> j < 1024 \<Longrightarrow> hs ! j = bs ! j"
  shows "bz_parse hs = Inr (bz\<lparr>bz_ramdisk_image := get32 hs 0x218, bz_ramdisk_size := get32 hs 0x21C\<rparr>)"
  using assms(1,2) unfolding bz_parse_def bz_offsets get16_def get32_def Let_def
  by (auto simp: same split: if_splits)

lemma get_drop [simp]: "k + i + 3 < length xs \<Longrightarrow> get32 (drop k xs) i = get32 xs (k + i)"
  by (simp add: get32_def add.assoc)

text \<open>A sequence of stores; what was stored last in a region is what lies there.\<close>

definition patch :: "bytes \<Rightarrow> (nat \<times> bytes) list \<Rightarrow> bytes" where
  "patch ram ps = foldl (\<lambda>r ab. put r (fst ab) (snd ab)) ram ps"

definition patches_fit :: "nat \<Rightarrow> (nat \<times> bytes) list \<Rightarrow> bool" where
  "patches_fit n ps \<longleftrightarrow> (\<forall>ab \<in> set ps. fst ab + length (snd ab) \<le> n)"

definition apart :: "nat \<Rightarrow> nat \<Rightarrow> (nat \<times> bytes) list \<Rightarrow> bool" where
  "apart a k ps \<longleftrightarrow> (\<forall>cd \<in> set ps. a + k \<le> fst cd \<or> fst cd + length (snd cd) \<le> a)"

lemma patch_simps [simp]: "patch ram [] = ram" "patch ram (ab # ps) = patch (put ram (fst ab) (snd ab)) ps"
  by (simp_all add: patch_def)

lemma patch_append: "patch ram (ps @ qs) = patch (patch ram ps) qs"
  by (simp add: patch_def)

lemma length_patch: "patches_fit (length ram) ps \<Longrightarrow> length (patch ram ps) = length ram"
  by (induction ps arbitrary: ram) (auto simp: patches_fit_def)

lemma patch_apart:
  "patches_fit (length ram) ps \<Longrightarrow> apart a k ps \<Longrightarrow> take k (drop a (patch ram ps)) = take k (drop a ram)"
  by (induction ps arbitrary: ram) (auto simp: patches_fit_def apart_def take_drop_put_other)

lemma patch_nth:
  assumes "patches_fit (length ram) ps" "apart j 1 ps" "j < length ram"
  shows "patch ram ps ! j = ram ! j"
proof -
  have "take 1 (drop j (patch ram ps)) = take 1 (drop j ram)" using assms by (intro patch_apart)
  then show ?thesis using assms(3) length_patch [OF assms(1)] by (simp add: take_Suc hd_drop_conv_nth)
qed

lemma patch_lies:
  assumes "patches_fit (length ram) (ps @ (a, b) # qs)" "apart a (length b) qs"
  shows "lies_at (patch ram (ps @ (a, b) # qs)) a b"
proof -
  have l: "length (patch ram ps) = length ram" using assms(1) by (intro length_patch) (simp add: patches_fit_def)
  then have "patches_fit (length (put (patch ram ps) a b)) qs" "a + length b \<le> length (patch ram ps)"
    using assms(1) by (auto simp: patches_fit_def)
  then show ?thesis
    using assms(2) lies_at_put [of a b "patch ram ps"] patch_apart [of "put (patch ram ps) a b" qs a "length b"]
    by (simp add: patch_append lies_at_def)
qed

lemma lies_at_nth: "lies_at xs a b \<Longrightarrow> j < length b \<Longrightarrow> xs ! (a + j) = b ! j" if "a + length b \<le> length xs"
  using that unfolding lies_at_def by (metis nth_take nth_drop add_leD1)

lemma lies_at_le32: "lies_at xs a (le32 v) \<Longrightarrow> a + 4 \<le> length xs \<Longrightarrow> get32 xs a = v"
  using lies_at_nth [of a "le32 v" xs 0] lies_at_nth [of a "le32 v" xs 1] lies_at_nth [of a "le32 v" xs 2]
    lies_at_nth [of a "le32 v" xs 3]
  by (simp add: get32_def le32_nth)

lemma kernel_patches:
  fixes ram s p cl rd bs :: bytes and l :: u32
  assumes "length ram = n" "0x91000 \<le> c" "0x90000 + length s \<le> c" "c + length p \<le> start" "start + length rd \<le> n"
      and "length cl \<le> 0x800" "1024 \<le> length s" "s = take (length s) bs"
  defines "later \<equiv> [(0x90800, cl), (0x90228, le32 0x90800), (start, rd), (0x90218, le32 (of_nat start)),
             (0x9021C, le32 l), (0x90210, [0xFF])]"
  defines "x \<equiv> patch ram ([(0x90000, s), (c, p)] @ later)"
  shows "length x = n" "lies_at x c p" "lies_at x 0x90800 cl" "lies_at x 0x90228 (le32 0x90800)" "lies_at x start rd"
    "lies_at x 0x90218 (le32 (of_nat start))" "lies_at x 0x9021C (le32 l)"
    "j < 0x210 \<or> 0x211 \<le> j \<and> j < 0x218 \<or> 0x22C \<le> j \<and> j < 1024 \<Longrightarrow> x ! (0x90000 + j) = bs ! j"
proof -
  note far = assms(1-7)
  have fit: "patches_fit n ([(0x90000, s), (c, p)] @ later)" using far by (auto simp: patches_fit_def later_def)
  then show "length x = n" unfolding x_def using length_patch assms(1) by metis
  show "lies_at x c p"
    using patch_lies [of ram "[(0x90000, s)]" c p later] fit far by (simp add: x_def later_def apart_def)
  show "lies_at x 0x90800 cl"
    using patch_lies [of ram "[(0x90000, s), (c, p)]" "0x90800" cl "drop 1 later"] fit far
    by (simp add: x_def later_def apart_def)
  show "lies_at x 0x90228 (le32 0x90800)"
    using patch_lies [of ram "[(0x90000, s), (c, p)] @ take 1 later" "0x90228" "le32 0x90800" "drop 2 later"] fit far
    by (simp add: x_def later_def apart_def)
  show "lies_at x start rd"
    using patch_lies [of ram "[(0x90000, s), (c, p)] @ take 2 later" start rd "drop 3 later"] fit far
    by (simp add: x_def later_def apart_def)
  show "lies_at x 0x90218 (le32 (of_nat start))"
    using patch_lies [of ram "[(0x90000, s), (c, p)] @ take 3 later" "0x90218" "le32 (of_nat start)" "drop 4 later"] fit far
    by (simp add: x_def later_def apart_def)
  show "lies_at x 0x9021C (le32 l)"
    using patch_lies [of ram "[(0x90000, s), (c, p)] @ take 4 later" "0x9021C" "le32 l" "drop 5 later"] fit far
    by (simp add: x_def later_def apart_def)
  assume j: "j < 0x210 \<or> 0x211 \<le> j \<and> j < 0x218 \<or> 0x22C \<le> j \<and> j < 1024"
  have "length (put ram 0x90000 s) = n" using far by simp
  then have "patch (put ram 0x90000 s) ((c, p) # later) ! (0x90000 + j) = put ram 0x90000 s ! (0x90000 + j)"
    using j far fit by (intro patch_nth) (auto simp: patches_fit_def apart_def later_def)
  moreover have "j < length s" using assms(7) j by auto
  then have "s ! j = bs ! j" using arg_cong [OF assms(8), of "\<lambda>x. x ! j"] by simp
  ultimately show "x ! (0x90000 + j) = bs ! j" using j far by (auto simp: x_def put_nth)
qed

section \<open>Properties\<close>

definition elf_header_ok :: "bytes \<Rightarrow> bool" where
  "elf_header_ok bs \<longleftrightarrow> 52 \<le> length bs \<and> take 4 bs = [0x7F, 0x45, 0x4C, 0x46] \<and> bs ! 4 = 1 \<and> bs ! 5 = 1 \<and>
     get16 bs 0x12 = 3"

definition elf_headers :: "memory \<Rightarrow> bytes \<Rightarrow> nat \<Rightarrow> (elf_error + segment option) list" where
  "elf_headers m bs n =
     map (program_header (of_nat (mem_size m)) bs (unat (get32 bs 0x1C)) (unat (get16 bs 0x2A))) [0..<n]"

lemma load_elf_prefix:
  assumes "elf_header_ok bs" "mem_size m < 2 ^ 32" "well_loaded (elf_headers m bs n)" "n \<le> unat (get16 bs 0x2C)"
  defines "m1 \<equiv> m\<lparr>mem_bytes := elf_image bs (loadable (elf_headers m bs n)) (mem_bytes m)\<rparr>"
  shows "load_elf m bs =
     (case load_segments (of_nat (mem_size m)) bs (unat (get32 bs 0x1C)) (unat (get16 bs 0x2A))
             [n..<unat (get16 bs 0x2C)] m1 of
        (m', Inl e) \<Rightarrow> (m', Inl e) | (m', Inr _) \<Rightarrow> (m', Inr (get32 bs 0x18)))"
proof -
  have "[0..<unat (get16 bs 0x2C)] = [0..<n] @ [n..<unat (get16 bs 0x2C)]"
    using assms(4) by (metis le0 le_add_diff_inverse upt_add_eq_append)
  moreover have "load_segments (of_nat (mem_size m)) bs (unat (get32 bs 0x1C)) (unat (get16 bs 0x2A))
      ([0..<n] @ [n..<unat (get16 bs 0x2C)]) m =
    load_segments (of_nat (mem_size m)) bs (unat (get32 bs 0x1C)) (unat (get16 bs 0x2A)) [n..<unat (get16 bs 0x2C)] m1"
    using assms(3,2) unfolding m1_def elf_headers_def mem_size_def by (rule load_segments_ok)
  moreover have "load_elf m bs = (case load_segments (of_nat (mem_size m)) bs (unat (get32 bs 0x1C)) (unat (get16 bs 0x2A))
             [0..<unat (get16 bs 0x2C)] m of
        (m', Inl e) \<Rightarrow> (m', Inl e) | (m', Inr _) \<Rightarrow> (m', Inr (get32 bs 0x18)))"
    using assms(1) elf_accepts [of bs m] unfolding elf_header_ok_def mem_size_def by blast
  ultimately show ?thesis by simp
qed

text \<open>
  C34: What the ELF loader does, on every branch.  A file whose header is not that of a 32-bit little-endian i386
  image is refused and memory is untouched.  Otherwise, when every program header passes its checks, memory
  holds exactly the image of the loadable segments (file bytes, then zeros up to the memory size, a later
  segment over an earlier one, everything else as it was) and the result is the entry point.  When header \<open>i\<close>
  is the first that fails, its error is returned and memory holds the image of the segments before it.
\<close>

theorem load_elf_exact:
  assumes "mem_size m < 2 ^ 32"
  shows "(\<not> elf_header_ok bs \<longrightarrow> (\<exists>e. load_elf m bs = (m, Inl e))) \<and>
     (elf_header_ok bs \<and> well_loaded (elf_headers m bs (unat (get16 bs 0x2C))) \<longrightarrow>
        load_elf m bs = (m\<lparr>mem_bytes := elf_image bs (loadable (elf_headers m bs (unat (get16 bs 0x2C)))) (mem_bytes m)\<rparr>,
                         Inr (get32 bs 0x18))) \<and>
     (elf_header_ok bs \<longrightarrow> (\<forall>i e. i < unat (get16 bs 0x2C) \<and> well_loaded (elf_headers m bs i) \<and>
        elf_headers m bs (Suc i) ! i = Inl e \<longrightarrow>
        load_elf m bs = (m\<lparr>mem_bytes := elf_image bs (loadable (elf_headers m bs i)) (mem_bytes m)\<rparr>, Inl e)))"
proof (intro conjI impI allI)
  assume "\<not> elf_header_ok bs"
  then show "\<exists>e. load_elf m bs = (m, Inl e)"
    by (auto simp: elf_header_ok_def load_elf_def Let_def not_le)
next
  assume "elf_header_ok bs \<and> well_loaded (elf_headers m bs (unat (get16 bs 0x2C)))"
  then show "load_elf m bs = (m\<lparr>mem_bytes := elf_image bs (loadable (elf_headers m bs (unat (get16 bs 0x2C)))) (mem_bytes m)\<rparr>,
      Inr (get32 bs 0x18))"
    using load_elf_prefix [OF _ assms, of bs "unat (get16 bs 0x2C)"] by simp
next
  fix i e
  assume "elf_header_ok bs" and
    "i < unat (get16 bs 0x2C) \<and> well_loaded (elf_headers m bs i) \<and> elf_headers m bs (Suc i) ! i = Inl e"
  then show "load_elf m bs = (m\<lparr>mem_bytes := elf_image bs (loadable (elf_headers m bs i)) (mem_bytes m)\<rparr>, Inl e)"
    using load_elf_prefix [OF _ assms, of bs i]
    by (simp add: elf_headers_def upt_conv_Cons nth_append)
qed

definition tiny_elf :: bytes where
  "tiny_elf = [0x7F, 0x45, 0x4C, 0x46, 1, 1, 1, 0, 0, 0, 0, 0, 0, 0, 0, 0, 2, 0, 3, 0, 1, 0, 0, 0,
               4, 0, 0, 0, 52, 0, 0, 0, 0, 0, 0, 0, 0, 0, 0, 0, 52, 0, 32, 0, 1, 0, 0, 0, 0, 0, 0, 0] @
              [1, 0, 0, 0, 80, 0, 0, 0, 4, 0, 0, 0, 4, 0, 0, 0, 4, 0, 0, 0, 6, 0, 0, 0, 0xF4, 0x90, 0x90, 0x90, 9, 9, 9, 9]"

definition tiny_memory :: memory where
  "tiny_memory = \<lparr>mem_bytes = replicate 16 7, mem_lapic = [], mem_hpet = [], pending_lapic_irq = None,
     hpet_period = [], watch_phys = None\<rparr>"

lemma tiny_elf_facts:
  "elf_header_ok tiny_elf" "unat (get16 tiny_elf 0x2C) = 1"
  "elf_headers tiny_memory tiny_elf 1 = [Inr (Some \<lparr>p_offset = 80, p_vaddr = 4, p_filesz = 4, p_memsz = 6\<rparr>)]"
    apply (code_simp)
   apply (code_simp)
  apply (simp add: elf_headers_def program_header_def Let_def mem_size_def tiny_memory_def tiny_elf_def get32_def get16_def
     of_le16_def of_le32_def PT_LOAD_def)
  done

theorem load_elf_exact_witness:
  "mem_size tiny_memory < 2 ^ 32 \<and> elf_header_ok tiny_elf \<and>
   load_elf tiny_memory tiny_elf = (tiny_memory\<lparr>mem_bytes := [7, 7, 7, 7, 9, 9, 9, 9, 0, 0, 7, 7, 7, 7, 7, 7]\<rparr>, Inr 4)"
proof -
  have s: "mem_size tiny_memory < 2 ^ 32" by (simp add: mem_size_def tiny_memory_def)
  have "elf_image tiny_elf [\<lparr>p_offset = 80, p_vaddr = 4, p_filesz = 4, p_memsz = 6\<rparr>] (mem_bytes tiny_memory) =
      [7, 7, 7, 7, 9, 9, 9, 9, 0, 0, 7, 7, 7, 7, 7, 7]" and "get32 tiny_elf 0x18 = 4"
    by code_simp+
  with load_elf_exact [OF s, of tiny_elf] s tiny_elf_facts show ?thesis by (simp add: well_loaded_def)
qed

text \<open>
  C33: A booted kernel finds everything where its setup header says.  After loading a bzImage, setting the command line and
  setting a ramdisk, in a memory where kernel, setup area and ramdisk do not overlap: the payload lies at
  \<^verbatim>\<open>code32_start\<close>, the command line (cut to 2047 bytes, terminated by NUL) at the address the header's pointer
  gives, the ramdisk at the top of RAM, and parsing the setup header in guest memory again gives the header
  of the file with the ramdisk's address and length filled in.
\<close>

theorem boot_layout:
  assumes "load_bzimage m bs = (m1, Inr bz)" and "set_ramdisk (set_kernel_cmdline m1 cmd) rd = (m2, Inr ())"
      and "length (mem_bytes m) \<le> 2 ^ 32" "rd \<noteq> []"
  defines "start \<equiv> length (mem_bytes m) - page_round (length rd)"
  assumes "0x90000 + bz_payload_offset bz \<le> unat (bz_code32_start bz)" "0x91000 \<le> unat (bz_code32_start bz)"
      and "unat (bz_code32_start bz) + (length bs - bz_payload_offset bz) \<le> start" "1024 \<le> bz_payload_offset bz"
  shows "lies_at (mem_bytes m2) (unat (bz_code32_start bz)) (drop (bz_payload_offset bz) bs) \<and>
     get32 (mem_bytes m2) 0x90228 = 0x90800 \<and> lies_at (mem_bytes m2) 0x90800 (take 2047 cmd @ [0]) \<and>
     lies_at (mem_bytes m2) start rd \<and>
     bz_parse (drop 0x90000 (mem_bytes m2)) =
       Inr (bz\<lparr>bz_ramdisk_image := of_nat start, bz_ramdisk_size := of_nat (length rd)\<rparr>)"
proof -
  let ?n = "length (mem_bytes m)" let ?s = "take (bz_payload_offset bz) bs" let ?p = "drop (bz_payload_offset bz) bs"
  let ?c = "unat (bz_code32_start bz)"
  have b: "0x90000 + bz_payload_offset bz \<le> ?n" "?c + (length bs - bz_payload_offset bz) \<le> ?n"
    using assms(6-8) by (simp_all add: start_def)
  note l1 = load_bzimage_layout [OF assms(1) b]
  have n1: "length (mem_bytes m1) = ?n" using b l1(1,4) by simp
  have n91: "0x91000 \<le> ?n" using assms(7,8) by (simp add: start_def)
  let ?m1 = "set_kernel_cmdline m1 cmd"
  have l2: "?m1 = m1\<lparr>mem_bytes := put (put (mem_bytes m1) 0x90800 (take 2047 cmd @ [0])) 0x90228 (le32 0x90800)\<rparr>"
    using n91 n1 assms(3) by (intro set_kernel_cmdline_layout) simp_all
  then have n2: "length (mem_bytes ?m1) = ?n" using n1 n91 by simp
  note l3 = set_ramdisk_layout [OF assms(2) _ _ assms(4), unfolded n2, folded start_def, OF n91 assms(3)]
  let ?ps = "[(0x90000, ?s), (?c, ?p), (0x90800, take 2047 cmd @ [0]), (0x90228, le32 0x90800), (start, rd),
      (0x90218, le32 (of_nat start)), (0x9021C, le32 (of_nat (length rd))), (0x90210, [0xFF])]"
  have r: "mem_bytes m2 = patch (mem_bytes m) ?ps" using l1(1) l2 l3(1) by simp
  have far: "0x90000 + length ?s \<le> ?c" "?c + length ?p \<le> start" "1024 \<le> length ?s" "?s = take (length ?s) bs"
    using l1(4) assms(6-9) by simp_all
  note k = kernel_patches [where ram = "mem_bytes m" and n = ?n and c = ?c and s = ?s and p = ?p and start = start and rd = rd
      and cl = "take 2047 cmd @ [0]" and bs = bs and l = "of_nat (length rd)",
      OF refl assms(7) far(1,2) l3(2) _ far(3,4), simplified append_Cons append_Nil, folded r]
  have cl: "length (take 2047 cmd @ [0]) \<le> 0x800" by simp
  note k = k [OF cl]
  have "bz_parse (drop 0x90000 (mem_bytes m2)) = Inr (bz\<lparr>bz_ramdisk_image := get32 (drop 0x90000 (mem_bytes m2)) 0x218,
      bz_ramdisk_size := get32 (drop 0x90000 (mem_bytes m2)) 0x21C\<rparr>)"
    using k(1,8) n91 by (intro bz_parse_patch [OF l1(2)]) simp_all
  moreover have "get32 (drop 0x90000 (mem_bytes m2)) 0x218 = of_nat start"
    "get32 (drop 0x90000 (mem_bytes m2)) 0x21C = of_nat (length rd)" "get32 (mem_bytes m2) 0x90228 = 0x90800"
    using lies_at_le32 [OF k(6)] lies_at_le32 [OF k(7)] lies_at_le32 [OF k(4)] k(1) n91 by simp_all
  ultimately show ?thesis using k(2,3,5) by simp
qed

definition tiny_bzimage :: bytes where
  "tiny_bzimage = (replicate 1024 0)[0x1F1 := 1, 0x1FE := 0x55, 0x1FF := 0xAA, 0x202 := 0x48, 0x203 := 0x64, 0x204 := 0x72,
     0x205 := 0x53, 0x216 := 0x10] @ [0xF4]"

definition boot_memory :: memory where
  "boot_memory = tiny_memory\<lparr>mem_bytes := replicate 0x200000 0\<rparr>"

lemma tiny_bzimage_parse:
  "\<exists>bz. bz_parse tiny_bzimage = Inr bz \<and> bz_payload_offset bz = 1024 \<and> bz_code32_start bz = 0x100000 \<and> bz_init_size bz = 0"
  by (simp add: bz_parse_def Let_def bz_offsets tiny_bzimage_def get16_def get32_def of_le16_def of_le32_def nth_append)

theorem boot_layout_witness:
  "\<exists>m1 bz m2. load_bzimage boot_memory tiny_bzimage = (m1, Inr bz) \<and>
     set_ramdisk (set_kernel_cmdline m1 [0x71, 0x75]) [1, 2, 3] = (m2, Inr ()) \<and>
     lies_at (mem_bytes m2) 0x100000 [0xF4] \<and> lies_at (mem_bytes m2) 0x90800 [0x71, 0x75, 0] \<and>
     lies_at (mem_bytes m2) 0x1FF000 [1, 2, 3]"
proof -
  obtain bz where bz: "bz_parse tiny_bzimage = Inr bz" "bz_payload_offset bz = 1024" "bz_code32_start bz = 0x100000"
      "bz_init_size bz = 0"
    using tiny_bzimage_parse by blast
  have len: "length tiny_bzimage = 1025" "drop 1024 tiny_bzimage = [0xF4]" by (simp_all add: tiny_bzimage_def)
  obtain m1 where m1: "load_bzimage boot_memory tiny_bzimage = (m1, Inr bz)"
    by (simp add: load_bzimage_def bz len Let_def)
  have n: "length (mem_bytes boot_memory) = 0x200000" by (simp add: boot_memory_def)
  have "length (mem_bytes m1) = 0x200000"
    using load_bzimage_layout(1) [OF m1] by (simp add: bz n len)
  then have n1: "length (mem_bytes (set_kernel_cmdline m1 [0x71, 0x75])) = 0x200000"
    by (simp add: set_kernel_cmdline_layout)
  obtain m2 where m2: "set_ramdisk (set_kernel_cmdline m1 [0x71, 0x75]) [1, 2, 3] = (m2, Inr ())"
    by (simp add: set_ramdisk_def Let_def mem_size_def n1 page_round_def)
  from boot_layout [OF m1 m2] have "lies_at (mem_bytes m2) 0x100000 [0xF4] \<and> lies_at (mem_bytes m2) 0x90800 [0x71, 0x75, 0] \<and>
      lies_at (mem_bytes m2) 0x1FF000 [1, 2, 3]"
    by (simp add: n bz len page_round_def)
  with m1 m2 show ?thesis by blast
qed

end
