(* ===== verification/VmClock.thy ===== *)
theory VmClock
  imports Prelude "HOL-Library.Signed_Division"
begin

text \<open>
  The host clock seeds the guest's RTC (\<^verbatim>\<open>civil_from_unix_secs\<close> of \<^verbatim>\<open>crates/vm/src/lib.rs\<close>): seconds since
  1970 to a civil date and time, by the closed formulas of the era-based algorithm.  They are compared
  with the calendar itself, a day-by-day walk from 1 January 1970.  The argument is a u64 and every
  intermediate value lies between 0 and \<open>2 ^ 63\<close>, so i64 and u64 values are integers here; i64 division
  truncates.
\<close>

section \<open>The algorithm\<close>

definition yoe_of :: "int \<Rightarrow> int" where
  "yoe_of doe = (doe - doe div 1460 + doe div 36524 - doe div 146096) div 365"

definition month_day :: "int \<Rightarrow> int \<times> int" where
  "month_day doy =
     (let mp = (5 * doy + 2) div 153; day = doy - (153 * mp + 2) div 5 + 1;
          month = (if mp < 10 then mp + 3 else mp - 9)
      in (month, day))"

definition civil_from_unix_secs :: "int \<Rightarrow> int \<times> int \<times> int \<times> int \<times> int \<times> int" where
  "civil_from_unix_secs secs =
     (let days = secs div 86400; rem = secs mod 86400;
          hour = rem div 3600; minute = (rem mod 3600) div 60; second = rem mod 60;
          z = days + 719468;
          era = (if 0 \<le> z then z else z - 146096) sdiv 146097;
          doe = z - era * 146097;
          yoe = yoe_of doe;
          y = yoe + era * 400;
          doy = doe - (365 * yoe + yoe div 4 - yoe div 100);
          (month, day) = month_day doy;
          year = (if month \<le> 2 then y + 1 else y)
      in (year, month, day, hour, minute, second))"

section \<open>The calendar\<close>

definition leap :: "int \<Rightarrow> bool" where
  "leap y \<longleftrightarrow> y mod 4 = 0 \<and> (y mod 100 \<noteq> 0 \<or> y mod 400 = 0)"

definition month_len :: "bool \<Rightarrow> int \<Rightarrow> int" where
  "month_len lp m = (if m = 2 then (if lp then 29 else 28) else if m = 4 \<or> m = 6 \<or> m = 9 \<or> m = 11 then 30 else 31)"

definition next_day :: "int \<times> int \<times> int \<Rightarrow> int \<times> int \<times> int" where
  "next_day = (\<lambda>(y, m, d).
     if d < month_len (leap y) m then (y, m, d + 1) else if m < 12 then (y, m + 1, 1) else (y + 1, 1, 1))"

section \<open>Years of an era\<close>

text \<open>Years run from March: year \<open>y\<close> of an era starts \<open>year_start y\<close> days in, and is long when the next February is.\<close>

definition year_start :: "int \<Rightarrow> int" where
  "year_start y = 365 * y + y div 4 - y div 100"

definition year_len :: "int \<Rightarrow> int" where
  "year_len y = (if leap (y + 1) then 366 else 365)"

definition era_num :: "int \<Rightarrow> int" where
  "era_num doe = doe - doe div 1460 + doe div 36524"

lemma era_num_mono: "a \<le> b \<Longrightarrow> era_num a \<le> era_num b"
proof -
  assume ab: "a \<le> b"
  have "b div 1460 - a div 1460 \<le> b - a"
  proof -
    have "b = a + (b - a)" by simp
    then have "b div 1460 \<le> a div 1460 + (b - a)" using ab by linarith
    then show ?thesis by simp
  qed
  moreover have "a div 36524 \<le> b div 36524" using ab by (rule zdiv_mono1) simp
  ultimately show ?thesis by (simp add: era_num_def)
qed

definition year_ok :: "int \<Rightarrow> bool" where
  "year_ok y \<longleftrightarrow> era_num (year_start y) div 365 = y \<and> era_num (min (year_start y + year_len y - 1) 146095) div 365 = y \<and>
     0 \<le> year_start y \<and> year_start y + year_len y \<le> 146097 \<and>
     (y < 399 \<longrightarrow> year_start y + year_len y = year_start (y + 1)) \<and> (y = 399 \<longrightarrow> year_start y + year_len y = 146097)"

lemma years_checked: "list_all year_ok [0..399]"
  by code_simp

lemma year_okI: "0 \<le> y \<Longrightarrow> y < 400 \<Longrightarrow> year_ok y"
  using years_checked by (simp add: list_all_iff)

definition day_ok :: "int \<Rightarrow> bool" where
  "day_ok d \<longleftrightarrow> (case month_day d of (m, k) \<Rightarrow> month_day (d + 1) =
     (if k < month_len (d < 0) m then (m, k + 1) else if m < 12 then (m + 1, 1) else (1, 1)) \<and> (m = 2 \<longrightarrow> k < 28) \<and> m \<le> 12)"

lemma days_checked: "list_all day_ok [0..363]" "month_day 364 = (2, 28)" "month_day 365 = (2, 29)" "month_day 0 = (3, 1)"
  by code_simp+

lemma yoe_of_year:
  assumes "0 \<le> y" "y < 400" "0 \<le> d" "d < year_len y"
  shows "yoe_of (year_start y + d) = y"
proof -
  let ?e = "year_start y + d"
  note ok = year_okI [OF assms(1,2), unfolded year_ok_def]
  then have b: "0 \<le> ?e" "?e \<le> 146096" using assms by auto
  show ?thesis
  proof (cases "?e = 146096")
    case True
    have "y = 399"
    proof (rule ccontr)
      assume "y \<noteq> 399"
      then have y1: "0 \<le> y + 1" "y + 1 < 400" using assms by auto
      with ok assms \<open>y \<noteq> 399\<close> have "?e < year_start (y + 1)" by auto
      moreover have "year_start (y + 1) + year_len (y + 1) \<le> 146097" "365 \<le> year_len (y + 1)"
        using year_okI [OF y1] by (auto simp: year_ok_def year_len_def)
      ultimately show False using True by linarith
    qed
    moreover have "yoe_of 146096 = 399" by (simp add: yoe_of_def)
    ultimately show ?thesis using True by simp
  next
    case False
    with b have "?e \<le> 146095" by simp
    then have "era_num (year_start y) \<le> era_num ?e" "era_num ?e \<le> era_num (min (year_start y + year_len y - 1) 146095)"
      using assms by (intro era_num_mono; simp)+
    then have "y \<le> era_num ?e div 365" "era_num ?e div 365 \<le> y"
      using ok zdiv_mono1 [of _ _ 365] by (metis zero_less_numeral)+
    moreover have "?e div 146096 = 0" using b False by simp
    ultimately show ?thesis by (simp add: yoe_of_def era_num_def)
  qed
qed

text \<open>A date by era, year of the era and day of the year.\<close>

definition date_at :: "int \<Rightarrow> int \<Rightarrow> int \<Rightarrow> int \<times> int \<times> int" where
  "date_at era y d = (case month_day d of (m, k) \<Rightarrow> (y + era * 400 + (if m \<le> 2 then 1 else 0), m, k))"

definition civil_days :: "int \<Rightarrow> int \<times> int \<times> int" where
  "civil_days days = (case civil_from_unix_secs (days * 86400) of (y, m, d, _) \<Rightarrow> (y, m, d))"

lemma civil_days_at:
  assumes "0 \<le> era" "0 \<le> y" "y < 400" "0 \<le> d" "d < year_len y"
  shows "civil_days (era * 146097 + year_start y + d - 719468) = date_at era y d"
proof -
  let ?z = "era * 146097 + (year_start y + d)"
  note ok = year_okI [OF assms(2,3), unfolded year_ok_def]
  then have b: "0 \<le> year_start y + d" "year_start y + d < 146097" using assms by auto
  have z: "0 \<le> ?z" using b assms(1) by simp
  then have e: "?z sdiv 146097 = era"
    using b by (simp add: signed_divide_int_def sgn_if)
  show ?thesis
    using z e yoe_of_year [OF assms(2-5)]
    by (auto simp: civil_days_def civil_from_unix_secs_def date_at_def Let_def year_start_def algebra_simps
        split: prod.splits)
qed

lemma leap_era: "leap (y + era * 400) = leap y"
proof -
  have "(y + (era * 100) * 4) mod 4 = y mod 4" "(y + (era * 4) * 100) mod 100 = y mod 100" "(y + era * 400) mod 400 = y mod 400"
    by (simp_all only: mod_mult_self1)
  then show ?thesis by (simp add: leap_def mult.commute)
qed

lemma next_day_at:
  assumes "0 \<le> y" "y < 400" "0 \<le> d" "d < year_len y"
  shows "next_day (date_at era y d) =
     (if d + 1 < year_len y then date_at era y (d + 1) else if y < 399 then date_at era (y + 1) 0 else date_at (era + 1) 0 0)"
proof -
  have "d < 366" using assms(4) by (simp add: year_len_def split: if_splits)
  have last: "y = 399" if "\<not> y < 399" using assms(2) that by linarith
  from \<open>d < 366\<close> consider "d \<le> 363" | "d = 364" | "d = 365" by linarith
  then show ?thesis
  proof cases
    case 1
    then have "day_ok d" using days_checked(1) assms(3) by (simp add: list_all_iff)
    then show ?thesis using 1
      by (auto simp: day_ok_def date_at_def next_day_def month_len_def year_len_def split: prod.splits if_splits)
  next
    case 2
    then show ?thesis
      using leap_era [of "y + 1" era] last
      by (auto simp: date_at_def next_day_def month_len_def year_len_def days_checked algebra_simps)
  next
    case 3
    then show ?thesis
      using leap_era [of "y + 1" era] assms(4) last
      by (auto simp: date_at_def next_day_def month_len_def year_len_def days_checked algebra_simps split: if_splits)
  qed
qed

lemma civil_days_step: "civil_days (int n) = (next_day ^^ n) (1970, 1, 1) \<and>
   (\<exists>era y d. 0 \<le> era \<and> 0 \<le> y \<and> y < 400 \<and> 0 \<le> d \<and> d < year_len y \<and> int n = era * 146097 + year_start y + d - 719468)"
proof (induction n)
  case 0
  have "civil_days (4 * 146097 + year_start 369 + 306 - 719468) = date_at 4 369 306"
    by (rule civil_days_at) (simp_all add: year_len_def leap_def)
  then have "civil_days 0 = (1970, 1, 1)" by (simp add: year_start_def date_at_def month_day_def)
  moreover have "int 0 = 4 * 146097 + year_start 369 + 306 - 719468 \<and> 306 < year_len 369"
    by (simp add: year_start_def year_len_def leap_def)
  then have "\<exists>era y d. 0 \<le> era \<and> 0 \<le> y \<and> y < 400 \<and> 0 \<le> d \<and> d < year_len y \<and> int 0 = era * 146097 + year_start y + d - 719468"
    by (intro exI [of _ 4] exI [of _ 369] exI [of _ 306]) simp
  ultimately show ?case by simp
next
  case (Suc n)
  then obtain era y d where t: "0 \<le> era" "0 \<le> y" "y < 400" "0 \<le> d" "d < year_len y" and
    n: "int n = era * 146097 + year_start y + d - 719468" by auto
  let ?t = "if d + 1 < year_len y then (era, y, d + 1) else if y < 399 then (era, y + 1, 0) else (era + 1, 0, 0)"
  obtain era' y' d' where t': "?t = (era', y', d')" by (cases ?t) auto
  note ok = year_okI [OF t(2,3), unfolded year_ok_def]
  have r: "0 \<le> era'" "0 \<le> y'" "y' < 400" "0 \<le> d'" "d' < year_len y'"
    using t t' by (auto simp: year_len_def split: if_splits)
  have n': "int (Suc n) = era' * 146097 + year_start y' + d' - 719468"
  proof (cases "d + 1 < year_len y")
    case True
    with n t' show ?thesis by simp
  next
    case False
    then have e: "d + 1 = year_len y" using t(5) by simp
    show ?thesis
    proof (cases "y < 399")
      case True
      with ok e have "year_start y + d + 1 = year_start (y + 1)" by simp
      with n t' False True show ?thesis by auto
    next
      case y: False
      with t(3) ok e have "year_start y + d + 1 = 146097" by simp
      moreover have "year_start 0 = 0" by (simp add: year_start_def)
      ultimately show ?thesis using n t' False y by auto
    qed
  qed
  have "civil_days (int (Suc n)) = date_at era' y' d'" unfolding n' by (rule civil_days_at [OF r])
  moreover have "next_day (date_at era y d) = date_at era' y' d'"
    using next_day_at [OF t(2-5), of era] t' by (auto split: if_splits)
  moreover have "civil_days (int n) = date_at era y d" unfolding n by (rule civil_days_at [OF t])
  ultimately show ?case using Suc r n' by auto
qed

lemma div_below: "r < k * n \<Longrightarrow> 0 < n \<Longrightarrow> r div n < k" for r k n :: int
proof (rule ccontr)
  assume "r < k * n" "0 < n" "\<not> r div n < k"
  then have "k * n \<le> r div n * n" by (intro mult_right_mono) simp_all
  moreover have "r div n * n \<le> r" using div_mult_mod_eq [of r n] pos_mod_sign [OF \<open>0 < n\<close>, of r] by linarith
  ultimately show False using \<open>r < k * n\<close> by simp
qed

section \<open>Property\<close>

text \<open>
  C36: The date formulas are the calendar: for every number of seconds since the epoch the result is the date one
  reaches by walking day by day from 1 January 1970, leap years and centuries included, with the hour, minute
  and second of that day in their ranges.
\<close>

theorem civil_is_calendar:
  "\<exists>h mi s. civil_from_unix_secs (int secs) =
     (case (next_day ^^ (secs div 86400)) (1970, 1, 1) of (y, mo, d) \<Rightarrow> (y, mo, d, h, mi, s)) \<and>
     0 \<le> h \<and> h < 24 \<and> 0 \<le> mi \<and> mi < 60 \<and> 0 \<le> s \<and> s < 60 \<and>
     int secs mod 86400 = h * 3600 + mi * 60 + s"
proof -
  let ?r = "int secs mod 86400"
  let ?h = "?r div 3600" let ?mi = "(?r mod 3600) div 60" let ?s = "?r mod 60"
  have "civil_days (int (secs div 86400)) = (next_day ^^ (secs div 86400)) (1970, 1, 1)"
    using civil_days_step by blast
  moreover have "civil_from_unix_secs (int secs) =
      (case civil_days (int secs div 86400) of (y, mo, d) \<Rightarrow> (y, mo, d, ?h, ?mi, ?s))"
    by (simp add: civil_days_def civil_from_unix_secs_def Let_def split: prod.splits)
  moreover have "0 \<le> ?h \<and> ?h < 24 \<and> 0 \<le> ?mi \<and> ?mi < 60 \<and> 0 \<le> ?s \<and> ?s < 60 \<and> ?r = ?h * 3600 + ?mi * 60 + ?s"
  proof -
    have "?r mod 3600 mod 60 = ?s" by (rule mod_mod_cancel) simp
    then have "?r = ?h * 3600 + (?mi * 60 + ?s)" by (metis div_mult_mod_eq)
    moreover have "0 \<le> ?h" "?h < 24" by (simp, intro div_below) simp_all
    moreover have "0 \<le> ?mi" "?mi < 60" by (simp, intro div_below) simp_all
    ultimately show ?thesis by simp
  qed
  ultimately show ?thesis by (intro exI [of _ ?h] exI [of _ ?mi] exI [of _ ?s]) (simp add: zdiv_int)
qed

end
