(* ===== verification/VmBios.thy ===== *)
theory VmBios
  imports CpuFlow
begin

unbundle bit_operations_syntax

text \<open>
  The host's BIOS services (\<^verbatim>\<open>crates/vm/src/lib.rs\<close>, \<^verbatim>\<open>bios_hook\<close> and the handlers it calls): when the guest
  executes \<^verbatim>\<open>INT n\<close> the CPU offers the vector to this hook before it looks at the interrupt table.  The
  services work on the registers, on physical memory (the text screen and the BIOS data area), on linear
  memory (\<^verbatim>\<open>ES:BX\<close> and \<^verbatim>\<open>ES:DI\<close> buffers) and on the devices; they are actions of the same state monad
  as the instructions, so that the machine's step takes \<open>bios_hook\<close> as its handler.
\<close>

section \<open>Shorthands\<close>

definition VGA_TEXT_BASE :: u32 where "VGA_TEXT_BASE = 0xB8000"
definition VGA_TEXT_COLS :: nat where "VGA_TEXT_COLS = 80"
definition VGA_TEXT_ROWS :: nat where "VGA_TEXT_ROWS = 25"
definition BDA_CURSOR_COL :: u32 where "BDA_CURSOR_COL = 0x0450"
definition BDA_CURSOR_ROW :: u32 where "BDA_CURSOR_ROW = 0x0451"
definition BDA_TICK_LOW :: u32 where "BDA_TICK_LOW = 0x046C"
definition BDA_TICK_HIGH :: u32 where "BDA_TICK_HIGH = 0x046E"

lemmas vga_defs = VGA_TEXT_BASE_def VGA_TEXT_COLS_def VGA_TEXT_ROWS_def BDA_CURSOR_COL_def BDA_CURSOR_ROW_def

text \<open>Physical memory, past the CPU's translation.\<close>

definition phys_get :: "(memory \<Rightarrow> 'a) \<Rightarrow> 'a exec" where
  "phys_get f = State (\<lambda>s. (f (m_mem s), s))"

definition phys_put :: "(memory \<Rightarrow> memory) \<Rightarrow> unit exec" where
  "phys_put f = State (\<lambda>s. ((), s\<lparr>m_mem := f (m_mem s)\<rparr>))"

abbreviation pr8 :: "u32 \<Rightarrow> u8 exec" where "pr8 a \<equiv> phys_get (\<lambda>m. read_u8 m a)"
abbreviation pw8 :: "u32 \<Rightarrow> u8 \<Rightarrow> unit exec" where "pw8 a v \<equiv> phys_put (\<lambda>m. write_u8 m a v)"
abbreviation get8 :: "u8 \<Rightarrow> u8 exec" where "get8 i \<equiv> cpu_get (\<lambda>c. read_r8 c i)"
abbreviation put8 :: "u8 \<Rightarrow> u8 \<Rightarrow> unit exec" where "put8 i v \<equiv> cpu_upd (\<lambda>c. write_r8 c i v)"
abbreviation put_reg :: "nat \<Rightarrow> u16 \<Rightarrow> unit exec" where "put_reg i v \<equiv> cpu_upd (\<lambda>c. c\<lparr>regs := (regs c)[i := v]\<rparr>)"
abbreviation clear_flag :: "u16 \<Rightarrow> unit exec" where "clear_flag f \<equiv> cpu_upd (\<lambda>c. c\<lparr>flags := flags c AND NOT f\<rparr>)"
abbreviation raise_flag :: "u16 \<Rightarrow> unit exec" where "raise_flag f \<equiv> cpu_upd (\<lambda>c. c\<lparr>flags := flags c OR f\<rparr>)"

lemma run_phys [run_simps]:
  "run_state (phys_get f) s = (f (m_mem s), s)" "run_state (phys_put g) s = ((), s\<lparr>m_mem := g (m_mem s)\<rparr>)"
  by (simp_all add: phys_get_def phys_put_def)

text \<open>A \<^verbatim>\<open>for\<close> loop, and one that collects a value per turn.\<close>

fun each :: "'a list \<Rightarrow> ('a \<Rightarrow> unit exec) \<Rightarrow> unit exec" where
  "each [] f = ret ()"
| "each (x # xs) f = do { f x; each xs f }"

fun collect :: "'a list \<Rightarrow> ('a \<Rightarrow> 'b exec) \<Rightarrow> 'b list exec" where
  "collect [] f = ret []"
| "collect (x # xs) f = do { v \<leftarrow> f x; vs \<leftarrow> collect xs f; ret (v # vs) }"

section \<open>INT 10h: the text screen\<close>

definition vga_cell :: "nat \<Rightarrow> nat \<Rightarrow> u32" where
  "vga_cell row col = VGA_TEXT_BASE + of_nat ((row * VGA_TEXT_COLS + col) * 2)"

definition put_cell :: "nat \<Rightarrow> nat \<Rightarrow> u8 \<Rightarrow> u8 \<Rightarrow> unit exec" where
  "put_cell row col ch attr = do { pw8 (vga_cell row col) ch; pw8 (vga_cell row col + 1) attr }"

definition fill_rect :: "nat \<Rightarrow> nat \<Rightarrow> nat \<Rightarrow> nat \<Rightarrow> u8 \<Rightarrow> u8 \<Rightarrow> unit exec" where
  "fill_rect t l b r ch attr = each [t..<b + 1] (\<lambda>row. each [l..<r + 1] (\<lambda>col. put_cell row col ch attr))"

definition copy_row_range :: "nat \<Rightarrow> nat \<Rightarrow> nat \<Rightarrow> nat \<Rightarrow> unit exec" where
  "copy_row_range src_row dst_row l r = each [l..<r + 1] (\<lambda>c. do {
     ch \<leftarrow> pr8 (vga_cell src_row c);
     atr \<leftarrow> pr8 (vga_cell src_row c + 1);
     put_cell dst_row c ch atr
   })"

definition int10_set_mode :: "bool exec" where
  "int10_set_mode = do {
     each [0..<VGA_TEXT_ROWS * VGA_TEXT_COLS] (\<lambda>i. do {
       pw8 (VGA_TEXT_BASE + of_nat i * 2) 0x20;
       pw8 (VGA_TEXT_BASE + of_nat i * 2 + 1) 0x07
     });
     pw8 BDA_CURSOR_COL 0;
     pw8 BDA_CURSOR_ROW 0;
     ret True
   }"

definition int10_set_cursor :: "bool exec" where
  "int10_set_cursor = do {
     dh \<leftarrow> get8 6;
     dl \<leftarrow> get8 2;
     pw8 BDA_CURSOR_ROW (min dh (of_nat VGA_TEXT_ROWS - 1));
     pw8 BDA_CURSOR_COL (min dl (of_nat VGA_TEXT_COLS - 1));
     ret True
   }"

definition int10_read_cursor :: "bool exec" where
  "int10_read_cursor = do {
     row \<leftarrow> pr8 BDA_CURSOR_ROW;
     col \<leftarrow> pr8 BDA_CURSOR_COL;
     put8 6 row;
     put8 2 col;
     put8 5 0x0E;
     put8 1 0x0F;
     ret True
   }"

definition int10_scroll :: "u8 \<Rightarrow> bool exec" where
  "int10_scroll ah = do {
     al \<leftarrow> get8 0;
     attr \<leftarrow> get8 7;
     ch \<leftarrow> get8 5;
     cl \<leftarrow> get8 1;
     dh \<leftarrow> get8 6;
     dl \<leftarrow> get8 2;
     let k = unat al;
     let t = unat ch;
     let l = unat cl;
     let b = unat dh;
     let r = unat dl;
     (if t \<ge> VGA_TEXT_ROWS \<or> b \<ge> VGA_TEXT_ROWS \<or> l \<ge> VGA_TEXT_COLS \<or> r \<ge> VGA_TEXT_COLS \<or> t > b \<or> l > r then ret True
      else
        (let window_rows = b - t + 1 in
         if k = 0 \<or> k \<ge> window_rows then do { fill_rect t l b r 0x20 attr; ret True }
         else if ah = 0x06 then do {
           each [t..<b - k + 1] (\<lambda>row. copy_row_range (row + k) row l r);
           fill_rect (b + 1 - k) l b r 0x20 attr;
           ret True
         }
         else do {
           each (rev [t + k..<b + 1]) (\<lambda>row. copy_row_range (row - k) row l r);
           fill_rect t l (t + k - 1) r 0x20 attr;
           ret True
         }))
   }"

definition int10_read_char :: "bool exec" where
  "int10_read_char = do {
     col \<leftarrow> pr8 BDA_CURSOR_COL;
     row \<leftarrow> pr8 BDA_CURSOR_ROW;
     ch \<leftarrow> pr8 (vga_cell (unat row) (unat col));
     attr \<leftarrow> pr8 (vga_cell (unat row) (unat col) + 1);
     put8 0 ch;
     put8 4 attr;
     ret True
   }"

text \<open>The loop of AH=09h stops at the right edge of the screen.\<close>

definition int10_write_char :: "bool exec" where
  "int10_write_char = do {
     ch \<leftarrow> get8 0;
     attr \<leftarrow> get8 3;
     count \<leftarrow> cpu_get (\<lambda>c. read_r16 c 1);
     col \<leftarrow> pr8 BDA_CURSOR_COL;
     row \<leftarrow> pr8 BDA_CURSOR_ROW;
     each (takeWhile (\<lambda>i. unat col + i < VGA_TEXT_COLS) [0..<unat count]) (\<lambda>i. put_cell (unat row) (unat col + i) ch attr);
     ret True
   }"

text \<open>Where the teletype leaves the cursor.\<close>

definition tty_advance :: "u8 \<Rightarrow> nat \<Rightarrow> nat \<Rightarrow> nat \<times> nat" where
  "tty_advance al row col =
     (if al = 0x07 then (row, col)
      else if al = 0x08 then (row, col - 1)
      else if al = 0x0D then (row, 0)
      else if al = 0x0A then (if row + 1 < VGA_TEXT_ROWS then row + 1 else row, col)
      else if col + 1 \<ge> VGA_TEXT_COLS then (if row + 1 < VGA_TEXT_ROWS then row + 1 else row, 0)
      else (row, col + 1))"

definition int10_teletype :: "bool exec" where
  "int10_teletype = do {
     al \<leftarrow> get8 0;
     col \<leftarrow> pr8 BDA_CURSOR_COL;
     row \<leftarrow> pr8 BDA_CURSOR_ROW;
     (if al = 0x07 \<or> al = 0x08 \<or> al = 0x0D \<or> al = 0x0A then ret () else put_cell (unat row) (unat col) al 0x07);
     (let (row', col') = tty_advance al (unat row) (unat col) in do {
        pw8 BDA_CURSOR_COL (of_nat col');
        pw8 BDA_CURSOR_ROW (of_nat row')
      });
     ret True
   }"

definition int10_get_mode :: "bool exec" where
  "int10_get_mode = do { put8 0 3; put8 4 (of_nat VGA_TEXT_COLS); put8 7 0; ret True }"

text \<open>The loop of AH=13h: the remaining character indices, the current row and column.\<close>

fun write_string_loop :: "nat list \<Rightarrow> u32 \<Rightarrow> bool \<Rightarrow> u8 \<Rightarrow> nat \<Rightarrow> nat \<Rightarrow> (nat \<times> nat) exec" where
  "write_string_loop [] src has_attr dflt cur_row col = ret (cur_row, col)"
| "write_string_loop (i # is) src has_attr dflt cur_row col =
     (if cur_row \<ge> VGA_TEXT_ROWS then ret (cur_row, col)
      else do {
        let off_src = src + of_nat i * (if has_attr then 2 else 1);
        ch \<leftarrow> pr8 off_src;
        attr \<leftarrow> (if has_attr then pr8 (off_src + 1) else ret dflt);
        put_cell cur_row col ch attr;
        (if col + 1 \<ge> VGA_TEXT_COLS then write_string_loop is src has_attr dflt (cur_row + 1) 0
         else write_string_loop is src has_attr dflt cur_row (col + 1))
      })"

definition int10_write_string :: "bool exec" where
  "int10_write_string = do {
     mode \<leftarrow> get8 0;
     count \<leftarrow> cpu_get (\<lambda>c. read_r16 c 1);
     attr \<leftarrow> get8 3;
     row \<leftarrow> get8 6;
     col \<leftarrow> get8 2;
     src \<leftarrow> cpu_get (\<lambda>c. linear_seg c ES (ucast (read_r16 c 5)));
     rc \<leftarrow> write_string_loop [0..<unat count] src (mode AND 0x02 \<noteq> 0) attr (unat row) (unat col);
     (if mode AND 0x01 \<noteq> 0 then do {
        pw8 BDA_CURSOR_ROW (of_nat (min (fst rc) (VGA_TEXT_ROWS - 1)));
        pw8 BDA_CURSOR_COL (of_nat (min (snd rc) (VGA_TEXT_COLS - 1)))
      } else ret ());
     ret True
   }"

definition int10_ega_info :: "bool exec" where
  "int10_ega_info = do {
     bl \<leftarrow> get8 3;
     (if bl = 0x10 then do { put8 6 0; put8 3 3; put8 5 0; put8 1 0; clear_flag CF; ret True }
      else do { raise_flag CF; ret True })
   }"

definition bios_int10 :: "bool exec" where
  "bios_int10 = do {
     ah \<leftarrow> get8 4;
     (if ah = 0x00 then int10_set_mode
      else if ah = 0x01 then ret True
      else if ah = 0x02 then int10_set_cursor
      else if ah = 0x03 then int10_read_cursor
      else if ah = 0x06 \<or> ah = 0x07 then int10_scroll ah
      else if ah = 0x08 then int10_read_char
      else if ah = 0x09 then int10_write_char
      else if ah = 0x0E then int10_teletype
      else if ah = 0x0F then int10_get_mode
      else if ah = 0x13 then int10_write_string
      else if ah = 0x12 then int10_ega_info
      else ret False)
   }"

section \<open>INT 12h, 13h: memory size and disk\<close>

definition bios_int12 :: "bool exec" where
  "bios_int12 = do { put_reg AX 640; clear_flag CF; ret True }"

text \<open>The sector a CHS triple names, in the 1.44 MB floppy geometry.\<close>

definition chs_lba :: "cpu \<Rightarrow> u32" where
  "chs_lba c =
     (let ch = ucast (read_r8 c 5); cl = ucast (read_r8 c 1); dh = ucast (read_r8 c 6);
          cyl = push_bit 2 (cl AND 0xC0) OR ch;
          sector = (if cl AND 0x3F = 0 then 0 else (cl AND 0x3F) - 1)
      in (cyl * 2 + dh) * 18 + sector)"

definition int13_read :: "bool exec" where
  "int13_read = do {
     al \<leftarrow> get8 0;
     lba \<leftarrow> cpu_get chs_lba;
     dest \<leftarrow> cpu_get (\<lambda>c. linear_seg c ES (ucast (read_r16 c 3)));
     buf \<leftarrow> io_run (\<lambda>b. (fst (read_sectors (bus_disk b) lba al (replicate (unat al * SECTOR_SIZE) 0)), b));
     each (enumerate 0 buf) (\<lambda>ib. st8 (dest + of_nat (fst ib)) (snd ib));
     clear_flag CF;
     put8 4 0;
     ret True
   }"

definition int13_write :: "bool exec" where
  "int13_write = do {
     al \<leftarrow> get8 0;
     lba \<leftarrow> cpu_get chs_lba;
     src \<leftarrow> cpu_get (\<lambda>c. linear_seg c ES (ucast (read_r16 c 3)));
     buf \<leftarrow> collect [0..<unat al * SECTOR_SIZE] (\<lambda>i. ld8 (src + of_nat i));
     io_run (\<lambda>b. ((), b\<lparr>bus_ata := (bus_ata b)\<lparr>ata_disk := write_sectors (bus_disk b) lba buf\<rparr>\<rparr>));
     clear_flag CF;
     put8 4 0;
     ret True
   }"

definition int13_params :: "bool exec" where
  "int13_params = do {
     put8 4 0; put8 0 0; put8 3 0x04; put8 5 79; put8 1 18; put8 6 1; put8 2 1; clear_flag CF; ret True }"

definition bios_int13 :: "bool exec" where
  "bios_int13 = do {
     ah \<leftarrow> get8 4;
     (if ah = 0x00 then do { put8 4 0; clear_flag CF; ret True }
      else if ah = 0x01 then do { put8 4 0; put8 0 0; clear_flag CF; ret True }
      else if ah = 0x02 then int13_read
      else if ah = 0x03 then int13_write
      else if ah = 0x08 then int13_params
      else if ah = 0x41 then do { put8 4 0x01; raise_flag CF; ret True }
      else ret False)
   }"

section \<open>INT 15h: memory map and A20\<close>

definition extended_kb :: "nat \<Rightarrow> nat \<Rightarrow> nat" where
  "extended_kb ram cap = (if ram > 0x100000 then min ((ram - 0x100000) div 1024) cap else 0)"

definition high_blocks :: "nat \<Rightarrow> nat" where
  "high_blocks ram = (if ram > 0x1000000 then min ((ram - 0x1000000) div (64 * 1024)) 0xFFFF else 0)"

definition int15_a20 :: "bool exec" where
  "int15_a20 = do {
     al \<leftarrow> get8 0;
     (if al = 0x00 then do { cpu_upd (\<lambda>c. c\<lparr>a20 := False\<rparr>); clear_flag CF; put8 4 0 }
      else if al = 0x01 then do { cpu_upd (\<lambda>c. c\<lparr>a20 := True\<rparr>); clear_flag CF; put8 4 0 }
      else if al = 0x02 then do { cpu_upd (\<lambda>c. write_r8 c 0 (if a20 c then 1 else 0)); put8 4 0; clear_flag CF }
      else if al = 0x03 then do { put_reg BX 3; put8 4 0; clear_flag CF }
      else do { put8 4 0x86; raise_flag CF });
     ret True
   }"

definition e820_map :: "nat \<Rightarrow> (nat \<times> nat \<times> u32) list" where
  "e820_map ram = [(0, 0x9FC00, 1), (0x9FC00, 0x60400, 2), (0x100000, ram - 0x100000, 1)]"

definition e820_bytes :: "nat \<times> nat \<times> u32 \<Rightarrow> bytes" where
  "e820_bytes = (\<lambda>(base, len, kind). le64 (of_nat base) @ le64 (of_nat len) @ le32 kind)"

definition int15_e820 :: "bool exec" where
  "int15_e820 = do {
     ecx \<leftarrow> cpu_get (\<lambda>c. read_r32 c 1);
     (if ecx < 20 then do { raise_flag CF; ret True }
      else do {
        entries \<leftarrow> phys_get (\<lambda>m. e820_map (mem_size m));
        ebx \<leftarrow> cpu_get (\<lambda>c. read_r32 c 3);
        (let idx = unat ebx in
         if idx \<ge> length entries then do { raise_flag CF; cpu_upd (\<lambda>c. write_r32 c 3 0); ret True }
         else do {
           dest \<leftarrow> cpu_get (\<lambda>c. linear_seg c ES (ucast (regs c ! DI)));
           each (enumerate 0 (e820_bytes (entries ! idx))) (\<lambda>ib. st8 (dest + of_nat (fst ib)) (snd ib));
           cpu_upd (\<lambda>c. write_r32 c 0 0x534D4150);
           cpu_upd (\<lambda>c. write_r32 c 1 20);
           cpu_upd (\<lambda>c. write_r32 c 3 (if idx + 1 < length entries then of_nat (idx + 1) else 0));
           clear_flag CF;
           ret True
         })
      })
   }"

definition bios_int15 :: "bool exec" where
  "bios_int15 = do {
     ax \<leftarrow> cpu_get (\<lambda>c. regs c ! AX);
     ram \<leftarrow> phys_get mem_size;
     (if drop_bit 8 ax = 0x88 then do { put_reg AX (of_nat (extended_kb ram 0xFFFF)); clear_flag CF; ret True }
      else if drop_bit 8 ax = 0x86 then do { clear_flag CF; ret True }
      else if drop_bit 8 ax = 0xC0 then do { put8 4 0x86; raise_flag CF; ret True }
      else if drop_bit 8 ax = 0x24 then int15_a20
      else if ax = 0xE801 then do {
        put_reg AX (of_nat (extended_kb ram 0x3C00));
        put_reg CX (of_nat (extended_kb ram 0x3C00));
        put_reg BX (of_nat (high_blocks ram));
        put_reg DX (of_nat (high_blocks ram));
        clear_flag CF;
        ret True
      }
      else if ax = 0xE820 then int15_e820
      else ret False)
   }"

section \<open>INT 16h, 1Ah: keyboard and clock\<close>

definition bios_int16 :: "bool exec" where
  "bios_int16 = do {
     ah \<leftarrow> get8 4;
     (if ah = 0x00 then do {
        n \<leftarrow> io_run (\<lambda>b. (kbd_rx_pending (bus_kbd b), b));
        (if n = 0 then cpu_upd (\<lambda>c. c\<lparr>ip := ip c - 2\<rparr>)
         else do {
           k \<leftarrow> io_run (\<lambda>b. let (v, k) = pop_scancode (bus_kbd b) in (v, b\<lparr>bus_kbd := k\<rparr>));
           put8 0 (case k of Some v \<Rightarrow> v | None \<Rightarrow> 0);
           put8 4 (case k of Some v \<Rightarrow> v | None \<Rightarrow> 0)
         });
        ret True
      }
      else if ah = 0x01 then do {
        k \<leftarrow> io_run (\<lambda>b. (peek_scancode (bus_kbd b), b));
        (case k of Some v \<Rightarrow> do { clear_flag ZF; put8 0 v; put8 4 v } | None \<Rightarrow> raise_flag ZF);
        ret True
      }
      else if ah = 0x02 then do { put8 0 0; ret True }
      else ret False)
   }"

abbreviation rtc :: "nat \<Rightarrow> u8 exec" where "rtc r \<equiv> io_run (\<lambda>b. (storage_byte (bus_cmos b) (of_nat r), b))"

definition bios_int1a :: "bool exec" where
  "bios_int1a = do {
     ah \<leftarrow> get8 4;
     (if ah = 0x00 then do {
        lo \<leftarrow> phys_get (\<lambda>m. read_u16 m BDA_TICK_LOW);
        hi \<leftarrow> phys_get (\<lambda>m. read_u16 m BDA_TICK_HIGH);
        put_reg CX hi;
        put_reg DX lo;
        put8 0 0;
        ret True
      }
      else if ah = 0x01 then do {
        hi \<leftarrow> cpu_get (\<lambda>c. regs c ! CX);
        lo \<leftarrow> cpu_get (\<lambda>c. regs c ! DX);
        phys_put (\<lambda>m. write_u16 m BDA_TICK_LOW lo);
        phys_put (\<lambda>m. write_u16 m BDA_TICK_HIGH hi);
        clear_flag CF;
        ret True
      }
      else if ah = 0x02 then do {
        h \<leftarrow> rtc HOURS; mi \<leftarrow> rtc MINUTES; sc \<leftarrow> rtc SECONDS;
        put8 5 h; put8 1 mi; put8 6 sc; put8 2 0; clear_flag CF; ret True
      }
      else if ah = 0x04 then do {
        y \<leftarrow> rtc YEAR; mo \<leftarrow> rtc MONTH; d \<leftarrow> rtc DAY_OF_MONTH;
        put8 5 0x20; put8 1 y; put8 6 mo; put8 2 d; clear_flag CF; ret True
      }
      else ret False)
   }"

section \<open>The hook\<close>

definition bios_hook_fn :: "u8 \<Rightarrow> bool exec" where
  "bios_hook_fn vector = do {
     handled \<leftarrow>
       (if vector = 0x10 then bios_int10
        else if vector = 0x12 then bios_int12
        else if vector = 0x13 then bios_int13
        else if vector = 0x15 then bios_int15
        else if vector = 0x16 then bios_int16
        else if vector = 0x1A then bios_int1a
        else ret False);
     (if \<not> handled \<and> (vector = 0x10 \<or> vector = 0x13 \<or> vector = 0x15)
      then do { put8 4 0x86; raise_flag CF; ret True }
      else ret handled)
   }"

section \<open>What every service keeps\<close>

context exec_frame begin

lemma fr_phys: "frames R (phys_get f)" "(\<And>m. mem_frame m (g m)) \<Longrightarrow> frames R (phys_put g)"
  by (simp_all add: frames_def run_phys R_refl R_mem)

lemma fr_pw8: "frames R (pw8 a v)"
  by (rule fr_phys) simp

lemma fr_each: "(\<And>x. frames R (f x)) \<Longrightarrow> frames R (each xs f)"
  by (induction xs) (auto intro: frame_intro)

lemma fr_collect: "(\<And>x. frames R (f x)) \<Longrightarrow> frames R (collect xs f)"
  by (induction xs) (auto intro: frame_intro)

lemma fr_put8: "frames R (put8 i v)"
  by (rule fr_upd) (simp add: benignI frame_simps)

lemma fr_bios_cpu:
  "frames R (put_reg i w)" "frames R (clear_flag f)" "frames R (raise_flag f)" "frames R (cpu_upd (\<lambda>c. c\<lparr>a20 := b\<rparr>))"
  "frames R (cpu_upd (\<lambda>c. write_r32 c k v32))" "frames R (cpu_upd (\<lambda>c. write_r8 c k (if a20 c then 1 else 0)))"
  by (rule fr_upd; simp add: benignI frame_simps)+

lemma fr_io_get: "frames R (io_run (\<lambda>b. (f b, b)))"
  by (rule fr_io) (simp add: io_frame_def)

lemma fr_put_cell: "frames R (put_cell row col ch attr)"
  unfolding put_cell_def by (intro fr_pw8 frame_intro)

lemma fr_write_string_loop: "frames R (write_string_loop is src ha d row col)"
  by (induction "is" src ha d row col rule: write_string_loop.induct)
    (auto intro!: frame_intro fr_phys(1) fr_put_cell)

lemma fr_pop_scancode: "frames R (io_run (\<lambda>b. let (v, k) = pop_scancode (bus_kbd b) in (v, b\<lparr>bus_kbd := k\<rparr>)))"
  by (rule fr_io) (auto simp: io_frame_def case_prod_beta pop_scancode_def bus_wf_def kbd_ok_def kbd_wf_def split: list.splits)

lemma fr_disk_write: "frames R (io_run (\<lambda>b. ((), b\<lparr>bus_ata := (bus_ata b)\<lparr>ata_disk := d b\<rparr>\<rparr>)))"
  by (rule fr_io) (auto simp: io_frame_def bus_wf_def ata_ok_def)

lemmas bios_frames = fr_phys(1) fr_pw8 fr_each fr_collect fr_put8 fr_bios_cpu fr_io_get fr_put_cell fr_write_string_loop
  fr_pop_scancode fr_disk_write

lemma fr_bios_int10: "frames R bios_int10"
  unfolding bios_int10_def int10_set_mode_def int10_set_cursor_def int10_read_cursor_def int10_scroll_def int10_read_char_def
    int10_write_char_def int10_teletype_def int10_get_mode_def int10_write_string_def int10_ega_info_def fill_rect_def
    copy_row_range_def Let_def
  by (intro bios_frames frame_intro)

lemma fr_bios_int13: "frames R bios_int13"
  unfolding bios_int13_def int13_read_def int13_write_def int13_params_def
  by (intro bios_frames frame_intro)

lemma fr_bios_int15: "frames R bios_int15"
  unfolding bios_int15_def int15_a20_def int15_e820_def Let_def
  by (intro bios_frames frame_intro)

lemma fr_bios_rest: "frames R bios_int12" "frames R bios_int16" "frames R bios_int1a"
  unfolding bios_int12_def bios_int16_def bios_int1a_def
  by (intro bios_frames frame_intro fr_phys(2); simp add: mem_frame_def mem_size_def)+

lemma fr_bios_hook: "frames R (bios_hook_fn n)"
  unfolding bios_hook_fn_def
  by (intro bios_frames frame_intro fr_bios_int10 fr_bios_int13 fr_bios_int15 fr_bios_rest)

end

section \<open>Buffers in unpaged memory\<close>

lemma flat_mem: "flat s \<Longrightarrow> mem_size m = mem_size (m_mem s) \<Longrightarrow> flat (s\<lparr>m_mem := m\<rparr>)"
  by (simp add: flat_def)

lemma mem_size_seq [simp]: "mem_size (write_u8_seq m a bs) = mem_size m" "mem_size (write_u8 m a v) = mem_size m"
  using write_seq_frame by (simp_all add: mem_frame_def)

lemma flat_fetch:
  "flat s \<Longrightarrow> run_state fetch_u8 s =
     (read_code_u8 (m_mem s) (linear_seg (m_cpu s) CS (ip (m_cpu s))), s\<lparr>m_cpu := (m_cpu s)\<lparr>ip := ip (m_cpu s) + 1\<rparr>\<rparr>)"
  by (simp add: flat_def fetch_u8_def run_bind run_basic run_memory mem_fetch_u8_def flat_translate paging_on_def)

lemma flat_collect:
  assumes "flat s"
  shows "run_state (collect xs (\<lambda>i. ld8 (g i))) s = (map (\<lambda>i. read_u8 (m_mem s) (g i)) xs, s)"
  by (induction xs) (simp_all add: run_bind run_basic flat_loads assms)

lemma flat_store_buffer:
  assumes "flat s"
  shows "run_state (each (enumerate k bs) (\<lambda>ib. st8 (d + of_nat (fst ib)) (snd ib))) s =
     ((), s\<lparr>m_mem := write_u8_seq (m_mem s) (d + of_nat k) bs\<rparr>)"
  using assms
proof (induction bs arbitrary: s k)
  case Nil
  then show ?case by (simp add: run_basic)
next
  case (Cons b bs)
  have f: "flat (s\<lparr>m_mem := write_u8 (m_mem s) (d + of_nat k) b\<rparr>)" using Cons.prems by (intro flat_mem) simp_all
  from Cons.IH [OF f, of "Suc k"] show ?case
    by (simp add: run_bind flat_stores Cons.prems add.commute add.left_commute)
qed

lemma write_u8_seq_reads:
  assumes "unat a + length bs \<le> mem_size m" "mem_size m \<le> 2 ^ 32" "i < length bs"
  shows "read_u8 (write_u8_seq m a bs) (a + of_nat i) = bs ! i"
proof -
  have u: "unat (a + of_nat i) = unat a + i" using assms by (intro unat_offset) simp
  show ?thesis
    using assms write_u8_seq_put [of a bs m] by (simp add: read_u8_ram u put_nth mem_size_def)
qed

section \<open>Properties\<close>

text \<open>
  C23: No BIOS service can break the machine.  Whatever vector and registers the guest passes, the hook keeps the
  machine well formed (register files, caches, RAM size, device invariants) and leaves every system register
  alone; the vectors a real BIOS always serves (10h, 12h, 13h, 15h) are always claimed, vectors outside the
  served ones never, and then nothing changes.
\<close>

theorem bios_keeps_machine:
  "(machine_wf s \<longrightarrow> machine_wf (snd (run_state (bios_hook_fn n) s))) \<and>
   sys_regs (m_cpu (snd (run_state (bios_hook_fn n) s))) = sys_regs (m_cpu s) \<and>
   (n \<in> {0x10, 0x12, 0x13, 0x15} \<longrightarrow> fst (run_state (bios_hook_fn n) s)) \<and>
   (n \<notin> {0x10, 0x12, 0x13, 0x15, 0x16, 0x1A} \<longrightarrow> run_state (bios_hook_fn n) s = (False, s))"
proof (intro conjI impI)
  show "machine_wf (snd (run_state (bios_hook_fn n) s))" if "machine_wf s"
    using wf_kept.fr_bios_hook [of n] that by (simp add: frames_def)
  show "sys_regs (m_cpu (snd (run_state (bios_hook_fn n) s))) = sys_regs (m_cpu s)"
    using sys_kept.fr_bios_hook [of n] by (simp add: frames_def)
  show "fst (run_state (bios_hook_fn n) s)" if "n \<in> {0x10, 0x12, 0x13, 0x15}"
  proof (cases "n = 0x12")
    case True
    then show ?thesis by (simp add: bios_hook_fn_def run_bind run_basic bios_int12_def)
  next
    case False
    with that have "n = 0x10 \<or> n = 0x13 \<or> n = 0x15" by simp
    then show ?thesis by (auto simp: bios_hook_fn_def run_bind run_basic case_prod_beta)
  qed
  show "run_state (bios_hook_fn n) s = (False, s)" if "n \<notin> {0x10, 0x12, 0x13, 0x15, 0x16, 0x1A}"
    using that by (simp add: bios_hook_fn_def run_bind run_basic)
qed

theorem bios_keeps_machine_witness:
  "machine_wf (snd (run_state (bios_hook_fn 0x10) boot_machine)) \<and> fst (run_state (bios_hook_fn 0x10) boot_machine) \<and>
   run_state (bios_hook_fn 0x21) boot_machine = (False, boot_machine)"
  using bios_keeps_machine [of boot_machine "0x10"] bios_keeps_machine [of boot_machine "0x21"] boot_facts(1) by simp

text \<open>
  The BIOS hook answers before the privilege check.  With the hook installed, \<^verbatim>\<open>INT 15h\<close> with AX=2400h turns the
  A20 gate off and ends the instruction, at any privilege level and in any mode, whatever the gate of the
  interrupt table says; user code of a protected-mode guest reaches the BIOS disk and memory services the same way.
\<close>

theorem bios_bypasses_gates:
  assumes "run_state fetch_u8 s = (0x15, s1)" "regs (m_cpu s1) ! AX = 0x2400"
  shows "\<exists>t. run_state (op_int (Some bios_hook_fn) op_ip) s = (Return, t) \<and> \<not> a20 (m_cpu t) \<and>
     cpl (m_cpu t) = cpl (m_cpu s1) \<and> m_mem t = m_mem s1"
proof -
  have al: "read_r8 (m_cpu s1) 0 = 0" using assms(2) by (simp add: read_r8_def AX_def)
  have "\<exists>t. run_state (bios_hook_fn 0x15) s1 = (True, t) \<and> \<not> a20 (m_cpu t) \<and> cpl (m_cpu t) = cpl (m_cpu s1) \<and> m_mem t = m_mem s1"
    using assms(2)
    by (simp add: bios_hook_fn_def bios_int15_def int15_a20_def run_bind run_basic run_phys al drop_bit_eq_div cpl_def write_r8_def Let_def)
  then show ?thesis using assms(1) by (auto simp: op_int_def run_bind run_basic)
qed

definition user_machine :: machine where
  "user_machine = boot_machine\<lparr>m_cpu := (m_cpu boot_machine)\<lparr>cr0 := 1, sregs := replicate 6 0x1B, ip := 0x7C01,
     regs := (replicate 8 0)[0 := 0x2400]\<rparr>, m_mem := write_u8 (m_mem boot_machine) 0x7C01 0x15\<rparr>"

theorem bios_bypasses_gates_witness:
  "cpl (m_cpu user_machine) = 3 \<and> a20 (m_cpu user_machine) \<and>
   (\<exists>t. run_state (op_int (Some bios_hook_fn) 0x7C00) user_machine = (Return, t) \<and> \<not> a20 (m_cpu t))"
proof -
  have b: "length (mem_bytes (m_mem user_machine)) = 65536" by (simp add: user_machine_def boot_machine_def mem_new_def)
  then have "mem_bytes (m_mem user_machine) ! 0x7C01 = 0x15"
    by (simp add: user_machine_def boot_machine_def mem_new_def write_u8_def)
  moreover have c: "flat user_machine" "linear_seg (m_cpu user_machine) CS (ip (m_cpu user_machine)) = 0x7C01"
      "ip (m_cpu user_machine) = 0x7C01"
    by (simp_all add: flat_def paging_on_def linear_seg_def user_machine_def boot_machine_def reset_to_boot_def CS_def mem_size_def mem_new_def)
  ultimately have "run_state fetch_u8 user_machine = (0x15, user_machine\<lparr>m_cpu := (m_cpu user_machine)\<lparr>ip := 0x7C02\<rparr>\<rparr>)"
    using b by (simp add: flat_fetch read_code_u8_def)
  then have "\<exists>t. run_state (op_int (Some bios_hook_fn) 0x7C00) user_machine = (Return, t) \<and> \<not> a20 (m_cpu t)"
    using bios_bypasses_gates [of user_machine "user_machine\<lparr>m_cpu := (m_cpu user_machine)\<lparr>ip := 0x7C02\<rparr>\<rparr>" "0x7C00"]
    by (auto simp: user_machine_def AX_def)
  then show ?thesis by (simp add: user_machine_def boot_machine_def reset_to_boot_def cpl_def CS_def)
qed

text \<open>
  C26: What the guest writes with INT 13h AH=03h it reads back with AH=02h.  In unpaged memory, a write of \<open>k\<close> sectors
  from ES:BX succeeds, and a later read of the same cylinder, head and sector, from any machine whose disk is
  the one the write left, succeeds and leaves exactly the bytes of the write buffer at ES:BX.
\<close>

theorem bios_disk_roundtrip:
  assumes "flat s" "flat u"
      and "read_r8 (m_cpu s) 4 = 0x03" "read_r8 (m_cpu u) 4 = 0x02" "read_r8 (m_cpu u) 0 = read_r8 (m_cpu s) 0"
      and "chs_lba (m_cpu u) = chs_lba (m_cpu s)"
  defines "src \<equiv> linear_seg (m_cpu s) ES (ucast (read_r16 (m_cpu s) 3))"
      and "dst \<equiv> linear_seg (m_cpu u) ES (ucast (read_r16 (m_cpu u) 3))"
      and "n \<equiv> unat (read_r8 (m_cpu s) 0) * SECTOR_SIZE"
  assumes "bus_disk (m_io u) = bus_disk (m_io (snd (run_state bios_int13 s)))" "unat dst + n \<le> mem_size (m_mem u)"
  shows "fst (run_state bios_int13 s) \<and> m_mem (snd (run_state bios_int13 s)) = m_mem s \<and>
     (\<exists>t. run_state bios_int13 u = (True, t) \<and> \<not> has (m_cpu t) CF \<and>
        (\<forall>i < n. read_u8 (m_mem t) (dst + of_nat i) = read_u8 (m_mem s) (src + of_nat i)))"
proof -
  let ?bs = "map (\<lambda>i. read_u8 (m_mem s) (src + of_nat i)) [0..<n]"
  have w: "run_state bios_int13 s = (True, s\<lparr>m_cpu := write_r8 ((m_cpu s)\<lparr>flags := flags (m_cpu s) AND NOT CF\<rparr>) 4 0,
      m_io := (m_io s)\<lparr>bus_ata := (bus_ata (m_io s))\<lparr>ata_disk := write_sectors (bus_disk (m_io s)) (chs_lba (m_cpu s)) ?bs\<rparr>\<rparr>\<rparr>)"
    using assms(3) by (simp add: bios_int13_def int13_write_def run_bind run_basic run_memory flat_collect assms(1) src_def n_def)
  then have d: "bus_disk (m_io u) = write_sectors (bus_disk (m_io s)) (chs_lba (m_cpu s)) ?bs"
    using assms(10) by (simp add: bus_disk_def)
  have r: "fst (read_sectors (bus_disk (m_io u)) (chs_lba (m_cpu s)) (read_r8 (m_cpu s) 0) (replicate n 0)) = ?bs"
    unfolding d by (rule nth_equalityI) (simp_all add: length_read_sectors read_sectors_def write_sectors_def Let_def n_def [symmetric] put_nth)
  have t: "run_state bios_int13 u = (True, u\<lparr>m_cpu := write_r8 ((m_cpu u)\<lparr>flags := flags (m_cpu u) AND NOT CF\<rparr>) 4 0,
      m_mem := write_u8_seq (m_mem u) dst ?bs\<rparr>)"
    using assms(4) flat_store_buffer [OF assms(2), of 0 ?bs dst]
    by (simp add: bios_int13_def int13_read_def run_bind run_basic run_memory assms(5,6) r [unfolded n_def] n_def dst_def)
  moreover have "\<not> has (write_r8 ((m_cpu u)\<lparr>flags := flags (m_cpu u) AND NOT CF\<rparr>) 4 0) CF"
    by (simp add: has_def write_r8_def Let_def CF_def and.assoc)
  moreover have "read_u8 (write_u8_seq (m_mem u) dst ?bs) (dst + of_nat i) = read_u8 (m_mem s) (src + of_nat i)" if "i < n" for i
    using write_u8_seq_reads [of dst ?bs "m_mem u" i] assms(2,11) that by (simp add: flat_def)
  ultimately show ?thesis using w by simp
qed

definition disk_machine :: "u8 \<Rightarrow> u16 \<Rightarrow> iobus \<Rightarrow> machine" where
  "disk_machine ah bx b = boot_machine\<lparr>m_cpu := (m_cpu boot_machine)\<lparr>regs := (replicate 8 0)[0 := of_le16 1 ah, 1 := 2, 3 := bx]\<rparr>,
     m_mem := write_u8 (m_mem boot_machine) 0x1005 0x42, m_io := b\<rparr>"

theorem bios_disk_roundtrip_witness:
  "\<exists>t. run_state bios_int13 (disk_machine 2 0x2000 (m_io (snd (run_state bios_int13 (disk_machine 3 0x1000 bus_new))))) = (True, t) \<and>
     read_u8 (m_mem t) 0x2005 = 0x42"
proof -
  let ?s = "disk_machine 3 0x1000 bus_new" let ?u = "disk_machine 2 0x2000 (m_io (snd (run_state bios_int13 ?s)))"
  have f: "flat (disk_machine ah bx b)" for ah bx b
    by (simp add: disk_machine_def flat_def paging_on_def boot_machine_def reset_to_boot_def mem_size_def mem_new_def)
  have r: "read_r8 (m_cpu (disk_machine ah bx b)) 4 = ah" "read_r8 (m_cpu (disk_machine ah bx b)) 0 = 1"
    "chs_lba (m_cpu (disk_machine ah bx b)) = 1" "linear_seg (m_cpu (disk_machine ah bx b)) ES (ucast (read_r16 (m_cpu (disk_machine ah bx b)) 3)) = ucast bx" for ah bx b
    by (simp_all add: disk_machine_def read_r8_def read_r16_def chs_lba_def linear_seg_def ES_def boot_machine_def reset_to_boot_def of_le16_bytes Let_def word_le_nat_alt)
  have m: "mem_size (m_mem ?u) = 65536" "read_u8 (m_mem ?s) 0x1005 = 0x42"
    by (simp_all add: disk_machine_def boot_machine_def mem_size_def mem_new_def write_u8_def read_u8_def Let_def)
  have io: "m_io (disk_machine ah bx b) = b" for ah bx b by (simp add: disk_machine_def)
  from bios_disk_roundtrip [of ?s ?u, OF f f, unfolded r m io] obtain t where
    t: "run_state bios_int13 ?u = (True, t)" "\<forall>i < 512. read_u8 (m_mem t) (0x2000 + of_nat i) = read_u8 (m_mem ?s) (0x1000 + of_nat i)"
    by (auto simp: SECTOR_SIZE_def)
  from spec [OF t(2), of 5] m(2) t(1) show ?thesis by auto
qed

text \<open>
  How a guest walks the memory map: it asks with EAX=E820h, keeps the 20 bytes at ES:DI, and goes on with the
  continuation in EBX until it is zero.
\<close>

definition e820_buffer :: "cpu \<Rightarrow> u32" where
  "e820_buffer c = linear_seg c ES (ucast (regs c ! DI))"

fun e820_walk :: "nat \<Rightarrow> machine \<Rightarrow> bytes list" where
  "e820_walk 0 s = []"
| "e820_walk (Suc n) s =
     (let t = snd (run_state (bios_hook_fn 0x15) (s\<lparr>m_cpu := write_r32 (m_cpu s) 0 0xE820\<rparr>));
          entry = map (\<lambda>i. read_u8 (m_mem t) (e820_buffer (m_cpu t) + of_nat i)) [0..<20]
      in if read_r32 (m_cpu t) 3 = 0 then [entry] else entry # e820_walk n t)"

text \<open>The entries follow each other without gap or overlap; where they end.\<close>

fun covers :: "nat \<Rightarrow> (nat \<times> nat \<times> u32) list \<Rightarrow> nat option" where
  "covers a [] = Some a"
| "covers a ((base, len, kind) # es) = (if base = a then covers (base + len) es else None)"

lemma length_e820_bytes [simp]: "length (e820_bytes e) = 20"
  by (simp add: e820_bytes_def case_prod_beta)

definition e820_ready :: "machine \<Rightarrow> bool" where
  "e820_ready s \<longleftrightarrow> flat s \<and> cpu_wf (m_cpu s) \<and> 20 \<le> read_r32 (m_cpu s) 1 \<and>
     unat (e820_buffer (m_cpu s)) + 20 \<le> mem_size (m_mem s)"

lemma write_r32_keeps:
  "seg_cache (write_r32 c i v) = seg_cache c" "cr0 (write_r32 c i v) = cr0 c" "a20 (write_r32 c i v) = a20 c"
  "pending_fault (write_r32 c i v) = pending_fault c"
  by (simp_all add: write_r32_def Let_def)

lemma read_write_r32:
  "cpu_wf c \<Longrightarrow> i < 8 \<Longrightarrow> j < 8 \<Longrightarrow> read_r32 (write_r32 c i v) j = (if j = i then v else read_r32 c j)"
  using register_aliasing by blast

lemma read_r32_flags [simp]: "read_r32 (c\<lparr>flags := f\<rparr>) i = read_r32 c i"
  by (simp add: read_r32_def)

lemma e820_call:
  assumes "e820_ready s" "unat (read_r32 (m_cpu s) 3) = k" "k < 3"
  defines "s1 \<equiv> s\<lparr>m_cpu := write_r32 (m_cpu s) 0 0xE820\<rparr>"
  defines "t \<equiv> snd (run_state (bios_hook_fn 0x15) s1)"
  shows "m_mem t = write_u8_seq (m_mem s) (e820_buffer (m_cpu s)) (e820_bytes (e820_map (mem_size (m_mem s)) ! k))"
    "e820_ready t" "e820_buffer (m_cpu t) = e820_buffer (m_cpu s)" "mem_size (m_mem t) = mem_size (m_mem s)"
    "read_r32 (m_cpu t) 3 = (if k < 2 then of_nat (k + 1) else 0)"
proof -
  let ?c = "m_cpu s" let ?c1 = "write_r32 ?c 0 0xE820" let ?m = "m_mem s" let ?d = "e820_buffer ?c"
  let ?e = "e820_bytes (e820_map (mem_size ?m) ! k)" let ?n = "if k < 2 then of_nat (k + 1) else 0 :: u32"
  let ?c2 = "write_r32 (write_r32 (write_r32 ?c1 0 0x534D4150) 1 20) 3 ?n"
  have wf: "cpu_wf ?c" "flat s" and ecx: "20 \<le> read_r32 ?c 1" and room: "unat ?d + 20 \<le> mem_size ?m"
    using assms(1) by (auto simp: e820_ready_def)
  have len: "length (regs ?c) = 8" using wf(1) by (simp add: cpu_wf_def)
  have ax: "regs ?c1 ! AX = 0xE820" "regs ?c1 ! DI = regs ?c ! DI" "regs ?c2 ! DI = regs ?c ! DI"
    using len by (simp_all add: write_r32_def AX_def DI_def)
  have flat1: "flat s1" using wf(2) by (simp add: s1_def flat_def paging_on_def write_r32_keeps)
  have r1: "read_r32 ?c1 1 = read_r32 ?c 1" "read_r32 ?c1 3 = read_r32 ?c 3" using wf(1) by (simp_all add: read_write_r32)
  have dst: "linear_seg ?c1 ES (ucast (regs ?c1 ! DI)) = ?d" by (simp add: e820_buffer_def linear_seg_def write_r32_keeps ax(2))
  have e3: "length (e820_map (mem_size ?m)) = 3" by (simp add: e820_map_def)
  have "run_state int15_e820 s1 = (True, s1\<lparr>m_cpu := ?c2\<lparr>flags := flags ?c2 AND NOT CF\<rparr>, m_mem := write_u8_seq ?m ?d ?e\<rparr>)"
    using ecx assms(2,3) flat_store_buffer [OF flat1, of 0 ?e ?d]
    by (simp add: int15_e820_def run_bind run_basic run_phys s1_def r1 dst e3 Let_def not_less not_le word_less_nat_alt [of _ 20] word_le_nat_alt)
  then have t: "t = s1\<lparr>m_cpu := ?c2\<lparr>flags := flags ?c2 AND NOT CF\<rparr>, m_mem := write_u8_seq ?m ?d ?e\<rparr>"
    unfolding t_def by (simp add: bios_hook_fn_def bios_int15_def run_bind run_basic run_phys s1_def ax drop_bit_eq_div)
  show mt: "m_mem t = write_u8_seq ?m ?d ?e" by (simp add: t)
  show bt: "e820_buffer (m_cpu t) = ?d" by (simp add: t e820_buffer_def linear_seg_def write_r32_keeps ax)
  show "mem_size (m_mem t) = mem_size ?m" by (simp add: mt)
  show "read_r32 (m_cpu t) 3 = ?n" using wf(1) by (simp add: t read_write_r32 frame_simps)
  have "read_r32 (m_cpu t) 1 = 20" using wf(1) by (simp add: t read_write_r32 frame_simps)
  then show "e820_ready t"
    using wf room bt mt by (simp add: e820_ready_def flat_def paging_on_def t s1_def write_r32_keeps frame_simps)
qed

lemma e820_step:
  assumes "e820_ready s" "unat (read_r32 (m_cpu s) 3) = k" "k < 3"
  shows "\<exists>t. e820_walk (Suc n) s = (if k < 2 then e820_bytes (e820_map (mem_size (m_mem s)) ! k) # e820_walk n t
            else [e820_bytes (e820_map (mem_size (m_mem s)) ! k)]) \<and>
     e820_ready t \<and> mem_size (m_mem t) = mem_size (m_mem s) \<and> (k < 2 \<longrightarrow> unat (read_r32 (m_cpu t) 3) = Suc k)"
proof -
  let ?t = "snd (run_state (bios_hook_fn 0x15) (s\<lparr>m_cpu := write_r32 (m_cpu s) 0 0xE820\<rparr>))"
  let ?e = "e820_bytes (e820_map (mem_size (m_mem s)) ! k)"
  note c = e820_call [OF assms]
  have room: "unat (e820_buffer (m_cpu s)) + length ?e \<le> mem_size (m_mem s)" "mem_size (m_mem s) \<le> 2 ^ 32"
    using assms(1) by (simp_all add: e820_ready_def flat_def)
  have "map (\<lambda>i. read_u8 (m_mem ?t) (e820_buffer (m_cpu ?t) + of_nat i)) [0..<20] = ?e"
    by (rule nth_equalityI) (simp_all add: c(1,3) write_u8_seq_reads [OF room])
  moreover have "read_r32 (m_cpu ?t) 3 = 0 \<longleftrightarrow> \<not> k < 2" "k < 2 \<longrightarrow> unat (read_r32 (m_cpu ?t) 3) = Suc k"
    using assms(3) c(5) unat_of_nat_u32 [of "Suc k"] by (auto simp: word_unat_eq_iff)
  ultimately show ?thesis using c(2,4) by (intro exI [of _ ?t]) (simp add: Let_def)
qed

text \<open>
  C27: The INT 15h memory map.  A guest that starts with EBX=0 and follows the continuation gets the three
  entries of the map in order, byte for byte in its buffer, and the walk ends after the third; the entries
  cover the guest's address space from 0 to the end of RAM without gap or overlap.
\<close>

theorem e820_walk_complete:
  assumes "e820_ready s" "read_r32 (m_cpu s) 3 = 0" "0x100000 \<le> mem_size (m_mem s)"
  shows "e820_walk (3 + n) s = map e820_bytes (e820_map (mem_size (m_mem s))) \<and>
     covers 0 (e820_map (mem_size (m_mem s))) = Some (mem_size (m_mem s))"
proof
  obtain t where t: "e820_walk (Suc (Suc (Suc n))) s = e820_bytes (e820_map (mem_size (m_mem s)) ! 0) # e820_walk (Suc (Suc n)) t"
      "e820_ready t" "mem_size (m_mem t) = mem_size (m_mem s)" "unat (read_r32 (m_cpu t) 3) = 1"
    using e820_step [OF assms(1), of 0 "Suc (Suc n)"] assms(2) by auto
  obtain u where u: "e820_walk (Suc (Suc n)) t = e820_bytes (e820_map (mem_size (m_mem s)) ! 1) # e820_walk (Suc n) u"
      "e820_ready u" "mem_size (m_mem u) = mem_size (m_mem s)" "unat (read_r32 (m_cpu u) 3) = 2"
    using e820_step [OF t(2,4), of "Suc n"] t(3) by auto
  have "e820_walk (Suc n) u = [e820_bytes (e820_map (mem_size (m_mem s)) ! 2)]"
    using e820_step [OF u(2,4), of n] u(3) by auto
  with t(1) u(1) have "e820_walk (Suc (Suc (Suc n))) s = map e820_bytes (e820_map (mem_size (m_mem s)))"
    by (simp add: e820_map_def del: e820_walk.simps)
  moreover have "3 + n = Suc (Suc (Suc n))" by simp
  ultimately show "e820_walk (3 + n) s = map e820_bytes (e820_map (mem_size (m_mem s)))" by metis
  show "covers 0 (e820_map (mem_size (m_mem s))) = Some (mem_size (m_mem s))"
    using assms(3) by (simp add: e820_map_def)
qed

definition e820_machine :: machine where
  "e820_machine = boot_machine\<lparr>m_cpu := write_r32 (write_r32 (m_cpu boot_machine) 1 20) 7 0x2000, m_mem := mem_new None 0x200000\<rparr>"

theorem e820_walk_complete_witness:
  "e820_walk 3 e820_machine = map e820_bytes [(0, 0x9FC00, 1), (0x9FC00, 0x60400, 2), (0x100000, 0x100000, 1)]"
proof -
  have "cpu_wf (m_cpu boot_machine)" using boot_facts(1) by (simp add: machine_wf_def)
  moreover have "flat e820_machine" "mem_size (m_mem e820_machine) = 0x200000"
    using boot_facts(2) by (simp_all add: e820_machine_def flat_def paging_on_def write_r32_keeps mem_size_def mem_new_def)
  moreover have "e820_buffer (m_cpu e820_machine) = 0x2000"
    by (simp add: e820_machine_def e820_buffer_def linear_seg_def write_r32_def boot_machine_def reset_to_boot_def DI_def ES_def)
  ultimately have "e820_ready e820_machine"
    by (simp add: e820_ready_def) (simp add: e820_machine_def read_write_r32 frame_simps)
  moreover have "read_r32 (m_cpu e820_machine) 3 = 0"
    by (simp add: e820_machine_def read_r32_def write_r32_def boot_machine_def reset_to_boot_def Let_def SP_def)
  ultimately show ?thesis
    using e820_walk_complete [of e820_machine 0] \<open>mem_size (m_mem e820_machine) = 0x200000\<close> by (simp add: e820_map_def)
qed

end
