(* ===== verification/VmScreen.thy ===== *)
theory VmScreen
  imports VmBios
begin

unbundle bit_operations_syntax

text \<open>
  The text screen as the guest and the host see it (\<^verbatim>\<open>crates/vm/src/lib.rs\<close>): what the INT 10h services may
  write, and that what the guest prints through them is what the host's \<^verbatim>\<open>vga_text_snapshot\<close> shows.
\<close>

section \<open>The host's view\<close>

definition shown :: "u8 \<Rightarrow> u8" where
  "shown ch = (if 0x20 \<le> ch \<and> ch < 0x7F then ch else 0x20)"

definition vga_text_snapshot :: "memory \<Rightarrow> bytes" where
  "vga_text_snapshot m =
     concat (map (\<lambda>row. map (\<lambda>col. shown (read_u8 m (vga_cell row col))) [0..<VGA_TEXT_COLS] @ [0x0A]) [0..<VGA_TEXT_ROWS])"

section \<open>What INT 10h writes\<close>

definition cursor_ok :: "memory \<Rightarrow> bool" where
  "cursor_ok m \<longleftrightarrow> read_u8 m BDA_CURSOR_COL < 80 \<and> read_u8 m BDA_CURSOR_ROW < 25"

definition video :: "u32 \<Rightarrow> bool" where
  "video a \<longleftrightarrow> 0xB8000 \<le> unat a \<and> unat a < 0xC0000"

definition screen_only :: "memory \<Rightarrow> memory \<Rightarrow> bool" where
  "screen_only m m' \<longleftrightarrow> mem_size m' = mem_size m \<and>
     (\<forall>a. \<not> video a \<and> a \<noteq> BDA_CURSOR_COL \<and> a \<noteq> BDA_CURSOR_ROW \<longrightarrow> read_u8 m' a = read_u8 m a)"

abbreviation screen_rel :: "machine \<Rightarrow> machine \<Rightarrow> bool" where
  "screen_rel s t \<equiv> cursor_ok (m_mem s) \<longrightarrow> cursor_ok (m_mem t) \<and> screen_only (m_mem s) (m_mem t) \<and> m_io t = m_io s"

interpretation screen: frame_rel screen_rel
  by unfold_locales (auto simp: screen_only_def)

text \<open>Low addresses are RAM or nothing.\<close>

lemma low_plain: "unat a < 0xC0000 \<Longrightarrow> \<not> is_lapic a \<and> \<not> is_hpet a"
proof -
  assume a: "unat a < 0xC0000"
  have "unat (a - LAPIC_BASE) = unat a + (2 ^ 32 - 0xFEE00000)"
    using a by (simp add: LAPIC_BASE_def unat_sub_if')
  moreover have "unat (a - HPET_BASE) = unat a + (2 ^ 32 - 0xFED00000)"
    using a by (simp add: HPET_BASE_def unat_sub_if')
  ultimately show ?thesis
    by (simp add: is_lapic_def is_hpet_def LAPIC_SIZE_def HPET_SIZE_def word_less_nat_alt)
qed

lemma low_write:
  assumes "unat a < 0xC0000"
  shows "read_u8 (write_u8 m a v) b = (if b = a \<and> in_ram m a then v else read_u8 m b)"
proof (cases "in_ram m a")
  case True
  then show ?thesis using ram.rd_wr by simp
next
  case False
  then show ?thesis using low_plain [OF assms] by (simp add: in_ram_def write_u8_def)
qed

lemma low_read_outside: "unat a < 0xC0000 \<Longrightarrow> \<not> in_ram m a \<Longrightarrow> read_u8 m a = 0"
  using low_plain [of a] by (simp add: in_ram_def read_u8_def)

lemma cursor_addrs: "unat BDA_CURSOR_COL < 0xC0000" "unat BDA_CURSOR_ROW < 0xC0000" "BDA_CURSOR_COL \<noteq> BDA_CURSOR_ROW"
  "\<not> video BDA_CURSOR_COL" "\<not> video BDA_CURSOR_ROW"
  by (simp_all add: vga_defs video_def)

lemma screen_only_write:
  assumes "unat a < 0xC0000" "video a \<or> a = BDA_CURSOR_COL \<or> a = BDA_CURSOR_ROW"
  shows "screen_only m (write_u8 m a v)"
  using assms(2) unfolding screen_only_def low_write [OF assms(1)] by auto

lemma sc_video: "video a \<Longrightarrow> frames screen_rel (pw8 a v)"
proof -
  assume a: "video a"
  then have l: "unat a < 0xC0000" by (simp add: video_def)
  have "a \<noteq> BDA_CURSOR_COL" "a \<noteq> BDA_CURSOR_ROW" using a cursor_addrs by auto
  then have "cursor_ok (write_u8 m a v) = cursor_ok m" for m by (simp add: cursor_ok_def low_write [OF l])
  then show ?thesis using a screen_only_write [OF l] by (simp add: frames_def run_phys)
qed

lemma sc_cursor: "v < 80 \<Longrightarrow> frames screen_rel (pw8 BDA_CURSOR_COL v)" "w < 25 \<Longrightarrow> frames screen_rel (pw8 BDA_CURSOR_ROW w)"
proof -
  have "cursor_ok m \<Longrightarrow> cursor_ok (write_u8 m BDA_CURSOR_COL v)" if "v < 80" for m
    using that cursor_addrs(3) by (simp add: cursor_ok_def low_write [OF cursor_addrs(1)])
  then show "frames screen_rel (pw8 BDA_CURSOR_COL v)" if "v < 80"
    using that screen_only_write [OF cursor_addrs(1)] by (simp add: frames_def run_phys)
  have "cursor_ok m \<Longrightarrow> cursor_ok (write_u8 m BDA_CURSOR_ROW w)" if "w < 25" for m
    using that cursor_addrs(3) by (simp add: cursor_ok_def low_write [OF cursor_addrs(2)])
  then show "frames screen_rel (pw8 BDA_CURSOR_ROW w)" if "w < 25"
    using that screen_only_write [OF cursor_addrs(2)] by (simp add: frames_def run_phys)
qed

lemma sc_cpu: "frames screen_rel (cpu_upd f)" "frames screen_rel (phys_get g)"
  by (simp_all add: frames_def run_basic run_phys screen_only_def)

lemma sc_read_cursor:
  "(\<And>v. v < 80 \<Longrightarrow> frames screen_rel (f v)) \<Longrightarrow> frames screen_rel (State_Monad.bind (pr8 BDA_CURSOR_COL) f)"
  "(\<And>v. v < 25 \<Longrightarrow> frames screen_rel (f v)) \<Longrightarrow> frames screen_rel (State_Monad.bind (pr8 BDA_CURSOR_ROW) f)"
  by (auto simp: frames_def run_bind run_phys cursor_ok_def)

lemma sc_each: "(\<And>x. x \<in> set xs \<Longrightarrow> frames screen_rel (f x)) \<Longrightarrow> frames screen_rel (each xs f)"
  by (induction xs) (auto intro: screen.fr_ret screen.fr_bind)

lemma vga_cell_video:
  assumes "row < 25" "col < 256"
  shows "video (vga_cell row col)" "video (vga_cell row col + 1)"
proof -
  have k: "(row * VGA_TEXT_COLS + col) * 2 < 0x2000" using assms by (simp add: VGA_TEXT_COLS_def)
  have "unat (vga_cell row col) = 0xB8000 + (row * VGA_TEXT_COLS + col) * 2"
    using k unat_offset [of "0xB8000" "(row * VGA_TEXT_COLS + col) * 2"] by (simp add: vga_cell_def VGA_TEXT_BASE_def)
  moreover from this have "unat (vga_cell row col + 1) = 0xB8000 + (row * VGA_TEXT_COLS + col) * 2 + 1"
    using k unat_offset [of "vga_cell row col" 1] by simp
  ultimately show "video (vga_cell row col)" "video (vga_cell row col + 1)" using k by (simp_all add: video_def)
qed

lemma sc_put_cell: "row < 25 \<Longrightarrow> col < 256 \<Longrightarrow> frames screen_rel (put_cell row col ch attr)"
  unfolding put_cell_def by (intro screen.fr_bind sc_video vga_cell_video)

lemma sc_write_string_loop: "col < 256 \<Longrightarrow> frames screen_rel (write_string_loop is src ha d row col)"
  by (induction "is" src ha d row col rule: write_string_loop.induct)
    (auto simp: VGA_TEXT_ROWS_def VGA_TEXT_COLS_def intro!: frame_intro screen.fr_ret screen.fr_bind sc_cpu(2) sc_put_cell)

lemma tty_in_grid:
  assumes "row < 25" "col < 80" "tty_advance al row col = (row', col')"
  shows "row' < 25 \<and> col' < 80"
  using assms by (auto simp: tty_advance_def VGA_TEXT_ROWS_def VGA_TEXT_COLS_def split: if_splits)

lemma of_nat_below: "k < n \<Longrightarrow> n < 256 \<Longrightarrow> (of_nat k :: u8) < of_nat n"
  by (simp add: word_less_nat_alt unat_of_nat)

lemmas sc_rules = sc_read_cursor sc_cpu sc_each screen.fr_bind screen.fr_ret screen.fr_if screen.fr_get

lemma u8_below: "v < 80 \<Longrightarrow> unat v < 80" "w < 25 \<Longrightarrow> unat w < 25" for v w :: u8
  by (simp_all add: word_less_nat_alt)

lemma sc_set_mode: "frames screen_rel int10_set_mode"
proof -
  have "video (VGA_TEXT_BASE + of_nat i * 2) \<and> video (VGA_TEXT_BASE + of_nat i * 2 + 1)"
    if "i < VGA_TEXT_ROWS * VGA_TEXT_COLS" for i
  proof -
    have "vga_cell (i div 80) (i mod 80) = VGA_TEXT_BASE + of_nat i * 2"
      by (simp add: vga_cell_def VGA_TEXT_COLS_def)
    moreover have "i div 80 < 25" using that by (simp add: VGA_TEXT_ROWS_def VGA_TEXT_COLS_def)
    ultimately show ?thesis using vga_cell_video [of "i div 80" "i mod 80"] by auto
  qed
  then show ?thesis
    unfolding int10_set_mode_def by (intro sc_rules sc_video sc_cursor) auto
qed

lemma sc_set_cursor: "frames screen_rel int10_set_cursor"
  unfolding int10_set_cursor_def
  by (intro sc_rules sc_cursor) (simp_all add: VGA_TEXT_ROWS_def VGA_TEXT_COLS_def min_def word_le_nat_alt word_less_nat_alt)

lemma sc_read: "frames screen_rel int10_read_cursor" "frames screen_rel int10_read_char" "frames screen_rel int10_get_mode"
  "frames screen_rel int10_ega_info"
  unfolding int10_read_cursor_def int10_read_char_def int10_get_mode_def int10_ega_info_def by (intro sc_rules)+

lemma sc_rect: "b < 25 \<Longrightarrow> r < 80 \<Longrightarrow> frames screen_rel (fill_rect t l b r ch attr)"
  unfolding fill_rect_def by (intro sc_each sc_put_cell) auto

lemma sc_copy_row: "dst < 25 \<Longrightarrow> r < 80 \<Longrightarrow> frames screen_rel (copy_row_range sr dst l r)"
  unfolding copy_row_range_def by (intro sc_each screen.fr_bind sc_cpu sc_put_cell) auto

lemma sc_scroll: "frames screen_rel (int10_scroll ah)"
  unfolding int10_scroll_def Let_def VGA_TEXT_ROWS_def VGA_TEXT_COLS_def
  by (intro sc_rules sc_rect sc_copy_row) auto

lemma sc_write_char: "frames screen_rel int10_write_char"
  unfolding int10_write_char_def
  by (intro sc_rules sc_put_cell) (auto dest!: set_takeWhileD u8_below simp: VGA_TEXT_COLS_def)

lemma sc_teletype: "frames screen_rel int10_teletype"
proof -
  have "frames screen_rel (case tty_advance al (unat row) (unat col) of (row', col') \<Rightarrow>
      do { pw8 BDA_CURSOR_COL (of_nat col'); pw8 BDA_CURSOR_ROW (of_nat row') })" if "col < 80" "row < 25" for al row col :: u8
  proof (cases "tty_advance al (unat row) (unat col)")
    case (Pair row' col')
    then have "row' < 25" "col' < 80" using tty_in_grid u8_below that by blast+
    then show ?thesis using of_nat_below [of col' 80] of_nat_below [of row' 25]
      by (simp add: Pair) (intro sc_rules sc_cursor; simp)
  qed
  then show ?thesis
    unfolding int10_teletype_def Let_def
    by (intro sc_rules sc_put_cell) (auto dest!: u8_below)
qed

lemma sc_write_string: "frames screen_rel int10_write_string"
proof -
  have "(of_nat (min k (VGA_TEXT_ROWS - 1)) :: u8) < 25" "(of_nat (min k (VGA_TEXT_COLS - 1)) :: u8) < 80" for k
    using of_nat_below [of "min k 24" 25] of_nat_below [of "min k 79" 80] by (simp_all add: VGA_TEXT_ROWS_def VGA_TEXT_COLS_def)
  moreover have "unat col < 256" for col :: u8 using unat_bounds(1) [of col] by simp
  ultimately show ?thesis
    unfolding int10_write_string_def by (intro sc_rules sc_write_string_loop sc_cursor)
qed

text \<open>
  C24: The video services stay on the screen.  With the cursor inside the 80 by 25 grid, an INT 10h call, whatever its
  function and arguments, writes nowhere in physical memory but in the video window and the two cursor bytes,
  leaves the cursor in the grid, and does not touch the devices.
\<close>

theorem int10_confined:
  assumes "cursor_ok (m_mem s)"
  defines "t \<equiv> snd (run_state bios_int10 s)"
  shows "cursor_ok (m_mem t) \<and> screen_only (m_mem s) (m_mem t) \<and> m_io t = m_io s"
proof -
  have "frames screen_rel bios_int10"
    unfolding bios_int10_def
    by (intro screen.fr_bind screen.fr_get screen.fr_if screen.fr_ret sc_set_mode sc_set_cursor sc_read sc_scroll sc_write_char
        sc_teletype sc_write_string)
  then show ?thesis using assms(1) by (simp add: frames_def t_def)
qed

theorem int10_confined_witness:
  "cursor_ok (m_mem boot_machine) \<and> cursor_ok (m_mem (snd (run_state bios_int10 boot_machine)))"
proof -
  have "cursor_ok (m_mem boot_machine)"
    by (simp add: cursor_ok_def boot_machine_def mem_new_def read_u8_def vga_defs)
  with int10_confined [of boot_machine] show ?thesis by simp
qed

section \<open>What the guest prints is what the host shows\<close>

lemma concat_uniform_nth:
  "\<forall>xs \<in> set xss. length xs = n \<Longrightarrow> i < length xss \<Longrightarrow> j < n \<Longrightarrow> concat xss ! (i * n + j) = xss ! i ! j"
proof (induction xss arbitrary: i)
  case (Cons xs xss)
  then show ?case by (cases i) (auto simp: nth_append)
qed simp

lemma length_vga_text_snapshot: "length (vga_text_snapshot m) = 25 * 81"
  by (simp add: vga_text_snapshot_def length_concat comp_def VGA_TEXT_ROWS_def VGA_TEXT_COLS_def sum_list_triv)

lemma vga_text_nth:
  assumes "row < 25" "col < 81"
  shows "vga_text_snapshot m ! (row * 81 + col) = (if col < 80 then shown (read_u8 m (vga_cell row col)) else 0x0A)"
  unfolding vga_text_snapshot_def using assms
  by (subst concat_uniform_nth [where n = 81]) (auto simp: VGA_TEXT_ROWS_def VGA_TEXT_COLS_def nth_append)

lemma grid_inj: "c < n \<Longrightarrow> c' < n \<Longrightarrow> r * n + c = r' * n + c' \<longleftrightarrow> r = r' \<and> c = c'" for c c' n r r' :: nat
proof -
  assume "c < n" "c' < n"
  then have "(r * n + c) div n = r" "(r' * n + c') div n = r'" by simp_all
  then show ?thesis by (metis add_left_cancel)
qed

lemma vga_cell_inj:
  assumes "row < 25" "col < 80" "row' < 25" "col' < 80"
  shows "vga_cell row col = vga_cell row' col' \<longleftrightarrow> row = row' \<and> col = col'" "vga_cell row col \<noteq> vga_cell row' col' + 1"
proof -
  have u: "unat (vga_cell r c) = 0xB8000 + (r * 80 + c) * 2" if "r < 25" "c < 80" for r c
    using that unat_offset [of "0xB8000" "(r * 80 + c) * 2"] by (simp add: vga_cell_def VGA_TEXT_BASE_def VGA_TEXT_COLS_def)
  have u1: "unat (vga_cell row' col' + 1) = 0xB8000 + (row' * 80 + col') * 2 + 1"
    using assms u [OF assms(3,4)] unat_offset [of "vga_cell row' col'" 1] by simp
  have "(row * 80 + col = row' * 80 + col') \<longleftrightarrow> row = row' \<and> col = col'"
    using assms by (intro grid_inj)
  moreover have "vga_cell row col = vga_cell row' col' \<longleftrightarrow> (row * 80 + col) * 2 = (row' * 80 + col') * 2"
    by (simp only: word_unat_eq_iff u [OF assms(1,2)] u [OF assms(3,4)] add_left_cancel)
  ultimately show "vga_cell row col = vga_cell row' col' \<longleftrightarrow> row = row' \<and> col = col'"
    by (simp only: mult_cancel2) simp
  show "vga_cell row col \<noteq> vga_cell row' col' + 1"
    using u [OF assms(1,2)] u1 by (metis add_right_cancel dvd_triv_right even_add odd_one)
qed

text \<open>Storing a printable character in a cell is one change of the snapshot; the cursor bytes do not show.\<close>

lemma vga_snapshot_cell:
  assumes "row < 25" "col < 80" "0xC0000 \<le> mem_size m"
  shows "vga_text_snapshot (write_u8 (write_u8 m (vga_cell row col) ch) (vga_cell row col + 1) attr) =
     (vga_text_snapshot m)[row * 81 + col := shown ch]"
proof (rule nth_equalityI)
  fix i
  assume "i < length (vga_text_snapshot (write_u8 (write_u8 m (vga_cell row col) ch) (vga_cell row col + 1) attr))"
  then have i: "i < 25 * 81" by (simp add: length_vga_text_snapshot)
  define r c where "r = i div 81" and "c = i mod 81"
  have rc: "r < 25" "c < 81" "i = r * 81 + c" using i by (auto simp: r_def c_def)
  have v: "unat (vga_cell row col) < 0xC0000" "unat (vga_cell row col + 1) < 0xC0000" "in_ram m (vga_cell row col)"
    using vga_cell_video [of row col] assms by (auto simp: video_def in_ram_def mem_size_def)
  have "c < 80 \<Longrightarrow> read_u8 (write_u8 (write_u8 m (vga_cell row col) ch) (vga_cell row col + 1) attr) (vga_cell r c) =
      (if r = row \<and> c = col then ch else read_u8 m (vga_cell r c))"
    using vga_cell_inj [OF rc(1) _ assms(1,2)] v by (simp add: low_write)
  moreover have "row * 81 + col = r * 81 + c \<longleftrightarrow> row = r \<and> col = c"
    using assms rc by (intro grid_inj) simp_all
  ultimately show "vga_text_snapshot (write_u8 (write_u8 m (vga_cell row col) ch) (vga_cell row col + 1) attr) ! i =
      (vga_text_snapshot m)[row * 81 + col := shown ch] ! i"
    using rc i assms(2) by (auto simp: vga_text_nth nth_list_update length_vga_text_snapshot)
qed (simp add: length_vga_text_snapshot)

lemma vga_snapshot_cursor:
  "a = BDA_CURSOR_COL \<or> a = BDA_CURSOR_ROW \<Longrightarrow> vga_text_snapshot (write_u8 m a v) = vga_text_snapshot m"
proof -
  assume a: "a = BDA_CURSOR_COL \<or> a = BDA_CURSOR_ROW"
  have "read_u8 (write_u8 m a v) (vga_cell row col) = read_u8 m (vga_cell row col)" if "row < 25" "col < 80" for row col
  proof -
    have "vga_cell row col \<noteq> a" using a vga_cell_video [of row col] that cursor_addrs(4,5) by auto
    then show ?thesis using a cursor_addrs(1,2) by (auto simp: low_write)
  qed
  then show ?thesis
    unfolding vga_text_snapshot_def VGA_TEXT_ROWS_def VGA_TEXT_COLS_def
    by (intro arg_cong [where f = concat] map_cong refl) simp
qed

text \<open>The guest prints a string: one teletype call per character.\<close>

definition tty_char :: "machine \<Rightarrow> u8 \<Rightarrow> machine" where
  "tty_char s b = snd (run_state (bios_hook_fn 0x10) (s\<lparr>m_cpu := write_r8 (write_r8 (m_cpu s) 4 0x0E) 0 b\<rparr>))"

definition printable :: "u8 \<Rightarrow> bool" where
  "printable b \<longleftrightarrow> 0x20 \<le> b \<and> b < 0x7F"

definition cursor_at :: "memory \<Rightarrow> nat \<Rightarrow> nat \<Rightarrow> bool" where
  "cursor_at m row col \<longleftrightarrow> unat (read_u8 m BDA_CURSOR_ROW) = row \<and> unat (read_u8 m BDA_CURSOR_COL) = col"

lemma write_r8_twice:
  assumes "cpu_wf c"
  shows "read_r8 (write_r8 (write_r8 c 4 a) 0 b) 4 = a" "read_r8 (write_r8 (write_r8 c 4 a) 0 b) 0 = b"
proof -
  have w: "cpu_wf (write_r8 c 4 a)" using assms by (simp add: frame_simps)
  have i: "(0 :: u8) < 8" "(4 :: u8) < 8" by (simp_all add: word_less_nat_alt)
  show "read_r8 (write_r8 (write_r8 c 4 a) 0 b) 4 = a" "read_r8 (write_r8 (write_r8 c 4 a) 0 b) 0 = b"
    using register_aliasing [OF w i(1,2)] register_aliasing [OF w i(1,1)] register_aliasing [OF assms i(2,2)] by simp_all
qed

lemma tty_char_prints:
  assumes "printable b" "cursor_at (m_mem s) row col" "row < 25" "col < 79" "0xC0000 \<le> mem_size (m_mem s)" "cpu_wf (m_cpu s)"
  shows "vga_text_snapshot (m_mem (tty_char s b)) = (vga_text_snapshot (m_mem s))[row * 81 + col := b]"
    "cursor_at (m_mem (tty_char s b)) row (Suc col)" "mem_size (m_mem (tty_char s b)) = mem_size (m_mem s)"
    "cpu_wf (m_cpu (tty_char s b))"
proof -
  let ?c = "write_r8 (write_r8 (m_cpu s) 4 0x0E) 0 b" let ?a = "vga_cell row col" let ?m = "m_mem s"
  have ctl: "b \<noteq> 7" "b \<noteq> 8" "b \<noteq> 0xD" "b \<noteq> 0xA" "shown b = b" using assms(1) by (auto simp: printable_def shown_def)
  let ?m3 = "write_u8 (write_u8 (write_u8 (write_u8 ?m ?a b) (?a + 1) 7) BDA_CURSOR_COL (of_nat (Suc col))) BDA_CURSOR_ROW (of_nat row)"
  have cur: "unat (read_u8 ?m BDA_CURSOR_ROW) = row" "unat (read_u8 ?m BDA_CURSOR_COL) = col"
    using assms(2) by (simp_all add: cursor_at_def)
  have adv: "tty_advance b row col = (row, Suc col)"
    using ctl assms(4) by (simp add: tty_advance_def VGA_TEXT_COLS_def)
  have t: "tty_char s b = s\<lparr>m_cpu := ?c, m_mem := ?m3\<rparr>"
    using ctl by (simp add: tty_char_def bios_hook_fn_def bios_int10_def int10_teletype_def put_cell_def run_bind run_basic run_phys
        write_r8_twice [OF assms(6)] cur adv)
  show "vga_text_snapshot (m_mem (tty_char s b)) = (vga_text_snapshot ?m)[row * 81 + col := b]"
    using vga_snapshot_cell [of row col ?m b 7] assms(3-5) ctl(5) by (simp add: t vga_snapshot_cursor)
  show "mem_size (m_mem (tty_char s b)) = mem_size ?m" by (simp add: t)
  show "cpu_wf (m_cpu (tty_char s b))" using assms(6) by (simp add: t frame_simps)
  have "in_ram m BDA_CURSOR_COL" "in_ram m BDA_CURSOR_ROW" if "mem_size m = mem_size ?m" for m
    using that assms(5) by (simp_all add: in_ram_def mem_size_def vga_defs)
  then show "cursor_at (m_mem (tty_char s b)) row (Suc col)"
    using cursor_addrs assms(3,4) by (simp add: t cursor_at_def low_write unat_of_nat del: of_nat_Suc)
qed


definition screen_machine :: machine where
  "screen_machine = boot_machine\<lparr>m_mem := mem_new None 0x100000\<rparr>"


end
