(* ===== verification/VmSnapshot.thy ===== *)
theory VmSnapshot
  imports CpuFlow F64 VmPaged
begin

unbundle bit_operations_syntax

text \<open>
  The virtual machine that owns CPU, memory and bus, and its snapshots (\<^verbatim>\<open>crates/vm/src/lib.rs\<close>, \<^verbatim>\<open>Vm\<close>, module
  \<^verbatim>\<open>snapshot\<close>, \<^verbatim>\<open>snapshot\<close>, \<^verbatim>\<open>restore\<close>, the export functions).  The format has sixteen versions; \<open>restore\<close> reads them
  all and writes memory and devices section by section, so an error in a late section leaves the earlier ones
  written.  Lengths are natural numbers, which is the code on a 64-bit host.  The main results: a snapshot restores
  to the machine it was taken of, but for a listed set of fields; a truncated snapshot is an error; the caches of
  the target survive.
\<close>

section \<open>The machine\<close>

record fb_config =
  fb_base :: u32
  fb_size :: u32
  fb_width :: u32
  fb_height :: u32
  fb_stride :: u32
  fb_bpp :: u8
  fb_video_type :: u8

text \<open>\<open>vm_bios\<close>: the field \<^verbatim>\<open>bios_hook\<close> of the CPU holds the BIOS of this crate.\<close>

record vm =
  vm_machine :: machine
  vm_autorun :: bytes
  vm_booted :: bool
  vm_fb :: "fb_config option"
  vm_bios :: bool

definition RAM_SIZE :: nat where "RAM_SIZE = 0x100000"

definition with_ram_size :: "(u32 \<times> u32) option \<Rightarrow> nat \<Rightarrow> vm" where
  "with_ram_size watch sz =
     \<lparr>vm_machine = \<lparr>m_cpu = cpu_new, m_mem = mem_new watch sz, m_io = bus_new\<rparr>, vm_autorun = [], vm_booted = False,
      vm_fb = None, vm_bios = False\<rparr>"

definition vm_new :: "(u32 \<times> u32) option \<Rightarrow> vm" where
  "vm_new watch = with_ram_size watch RAM_SIZE"

abbreviation vm_cpu :: "vm \<Rightarrow> cpu" where "vm_cpu v \<equiv> m_cpu (vm_machine v)"
abbreviation vm_mem :: "vm \<Rightarrow> memory" where "vm_mem v \<equiv> m_mem (vm_machine v)"
abbreviation vm_io :: "vm \<Rightarrow> iobus" where "vm_io v \<equiv> m_io (vm_machine v)"

definition with_cpu :: "vm \<Rightarrow> cpu \<Rightarrow> vm" where "with_cpu v c = v\<lparr>vm_machine := (vm_machine v)\<lparr>m_cpu := c\<rparr>\<rparr>"
definition with_mem :: "vm \<Rightarrow> memory \<Rightarrow> vm" where "with_mem v m = v\<lparr>vm_machine := (vm_machine v)\<lparr>m_mem := m\<rparr>\<rparr>"
definition with_io :: "vm \<Rightarrow> iobus \<Rightarrow> vm" where "with_io v b = v\<lparr>vm_machine := (vm_machine v)\<lparr>m_io := b\<rparr>\<rparr>"

section \<open>The format\<close>

definition MAGIC :: bytes where "MAGIC = [0x57, 0x57, 0x57, 0x56, 0x4D, 0]"
definition VERSION :: u8 where "VERSION = 16"
definition LAPIC_LEN :: nat where "LAPIC_LEN = 4096"
definition HPET_LEN :: nat where "HPET_LEN = 1024"
definition HPET_PERIOD_LEN :: nat where "HPET_PERIOD_LEN = 12"
definition HEADER_LEN :: nat where "HEADER_LEN = 16"
definition CPU_LEN :: nat where "CPU_LEN = 36"
definition CPU_V3_LEN :: nat where "CPU_V3_LEN = CPU_LEN + 32"
definition CPU_V4_LEN :: nat where "CPU_V4_LEN = CPU_V3_LEN + 4"
definition CPU_V5_LEN :: nat where "CPU_V5_LEN = CPU_V4_LEN + 4"
definition CPU_V6_LEN :: nat where "CPU_V6_LEN = CPU_V5_LEN + 20"
definition CPU_V7_LEN :: nat where "CPU_V7_LEN = CPU_V6_LEN + 16"
definition CPU_V8_LEN :: nat where "CPU_V8_LEN = CPU_V7_LEN + 65"
definition CPU_V9_LEN :: nat where "CPU_V9_LEN = CPU_V8_LEN + 128"
definition CPU_V12_LEN :: nat where "CPU_V12_LEN = CPU_V9_LEN + 45"

lemmas format_lens = LAPIC_LEN_def HPET_LEN_def HPET_PERIOD_LEN_def HEADER_LEN_def CPU_LEN_def CPU_V3_LEN_def CPU_V4_LEN_def
  CPU_V5_LEN_def CPU_V6_LEN_def CPU_V7_LEN_def CPU_V8_LEN_def CPU_V9_LEN_def CPU_V12_LEN_def

datatype snapshot_error =
  TooSmall nat nat
| BadMagic
| UnsupportedVersion u8
| MemorySizeMismatch nat nat
| DeviceRestore string

text \<open>\<^verbatim>\<open>u128\<close> in little-endian order, and an array read element by element.\<close>

definition le128 :: "u128 \<Rightarrow> bytes" where
  "le128 w = le64 (ucast w) @ le64 (ucast (drop_bit 64 w))"

definition get128 :: "bytes \<Rightarrow> nat \<Rightarrow> u128" where
  "get128 xs i = ucast (get64 xs i) OR push_bit 64 (ucast (get64 xs (i + 8)))"

definition table :: "nat \<Rightarrow> (nat \<Rightarrow> 'a) \<Rightarrow> 'a list" where
  "table n f = map f [0..<n]"

section \<open>Saving\<close>

definition cpu_v1 :: "cpu \<Rightarrow> bytes" where
  "cpu_v1 c =
     concat (map le16 (regs c)) @ concat (map le16 (sregs c)) @ le16 (ucast (ip c)) @ le16 (flags c) @
     [of_bool (halted c), (case seg_override c of None \<Rightarrow> 0xFF | Some i \<Rightarrow> of_nat i), 0, 0]"

definition cpu_v3 :: "cpu \<Rightarrow> bytes" where
  "cpu_v3 c =
     concat (map le16 (regs_high c)) @ le32 (cr0 c) @ le16 (dt_limit (gdtr c)) @ le32 (dt_base (gdtr c)) @
     le16 (dt_limit (idtr c)) @ le32 (dt_base (idtr c))"

definition cpu_v6 :: "cpu \<Rightarrow> bytes" where
  "cpu_v6 c =
     le16 (ucast (drop_bit 16 (ip c))) @ le32 (cr4 c) @ le64 (tsc c) @ le16 (ldtr c) @ le16 (tr c) @
     [of_bool (a20 c), of_bool (stack_size_32 c)]"

definition cpu_v7 :: "cpu \<Rightarrow> bytes" where
  "cpu_v7 c = le16 (fpu_sw c) @ le16 (fpu_cw c) @ le32 (sysenter_cs c) @ le32 (sysenter_esp c) @ le32 (sysenter_eip c)"

definition cpu_v8 :: "cpu \<Rightarrow> bytes" where
  "cpu_v8 c = concat (map le64 (map to_f64 (fpu_st c))) @ [fpu_top c]"

definition cpu_v9 :: "cpu \<Rightarrow> bytes" where
  "cpu_v9 c = concat (map le128 (xmm c))"

definition cpu_v12 :: "cpu \<Rightarrow> bytes" where
  "cpu_v12 c = [of_bool (code_size_32 c)] @ le64 (misc_enable c) @ le32 (tsc_aux c) @ concat (map le32 (dr c))"

definition cpu_image :: "cpu \<Rightarrow> bytes" where
  "cpu_image c =
     cpu_v1 c @ cpu_v3 c @ le32 (cr3 c) @ le32 (cr2 c) @ cpu_v6 c @ cpu_v7 c @ cpu_v8 c @ cpu_v9 c @ cpu_v12 c"

definition segment_image :: "segment_cache \<Rightarrow> bytes" where
  "segment_image s = le32 (sc_base s) @ le32 (sc_limit s) @ [sc_access s]"

definition fb_image :: "fb_config option \<Rightarrow> bytes" where
  "fb_image f =
     (case f of
        Some fb \<Rightarrow> [1] @ le32 (fb_base fb) @ le32 (fb_size fb) @ le32 (fb_width fb) @ le32 (fb_height fb) @
          le32 (fb_stride fb) @ [fb_bpp fb, fb_video_type fb]
      | None \<Rightarrow> [0])"

definition snapshot_header :: bytes where
  "snapshot_header = MAGIC @ [VERSION, 0] @ replicate 8 0"

definition snapshot :: "vm \<Rightarrow> bytes" where
  "snapshot v =
     (let dev = bus_snapshot (vm_io v) in
      snapshot_header @ cpu_image (vm_cpu v) @ mem_bytes (vm_mem v) @ mem_lapic (vm_mem v) @ mem_hpet (vm_mem v) @
      hpet_period_bytes (vm_mem v) @ le32 (of_nat (length dev)) @ dev @ concat (map segment_image (seg_cache (vm_cpu v))) @
      fb_image (vm_fb v))"

definition snapshot_ram_region :: "vm \<Rightarrow> nat \<times> nat" where
  "snapshot_ram_region v = (HEADER_LEN + CPU_V12_LEN, mem_size (vm_mem v))"

definition snapshot_paged :: "(bytes \<Rightarrow> digest) \<Rightarrow> vm \<Rightarrow> (paged \<times> page list) option" where
  "snapshot_paged blake3 v =
     (case snapshot_ram_region v of (off, len) \<Rightarrow> split blake3 (snapshot v) off len)"

definition snapshot_export :: "(bytes \<Rightarrow> digest) \<Rightarrow> vm \<Rightarrow> bytes option" where
  "snapshot_export blake3 v =
     (case snapshot_ram_region v of (off, len) \<Rightarrow> encode_export blake3 (snapshot v) off len)"

section \<open>Restoring\<close>

definition cpu_image_len :: "nat \<Rightarrow> nat" where
  "cpu_image_len version =
     (if 12 \<le> version \<and> version \<le> 16 then CPU_V12_LEN
      else if 9 \<le> version \<and> version \<le> 11 then CPU_V9_LEN
      else if version = 8 then CPU_V8_LEN
      else if version = 7 then CPU_V7_LEN
      else if version = 6 then CPU_V6_LEN
      else if version = 5 then CPU_V5_LEN
      else if version = 4 then CPU_V4_LEN
      else if version = 3 then CPU_V3_LEN
      else CPU_LEN)"

text \<open>The fields decoded from the CPU image and committed, group by group; absent groups get their defaults.\<close>

definition restore_v1 :: "bytes \<Rightarrow> cpu \<Rightarrow> cpu" where
  "restore_v1 bs c =
     (let p = HEADER_LEN in
      c\<lparr>regs := table 8 (\<lambda>i. get16 bs (p + i * 2)), sregs := table 6 (\<lambda>i. get16 bs (p + 16 + i * 2)),
        flags := get16 bs (p + 30), halted := bs ! (p + 32) \<noteq> 0,
        seg_override := (let i = bs ! (p + 33) in if i = 0xFF then None else if unat i < 6 then Some (unat i) else None)\<rparr>)"

definition restore_v3 :: "nat \<Rightarrow> bytes \<Rightarrow> cpu \<Rightarrow> cpu" where
  "restore_v3 version bs c =
     (let p = HEADER_LEN + CPU_LEN in
      if 3 \<le> version then
        c\<lparr>regs_high := table 8 (\<lambda>i. get16 bs (p + i * 2)), cr0 := get32 bs (p + 16),
          gdtr := \<lparr>dt_limit = get16 bs (p + 20), dt_base = get32 bs (p + 22)\<rparr>,
          idtr := \<lparr>dt_limit = get16 bs (p + 26), dt_base = get32 bs (p + 28)\<rparr>\<rparr>
      else c\<lparr>regs_high := replicate 8 0, cr0 := 0, gdtr := dt_default, idtr := dt_default\<rparr>)"

definition restore_v4 :: "nat \<Rightarrow> bytes \<Rightarrow> cpu \<Rightarrow> cpu" where
  "restore_v4 version bs c =
     c\<lparr>cr3 := if 4 \<le> version then get32 bs (HEADER_LEN + CPU_V3_LEN) else 0,
       cr2 := if 5 \<le> version then get32 bs (HEADER_LEN + CPU_V4_LEN) else 0\<rparr>"

definition restore_v6 :: "nat \<Rightarrow> bytes \<Rightarrow> cpu \<Rightarrow> cpu" where
  "restore_v6 version bs c =
     (let p = HEADER_LEN + CPU_V5_LEN; lo = get16 bs (HEADER_LEN + 28) in
      if 6 \<le> version then
        c\<lparr>ip := ucast lo OR push_bit 16 (ucast (get16 bs p)), cr4 := get32 bs (p + 2), tsc := get64 bs (p + 6),
          ldtr := get16 bs (p + 14), tr := get16 bs (p + 16), a20 := bs ! (p + 18) \<noteq> 0,
          stack_size_32 := bs ! (p + 19) \<noteq> 0\<rparr>
      else c\<lparr>ip := ucast lo, cr4 := 0, tsc := 0, ldtr := 0, tr := 0, a20 := True, stack_size_32 := False\<rparr>)"

definition restore_v7 :: "nat \<Rightarrow> bytes \<Rightarrow> cpu \<Rightarrow> cpu" where
  "restore_v7 version bs c =
     (let p = HEADER_LEN + CPU_V6_LEN in
      if 7 \<le> version then
        c\<lparr>fpu_sw := get16 bs p, fpu_cw := get16 bs (p + 2), sysenter_cs := get32 bs (p + 4),
          sysenter_esp := get32 bs (p + 8), sysenter_eip := get32 bs (p + 12)\<rparr>
      else c\<lparr>fpu_sw := 0, fpu_cw := 0x037F, sysenter_cs := 0, sysenter_esp := 0, sysenter_eip := 0\<rparr>)"

definition restore_v8 :: "nat \<Rightarrow> bytes \<Rightarrow> cpu \<Rightarrow> cpu" where
  "restore_v8 version bs c =
     (let p = HEADER_LEN + CPU_V7_LEN in
      if 8 \<le> version then c\<lparr>fpu_st := map from_f64 (table 8 (\<lambda>i. get64 bs (p + i * 8))), fpu_top := bs ! (p + 64)\<rparr>
      else c\<lparr>fpu_st := map from_f64 (replicate 8 0), fpu_top := 0\<rparr>)"

definition restore_v9 :: "nat \<Rightarrow> bytes \<Rightarrow> cpu \<Rightarrow> cpu" where
  "restore_v9 version bs c =
     (let p = HEADER_LEN + CPU_V8_LEN in
      c\<lparr>xmm := if 9 \<le> version then table 8 (\<lambda>i. get128 bs (p + i * 16)) else replicate 8 0\<rparr>)"

definition restore_v12 :: "nat \<Rightarrow> bytes \<Rightarrow> cpu \<Rightarrow> cpu" where
  "restore_v12 version bs c =
     (let p = HEADER_LEN + CPU_V9_LEN in
      if 12 \<le> version then
        c\<lparr>code_size_32 := bs ! p \<noteq> 0, misc_enable := get64 bs (p + 1), tsc_aux := get32 bs (p + 9),
          dr := table 8 (\<lambda>i. get32 bs (p + 13 + i * 4))\<rparr>
      else c\<lparr>code_size_32 := False, misc_enable := 0, tsc_aux := 0, dr := replicate 8 0\<rparr>)"

definition restore_cpu :: "nat \<Rightarrow> bytes \<Rightarrow> cpu \<Rightarrow> cpu" where
  "restore_cpu version bs c =
     restore_v12 version bs (restore_v9 version bs (restore_v8 version bs (restore_v7 version bs
       (restore_v6 version bs (restore_v4 version bs (restore_v3 version bs (restore_v1 bs c)))))))"

text \<open>The memory sections: RAM, the LAPIC window, the HPET window and its periods; the offset behind them is returned.\<close>

definition size_error :: "nat \<Rightarrow> (nat + unit) \<Rightarrow> snapshot_error + unit" where
  "size_error actual r = (case r of Inl expected \<Rightarrow> Inl (MemorySizeMismatch expected actual) | Inr _ \<Rightarrow> Inr ())"

definition and_then :: "'s \<times> ('e + 'a) \<Rightarrow> ('s \<Rightarrow> 'a \<Rightarrow> 's \<times> ('e + 'b)) \<Rightarrow> 's \<times> ('e + 'b)" where
  "and_then r f = (case r of (s, Inl e) \<Rightarrow> (s, Inl e) | (s, Inr x) \<Rightarrow> f s x)"

definition restore_section ::
  "bytes \<Rightarrow> nat \<Rightarrow> nat \<Rightarrow> (memory \<Rightarrow> bytes \<Rightarrow> memory \<times> (nat + unit)) \<Rightarrow> memory \<Rightarrow> memory \<times> (snapshot_error + nat)" where
  "restore_section bs off len put_back m =
     (if length bs < off + len then (m, Inl (TooSmall (length bs) (off + len)))
      else and_then (apsnd (size_error len) (put_back m (take len (drop off bs)))) (\<lambda>m _. (m, Inr (off + len))))"

definition restore_memory :: "nat \<Rightarrow> bytes \<Rightarrow> nat \<Rightarrow> memory \<Rightarrow> memory \<times> (snapshot_error + nat)" where
  "restore_memory version bs mem_start m =
     (let ram = mem_size m in
      and_then (apsnd (size_error (length bs - mem_start)) (restore_full m (take ram (drop mem_start bs)))) (\<lambda>m _.
      and_then (if 10 \<le> version then restore_section bs (mem_start + ram) LAPIC_LEN restore_lapic m
                else (m, Inr (mem_start + ram))) (\<lambda>m lapic_end.
      if 11 \<le> version then
        and_then (restore_section bs lapic_end HPET_LEN restore_hpet m) (\<lambda>m hpet_end.
        if 13 \<le> version then restore_section bs hpet_end HPET_PERIOD_LEN restore_hpet_period m
        else (m, Inr hpet_end))
      else (m, Inr lapic_end))))"

definition restore_devices :: "nat \<Rightarrow> bytes \<Rightarrow> nat \<Rightarrow> iobus \<Rightarrow> iobus \<times> (snapshot_error + nat)" where
  "restore_devices version bs dev_off b =
     (if 2 \<le> version then
        if length bs < dev_off + 4 then (b, Inl (TooSmall (length bs) (dev_off + 4)))
        else let dev_len = unat (get32 bs dev_off); dev_need = dev_off + 4 + dev_len
             in if length bs < dev_need then (b, Inl (TooSmall (length bs) dev_need))
                else (case bus_restore b (take dev_len (drop (dev_off + 4) bs)) of
                        (b1, Inl e) \<Rightarrow> (b1, Inl (DeviceRestore e))
                      | (b1, Inr _) \<Rightarrow> (b1, Inr dev_need))
      else (b, Inr dev_off))"

definition read_segments :: "nat \<Rightarrow> bytes \<Rightarrow> nat \<Rightarrow> snapshot_error + segment_cache list option" where
  "read_segments version bs seg_end =
     (if 15 \<le> version then
        if length bs < seg_end + 6 * 9 then Inl (TooSmall (length bs) (seg_end + 6 * 9))
        else Inr (Some (table 6 (\<lambda>i. \<lparr>sc_base = get32 bs (seg_end + i * 9), sc_limit = get32 bs (seg_end + i * 9 + 4),
               sc_access = bs ! (seg_end + i * 9 + 8)\<rparr>)))
      else Inr None)"

definition read_framebuffer :: "nat \<Rightarrow> bytes \<Rightarrow> nat \<Rightarrow> snapshot_error + fb_config option option" where
  "read_framebuffer version bs seg_end =
     (if 16 \<le> version then
        let p = seg_end + 6 * 9 in
        if length bs < p + 1 then Inl (TooSmall (length bs) (p + 1))
        else if bs ! p = 0 then Inr (Some None)
        else let o1 = p + 1 in
          if length bs < o1 + 22 then Inl (TooSmall (length bs) (o1 + 22))
          else Inr (Some (Some \<lparr>fb_base = get32 bs o1, fb_size = get32 bs (o1 + 4), fb_width = get32 bs (o1 + 8),
                 fb_height = get32 bs (o1 + 12), fb_stride = get32 bs (o1 + 16), fb_bpp = bs ! (o1 + 20),
                 fb_video_type = bs ! (o1 + 21)\<rparr>))
      else Inr None)"

definition real_segments :: "u16 list \<Rightarrow> segment_cache list" where
  "real_segments sels = map (\<lambda>sel. \<lparr>sc_base = push_bit 4 (ucast sel), sc_limit = 0xFFFF, sc_access = 0x93\<rparr>) sels"

definition commit :: "nat \<Rightarrow> bytes \<Rightarrow> segment_cache list option \<Rightarrow> fb_config option option \<Rightarrow> vm \<Rightarrow> vm" where
  "commit version bs cache fb v =
     (let c = restore_cpu version bs (vm_cpu v) in
      (with_cpu v (c\<lparr>seg_cache := (case cache of Some sc \<Rightarrow> sc | None \<Rightarrow> real_segments (sregs c))\<rparr>))
        \<lparr>vm_fb := (case fb of Some f \<Rightarrow> f | None \<Rightarrow> vm_fb v), vm_booted := True\<rparr>)"

definition restore :: "vm \<Rightarrow> bytes \<Rightarrow> vm \<times> (snapshot_error + unit)" where
  "restore v bs =
     (let ram = mem_size (vm_mem v); n = length bs in
      if n < HEADER_LEN + CPU_LEN + ram then (v, Inl (TooSmall n (HEADER_LEN + CPU_LEN + ram)))
      else if take (length MAGIC) bs \<noteq> MAGIC then (v, Inl BadMagic)
      else let version = unat (bs ! length MAGIC) in
      if \<not> (1 \<le> version \<and> version \<le> 16) then (v, Inl (UnsupportedVersion (bs ! length MAGIC)))
      else let mem_start = HEADER_LEN + cpu_image_len version in
      if n < mem_start + ram then (v, Inl (TooSmall n (mem_start + ram)))
      else case restore_memory version bs mem_start (vm_mem v) of
        (m, Inl e) \<Rightarrow> (with_mem v m, Inl e)
      | (m, Inr mmio_end) \<Rightarrow>
          (case restore_devices version bs mmio_end (vm_io v) of
             (b, Inl e) \<Rightarrow> (with_io (with_mem v m) b, Inl e)
           | (b, Inr seg_end) \<Rightarrow>
               let v1 = with_io (with_mem v m) b in
               case read_segments version bs seg_end of
                 Inl e \<Rightarrow> (v1, Inl e)
               | Inr cache \<Rightarrow>
                   (case read_framebuffer version bs seg_end of
                      Inl e \<Rightarrow> (v1, Inl e)
                    | Inr fb \<Rightarrow> (commit version bs cache fb v1, Inr ()))))"

definition restore_export :: "vm \<Rightarrow> bytes \<Rightarrow> vm \<times> (snapshot_error + unit)" where
  "restore_export v buf =
     (case decode_export buf of
        None \<Rightarrow> (v, Inl (TooSmall (length buf) 0))
      | Some blob \<Rightarrow> restore v blob)"

section \<open>Reading what was written\<close>

named_theorems rd_simps

lemma rd_skip [rd_simps]:
  "length a \<le> k \<Longrightarrow> (a @ b) ! k = b ! (k - length a)"
  "length a \<le> k \<Longrightarrow> get16 (a @ b) k = get16 b (k - length a)"
  "length a \<le> k \<Longrightarrow> get32 (a @ b) k = get32 b (k - length a)"
  "length a \<le> k \<Longrightarrow> get64 (a @ b) k = get64 b (k - length a)"
  "length a \<le> k \<Longrightarrow> get128 (a @ b) k = get128 b (k - length a)"
proof -
  show "length a \<le> k \<Longrightarrow> (a @ b) ! k = b ! (k - length a)" "length a \<le> k \<Longrightarrow> get16 (a @ b) k = get16 b (k - length a)"
    and d: "length a \<le> k \<Longrightarrow> get32 (a @ b) k = get32 b (k - length a)" for k
    by (simp_all add: get16_def get32_def nth_append Suc_diff_le)
  show q: "length a \<le> k \<Longrightarrow> get64 (a @ b) k = get64 b (k - length a)" for k
    by (simp add: get64_def d)
  show "length a \<le> k \<Longrightarrow> get128 (a @ b) k = get128 b (k - length a)"
    by (simp add: get128_def q)
qed

lemma rd_stop [rd_simps]:
  "k < length a \<Longrightarrow> (a @ b) ! k = a ! k"
  "k + 2 \<le> length a \<Longrightarrow> get16 (a @ b) k = get16 a k"
  "k + 4 \<le> length a \<Longrightarrow> get32 (a @ b) k = get32 a k"
  "k + 8 \<le> length a \<Longrightarrow> get64 (a @ b) k = get64 a k"
  "k + 16 \<le> length a \<Longrightarrow> get128 (a @ b) k = get128 a k"
  by (simp_all add: get16_def get32_def get64_def get128_def nth_append)

lemma rd_cons [rd_simps]: "0 < k \<Longrightarrow> get32 (x # xs) k = get32 xs (k - 1)"
  using rd_skip(3) [of "[x]" k xs] by simp

lemma rd_le [rd_simps]:
  "get16 (le16 w) 0 = w" "get32 (le32 x) 0 = x" "get64 (le64 y) 0 = y" "get128 (le128 z) 0 = z"
proof -
  show "get16 (le16 w) 0 = w" and d: "get32 (le32 x) 0 = x" for x
    using get16_at [of "[]" 0 w "[]"] get32_at [of "[]" 0 x "[]"] by simp_all
  show l: "get64 (le64 y) 0 = y" for y
    using rd_skip(3) [of "le32 (ucast y)" 4 "le32 (ucast (drop_bit 32 y))"] rd_stop(3) [of 0 "le32 (ucast y)" "le32 (ucast (drop_bit 32 y))"] d
    by (simp add: get64_def le64_def)
  have "get64 (le128 z) 0 = ucast z" "get64 (le128 z) 8 = ucast (drop_bit 64 z)"
    using rd_skip(4) [of "le64 (ucast z)" 8 "le64 (ucast (drop_bit 64 z))"] rd_stop(4) [of 0 "le64 (ucast z)" "le64 (ucast (drop_bit 64 z))"] l
    by (simp_all add: le128_def)
  then have "get128 (le128 z) 0 = ucast (ucast z :: u64) OR push_bit 64 (ucast (ucast (drop_bit 64 z) :: u64))"
    by (simp add: get128_def)
  also have "\<dots> = z" by (rule bit_word_eqI) (auto simp: bit_simps)
  finally show "get128 (le128 z) 0 = z" .
qed

lemma length_le128 [simp]: "length (le128 w) = 16"
  by (simp add: le128_def)

lemma length_tables [simp]:
  "length (concat (map le16 as)) = 2 * length as" "length (concat (map le32 bs)) = 4 * length bs"
  "length (concat (map le64 cs)) = 8 * length cs" "length (concat (map le128 ds)) = 16 * length ds"
  "length (concat (map segment_image es)) = 9 * length es"
  by (simp_all add: length_concat segment_image_def comp_def sum_list_triv)

lemma concat_at:
  "i < length xs \<Longrightarrow> concat (map g xs) = concat (map g (take i xs)) @ g (xs ! i) @ concat (map g (drop (Suc i) xs))"
  by (subst (1) id_take_nth_drop [of i xs]) simp_all

lemma rd_table:
  "i < length as \<Longrightarrow> get16 (concat (map le16 as) @ q) (i * 2) = as ! i"
  "i < length bs \<Longrightarrow> get32 (concat (map le32 bs) @ q) (i * 4) = bs ! i"
  "i < length cs \<Longrightarrow> get64 (concat (map le64 cs) @ q) (i * 8) = cs ! i"
  "i < length ds \<Longrightarrow> get128 (concat (map le128 ds) @ q) (i * 16) = ds ! i"
  by (simp_all add: concat_at [of i] rd_simps)

lemma table_eqI: "length xs = n \<Longrightarrow> (\<And>i. i < n \<Longrightarrow> f i = xs ! i) \<Longrightarrow> table n f = xs"
  by (rule nth_equalityI) (simp_all add: table_def)

text \<open>A table at offset \<open>p\<close> of a buffer whose first \<open>p\<close> bytes are \<open>pre\<close>.\<close>

lemma rd_tables:
  "length pre = p \<Longrightarrow> length as = n \<Longrightarrow> table n (\<lambda>i. get16 (pre @ concat (map le16 as) @ q) (p + i * 2)) = as"
  "length pre = p \<Longrightarrow> length bs = n \<Longrightarrow> table n (\<lambda>i. get32 (pre @ concat (map le32 bs) @ q) (p + i * 4)) = bs"
  "length pre = p \<Longrightarrow> length cs = n \<Longrightarrow> table n (\<lambda>i. get64 (pre @ concat (map le64 cs) @ q) (p + i * 8)) = cs"
  "length pre = p \<Longrightarrow> length ds = n \<Longrightarrow> table n (\<lambda>i. get128 (pre @ concat (map le128 ds) @ q) (p + i * 16)) = ds"
  by (rule table_eqI; simp add: rd_skip rd_table)+

lemma length_sections:
  assumes "cpu_wf c"
  shows "length (cpu_v1 c) = 36" "length (cpu_v3 c) = 32" "length (cpu_v6 c) = 20" "length (cpu_v7 c) = 16"
    "length (cpu_v8 c) = 65" "length (cpu_v9 c) = 128" "length (cpu_v12 c) = 45" "length (cpu_image c) = 350"
  using assms
  by (simp_all add: cpu_wf_def cpu_v1_def cpu_v3_def cpu_v6_def cpu_v7_def cpu_v8_def cpu_v9_def cpu_v12_def cpu_image_def del: map_map)

section \<open>The CPU image restores\<close>

lemma small_index: "i < 6 \<Longrightarrow> (of_nat i :: u8) \<noteq> 0xFF" "i < 6 \<Longrightarrow> unat (of_nat i :: u8) = i"
  by (simp_all add: word_unat_eq_iff unat_of_nat)

lemma restore_v1_image:
  assumes "length pre = 16" "cpu_wf c" "\<forall>i. seg_override c = Some i \<longrightarrow> i < 6"
  shows "restore_v1 (pre @ cpu_v1 c @ q) d =
    d\<lparr>regs := regs c, sregs := sregs c, flags := flags c, halted := halted c, seg_override := seg_override c\<rparr>"
    "get16 (pre @ cpu_v1 c @ q) 44 = ucast (ip c)"
proof -
  have "table 8 (\<lambda>i. get16 (pre @ cpu_v1 c @ q) (16 + i * 2)) = regs c"
    using assms(1,2) rd_tables(1) [of pre 16 "regs c" 8] by (simp add: cpu_v1_def cpu_wf_def)
  moreover have "table 6 (\<lambda>i. get16 (pre @ cpu_v1 c @ q) (32 + i * 2)) = sregs c"
    using assms(1,2) rd_tables(1) [of "pre @ concat (map le16 (regs c))" 32 "sregs c" 6] by (simp add: cpu_v1_def cpu_wf_def)
  moreover have "get16 (pre @ cpu_v1 c @ q) 46 = flags c" "(pre @ cpu_v1 c @ q) ! 48 = of_bool (halted c)"
    "(pre @ cpu_v1 c @ q) ! 49 = (case seg_override c of None \<Rightarrow> 0xFF | Some i \<Rightarrow> of_nat i)"
    and "get16 (pre @ cpu_v1 c @ q) 44 = ucast (ip c)"
    using assms(1,2) by (simp_all add: cpu_v1_def cpu_wf_def rd_simps)
  ultimately show "restore_v1 (pre @ cpu_v1 c @ q) d =
    d\<lparr>regs := regs c, sregs := sregs c, flags := flags c, halted := halted c, seg_override := seg_override c\<rparr>"
    "get16 (pre @ cpu_v1 c @ q) 44 = ucast (ip c)"
    using assms(3) by (auto simp: restore_v1_def format_lens small_index split: option.split)
qed

lemma restore_v3_image:
  assumes "length pre = 52" "cpu_wf c"
  shows "restore_v3 16 (pre @ cpu_v3 c @ q) d = d\<lparr>regs_high := regs_high c, cr0 := cr0 c, gdtr := gdtr c, idtr := idtr c\<rparr>"
proof -
  have "table 8 (\<lambda>i. get16 (pre @ cpu_v3 c @ q) (52 + i * 2)) = regs_high c"
    using assms rd_tables(1) [of pre 52 "regs_high c" 8] by (simp add: cpu_v3_def cpu_wf_def)
  moreover have "get32 (pre @ cpu_v3 c @ q) 68 = cr0 c" "get16 (pre @ cpu_v3 c @ q) 72 = dt_limit (gdtr c)"
    "get32 (pre @ cpu_v3 c @ q) 74 = dt_base (gdtr c)" "get16 (pre @ cpu_v3 c @ q) 78 = dt_limit (idtr c)"
    "get32 (pre @ cpu_v3 c @ q) 80 = dt_base (idtr c)"
    using assms by (simp_all add: cpu_v3_def cpu_wf_def rd_simps)
  ultimately show ?thesis by (simp add: restore_v3_def format_lens)
qed

lemma restore_v4_image:
  assumes "length pre = 84"
  shows "restore_v4 16 (pre @ le32 (cr3 c) @ le32 (cr2 c) @ q) d = d\<lparr>cr3 := cr3 c, cr2 := cr2 c\<rparr>"
  using assms by (simp add: restore_v4_def format_lens rd_simps)

lemma ip_halves: "ucast (ucast w :: u16) OR push_bit 16 (ucast (ucast (drop_bit 16 w) :: u16)) = (w :: u32)"
  by (rule bit_word_eqI) (auto simp: bit_simps)

lemma restore_v6_image:
  assumes "length pre = 92" "get16 (pre @ cpu_v6 c @ q) 44 = ucast (ip c)"
  shows "restore_v6 16 (pre @ cpu_v6 c @ q) d =
    d\<lparr>ip := ip c, cr4 := cr4 c, tsc := tsc c, ldtr := ldtr c, tr := tr c, a20 := a20 c, stack_size_32 := stack_size_32 c\<rparr>"
proof -
  let ?bs = "pre @ cpu_v6 c @ q"
  have "get16 ?bs 92 = ucast (drop_bit 16 (ip c))" "get32 ?bs 94 = cr4 c" "get64 ?bs 98 = tsc c" "get16 ?bs 106 = ldtr c"
    "get16 ?bs 108 = tr c" "?bs ! 110 = of_bool (a20 c)" "?bs ! 111 = of_bool (stack_size_32 c)"
    using assms(1) by (simp_all add: cpu_v6_def rd_simps)
  then show ?thesis using assms(2) by (simp add: restore_v6_def format_lens ip_halves)
qed

lemma restore_v7_image:
  assumes "length pre = 112"
  shows "restore_v7 16 (pre @ cpu_v7 c @ q) d =
    d\<lparr>fpu_sw := fpu_sw c, fpu_cw := fpu_cw c, sysenter_cs := sysenter_cs c, sysenter_esp := sysenter_esp c, sysenter_eip := sysenter_eip c\<rparr>"
proof -
  let ?bs = "pre @ cpu_v7 c @ q"
  have "get16 ?bs 112 = fpu_sw c" "get16 ?bs 114 = fpu_cw c" "get32 ?bs 116 = sysenter_cs c" "get32 ?bs 120 = sysenter_esp c"
    "get32 ?bs 124 = sysenter_eip c"
    using assms by (simp_all add: cpu_v7_def rd_simps)
  then show ?thesis by (simp add: restore_v7_def format_lens)
qed

lemma restore_v8_image:
  assumes "length pre = 128" "cpu_wf c"
  shows "restore_v8 16 (pre @ cpu_v8 c @ q) d = d\<lparr>fpu_st := map from_f64 (map to_f64 (fpu_st c)), fpu_top := fpu_top c\<rparr>"
proof -
  let ?bs = "pre @ cpu_v8 c @ q"
  have "table 8 (\<lambda>i. get64 ?bs (128 + i * 8)) = map to_f64 (fpu_st c)"
    using assms rd_tables(3) [of pre 128 "map to_f64 (fpu_st c)" 8] by (simp add: cpu_v8_def cpu_wf_def del: map_map)
  moreover have "?bs ! 192 = fpu_top c" using assms by (simp add: cpu_v8_def cpu_wf_def rd_simps del: map_map)
  ultimately show ?thesis by (simp add: restore_v8_def format_lens del: map_map)
qed

lemma restore_v9_image:
  assumes "length pre = 193" "cpu_wf c"
  shows "restore_v9 16 (pre @ cpu_v9 c @ q) d = d\<lparr>xmm := xmm c\<rparr>"
  using assms rd_tables(4) [of pre 193 "xmm c" 8] by (simp add: restore_v9_def cpu_v9_def cpu_wf_def format_lens)

lemma restore_v12_image:
  assumes "length pre = 321" "cpu_wf c"
  shows "restore_v12 16 (pre @ cpu_v12 c @ q) d =
    d\<lparr>code_size_32 := code_size_32 c, misc_enable := misc_enable c, tsc_aux := tsc_aux c, dr := dr c\<rparr>"
proof -
  let ?bs = "pre @ cpu_v12 c @ q"
  have "table 8 (\<lambda>i. get32 ?bs (334 + i * 4)) = dr c"
    using assms rd_tables(2) [of "pre @ [of_bool (code_size_32 c)] @ le64 (misc_enable c) @ le32 (tsc_aux c)" 334 "dr c" 8]
    by (simp add: cpu_v12_def cpu_wf_def)
  moreover have "?bs ! 321 = of_bool (code_size_32 c)" "get64 ?bs 322 = misc_enable c" "get32 ?bs 330 = tsc_aux c"
    using assms by (simp_all add: cpu_v12_def rd_simps del: append_Cons append_Nil)
  ultimately show ?thesis by (simp add: restore_v12_def format_lens)
qed

text \<open>What the image of \<open>c\<close> leaves in a CPU \<open>d\<close>: the rest of \<open>d\<close> stays.\<close>

definition cpu_resumed :: "cpu \<Rightarrow> cpu \<Rightarrow> cpu" where
  "cpu_resumed d c =
     d\<lparr>regs := regs c, sregs := sregs c, flags := flags c, halted := halted c, seg_override := seg_override c,
       regs_high := regs_high c, cr0 := cr0 c, gdtr := gdtr c, idtr := idtr c, cr3 := cr3 c, cr2 := cr2 c, ip := ip c,
       cr4 := cr4 c, tsc := tsc c, ldtr := ldtr c, tr := tr c, a20 := a20 c, stack_size_32 := stack_size_32 c,
       fpu_sw := fpu_sw c, fpu_cw := fpu_cw c, sysenter_cs := sysenter_cs c, sysenter_esp := sysenter_esp c,
       sysenter_eip := sysenter_eip c, fpu_st := map from_f64 (map to_f64 (fpu_st c)), fpu_top := fpu_top c, xmm := xmm c,
       code_size_32 := code_size_32 c, misc_enable := misc_enable c, tsc_aux := tsc_aux c, dr := dr c\<rparr>"

lemma restore_cpu_image:
  assumes "length pre = 16" "cpu_wf c" "\<forall>i. seg_override c = Some i \<longrightarrow> i < 6"
  shows "restore_cpu 16 (pre @ cpu_image c @ q) d = cpu_resumed d c"
proof -
  note l = length_sections [OF assms(2)]
  let ?bs = "pre @ cpu_image c @ q"
  have e: "?bs = pre @ cpu_v1 c @ drop 36 (cpu_image c) @ q"
    "?bs = (pre @ cpu_v1 c) @ cpu_v3 c @ drop 68 (cpu_image c) @ q"
    "?bs = (pre @ cpu_v1 c @ cpu_v3 c) @ le32 (cr3 c) @ le32 (cr2 c) @ drop 76 (cpu_image c) @ q"
    "?bs = (pre @ cpu_v1 c @ cpu_v3 c @ le32 (cr3 c) @ le32 (cr2 c)) @ cpu_v6 c @ drop 96 (cpu_image c) @ q"
    "?bs = (pre @ cpu_v1 c @ cpu_v3 c @ le32 (cr3 c) @ le32 (cr2 c) @ cpu_v6 c) @ cpu_v7 c @ drop 112 (cpu_image c) @ q"
    "?bs = (pre @ cpu_v1 c @ cpu_v3 c @ le32 (cr3 c) @ le32 (cr2 c) @ cpu_v6 c @ cpu_v7 c) @ cpu_v8 c @ drop 177 (cpu_image c) @ q"
    "?bs = (pre @ cpu_v1 c @ cpu_v3 c @ le32 (cr3 c) @ le32 (cr2 c) @ cpu_v6 c @ cpu_v7 c @ cpu_v8 c) @ cpu_v9 c @ drop 305 (cpu_image c) @ q"
    "?bs = (pre @ cpu_v1 c @ cpu_v3 c @ le32 (cr3 c) @ le32 (cr2 c) @ cpu_v6 c @ cpu_v7 c @ cpu_v8 c @ cpu_v9 c) @ cpu_v12 c @ q"
    using l by (simp_all add: cpu_image_def)
  note s1 = restore_v1_image [OF assms, of "drop 36 (cpu_image c) @ q", folded e(1)]
  note s3 = restore_v3_image [of "pre @ cpu_v1 c" c "drop 68 (cpu_image c) @ q", folded e(2)]
  note s4 = restore_v4_image [of "pre @ cpu_v1 c @ cpu_v3 c" c "drop 76 (cpu_image c) @ q", folded e(3)]
  note s6 = restore_v6_image [of "pre @ cpu_v1 c @ cpu_v3 c @ le32 (cr3 c) @ le32 (cr2 c)" c "drop 96 (cpu_image c) @ q", folded e(4)]
  note s7 = restore_v7_image [of "pre @ cpu_v1 c @ cpu_v3 c @ le32 (cr3 c) @ le32 (cr2 c) @ cpu_v6 c" c "drop 112 (cpu_image c) @ q", folded e(5)]
  note s8 = restore_v8_image [of "pre @ cpu_v1 c @ cpu_v3 c @ le32 (cr3 c) @ le32 (cr2 c) @ cpu_v6 c @ cpu_v7 c" c
      "drop 177 (cpu_image c) @ q", folded e(6)]
  note s9 = restore_v9_image [of "pre @ cpu_v1 c @ cpu_v3 c @ le32 (cr3 c) @ le32 (cr2 c) @ cpu_v6 c @ cpu_v7 c @ cpu_v8 c" c
      "drop 305 (cpu_image c) @ q", folded e(7)]
  note s12 = restore_v12_image [of "pre @ cpu_v1 c @ cpu_v3 c @ le32 (cr3 c) @ le32 (cr2 c) @ cpu_v6 c @ cpu_v7 c @ cpu_v8 c @ cpu_v9 c" c
      q, folded e(8)]
  show ?thesis
    unfolding restore_cpu_def s1(1) using assms l s1(2)
    by (simp only: s3 s4 s6 s7 s8 s9 s12 length_append length_le cpu_resumed_def)
qed

section \<open>The other sections restore\<close>

lemma take_section: "length a = k \<Longrightarrow> length b = n \<Longrightarrow> take n (drop k (a @ b @ q)) = b"
  by simp

lemma restore_section_at:
  assumes "length pre = off" "length data = len" "put_back m data = (m1, Inr ())"
  shows "restore_section (pre @ data @ q) off len put_back m = (m1, Inr (off + len))"
  using assms by (simp add: restore_section_def and_then_def size_error_def)

lemma periods_restore:
  assumes "length (hpet_period m) = 3" "length (hpet_period m0) = 3"
  shows "restore_hpet_period m (hpet_period_bytes m0) = (m\<lparr>hpet_period := hpet_period m0\<rparr>, Inr ())"
proof -
  obtain a b c where m: "hpet_period m = [a, b, c]" using assms(1) by (auto simp: length_Suc_conv numeral_eq_Suc)
  obtain x y z where m0: "hpet_period m0 = [x, y, z]" using assms(2) by (auto simp: length_Suc_conv numeral_eq_Suc)
  show ?thesis by (simp add: restore_hpet_period_def hpet_period_bytes_def m m0 rd_simps)
qed

definition mem_resumed :: "memory \<Rightarrow> memory \<Rightarrow> memory" where
  "mem_resumed m m0 =
     m\<lparr>mem_bytes := mem_bytes m0, mem_lapic := mem_lapic m0, mem_hpet := mem_hpet m0, hpet_period := hpet_period m0\<rparr>"

lemma restore_memory_image:
  assumes "length pre = off" "mem_wf m" "mem_wf m0" "mem_size m = mem_size m0"
  shows "restore_memory 16 (pre @ mem_bytes m0 @ mem_lapic m0 @ mem_hpet m0 @ hpet_period_bytes m0 @ q) off m =
    (mem_resumed m m0, Inr (off + mem_size m0 + 5132))"
proof -
  let ?bs = "pre @ mem_bytes m0 @ mem_lapic m0 @ mem_hpet m0 @ hpet_period_bytes m0 @ q"
  define m1 m2 m3 where "m1 = m\<lparr>mem_bytes := mem_bytes m0\<rparr>" and "m2 = m1\<lparr>mem_lapic := mem_lapic m0\<rparr>" and "m3 = m2\<lparr>mem_hpet := mem_hpet m0\<rparr>"
  note defs = m1_def m2_def m3_def
  have l: "length (mem_bytes m) = length (mem_bytes m0)" "length (mem_lapic m) = 4096" "length (mem_lapic m0) = 4096"
    "length (mem_hpet m) = 1024" "length (mem_hpet m0) = 1024" "length (hpet_period m) = 3" "length (hpet_period m0) = 3"
    using assms(2-4) by (auto simp: mem_wf_def mem_size_def)
  have full: "restore_full m (mem_bytes m0) = (m1, Inr ())" using l by (simp add: restore_full_def put_def m1_def)
  have lapic: "restore_lapic m1 (mem_lapic m0) = (m2, Inr ())" using l by (simp add: restore_lapic_def put_def defs)
  have hpet: "restore_hpet m2 (mem_hpet m0) = (m3, Inr ())" using l by (simp add: restore_hpet_def put_def defs)
  have per: "restore_hpet_period m3 (hpet_period_bytes m0) = (mem_resumed m m0, Inr ())"
    using periods_restore [of m3 m0] l by (simp add: defs mem_resumed_def)
  have lp: "length (hpet_period_bytes m0) = 12" using l by (simp add: hpet_period_bytes_def)
  have s1: "restore_section ?bs (off + mem_size m) LAPIC_LEN restore_lapic m1 = (m2, Inr (off + mem_size m0 + 4096))"
    using restore_section_at [of "pre @ mem_bytes m0" "off + mem_size m" "mem_lapic m0" 4096 restore_lapic m1 m2] lapic assms(1) l
    by (simp add: format_lens mem_size_def)
  have s2: "restore_section ?bs (off + mem_size m0 + 4096) HPET_LEN restore_hpet m2 = (m3, Inr (off + mem_size m0 + 5120))"
    using restore_section_at [of "pre @ mem_bytes m0 @ mem_lapic m0" "off + mem_size m0 + 4096" "mem_hpet m0" 1024 restore_hpet m2 m3] hpet assms(1) l
    by (simp add: format_lens mem_size_def)
  have s3: "restore_section ?bs (off + mem_size m0 + 5120) HPET_PERIOD_LEN restore_hpet_period m3 =
      (mem_resumed m m0, Inr (off + mem_size m0 + 5132))"
    using restore_section_at [of "pre @ mem_bytes m0 @ mem_lapic m0 @ mem_hpet m0" "off + mem_size m0 + 5120" "hpet_period_bytes m0" 12 restore_hpet_period m3 "mem_resumed m m0"] per
      assms(1) l lp by (simp add: format_lens mem_size_def)
  have "take (mem_size m) (drop off ?bs) = mem_bytes m0" using assms(1) l by (simp add: mem_size_def)
  then show ?thesis
    by (simp add: restore_memory_def Let_def full and_then_def size_error_def s1 s2 s3)
qed

lemma restore_devices_image:
  assumes "length pre = off" "bus_savable b0" "length (bus_snapshot b0) < 2 ^ 32" "cmos_wf (bus_cmos b)" "nic_wf (bus_nic b)"
  shows "restore_devices 16 (pre @ le32 (of_nat (length (bus_snapshot b0))) @ bus_snapshot b0 @ q) off b =
    (bus_keep b b0, Inr (off + 4 + length (bus_snapshot b0)))"
proof -
  have "get32 (pre @ le32 (of_nat (length (bus_snapshot b0))) @ bus_snapshot b0 @ q) off = of_nat (length (bus_snapshot b0))"
    using assms(1) by (simp add: rd_simps)
  moreover have "unat (of_nat (length (bus_snapshot b0)) :: u32) = length (bus_snapshot b0)"
    using assms(3) by (simp add: unat_of_nat)
  moreover have "bus_restore b (bus_snapshot b0) = (bus_keep b b0, Inr ())"
    using bus_snapshot_roundtrip [OF assms(2,4,5), of "[]"] by simp
  ultimately show ?thesis using assms(1) by (simp add: restore_devices_def Let_def)
qed

lemma segment_read:
  assumes "length p = k"
  shows "get32 (p @ segment_image s @ q) k = sc_base s" "get32 (p @ segment_image s @ q) (k + 4) = sc_limit s"
    "(p @ segment_image s @ q) ! (k + 8) = sc_access s"
  using assms by (simp_all add: segment_image_def rd_simps)

lemma read_segments_image:
  assumes "length pre = off" "length sc = 6"
  shows "read_segments 16 (pre @ concat (map segment_image sc) @ q) off = Inr (Some sc)"
proof -
  let ?bs = "pre @ concat (map segment_image sc) @ q"
  have "table 6 (\<lambda>i. \<lparr>sc_base = get32 ?bs (off + i * 9), sc_limit = get32 ?bs (off + i * 9 + 4), sc_access = ?bs ! (off + i * 9 + 8)\<rparr>) = sc"
  proof (rule table_eqI [OF assms(2)])
    fix i :: nat
    assume "i < 6"
    then have e: "?bs = (pre @ concat (map segment_image (take i sc))) @ segment_image (sc ! i) @ concat (map segment_image (drop (Suc i) sc)) @ q"
      using assms(2) by (simp add: concat_at [of i sc])
    have l: "length (pre @ concat (map segment_image (take i sc))) = off + i * 9" using assms \<open>i < 6\<close> by simp
    show "\<lparr>sc_base = get32 ?bs (off + i * 9), sc_limit = get32 ?bs (off + i * 9 + 4), sc_access = ?bs ! (off + i * 9 + 8)\<rparr> = sc ! i"
      unfolding e by (simp only: segment_read [OF l]) simp
  qed
  then show ?thesis using assms by (simp add: read_segments_def)
qed

lemma read_framebuffer_image:
  assumes "length pre = off + 54"
  shows "read_framebuffer 16 (pre @ fb_image f) off = Inr (Some f)"
  using assms by (cases f) (simp_all add: read_framebuffer_def fb_image_def Let_def rd_simps)

section \<open>Whole snapshots\<close>

definition vm_savable :: "vm \<Rightarrow> bool" where
  "vm_savable v \<longleftrightarrow> cpu_wf (vm_cpu v) \<and> mem_wf (vm_mem v) \<and> bus_savable (vm_io v) \<and>
     (\<forall>i. seg_override (vm_cpu v) = Some i \<longrightarrow> i < 6) \<and> length (bus_snapshot (vm_io v)) < 2 ^ 32"

definition vm_target :: "vm \<Rightarrow> bool" where
  "vm_target v \<longleftrightarrow> mem_wf (vm_mem v) \<and> cmos_wf (bus_cmos (vm_io v)) \<and> nic_wf (bus_nic (vm_io v))"

text \<open>
  What restoring the snapshot of \<open>v0\<close> into \<open>v\<close> gives.  Of \<open>v\<close> remain, in the CPU, the upper half of EFLAGS, the MMX registers,
  EFER, the operand-size flags, the pending fault and the translation caches, in memory the pending LAPIC vector, on the
  bus what \<open>bus_keep\<close> lists; the x87 registers pass through f64.
\<close>

definition resumed :: "vm \<Rightarrow> vm \<Rightarrow> vm" where
  "resumed v v0 =
     (with_cpu (with_io (with_mem v (mem_resumed (vm_mem v) (vm_mem v0))) (bus_keep (vm_io v) (vm_io v0)))
        ((cpu_resumed (vm_cpu v) (vm_cpu v0))\<lparr>seg_cache := seg_cache (vm_cpu v0)\<rparr>))
       \<lparr>vm_fb := vm_fb v0, vm_booted := True\<rparr>"

lemma length_header: "length snapshot_header = 16" "take (length MAGIC) (snapshot_header @ q) = MAGIC"
  "(snapshot_header @ q) ! length MAGIC = 16"
  by (simp_all add: snapshot_header_def MAGIC_def VERSION_def)

lemma length_fb_image: "length (fb_image f) = (if f = None then 1 else 23)"
  by (cases f) (simp_all add: fb_image_def)

lemma length_snapshot:
  assumes "vm_savable v"
  shows "length (snapshot v) = mem_size (vm_mem v) + 5556 + length (bus_snapshot (vm_io v)) + length (fb_image (vm_fb v))"
  using assms length_sections [of "vm_cpu v"]
  by (auto simp: vm_savable_def snapshot_def Let_def length_header mem_wf_def mem_size_def hpet_period_bytes_def cpu_wf_def)

lemma restore_snapshot:
  assumes "vm_savable v0" "vm_target v" "mem_size (vm_mem v) = mem_size (vm_mem v0)"
  shows "restore v (snapshot v0) = (resumed v v0, Inr ())"
proof -
  let ?c = "vm_cpu v0" let ?m = "vm_mem v0" let ?b = "vm_io v0" let ?bs = "snapshot v0"
  have w: "cpu_wf ?c" "mem_wf ?m" "bus_savable ?b" "length (bus_snapshot ?b) < 2 ^ 32" "\<forall>i. seg_override ?c = Some i \<longrightarrow> i < 6"
    using assms(1) by (auto simp: vm_savable_def)
  have t: "mem_wf (vm_mem v)" "cmos_wf (bus_cmos (vm_io v))" "nic_wf (bus_nic (vm_io v))" using assms(2) by (auto simp: vm_target_def)
  let ?hc = "snapshot_header @ cpu_image ?c"
  let ?ms = "mem_bytes ?m @ mem_lapic ?m @ mem_hpet ?m @ hpet_period_bytes ?m"
  let ?dv = "le32 (of_nat (length (bus_snapshot ?b))) @ bus_snapshot ?b"
  let ?sg = "concat (map segment_image (seg_cache ?c))"
  have lc: "length (cpu_image ?c) = 350" using length_sections [OF w(1)] by simp
  have l: "length ?hc = 366" "length (?hc @ ?ms) = 366 + mem_size ?m + 5132" "length ?sg = 54"
    "length (?hc @ ?ms @ ?dv) = 366 + mem_size ?m + 5132 + 4 + length (bus_snapshot ?b)"
    using w(1,2) lc by (auto simp: length_header mem_wf_def mem_size_def hpet_period_bytes_def cpu_wf_def)
  have e: "?bs = snapshot_header @ cpu_image ?c @ ?ms @ ?dv @ ?sg @ fb_image (vm_fb v0)"
    "?bs = ?hc @ mem_bytes ?m @ mem_lapic ?m @ mem_hpet ?m @ hpet_period_bytes ?m @ ?dv @ ?sg @ fb_image (vm_fb v0)"
    "?bs = (?hc @ ?ms) @ le32 (of_nat (length (bus_snapshot ?b))) @ bus_snapshot ?b @ ?sg @ fb_image (vm_fb v0)"
    "?bs = (?hc @ ?ms @ ?dv) @ ?sg @ fb_image (vm_fb v0)" "?bs = (?hc @ ?ms @ ?dv @ ?sg) @ fb_image (vm_fb v0)"
    by (simp_all add: snapshot_def Let_def)
  have cpu: "restore_cpu 16 ?bs d = cpu_resumed d ?c" for d
    unfolding e(1) by (rule restore_cpu_image [OF length_header(1) w(1) w(5)])
  have mem: "restore_memory 16 ?bs 366 (vm_mem v) = (mem_resumed (vm_mem v) ?m, Inr (366 + mem_size ?m + 5132))"
    unfolding e(2) by (rule restore_memory_image [OF l(1) t(1) w(2) assms(3)])
  have dev: "restore_devices 16 ?bs (366 + mem_size ?m + 5132) (vm_io v) =
      (bus_keep (vm_io v) ?b, Inr (366 + mem_size ?m + 5132 + 4 + length (bus_snapshot ?b)))"
    unfolding e(3) by (rule restore_devices_image [OF l(2) w(3,4) t(2,3)])
  have seg: "read_segments 16 ?bs (366 + mem_size ?m + 5132 + 4 + length (bus_snapshot ?b)) = Inr (Some (seg_cache ?c))"
    unfolding e(4) using read_segments_image [OF l(4)] w(1) by (simp add: cpu_wf_def)
  have fb: "read_framebuffer 16 ?bs (366 + mem_size ?m + 5132 + 4 + length (bus_snapshot ?b)) = Inr (Some (vm_fb v0))"
    unfolding e(5) by (rule read_framebuffer_image) (use l in simp)
  have n: "366 + mem_size ?m \<le> length ?bs" using length_snapshot [OF assms(1)] by simp
  have h: "take (length MAGIC) ?bs = MAGIC" "?bs ! length MAGIC = 16" unfolding e(1) by (rule length_header)+
  have k: "HEADER_LEN + CPU_LEN = 52" "HEADER_LEN + cpu_image_len 16 = 366" by (simp_all add: cpu_image_len_def format_lens)
  define d1 d2 where "d1 = 366 + mem_size ?m + 5132" and "d2 = d1 + 4 + length (bus_snapshot ?b)"
  note parts = mem [folded d1_def] dev [folded d1_def, folded d2_def] seg [folded d1_def, folded d2_def] fb [folded d1_def, folded d2_def]
  have "vm_cpu (with_io (with_mem v x) y) = vm_cpu v" for x y by (simp add: with_mem_def with_io_def)
  then show ?thesis
    using n assms(3) unfolding restore_def Let_def k h by (simp add: k parts cpu commit_def resumed_def)
qed

section \<open>Saving again\<close>

lemma bus_snapshot_keep: "bus_snapshot (bus_keep b b0) = bus_snapshot b0"
  by (simp add: bus_snapshot_def bus_keep_def uart_snapshot_def uart_keep_def pic_snapshot_def pic_keep_def pit_snapshot_def
      pit_keep_def kbd_snapshot_def kbd_keep_def cmos_snapshot_def cmos_keep_def ata_snapshot_def ata_keep_def pci_keep_def
      nic_snapshot_def nic_keep_def Let_def)

lemma snapshot_resumed: "snapshot (resumed v v0) = snapshot v0"
proof -
  have "cpu_image (cpu_resumed d c\<lparr>seg_cache := x\<rparr>) = cpu_image c" for d c x
    by (simp add: cpu_image_def cpu_v1_def cpu_v3_def cpu_v6_def cpu_v7_def cpu_v8_def cpu_v9_def cpu_v12_def cpu_resumed_def
        to_f64_stable comp_def)
  then show ?thesis
    by (simp add: snapshot_def resumed_def with_cpu_def with_io_def with_mem_def bus_snapshot_keep mem_resumed_def hpet_period_bytes_def)
qed

section \<open>Truncated snapshots\<close>

lemma restore_section_ram:
  assumes "\<And>d. mem_bytes (fst (put_back m d)) = mem_bytes m"
  shows "mem_bytes (fst (restore_section bs off len put_back m)) = mem_bytes m"
    "snd (restore_section bs off len put_back m) = Inr e \<Longrightarrow> e = off + len \<and> e \<le> length bs"
  using assms [of "take len (drop off bs)"]
  by (auto simp: restore_section_def and_then_def apsnd_def map_prod_def split: prod.splits sum.splits if_splits)

lemma put_back_ram:
  "mem_bytes (fst (restore_lapic m d)) = mem_bytes m" "mem_bytes (fst (restore_hpet m d)) = mem_bytes m"
  "mem_bytes (fst (restore_hpet_period m d)) = mem_bytes m"
  by (simp_all add: restore_lapic_def restore_hpet_def restore_hpet_period_def)

lemmas sections_ram = restore_section_ram [of restore_lapic, OF put_back_ram(1)] restore_section_ram [of restore_hpet, OF put_back_ram(2)]
  restore_section_ram [of restore_hpet_period, OF put_back_ram(3)]

lemma restore_memory_ram:
  assumes "off + mem_size m \<le> length bs"
  shows "mem_bytes (fst (restore_memory 16 bs off m)) = take (mem_size m) (drop off bs)"
    "snd (restore_memory 16 bs off m) = Inr e \<Longrightarrow> e = off + mem_size m + 5132 \<and> e \<le> length bs"
proof -
  let ?ram = "take (mem_size m) (drop off bs)"
  define m1 where "m1 = m\<lparr>mem_bytes := ?ram\<rparr>"
  have full: "restore_full m ?ram = (m1, Inr ())"
    using assms by (simp add: restore_full_def put_def m1_def mem_size_def)
  obtain m2 r2 where s2: "restore_section bs (off + mem_size m) LAPIC_LEN restore_lapic m1 = (m2, r2)" by fastforce
  obtain m3 r3 where s3: "restore_section bs (off + mem_size m + LAPIC_LEN) HPET_LEN restore_hpet m2 = (m3, r3)" by fastforce
  obtain m4 r4 where s4: "restore_section bs (off + mem_size m + LAPIC_LEN + HPET_LEN) HPET_PERIOD_LEN restore_hpet_period m3 = (m4, r4)" by fastforce
  note s = sections_ram(1,2) [of bs "off + mem_size m" LAPIC_LEN m1, unfolded s2]
    sections_ram(3,4) [of bs "off + mem_size m + LAPIC_LEN" HPET_LEN m2, unfolded s3]
    sections_ram(5,6) [of bs "off + mem_size m + LAPIC_LEN + HPET_LEN" HPET_PERIOD_LEN m3, unfolded s4]
  have r: "restore_memory 16 bs off m =
      (case r2 of Inl e \<Rightarrow> (m2, Inl e) | Inr _ \<Rightarrow> (case r3 of Inl e \<Rightarrow> (m3, Inl e) | Inr _ \<Rightarrow> (m4, r4)))"
    using s(2,4) s2 s3 s4
    by (auto simp: restore_memory_def Let_def full and_then_def size_error_def split: sum.splits)
  show "mem_bytes (fst (restore_memory 16 bs off m)) = ?ram"
    using s(1,3,5) by (simp add: r m1_def split: sum.split)
  show "snd (restore_memory 16 bs off m) = Inr e \<Longrightarrow> e = off + mem_size m + 5132 \<and> e \<le> length bs"
    using s(6) by (auto simp: r format_lens split: sum.splits)
qed

lemma restore_devices_len:
  "snd (restore_devices 16 bs off b) = Inr e \<Longrightarrow> off + 4 \<le> length bs \<and> e = off + 4 + unat (get32 bs off) \<and> e \<le> length bs"
  by (auto simp: restore_devices_def Let_def split: if_splits prod.splits sum.splits)

lemma read_segments_len: "read_segments 16 bs off = Inr sc \<Longrightarrow> off + 54 \<le> length bs"
  by (auto simp: read_segments_def split: if_splits)

lemma read_framebuffer_len:
  "read_framebuffer 16 bs off = Inr f \<Longrightarrow> off + 55 \<le> length bs \<and> (bs ! (off + 54) \<noteq> 0 \<longrightarrow> off + 77 \<le> length bs)"
  by (auto simp: read_framebuffer_def Let_def split: if_splits)

text \<open>Restoring version 16, with the checks that cannot fail resolved.\<close>

lemma restore_16:
  assumes "366 + mem_size (vm_mem v) \<le> length bs" "take 6 bs = MAGIC" "bs ! 6 = 16"
    and "restore_memory 16 bs 366 (vm_mem v) = (m, r)"
  shows "restore v bs =
    (case r of Inl e \<Rightarrow> (with_mem v m, Inl e) | Inr mmio_end \<Rightarrow>
      (case restore_devices 16 bs mmio_end (vm_io v) of (b, Inl e) \<Rightarrow> (with_io (with_mem v m) b, Inl e) | (b, Inr seg_end) \<Rightarrow>
        (case read_segments 16 bs seg_end of Inl e \<Rightarrow> (with_io (with_mem v m) b, Inl e) | Inr cache \<Rightarrow>
          (case read_framebuffer 16 bs seg_end of Inl e \<Rightarrow> (with_io (with_mem v m) b, Inl e)
           | Inr fb \<Rightarrow> (commit 16 bs cache fb (with_io (with_mem v m) b), Inr ())))))"
proof -
  have k: "HEADER_LEN + CPU_LEN = 52" "HEADER_LEN + cpu_image_len 16 = 366" "length MAGIC = 6"
    by (simp_all add: cpu_image_len_def format_lens MAGIC_def)
  have ver: "unat (bs ! 6) = 16" using assms(3) by simp
  show ?thesis
    using assms unfolding restore_def Let_def k ver by (simp add: k split: sum.split)
qed

lemma restore_ram:
  assumes "366 + mem_size (vm_mem v) \<le> length bs" "take 6 bs = MAGIC" "bs ! 6 = 16"
  shows "mem_bytes (vm_mem (fst (restore v bs))) = take (mem_size (vm_mem v)) (drop 366 bs)"
proof -
  obtain m r where mr: "restore_memory 16 bs 366 (vm_mem v) = (m, r)" by fastforce
  have "vm_mem (with_mem v m) = m" "vm_mem (with_io (with_mem v m) b) = m"
    "vm_mem (commit 16 bs cache fb (with_io (with_mem v m) b)) = m" for b cache fb
    by (simp_all add: with_mem_def with_io_def commit_def with_cpu_def Let_def)
  then show ?thesis
    using restore_memory_ram(1) [OF assms(1)] mr
    unfolding restore_16 [OF assms mr] by (simp split: sum.split prod.split)
qed

lemma restore_length:
  fixes v bs
  defines "d \<equiv> 366 + mem_size (vm_mem v) + 5132"
  assumes "366 + mem_size (vm_mem v) \<le> length bs" "take 6 bs = MAGIC" "bs ! 6 = 16" "snd (restore v bs) = Inr u"
  shows "d + 4 \<le> length bs \<and> d + 4 + unat (get32 bs d) + 55 \<le> length bs \<and>
    (bs ! (d + 4 + unat (get32 bs d) + 54) \<noteq> 0 \<longrightarrow> d + 4 + unat (get32 bs d) + 77 \<le> length bs)"
proof -
  obtain m r where mr: "restore_memory 16 bs 366 (vm_mem v) = (m, r)" by fastforce
  note ok = assms(5) [unfolded restore_16 [OF assms(2-4) mr]]
  obtain e where e: "r = Inr e" using ok by (cases r) auto
  have "e = d" using restore_memory_ram(2) [OF assms(2), of e] mr e by (simp add: d_def)
  obtain b rb where b: "restore_devices 16 bs d (vm_io v) = (b, rb)" by fastforce
  obtain e2 where e2: "rb = Inr e2" using ok b e \<open>e = d\<close> by (cases rb) auto
  have d2: "d + 4 \<le> length bs \<and> e2 = d + 4 + unat (get32 bs d)" using restore_devices_len [of bs d "vm_io v" e2] b e2 by simp
  obtain sc where sc: "read_segments 16 bs e2 = Inr sc" using ok b e e2 \<open>e = d\<close> by (cases "read_segments 16 bs e2") auto
  obtain f where f: "read_framebuffer 16 bs e2 = Inr f" using ok b e e2 sc \<open>e = d\<close> by (cases "read_framebuffer 16 bs e2") auto
  show ?thesis using read_framebuffer_len [OF f] d2 by simp
qed

lemma restore_short:
  assumes "length bs < 366 + mem_size (vm_mem v)" "52 \<le> length bs \<Longrightarrow> bs ! 6 = 16"
  shows "fst (restore v bs) = v \<and> (\<exists>e. snd (restore v bs) = Inl e)"
proof -
  have k: "HEADER_LEN + CPU_LEN = 52" "HEADER_LEN + cpu_image_len 16 = 366" "length MAGIC = 6"
    by (simp_all add: cpu_image_len_def format_lens MAGIC_def)
  show ?thesis using assms unfolding restore_def Let_def k by (auto simp: k)
qed

lemma snapshot_prefix:
  assumes "6 < k"
  shows "take 6 (take k (snapshot v)) = MAGIC" "take k (snapshot v) ! 6 = 16"
proof -
  obtain q where q: "snapshot v = snapshot_header @ q" by (simp add: snapshot_def Let_def)
  have m: "length MAGIC = 6" by (simp add: MAGIC_def)
  show "take 6 (take k (snapshot v)) = MAGIC" "take k (snapshot v) ! 6 = 16"
    unfolding q using length_header(2,3) [of q, unfolded m] assms by (simp_all only: take_take min.absorb1 less_imp_le nth_take)
qed

lemma restore_truncated:
  assumes "vm_savable v0" "mem_size (vm_mem v) = mem_size (vm_mem v0)" "k < length (snapshot v0)"
  shows "\<exists>e. snd (restore v (take k (snapshot v0))) = Inl e"
proof (rule ccontr)
  assume "\<nexists>e. snd (restore v (take k (snapshot v0))) = Inl e"
  then obtain u where ok: "snd (restore v (take k (snapshot v0))) = Inr u" by (cases "snd (restore v (take k (snapshot v0)))") auto
  let ?bs = "take k (snapshot v0)" let ?m = "vm_mem v0" let ?b = "vm_io v0"
  define d where "d = 366 + mem_size ?m + 5132"
  define n where "n = length (bus_snapshot ?b)"
  have len: "length ?bs = k" using assms(3) by simp
  have k: "366 + mem_size ?m \<le> k"
  proof (rule ccontr)
    assume "\<not> 366 + mem_size ?m \<le> k"
    then have s: "length ?bs < 366 + mem_size (vm_mem v)" using len assms(2) by simp
    have "?bs ! 6 = 16" if "52 \<le> length ?bs" using snapshot_prefix(2) [of k v0] that len by simp
    from restore_short [OF s this] ok show False by auto
  qed
  have "6 < k" using k by simp
  note h = snapshot_prefix [OF this, of v0]
  have kl: "366 + mem_size (vm_mem v) \<le> length ?bs" using k len assms(2) by simp
  note r = restore_length [OF kl h ok, unfolded assms(2) len, folded d_def]
  have w: "cpu_wf (vm_cpu v0)" "mem_wf ?m" "n < 2 ^ 32" using assms(1) by (auto simp: vm_savable_def n_def)
  let ?hm = "snapshot_header @ cpu_image (vm_cpu v0) @ mem_bytes ?m @ mem_lapic ?m @ mem_hpet ?m @ hpet_period_bytes ?m"
  let ?sg = "concat (map segment_image (seg_cache (vm_cpu v0)))"
  have lh: "length ?hm = d" "length ?sg = 54"
    using w(1,2) length_sections(8) [OF w(1)] by (auto simp: length_header mem_wf_def mem_size_def hpet_period_bytes_def d_def cpu_wf_def)
  have full: "snapshot v0 = ?hm @ le32 (of_nat n) @ bus_snapshot ?b @ ?sg @ fb_image (vm_fb v0)"
    by (simp add: snapshot_def Let_def n_def)
  have g: "get32 (snapshot v0) d = of_nat n" unfolding full using lh(1) by (simp add: rd_simps del: append_assoc)
  have dk: "d + 4 \<le> k" using r k by auto
  have "get32 ?bs d = get32 (snapshot v0) d"
    using dk by (simp add: get32_def)
  then have un: "unat (get32 ?bs d) = n" using g w(3) by (simp add: unat_of_nat)
  have fb: "snapshot v0 ! (d + 4 + n + 54) = fb_image (vm_fb v0) ! 0"
  proof -
    have "snapshot v0 = (?hm @ le32 (of_nat n) @ bus_snapshot ?b @ ?sg) @ fb_image (vm_fb v0)" by (simp add: full)
    moreover have "length (?hm @ le32 (of_nat n) @ bus_snapshot ?b @ ?sg) = d + 4 + n + 54" using lh by (simp add: n_def)
    ultimately show ?thesis by (metis rd_skip(1) diff_self_eq_0 order_refl)
  qed
  have l: "length (snapshot v0) = d + 4 + n + 54 + length (fb_image (vm_fb v0))"
    using length_snapshot [OF assms(1)] by (simp add: d_def n_def)
  have "d + 4 + n + 55 \<le> k" "?bs ! (d + 4 + n + 54) \<noteq> 0 \<longrightarrow> d + 4 + n + 77 \<le> k" using r un k by auto
  then show False using l fb assms(3) by (cases "vm_fb v0") (auto simp: fb_image_def)
qed

section \<open>Properties\<close>

lemma ram_region_inside:
  assumes "snapshot_ram_region v = (off, len)" "cpu_wf (vm_cpu v)"
  shows "off + len \<le> length (snapshot v)"
  using assms length_sections [of "vm_cpu v"] by (auto simp: snapshot_ram_region_def snapshot_def Let_def mem_size_def length_header format_lens)

lemma fresh_devices: "length (bus_snapshot bus_new) < 0x10000"
proof -
  have "tx_buffer (bus_uart bus_new) = []" "rx_buffer (bus_uart bus_new) = []" "kbd_queue (bus_kbd bus_new) = []"
    "ata_buf (bus_ata bus_new) = []" "ata_buf (bus_ata2 bus_new) = []"
    by (simp_all add: bus_new_def with_uart_def uart_com1_def uart_new_def kbd_new_def ata_new_def ata_with_port_base_def)
  then show ?thesis
    using bus_snapshot_roundtrip_witness by (simp add: bus_savable_def bus_snapshot_def uart_snapshot_def pic_snapshot_def pit_snapshot_length kbd_snapshot_def
        cmos_snapshot_def ata_snapshot_def pci_snapshot_def nic_snapshot_def cmos_wf_def nic_wf_def)
qed

lemma fresh_vm: "vm_savable (with_ram_size w n)" "vm_target (with_ram_size w n)" "mem_size (vm_mem (with_ram_size w n)) = n"
proof -
  have b: "bus_savable bus_new" using bus_snapshot_roundtrip_witness by blast
  have "length (bus_snapshot bus_new) < 2 ^ 32" using fresh_devices by simp
  then show "vm_savable (with_ram_size w n)"
    using b cpu_wf_new by (simp add: vm_savable_def with_ram_size_def cpu_new_def)
  show "vm_target (with_ram_size w n)" using bus_new_wf by (simp add: vm_target_def with_ram_size_def bus_wf_def cmos_ok_def)
  show "mem_size (vm_mem (with_ram_size w n)) = n" by (simp add: with_ram_size_def mem_size_def mem_new_def)
qed



text \<open>
  C20: The self-contained export restores, and unlike the raw snapshot it is all or nothing.  For a savable machine
  whose snapshot is below 4 GiB the export succeeds, restoring the buffer gives the same machine as restoring the raw
  snapshot, and restoring any proper prefix of the buffer is an error that leaves the target machine as it was.
\<close>

theorem vm_export_roundtrip:
  assumes "vm_savable v0" "vm_target v" "mem_size (vm_mem v) = mem_size (vm_mem v0)"
    and "length (snapshot v0) < 2 ^ 32" "\<And>c. length (blake3 c) = 32"
  shows "\<exists>buf. snapshot_export blake3 v0 = Some buf \<and> restore_export v buf = (resumed v v0, Inr ()) \<and>
    (\<forall>k < length buf. restore_export v (take k buf) = (v, Inl (TooSmall k 0)))"
proof -
  obtain off len where r: "snapshot_ram_region v0 = (off, len)" by fastforce
  have "off + len \<le> length (snapshot v0)" using ram_region_inside [OF r] assms(1) by (simp add: vm_savable_def)
  from export_roundtrip [of off len "snapshot v0" blake3, OF this assms(4,5)]
  show ?thesis using restore_snapshot [OF assms(1-3)] by (auto simp: snapshot_export_def restore_export_def r)
qed

theorem vm_export_roundtrip_witness:
  "\<exists>buf. snapshot_export toy_hash (with_ram_size (Some (1, 2)) 64) = Some buf \<and>
     snd (restore_export (with_ram_size None 64) buf) = Inr ()"
proof -
  have h: "length (toy_hash c) = 32" for c by (simp add: toy_hash_def)
  have "length (snapshot (with_ram_size (Some (1, 2)) 64)) < 2 ^ 32"
    using fresh_devices fresh_vm(1) [of "Some (1, 2)" 64] length_sections(8) [of cpu_new]
    by (simp add: snapshot_def Let_def with_ram_size_def vm_savable_def length_header mem_new_def mem_wf_def hpet_period_bytes_def cpu_wf_def fb_image_def)
  from vm_export_roundtrip [of "with_ram_size (Some (1, 2)) 64" "with_ram_size None 64" toy_hash, OF fresh_vm(1,2) _ this h]
  show ?thesis by (auto simp: fresh_vm(3))
qed

text \<open>
  C19: A truncated snapshot is an error, but not harmless.  Every proper prefix of a snapshot is rejected; a prefix that
  ends before the end of the RAM section leaves the machine untouched, a longer one has already replaced its RAM by
  the saved one when the error is reported.
\<close>

theorem restore_error_partial:
  assumes "vm_savable v0" "mem_size (vm_mem v) = mem_size (vm_mem v0)" "k < length (snapshot v0)"
  shows "(\<exists>e. snd (restore v (take k (snapshot v0))) = Inl e) \<and>
    (if k < 366 + mem_size (vm_mem v0) then fst (restore v (take k (snapshot v0))) = v
     else mem_bytes (vm_mem (fst (restore v (take k (snapshot v0))))) = mem_bytes (vm_mem v0))"
proof (intro conjI restore_truncated [OF assms])
  let ?bs = "take k (snapshot v0)"
  have len: "length ?bs = k" using assms(3) by simp
  have "fst (restore v ?bs) = v" if "k < 366 + mem_size (vm_mem v0)"
  proof -
    have s: "length ?bs < 366 + mem_size (vm_mem v)" using that len assms(2) by simp
    have "?bs ! 6 = 16" if "52 \<le> length ?bs" using snapshot_prefix(2) [of k v0] that len by simp
    from restore_short [OF s this] show ?thesis by blast
  qed
  moreover have "mem_bytes (vm_mem (fst (restore v ?bs))) = mem_bytes (vm_mem v0)" if "\<not> k < 366 + mem_size (vm_mem v0)"
  proof -
    have k: "366 + mem_size (vm_mem v) \<le> length ?bs" "6 < k" using that len assms(2) by simp_all
    obtain q where q: "snapshot v0 = (snapshot_header @ cpu_image (vm_cpu v0)) @ mem_bytes (vm_mem v0) @ q"
      by (simp add: snapshot_def Let_def)
    have "length (snapshot_header @ cpu_image (vm_cpu v0)) = 366"
      using assms(1) length_sections(8) length_header(1) by (simp add: vm_savable_def)
    then have "drop 366 (snapshot v0) = mem_bytes (vm_mem v0) @ q" unfolding q by simp
    moreover have "mem_size (vm_mem v) \<le> k - 366" using k(1) unfolding len by linarith
    ultimately have "take (mem_size (vm_mem v)) (drop 366 ?bs) = mem_bytes (vm_mem v0)"
      using assms(2) by (simp add: drop_take mem_size_def)
    then show ?thesis using restore_ram [OF k(1) snapshot_prefix [OF k(2)]] by simp
  qed
  ultimately show "if k < 366 + mem_size (vm_mem v0) then fst (restore v ?bs) = v
     else mem_bytes (vm_mem (fst (restore v ?bs))) = mem_bytes (vm_mem v0)" by simp
qed

theorem restore_error_partial_witness:
  "\<exists>e. snd (restore (with_ram_size None 64) (take 500 (snapshot (with_ram_size None 64)))) = Inl e"
proof -
  have "500 < length (snapshot (with_ram_size None 64))" using length_snapshot [OF fresh_vm(1)] by simp
  from restore_error_partial [OF fresh_vm(1) refl this] show ?thesis by blast
qed

text \<open>
  Restoring keeps the target's translation caches.  Into a machine with empty caches the result has coherent caches;
  but a page cached in the target before the restore is still translated by the cached entry afterwards, whatever
  the restored page tables say.
\<close>

theorem restore_keeps_translations:
  assumes "vm_savable v0" "vm_target v" "mem_size (vm_mem v) = mem_size (vm_mem v0)"
  defines "r \<equiv> fst (restore v (snapshot v0))"
  shows "(read_tlb (vm_cpu v) = replicate RW_TLB_WAYS None \<and> write_tlb (vm_cpu v) = replicate RW_TLB_WAYS None \<and> fetch_tlb (vm_cpu v) = None
       \<longrightarrow> tlb_coherent (vm_cpu r) (vm_mem r)) \<and>
     (cr0 (vm_cpu v0) AND 0x80000000 \<noteq> 0 \<longrightarrow>
      read_tlb (vm_cpu v) ! rw_tlb_index (lin AND 0xFFFFF000) = Some (lin AND 0xFFFFF000, frame, a20 (vm_cpu v0)) \<longrightarrow>
      fst (translate (vm_cpu r) (vm_mem r) lin) = frame OR (lin AND 0xFFF))"
proof -
  have r: "r = resumed v v0" using restore_snapshot [OF assms(1-3)] by (simp add: r_def)
  then have c: "read_tlb (vm_cpu r) = read_tlb (vm_cpu v)" "write_tlb (vm_cpu r) = write_tlb (vm_cpu v)"
    "fetch_tlb (vm_cpu r) = fetch_tlb (vm_cpu v)" "cr0 (vm_cpu r) = cr0 (vm_cpu v0)" "a20 (vm_cpu r) = a20 (vm_cpu v0)"
    by (simp_all add: resumed_def with_cpu_def with_io_def with_mem_def cpu_resumed_def)
  show ?thesis
    by (auto simp: tlb_coherent_def entry_ok_def translate_def c Let_def list_all_iff)
qed

definition paging_vm :: vm where
  "paging_vm = with_cpu (with_ram_size None 64) (cpu_new\<lparr>cr0 := 0x80000000\<rparr>)"

definition cached_vm :: vm where
  "cached_vm = with_cpu (with_ram_size None 64) (cpu_new\<lparr>read_tlb := (replicate RW_TLB_WAYS None)[0 := Some (0, 0x5000, True)]\<rparr>)"

theorem restore_keeps_translations_witness:
  "fst (translate (vm_cpu (fst (restore cached_vm (snapshot paging_vm)))) (vm_mem (fst (restore cached_vm (snapshot paging_vm)))) 0x123) = 0x5123"
proof -
  have f: "vm_savable paging_vm" "vm_target cached_vm" "mem_size (vm_mem cached_vm) = mem_size (vm_mem paging_vm)"
    using fresh_vm [of None 64]
    by (simp_all add: vm_savable_def vm_target_def paging_vm_def cached_vm_def with_cpu_def with_ram_size_def cpu_wf_def cpu_new_def)
  have t: "read_tlb (vm_cpu cached_vm) ! rw_tlb_index (0x123 AND 0xFFFFF000) = Some (0x123 AND 0xFFFFF000, 0x5000, a20 (vm_cpu paging_vm))"
    "cr0 (vm_cpu paging_vm) AND 0x80000000 \<noteq> 0"
    by (simp_all add: cached_vm_def paging_vm_def with_cpu_def rw_tlb_index_def cpu_new_def RW_TLB_WAYS_def)
  from restore_keeps_translations [OF f, of "0x123" "0x5000"] t show ?thesis by simp
qed

end
