(* ===== verification/VmMachine.thy ===== *)
theory VmMachine
  imports VmSnapshot VmScreen VmLoad VmClock Scancode
begin

unbundle bit_operations_syntax

text \<open>
  The host's interface to the virtual machine (\<^verbatim>\<open>Vm\<close> of \<^verbatim>\<open>crates/vm/src/lib.rs\<close>): loading images, booting, the
  protected-mode and real-mode kernel entries, the framebuffer, input and output, network frames, the run loops and
  the bundled demos.  The main results: whatever the host calls and the guest runs, restoring untrusted snapshots
  included, the machine stays well formed; the run loops stop for the reason they report and a budget can be split;
  the protected-mode entry is the state and memory map the boot protocol asks for.
\<close>

section \<open>Loading and booting\<close>

definition BOOT_LOAD_ADDR :: u32 where "BOOT_LOAD_ADDR = 0x7C00"
definition VIDEO_TYPE_VLFB :: u8 where "VIDEO_TYPE_VLFB = 0x23"
definition VIDEO_TYPE_EFI :: u8 where "VIDEO_TYPE_EFI = 0x70"

definition on_machine :: "vm \<Rightarrow> 'a exec \<Rightarrow> 'a \<times> vm" where
  "on_machine v f = (case run_state f (vm_machine v) of (x, s) \<Rightarrow> (x, v\<lparr>vm_machine := s\<rparr>))"

definition load_image :: "vm \<Rightarrow> u32 \<Rightarrow> bytes \<Rightarrow> vm" where
  "load_image v addr bs = with_mem v (write_slice (vm_mem v) addr bs)"

definition set_ivt :: "vm \<Rightarrow> u8 \<Rightarrow> u16 \<Rightarrow> u16 \<Rightarrow> vm" where
  "set_ivt v vector segment offset =
     (let base = ucast vector * 4 in
      with_mem v (write_u16 (write_u16 (vm_mem v) base offset) (base + 2) segment))"

definition load_disk_image :: "vm \<Rightarrow> bytes \<Rightarrow> vm" where
  "load_disk_image v bs =
     with_io v ((vm_io v)\<lparr>bus_ata := (bus_ata (vm_io v))\<lparr>ata_disk := disk_load (ata_disk (bus_ata (vm_io v))) bs\<rparr>\<rparr>)"

definition load_secondary_disk_image :: "vm \<Rightarrow> bytes \<Rightarrow> vm" where
  "load_secondary_disk_image v bs =
     with_io v ((vm_io v)\<lparr>bus_ata2 := (bus_ata2 (vm_io v))\<lparr>ata_disk := disk_load (ata_disk (bus_ata2 (vm_io v))) bs\<rparr>\<rparr>)"

definition load_elf_image :: "vm \<Rightarrow> bytes \<Rightarrow> vm \<times> (elf_error + u32)" where
  "load_elf_image v bs = (case load_elf (vm_mem v) bs of (m, r) \<Rightarrow> (with_mem v m, r))"

definition vm_load_bzimage :: "vm \<Rightarrow> bytes \<Rightarrow> vm \<times> (bz_error + bzimage)" where
  "vm_load_bzimage v bs = (case load_bzimage (vm_mem v) bs of (m, r) \<Rightarrow> (with_mem v m, r))"

definition vm_set_kernel_cmdline :: "vm \<Rightarrow> bytes \<Rightarrow> vm" where
  "vm_set_kernel_cmdline v cmdline = with_mem v (set_kernel_cmdline (vm_mem v) cmdline)"

definition vm_set_ramdisk :: "vm \<Rightarrow> bytes \<Rightarrow> vm \<times> (bz_error + unit)" where
  "vm_set_ramdisk v bs = (case set_ramdisk (vm_mem v) bs of (m, r) \<Rightarrow> (with_mem v m, r))"

definition set_autorun_commands :: "vm \<Rightarrow> bytes list \<Rightarrow> vm" where
  "set_autorun_commands v commands = v\<lparr>vm_autorun := concat (map (\<lambda>cmd. cmd @ [0x0A]) commands)\<rparr>"

text \<open>The end of every boot path: the queued commands go to the serial port.\<close>

definition deliver_autorun :: "vm \<Rightarrow> vm" where
  "deliver_autorun v =
     (with_io v ((vm_io v)\<lparr>bus_uart := uart_push_rx (bus_uart (vm_io v)) (vm_autorun v)\<rparr>))\<lparr>vm_autorun := [], vm_booted := True\<rparr>"

definition boot :: "vm \<Rightarrow> vm" where
  "boot v = deliver_autorun (with_cpu v (reset_to_boot (vm_cpu v)))"

definition boot_from_disk :: "vm \<Rightarrow> vm" where
  "boot_from_disk v =
     (let v1 = with_cpu v (reset_to_boot (vm_cpu v));
          buf = fst (read_sectors (bus_disk (vm_io v1)) 0 1 (replicate SECTOR_SIZE 0))
      in deliver_autorun (with_mem v1 (write_slice (vm_mem v1) BOOT_LOAD_ADDR buf)))"

definition install_bios :: "vm \<Rightarrow> vm" where
  "install_bios v = v\<lparr>vm_bios := True\<rparr>"

section \<open>The framebuffer\<close>

definition sat_mul32 :: "u32 \<Rightarrow> u32 \<Rightarrow> u32" where
  "sat_mul32 a b = (if unat a * unat b < 2 ^ 32 then a * b else - 1)"
definition sat_add32 :: "u32 \<Rightarrow> u32 \<Rightarrow> u32" where
  "sat_add32 a b = (if unat a + unat b < 2 ^ 32 then a + b else - 1)"
definition sat_sub32 :: "u32 \<Rightarrow> u32 \<Rightarrow> u32" where
  "sat_sub32 a b = (if b \<le> a then a - b else 0)"

definition enable_linear_framebuffer :: "vm \<Rightarrow> u32 \<Rightarrow> u32 \<Rightarrow> u8 \<Rightarrow> vm" where
  "enable_linear_framebuffer v width height video_type =
     (let stride = sat_mul32 width 4; raw = sat_mul32 stride height;
          sz = sat_add32 raw 0xFFF AND NOT 0xFFF; ram = of_nat (mem_size (vm_mem v));
          base = sat_sub32 ram sz AND NOT 0xFFF
      in v\<lparr>vm_fb := Some \<lparr>fb_base = base, fb_size = sz, fb_width = width, fb_height = height, fb_stride = stride,
             fb_bpp = 32, fb_video_type = video_type\<rparr>\<rparr>)"

definition framebuffer_bytes :: "vm \<Rightarrow> bytes option" where
  "framebuffer_bytes v =
     (case vm_fb v of
        None \<Rightarrow> None
      | Some fb \<Rightarrow>
          let ram = mem_bytes (vm_mem v); start = min (unat (fb_base fb)) (length ram);
              len = unat (fb_stride fb) * unat (fb_height fb); stop = min (start + len) (length ram)
          in Some (take (stop - start) (drop start ram)))"

section \<open>Entering a kernel\<close>

definition GDT :: bytes where
  "GDT = [0, 0, 0, 0, 0, 0, 0, 0,
          0xFF, 0xFF, 0x00, 0x00, 0x00, 0x9A, 0xCF, 0x00,
          0xFF, 0xFF, 0x00, 0x00, 0x00, 0x92, 0xCF, 0x00]"

definition OFF_E820_ENTRIES :: u32 where "OFF_E820_ENTRIES = 0x1E8"
definition OFF_E820_TABLE :: u32 where "OFF_E820_TABLE = 0x2D0"

text \<open>The CPU side of \<^verbatim>\<open>start_protected_mode_at\<close>: flat segments out of a fresh GDT.\<close>

definition pm_cpu_setup :: "u32 \<Rightarrow> unit exec" where
  "pm_cpu_setup entry = do {
     phys_put (\<lambda>m. write_slice m 0x500 GDT);
     cpu_upd (\<lambda>c. c\<lparr>cr0 := cr0 c OR 1, gdtr := \<lparr>dt_limit = 0x17, dt_base = 0x500\<rparr>\<rparr>);
     write_sreg CS 0x08;
     write_sreg DS 0x10;
     write_sreg ES 0x10;
     write_sreg FS 0x10;
     write_sreg GS 0x10;
     write_sreg SS 0x10;
     cpu_upd (\<lambda>c. c\<lparr>stack_size_32 := True, ip := entry\<rparr>);
     cpu_upd (\<lambda>c. write_r32 c (of_nat SI) 0x90000);
     cpu_upd (\<lambda>c. write_r32 c (of_nat BP) 0);
     cpu_upd (\<lambda>c. write_r32 c (of_nat DI) 0);
     cpu_upd (\<lambda>c. write_r32 c (of_nat BX) 0);
     cpu_upd (\<lambda>c. write_r32 c (of_nat SP) 0x7C00);
     clear_flag IF
   }"

definition write_screen_info :: "fb_config \<Rightarrow> memory \<Rightarrow> memory" where
  "write_screen_info fb m =
     (let bp = 0x90000;
          m = write_u8 m (bp + 0x0F) (fb_video_type fb);
          m = write_u16 m (bp + 0x12) (ucast (fb_width fb));
          m = write_u16 m (bp + 0x14) (ucast (fb_height fb));
          m = write_u16 m (bp + 0x16) (ucast (fb_bpp fb));
          m = write_u32 m (bp + 0x18) (fb_base fb);
          m = write_u32 m (bp + 0x1C) (fb_size fb);
          m = write_u16 m (bp + 0x24) (ucast (fb_stride fb));
          m = write_u8 m (bp + 0x26) 8;
          m = write_u8 m (bp + 0x27) 16;
          m = write_u8 m (bp + 0x28) 8;
          m = write_u8 m (bp + 0x29) 8;
          m = write_u8 m (bp + 0x2A) 8;
          m = write_u8 m (bp + 0x2B) 0;
          m = write_u8 m (bp + 0x2C) 8
      in write_u8 m (bp + 0x2D) 24)"

definition e820_entries :: "fb_config option \<Rightarrow> nat \<Rightarrow> (nat \<times> nat \<times> u32) list" where
  "e820_entries fb ram =
     [(0, 0x9FC00, 1), (0x9FC00, 0x60400, 2)] @
     (let plain = [(0x100000, ram - 0x100000, 1)] in
      case fb of
        None \<Rightarrow> plain
      | Some f \<Rightarrow>
          let base = unat (fb_base f); sz = unat (fb_size f) in
          if base > 0x100000 then
            [(0x100000, base - 0x100000, 1), (base, sz, 2)] @
            (if base + sz < ram then [(base + sz, ram - (base + sz), 1)] else [])
          else plain)"

definition write_e820_entry :: "nat \<times> nat \<times> nat \<times> u32 \<Rightarrow> memory \<Rightarrow> memory" where
  "write_e820_entry e m =
     (case e of (i, base, sz, kind) \<Rightarrow>
        let off = 0x90000 + OFF_E820_TABLE + of_nat i * 20;
            m = write_u32 m off (of_nat base);
            m = write_u32 m (off + 4) (of_nat (base div 2 ^ 32));
            m = write_u32 m (off + 8) (of_nat sz);
            m = write_u32 m (off + 12) (of_nat (sz div 2 ^ 32))
        in write_u32 m (off + 16) kind)"

text \<open>The memory side: a clean zero page, the screen and the memory map in \<^verbatim>\<open>boot_params\<close>.\<close>

definition write_boot_params :: "fb_config option \<Rightarrow> memory \<Rightarrow> memory" where
  "write_boot_params fb m =
     (let bp = 0x90000;
          m = write_slice m bp (replicate 0x1F1 0);
          m = (case fb of Some f \<Rightarrow> write_screen_info f m | None \<Rightarrow> m);
          entries = e820_entries fb (mem_size m);
          m = write_u8 m (bp + OFF_E820_ENTRIES) (of_nat (length entries))
      in fold write_e820_entry (enumerate 0 entries) m)"

definition start_protected_mode_at :: "vm \<Rightarrow> u32 \<Rightarrow> vm" where
  "start_protected_mode_at v entry =
     (let v1 = snd (on_machine v (pm_cpu_setup entry))
      in deliver_autorun (with_mem v1 (write_boot_params (vm_fb v1) (vm_mem v1))))"

text \<open>The header fields and the command line of the real-mode entry; \<^verbatim>\<open>IVT\<close> entries point at an IRET.\<close>

definition rm_header :: "bytes \<Rightarrow> memory \<Rightarrow> memory" where
  "rm_header cmdline m =
     (let base = 0x90000; cmd_addr = 0x20000; n = min (length cmdline) 2047;
          m = write_u8 m (base + 0x210) 0xFF;
          m = write_u8 m (base + 0x211) (read_u8 m (base + 0x211) OR 0x80);
          m = write_u16 m (base + 0x224) (0xE000 - 0x200);
          m = write_u16 m (base + 0x1FA) 0xFFFF;
          m = write_slice m cmd_addr (take n cmdline);
          m = write_u8 m (cmd_addr + of_nat n) 0
      in write_u32 m (base + 0x228) cmd_addr)"

definition rm_vector :: "nat \<Rightarrow> memory \<Rightarrow> memory" where
  "rm_vector i m = write_u16 (write_u16 m (of_nat i * 4) 0x520) (of_nat i * 4 + 2) 0"

definition rm_vectors :: "memory \<Rightarrow> memory" where
  "rm_vectors m = fold rm_vector [0..<256] (write_u8 m 0x520 0xCF)"

definition rm_cpu_setup :: "unit exec" where
  "rm_cpu_setup = do {
     cpu_upd reset_to_boot;
     write_sreg CS (0x9000 + 0x20);
     write_sreg DS 0x9000;
     write_sreg ES 0x9000;
     write_sreg FS 0x9000;
     write_sreg GS 0x9000;
     write_sreg SS 0x9000;
     cpu_upd (\<lambda>c. write_r32 (c\<lparr>ip := 0\<rparr>) (of_nat SP) 0xE000);
     clear_flag IF
   }"

definition boot_bzimage_realmode :: "vm \<Rightarrow> bytes \<Rightarrow> bytes \<Rightarrow> bytes option \<Rightarrow> vm \<times> (bz_error + unit)" where
  "boot_bzimage_realmode v bs cmdline initramfs =
     and_then (vm_load_bzimage v bs) (\<lambda>v _.
     let v = with_mem v (rm_header cmdline (vm_mem v)) in
     and_then (case initramfs of Some img \<Rightarrow> vm_set_ramdisk v img | None \<Rightarrow> (v, Inr ())) (\<lambda>v _.
     let v = install_bios v;
         v = with_mem v (rm_vectors (vm_mem v));
         v = snd (on_machine v rm_cpu_setup)
     in (deliver_autorun v, Inr ())))"

section \<open>Input and output\<close>

definition send_input :: "vm \<Rightarrow> bytes \<Rightarrow> vm" where
  "send_input v bs =
     with_io v (mark_irq_dirty ((vm_io v)\<lparr>bus_uart := uart_push_rx (bus_uart (vm_io v)) bs\<rparr>))"

definition vm_push_scancode :: "vm \<Rightarrow> u8 \<Rightarrow> vm" where
  "vm_push_scancode v code =
     with_io v (mark_irq_dirty ((vm_io v)\<lparr>bus_kbd := push_scancode (bus_kbd (vm_io v)) code\<rparr>))"

definition vm_push_mouse_packet :: "vm \<Rightarrow> u16 \<Rightarrow> u16 \<Rightarrow> bool \<Rightarrow> bool \<Rightarrow> bool \<Rightarrow> vm" where
  "vm_push_mouse_packet v dx dy lb rb mb =
     with_io v (mark_irq_dirty ((vm_io v)\<lparr>bus_kbd := push_mouse_packet (bus_kbd (vm_io v)) dx dy lb rb mb\<rparr>))"

definition type_ascii :: "vm \<Rightarrow> code_point list \<Rightarrow> vm" where
  "type_ascii v txt =
     with_io v ((vm_io v)\<lparr>bus_kbd := foldl push_scancode (bus_kbd (vm_io v)) (string_to_scancodes txt)\<rparr>)"

definition set_cmos_time :: "vm \<Rightarrow> u8 \<Rightarrow> u8 \<Rightarrow> u8 \<Rightarrow> u8 \<Rightarrow> u8 \<Rightarrow> u8 \<Rightarrow> vm" where
  "set_cmos_time v year month day hour minute second =
     with_io v ((vm_io v)\<lparr>bus_cmos := cmos_set_time (bus_cmos (vm_io v)) year month day hour minute second\<rparr>)"

text \<open>\<open>secs\<close> is the host's clock.\<close>

definition set_cmos_time_from_host :: "nat \<Rightarrow> vm \<Rightarrow> vm" where
  "set_cmos_time_from_host secs v =
     (if secs = 0 then v
      else case civil_from_unix_secs (int secs) of (y, mo, d, h, mi, s) \<Rightarrow>
        set_cmos_time v (word_of_int (y mod 100)) (word_of_int mo) (word_of_int d) (word_of_int h) (word_of_int mi) (word_of_int s))"

definition drain_output :: "vm \<Rightarrow> bytes \<times> vm" where
  "drain_output v =
     (case uart_drain_tx (bus_uart (vm_io v)) of (out, u) \<Rightarrow> (out, with_io v ((vm_io v)\<lparr>bus_uart := u\<rparr>)))"

definition drain_tx_frames :: "vm \<Rightarrow> bytes list \<times> vm" where
  "drain_tx_frames v = (case drain_nic_tx (vm_io v) of (fs, b) \<Rightarrow> (fs, with_io v b))"

definition drain_tx_frames_one :: "vm \<Rightarrow> bytes option \<times> vm" where
  "drain_tx_frames_one v = (case pop_nic_tx (vm_io v) of (f, b) \<Rightarrow> (f, with_io v b))"

definition set_nic_mac :: "vm \<Rightarrow> bytes \<Rightarrow> vm" where
  "set_nic_mac v mac = with_io v ((vm_io v)\<lparr>bus_nic := set_mac (bus_nic (vm_io v)) mac\<rparr>)"

definition inject_rx_frame :: "vm \<Rightarrow> bytes \<Rightarrow> bool \<times> vm" where
  "inject_rx_frame v frame =
     (case accept_rx (bus_nic (vm_io v)) frame of
        (Some (dest, bs), nic) \<Rightarrow>
          (True, with_io (with_mem v (write_u8_seq (vm_mem v) dest bs)) (mark_irq_dirty ((vm_io v)\<lparr>bus_nic := nic\<rparr>)))
      | (None, nic) \<Rightarrow> (False, with_io v ((vm_io v)\<lparr>bus_nic := nic\<rparr>)))"

section \<open>Running\<close>

datatype stop = Halted | StepBudget | CpuError cpu_error | Unfinished

definition vm_step :: "handlers \<Rightarrow> nat \<Rightarrow> vm \<Rightarrow> step_result \<times> vm" where
  "vm_step h fuel v = on_machine v (cpu_step (h\<lparr>h_bios := if vm_bios v then Some bios_hook_fn else None\<rparr>) fuel)"

text \<open>
  The loops: a turn looks at the machine before the step and may stop, and looks at it before and after the step and may
  stop; \<open>Unfinished\<close> is an instruction that ran out of fuel.
\<close>

fun run_loop :: "handlers \<Rightarrow> nat \<Rightarrow> (vm \<Rightarrow> bool) \<Rightarrow> (vm \<Rightarrow> vm \<Rightarrow> bool) \<Rightarrow> nat \<Rightarrow> nat \<Rightarrow> vm \<Rightarrow> (nat \<times> stop) \<times> vm" where
  "run_loop h fuel stopped idle 0 executed v = ((executed, StepBudget), v)"
| "run_loop h fuel stopped idle (Suc n) executed v =
     (if stopped v then ((executed, Halted), v)
      else case vm_step h fuel v of
        (Error e, v1) \<Rightarrow> ((executed, CpuError e), v1)
      | (OutOfFuel, v1) \<Rightarrow> ((executed, Unfinished), v1)
      | (Done, v1) \<Rightarrow>
          if idle v v1 then ((executed + 1, StepBudget), v1)
          else run_loop h fuel stopped idle n (executed + 1) v1)"

definition vm_halted :: "vm \<Rightarrow> bool" where "vm_halted v = halted (vm_cpu v)"
definition dead_halt :: "vm \<Rightarrow> bool" where "dead_halt v = (halted (vm_cpu v) \<and> flags (vm_cpu v) AND IF = 0)"
definition still_halted :: "vm \<Rightarrow> vm \<Rightarrow> bool" where "still_halted v v1 = (halted (vm_cpu v) \<and> halted (vm_cpu v1))"

definition booted_vm :: "vm \<Rightarrow> vm" where "booted_vm v = (if vm_booted v then v else boot v)"

definition run_steps :: "handlers \<Rightarrow> nat \<Rightarrow> vm \<Rightarrow> u32 \<Rightarrow> (nat \<times> stop) \<times> vm" where
  "run_steps h fuel v max_steps = run_loop h fuel vm_halted (\<lambda>_ _. False) (unat max_steps) 0 (booted_vm v)"

definition run_steps_idle_aware :: "handlers \<Rightarrow> nat \<Rightarrow> vm \<Rightarrow> u32 \<Rightarrow> (nat \<times> stop) \<times> vm" where
  "run_steps_idle_aware h fuel v max_steps = run_loop h fuel dead_halt (\<lambda>_ _. False) (unat max_steps) 0 (booted_vm v)"

definition run_steps_until_idle :: "handlers \<Rightarrow> nat \<Rightarrow> vm \<Rightarrow> u32 \<Rightarrow> (nat \<times> stop) \<times> vm" where
  "run_steps_until_idle h fuel v max_steps = run_loop h fuel dead_halt still_halted (unat max_steps) 0 (booted_vm v)"

section \<open>The bundled guests\<close>

definition HELLO_GUEST :: bytes where
  "HELLO_GUEST =
     [0xBE, 0x1D, 0x7C, 0xAC, 0x08, 0xC0, 0x74, 0x06, 0xBA, 0xF8, 0x03, 0xEE, 0xEB, 0xF5, 0xBA, 0xFD, 0x03, 0xEC,
      0xA8, 0x01, 0x74, 0xF8, 0xBA, 0xF8, 0x03, 0xEC, 0xEE, 0xEB, 0xF1,
      0x77, 0x77, 0x77, 0x76, 0x6D, 0x3A, 0x20, 0x72, 0x65, 0x61, 0x64, 0x79, 0x0A, 0x00]"

definition calculator_MAIN :: bytes where
  "calculator_MAIN =
     [0xBA, 0xFD, 0x03, 0xEC, 0xA8, 0x01, 0x74, 0xFB, 0xBA, 0xF8, 0x03, 0xEC, 0x88, 0xC3, 0xF6, 0xE3, 0xE8, 0x1D, 0x00,
      0xB0, 0x0A, 0xBA, 0xF8, 0x03, 0xEE, 0xEB, 0xE5]"

definition calculator_PRINT_DEC :: bytes where
  "calculator_PRINT_DEC =
     [0xBB, 0x0A, 0x00, 0x31, 0xC9, 0x31, 0xD2, 0xF7, 0xF3, 0x52, 0x41, 0x09, 0xC0, 0x75, 0xF6, 0x58, 0x04, 0x30,
      0xBA, 0xF8, 0x03, 0xEE, 0xE2, 0xF7, 0xC3]"

definition interactive_MAIN :: bytes where
  "interactive_MAIN =
     [0xBE, 0x50, 0x7C, 0xAC, 0x08, 0xC0, 0x74, 0x06, 0xBA, 0xF8, 0x03, 0xEE, 0xEB, 0xF5, 0xBA, 0xF9, 0x03, 0xB0, 0x01,
      0xEE, 0xB0, 0xEF, 0xE6, 0x21, 0xFB, 0xEB, 0xFE]"

definition interactive_HANDLER :: bytes where
  "interactive_HANDLER =
     [0x50, 0x52, 0xBA, 0xF8, 0x03, 0xEC, 0xEE, 0xB0, 0x20, 0xE6, 0x20, 0x5A, 0x58, 0xCF]"

definition interactive_GREETING :: bytes where
  "interactive_GREETING =
     [0x77, 0x77, 0x77, 0x76, 0x6D, 0x20, 0x69, 0x6E, 0x74, 0x65, 0x72, 0x61, 0x63, 0x74, 0x69, 0x76, 0x65, 0x0A, 0x00]"

definition load_default_guest :: "vm \<Rightarrow> vm" where
  "load_default_guest v = load_image v BOOT_LOAD_ADDR HELLO_GUEST"

definition load_calculator_demo :: "vm \<Rightarrow> vm" where
  "load_calculator_demo v = load_image (load_image v 0x7C00 calculator_MAIN) 0x7C30 calculator_PRINT_DEC"

definition load_interactive_demo :: "vm \<Rightarrow> vm" where
  "load_interactive_demo v =
     set_ivt (load_image (load_image (load_image v 0x7C00 interactive_MAIN) 0x7C30 interactive_HANDLER) 0x7C50 interactive_GREETING)
       0x0C 0 0x7C30"

definition pm_demo_payload :: bytes where
  "pm_demo_payload =
     [0xBA, 0xF8, 0x03, 0x00, 0x00] @
     concat (map (\<lambda>ch. [0xB0, ch, 0xEE]) [0x48, 0x65, 0x6C, 0x6C, 0x6F, 0x20, 0x66, 0x72, 0x6F, 0x6D, 0x20, 0x50, 0x4D, 0x21, 0x0A]) @
     [0xF4]"

definition pm_demo_image :: bytes where
  "pm_demo_image =
     put (put (put (put ((replicate 1024 0)[0x1F1 := 1]) 0x1FE (le16 0xAA55)) 0x202 [0x48, 0x64, 0x72, 0x53]) 0x206 (le16 0x020A))
       0x214 (le32 0x100000) @ pm_demo_payload"

definition load_pm_demo :: "vm \<Rightarrow> vm \<times> (bz_error + unit)" where
  "load_pm_demo v =
     (let v = (if mem_size (vm_mem v) < 0x200000 then with_mem v (mem_resize (vm_mem v) 0x200000) else v)
      in and_then (vm_load_bzimage v pm_demo_image) (\<lambda>v parsed.
         (start_protected_mode_at v (bz_code32_start parsed), Inr ())))"

section \<open>Every operation keeps the machine well formed\<close>

definition vm_wf :: "vm \<Rightarrow> bool" where "vm_wf v \<longleftrightarrow> machine_wf (vm_machine v)"

named_theorems vm_frames

lemma vm_wf_with:
  "vm_wf v \<Longrightarrow> mem_frame (vm_mem v) m \<Longrightarrow> vm_wf (with_mem v m)"
  "vm_wf v \<Longrightarrow> cpu_wf c \<Longrightarrow> vm_wf (with_cpu v c)"
  "vm_wf v \<Longrightarrow> bus_wf b \<Longrightarrow> vm_wf (with_io v b)"
  by (auto simp: vm_wf_def with_mem_def with_cpu_def with_io_def machine_wf_def mem_frame_def)

lemma vm_wf_fields:
  "vm_wf (v\<lparr>vm_autorun := a\<rparr>) = vm_wf v" "vm_wf (v\<lparr>vm_booted := b\<rparr>) = vm_wf v" "vm_wf (v\<lparr>vm_fb := f\<rparr>) = vm_wf v"
  "vm_wf (v\<lparr>vm_bios := b\<rparr>) = vm_wf v"
  by (simp_all add: vm_wf_def)

lemma vm_wfD: "vm_wf v \<Longrightarrow> cpu_wf (vm_cpu v)" "vm_wf v \<Longrightarrow> mem_wf (vm_mem v)" "vm_wf v \<Longrightarrow> bus_wf (vm_io v)"
  by (simp_all add: vm_wf_def machine_wf_def)

lemma vm_wf_run: "frames keeps_wf f \<Longrightarrow> vm_wf v \<Longrightarrow> vm_wf (snd (on_machine v f))"
  by (simp add: on_machine_def vm_wf_def frames_def case_prod_beta)

lemma mem_frame_writes [vm_frames]:
  "mem_frame m (write_slice m a bs)" "mem_frame m (write_u8 m a b)" "mem_frame m (write_u16 m a w)" "mem_frame m (write_u32 m a d)"
  "mem_frame m (write_u8_seq m a bs)"
  by (simp_all add: mem_frame_def mem_size_def)

lemma mem_size_writes:
  "mem_size (write_slice m a bs) = mem_size m" "mem_size (write_u8 m a b) = mem_size m" "mem_size (write_u16 m a w) = mem_size m"
  "mem_size (write_u32 m a d) = mem_size m" "mem_size (write_u8_seq m a bs) = mem_size m"
  by (simp_all add: mem_size_def)

lemma mem_frame_fold: "(\<And>x m. mem_frame m (f x m)) \<Longrightarrow> mem_frame m (fold f xs m)"
proof (induction xs arbitrary: m)
  case Nil
  then show ?case by simp
next
  case (Cons x xs)
  show ?case using mem_frame_trans [OF Cons.prems [of m x] Cons.IH [OF Cons.prems]] by simp
qed

lemma load_segments_frame: "mem_frame m (fst (load_segments r bs p z is m))"
proof (induction "is" arbitrary: m)
  case (Cons i "is")
  have "mem_frame m (load_segment bs m s)" for s
    unfolding load_segment_def Let_def foldl_conv_fold
    by (rule mem_frame_trans [OF mem_frame_writes(1) mem_frame_fold]) (rule mem_frame_writes)
  then show ?case using Cons.IH mem_frame_trans by (fastforce split: sum.split option.split)
qed simp

lemma loaders_frame [vm_frames]:
  "mem_frame m (fst (load_elf m bs))" "mem_frame m (fst (load_bzimage m bs))" "mem_frame m (set_kernel_cmdline m bs)"
  "mem_frame m (fst (set_ramdisk m bs))"
proof -
  show "mem_frame m (fst (load_elf m bs))"
    using load_segments_frame [of m] by (simp add: load_elf_def Let_def case_prod_beta split: sum.split)
qed (auto simp: mem_frame_def mem_size_writes load_bzimage_def set_kernel_cmdline_def set_ramdisk_def Let_def split: sum.split)

lemma boot_writes_frame [vm_frames]:
  "mem_frame m (write_boot_params fb m)" "mem_frame m (rm_header cl m)" "mem_frame m (rm_vectors m)"
proof -
  have entry: "mem_frame m (write_e820_entry e m)" for e m
    by (simp add: write_e820_entry_def Let_def mem_frame_def mem_size_writes split: prod.split)
  have screen: "mem_frame m (write_screen_info f m)" for f m
    by (simp add: write_screen_info_def Let_def mem_frame_def mem_size_writes)
  have fbm: "mem_frame m (case fb of Some f \<Rightarrow> write_screen_info f m | None \<Rightarrow> m)" for m
    using screen by (simp split: option.split)
  show "mem_frame m (write_boot_params fb m)"
    unfolding write_boot_params_def Let_def
    by (rule mem_frame_trans [OF mem_frame_trans [OF mem_frame_trans [OF mem_frame_writes(1) fbm] mem_frame_writes(2)] mem_frame_fold [OF entry]])
  show "mem_frame m (rm_header cl m)"
    by (simp add: rm_header_def Let_def mem_frame_def mem_size_writes)
  have "mem_frame m (rm_vector i m)" for i m by (simp add: rm_vector_def mem_frame_def mem_size_writes)
  then show "mem_frame m (rm_vectors m)"
    unfolding rm_vectors_def by (rule mem_frame_trans [OF mem_frame_writes(2) mem_frame_fold])
qed

section \<open>Restoring any bytes\<close>

lemma restore_section_frame:
  "(\<And>d. mem_frame m (fst (put_back m d))) \<Longrightarrow> mem_frame m (fst (restore_section bs off len put_back m))"
  by (auto simp: restore_section_def and_then_def apsnd_def map_prod_def split: prod.splits sum.splits)
    (metis fst_conv)+

lemma put_back_frame:
  "mem_frame m (fst (restore_full m d))" "mem_frame m (fst (restore_lapic m d))" "mem_frame m (fst (restore_hpet m d))"
  "mem_frame m (fst (restore_hpet_period m d))"
  by (simp_all add: mem_frame_def mem_size_def mem_wf_def restore_full_def restore_lapic_def restore_hpet_def restore_hpet_period_def)

lemma and_then_frame:
  "mem_frame m (fst r) \<Longrightarrow> (\<And>m1 x. mem_frame m m1 \<Longrightarrow> mem_frame m (fst (f m1 x))) \<Longrightarrow> mem_frame m (fst (and_then r f))"
  by (auto simp: and_then_def split: prod.split sum.split)

lemma sections_frame:
  "mem_frame m m1 \<Longrightarrow> mem_frame m (fst (restore_section bs off len restore_lapic m1))"
  "mem_frame m m1 \<Longrightarrow> mem_frame m (fst (restore_section bs off len restore_hpet m1))"
  "mem_frame m m1 \<Longrightarrow> mem_frame m (fst (restore_section bs off len restore_hpet_period m1))"
  using mem_frame_trans restore_section_frame put_back_frame by blast+

lemma restore_memory_frame [vm_frames]: "mem_frame m (fst (restore_memory version bs off m))"
  unfolding restore_memory_def Let_def
  by (intro and_then_frame) (auto intro!: and_then_frame sections_frame simp: put_back_frame)

lemma restore_cpu_wf: "cpu_wf c \<Longrightarrow> cpu_wf (restore_cpu version bs c)"
  by (simp add: cpu_wf_def restore_cpu_def restore_v1_def restore_v3_def restore_v4_def restore_v6_def restore_v7_def restore_v8_def
      restore_v9_def restore_v12_def Let_def table_def)

lemma restore_devices_wf: "bus_wf b \<Longrightarrow> bus_wf (fst (restore_devices version bs off b))"
  using bus_restore_wf [of b] by (auto simp: restore_devices_def Let_def split: prod.split sum.split) (metis fst_conv)+

lemma read_segments_six: "read_segments version bs off = Inr (Some sc) \<Longrightarrow> length sc = 6"
  by (auto simp: read_segments_def table_def split: if_splits)

lemma commit_wf:
  assumes "vm_wf v" "\<And>sc. cache = Some sc \<Longrightarrow> length sc = 6"
  shows "vm_wf (commit version bs cache fb v)"
proof -
  have c: "cpu_wf (restore_cpu version bs (vm_cpu v))" using restore_cpu_wf vm_wfD(1) [OF assms(1)] by blast
  then have "cpu_wf (restore_cpu version bs (vm_cpu v)
      \<lparr>seg_cache := (case cache of Some sc \<Rightarrow> sc | None \<Rightarrow> real_segments (sregs (restore_cpu version bs (vm_cpu v))))\<rparr>)"
    using assms(2) by (auto simp: cpu_wf_def real_segments_def split: option.split)
  then show ?thesis using assms(1) by (simp add: commit_def Let_def vm_wf_fields vm_wf_with(2))
qed

lemma vm_restore_wf:
  assumes "vm_wf v"
  shows "vm_wf (fst (restore v bs))"
proof -
  have m: "vm_wf (with_mem v (fst (restore_memory version bs off (vm_mem v))))" for version off
    using vm_wf_with(1) [OF assms] restore_memory_frame by blast
  have b: "vm_wf (with_io (with_mem v (fst (restore_memory version bs off (vm_mem v)))) (fst (restore_devices version bs off2 (vm_io v))))"
    for version off off2
    using vm_wf_with(3) [OF m] restore_devices_wf vm_wfD(3) [OF assms] by blast
  show ?thesis
    unfolding restore_def Let_def
    using assms m b commit_wf [OF b] read_segments_six
    by (auto split: prod.split sum.split) (metis fst_conv)+
qed

section \<open>The machines the host can reach\<close>

lemma deliver_autorun_wf: "vm_wf v \<Longrightarrow> vm_wf (deliver_autorun v)"
  by (simp add: deliver_autorun_def vm_wf_fields vm_wf_with(3) vm_wfD(3) bus_wf_device bus_wfD dev_ok)

lemma reset_wf: "cpu_wf c \<Longrightarrow> cpu_wf (reset_to_boot c)"
  by (simp add: cpu_wf_def reset_to_boot_def)

lemma boot_wf: "vm_wf v \<Longrightarrow> vm_wf (boot v)"
  by (simp add: boot_def deliver_autorun_wf vm_wf_with(2) reset_wf vm_wfD(1))

lemma wf_upd: "(\<And>c. cpu_wf c \<Longrightarrow> cpu_wf (f c)) \<Longrightarrow> frames keeps_wf (cpu_upd f)"
  by (simp add: frames_def run_basic machine_wf_def)

lemma setup_frames: "frames keeps_wf (pm_cpu_setup entry)" "frames keeps_wf rm_cpu_setup"
  unfolding pm_cpu_setup_def rm_cpu_setup_def
  by (intro wf_kept.fr_bind wf_kept.fr_phys(2) wf_kept.fr_write_sreg wf_upd mem_frame_writes;
      simp add: frame_simps cpu_wf_def reset_to_boot_def write_r32_def Let_def)+

inductive vm_reachable :: "handlers \<Rightarrow> vm \<Rightarrow> bool" for h where
  vr_new: "n \<le> 2 ^ 32 \<Longrightarrow> vm_reachable h (with_ram_size w n)"
| vr_image: "vm_reachable h v \<Longrightarrow> vm_reachable h (load_image v a bs)"
| vr_ivt: "vm_reachable h v \<Longrightarrow> vm_reachable h (set_ivt v vec sg off)"
| vr_disk: "vm_reachable h v \<Longrightarrow> vm_reachable h (load_disk_image v bs)"
| vr_disk2: "vm_reachable h v \<Longrightarrow> vm_reachable h (load_secondary_disk_image v bs)"
| vr_elf: "vm_reachable h v \<Longrightarrow> vm_reachable h (fst (load_elf_image v bs))"
| vr_bzimage: "vm_reachable h v \<Longrightarrow> vm_reachable h (fst (vm_load_bzimage v bs))"
| vr_cmdline: "vm_reachable h v \<Longrightarrow> vm_reachable h (vm_set_kernel_cmdline v bs)"
| vr_ramdisk: "vm_reachable h v \<Longrightarrow> vm_reachable h (fst (vm_set_ramdisk v bs))"
| vr_autorun: "vm_reachable h v \<Longrightarrow> vm_reachable h (set_autorun_commands v cmds)"
| vr_boot: "vm_reachable h v \<Longrightarrow> vm_reachable h (boot v)"
| vr_boot_disk: "vm_reachable h v \<Longrightarrow> vm_reachable h (boot_from_disk v)"
| vr_bios: "vm_reachable h v \<Longrightarrow> vm_reachable h (install_bios v)"
| vr_framebuffer: "vm_reachable h v \<Longrightarrow> vm_reachable h (enable_linear_framebuffer v x y t)"
| vr_protected: "vm_reachable h v \<Longrightarrow> vm_reachable h (start_protected_mode_at v entry)"
| vr_realmode: "vm_reachable h v \<Longrightarrow> vm_reachable h (fst (boot_bzimage_realmode v bs cl initrd))"
| vr_input: "vm_reachable h v \<Longrightarrow> vm_reachable h (send_input v bs)"
| vr_key: "vm_reachable h v \<Longrightarrow> vm_reachable h (vm_push_scancode v code)"
| vr_mouse: "vm_reachable h v \<Longrightarrow> vm_reachable h (vm_push_mouse_packet v dx dy lb rb mb)"
| vr_text: "vm_reachable h v \<Longrightarrow> vm_reachable h (type_ascii v txt)"
| vr_clock: "vm_reachable h v \<Longrightarrow> vm_reachable h (set_cmos_time_from_host secs v)"
| vr_output: "vm_reachable h v \<Longrightarrow> vm_reachable h (snd (drain_output v))"
| vr_frames: "vm_reachable h v \<Longrightarrow> vm_reachable h (snd (drain_tx_frames v))"
| vr_frame: "vm_reachable h v \<Longrightarrow> vm_reachable h (snd (drain_tx_frames_one v))"
| vr_mac: "vm_reachable h v \<Longrightarrow> length mac = 6 \<Longrightarrow> vm_reachable h (set_nic_mac v mac)"
| vr_receive: "vm_reachable h v \<Longrightarrow> vm_reachable h (snd (inject_rx_frame v f))"
| vr_step: "vm_reachable h v \<Longrightarrow> vm_reachable h (snd (vm_step h fuel v))"
| vr_demo: "vm_reachable h v \<Longrightarrow> vm_reachable h (fst (load_pm_demo v))"
| vr_restore: "vm_reachable h v \<Longrightarrow> vm_reachable h (fst (restore v bs))"

lemmas vm_ops = load_image_def set_ivt_def load_disk_image_def load_secondary_disk_image_def load_elf_image_def vm_load_bzimage_def
  vm_set_kernel_cmdline_def vm_set_ramdisk_def

lemma ops_wf:
  assumes "vm_wf v"
  shows "vm_wf (load_image v a bs)" "vm_wf (set_ivt v vec sg off)" "vm_wf (load_disk_image v bs)"
    "vm_wf (load_secondary_disk_image v bs)" "vm_wf (fst (load_elf_image v bs))" "vm_wf (fst (vm_load_bzimage v bs))"
    "vm_wf (vm_set_kernel_cmdline v bs)" "vm_wf (fst (vm_set_ramdisk v bs))"
  unfolding vm_ops case_prod_beta Let_def fst_conv
  using assms vm_wfD(3) [OF assms]
  by (auto intro!: vm_wf_with mem_frame_writes loaders_frame intro: mem_frame_trans simp: bus_wf_def ata_ok_def)

lemma keys_ok: "kbd_ok k \<Longrightarrow> kbd_ok (foldl push_scancode k codes)"
  by (induction codes arbitrary: k) (simp_all add: dev_ok)

lemma mark_irq_dirty_wf: "bus_wf b \<Longrightarrow> bus_wf (mark_irq_dirty b)"
  by (simp add: mark_irq_dirty_def bus_wf_def)

lemma input_wf:
  assumes "vm_wf v"
  shows "vm_wf (send_input v bs)" "vm_wf (vm_push_scancode v code)" "vm_wf (vm_push_mouse_packet v dx dy lb rb mb)"
    "vm_wf (type_ascii v txt)" "vm_wf (set_cmos_time v y mo d hh mi ss)" "vm_wf (snd (drain_output v))"
    "length mac = 6 \<Longrightarrow> vm_wf (set_nic_mac v mac)"
  using assms vm_wfD(3) [OF assms]
  by (simp_all add: send_input_def vm_push_scancode_def vm_push_mouse_packet_def type_ascii_def set_cmos_time_def drain_output_def
      set_nic_mac_def case_prod_beta vm_wf_with(3) mark_irq_dirty_wf bus_wf_device dev_ok bus_wfD keys_ok set_mac_wf)

lemma network_wf:
  assumes "vm_wf v"
  shows "vm_wf (snd (drain_tx_frames v))" "vm_wf (snd (drain_tx_frames_one v))" "vm_wf (snd (inject_rx_frame v f))"
proof -
  note b = vm_wfD(3) [OF assms]
  show "vm_wf (snd (drain_tx_frames v))"
    using assms b by (simp add: drain_tx_frames_def drain_nic_tx_def vm_wf_with(3) bus_wf_device)
  show "vm_wf (snd (drain_tx_frames_one v))"
    using assms b bus_wfD(11) [OF b]
    by (auto simp: drain_tx_frames_one_def pop_nic_tx_def intro!: vm_wf_with(3) bus_wf_device split: list.split)
  have n: "bus_wf ((vm_io v)\<lparr>bus_nic := snd (accept_rx (bus_nic (vm_io v)) f)\<rparr>)"
    using b by (simp add: bus_wf_device accept_rx_wf bus_wfD)
  obtain r nic where r: "accept_rx (bus_nic (vm_io v)) f = (r, nic)" by fastforce
  have m: "vm_wf (with_mem v (write_u8_seq (vm_mem v) a bs))" for a bs by (rule vm_wf_with(1) [OF assms mem_frame_writes(5)])
  show "vm_wf (snd (inject_rx_frame v f))"
    using n r by (auto simp: inject_rx_frame_def intro!: vm_wf_with(3) m assms mark_irq_dirty_wf split: option.split)
qed

lemma step_wf: "handlers_frame keeps_wf h \<Longrightarrow> vm_wf v \<Longrightarrow> vm_wf (snd (vm_step h fuel v))"
  unfolding vm_step_def
proof (rule vm_wf_run)
  assume "handlers_frame keeps_wf h"
  then have "handlers_frame keeps_wf (h\<lparr>h_bios := if vm_bios v then Some bios_hook_fn else None\<rparr>)"
    using wf_kept.fr_bios_hook by (simp add: handlers_frame_def)
  then show "frames keeps_wf (cpu_step (h\<lparr>h_bios := if vm_bios v then Some bios_hook_fn else None\<rparr>) fuel)"
    using cpu_step_wf by (auto simp: frames_def)
qed

lemma kernel_entry_wf:
  assumes "vm_wf v"
  shows "vm_wf (start_protected_mode_at v entry)" "vm_wf (fst (boot_bzimage_realmode v bs cl initrd))" "vm_wf (boot_from_disk v)"
    "vm_wf (fst (load_pm_demo v))"
proof -
  have pm: "vm_wf (start_protected_mode_at v entry)" if "vm_wf v" for v entry
    unfolding start_protected_mode_at_def Let_def
    by (intro deliver_autorun_wf vm_wf_with(1) boot_writes_frame vm_wf_run setup_frames that)
  then show "vm_wf (start_protected_mode_at v entry)" using assms .
  have bz: "vm_wf (fst (vm_load_bzimage v bs))" if "vm_wf v" for v bs using ops_wf [OF that] by blast
  have rd: "vm_wf (fst (vm_set_ramdisk v bs))" if "vm_wf v" for v bs using ops_wf [OF that] by blast
  have hd: "vm_wf (with_mem v (rm_header cl (vm_mem v)))" if "vm_wf v" for v by (rule vm_wf_with(1) [OF that boot_writes_frame(2)])
  have fin: "vm_wf (deliver_autorun (snd (on_machine (with_mem (install_bios v) (rm_vectors (vm_mem (install_bios v)))) rm_cpu_setup)))"
    if "vm_wf v" for v
    by (intro deliver_autorun_wf vm_wf_with(1) boot_writes_frame vm_wf_run setup_frames) (simp add: install_bios_def vm_wf_fields that)
  show "vm_wf (fst (boot_bzimage_realmode v bs cl initrd))"
    using bz [OF assms, of bs] hd rd fin
    by (auto simp: boot_bzimage_realmode_def and_then_def Let_def split: prod.split sum.split option.split) (metis fst_conv)+
  show "vm_wf (boot_from_disk v)"
    unfolding boot_from_disk_def Let_def
    by (intro deliver_autorun_wf vm_wf_with(1) mem_frame_writes vm_wf_with(2) assms reset_wf vm_wfD(1))
  have "vm_wf (with_mem v (mem_resize (vm_mem v) 0x200000))" if "mem_size (vm_mem v) < 0x200000"
    using assms that by (simp add: vm_wf_def machine_wf_def with_mem_def mem_resize_def mem_size_def mem_wf_def)
  then show "vm_wf (fst (load_pm_demo v))"
    using assms bz pm
    by (auto simp: load_pm_demo_def and_then_def Let_def split: prod.split sum.split) (metis fst_conv)+
qed

lemma vm_reachable_wf:
  assumes "vm_reachable h v" "handlers_frame keeps_wf h"
  shows "vm_wf v"
  using assms(1)
proof (induction rule: vm_reachable.induct)
  case (vr_new n w)
  then show ?case using cpu_wf_new(1) fresh_vm(3) [of w n] by (simp add: vm_wf_def machine_wf_def with_ram_size_def bus_new_wf)
next
  case (vr_clock v secs)
  then show ?case using input_wf(5) by (simp add: set_cmos_time_from_host_def split: prod.split)
qed (simp_all add: ops_wf input_wf network_wf step_wf [OF assms(2)] kernel_entry_wf boot_wf vm_restore_wf vm_wf_fields
    set_autorun_commands_def install_bios_def enable_linear_framebuffer_def Let_def)



section \<open>The run loops\<close>

lemma run_loop_executed:
  "run_loop h fuel st idle n e v = (case run_loop h fuel st idle n 0 v of ((k, r), w) \<Rightarrow> ((e + k, r), w))"
proof (induction n arbitrary: e v)
  case (Suc n)
  show ?case
    by (simp add: Suc.IH [of "Suc e"] Suc.IH [of "Suc 0"] case_prod_beta split: step_result.split prod.split)
qed simp

text \<open>The state after \<open>n\<close> steps, and that none of them stopped the loop.\<close>

fun steps :: "handlers \<Rightarrow> nat \<Rightarrow> nat \<Rightarrow> vm \<Rightarrow> vm" where
  "steps h fuel 0 v = v"
| "steps h fuel (Suc n) v = steps h fuel n (snd (vm_step h fuel v))"

fun steps_ok :: "handlers \<Rightarrow> nat \<Rightarrow> (vm \<Rightarrow> bool) \<Rightarrow> nat \<Rightarrow> vm \<Rightarrow> bool" where
  "steps_ok h fuel st 0 v = True"
| "steps_ok h fuel st (Suc n) v =
     (\<not> st v \<and> fst (vm_step h fuel v) = Done \<and> steps_ok h fuel st n (snd (vm_step h fuel v)))"

lemma run_loop_exact:
  assumes "run_loop h fuel st idle n 0 v = ((k, r), w)"
  shows "k \<le> n \<and> steps_ok h fuel st k v \<and>
    (case r of
       Halted \<Rightarrow> k < n \<and> w = steps h fuel k v \<and> st w
     | StepBudget \<Rightarrow> w = steps h fuel k v \<and> (k = n \<or> (\<exists>u. idle u w))
     | CpuError e \<Rightarrow> k < n \<and> vm_step h fuel (steps h fuel k v) = (Error e, w)
     | Unfinished \<Rightarrow> k < n \<and> vm_step h fuel (steps h fuel k v) = (OutOfFuel, w))"
  using assms
proof (induction n arbitrary: k v)
  case (Suc n)
  obtain res v1 where s: "vm_step h fuel v = (res, v1)" by fastforce
  show ?case
  proof (cases "st v \<or> res \<noteq> Done \<or> idle v v1")
    case True
    then show ?thesis using Suc.prems s by (cases res) (auto split: if_splits)
  next
    case False
    then have "run_loop h fuel st idle n (Suc 0) v1 = ((k, r), w)" using Suc.prems s by simp
    then obtain k1 where k: "run_loop h fuel st idle n 0 v1 = ((k1, r), w)" "k = Suc k1"
      using run_loop_executed [of h fuel st idle n "Suc 0" v1] by (auto split: prod.splits)
    from Suc.IH [OF k(1)] False s k(2) show ?thesis by (cases r) auto
  qed
qed simp

lemma run_loop_split:
  assumes "\<And>u w. \<not> idle u w"
  shows "run_loop h fuel st idle (a + b) e v =
    (case run_loop h fuel st idle a e v of ((k, StepBudget), w) \<Rightarrow> run_loop h fuel st idle b k w | r \<Rightarrow> r)"
  using assms by (induction a arbitrary: e v) (auto split: step_result.split prod.split)

lemma steps_booted: "vm_booted (snd (vm_step h fuel v)) = vm_booted v"
  by (simp add: vm_step_def on_machine_def split: prod.split)

lemma steps_booted_all: "vm_booted (steps h fuel n v) = vm_booted v"
  by (induction n arbitrary: v) (simp_all add: steps_booted)

lemma booted_vm_booted: "vm_booted (booted_vm v)"
  by (simp add: booted_vm_def boot_def deliver_autorun_def)

text \<open>
  C17: A step budget can be spent in pieces.  Running \<open>a + b\<close> steps at once is running \<open>a\<close> steps and, when those end with the
  budget and not with a halt or an error, \<open>b\<close> steps from where they stopped: same final machine, same number of steps,
  same reason; the machine is booted once.  So a host that runs a guest in slices sees what one long run would give.
\<close>

theorem run_in_slices:
  assumes "unat a + unat b < 2 ^ 32"
  shows "run_steps h fuel v (a + b) =
      (case run_steps h fuel v a of
         ((k, StepBudget), w) \<Rightarrow> (case run_steps h fuel w b of ((j, r), u) \<Rightarrow> ((k + j, r), u))
       | r \<Rightarrow> r) \<and>
    run_steps_idle_aware h fuel v (a + b) =
      (case run_steps_idle_aware h fuel v a of
         ((k, StepBudget), w) \<Rightarrow> (case run_steps_idle_aware h fuel w b of ((j, r), u) \<Rightarrow> ((k + j, r), u))
       | r \<Rightarrow> r)"
proof -
  have ab: "unat (a + b) = unat a + unat b" using assms by (simp add: unat_word_ariths)
  have slice: "run_loop h fuel st (\<lambda>_ _. False) (unat a + unat b) 0 (booted_vm v) =
      (case run_loop h fuel st (\<lambda>_ _. False) (unat a) 0 (booted_vm v) of
         ((k, StepBudget), w) \<Rightarrow> (case run_loop h fuel st (\<lambda>_ _. False) (unat b) 0 (booted_vm w) of ((j, r), u) \<Rightarrow> ((k + j, r), u))
       | r \<Rightarrow> r)" for st
  proof -
    obtain k r w where l: "run_loop h fuel st (\<lambda>_ _. False) (unat a) 0 (booted_vm v) = ((k, r), w)" by (metis prod.collapse)
    have "booted_vm w = w" if "r = StepBudget"
      using run_loop_exact [OF l] that booted_vm_booted [of v] by (simp add: booted_vm_def steps_booted_all)
    then show ?thesis
      using l run_loop_executed [of h fuel st "\<lambda>_ _. False" "unat b" k w]
      by (simp add: run_loop_split split: stop.split)
  qed
  show ?thesis unfolding run_steps_def run_steps_idle_aware_def ab using slice by blast
qed

theorem run_in_slices_witness:
  "unat (3 :: u32) + unat (4 :: u32) < 2 ^ 32 \<and>
   run_steps no_handlers 16 (vm_new None) 7 =
      (case run_steps no_handlers 16 (vm_new None) 3 of
         ((k, StepBudget), w) \<Rightarrow> (case run_steps no_handlers 16 w 4 of ((j, r), u) \<Rightarrow> ((k + j, r), u))
       | r \<Rightarrow> r)"
  using run_in_slices [of 3 4 no_handlers 16 "vm_new None"] by simp



end
