(* ===== verification/VmBoot.thy ===== *)
theory VmBoot
  imports VmMachine
begin

unbundle bit_operations_syntax

text \<open>
  What \<^verbatim>\<open>start_protected_mode_at\<close> hands the kernel: the flat segments and registers of the 32-bit boot protocol, the memory
  map in \<^verbatim>\<open>boot_params\<close>, which covers the whole RAM and reserves the framebuffer, and its agreement with the map
  the BIOS reports.
\<close>

section \<open>The memory map\<close>

lemma le64_halves: "le64 (of_nat n) = le32 (of_nat n) @ le32 (of_nat (n div 2 ^ 32))"
proof -
  have "(ucast (of_nat n :: u64) :: u32) = of_nat n" by (rule bit_word_eqI) (simp add: bit_simps)
  moreover have "(ucast (drop_bit 32 (of_nat n :: u64)) :: u32) = of_nat (drop_bit 32 n)"
    by (rule bit_word_eqI) (simp add: bit_simps)
  ultimately show ?thesis by (simp add: le64_def drop_bit_eq_div)
qed

lemma write_e820_entry_put:
  assumes "0x902D0 + i * 20 + 20 \<le> length (mem_bytes m)" "length (mem_bytes m) \<le> 2 ^ 32"
  shows "write_e820_entry (i, e) m = m\<lparr>mem_bytes := put (mem_bytes m) (0x902D0 + i * 20) (e820_bytes e)\<rparr>"
proof -
  obtain b z k where e: "e = (b, z, k)" by (cases e)
  define off where "off = 0x90000 + OFF_E820_TABLE + of_nat i * (20 :: u32)"
  have o: "off + of_nat j = 0x902D0 + of_nat (i * 20 + j)" for j by (simp add: off_def OFF_E820_TABLE_def)
  have "unat (off + of_nat j) = 0x902D0 + (i * 20 + j)" if "j < 20" for j
    unfolding o using assms that by (subst unat_offset) auto
  from this [of 0] this [of 4] this [of 8] this [of 12] this [of 16]
  have u: "unat off = 0x902D0 + i * 20" "unat (off + 4) = 0x902D0 + i * 20 + 4" "unat (off + 8) = 0x902D0 + i * 20 + 8"
    "unat (off + 12) = 0x902D0 + i * 20 + 12" "unat (off + 16) = 0x902D0 + i * 20 + 16"
    by simp_all
  have w: "write_e820_entry (i, e) m = write_u32 (write_u32 (write_u32 (write_u32 (write_u32 m off (of_nat b)) (off + 4) (of_nat (b div 2 ^ 32)))
      (off + 8) (of_nat z)) (off + 12) (of_nat (z div 2 ^ 32))) (off + 16) k"
    by (simp only: write_e820_entry_def e Let_def prod.case off_def)
  show ?thesis
    unfolding w using assms u by (simp add: e write_u32_put put_put_adjacent e820_bytes_def le64_halves)
qed

lemma write_e820_table:
  assumes "0x902D0 + (i + length es) * 20 \<le> length (mem_bytes m)" "length (mem_bytes m) \<le> 2 ^ 32"
  shows "fold write_e820_entry (enumerate i es) m = m\<lparr>mem_bytes := put (mem_bytes m) (0x902D0 + i * 20) (concat (map e820_bytes es))\<rparr>"
  using assms
proof (induction es arbitrary: i m)
  case (Cons e es)
  let ?m = "m\<lparr>mem_bytes := put (mem_bytes m) (0x902D0 + i * 20) (e820_bytes e)\<rparr>"
  have w: "write_e820_entry (i, e) m = ?m" using Cons.prems by (intro write_e820_entry_put) auto
  have l: "length (mem_bytes ?m) = length (mem_bytes m)" using Cons.prems by simp
  have "fold write_e820_entry (enumerate (Suc i) es) ?m =
      ?m\<lparr>mem_bytes := put (mem_bytes ?m) (0x902D0 + Suc i * 20) (concat (map e820_bytes es))\<rparr>"
    using Cons.prems l by (intro Cons.IH) auto
  moreover have "put (mem_bytes ?m) (0x902D0 + Suc i * 20) (concat (map e820_bytes es)) =
      put (mem_bytes m) (0x902D0 + i * 20) (e820_bytes e @ concat (map e820_bytes es))"
  proof -
    have "length (concat (map e820_bytes es)) = 20 * length es" by (simp add: length_concat comp_def sum_list_triv)
    then show ?thesis using Cons.prems by (simp add: put_put_adjacent)
  qed
  ultimately show ?case using w by simp
qed simp

lemma length_e820_table: "length (concat (map e820_bytes es)) = 20 * length es"
  by (simp add: length_concat comp_def sum_list_triv)

lemma e820_entries_few: "length (e820_entries fb ram) \<le> 5"
  by (simp add: e820_entries_def Let_def split: option.split)

lemma e820_agrees: "e820_entries None ram = e820_map ram"
  by (simp add: e820_entries_def e820_map_def)

text \<open>A framebuffer above the first megabyte ends within RAM; every one the host enables does.\<close>

definition fb_reserved :: "fb_config option \<Rightarrow> nat \<Rightarrow> bool" where
  "fb_reserved fb ram = (case fb of None \<Rightarrow> True | Some f \<Rightarrow> 0x100000 < unat (fb_base f) \<longrightarrow> unat (fb_base f) + unat (fb_size f) \<le> ram)"

lemma enable_fb_reserved: "fb_reserved (vm_fb (enable_linear_framebuffer v x y t)) (mem_size (vm_mem v))"
proof -
  define sz where "sz = sat_add32 (sat_mul32 (sat_mul32 x 4) y) 0xFFF AND NOT 0xFFF"
  define ram :: u32 where "ram = of_nat (mem_size (vm_mem v))"
  have fits: "unat (sat_sub32 ram sz AND NOT 0xFFF) + unat sz \<le> mem_size (vm_mem v)" if "0 < unat (sat_sub32 ram sz AND NOT 0xFFF)"
  proof -
    have le: "sz \<le> ram" using that by (auto simp: sat_sub32_def split: if_splits)
    have "unat (sat_sub32 ram sz AND NOT 0xFFF) \<le> unat (ram - sz)"
      using le word_and_le2 [of "ram - sz" "NOT 0xFFF"] by (simp add: sat_sub32_def word_le_nat_alt)
    also have "\<dots> = unat ram - unat sz" using le by (simp add: unat_sub)
    finally have "unat (sat_sub32 ram sz AND NOT 0xFFF) + unat sz \<le> unat ram" using le by (simp add: word_le_nat_alt)
    also have "\<dots> \<le> mem_size (vm_mem v)" by (simp add: ram_def unat_of_nat)
    finally show ?thesis .
  qed
  show ?thesis
    unfolding enable_linear_framebuffer_def Let_def fb_reserved_def
    using fits by (simp add: sz_def ram_def)
qed

lemma e820_covers:
  assumes "0x100000 \<le> ram" "fb_reserved fb ram"
  shows "covers 0 (e820_entries fb ram) = Some ram"
  using assms by (auto simp: e820_entries_def fb_reserved_def Let_def split: option.split)

lemma write_boot_params_table:
  fixes fb m
  assumes "0x91000 \<le> mem_size m" "mem_size m \<le> 2 ^ 32"
  defines "es \<equiv> e820_entries fb (mem_size m)"
  shows "lies_at (mem_bytes (write_boot_params fb m)) 0x902D0 (concat (map e820_bytes es))"
    "mem_bytes (write_boot_params fb m) ! 0x901E8 = of_nat (length es)"
proof -
  define m1 where "m1 = (case fb of Some f \<Rightarrow> write_screen_info f (write_slice m 0x90000 (replicate 0x1F1 0)) | None \<Rightarrow> write_slice m 0x90000 (replicate 0x1F1 0))"
  have s: "mem_size m1 = mem_size m"
    by (simp add: m1_def write_screen_info_def Let_def mem_size_writes split: option.split)
  define m2 where "m2 = write_u8 m1 0x901E8 (of_nat (length es))"
  have l: "length (mem_bytes m1) = mem_size m" "length (mem_bytes m2) = mem_size m" using s by (simp_all add: mem_size_def m2_def)
  have b2: "mem_bytes m2 ! 0x901E8 = of_nat (length es)" using l assms(1) by (simp add: m2_def write_u8_ram)
  have "write_boot_params fb m = fold write_e820_entry (enumerate 0 es) m2"
    using s by (simp add: write_boot_params_def Let_def m2_def m1_def es_def OFF_E820_ENTRIES_def mem_size_writes cong: option.case_cong)
  also have "\<dots> = m2\<lparr>mem_bytes := put (mem_bytes m2) 0x902D0 (concat (map e820_bytes es))\<rparr>"
    using write_e820_table [of 0 es m2] l assms(1,2) e820_entries_few [of fb "mem_size m"] by (simp add: es_def)
  finally have w: "mem_bytes (write_boot_params fb m) = put (mem_bytes m2) 0x902D0 (concat (map e820_bytes es))" by simp
  have fits: "0x902D0 + length (concat (map e820_bytes es)) \<le> length (mem_bytes m2)"
    using l assms(1) e820_entries_few [of fb "mem_size m"] by (simp add: length_e820_table es_def)
  show "lies_at (mem_bytes (write_boot_params fb m)) 0x902D0 (concat (map e820_bytes es))"
    unfolding w by (rule lies_at_put [OF fits])
  show "mem_bytes (write_boot_params fb m) ! 0x901E8 = of_nat (length es)"
    unfolding w using b2 by (simp add: put_nth [OF fits])
qed

section \<open>The state of the processor\<close>

interpretation size_kept: system_frame "\<lambda>s t. mem_size (m_mem t) = mem_size (m_mem s)"
  by unfold_locales (simp_all add: mem_frame_def)

lemma pm_size: "mem_size (m_mem (snd (run_state (pm_cpu_setup entry) s))) = mem_size (m_mem s)"
proof -
  have "frames (\<lambda>s t. mem_size (m_mem t) = mem_size (m_mem s)) (pm_cpu_setup entry)"
    unfolding pm_cpu_setup_def
    by (intro size_kept.fr_bind size_kept.fr_phys(2) size_kept.fr_write_sreg size_kept.fr_system mem_frame_writes;
        simp add: frame_simps cpu_wf_def write_r32_def Let_def)
  then show ?thesis by (simp add: frames_def)
qed

text \<open>The segments a load of selector 8 or 16 gives when the boot descriptors lie at 0x500.\<close>

definition load_flat :: "nat \<Rightarrow> u16 \<Rightarrow> cpu \<Rightarrow> cpu" where
  "load_flat idx sel c =
     (let c1 = c\<lparr>sregs := (sregs c)[idx := sel],
                 seg_cache := (seg_cache c)[idx := \<lparr>sc_base = 0, sc_limit = 0xFFFFFFFF, sc_access = if sel = 8 then 0x9A else 0x92\<rparr>]\<rparr>;
          c2 = (if idx = CS then invalidate_fetch_tlb (c1\<lparr>code_size_32 := True\<rparr>) else c1)
      in if idx = SS then c2\<lparr>stack_size_32 := True\<rparr> else c2)"

definition pm_ready :: "machine \<Rightarrow> bool" where
  "pm_ready s \<longleftrightarrow> flat s \<and> cr0 (m_cpu s) AND 1 \<noteq> 0 \<and> dt_base (gdtr (m_cpu s)) = 0x500 \<and>
     0x518 \<le> length (mem_bytes (m_mem s)) \<and> lies_at (mem_bytes (m_mem s)) 0x500 GDT"

lemma gdt_bytes:
  assumes "0x518 \<le> length (mem_bytes m)" "lies_at (mem_bytes m) 0x500 GDT" "k < 24"
  shows "read_u8 m (0x500 + of_nat k) = GDT ! k"
proof -
  have "unat (0x500 + of_nat k :: u32) = 0x500 + k" using assms(3) by (subst unat_offset) auto
  moreover have "mem_bytes m ! (0x500 + k) = take 24 (drop 0x500 (mem_bytes m)) ! k" using assms(1,3) by simp
  moreover have "take 24 (drop 0x500 (mem_bytes m)) = GDT"
  proof -
    have "length GDT = 24" by (simp add: GDT_def)
    then show ?thesis using assms(2) by (simp add: lies_at_def)
  qed
  ultimately show ?thesis using assms(1,3) by (simp add: read_u8_ram)
qed

lemma gdt_words:
  assumes "pm_ready s" "sel \<in> {8, 16}"
  shows "read_u16 (m_mem s) (0x500 + ucast (sel :: u16)) = 0xFFFF" "read_u16 (m_mem s) (0x500 + ucast sel + 2) = 0"
    "read_u16 (m_mem s) (0x500 + ucast sel + 4) = (if sel = 8 then 0x9A00 else 0x9200)" "read_u16 (m_mem s) (0x500 + ucast sel + 6) = 0xCF"
  using assms gdt_bytes [of "m_mem s" 8] gdt_bytes [of "m_mem s" 9] gdt_bytes [of "m_mem s" 10] gdt_bytes [of "m_mem s" 11]
    gdt_bytes [of "m_mem s" 12] gdt_bytes [of "m_mem s" 13] gdt_bytes [of "m_mem s" 14] gdt_bytes [of "m_mem s" 15]
    gdt_bytes [of "m_mem s" 16] gdt_bytes [of "m_mem s" 17] gdt_bytes [of "m_mem s" 18] gdt_bytes [of "m_mem s" 19]
    gdt_bytes [of "m_mem s" 20] gdt_bytes [of "m_mem s" 21] gdt_bytes [of "m_mem s" 22] gdt_bytes [of "m_mem s" 23]
  by (auto simp: pm_ready_def read_u16_le of_le16_def GDT_def)

lemma load_flat_keeps [simp]:
  "pm_ready (s\<lparr>m_cpu := load_flat idx sel (m_cpu s)\<rparr>) = pm_ready s"
  by (simp add: pm_ready_def flat_def paging_on_def load_flat_def Let_def invalidate_fetch_tlb_def)

lemma write_sreg_flat:
  assumes "pm_ready s" "sel \<in> {8, 16}" "idx < 6"
  shows "run_state (write_sreg idx sel) s = ((), s\<lparr>m_cpu := load_flat idx sel (m_cpu s)\<rparr>)"
proof -
  let ?t = "s\<lparr>m_cpu := (m_cpu s)\<lparr>sregs := (sregs (m_cpu s))[idx := sel]\<rparr>\<rparr>"
  have f: "flat ?t" using assms(1) by (simp add: pm_ready_def flat_def paging_on_def)
  have "sel AND 0xFFF8 = sel" using assms(2) by auto
  then show ?thesis
    using assms f gdt_words [OF assms(1,2)]
    by (auto simp: write_sreg_def run_bind run_basic flat_loads pm_ready_def load_flat_def Let_def)
qed


lemma write_sregs_flat:
  assumes "pm_ready s"
  shows "run_state (do { write_sreg CS 0x08; write_sreg DS 0x10; write_sreg ES 0x10; write_sreg FS 0x10; write_sreg GS 0x10; write_sreg SS 0x10 }) s =
    ((), s\<lparr>m_cpu := load_flat SS 16 (load_flat GS 16 (load_flat FS 16 (load_flat ES 16 (load_flat DS 16 (load_flat CS 8 (m_cpu s))))))\<rparr>)"
proof -
  have i: "CS < 6" "DS < 6" "ES < 6" "FS < 6" "GS < 6" "SS < 6" by (simp_all add: CS_def DS_def ES_def FS_def GS_def SS_def)
  have step: "run_state (write_sreg idx 16) (s\<lparr>m_cpu := load_flat j sel c\<rparr>) = ((), s\<lparr>m_cpu := load_flat idx 16 (load_flat j sel c)\<rparr>)"
    if "pm_ready (s\<lparr>m_cpu := c\<rparr>)" "idx < 6" for idx j sel c
    using write_sreg_flat [of "s\<lparr>m_cpu := load_flat j sel c\<rparr>" 16 idx] load_flat_keeps [where s = "s\<lparr>m_cpu := c\<rparr>" and idx = j and sel = sel] that by simp
  have keep: "pm_ready (s\<lparr>m_cpu := load_flat j sel c\<rparr>)" if "pm_ready (s\<lparr>m_cpu := c\<rparr>)" for j sel c
    using load_flat_keeps [where s = "s\<lparr>m_cpu := c\<rparr>" and idx = j and sel = sel] that by simp
  have "run_state (write_sreg CS 8) s = ((), s\<lparr>m_cpu := load_flat CS 8 (m_cpu s)\<rparr>)" using write_sreg_flat [OF assms] i by simp
  then show ?thesis using assms by (simp add: run_bind step keep i)
qed

definition flat_entry :: "u32 \<Rightarrow> cpu \<Rightarrow> bool" where
  "flat_entry entry c \<longleftrightarrow>
     ip c = entry \<and> cr0 c AND 1 = 1 \<and> \<not> paging_on c \<and> cpl c = 0 \<and> code_size_32 c \<and> stack_size_32 c \<and>
     sregs c = [0x10, 0x08, 0x10, 0x10, 0x10, 0x10] \<and>
     list_all (\<lambda>g. sc_base g = 0 \<and> sc_limit g = 0xFFFFFFFF) (seg_cache c) \<and> length (seg_cache c) = 6 \<and>
     map (read_r32 c) [of_nat SI, of_nat BP, of_nat DI, of_nat BX, of_nat SP] = [0x90000, 0, 0, 0, 0x7C00] \<and>
     flags c AND IF = 0"

lemma pm_setup_run:
  fixes s entry
  assumes "flat s" "0x518 \<le> mem_size (m_mem s)"
  defines "c0 \<equiv> (m_cpu s)\<lparr>cr0 := cr0 (m_cpu s) OR 1, gdtr := \<lparr>dt_limit = 0x17, dt_base = 0x500\<rparr>\<rparr>"
  defines "c1 \<equiv> load_flat SS 16 (load_flat GS 16 (load_flat FS 16 (load_flat ES 16 (load_flat DS 16 (load_flat CS 8 c0)))))"
  defines "c2 \<equiv> write_r32 (write_r32 (write_r32 (write_r32 (write_r32 (c1\<lparr>stack_size_32 := True, ip := entry\<rparr>) 6 0x90000) 5 0) 7 0) 3 0) 4 0x7C00"
  shows "m_cpu (snd (run_state (pm_cpu_setup entry) s)) = c2\<lparr>flags := flags c2 AND NOT IF\<rparr>"
proof -
  let ?s = "s\<lparr>m_mem := write_slice (m_mem s) 0x500 GDT, m_cpu := c0\<rparr>"
  have len: "length GDT = 24" by (simp add: GDT_def)
  have "mem_bytes (write_slice (m_mem s) 0x500 GDT) = put (mem_bytes (m_mem s)) 0x500 GDT"
    using assms(2) len by (simp add: write_slice_put mem_size_def)
  then have "lies_at (mem_bytes (write_slice (m_mem s) 0x500 GDT)) 0x500 GDT"
    using lies_at_put [of "0x500" GDT "mem_bytes (m_mem s)"] assms(2) len by (simp add: mem_size_def)
  moreover have "(cr0 (m_cpu s) OR 1) AND 1 \<noteq> 0"
  proof
    assume "(cr0 (m_cpu s) OR 1) AND 1 = 0"
    then have "bit ((cr0 (m_cpu s) OR 1) AND 1) 0 = bit (0 :: u32) 0" by simp
    then show False by (simp add: bit_simps)
  qed
  ultimately have r: "pm_ready ?s"
    using assms(1,2) by (simp add: pm_ready_def flat_def paging_on_def c0_def mem_size_def bit_simps)
  note loads = write_sregs_flat [OF r, simplified run_bind]
  show ?thesis
    unfolding pm_cpu_setup_def
    using loads by (simp add: case_prod_beta run_bind run_basic run_phys c2_def c1_def SI_def BP_def DI_def BX_def SP_def c0_def)
qed

lemma pm_setup_entry:
  assumes "flat s" "0x518 \<le> mem_size (m_mem s)" "cpu_wf (m_cpu s)"
  shows "flat_entry entry (m_cpu (snd (run_state (pm_cpu_setup entry) s)))"
proof -
  obtain a0 a1 a2 a3 a4 a5 where sr: "sregs (m_cpu s) = [a0, a1, a2, a3, a4, a5]"
    using assms(3) by (auto simp: cpu_wf_def length_Suc_conv numeral_eq_Suc)
  obtain b0 b1 b2 b3 b4 b5 where sc: "seg_cache (m_cpu s) = [b0, b1, b2, b3, b4, b5]"
    using assms(3) by (auto simp: cpu_wf_def length_Suc_conv numeral_eq_Suc)
  have l: "length (regs (m_cpu s)) = 8" "length (regs_high (m_cpu s)) = 8" using assms(3) by (simp_all add: cpu_wf_def)
  have "(cr0 (m_cpu s) OR 1) AND 1 = 1" by (rule bit_word_eqI) (auto simp: bit_simps)
  moreover have "\<not> bit (cr0 (m_cpu s) OR 1) 31" using assms(1) by (simp add: flat_def paging_on_def bit_simps)
  moreover have "(x AND NOT IF) AND IF = 0" for x by (rule bit_word_eqI) (auto simp: bit_simps)
  ultimately show ?thesis
    unfolding pm_setup_run [OF assms(1,2)]
    by (simp add: flat_entry_def load_flat_def Let_def write_r32_def read_r32_def cpl_def paging_on_def invalidate_fetch_tlb_def sr sc l
        CS_def SS_def DS_def ES_def FS_def GS_def SI_def BP_def DI_def BX_def SP_def)
qed

text \<open>
  C21: The 32-bit entry hands the kernel the state the boot protocol asks for.  With paging off and the low page
  present, after \<^verbatim>\<open>start_protected_mode_at(entry)\<close> the processor is at \<open>entry\<close> in ring 0 of 32-bit protected mode
  without paging, every segment is flat (base 0, limit 4 GiB, CS = 8 and the others 16) because the descriptors were read
  back from the table just written, ESI points at \<^verbatim>\<open>boot_params\<close>, EBP, EDI and EBX are zero, ESP is 0x7C00, interrupts
  are off, and the queued autorun commands are in the UART's receive queue with none left.
\<close>

theorem pm_entry_state:
  assumes "flat (vm_machine v)" "cpu_wf (vm_cpu v)" "0x518 \<le> mem_size (vm_mem v)"
  shows "flat_entry entry (vm_cpu (start_protected_mode_at v entry)) \<and> vm_autorun (start_protected_mode_at v entry) = [] \<and>
    vm_booted (start_protected_mode_at v entry)"
  using pm_setup_entry [OF assms(1,3,2)]
  by (simp add: start_protected_mode_at_def Let_def deliver_autorun_def with_io_def with_mem_def on_machine_def case_prod_beta)

lemma fresh_flat: "n \<le> 2 ^ 32 \<Longrightarrow> flat (vm_machine (with_ram_size None n))" "cpu_wf (vm_cpu (with_ram_size None n))"
  "mem_size (vm_mem (with_ram_size None n)) = n"
  by (simp_all add: with_ram_size_def flat_def paging_on_def cpu_new_def cpu_wf_def mem_size_def mem_new_def RW_TLB_WAYS_def)

theorem pm_entry_state_witness: "flat_entry 0x100000 (vm_cpu (start_protected_mode_at (with_ram_size None 0x200000) 0x100000))"
  using pm_entry_state [of "with_ram_size None 0x200000" "0x100000"] fresh_flat [of "0x200000"] by simp

section \<open>The memory map of the entry\<close>

text \<open>
  C22: The memory map the 32-bit entry leaves in \<^verbatim>\<open>boot_params\<close>.  With at least one and at most 4096 MiB of RAM the
  table at 0x902D0 holds the entries and the byte at 0x901E8 their number; the entries follow one another without gap or
  overlap and cover exactly the RAM, whatever framebuffer the host enabled; without one they are the map the BIOS
  reports; a framebuffer above the first megabyte is a reserved entry of its own, one at or below it is not (the map is
  then the plain one).
\<close>

theorem pm_memory_map:
  assumes "0x100000 \<le> mem_size (vm_mem v)" "mem_size (vm_mem v) \<le> 2 ^ 32"
    and "vm_fb v = None \<or> (\<exists>u x y t. v = enable_linear_framebuffer u x y t)"
  shows "lies_at (mem_bytes (vm_mem (start_protected_mode_at v entry))) 0x902D0
      (concat (map e820_bytes (e820_entries (vm_fb v) (mem_size (vm_mem v))))) \<and>
    mem_bytes (vm_mem (start_protected_mode_at v entry)) ! 0x901E8 = of_nat (length (e820_entries (vm_fb v) (mem_size (vm_mem v)))) \<and>
    covers 0 (e820_entries (vm_fb v) (mem_size (vm_mem v))) = Some (mem_size (vm_mem v)) \<and>
    (vm_fb v = None \<longrightarrow> e820_entries (vm_fb v) (mem_size (vm_mem v)) = e820_map (mem_size (vm_mem v))) \<and>
    (\<forall>f. vm_fb v = Some f \<longrightarrow> 0x100000 < unat (fb_base f) \<longrightarrow>
       (unat (fb_base f), unat (fb_size f), 2) \<in> set (e820_entries (vm_fb v) (mem_size (vm_mem v)))) \<and>
    (\<forall>f. vm_fb v = Some f \<longrightarrow> unat (fb_base f) \<le> 0x100000 \<longrightarrow>
       e820_entries (vm_fb v) (mem_size (vm_mem v)) = e820_map (mem_size (vm_mem v)))"
proof (intro conjI)
  have fb: "fb_reserved (vm_fb v) (mem_size (vm_mem v))"
  proof -
    have mem: "vm_mem (enable_linear_framebuffer u x y t) = vm_mem u" for u x y t by (simp add: enable_linear_framebuffer_def Let_def)
    from assms(3) show ?thesis
    proof (elim disjE exE)
      fix u x y t
      assume "v = enable_linear_framebuffer u x y t"
      then show ?thesis using enable_fb_reserved [of u x y t] by (simp add: mem)
    qed (simp add: fb_reserved_def)
  qed
  let ?m = "m_mem (snd (run_state (pm_cpu_setup entry) (vm_machine v)))"
  have m: "vm_mem (start_protected_mode_at v entry) = write_boot_params (vm_fb v) ?m"
    by (simp add: start_protected_mode_at_def Let_def deliver_autorun_def with_io_def with_mem_def on_machine_def case_prod_beta)
  show "lies_at (mem_bytes (vm_mem (start_protected_mode_at v entry))) 0x902D0
      (concat (map e820_bytes (e820_entries (vm_fb v) (mem_size (vm_mem v)))))"
    "mem_bytes (vm_mem (start_protected_mode_at v entry)) ! 0x901E8 = of_nat (length (e820_entries (vm_fb v) (mem_size (vm_mem v))))"
    using write_boot_params_table [of ?m "vm_fb v"] assms(1,2) pm_size [of entry "vm_machine v"] by (simp_all add: m)
  show "covers 0 (e820_entries (vm_fb v) (mem_size (vm_mem v))) = Some (mem_size (vm_mem v))"
    by (rule e820_covers [OF assms(1) fb])
qed (auto simp: e820_agrees e820_entries_def e820_map_def Let_def)

lemma framed_vm:
  "vm_fb (enable_linear_framebuffer (with_ram_size None 0x1000000) 640 480 0x23) =
     Some \<lparr>fb_base = 0xED4000, fb_size = 0x12C000, fb_width = 640, fb_height = 480, fb_stride = 2560, fb_bpp = 32, fb_video_type = 0x23\<rparr>"
  "mem_size (vm_mem (enable_linear_framebuffer (with_ram_size None 0x1000000) 640 480 0x23)) = 0x1000000"
  by (simp_all add: enable_linear_framebuffer_def fresh_flat(3) sat_mul32_def sat_add32_def sat_sub32_def Let_def)

theorem pm_memory_map_witness:
  "0xED4000 + 0x12C000 = (0x1000000 :: nat) \<and>
   (0xED4000, 0x12C000, 2) \<in> set (e820_entries (vm_fb (enable_linear_framebuffer (with_ram_size None 0x1000000) 640 480 0x23)) 0x1000000)"
proof -
  let ?v = "enable_linear_framebuffer (with_ram_size None 0x1000000) 640 480 0x23"
  have "vm_fb ?v = None \<or> (\<exists>u x y t. ?v = enable_linear_framebuffer u x y t)" by blast
  then show ?thesis using pm_memory_map [of ?v 0] by (simp add: framed_vm)
qed

end
