(* ===== verification/Spec2Isabelle.thy ===== *)
theory Spec2Isabelle
  imports Memory IoBus Scancode F64 CpuFlow NetSwitch NetNat VmPaged VmLoad VmClock VmScreen VmSnapshot VmMachine VmBoot
begin

text \<open>
  Verification of wwwvm, an x86 PC emulator written in Rust.

  \<^bold>\<open>The program.\<close>  A machine is a CPU (\<^verbatim>\<open>crates/cpu\<close>), physical memory with a local APIC and an HPET
  (\<^verbatim>\<open>crates/mem\<close>) and a bus of port devices (\<^verbatim>\<open>crates/devices\<close>); \<^verbatim>\<open>Cpu::step\<close> takes all three by mutable
  reference and executes one instruction.  The vm crate (\<^verbatim>\<open>crates/vm\<close>) owns them: it loads and boots guests,
  serves the BIOS calls, runs the step in loops, saves and restores the machine.  The network crate (\<^verbatim>\<open>crates/net\<close>) connects the network card's
  frames to the outside: a learning switch between machines, and a gateway that answers DNS and
  translates TCP flows.

  \<^bold>\<open>Correspondence.\<close>  Machine integers are words of their width and wrap where the source wraps; byte
  buffers are lists; a struct is a record and an enum a datatype with the source's constructors; a
  mutable reference is a state passed and returned; a Rust error is \<open>Inl\<close> or \<open>None\<close>.

  \<^item> \<open>Prelude\<close>: the machine types, little-endian encoding, byte buffers, generic lemmas.
  \<^item> \<open>Memory\<close>: \<^verbatim>\<open>mem/src/lib.rs\<close>; RAM and its fast paths, the LAPIC and HPET windows and timers.
  \<^item> \<open>IoDevice\<close>: the port-device interface as a locale; \<open>Uart\<close>, \<open>Pic\<close>, \<open>Pit\<close>, \<open>Cmos\<close>, \<open>Ata\<close>, \<open>Pci\<close>,
    \<open>Rtl8139\<close>, \<open>Keyboard\<close>, \<open>Scancode\<close>: one theory per file of \<^verbatim>\<open>devices/src\<close> (\<open>Ata\<close> holds \<^verbatim>\<open>disk.rs\<close> too).
    \<open>IoBus\<close> is \<^verbatim>\<open>devices/src/lib.rs\<close>: routing, interrupt latching, the cascaded PICs, the snapshot of
    all devices.
  \<^item> \<open>F80\<close>: \<^verbatim>\<open>cpu/src/f80.rs\<close>, the 80-bit floating-point format; \<open>F64\<close>: its conversions through the host's
    f64, whose cast and scaling are modelled on bit patterns.
  \<^item> \<open>CpuState\<close>, \<open>CpuAlu\<close>, \<open>CpuShift\<close>: the register file, flags, ALU and shift unit of \<^verbatim>\<open>cpu/src/lib.rs\<close>;
    \<open>CpuPaging\<close>: page walks, translation caches and the checked memory accesses.
  \<^item> \<open>CpuExec\<close>: the machine record (CPU, memory, bus), the state monad of the handlers, instruction fetch,
    addressing, operands, stack, segments and the task-state segment.  \<open>CpuInterrupt\<close>: interrupt entry,
    exceptions, port access.  \<open>CpuString\<close>: string instructions and REP.  \<open>CpuOps\<close>, \<open>CpuOps2\<close>,
    \<open>CpuOps0F\<close>: one definition per arm of the opcode matches.  \<open>CpuStep\<close>: device ticks, interrupt
    delivery, prefixes, dispatch, the roll-back of faulting instructions, HLT.
  \<^item> \<open>NetText\<close>: Rust's strings, UTF-8, network byte order and IPv4 addresses.  \<open>NetAllow\<close>, \<open>NetDns\<close>,
    \<open>NetForward\<close>, \<open>NetSwitch\<close>, \<open>NetQueue\<close>, \<open>NetNat\<close>: the files of \<^verbatim>\<open>net/src\<close> (\<open>NetDns\<close> holds \<^verbatim>\<open>util.rs\<close>,
    \<open>NetQueue\<close> the channels of \<^verbatim>\<open>relay.rs\<close>, \<open>NetNat\<close> the queues of \<^verbatim>\<open>device.rs\<close>).
  \<^item> The vm crate, \<^verbatim>\<open>vm/src\<close>.  \<open>VmBios\<close>: the BIOS hook of \<^verbatim>\<open>lib.rs\<close> (\<^verbatim>\<open>bios_int10\<close> to \<^verbatim>\<open>bios_int1a\<close>) as state-monad
    handlers; \<open>VmScreen\<close>: the text screen the host reads.  \<open>VmLoad\<close>: \<^verbatim>\<open>elf.rs\<close>, \<^verbatim>\<open>bzimage.rs\<close> and the layout
    of kernel, command line and ramdisk.  \<open>VmPaged\<close>: the module \<^verbatim>\<open>paged\<close> (content-addressed snapshots, export
    buffer).  \<open>VmClock\<close>: \<^verbatim>\<open>civil_from_unix_secs\<close>.  \<open>VmSnapshot\<close>: the \<^verbatim>\<open>Vm\<close> struct as the record \<open>vm\<close>,
    \<^verbatim>\<open>snapshot\<close> and \<^verbatim>\<open>restore\<close> for format versions 1 to 16, one definition per version's extension.
    \<open>VmMachine\<close>: every other operation of \<^verbatim>\<open>Vm\<close> (loading, boot, kernel entries, framebuffer, input, output,
    frames, the three run loops, the bundled guests).  \<open>VmBoot\<close>: what the 32-bit kernel entry leaves behind.

  \<^bold>\<open>What is shown.\<close>

  \<^item> The machine as a whole: every machine reached from construction by host operations, restores of
    arbitrary bytes and steps keeps its array sizes and the device invariants (\<open>VmMachine\<close>, over \<open>CpuFrame\<close>);
    an instruction started in user mode leaves the system registers alone.  Frame
    lemmas for several hundred handlers are proved once, in locales over any relation that the
    primitive actions respect, and interpreted for each relation.
  \<^item> Memory and paging: the translation caches are transparent and the paged accesses implement a
    byte-wise specification, faults included.
  \<^item> Control flow (\<open>CpuFlow\<close>): interrupt entry and IRET, faulting instructions restarted, REP ends and REP
    MOVSB copies, HLT wakes.
  \<^item> Arithmetic: flags, shifts, conditions, and the 80-bit operations against exact integers and
    rationals.
  \<^item> Devices: timers fire when they should, interrupts are latched, prioritised and acknowledged, the
    receive ring is a queue of frames, PIO transfers and snapshots round-trip.
  \<^item> The vm crate: a snapshot restores and saves to the same bytes, a cut one is rejected; slices of a run add
    up to the run, and each loop stops for the reason it reports; loaders put every byte where the headers say;
    the kernel entry gives the registers and the memory map the boot protocol asks for; BIOS disk transfers
    round-trip, teletype output is visible and screen services write nothing but the screen; the memory-map
    walk ends; dates are calendar dates.
  \<^item> Network: the gateway opens only permitted destinations, byte streams lose nothing, DNS lookups work
    end to end, the switch implements its specification.

  Definitions that show a defect of the source keep it, and the lemma says so
  (\<open>F80.f80_frndint_wraps\<close>, \<open>CpuFlow.push16_leaves_segment\<close>, \<open>NetAllow.bad_port_opens_host\<close>,
  \<open>Ata.ata_read_256_blank\<close>, \<open>VmBios.bios_bypasses_gates\<close>, \<open>VmSnapshot.restore_error_partial\<close>,
  \<open>VmSnapshot.restore_keeps_translations\<close>).

  \<^bold>\<open>Fuel.\<close>  The prefix loops of the instruction decoder have no bound in the source, so they take fuel and
  \<open>OutOfFuel\<close> is a result of its own; every statement about a step holds for every fuel.  REP takes the
  count register plus one, which \<open>rep_terminates\<close> shows is enough.  The DNS service drains a socket
  of eight slots with nine rounds.  The search for a free connection id is a partial function, shown to
  return whenever an id is free.  The run loops pass the fuel of a step on and end with \<open>Unfinished\<close> if one
  runs out.  All other loops are total.  Buffer lengths (\<^verbatim>\<open>usize\<close>) are natural numbers: sums of lengths and of
  32-bit fields cannot reach 2 to the 64.

  \<^bold>\<open>Parameters.\<close>  The x87, MMX and SSE handlers of a step are functions of the record \<open>handlers\<close> the step takes,
  and so is the BIOS hook, which the machine sets to the modelled one; the smoltcp library is a record of
  its operations (\<open>tcpip\<close>), with its documented contract as a hypothesis (\<open>tcp_contract\<close>) where bytes are
  counted; the hash of the snapshot pages is a function to digests of 32 bytes; the host's time is an argument.

  \<^bold>\<open>Not modelled.\<close>  The x87, MMX and SSE instruction handlers, which mix the modelled 80-bit arithmetic with
  host \<^verbatim>\<open>f32\<close> and \<^verbatim>\<open>f64\<close> arithmetic; diagnostic dumps (instruction trace, interrupt report), which only
  print; the native relay's threads, the proxy, the snapshot store and the browser bindings, which are
  sockets, files and glue; the examples, tests, page and scripts.
\<close>

end
